(* ===== verification/Floats.thy ===== *)
theory Floats
  imports Prelude Complex_Main "HOL-Library.Log_Nat"
begin

text \<open>
  Go's \<^verbatim>\<open>float64\<close>: the finite numbers are rationals, and every operation rounds its
  exact result to 53 significant bits, halves to even, as IEEE 754 prescribes. Overflow,
  subnormal numbers, infinities and NaN are outside the model (no JSON number decodes to
  one of the last two). \<open>f2i\<close> is the conversion \<^verbatim>\<open>int(x)\<close>, which truncates; a
  value out of range gives the smallest integer, as on the 64-bit targets.
\<close>

type_synonym float64 = rat

definition pow2 :: "int \<Rightarrow> rat" where
  "pow2 k = (if 0 \<le> k then 2 ^ nat k else 1 / 2 ^ nat (- k))"

definition round_even :: "rat \<Rightarrow> int" where
  "round_even y =
     (let f = floor y; r = y - of_int f
      in if r < 1 / 2 then f else if 1 / 2 < r then f + 1 else if even f then f else f + 1)"

text \<open>The binary exponent of a positive rational: \<open>pow2 e \<le> x < pow2 (e + 1)\<close>.\<close>

definition expo :: "rat \<Rightarrow> int" where
  "expo x =
     (let (p, q) = quotient_of x;
          k = int (floorlog 2 (nat p)) - int (floorlog 2 (nat q))
      in if x < pow2 k then k - 1 else k)"

definition fl :: "rat \<Rightarrow> float64" where
  "fl x = (if x = 0 then 0
     else let s = 52 - expo \<bar>x\<bar> in of_int (round_even (x * pow2 s)) * pow2 (- s))"

definition fadd :: "float64 \<Rightarrow> float64 \<Rightarrow> float64" where "fadd x y = fl (x + y)"
definition fmul :: "float64 \<Rightarrow> float64 \<Rightarrow> float64" where "fmul x y = fl (x * y)"
definition fdiv :: "float64 \<Rightarrow> float64 \<Rightarrow> float64" where "fdiv x y = fl (x / y)"

definition i2f :: "int \<Rightarrow> float64" where "i2f n = fl (of_int n)"

definition trunc_rat :: "rat \<Rightarrow> int" where
  "trunc_rat x = (if 0 \<le> x then floor x else - floor (- x))"

definition f2i :: "float64 \<Rightarrow> int" where
  "f2i x = (if in_i64 (trunc_rat x) then trunc_rat x else i64_min)"

text \<open>Integer division of Go truncates towards zero.\<close>

definition go_quot :: "int \<Rightarrow> int \<Rightarrow> int" where
  "go_quot a b = sgn a * sgn b * (\<bar>a\<bar> div \<bar>b\<bar>)"

definition go_rem :: "int \<Rightarrow> int \<Rightarrow> int" where
  "go_rem a b = a - b * go_quot a b"

lemma pow2_pos [simp]: "0 < pow2 k"
  by (simp add: pow2_def)

lemma pow2_neg_cancel [simp]: "pow2 k * pow2 (- k) = 1"
  by (cases "k = 0") (auto simp: pow2_def)

lemma round_even_of_int [simp]: "round_even (of_int n) = n"
  by (simp add: round_even_def Let_def)

lemma round_even_nonneg: "0 \<le> y \<Longrightarrow> 0 \<le> round_even y"
  by (simp add: round_even_def Let_def)

lemma fl_0 [simp]: "fl 0 = 0"
  by (simp add: fl_def)

lemma fl_nonneg: "0 \<le> x \<Longrightarrow> 0 \<le> fl x"
  by (auto simp: fl_def Let_def intro!: mult_nonneg_nonneg round_even_nonneg less_imp_le [OF pow2_pos])

lemma fadd_nonneg [simp]: "0 \<le> x \<Longrightarrow> 0 \<le> y \<Longrightarrow> 0 \<le> fadd x y"
  by (simp add: fadd_def fl_nonneg)

lemma fmul_nonneg [simp]: "0 \<le> x \<Longrightarrow> 0 \<le> y \<Longrightarrow> 0 \<le> fmul x y"
  by (simp add: fmul_def fl_nonneg)

lemma fl_scaled_int:
  assumes "x \<noteq> 0" and "expo \<bar>x\<bar> \<le> 52" and "x = of_int n"
  shows "fl x = x"
proof -
  define s where "s = 52 - expo \<bar>x\<bar>"
  have p: "pow2 s = of_int (2 ^ nat s)" using assms(2) by (simp add: pow2_def s_def)
  have "x * pow2 s = of_int (n * 2 ^ nat s)" by (simp add: p assms(3))
  then have "round_even (x * pow2 s) = n * 2 ^ nat s" by (simp only: round_even_of_int)
  then have "fl x = of_int (n * 2 ^ nat s) * pow2 (- s)"
    using assms(1) by (simp add: fl_def Let_def s_def)
  also have "\<dots> = of_int n * (pow2 s * pow2 (- s))" by (simp add: p)
  also have "\<dots> = x" by (simp only: pow2_neg_cancel assms(3) mult_1_right)
  finally show ?thesis .
qed

lemma expo_int_le:
  assumes "n \<noteq> 0" and "\<bar>n\<bar> < 2 ^ 53"
  shows "expo \<bar>of_int n :: rat\<bar> \<le> 52"
proof -
  have q: "quotient_of \<bar>of_int n :: rat\<bar> = (\<bar>n\<bar>, 1)"
    by (simp flip: of_int_abs)
  have "nat \<bar>n\<bar> < 2 ^ 53" using assms(2) by (simp add: nat_less_iff)
  then have "floorlog 2 (nat \<bar>n\<bar>) \<le> 53" using floorlog_leI [of "nat \<bar>n\<bar>" 2 53] by simp
  moreover have "floorlog 2 (nat 1) = 1" by (simp add: floorlog_def)
  ultimately show ?thesis by (simp add: expo_def q Let_def)
qed

lemma fl_int_exact: "\<bar>n\<bar> < 2 ^ 53 \<Longrightarrow> fl (of_int n) = of_int n"
  using fl_scaled_int [of "of_int n" n] expo_int_le [of n] by (cases "n = 0") auto

text \<open>Evaluation goes through the exact integers, where no rounding has to be computed.\<close>

lemma fl_code [code]:
  "fl x = (case quotient_of x of (p, q) \<Rightarrow>
     if q = 1 \<and> \<bar>p\<bar> < 9007199254740992 then x
     else let s = 52 - expo \<bar>x\<bar> in of_int (round_even (x * pow2 s)) * pow2 (- s))"
proof (cases "quotient_of x")
  case (Pair p q)
  show ?thesis
  proof (cases "q = 1 \<and> \<bar>p\<bar> < 9007199254740992")
    case True
    then have "x = of_int p" using quotient_of_div [OF Pair] by simp
    then show ?thesis using fl_int_exact [of p] True by (simp add: Pair)
  next
    case False
    then have "x \<noteq> 0" using Pair by auto
    then show ?thesis by (simp only: Pair fl_def prod.case if_not_P [OF False] if_False)
  qed
qed

lemma i2f_exact: "\<bar>n\<bar> < 2 ^ 53 \<Longrightarrow> i2f n = of_int n"
  by (simp add: i2f_def fl_int_exact)

lemma fadd_int_exact: "\<bar>a + b\<bar> < 2 ^ 53 \<Longrightarrow> fadd (of_int a) (of_int b) = of_int (a + b)"
  using fl_int_exact [of "a + b"] by (simp add: fadd_def)

lemma go_quot_nonneg [simp]: "0 \<le> a \<Longrightarrow> 0 < b \<Longrightarrow> go_quot a b = a div b"
  by (cases "a = 0") (simp_all add: go_quot_def)

lemma go_rem_nonneg [simp]: "0 \<le> a \<Longrightarrow> 0 < b \<Longrightarrow> go_rem a b = a mod b"
  by (simp add: go_rem_def minus_mult_div_eq_mod)

subsection \<open>Rounding is monotone\<close>

lemma pow2_powi: "pow2 k = power_int 2 k"
  by (simp add: pow2_def power_int_def power_one_over inverse_eq_divide)

lemma pow2_add: "pow2 (a + b) = pow2 a * pow2 b"
  by (simp add: pow2_powi power_int_add)

lemma pow2_mono: "a \<le> b \<Longrightarrow> pow2 a \<le> pow2 b"
  by (simp add: pow2_powi power_int_increasing)

lemma pow2_less: "pow2 a < pow2 b \<Longrightarrow> a < b"
  using pow2_mono [of b a] by (meson not_le)

lemma pow2_nat: "pow2 (int n) = of_int (2 ^ n)"
  by (simp add: pow2_def)

lemma floorlog_range:
  assumes "0 < p"
  shows "pow2 (int (floorlog 2 (nat p)) - 1) \<le> of_int p" "of_int p < pow2 (int (floorlog 2 (nat p)))"
proof -
  let ?a = "floorlog 2 (nat p)"
  have b: "2 ^ (?a - 1) \<le> nat p" "nat p < 2 ^ ?a" using floorlog_bounds [of "nat p" 2] assms by simp_all
  have a: "0 < ?a" using assms by (simp add: floorlog_def)
  have "int (2 ^ (?a - 1)) \<le> p" "p < int (2 ^ ?a)" using b assms by linarith+
  then have "2 ^ (?a - 1) \<le> p" "p < 2 ^ ?a" by simp_all
  then have "(of_int (2 ^ (?a - 1)) :: rat) \<le> of_int p" "(of_int p :: rat) < of_int (2 ^ ?a)"
    by (simp_all only: of_int_le_iff of_int_less_iff)
  moreover have "int ?a - 1 = int (?a - 1)" using a by simp
  ultimately show "pow2 (int ?a - 1) \<le> of_int p" "of_int p < pow2 (int ?a)"
    by (simp_all only: pow2_nat)
qed

lemma expo_correct:
  assumes "0 < x"
  shows "pow2 (expo x) \<le> x" "x < pow2 (expo x + 1)"
proof -
  obtain p q where pq: "quotient_of x = (p, q)" by (cases "quotient_of x")
  have q: "0 < q" using quotient_of_denom_pos [OF pq] .
  have x: "x * of_int q = of_int p" using quotient_of_div [OF pq] q by simp
  have "0 < x * of_int q" using assms q by simp
  then have p: "0 < p" using x by simp
  define a b where "a = int (floorlog 2 (nat p))" and "b = int (floorlog 2 (nat q))"
  note P = floorlog_range [OF p, folded a_def] and Q = floorlog_range [OF q, folded b_def]
  have e: "expo x = (if x < pow2 (a - b) then a - b - 1 else a - b)"
    by (simp add: expo_def pq a_def b_def Let_def)
  have "pow2 (a - b - 1) * pow2 b = pow2 (a - 1)" by (simp flip: pow2_add)
  then have "pow2 (a - b - 1) * of_int q \<le> x * of_int q"
    using P(1) Q(2) x pow2_pos [of "a - b - 1"]
    by (metis dual_order.trans less_imp_le mult_left_mono)
  then have lo: "pow2 (a - b - 1) \<le> x" using q by simp
  have "pow2 (a - b + 1) * pow2 (b - 1) = pow2 a" by (simp flip: pow2_add)
  then have "x * of_int q < pow2 (a - b + 1) * of_int q"
    using P(2) Q(1) x pow2_pos [of "a - b + 1"]
    by (metis less_imp_le mult_left_mono order.strict_trans2)
  then have hi: "x < pow2 (a - b + 1)" using q by simp
  show "pow2 (expo x) \<le> x" "x < pow2 (expo x + 1)" using lo hi e by (auto simp: not_less)
qed

lemma round_even_near: "floor y \<le> round_even y" "round_even y \<le> floor y + 1"
  by (simp_all add: round_even_def Let_def)

lemma round_even_mono: "x \<le> y \<Longrightarrow> round_even x \<le> round_even y"
proof (cases "floor x = floor y")
  case True
  then show "x \<le> y \<Longrightarrow> round_even x \<le> round_even y" by (auto simp: round_even_def Let_def)
next
  case False
  assume "x \<le> y"
  then have "floor x + 1 \<le> floor y" using False floor_mono [of x y] by linarith
  then show "round_even x \<le> round_even y" using round_even_near(2) [of x] round_even_near(1) [of y] by linarith
qed

lemma fl_pos_eq: "0 < x \<Longrightarrow> fl x = of_int (round_even (x * pow2 (52 - expo x))) * pow2 (expo x - 52)"
  by (simp add: fl_def Let_def)

lemma fl_pos_bounds:
  assumes "0 < x" shows "pow2 (expo x) \<le> fl x" "fl x \<le> pow2 (expo x + 1)"
proof -
  let ?s = "52 - expo x" let ?m = "round_even (x * pow2 ?s)"
  note e = expo_correct [OF assms]
  have k: "pow2 (int n + (expo x - 52)) = of_int (2 ^ n) * pow2 (expo x - 52)" for n
    by (simp only: pow2_add pow2_nat)
  have "pow2 (expo x) * pow2 ?s \<le> x * pow2 ?s" using e(1) by (simp add: mult_right_mono less_imp_le)
  then have "of_int (2 ^ 52) \<le> x * pow2 ?s" using pow2_nat [of 52] by (simp flip: pow2_add)
  then have "2 ^ 52 \<le> ?m" using round_even_mono round_even_of_int by metis
  then have "of_int (2 ^ 52) * pow2 (expo x - 52) \<le> of_int ?m * pow2 (expo x - 52)"
    by (intro mult_right_mono) (simp_all only: of_int_le_iff less_imp_le pow2_pos)
  then show "pow2 (expo x) \<le> fl x" using fl_pos_eq [OF assms] k [of 52] by simp
  have "x * pow2 ?s \<le> pow2 (expo x + 1) * pow2 ?s" using e(2) by (simp add: mult_right_mono less_imp_le)
  then have "x * pow2 ?s \<le> of_int (2 ^ 53)" using pow2_nat [of 53] by (simp flip: pow2_add)
  then have "?m \<le> 2 ^ 53" using round_even_mono round_even_of_int by metis
  then have "of_int ?m * pow2 (expo x - 52) \<le> of_int (2 ^ 53) * pow2 (expo x - 52)"
    by (intro mult_right_mono) (simp_all only: of_int_le_iff less_imp_le pow2_pos)
  then show "fl x \<le> pow2 (expo x + 1)" using fl_pos_eq [OF assms] k [of 53] by (simp add: algebra_simps)
qed

lemma fl_mono:
  assumes "0 \<le> x" "x \<le> y"
  shows "fl x \<le> fl y"
proof (cases "x = 0")
  case True
  then show ?thesis using assms fl_nonneg by simp
next
  case False
  then have x: "0 < x" and y: "0 < y" using assms by simp_all
  have "pow2 (expo x) < pow2 (expo y + 1)" using expo_correct [OF x] expo_correct [OF y] assms(2) by linarith
  then have le: "expo x \<le> expo y" using pow2_less by fastforce
  show ?thesis
  proof (cases "expo x = expo y")
    case True
    have "round_even (x * pow2 (52 - expo x)) \<le> round_even (y * pow2 (52 - expo x))"
      by (intro round_even_mono mult_right_mono) (simp_all add: assms(2) less_imp_le)
    then show ?thesis using fl_pos_eq [OF x] fl_pos_eq [OF y] True
      by (simp add: mult_right_mono less_imp_le)
  next
    case False
    then have "pow2 (expo x + 1) \<le> pow2 (expo y)" using le by (intro pow2_mono) simp
    then show ?thesis using fl_pos_bounds(2) [OF x] fl_pos_bounds(1) [OF y] by linarith
  qed
qed

lemma fmul_le:
  assumes "0 \<le> x" "fl x = x" "0 \<le> s" "s \<le> 1"
  shows "fmul x s \<le> x"
  using fl_mono [of "x * s" x] assms mult_left_le [of s x] by (simp add: fmul_def)

lemma fdiv_le_1:
  assumes "0 \<le> x" "x \<le> y" "0 < y"
  shows "0 \<le> fdiv x y" "fdiv x y \<le> 1"
  using fl_mono [of "x / y" 1] fl_nonneg [of "x / y"] fl_int_exact [of 1] assms by (simp_all add: fdiv_def)

end
