(* ===== verification/GoTime.thy ===== *)
theory GoTime
  imports Floats
begin

text \<open>
  The part of Go's package \<^verbatim>\<open>time\<close> the code uses: instants with nanosecond precision and a
  fixed zone offset, the proleptic Gregorian calendar, and the layouts RFC 3339 and
  \<^verbatim>\<open>2006-01-02\<close> in both directions. The parser is the strict one of
  \<^verbatim>\<open>time.Parse\<close>; the lenient second attempt of the library (one-digit hours, a comma before the
  fraction) is not modelled, and a zone is its offset, as for a server that runs in UTC.
\<close>

subsection \<open>Instants and durations\<close>

text \<open>\<open>inst\<close> counts nanoseconds since the Unix epoch, \<open>off\<close> is the zone's offset in seconds.\<close>

record gotime =
  inst :: int
  off :: int

definition ns_per_s :: int where "ns_per_s = 10 ^ 9"
definition minute_ns :: int where "minute_ns = 60 * ns_per_s"
definition hour_ns :: int where "hour_ns = 60 * minute_ns"
definition day_ns :: int where "day_ns = 24 * hour_ns"

lemmas ns_units = ns_per_s_def minute_ns_def hour_ns_def day_ns_def

text \<open>The zero \<^verbatim>\<open>time.Time\<close> is midnight of 1 January of year 1, UTC.\<close>

definition zero_inst :: int where "zero_inst = - 62135596800 * 10 ^ 9"
definition zero_time :: gotime where "zero_time = \<lparr>inst = zero_inst, off = 0\<rparr>"

definition is_zero :: "gotime \<Rightarrow> bool" where "is_zero t \<longleftrightarrow> inst t = zero_inst"
definition after :: "gotime \<Rightarrow> gotime \<Rightarrow> bool" where "after t u \<longleftrightarrow> inst u < inst t"
definition before :: "gotime \<Rightarrow> gotime \<Rightarrow> bool" where "before t u \<longleftrightarrow> inst t < inst u"
definition add :: "gotime \<Rightarrow> int \<Rightarrow> gotime" where "add t d = t\<lparr>inst := inst t + d\<rparr>"
definition sub :: "gotime \<Rightarrow> gotime \<Rightarrow> int" where "sub t u = sat64 (inst t - inst u)"
definition utc :: "gotime \<Rightarrow> gotime" where "utc t = t\<lparr>off := 0\<rparr>"

text \<open>\<^verbatim>\<open>Duration.Seconds\<close>.\<close>

definition seconds :: "int \<Rightarrow> float64" where
  "seconds d = fadd (i2f (go_quot d ns_per_s)) (fdiv (i2f (go_rem d ns_per_s)) (of_int ns_per_s))"

lemma utc_simps [simp]: "inst (utc t) = inst t" "off (utc t) = 0" "utc (utc t) = utc t"
  by (simp_all add: utc_def)

lemma add_simps [simp]: "inst (add t d) = inst t + d" "off (add t d) = off t"
  by (simp_all add: add_def)

lemma utc_id: "off t = 0 \<Longrightarrow> utc t = t"
  by (simp add: utc_def)

lemma seconds_whole: "0 \<le> n \<Longrightarrow> n < 2 ^ 53 \<Longrightarrow> seconds (n * ns_per_s) = of_int n"
  by (simp add: seconds_def ns_per_s_def i2f_exact fdiv_def fadd_def fl_int_exact)

subsection \<open>The calendar\<close>

definition leap :: "int \<Rightarrow> bool" where
  "leap y \<longleftrightarrow> y mod 4 = 0 \<and> (y mod 100 \<noteq> 0 \<or> y mod 400 = 0)"

text \<open>Days from 1 January of year 1 to 1 January of year \<open>y\<close>.\<close>

definition dby :: "int \<Rightarrow> int" where
  "dby y = 365 * (y - 1) + (y - 1) div 4 - (y - 1) div 100 + (y - 1) div 400"

definition dbm :: "bool \<Rightarrow> nat \<Rightarrow> int" where
  "dbm l m = [0, 31, 59, 90, 120, 151, 181, 212, 243, 273, 304, 334, 365] ! (m - 1)
     + (if l \<and> 2 < m then 1 else 0)"

definition days_in :: "int \<Rightarrow> nat \<Rightarrow> int" where
  "days_in y m = dbm (leap y) (m + 1) - dbm (leap y) m"

definition epoch_days :: int where "epoch_days = 719162"

definition valid_civil :: "int \<Rightarrow> nat \<Rightarrow> int \<Rightarrow> bool" where
  "valid_civil y m d \<longleftrightarrow> 1 \<le> m \<and> m \<le> 12 \<and> 1 \<le> d \<and> d \<le> days_in y m"

text \<open>Days since the Unix epoch.\<close>

definition days_of :: "int \<Rightarrow> nat \<Rightarrow> int \<Rightarrow> int" where
  "days_of y m d = dby y + dbm (leap y) m + d - 1 - epoch_days"

definition year_of :: "int \<Rightarrow> int" where
  "year_of n =
     (let y = (400 * n) div 146097 + 1
      in if n < dby y then y - 1 else if dby (y + 1) \<le> n then y + 1 else y)"

fun month_in :: "bool \<Rightarrow> int \<Rightarrow> nat list \<Rightarrow> nat" where
  "month_in l r [] = 12"
| "month_in l r (m # ms) = (if r < dbm l (m + 1) then m else month_in l r ms)"

definition months :: "nat list" where
  "months = [1, 2, 3, 4, 5, 6, 7, 8, 9, 10, 11, 12]"

definition civil_of :: "int \<Rightarrow> int \<times> nat \<times> int" where
  "civil_of z =
     (let n = z + epoch_days; y = year_of n; r = n - dby y;
          m = month_in (leap y) r months
      in (y, m, r - dbm (leap y) m + 1))"

lemma dby_step: "dby (y + 1) = dby y + (if leap y then 366 else 365)"
proof -
  have step: "y div k = (y - 1) div k + (if y mod k = 0 then 1 else 0)" if "0 < k" for k :: int
  proof (cases "y mod k = 0")
    case True
    then obtain q where "y = k * q" by auto
    moreover have "(k * q - 1) div k = q - 1"
      using that by (intro int_div_pos_eq [where r = "k - 1"]) (auto simp: algebra_simps)
    ultimately show ?thesis using that True by simp
  next
    case False
    have "0 \<le> y mod k" "y mod k < k" using that by simp_all
    moreover have "y = k * (y div k) + y mod k" by simp
    moreover have "0 < y mod k" using False calculation(1) by linarith
    ultimately have "(y - 1) div k = y div k"
      by (intro int_div_pos_eq [where r = "y mod k - 1"]) linarith+
    then show ?thesis using False by simp
  qed
  have "y mod 4 = y mod 100 mod 4" by (simp add: mod_mod_cancel)
  then have m100: "y mod 100 = 0 \<Longrightarrow> y mod 4 = 0" by simp
  have "y mod 100 = y mod 400 mod 100" by (simp add: mod_mod_cancel)
  then have m400: "y mod 400 = 0 \<Longrightarrow> y mod 100 = 0" by simp
  have sum: "365 * y + p - q + r
      = (365 * (y - 1) + p' - q' + r') + 365 + (c::int) - c' + c''"
    if "p = p' + c" "q = q' + c'" "r = r' + c''" for p q r p' q' r' c c' c''
    unfolding that by (simp only: algebra_simps)
  have fin: "n + 365 + (if A then 1 else 0) - (if B then 1 else 0) + (if C then 1 else 0)
      = (n :: int) + (if A \<and> (\<not> B \<or> C) then 366 else 365)"
    if "B \<Longrightarrow> A" "C \<Longrightarrow> B" for A B C n
    using that by (cases A; cases B; cases C) simp_all
  have "dby (y + 1) = 365 * y + y div 4 - y div 100 + y div 400" by (simp add: dby_def)
  also have "\<dots> = dby y + 365 + (if y mod 4 = 0 then 1 else 0)
      - (if y mod 100 = 0 then 1 else 0) + (if y mod 400 = 0 then 1 else 0)"
    unfolding dby_def by (rule sum; rule step; simp)
  also have "\<dots> = dby y + (if leap y then 366 else 365)"
    unfolding leap_def by (rule fin [OF m100 m400])
  finally show ?thesis .
qed

lemma dby_bounds: "146097 * (y - 1) - 699 \<le> 400 * dby y" "400 * dby y \<le> 146097 * (y - 1) + 396"
  by (simp add: dby_def; linarith)+

lemma dby_mono_step: "dby y < dby (y + 1)"
  by (simp add: dby_step)

lemma dby_mono: "x < y \<Longrightarrow> dby x < dby y"
proof (induction y rule: int_gr_induct)
  case base show ?case by (rule dby_mono_step)
next
  case (step y) then show ?case using dby_mono_step [of y] by linarith
qed

lemma year_of_correct: "dby (year_of n) \<le> n \<and> n < dby (year_of n + 1)"
proof -
  define q where "q = (400 * n) div 146097"
  have a: "146097 * q \<le> 400 * n" "400 * n < 146097 * (q + 1)" by (simp add: q_def; linarith)+
  have lo: "dby q \<le> n" using a(1) dby_bounds(2) [of q] by (simp add: algebra_simps)
  have hi: "n < dby (q + 1 + 1 + 1)"
    using a(2) dby_bounds(1) [of "q + 1 + 1 + 1"] by (simp add: algebra_simps)
  show ?thesis
    using lo hi by (auto simp: year_of_def Let_def not_less not_le add.assoc simp flip: q_def)
qed

lemma year_of_unique: "dby y \<le> n \<Longrightarrow> n < dby (y + 1) \<Longrightarrow> year_of n = y"
proof -
  assume y: "dby y \<le> n" "n < dby (y + 1)"
  have mono: "dby a \<le> dby b" if "a \<le> b" for a b
    using dby_mono [of a b] that by (cases "a = b") auto
  have "\<not> year_of n + 1 \<le> y" using mono [of "year_of n + 1" y] y year_of_correct [of n] by auto
  moreover have "\<not> y + 1 \<le> year_of n"
    using mono [of "y + 1" "year_of n"] y year_of_correct [of n] by auto
  ultimately show ?thesis by simp
qed

lemma dbm_simps [simp]:
  "dbm l (Suc 0) = 0" "dbm l (Suc (Suc 0)) = 31" "dbm l 2 = 31" "dbm l 3 = 59 + (if l then 1 else 0)"
  "dbm l 4 = 90 + (if l then 1 else 0)" "dbm l 5 = 120 + (if l then 1 else 0)"
  "dbm l 6 = 151 + (if l then 1 else 0)" "dbm l 7 = 181 + (if l then 1 else 0)"
  "dbm l 8 = 212 + (if l then 1 else 0)" "dbm l 9 = 243 + (if l then 1 else 0)"
  "dbm l 10 = 273 + (if l then 1 else 0)" "dbm l 11 = 304 + (if l then 1 else 0)"
  "dbm l 12 = 334 + (if l then 1 else 0)" "dbm l 13 = 365 + (if l then 1 else 0)"
  by (simp_all add: dbm_def)

lemma month_cases:
  assumes "1 \<le> (m::nat)" "m \<le> 12"
  obtains "m = 1" | "m = 2" | "m = 3" | "m = 4" | "m = 5" | "m = 6"
    | "m = 7" | "m = 8" | "m = 9" | "m = 10" | "m = 11" | "m = 12"
  using assms by atomize_elim presburger

lemma month_in_dbm:
  assumes "1 \<le> m" "m \<le> 12" "dbm l m \<le> r" "r < dbm l (m + 1)"
  shows "month_in l r months = m"
  by (rule month_cases [OF assms(1,2)]; cases l; use assms(3,4) in \<open>simp add: months_def\<close>)

lemma month_in_correct:
  assumes "0 \<le> r" "r < (if l then 366 else 365)"
    and "m = month_in l r months"
  shows "1 \<le> m \<and> m \<le> 12 \<and> dbm l m \<le> r \<and> r < dbm l (m + 1)"
  using assms by (cases l) (simp_all add: months_def split: if_splits)

lemma dbm_range:
  assumes "1 \<le> m" "m \<le> 12"
  shows "0 \<le> dbm l m \<and> dbm l m < dbm l (m + 1) \<and> dbm l (m + 1) \<le> (if l then 366 else 365)"
  by (rule month_cases [OF assms]; cases l; simp)

theorem civil_of_days_of: "valid_civil y m d \<Longrightarrow> civil_of (days_of y m d) = (y, m, d)"
proof -
  assume v: "valid_civil y m d"
  then have m: "1 \<le> m" "m \<le> 12" and d: "1 \<le> d" "d \<le> days_in y m"
    by (auto simp: valid_civil_def)
  let ?r = "dbm (leap y) m + d - 1"
  have r: "dbm (leap y) m \<le> ?r" "?r < dbm (leap y) (m + 1)"
    using d by (auto simp: days_in_def)
  have n: "days_of y m d + epoch_days = dby y + ?r" by (simp add: days_of_def)
  have "year_of (dby y + ?r) = y"
    using r dbm_range [OF m, of "leap y"] by (intro year_of_unique) (auto simp: dby_step)
  then show ?thesis
    using month_in_dbm [OF m r] by (simp add: civil_of_def Let_def n)
qed

theorem days_of_civil_of:
  "civil_of z = (y, m, d) \<Longrightarrow> days_of y m d = z \<and> valid_civil y m d"
proof -
  assume c: "civil_of z = (y, m, d)"
  let ?n = "z + epoch_days"
  have y: "y = year_of ?n" using c by (simp add: civil_of_def Let_def)
  let ?r = "?n - dby y"
  have r: "0 \<le> ?r" "?r < (if leap y then 366 else 365)"
    using year_of_correct [of ?n] by (auto simp: y dby_step)
  have m: "m = month_in (leap y) ?r months"
    and d: "d = ?r - dbm (leap y) m + 1"
    using c by (auto simp: civil_of_def Let_def)
  have "1 \<le> m \<and> m \<le> 12 \<and> dbm (leap y) m \<le> ?r \<and> ?r < dbm (leap y) (m + 1)"
    by (rule month_in_correct [OF r m])
  then show ?thesis by (auto simp: days_of_def valid_civil_def days_in_def d)
qed

subsection \<open>Decimal numerals\<close>

definition is_digit :: "char \<Rightarrow> bool" where
  "is_digit c \<longleftrightarrow> 48 \<le> (of_char c :: nat) \<and> (of_char c :: nat) \<le> 57"

definition digit_val :: "char \<Rightarrow> nat" where "digit_val c = of_char c - 48"
definition digit_char :: "nat \<Rightarrow> char" where "digit_char n = char_of (48 + n mod 10)"

definition nat_of_digits :: "string \<Rightarrow> nat" where
  "nat_of_digits s = foldl (\<lambda>a c. 10 * a + digit_val c) 0 s"

text \<open>\<open>dfix k n\<close>: the last \<open>k\<close> decimal digits of \<open>n\<close>; \<open>dec_str n\<close>: all of them.\<close>

fun dfix :: "nat \<Rightarrow> nat \<Rightarrow> string" where
  "dfix 0 n = []"
| "dfix (Suc k) n = dfix k (n div 10) @ [digit_char n]"

fun dec_str :: "nat \<Rightarrow> string" where
  "dec_str n = (if n < 10 then [digit_char n] else dec_str (n div 10) @ [digit_char n])"

declare dec_str.simps [simp del]

lemma digit_char_simps [simp]:
  "is_digit (digit_char n)" "digit_val (digit_char n) = n mod 10"
proof -
  have "(of_char (char_of (48 + n mod 10)) :: nat) = 48 + n mod 10"
    by (simp add: of_char_of)
  then show "is_digit (digit_char n)" "digit_val (digit_char n) = n mod 10"
    by (simp_all add: digit_char_def is_digit_def digit_val_def)
qed

lemma length_dfix [simp]: "length (dfix k n) = k"
  by (induction k arbitrary: n) auto

lemma dfix_digits: "c \<in> set (dfix k n) \<Longrightarrow> is_digit c"
  by (induction k arbitrary: n) auto

lemma nat_of_digits_snoc [simp]: "nat_of_digits (s @ [c]) = 10 * nat_of_digits s + digit_val c"
  by (simp add: nat_of_digits_def)

lemma nat_of_digits_dfix [simp]: "nat_of_digits (dfix k n) = n mod 10 ^ k"
proof (induction k arbitrary: n)
  case (Suc k)
  have "n mod 10 ^ Suc k = 10 * (n div 10 mod 10 ^ k) + n mod 10"
    by (simp add: mod_mult2_eq)
  then show ?case by (simp add: Suc)
qed (simp add: nat_of_digits_def)

lemma dec_str_digits: "c \<in> set (dec_str n) \<Longrightarrow> is_digit c"
  by (induction n rule: dec_str.induct) (subst (asm) (2) dec_str.simps, auto split: if_splits)

lemma nat_of_dec_str [simp]: "nat_of_digits (dec_str n) = n"
proof (induction n rule: dec_str.induct)
  case (1 n)
  show ?case
  proof (cases "n < 10")
    case True
    then show ?thesis by (subst dec_str.simps) (simp add: nat_of_digits_def)
  next
    case False
    then show ?thesis using 1 by (subst dec_str.simps) simp
  qed
qed

subsection \<open>Parsing\<close>

fun parse_ymd :: "string \<Rightarrow> ((int \<times> nat \<times> int) \<times> string) option" where
  "parse_ymd (y1 # y2 # y3 # y4 # a # m1 # m2 # b # d1 # d2 # rest) =
     (let y = int (nat_of_digits [y1, y2, y3, y4]); m = nat_of_digits [m1, m2];
          d = int (nat_of_digits [d1, d2])
      in if list_all is_digit [y1, y2, y3, y4, m1, m2, d1, d2] \<and> a = CHR ''-'' \<and> b = CHR ''-''
           \<and> valid_civil y m d
         then Some ((y, m, d), rest) else None)"
| "parse_ymd _ = None"

text \<open>The time of day, in seconds.\<close>

fun parse_hms :: "string \<Rightarrow> (int \<times> string) option" where
  "parse_hms (t # h1 # h2 # a # m1 # m2 # b # s1 # s2 # rest) =
     (let h = nat_of_digits [h1, h2]; m = nat_of_digits [m1, m2]; s = nat_of_digits [s1, s2]
      in if list_all is_digit [h1, h2, m1, m2, s1, s2] \<and> t = CHR ''T''
           \<and> a = CHR '':'' \<and> b = CHR '':'' \<and> h \<le> 23 \<and> m \<le> 59 \<and> s \<le> 59
         then Some (int h * 3600 + int m * 60 + int s, rest) else None)"
| "parse_hms _ = None"

text \<open>The optional fraction: at most nine digits count.\<close>

definition parse_frac :: "string \<Rightarrow> int \<times> string" where
  "parse_frac s =
     (case s of
        [] \<Rightarrow> (0, s)
      | c # cs \<Rightarrow>
          if c = CHR ''.'' \<and> takeWhile is_digit cs \<noteq> []
          then (int (nat_of_digits (take 9 (takeWhile is_digit cs @ replicate 9 (digit_char 0)))),
                dropWhile is_digit cs)
          else (0, s))"

fun parse_zone :: "string \<Rightarrow> int option" where
  "parse_zone [z] = (if z = CHR ''Z'' then Some 0 else None)"
| "parse_zone [sg, h1, h2, a, m1, m2] =
     (let h = nat_of_digits [h1, h2]; m = nat_of_digits [m1, m2]; v = (int h * 60 + int m) * 60
      in if list_all is_digit [h1, h2, m1, m2] \<and> a = CHR '':'' \<and> h \<le> 23 \<and> m \<le> 59
         then (if sg = CHR ''-'' then Some (- v) else if sg = CHR ''+'' then Some v else None)
         else None)"
| "parse_zone _ = None"

definition mk_time :: "int \<Rightarrow> int \<Rightarrow> int \<Rightarrow> int \<Rightarrow> gotime" where
  "mk_time days secs ns zone = \<lparr>inst = (days * 86400 + secs - zone) * ns_per_s + ns, off = zone\<rparr>"

definition parse_rfc3339 :: "string \<Rightarrow> gotime option" where
  "parse_rfc3339 s =
     (case parse_ymd s of None \<Rightarrow> None | Some ((y, m, d), s1) \<Rightarrow>
      (case parse_hms s1 of None \<Rightarrow> None | Some (secs, s2) \<Rightarrow>
       (case parse_frac s2 of (ns, s3) \<Rightarrow>
        (case parse_zone s3 of None \<Rightarrow> None | Some z \<Rightarrow>
           Some (mk_time (days_of y m d) secs ns z)))))"

text \<open>\<^verbatim>\<open>time.ParseInLocation("2006-01-02", s, loc)\<close> for a location of fixed offset.\<close>

definition parse_date_in :: "string \<Rightarrow> int \<Rightarrow> gotime option" where
  "parse_date_in s zone =
     (case parse_ymd s of
        Some ((y, m, d), []) \<Rightarrow> Some (mk_time (days_of y m d) 0 0 zone)
      | _ \<Rightarrow> None)"

subsection \<open>Formatting\<close>

definition local_ns :: "gotime \<Rightarrow> int" where
  "local_ns t = inst t + off t * ns_per_s"

definition year_str :: "int \<Rightarrow> string" where
  "year_str y = (if y < 0 then ''-'' else [])
     @ (if \<bar>y\<bar> < 10000 then dfix 4 (nat \<bar>y\<bar>) else dec_str (nat \<bar>y\<bar>))"

definition ymd_str :: "int \<times> nat \<times> int \<Rightarrow> string" where
  "ymd_str c = (case c of (y, m, d) \<Rightarrow> year_str y @ ''-'' @ dfix 2 m @ ''-'' @ dfix 2 (nat d))"

definition date_str :: "gotime \<Rightarrow> string" where
  "date_str t = ymd_str (civil_of (local_ns t div day_ns))"

definition frac_str :: "nat \<Rightarrow> string" where
  "frac_str ns = (if ns = 0 then []
     else CHR ''.'' # rev (dropWhile (\<lambda>c. c = digit_char 0) (rev (dfix 9 ns))))"

definition zone_str :: "int \<Rightarrow> string" where
  "zone_str z = (if z = 0 then ''Z''
     else let q = go_quot z 60; a = nat \<bar>q\<bar>
          in (if q < 0 then ''-'' else ''+'') @ dfix 2 (a div 60) @ '':'' @ dfix 2 (a mod 60))"

definition hms_str :: "int \<Rightarrow> string" where
  "hms_str secs = ''T'' @ dfix 2 (nat (secs div 3600)) @ '':''
     @ dfix 2 (nat (secs mod 3600 div 60)) @ '':'' @ dfix 2 (nat (secs mod 60))"

text \<open>\<^verbatim>\<open>t.Format(time.RFC3339Nano)\<close>.\<close>

definition rfc3339_str :: "gotime \<Rightarrow> string" where
  "rfc3339_str t =
     (let tod = local_ns t mod day_ns
      in date_str t @ hms_str (tod div ns_per_s) @ frac_str (nat (tod mod ns_per_s)) @ zone_str (off t))"

text \<open>\<^verbatim>\<open>t.Format(time.RFC3339)\<close>, without the fraction.\<close>

definition rfc3339_sec_str :: "gotime \<Rightarrow> string" where
  "rfc3339_sec_str t = date_str t @ hms_str (local_ns t mod day_ns div ns_per_s) @ zone_str (off t)"

text \<open>The times whose RFC 3339 text names them exactly.\<close>

definition printable :: "gotime \<Rightarrow> bool" where
  "printable t \<longleftrightarrow>
     (case civil_of (local_ns t div day_ns) of (y, m, d) \<Rightarrow> 0 \<le> y \<and> y \<le> 9999)
     \<and> off t mod 60 = 0 \<and> \<bar>off t\<bar> < 86400"

subsection \<open>Round trips\<close>

lemma dfix_2: "dfix 2 n = [digit_char (n div 10), digit_char n]"
  by (simp add: numeral_2_eq_2)

lemma dfix_4: "dfix 4 n = [digit_char (n div 1000), digit_char (n div 100), digit_char (n div 10), digit_char n]"
proof -
  have "(4 :: nat) = Suc (Suc (Suc (Suc 0)))" by simp
  then show ?thesis by (simp only: dfix.simps append.simps) (simp flip: div_mult2_eq)
qed

lemma nat_of_2 [simp]:
  "n < 100 \<Longrightarrow> nat_of_digits [digit_char (n div 10), digit_char n] = n"
  using nat_of_digits_dfix [of 2 n] by (simp add: dfix_2)

lemma nat_of_4 [simp]:
  "n < 10000 \<Longrightarrow> nat_of_digits [digit_char (n div 1000), digit_char (n div 100), digit_char (n div 10), digit_char n] = n"
  using nat_of_digits_dfix [of 4 n] by (simp add: dfix_4)

lemma valid_civil_bounds:
  "valid_civil y m d \<Longrightarrow> 1 \<le> m \<and> m \<le> 12 \<and> 1 \<le> d \<and> d \<le> 31"
proof -
  assume v: "valid_civil y m d"
  then have m: "1 \<le> m" "m \<le> 12" by (auto simp: valid_civil_def)
  have "days_in y m \<le> 31" by (rule month_cases [OF m]) (simp_all add: days_in_def)
  then show ?thesis using v by (auto simp: valid_civil_def)
qed

lemma parse_ymd_str:
  assumes "valid_civil y m d" "0 \<le> y" "y \<le> 9999"
  shows "parse_ymd (ymd_str (y, m, d) @ rest) = Some ((y, m, d), rest)"
proof -
  have b: "m < 100" "nat d < 100" "nat y < 10000" "0 \<le> d"
    using valid_civil_bounds [OF assms(1)] assms(2,3) by auto
  have "ymd_str (y, m, d) = dfix 4 (nat y) @ CHR ''-'' # dfix 2 m @ CHR ''-'' # dfix 2 (nat d)"
    using assms(2,3) by (simp add: ymd_str_def year_str_def)
  then show ?thesis
    using assms b by (simp add: dfix_2 dfix_4 Let_def)
qed

lemma parse_hms_str:
  assumes "0 \<le> secs" "secs < 86400"
  shows "parse_hms (hms_str secs @ rest) = Some (secs, rest)"
proof -
  have h: "nat (secs div 3600) \<le> 23" using assms by simp
  have m: "nat (secs mod 3600 div 60) \<le> 59" by simp
  have s: "nat (secs mod 60) \<le> 59" by simp
  have split: "x * 3600 + a * 60 + b = s" if "3600 * x + r = s" "60 * a + b = r" for x a b r s :: int
    using that by simp
  have mm: "secs mod 3600 mod 60 = secs mod 60" by (simp add: mod_mod_cancel)
  have "secs div 3600 * 3600 + secs mod 3600 div 60 * 60 + secs mod 60 = secs"
    unfolding mm [symmetric] by (rule split [OF mult_div_mod_eq mult_div_mod_eq])
  moreover have "0 \<le> secs div 3600" "0 \<le> secs mod 3600 div 60" "0 \<le> secs mod 60"
    using assms(1) by simp_all
  ultimately have "int (nat (secs div 3600) * 3600 + nat (secs mod 3600 div 60) * 60 + nat (secs mod 60)) = secs"
    by (simp only: of_nat_add of_nat_mult of_nat_numeral int_nat_eq if_True)
  then show ?thesis using h m s by (simp add: hms_str_def dfix_2 Let_def)
qed

lemma strip_zeros_pad:
  "rev (dropWhile P (rev xs)) @ replicate (length xs - length (dropWhile P (rev xs))) z = xs"
  if "\<And>c. P c \<longleftrightarrow> c = z"
proof -
  have t: "takeWhile P ys = replicate (length (takeWhile P ys)) z" for ys
    using that by (induction ys) auto
  have "xs = rev (takeWhile P (rev xs) @ dropWhile P (rev xs))" by simp
  also have "\<dots> = rev (dropWhile P (rev xs)) @ rev (takeWhile P (rev xs))" by (simp only: rev_append)
  finally have xs: "xs = rev (dropWhile P (rev xs)) @ rev (takeWhile P (rev xs))" .
  have "length xs = length (dropWhile P (rev xs)) + length (takeWhile P (rev xs))"
    using arg_cong [OF xs, of length] by simp
  then have "rev (takeWhile P (rev xs)) = replicate (length xs - length (dropWhile P (rev xs))) z"
    using t [of "rev xs"] by (metis add_diff_cancel_left' rev_replicate)
  with xs show ?thesis by simp
qed

lemma parse_frac_str:
  assumes "ns < 10 ^ 9" and rest: "rest \<noteq> []" "\<not> is_digit (hd rest)" "hd rest \<noteq> CHR ''.''"
  shows "parse_frac (frac_str ns @ rest) = (int ns, rest)"
proof (cases "ns = 0")
  case True
  then show ?thesis using rest by (cases rest) (auto simp: parse_frac_def frac_str_def)
next
  case False
  define z where "z = digit_char 0"
  define ds where "ds = rev (dropWhile (\<lambda>c. c = z) (rev (dfix 9 ns)))"
  define k where "k = length (dfix 9 ns) - length (dropWhile (\<lambda>c. c = z) (rev (dfix 9 ns)))"
  have pad: "ds @ replicate k z = dfix 9 ns" unfolding ds_def k_def by (rule strip_zeros_pad) simp
  have len: "length ds + k = 9" using arg_cong [OF pad, of length] by simp
  have digs: "\<And>c. c \<in> set ds \<Longrightarrow> is_digit c"
    by (metis dfix_digits pad Un_iff set_append)
  have ne: "ds \<noteq> []"
  proof
    assume e: "ds = []"
    have "nat_of_digits (replicate n z) = 0" for n
      by (induction n) (auto simp: nat_of_digits_def z_def)
    then have "nat_of_digits (dfix 9 ns) = 0" using pad e by (metis append_Nil)
    then show False using False assms(1) by simp
  qed
  have tk: "takeWhile is_digit (ds @ rest) = ds" "dropWhile is_digit (ds @ rest) = rest"
    using digs rest by (cases rest; simp add: takeWhile_append2 dropWhile_append2)+
  have "replicate 9 z = replicate k z @ replicate (9 - k) z"
    using replicate_add [of k "9 - k" z] len by (metis le_add2 le_add_diff_inverse)
  then have "take 9 (ds @ replicate 9 z) = take 9 ((ds @ replicate k z) @ replicate (9 - k) z)"
    by simp
  also have "\<dots> = dfix 9 ns" unfolding pad by simp
  finally have tk9: "take 9 (ds @ replicate 9 z) = dfix 9 ns" .
  have f: "frac_str ns = CHR ''.'' # ds" using False by (simp add: frac_str_def ds_def z_def)
  show ?thesis
    using assms(1) ne tk9 by (simp add: parse_frac_def f tk flip: z_def)
qed

lemma parse_zone_str:
  assumes "z mod 60 = 0" "\<bar>z\<bar> < 86400"
  shows "parse_zone (zone_str z) = Some z"
proof (cases "z = 0")
  case True then show ?thesis by (simp add: zone_str_def)
next
  case False
  obtain q where q: "z = 60 * q" using assms(1) by auto
  obtain n where n: "q = int n \<or> q = - int n" "0 < n"
    using False q by (cases q rule: int_cases2) auto
  have qq: "go_quot (60 * q) 60 = q"
    by (simp add: go_quot_def sgn_mult abs_mult) (metis abs_mult_sgn mult.commute)
  have h: "n div 60 \<le> 23" "n mod 60 \<le> 59" using assms(2) q n by auto
  have na: "nat \<bar>q\<bar> = n" using n by auto
  have z: "zone_str z = (if q < 0 then CHR ''-'' else CHR ''+'') # dfix 2 (n div 60) @ '':'' @ dfix 2 (n mod 60)"
    using False by (simp add: zone_str_def Let_def qq q na)
  have zv: "z = (if q < 0 then - (60 * int n) else 60 * int n)" using n q by auto
  have s: "n = n div 60 * 60 + n mod 60" by simp
  have i: "int n = 60 * int (n div 60) + int (n mod 60)"
    by (metis s mult.commute of_nat_add of_nat_mult of_nat_numeral)
  show ?thesis using h by (simp add: z dfix_2 Let_def) (simp add: zv i [symmetric] algebra_simps i)
qed

lemma zone_str_hd: "zone_str z \<noteq> [] \<and> \<not> is_digit (hd (zone_str z)) \<and> hd (zone_str z) \<noteq> CHR ''.''"
  by (auto simp: zone_str_def Let_def is_digit_def)

lemma div_less_of_mul:
  assumes "0 < k" "a < c * k" shows "a div k < (c :: int)"
proof -
  have "a div k * k + a mod k = a" by (rule div_mult_mod_eq)
  moreover have "0 \<le> a mod k" using assms(1) by simp
  ultimately have "a div k * k < c * k" using assms(2) by linarith
  then show ?thesis using assms(1) by (simp add: mult_less_cancel_right)
qed

theorem parse_rfc3339_str: "printable t \<Longrightarrow> parse_rfc3339 (rfc3339_str t) = Some t"
proof -
  assume p: "printable t"
  let ?L = "local_ns t" let ?tod = "local_ns t mod day_ns"
  obtain y m d where c: "civil_of (?L div day_ns) = (y, m, d)" by (metis prod_cases3)
  have v: "days_of y m d = ?L div day_ns" "valid_civil y m d"
    using days_of_civil_of [OF c] by auto
  have y: "0 \<le> y" "y \<le> 9999" using p by (auto simp: printable_def c)
  have tod: "0 \<le> ?tod" "?tod < day_ns" by (simp_all add: ns_units)
  have secs: "0 \<le> ?tod div ns_per_s" "?tod div ns_per_s < 86400"
    using tod by (simp add: ns_per_s_def pos_imp_zdiv_nonneg_iff)
      (rule div_less_of_mul, use tod in \<open>simp_all add: ns_units\<close>)
  have ns: "nat (?tod mod ns_per_s) < 10 ^ 9" by (simp add: ns_per_s_def nat_less_iff)
  have "(?L div day_ns * 86400 + ?tod div ns_per_s - off t) * ns_per_s + ?tod mod ns_per_s = inst t"
  proof -
    have "?L = ?L div day_ns * 86400 * ns_per_s + (?tod div ns_per_s * ns_per_s + ?tod mod ns_per_s)"
      by (simp add: ns_units)
    then show ?thesis by (simp add: local_ns_def algebra_simps)
  qed
  then have mk: "mk_time (?L div day_ns) (?tod div ns_per_s) (?tod mod ns_per_s) (off t) = t"
    by (simp add: mk_time_def)
  have fr: "parse_frac (frac_str (nat (?tod mod ns_per_s)) @ zone_str (off t))
      = (?tod mod ns_per_s, zone_str (off t))"
    using parse_frac_str [OF ns] zone_str_hd by (simp add: ns_per_s_def)
  have z: "parse_zone (zone_str (off t)) = Some (off t)"
    using p by (intro parse_zone_str) (auto simp: printable_def)
  show ?thesis
    by (simp add: parse_rfc3339_def rfc3339_str_def date_str_def Let_def c
        parse_ymd_str [OF v(2) y] parse_hms_str [OF secs] fr z v(1) mk)
qed

end
