(* ===== verification/Values.thy ===== *)
theory Values
  imports GoTime
begin

text \<open>
  The dynamically typed values the API handles: what \<^verbatim>\<open>encoding/json\<close> and the BSON decoder
  put into an \<^verbatim>\<open>interface{}\<close>. The two kinds of map (\<^verbatim>\<open>map[string]interface{}\<close> and
  \<^verbatim>\<open>bson.M\<close>) and of slice (\<^verbatim>\<open>[]interface{}\<close> and \<^verbatim>\<open>bson.A\<close>) are different
  dynamic types, and the code's type switches tell them apart. A map is an association list
  with distinct keys; reading a missing key gives \<^verbatim>\<open>nil\<close>.
\<close>

datatype val =
    Nil_v
  | Bool_v bool
  | F64 float64
  | I64 int
  | I32 int
  | Int_v int
  | Str string
  | Time_v gotime
  | Date_v gotime  \<comment> \<open>\<^verbatim>\<open>primitive.DateTime\<close>, by the instant it stands for\<close>
  | Obj "(string \<times> val) list"
  | BObj "(string \<times> val) list"
  | Arr "val list"
  | BArr "val list"
  | Ptr_v "(string \<times> val) list"  \<comment> \<open>a pointer to a result struct, by its fields\<close>

type_synonym obj = "(string \<times> val) list"

subsection \<open>Reading maps and type assertions\<close>

definition get :: "obj \<Rightarrow> string \<Rightarrow> val" where
  "get m k = (case map_of m k of None \<Rightarrow> Nil_v | Some v \<Rightarrow> v)"

fun as_str :: "val \<Rightarrow> string option" where
  "as_str (Str s) = Some s" | "as_str _ = None"

fun as_bool :: "val \<Rightarrow> bool option" where
  "as_bool (Bool_v b) = Some b" | "as_bool _ = None"

fun as_obj :: "val \<Rightarrow> obj option" where
  "as_obj (Obj m) = Some m" | "as_obj _ = None"

fun as_bobj :: "val \<Rightarrow> obj option" where
  "as_bobj (BObj m) = Some m" | "as_bobj _ = None"

fun as_arr :: "val \<Rightarrow> val list option" where
  "as_arr (Arr xs) = Some xs" | "as_arr _ = None"

fun as_barr :: "val \<Rightarrow> val list option" where
  "as_barr (BArr xs) = Some xs" | "as_barr _ = None"

text \<open>\<^verbatim>\<open>s, _ := v.(string)\<close> and \<^verbatim>\<open>b, _ := v.(bool)\<close>.\<close>

definition str_of :: "val \<Rightarrow> string" where
  "str_of v = (case as_str v of Some s \<Rightarrow> s | None \<Rightarrow> [])"

definition bool_of :: "val \<Rightarrow> bool" where
  "bool_of v = (as_bool v = Some True)"

subsection \<open>The helpers of the API\<close>

fun mapValue :: "val \<Rightarrow> obj option" where
  "mapValue (Obj m) = Some m"
| "mapValue (BObj m) = Some m"
| "mapValue _ = None"

fun interfaceSlice :: "val \<Rightarrow> val list option" where
  "interfaceSlice (Arr xs) = Some xs"
| "interfaceSlice (BArr xs) = Some xs"
| "interfaceSlice _ = None"

fun toFloat :: "val \<Rightarrow> float64 option" where
  "toFloat (F64 x) = Some x"
| "toFloat (I64 n) = Some (i2f n)"
| "toFloat (I32 n) = Some (i2f n)"
| "toFloat (Int_v n) = Some (i2f n)"
| "toFloat _ = None"

text \<open>\<^verbatim>\<open>x, _ := toFloat(v)\<close>.\<close>

definition float_of :: "val \<Rightarrow> float64" where
  "float_of v = (case toFloat v of Some x \<Rightarrow> x | None \<Rightarrow> 0)"

fun bsonTime :: "val \<Rightarrow> gotime option" where
  "bsonTime (Time_v t) = (if is_zero t then None else Some t)"
| "bsonTime (Date_v t) = (if is_zero t then None else Some t)"
| "bsonTime (Str s) = parse_rfc3339 s"
| "bsonTime _ = None"

text \<open>\<^verbatim>\<open>payloadTime\<close>; \<open>now\<close> is the clock the code reads.\<close>

definition payloadTime :: "gotime \<Rightarrow> val \<Rightarrow> gotime" where
  "payloadTime now v = (case as_str v of
     Some s \<Rightarrow> (case parse_rfc3339 s of Some t \<Rightarrow> t | None \<Rightarrow> utc now)
   | None \<Rightarrow> utc now)"

definition firstNonNil :: "val list \<Rightarrow> val" where
  "firstNonNil vs = (case dropWhile (\<lambda>v. v = Nil_v) vs of [] \<Rightarrow> Nil_v | v # _ \<Rightarrow> v)"

lemma get_simps [simp]:
  "get [] k = Nil_v"
  "get ((k', v) # m) k = (if k = k' then v else get m k)"
  by (simp_all add: get_def)

lemma get_upd [simp]: "get (al_upd k v m) k' = (if k' = k then v else get m k')"
  by (auto simp: get_def)

lemma get_del [simp]: "get (al_del k m) k' = (if k' = k then Nil_v else get m k')"
  by (auto simp: get_def)

lemma str_of_simps [simp]: "str_of (Str s) = s" "str_of Nil_v = []"
  by (simp_all add: str_of_def)

lemma bool_of_simps [simp]: "bool_of (Bool_v b) = b" "bool_of Nil_v = False"
  by (simp_all add: bool_of_def)

lemma float_of_simps [simp]: "float_of (F64 x) = x" "float_of Nil_v = 0"
  by (simp_all add: float_of_def)

lemma as_obj_Some [simp]: "as_obj v = Some m \<longleftrightarrow> v = Obj m"
  by (cases v) auto

lemma as_bobj_Some [simp]: "as_bobj v = Some m \<longleftrightarrow> v = BObj m"
  by (cases v) auto

lemma as_arr_Some [simp]: "as_arr v = Some xs \<longleftrightarrow> v = Arr xs"
  by (cases v) auto

lemma as_barr_Some [simp]: "as_barr v = Some xs \<longleftrightarrow> v = BArr xs"
  by (cases v) auto

lemma as_str_Some [simp]: "as_str v = Some s \<longleftrightarrow> v = Str s"
  by (cases v) auto

lemma as_bool_Some [simp]: "as_bool v = Some b \<longleftrightarrow> v = Bool_v b"
  by (cases v) auto

lemma str_of_nonempty: "str_of v \<noteq> [] \<Longrightarrow> v = Str (str_of v)"
  by (cases v) (simp_all add: str_of_def)

lemma mapValue_Some: "mapValue v = Some m \<longleftrightarrow> v = Obj m \<or> v = BObj m"
  by (cases v) auto

end
