(* ===== verification/AppNames.thy ===== *)
theory AppNames
  imports Values
begin

text \<open>
  Application names: \<^verbatim>\<open>api/app_names.go\<close> (aliases and the key rows are merged
  under) and the filter of \<^verbatim>\<open>api/main.go\<close> that hides background processes from the
  usage reports.
\<close>

definition appAliases :: "(string \<times> string) list" where
  "appAliases =
    [(''google-chrome'', ''chrome''), (''google-chrome-stable'', ''chrome''),
     (''chromium-browser'', ''chromium''), (''firefox_firefox'', ''firefox''),
     (''org.mozilla.firefox'', ''firefox''), (''firefox-esr'', ''firefox'')]"

definition displayAppName :: "string \<Rightarrow> string" where
  "displayAppName name =
     (let n = trim_space name
      in case map_of appAliases (to_lower n) of Some alias \<Rightarrow> alias | None \<Rightarrow> n)"

definition appKey :: "string \<Rightarrow> string" where
  "appKey name = to_lower (displayAppName name)"

definition ignoredAppUsageNames :: "string list" where
  "ignoredAppUsageNames =
   [''devicepulse-age'', ''devicepulse-agent'', ''systemd'', ''systemd-journald'',
    ''systemd-logind'', ''systemd-udevd'', ''systemd-resolved'', ''systemd-networkd'',
    ''systemd-timesyncd'', ''init'', ''apt-check'', ''apt.systemd.daily'', ''apt-get'', ''dpkg'',
    ''packagekitd'', ''packagekit'', ''snapd'', ''snap'', ''appstreamcli'', ''xdelta3'',
    ''unattended-upgr'', ''unattended-upgrade'', ''update-notifier'', ''dnf'', ''yum'', ''rpm'',
    ''zypper'', ''pacman'', ''flatpak'', ''dbus-daemon'', ''dbus-launch'', ''gdbus'',
    ''ibus-daemon'', ''at-spi-bus-launcher'', ''at-spi2-registryd'', ''xorg'', ''xwayland'',
    ''mutter'', ''kwin_wayland'', ''kwin_x11'', ''kwin'', ''openbox'', ''xfwm4'', ''picom'',
    ''compiz'', ''sway'', ''wayfire'', ''gnome-shell'', ''gnome-session'',
    ''gnome-session-binary'', ''gnome-keyring-daemon'', ''gnome-settings-daemon'',
    ''plasmashell'', ''kded5'', ''kded6'', ''baloo_file'', ''kactivitymanagerd'', ''upowerd'',
    ''udisksd'', ''bluetoothd'', ''networkmanager'', ''modemmanager'', ''wpa_supplicant'',
    ''avahi-daemon'', ''cupsd'', ''fwupd'', ''thermald'', ''rtkit-daemon'', ''polkitd'',
    ''colord'', ''geoclue'', ''rsyslogd'', ''syslogd'', ''auditd'', ''crond'', ''cron'', ''atd'',
    ''sshd'', ''firewalld'', ''nginx'', ''apache2'', ''httpd'', ''mysqld'', ''postgres'',
    ''redis-server'', ''dockerd'', ''containerd'', ''containerd-shim'', ''sh'', ''bash'',
    ''dash'', ''zsh'', ''fish'', ''python'', ''python3'', ''perl'', ''ruby'', ''node'', ''gjs'',
    ''pipewire'', ''pipewire-pulse'', ''wireplumber'', ''pulseaudio'']"

definition isLinuxSystemProcessName :: "string \<Rightarrow> bool" where
  "isLinuxSystemProcessName key \<longleftrightarrow>
     prefix ''systemd-'' key \<or> prefix ''gsd-'' key \<or> prefix ''gvfs'' key \<or>
     prefix ''gnome-'' key \<or> prefix ''plasma'' key \<or> prefix ''akonadi'' key \<or>
     prefix ''xdg-'' key \<or> prefix ''tracker'' key \<or> prefix ''evolution'' key \<or>
     prefix ''devicepulse-'' key"

definition isVisibleAppUsageName :: "string \<Rightarrow> bool" where
  "isVisibleAppUsageName name =
     (let key = trim_suffix (to_lower (trim_space name)) ''.service''
      in if key = [] then False
         else if key \<in> set ignoredAppUsageNames then False
         else if isLinuxSystemProcessName key then False
         else if contains_str key ''packagekit'' then False
         else True)"

definition isVisibleAppUsageSummary :: "val \<Rightarrow> bool" where
  "isVisibleAppUsageSummary raw =
     (case raw of
        Obj m \<Rightarrow> isVisibleAppUsageName (str_of (get m ''app_name''))
      | BObj m \<Rightarrow> isVisibleAppUsageName (str_of (get m ''app_name''))
      | _ \<Rightarrow> False)"

subsection \<open>Aliases are final, and only the key matters\<close>

lemma alias_cases:
  "map_of appAliases k = Some a \<Longrightarrow>
     k \<in> fst ` set appAliases \<and> a \<in> {''chrome'', ''chromium'', ''firefox''}"
  by (auto simp: appAliases_def split: if_splits)

lemma alias_final:
  "a \<in> {''chrome'', ''chromium'', ''firefox''} \<Longrightarrow>
     trim_space a = a \<and> to_lower a = a \<and> map_of appAliases a = None"
proof -
  have "list_all (\<lambda>a. trim_space a = a \<and> to_lower a = a \<and> map_of appAliases a = None)
      [''chrome'', ''chromium'', ''firefox'']"
    by code_simp
  then show "a \<in> {''chrome'', ''chromium'', ''firefox''} \<Longrightarrow>
     trim_space a = a \<and> to_lower a = a \<and> map_of appAliases a = None"
    by (auto simp: list_all_iff)
qed

lemma displayAppName_cases:
  "map_of appAliases (to_lower (trim_space n)) = None \<and> displayAppName n = trim_space n
   \<or> to_lower (trim_space n) \<in> fst ` set appAliases
     \<and> displayAppName n \<in> {''chrome'', ''chromium'', ''firefox''}"
proof (cases "map_of appAliases (to_lower (trim_space n))")
  case None
  then show ?thesis by (simp add: displayAppName_def)
next
  case (Some a)
  then show ?thesis using alias_cases [OF Some] by (simp add: displayAppName_def)
qed

lemma displayAppName_trimmed [simp]: "trim_space (displayAppName n) = displayAppName n"
  using displayAppName_cases [of n] alias_final by (metis trim_space_idem)

lemma displayAppName_idem [simp]: "displayAppName (displayAppName n) = displayAppName n"
  using displayAppName_cases [of n]
proof
  assume "map_of appAliases (to_lower (trim_space n)) = None \<and> displayAppName n = trim_space n"
  then show ?thesis by (simp add: displayAppName_def)
next
  assume "to_lower (trim_space n) \<in> fst ` set appAliases
    \<and> displayAppName n \<in> {''chrome'', ''chromium'', ''firefox''}"
  then show ?thesis using alias_final [of "displayAppName n"]
    by (simp add: displayAppName_def [of "displayAppName n"])
qed

lemma appKey_displayAppName [simp]: "appKey (displayAppName n) = appKey n"
  by (simp add: appKey_def)

lemma aliased_names_visible:
  "k \<in> fst ` set appAliases \<union> {''chrome'', ''chromium'', ''firefox''} \<Longrightarrow> isVisibleAppUsageName k"
proof -
  have "list_all isVisibleAppUsageName (map fst appAliases @ [''chrome'', ''chromium'', ''firefox''])"
    by code_simp
  then show "k \<in> fst ` set appAliases \<union> {''chrome'', ''chromium'', ''firefox''}
    \<Longrightarrow> isVisibleAppUsageName k"
    by (auto simp: list_all_iff)
qed

lemma is_space_lower [simp]: "is_space (lower_char c) = is_space c"
proof (cases "65 \<le> (of_char c :: nat) \<and> (of_char c :: nat) \<le> 90")
  case True
  have big: "\<not> is_space d" if "32 < (of_char d :: nat)" for d
    using that by (auto simp: is_space_def)
  have "(of_char (lower_char c) :: nat) = of_char c + 32"
    using True by (simp add: lower_char_def of_char_of)
  then show ?thesis using True big [of c] big [of "lower_char c"] by simp
next
  case False
  then have "lower_char c = c" by (simp only: lower_char_def if_False)
  then show ?thesis by simp
qed

lemma dropWhile_space_lower: "dropWhile is_space (to_lower s) = to_lower (dropWhile is_space s)"
  by (induction s) (auto simp: to_lower_def)

lemma trim_space_lower: "trim_space (to_lower s) = to_lower (trim_space s)"
proof -
  have r: "rev (to_lower x) = to_lower (rev x)" for x by (simp add: to_lower_def rev_map)
  show ?thesis by (simp add: trim_space_def dropWhile_space_lower r)
qed

lemma visible_depends_on_lower:
  "to_lower (trim_space a) = to_lower (trim_space b) \<Longrightarrow>
     isVisibleAppUsageName a = isVisibleAppUsageName b"
  by (simp add: isVisibleAppUsageName_def)

lemma visible_displayAppName [simp]:
  "isVisibleAppUsageName (displayAppName n) = isVisibleAppUsageName n"
  using displayAppName_cases [of n]
proof
  assume "map_of appAliases (to_lower (trim_space n)) = None \<and> displayAppName n = trim_space n"
  then show ?thesis using visible_depends_on_lower [of "displayAppName n" n] by simp
next
  assume a: "to_lower (trim_space n) \<in> fst ` set appAliases
    \<and> displayAppName n \<in> {''chrome'', ''chromium'', ''firefox''}"
  have "isVisibleAppUsageName n = isVisibleAppUsageName (to_lower (trim_space n))"
    by (rule visible_depends_on_lower) (simp add: trim_space_lower)
  then show ?thesis using a by (auto intro: aliased_names_visible)
qed

lemma visible_appKey [simp]: "isVisibleAppUsageName (appKey n) = isVisibleAppUsageName n"
proof -
  have "isVisibleAppUsageName (appKey n) = isVisibleAppUsageName (displayAppName n)"
    by (rule visible_depends_on_lower) (simp add: appKey_def trim_space_lower)
  then show ?thesis by simp
qed

end
