(* ===== verification/Sessions.thy ===== *)
theory Sessions
  imports AppNames "HOL-Library.Product_Lexorder"
begin

text \<open>
  Focus sessions of one device and day, as \<^verbatim>\<open>api/main.go\<close> archives them: reading the
  times of a session entry, clipping to the calendar day, removing replays and overlaps, merging
  fragments, and summing per application. The definitions work on the dynamic values the code
  works on; the typed intervals between the two loops of \<^verbatim>\<open>normalizeActivitySessions\<close> are
  the code's local struct \<^verbatim>\<open>interval\<close>.
\<close>

named_theorems sessions \<open>facts on session entries and their intervals\<close>

definition activitySessionMergeGap :: int where
  "activitySessionMergeGap = 90 * ns_per_s"

definition activitySessionStart :: "val \<Rightarrow> gotime" where
  "activitySessionStart raw =
     (case as_obj raw of None \<Rightarrow> zero_time
      | Some m \<Rightarrow> (case as_str (get m ''start_time'') of None \<Rightarrow> zero_time
          | Some s \<Rightarrow> (case parse_rfc3339 s of Some t \<Rightarrow> utc t | None \<Rightarrow> zero_time)))"

definition activitySessionEnd :: "val \<Rightarrow> gotime" where
  "activitySessionEnd raw =
     (case as_obj raw of None \<Rightarrow> zero_time
      | Some m \<Rightarrow>
          (case Option.bind (as_str (get m ''end_time'')) parse_rfc3339 of
             Some t \<Rightarrow> utc t
           | None \<Rightarrow>
               let start = activitySessionStart raw
               in if is_zero start then zero_time
                  else (case toFloat (get m ''duration_seconds'') of
                          None \<Rightarrow> zero_time
                        | Some dur \<Rightarrow> add start (f2i (fmul dur (of_int ns_per_s))))))"

record interval =
  iv_app :: string
  iv_start :: gotime
  iv_end :: gotime
  iv_dev :: string
  iv_user :: string

subsection \<open>Merging fragments\<close>

text \<open>The entry of a focus period, with the optional fields only where they are not empty.\<close>

definition session_entry :: "string \<Rightarrow> gotime \<Rightarrow> gotime \<Rightarrow> string \<Rightarrow> string \<Rightarrow> obj" where
  "session_entry app start end dev user =
     [(''app_name'', Str app), (''start_time'', Str (rfc3339_str start)),
      (''end_time'', Str (rfc3339_str end)), (''duration_seconds'', F64 (seconds (sub end start)))]
     @ (if dev \<noteq> [] then [(''device_id'', Str dev)] else [])
     @ (if user \<noteq> [] then [(''username'', Str user)] else [])"

text \<open>The loop's variables: what is flushed, the open span and its times.\<close>

record mstate =
  merged :: "val list"
  cur :: "obj option"
  curStart :: gotime
  curEnd :: gotime

definition merge_flush :: "mstate \<Rightarrow> mstate" where
  "merge_flush st = (case cur st of None \<Rightarrow> st
     | Some c \<Rightarrow> st\<lparr>merged := merged st @ [Obj c], cur := None\<rparr>)"

definition merge_extend :: "gotime \<Rightarrow> obj \<Rightarrow> mstate \<Rightarrow> mstate" where
  "merge_extend end c st =
     (let st1 = (if after end (curEnd st)
                 then st\<lparr>curEnd := end, cur := Some (al_upd ''end_time'' (Str (rfc3339_str end)) c)\<rparr>
                 else st\<lparr>cur := Some c\<rparr>)
      in st1\<lparr>cur := map_option (al_upd ''duration_seconds'' (F64 (seconds (sub (curEnd st1) (curStart st1)))))
                (cur st1)\<rparr>)"

definition merge_step :: "int \<Rightarrow> mstate \<Rightarrow> val \<Rightarrow> mstate" where
  "merge_step maxGap st raw =
     (case as_obj raw of None \<Rightarrow> st
      | Some m \<Rightarrow>
        let appName = displayAppName (str_of (get m ''app_name''))
        in if \<not> isVisibleAppUsageName appName then st
           else
             let start = activitySessionStart raw; end0 = activitySessionEnd raw
             in if is_zero start \<or> is_zero end0 then st
                else
                  let end = (if before end0 start then start else end0);
                      fresh = (let st1 = merge_flush st
                        in st1\<lparr>curStart := start, curEnd := end,
                              cur := Some (session_entry appName start end
                                       (str_of (get m ''device_id'')) (str_of (get m ''username'')))\<rparr>)
                  in (case cur st of
                        None \<Rightarrow> fresh
                      | Some c \<Rightarrow>
                          if appKey (str_of (get c ''app_name'')) = appKey appName
                             \<and> \<not> after start (add (curEnd st) maxGap)
                          then merge_extend end c st else fresh))"

definition mergeActivitySessions :: "val list \<Rightarrow> int \<Rightarrow> val list" where
  "mergeActivitySessions sessions maxGap =
     merged (merge_flush (foldl (merge_step maxGap)
       \<lparr>merged = [], cur = None, curStart = zero_time, curEnd = zero_time\<rparr> sessions))"

subsection \<open>Normalising a day\<close>

text \<open>
  The replay key \<^verbatim>\<open>"%s|%d|%d"\<close> is the triple it prints (the two integers contain no bar, so
  the text determines the triple); \<^verbatim>\<open>UnixNano\<close> wraps at 64 bits.
\<close>

type_synonym replay_key = "string \<times> int \<times> int"

definition replay_key :: "string \<Rightarrow> gotime \<Rightarrow> gotime \<Rightarrow> replay_key" where
  "replay_key app start end = (appKey app, i64 (inst start), i64 (inst end))"

definition day_collect ::
  "gotime \<Rightarrow> gotime \<Rightarrow> interval list \<times> replay_key set \<Rightarrow> val \<Rightarrow> interval list \<times> replay_key set" where
  "day_collect dayStart dayEnd acc raw =
     (case as_obj raw of None \<Rightarrow> acc
      | Some m \<Rightarrow>
        let appName = displayAppName (str_of (get m ''app_name''))
        in if \<not> isVisibleAppUsageName appName then acc
           else
             let start = activitySessionStart raw; end = activitySessionEnd raw
             in if is_zero start \<or> is_zero end \<or> \<not> after end start then acc
                else
                  let start' = (if before start dayStart then dayStart else start);
                      end' = (if after end dayEnd then dayEnd else end)
                  in if \<not> after end' start' then acc
                     else
                       let key = replay_key appName start' end'
                       in if key \<in> snd acc then acc
                          else (fst acc @ [\<lparr>iv_app = appName, iv_start = start', iv_end = end',
                                  iv_dev = str_of (get m ''device_id''),
                                  iv_user = str_of (get m ''username'')\<rparr>],
                                insert key (snd acc)))"

definition sort_intervals :: "interval list \<Rightarrow> interval list" where
  "sort_intervals = sort_key (\<lambda>i. (inst (iv_start i), inst (iv_end i)))"

fun trim_overlaps :: "gotime \<Rightarrow> interval list \<Rightarrow> interval list" where
  "trim_overlaps occupiedUntil [] = []"
| "trim_overlaps occupiedUntil (i # is) =
     (let start = (if before (iv_start i) occupiedUntil then occupiedUntil else iv_start i)
      in if \<not> after (iv_end i) start then trim_overlaps occupiedUntil is
         else i\<lparr>iv_start := start\<rparr> # trim_overlaps (iv_end i) is)"

definition interval_entry :: "interval \<Rightarrow> val" where
  "interval_entry i = Obj (session_entry (iv_app i) (utc (iv_start i)) (utc (iv_end i)) (iv_dev i) (iv_user i))"

text \<open>\<open>loc\<close> is the zone offset of the device's clock.\<close>

definition normalizeActivitySessions :: "val list \<Rightarrow> string \<Rightarrow> int \<Rightarrow> val list" where
  "normalizeActivitySessions sessions date loc =
     (case parse_date_in date loc of
        None \<Rightarrow> mergeActivitySessions sessions activitySessionMergeGap
      | Some dayStart \<Rightarrow>
          let dayEnd = add dayStart day_ns;
              intervals = fst (foldl (day_collect dayStart dayEnd) ([], {}) sessions);
              normalized = map interval_entry (trim_overlaps zero_time (sort_intervals intervals))
          in mergeActivitySessions normalized activitySessionMergeGap)"

subsection \<open>Clipping to the online windows\<close>

record window =
  w_start :: gotime
  w_end :: gotime

definition clip_to_window :: "string \<Rightarrow> obj \<Rightarrow> gotime \<Rightarrow> gotime \<Rightarrow> window \<Rightarrow> interval list" where
  "clip_to_window appName m start end w =
     (if \<not> after (w_end w) start \<or> \<not> after end (w_start w) then []
      else
        let clipStart = (if before start (w_start w) then w_start w else start);
            clipEnd = (if after end (w_end w) then w_end w else end)
        in if \<not> after clipEnd clipStart then []
           else [\<lparr>iv_app = appName, iv_start = clipStart, iv_end = clipEnd,
                  iv_dev = str_of (get m ''device_id''), iv_user = str_of (get m ''username'')\<rparr>])"

definition presence_intervals :: "window list \<Rightarrow> val \<Rightarrow> interval list" where
  "presence_intervals windows raw =
     (case mapValue raw of None \<Rightarrow> []
      | Some m \<Rightarrow>
        let appName = displayAppName (str_of (get m ''app_name''))
        in if \<not> isVisibleAppUsageName appName then []
           else
             let start = activitySessionStart (Obj m); end = activitySessionEnd (Obj m)
             in if is_zero start \<or> is_zero end \<or> \<not> after end start then []
                else concat (map (clip_to_window appName m start end) windows))"

definition clippedActivitySessionsForPresence :: "val list \<Rightarrow> window list \<Rightarrow> val list" where
  "clippedActivitySessionsForPresence sessions windows =
     (if sessions = [] \<or> windows = [] then []
      else
        let intervals = concat (map (presence_intervals windows) sessions);
            clipped = map interval_entry (trim_overlaps zero_time (sort_intervals intervals))
        in mergeActivitySessions clipped activitySessionMergeGap)"

subsection \<open>Online time from heartbeats\<close>

fun presenceWindows :: "gotime list \<Rightarrow> window list" where
  "presenceWindows (p # q # ps) =
     (let gap0 = sub q p;
          rest = presenceWindows (q # ps)
      in if gap0 \<le> 0 then rest
         else let gap = (if gap0 > 2 * minute_ns then 2 * minute_ns else gap0)
              in \<lparr>w_start = p, w_end = add p gap\<rparr> # rest)"
| "presenceWindows _ = []"

definition presenceOnlineSeconds :: "gotime list \<Rightarrow> float64" where
  "presenceOnlineSeconds points =
     foldl (\<lambda>total w. fadd total (seconds (sub (w_end w) (w_start w)))) 0 (presenceWindows points)"

fun gaps_over :: "gotime list \<Rightarrow> int" where
  "gaps_over (p # q # ps) = (if sub q p > 2 * minute_ns then 1 else 0) + gaps_over (q # ps)"
| "gaps_over _ = 0"

definition presenceConnections :: "gotime list \<Rightarrow> int" where
  "presenceConnections points = (if points = [] then 0 else 1 + gaps_over points)"

subsection \<open>Totals per application\<close>

text \<open>The map from key to (name, seconds, sessions), in the order the keys first appear.\<close>

type_synonym app_totals = "(string \<times> (string \<times> float64 \<times> int)) list"

definition total_add :: "app_totals \<Rightarrow> string \<Rightarrow> float64 \<Rightarrow> app_totals" where
  "total_add totals appName duration =
     (let (n, s, c) = (case map_of totals (appKey appName) of Some x \<Rightarrow> x | None \<Rightarrow> (appName, 0, 0))
      in al_upd (appKey appName) (n, fadd s duration, i64 (c + 1)) totals)"

definition summarize_step :: "app_totals \<times> float64 \<Rightarrow> val \<Rightarrow> app_totals \<times> float64" where
  "summarize_step acc raw =
     (case as_obj raw of None \<Rightarrow> acc
      | Some m \<Rightarrow>
        let appName = displayAppName (str_of (get m ''app_name''))
        in (case toFloat (get m ''duration_seconds'') of
              None \<Rightarrow> acc
            | Some duration \<Rightarrow>
                if \<not> isVisibleAppUsageName appName \<or> duration \<le> 0 then acc
                else (total_add (fst acc) appName duration, fadd (snd acc) duration)))"

definition app_row :: "string \<times> (string \<times> float64 \<times> int) \<Rightarrow> val" where
  "app_row e = (case e of (k, (n, s, c)) \<Rightarrow>
     Obj [(''app_name'', Str n), (''total_seconds'', F64 s), (''session_count'', Int_v c)])"

text \<open>
  \<^verbatim>\<open>sort.Slice\<close> by falling seconds. Go's map iteration has no fixed order and the sort is
  not stable, so \<open>perm\<close>, the order in which the rows meet the sort, is a parameter.
\<close>

definition row_seconds :: "val \<Rightarrow> float64" where
  "row_seconds v = (case as_obj v of Some m \<Rightarrow> float_of (get m ''total_seconds'') | None \<Rightarrow> 0)"

definition summarizeActivitySessions :: "(val list \<Rightarrow> val list) \<Rightarrow> val list \<Rightarrow> val list \<times> float64" where
  "summarizeActivitySessions perm sessions =
     (let (totals, totalS) = foldl summarize_step ([], 0) sessions
      in (sort_key (\<lambda>r. - row_seconds r) (perm (map app_row totals)), totalS))"

end
