(* ===== verification/SessionLaws.thy ===== *)
theory SessionLaws
  imports Sessions
begin

text \<open>
  The laws of the session archive: a normalised day is a sequence of disjoint, ordered spans
  of visible applications inside the day, it never holds more than the day's length, and
  normalising it again changes nothing. The two loops of the code are related to functions on
  typed intervals, where these facts are proved; the round trip of the time format carries
  them back to the stored entries.
\<close>

subsection \<open>Entries of good intervals\<close>

definition good_iv :: "interval \<Rightarrow> bool" where
  "good_iv i \<longleftrightarrow>
     displayAppName (iv_app i) = iv_app i \<and> isVisibleAppUsageName (iv_app i)
     \<and> off (iv_start i) = 0 \<and> off (iv_end i) = 0
     \<and> printable (iv_start i) \<and> printable (iv_end i)
     \<and> \<not> is_zero (iv_start i) \<and> \<not> is_zero (iv_end i)
     \<and> inst (iv_start i) < inst (iv_end i)"

lemma good_ivD [dest]:
  assumes "good_iv i"
  shows "displayAppName (iv_app i) = iv_app i" "isVisibleAppUsageName (iv_app i)"
    "off (iv_start i) = 0" "off (iv_end i) = 0" "printable (iv_start i)" "printable (iv_end i)"
    "\<not> is_zero (iv_start i)" "\<not> is_zero (iv_end i)" "inst (iv_start i) < inst (iv_end i)"
  using assms by (auto simp: good_iv_def)

lemma get_session_entry [simp, sessions]:
  "get (session_entry a s e d u) ''app_name'' = Str a"
  "get (session_entry a s e d u) ''start_time'' = Str (rfc3339_str s)"
  "get (session_entry a s e d u) ''end_time'' = Str (rfc3339_str e)"
  "str_of (get (session_entry a s e d u) ''device_id'') = d"
  "str_of (get (session_entry a s e d u) ''username'') = u"
  "get (session_entry a s e d u) ''duration_seconds'' = F64 (seconds (sub e s))"
  by (auto simp: session_entry_def)

lemma upd_session_entry [simp, sessions]:
  "al_upd ''duration_seconds'' (F64 x) (al_upd ''end_time'' (Str (rfc3339_str e')) (session_entry a s e d u))
     = al_upd ''duration_seconds'' (F64 x) (session_entry a s e' d u)"
  "al_upd ''duration_seconds'' (F64 (seconds (sub e s))) (session_entry a s e d u)
     = session_entry a s e d u"
  by (auto simp: session_entry_def)

lemma interval_entry_good: "good_iv i \<Longrightarrow> interval_entry i
    = Obj (session_entry (iv_app i) (iv_start i) (iv_end i) (iv_dev i) (iv_user i))"
  using good_ivD(3,4) by (simp add: interval_entry_def utc_id)

lemma entry_times [simp, sessions]:
  assumes "good_iv i"
  shows "activitySessionStart (interval_entry i) = iv_start i"
    "activitySessionEnd (interval_entry i) = iv_end i"
  using assms
  by (auto simp: interval_entry_good activitySessionStart_def activitySessionEnd_def
      parse_rfc3339_str utc_id good_iv_def)

subsection \<open>Merging, on intervals\<close>

fun merge_iv :: "int \<Rightarrow> interval list \<Rightarrow> interval list" where
  "merge_iv g (i # j # js) =
     (if appKey (iv_app i) = appKey (iv_app j) \<and> inst (iv_start j) \<le> inst (iv_end i) + g
      then merge_iv g (i\<lparr>iv_end := (if after (iv_end j) (iv_end i) then iv_end j else iv_end i)\<rparr> # js)
      else i # merge_iv g (j # js))"
| "merge_iv g is = is"

definition in_span :: "interval \<Rightarrow> mstate" where
  "in_span c = \<lparr>merged = [],
     cur = Some (session_entry (iv_app c) (iv_start c) (iv_end c) (iv_dev c) (iv_user c)),
     curStart = iv_start c, curEnd = iv_end c\<rparr>"

lemma good_iv_extend:
  "good_iv i \<Longrightarrow> good_iv j \<Longrightarrow>
     good_iv (i\<lparr>iv_end := (if after (iv_end j) (iv_end i) then iv_end j else iv_end i)\<rparr>)"
  by (auto simp: good_iv_def after_def)

lemma merge_step_open:
  assumes "good_iv j"
  shows "merge_step g \<lparr>merged = ms, cur = None, curStart = s, curEnd = e\<rparr> (interval_entry j)
     = (in_span j)\<lparr>merged := ms\<rparr>"
  using good_ivD [OF assms] entry_times [OF assms] interval_entry_good [OF assms]
  by (simp add: merge_step_def in_span_def merge_flush_def Let_def before_def)

lemma merge_step_span:
  assumes i: "good_iv i" and j: "good_iv j"
  shows "merge_step g ((in_span i)\<lparr>merged := ms\<rparr>) (interval_entry j) =
     (if appKey (iv_app i) = appKey (iv_app j) \<and> inst (iv_start j) \<le> inst (iv_end i) + g
      then (in_span (i\<lparr>iv_end := (if after (iv_end j) (iv_end i) then iv_end j else iv_end i)\<rparr>))\<lparr>merged := ms\<rparr>
      else (in_span j)\<lparr>merged := ms @ [interval_entry i]\<rparr>)"
  using good_ivD [OF j] good_ivD [OF i] entry_times [OF j]
    interval_entry_good [OF j] interval_entry_good [OF i]
  by (simp add: merge_step_def in_span_def merge_flush_def merge_extend_def Let_def before_def after_def)

lemma merge_loop:
  assumes "good_iv i" "\<forall>j \<in> set js. good_iv j"
  shows "merged (merge_flush (foldl (merge_step g) ((in_span i)\<lparr>merged := ms\<rparr>) (map interval_entry js)))
     = ms @ map interval_entry (merge_iv g (i # js))"
  using assms
proof (induction js arbitrary: i ms)
  case Nil
  then show ?case using interval_entry_good [of i] by (simp add: merge_flush_def in_span_def)
next
  case (Cons j js)
  let ?m = "i\<lparr>iv_end := (if after (iv_end j) (iv_end i) then iv_end j else iv_end i)\<rparr>"
  have i: "good_iv i" and j: "good_iv j" and js: "\<forall>k \<in> set js. good_iv k"
    using Cons.prems by auto
  show ?case
  proof (cases "appKey (iv_app i) = appKey (iv_app j) \<and> inst (iv_start j) \<le> inst (iv_end i) + g")
    case True
    show ?thesis
      by (simp only: list.map foldl_Cons merge_step_span [OF i j] if_P [OF True] merge_iv.simps
          Cons.IH [OF good_iv_extend [OF i j] js])
  next
    case False
    show ?thesis
      by (simp only: list.map foldl_Cons merge_step_span [OF i j] if_not_P [OF False] merge_iv.simps
          Cons.IH [OF j js] append_assoc append_Cons append_Nil)
  qed
qed

lemma mergeActivitySessions_entries:
  assumes "\<forall>i \<in> set is. good_iv i"
  shows "mergeActivitySessions (map interval_entry is) g = map interval_entry (merge_iv g is)"
proof (cases "is")
  case Nil
  then show ?thesis by (simp add: mergeActivitySessions_def merge_flush_def)
next
  case (Cons i js)
  then have "good_iv i" "\<forall>j \<in> set js. good_iv j" using assms by auto
  then show ?thesis using merge_loop [of i js g "[]"]
    by (simp add: mergeActivitySessions_def Cons merge_step_open)
qed

subsection \<open>What merging keeps\<close>

definition chain :: "interval list \<Rightarrow> bool" where
  "chain = sorted_wrt (\<lambda>a b. inst (iv_end a) \<le> inst (iv_start b))"

definition covered :: "interval list \<Rightarrow> int \<Rightarrow> bool" where
  "covered is x \<longleftrightarrow> (\<exists>i \<in> set is. inst (iv_start i) \<le> x \<and> x < inst (iv_end i))"

definition mergeable :: "int \<Rightarrow> interval \<Rightarrow> interval \<Rightarrow> bool" where
  "mergeable g i j \<longleftrightarrow> appKey (iv_app i) = appKey (iv_app j) \<and> inst (iv_start j) \<le> inst (iv_end i) + g"

lemma chain_simps [simp]:
  "chain []" "chain (i # is) \<longleftrightarrow> (\<forall>j \<in> set is. inst (iv_end i) \<le> inst (iv_start j)) \<and> chain is"
  by (simp_all add: chain_def)

lemma covered_simps [simp]:
  "\<not> covered [] x"
  "covered (i # is) x \<longleftrightarrow> (inst (iv_start i) \<le> x \<and> x < inst (iv_end i)) \<or> covered is x"
  by (auto simp: covered_def)

lemma merge_iv_good: "\<forall>i \<in> set is. good_iv i \<Longrightarrow> \<forall>i \<in> set (merge_iv g is). good_iv i"
proof (induction g "is" rule: merge_iv.induct)
  case (1 g i j js)
  have i: "good_iv i" and j: "good_iv j" and js: "\<forall>k \<in> set js. good_iv k" using 1(3) by auto
  show ?case
  proof (cases "appKey (iv_app i) = appKey (iv_app j) \<and> inst (iv_start j) \<le> inst (iv_end i) + g")
    case True
    have "\<forall>k \<in> set (i\<lparr>iv_end := (if after (iv_end j) (iv_end i) then iv_end j else iv_end i)\<rparr> # js). good_iv k"
      using good_iv_extend [OF i j] js by simp
    from 1(1) [OF True this] show ?thesis by (simp only: merge_iv.simps if_P [OF True])
  next
    case False
    have "\<forall>k \<in> set (merge_iv g (j # js)). good_iv k" using 1(2) [OF False] j js by simp
    then show ?thesis using i by (simp only: merge_iv.simps if_not_P [OF False]) simp
  qed
qed auto

lemma merge_iv_bounds:
  "k \<in> set (merge_iv g is) \<Longrightarrow>
     (\<exists>a \<in> set is. iv_start k = iv_start a \<and> iv_app k = iv_app a) \<and> (\<exists>b \<in> set is. iv_end k = iv_end b)"
proof (induction g "is" rule: merge_iv.induct)
  case (1 g i j js)
  show ?case
  proof (cases "appKey (iv_app i) = appKey (iv_app j) \<and> inst (iv_start j) \<le> inst (iv_end i) + g")
    case True
    let ?m = "i\<lparr>iv_end := (if after (iv_end j) (iv_end i) then iv_end j else iv_end i)\<rparr>"
    have "k \<in> set (merge_iv g (?m # js))" using 1(3) by (simp only: merge_iv.simps if_P [OF True])
    from 1(1) [OF True this] show ?thesis by (auto split: if_splits)
  next
    case False
    have "k \<in> set (i # merge_iv g (j # js))" using 1(3) by (simp only: merge_iv.simps if_not_P [OF False])
    then show ?thesis using 1(2) [OF False] by auto
  qed
qed auto

lemma merge_iv_chain: "chain is \<Longrightarrow> chain (merge_iv g is)"
proof (induction g "is" rule: merge_iv.induct)
  case (1 g i j js)
  show ?case
  proof (cases "appKey (iv_app i) = appKey (iv_app j) \<and> inst (iv_start j) \<le> inst (iv_end i) + g")
    case True
    have "chain (i\<lparr>iv_end := (if after (iv_end j) (iv_end i) then iv_end j else iv_end i)\<rparr> # js)"
      using 1(3) by auto
    from 1(1) [OF True this] show ?thesis by (simp only: merge_iv.simps if_P [OF True])
  next
    case False
    have "\<forall>k \<in> set (merge_iv g (j # js)). inst (iv_end i) \<le> inst (iv_start k)"
      using merge_iv_bounds [of _ g "j # js"] 1(3) by fastforce
    moreover have "chain (merge_iv g (j # js))" using 1(2) [OF False] 1(3) by simp
    ultimately show ?thesis by (simp only: merge_iv.simps if_not_P [OF False] chain_simps)
  qed
qed auto

lemma merge_iv_covers: "covered is x \<Longrightarrow> chain is \<Longrightarrow> \<forall>i \<in> set is. inst (iv_start i) < inst (iv_end i)
    \<Longrightarrow> covered (merge_iv g is) x"
proof (induction g "is" rule: merge_iv.induct)
  case (1 g i j js)
  show ?case
  proof (cases "appKey (iv_app i) = appKey (iv_app j) \<and> inst (iv_start j) \<le> inst (iv_end i) + g")
    case True
    let ?m = "i\<lparr>iv_end := (if after (iv_end j) (iv_end i) then iv_end j else iv_end i)\<rparr>"
    have aft: "after (iv_end j) (iv_end i)" using 1(4,5) by (auto simp: after_def)
    have "covered (?m # js) x" "chain (?m # js)"
      "\<forall>k \<in> set (?m # js). inst (iv_start k) < inst (iv_end k)"
      using 1(3-5) aft by (auto simp: after_def)
    from 1(1) [OF True this] show ?thesis by (simp only: merge_iv.simps if_P [OF True])
  next
    case False
    then show ?thesis using 1(2) [OF False] 1(3-5) by auto
  qed
qed auto

lemma merge_iv_hd:
  "\<exists>k ks. merge_iv g (i # js) = k # ks \<and> iv_app k = iv_app i \<and> iv_start k = iv_start i"
proof (induction js arbitrary: i)
  case (Cons j js)
  let ?m = "i\<lparr>iv_end := (if after (iv_end j) (iv_end i) then iv_end j else iv_end i)\<rparr>"
  have m: "iv_app ?m = iv_app i" "iv_start ?m = iv_start i" by simp_all
  from Cons [of ?m] show ?case unfolding m merge_iv.simps
    by (cases "appKey (iv_app i) = appKey (iv_app j) \<and> inst (iv_start j) \<le> inst (iv_end i) + g") simp_all
qed simp

lemma merge_iv_stops: "successively (\<lambda>i j. \<not> mergeable g i j) (merge_iv g is)"
proof (induction g "is" rule: merge_iv.induct)
  case (1 g i j js)
  obtain k ks where k: "merge_iv g (j # js) = k # ks" "iv_app k = iv_app j" "iv_start k = iv_start j"
    using merge_iv_hd [of g j js] by auto
  show ?case
  proof (cases "appKey (iv_app i) = appKey (iv_app j) \<and> inst (iv_start j) \<le> inst (iv_end i) + g")
    case True
    show ?thesis by (simp only: merge_iv.simps if_P [OF True] 1(1) [OF True])
  next
    case False
    then have "\<not> mergeable g i k" using k by (simp add: mergeable_def)
    moreover have "successively (\<lambda>i j. \<not> mergeable g i j) (k # ks)" using 1(2) [OF False] k(1) by simp
    ultimately show ?thesis by (simp only: merge_iv.simps if_not_P [OF False] k(1) successively.simps) simp
  qed
qed auto

lemma merge_iv_fixpoint: "successively (\<lambda>i j. \<not> mergeable g i j) is \<Longrightarrow> merge_iv g is = is"
  by (induction g "is" rule: merge_iv.induct) (auto simp: mergeable_def)

subsection \<open>What the day's collection and trimming establish\<close>

definition day_iv :: "int \<Rightarrow> int \<Rightarrow> interval \<Rightarrow> bool" where
  "day_iv lo hi i \<longleftrightarrow> displayAppName (iv_app i) = iv_app i \<and> isVisibleAppUsageName (iv_app i)
     \<and> lo \<le> inst (iv_start i) \<and> inst (iv_start i) < inst (iv_end i) \<and> inst (iv_end i) \<le> hi"

text \<open>One raw entry as the day's collection reads it: what it adds unless it is a replay.\<close>

definition day_entry :: "gotime \<Rightarrow> gotime \<Rightarrow> val \<Rightarrow> interval option" where
  "day_entry a b raw =
     (case as_obj raw of None \<Rightarrow> None
      | Some m \<Rightarrow>
        let s = activitySessionStart raw; e = activitySessionEnd raw;
            i = \<lparr>iv_app = displayAppName (str_of (get m ''app_name'')),
                  iv_start = (if before s a then a else s), iv_end = (if after e b then b else e),
                  iv_dev = str_of (get m ''device_id''), iv_user = str_of (get m ''username'')\<rparr>
        in if isVisibleAppUsageName (iv_app i) \<and> \<not> is_zero s \<and> \<not> is_zero e \<and> after e s
              \<and> after (iv_end i) (iv_start i)
           then Some i else None)"

definition iv_key :: "interval \<Rightarrow> replay_key" where
  "iv_key i = replay_key (iv_app i) (iv_start i) (iv_end i)"

lemma day_collect_entry:
  "day_collect a b acc raw =
     (case day_entry a b raw of None \<Rightarrow> acc
      | Some i \<Rightarrow> if iv_key i \<in> snd acc then acc else (fst acc @ [i], insert (iv_key i) (snd acc)))"
  unfolding day_collect_def day_entry_def Let_def iv_key_def
  by (cases "as_obj raw") (simp_all split del: if_split, simp split: if_split)

lemma day_entry_iv: "day_entry a b raw = Some i \<Longrightarrow> day_iv (inst a) (inst b) i"
  by (auto simp: day_entry_def Let_def day_iv_def after_def before_def split: option.splits if_splits)

lemma day_collect_day_iv:
  assumes "\<forall>i \<in> set (fst acc). day_iv (inst a) (inst b) i"
  shows "\<forall>i \<in> set (fst (day_collect a b acc raw)). day_iv (inst a) (inst b) i"
  using assms day_entry_iv [of a b raw] by (auto simp: day_collect_entry split: option.split)

lemma day_collect_all:
  "\<forall>i \<in> set (fst acc). day_iv (inst a) (inst b) i \<Longrightarrow>
   \<forall>i \<in> set (fst (foldl (day_collect a b) acc raws)). day_iv (inst a) (inst b) i"
proof (induction raws arbitrary: acc)
  case (Cons r rs)
  show ?case using Cons.IH [OF day_collect_day_iv [OF Cons.prems, of r]] by simp
qed simp

lemma set_sort_intervals [simp]: "set (sort_intervals is) = set is"
  by (simp add: sort_intervals_def)

lemma trim_overlaps_cases:
  obtains (skip) "trim_overlaps occ (i # is) = trim_overlaps occ is" "inst (iv_end i) \<le> max (inst (iv_start i)) (inst occ)"
  | (keep) s where "trim_overlaps occ (i # is) = i\<lparr>iv_start := s\<rparr> # trim_overlaps (iv_end i) is"
      "inst s = max (inst (iv_start i)) (inst occ)" "inst s < inst (iv_end i)" "s = iv_start i \<or> s = occ"
proof (cases "after (iv_end i) (if before (iv_start i) occ then occ else iv_start i)")
  case True
  have m: "inst (if before (iv_start i) occ then occ else iv_start i) = max (inst (iv_start i)) (inst occ)"
    by (simp add: before_def)
  show thesis
    by (rule keep [of "if before (iv_start i) occ then occ else iv_start i"])
      (use True m in \<open>simp_all add: Let_def after_def split del: if_split\<close>, simp)
next
  case False
  then show thesis by (intro skip) (simp_all add: Let_def after_def before_def split: if_splits)
qed

lemma trim_overlaps_after:
  "k \<in> set (trim_overlaps occ is) \<Longrightarrow> inst occ \<le> inst (iv_start k) \<and> inst (iv_start k) < inst (iv_end k)"
proof (induction "is" arbitrary: occ)
  case (Cons i "is")
  show ?case
  proof (rule trim_overlaps_cases [of occ i "is"])
    assume "trim_overlaps occ (i # is) = trim_overlaps occ is"
    then show ?thesis using Cons by simp
  next
    fix s assume s: "trim_overlaps occ (i # is) = i\<lparr>iv_start := s\<rparr> # trim_overlaps (iv_end i) is"
      "inst s = max (inst (iv_start i)) (inst occ)" "inst s < inst (iv_end i)"
    then show ?thesis using Cons.IH [of "iv_end i"] Cons.prems by auto
  qed
qed simp

lemma trim_overlaps_origin:
  "k \<in> set (trim_overlaps occ is) \<Longrightarrow> \<exists>i \<in> set is. iv_app k = iv_app i \<and> iv_end k = iv_end i
     \<and> inst (iv_start i) \<le> inst (iv_start k)"
proof (induction "is" arbitrary: occ)
  case (Cons i "is")
  show ?case
  proof (rule trim_overlaps_cases [of occ i "is"])
    assume "trim_overlaps occ (i # is) = trim_overlaps occ is"
    then show ?thesis using Cons.IH [of occ] Cons.prems by auto
  next
    fix s assume s: "trim_overlaps occ (i # is) = i\<lparr>iv_start := s\<rparr> # trim_overlaps (iv_end i) is"
      "inst s = max (inst (iv_start i)) (inst occ)"
    then show ?thesis using Cons.IH [of "iv_end i"] Cons.prems by auto
  qed
qed simp

lemma trim_overlaps_day_iv:
  assumes "\<forall>i \<in> set is. day_iv lo hi i"
  shows "\<forall>i \<in> set (trim_overlaps occ is). day_iv lo hi i"
proof
  fix k assume k: "k \<in> set (trim_overlaps occ is)"
  obtain i where i: "i \<in> set is" "iv_app k = iv_app i" "iv_end k = iv_end i"
    "inst (iv_start i) \<le> inst (iv_start k)"
    using trim_overlaps_origin [OF k] by auto
  have "day_iv lo hi i" using assms i(1) by blast
  then show "day_iv lo hi k" using trim_overlaps_after [OF k] i(2-4) by (simp add: day_iv_def)
qed

lemma trim_overlaps_chain: "chain (trim_overlaps occ is)"
proof (induction "is" arbitrary: occ)
  case (Cons i "is")
  show ?case
  proof (rule trim_overlaps_cases [of occ i "is"])
    assume "trim_overlaps occ (i # is) = trim_overlaps occ is"
    then show ?thesis using Cons.IH [of occ] by simp
  next
    fix s assume s: "trim_overlaps occ (i # is) = i\<lparr>iv_start := s\<rparr> # trim_overlaps (iv_end i) is"
    then show ?thesis using Cons.IH [of "iv_end i"] trim_overlaps_after by fastforce
  qed
qed simp

lemma trim_overlaps_covers:
  "sorted (map (\<lambda>i. inst (iv_start i)) is) \<Longrightarrow> inst occ \<le> x \<Longrightarrow>
     covered (trim_overlaps occ is) x \<longleftrightarrow> covered is x"
proof (induction "is" arbitrary: occ)
  case (Cons i "is")
  have st: "covered is x \<Longrightarrow> inst (iv_start i) \<le> x"
    using Cons.prems(1) by (force simp: covered_def)
  have IH: "inst occ' \<le> x \<Longrightarrow> covered (trim_overlaps occ' is) x \<longleftrightarrow> covered is x" for occ'
    using Cons by simp
  show ?case
  proof (rule trim_overlaps_cases [of occ i "is"])
    assume "trim_overlaps occ (i # is) = trim_overlaps occ is"
      "inst (iv_end i) \<le> max (inst (iv_start i)) (inst occ)"
    then show ?thesis using IH [of occ] Cons.prems(2) by auto
  next
    fix s assume s: "trim_overlaps occ (i # is) = i\<lparr>iv_start := s\<rparr> # trim_overlaps (iv_end i) is"
      "inst s = max (inst (iv_start i)) (inst occ)"
    show ?thesis
    proof (cases "inst (iv_end i) \<le> x")
      case True
      then show ?thesis using IH [of "iv_end i"] s Cons.prems(2) by simp
    next
      case False
      then have "\<not> covered (trim_overlaps (iv_end i) is) x"
        using trim_overlaps_after by (fastforce simp: covered_def)
      then show ?thesis using False s st Cons.prems(2) by auto
    qed
  qed
qed simp

lemma sort_intervals_sorted: "sorted (map (\<lambda>i. inst (iv_start i)) (sort_intervals is))"
proof -
  have "sorted (map (\<lambda>i. (inst (iv_start i), inst (iv_end i))) (sort_intervals is))"
    by (simp add: sort_intervals_def)
  then show ?thesis by (auto simp: sorted_map elim!: sorted_wrt_mono_rel [rotated])
qed

lemma covered_sort [simp]: "covered (sort_intervals is) x = covered is x"
  by (simp add: covered_def)

subsection \<open>A normalised day as intervals\<close>

definition year10000_inst :: int where "year10000_inst = 253402300800 * 10 ^ 9"

lemma printable_range:
  assumes "off t = 0" "zero_inst \<le> inst t" "inst t < year10000_inst"
  shows "printable t"
proof -
  obtain y m d where c: "civil_of (inst t div day_ns) = (y, m, d)" by (metis prod_cases3)
  have n: "dby 1 \<le> inst t div day_ns + epoch_days" "inst t div day_ns + epoch_days < dby 10000"
    using assms(2,3) by (simp_all add: zero_inst_def year10000_inst_def epoch_days_def dby_def ns_units
        zdiv_mono1 [of "- 62135596800 * 10 ^ 9" "inst t" day_ns, unfolded ns_units, simplified])
  have y: "y = year_of (inst t div day_ns + epoch_days)"
    using c by (simp add: civil_of_def Let_def)
  have "1 \<le> y" using year_of_correct [of "inst t div day_ns + epoch_days"] n(1) dby_mono [of "y + 1" 1] y
    by (cases "y + 1 < 1") (auto, (metis linorder_not_less add_le_same_cancel2 order.order_iff_strict zle_add1_eq_le))
  moreover have "y \<le> 9999" using year_of_correct [of "inst t div day_ns + epoch_days"] n(2) dby_mono [of 10000 y] y
    by (cases "y = 10000"; cases "10000 < y") auto
  ultimately show ?thesis using c assms(1) by (simp add: printable_def local_ns_def)
qed

definition utc_iv :: "interval \<Rightarrow> interval" where
  "utc_iv i = i\<lparr>iv_start := utc (iv_start i), iv_end := utc (iv_end i)\<rparr>"

lemma interval_entry_utc: "interval_entry (utc_iv i) = interval_entry i"
  by (simp add: interval_entry_def utc_iv_def)

lemma utc_iv_good:
  assumes "day_iv lo hi i" "zero_inst < lo" "hi < year10000_inst"
  shows "good_iv (utc_iv i)"
  using assms
  by (auto simp: good_iv_def utc_iv_def day_iv_def is_zero_def intro!: printable_range)

lemma chain_utc: "chain (map utc_iv is) = chain is"
  by (induction "is") (simp_all add: utc_iv_def)

lemma covered_utc: "covered (map utc_iv is) x = covered is x"
  by (induction "is") (simp_all add: utc_iv_def)

text \<open>The intervals the archive keeps of a day that starts at \<open>d0\<close>.\<close>

definition day_intervals :: "gotime \<Rightarrow> val list \<Rightarrow> interval list" where
  "day_intervals d0 sessions = map utc_iv (trim_overlaps zero_time (sort_intervals
     (fst (foldl (day_collect d0 (add d0 day_ns)) ([], {}) sessions))))"

definition ordinary_day :: "gotime \<Rightarrow> bool" where
  "ordinary_day d0 \<longleftrightarrow> zero_inst < inst d0 \<and> inst d0 + day_ns < year10000_inst"

lemma day_intervals_day_iv:
  "\<forall>i \<in> set (day_intervals d0 sessions). day_iv (inst d0) (inst d0 + day_ns) i"
proof -
  have "\<forall>i \<in> set (trim_overlaps zero_time (sort_intervals
     (fst (foldl (day_collect d0 (add d0 day_ns)) ([], {}) sessions)))).
       day_iv (inst d0) (inst (add d0 day_ns)) i"
    by (intro trim_overlaps_day_iv) (use day_collect_all [of "([], {})" d0 "add d0 day_ns" sessions] in simp)
  then show ?thesis by (auto simp: day_intervals_def utc_iv_def day_iv_def)
qed

lemma day_intervals_good:
  assumes "ordinary_day d0" shows "\<forall>i \<in> set (day_intervals d0 sessions). good_iv i"
proof
  fix i assume i: "i \<in> set (day_intervals d0 sessions)"
  then have "utc_iv i = i" by (auto simp: day_intervals_def utc_iv_def)
  with utc_iv_good [OF bspec [OF day_intervals_day_iv i]] assms show "good_iv i"
    by (simp add: ordinary_day_def)
qed

lemma day_intervals_chain: "chain (day_intervals d0 sessions)"
  by (simp add: day_intervals_def chain_utc trim_overlaps_chain)

lemma normalize_intervals:
  assumes "parse_date_in date loc = Some d0" "ordinary_day d0"
  shows "normalizeActivitySessions sessions date loc
     = map interval_entry (merge_iv activitySessionMergeGap (day_intervals d0 sessions))"
proof -
  have "normalizeActivitySessions sessions date loc
      = mergeActivitySessions (map interval_entry (day_intervals d0 sessions)) activitySessionMergeGap"
    using assms(1) by (simp add: normalizeActivitySessions_def day_intervals_def Let_def comp_def interval_entry_utc)
  then show ?thesis by (simp add: mergeActivitySessions_entries [OF day_intervals_good [OF assms(2)]])
qed

definition stored_day :: "gotime \<Rightarrow> interval list \<Rightarrow> bool" where
  "stored_day d0 is \<longleftrightarrow> (\<forall>i \<in> set is. good_iv i \<and> day_iv (inst d0) (inst d0 + day_ns) i) \<and> chain is
     \<and> successively (\<lambda>i j. \<not> mergeable activitySessionMergeGap i j) is"

lemma stored_day_merge:
  assumes "ordinary_day d0"
  shows "stored_day d0 (merge_iv activitySessionMergeGap (day_intervals d0 sessions))"
proof -
  let ?m = "merge_iv activitySessionMergeGap (day_intervals d0 sessions)"
  have g: "\<forall>i \<in> set ?m. good_iv i" by (rule merge_iv_good [OF day_intervals_good [OF assms]])
  have "day_iv (inst d0) (inst d0 + day_ns) k" if k: "k \<in> set ?m" for k
    using merge_iv_bounds [OF k] day_intervals_day_iv [of d0 sessions] good_ivD [OF bspec [OF g k]]
    by (auto simp: day_iv_def)
  then show ?thesis using g merge_iv_chain [OF day_intervals_chain] merge_iv_stops
    by (simp add: stored_day_def)
qed

lemma chain_total:
  "chain is \<Longrightarrow> lo \<le> hi \<Longrightarrow> \<forall>i \<in> set is. lo \<le> inst (iv_start i) \<and> inst (iv_end i) \<le> hi \<and> inst (iv_start i) < inst (iv_end i)
     \<Longrightarrow> (\<Sum>i\<leftarrow>is. inst (iv_end i) - inst (iv_start i)) \<le> hi - lo"
proof (induction "is" arbitrary: lo)
  case (Cons i "is")
  have "(\<Sum>i\<leftarrow>is. inst (iv_end i) - inst (iv_start i)) \<le> hi - inst (iv_end i)"
    using Cons.prems by (intro Cons.IH) auto
  then show ?case using Cons.prems(3) by simp
qed simp

text \<open>What a stored day is, read off its entries.\<close>

definition entry_length :: "val \<Rightarrow> int" where
  "entry_length e = inst (activitySessionEnd e) - inst (activitySessionStart e)"

definition entry_app :: "val \<Rightarrow> string" where
  "entry_app e = (case as_obj e of Some m \<Rightarrow> str_of (get m ''app_name'') | None \<Rightarrow> [])"

definition entry_covers :: "val \<Rightarrow> int \<Rightarrow> bool" where
  "entry_covers e x \<longleftrightarrow> inst (activitySessionStart e) \<le> x \<and> x < inst (activitySessionEnd e)"

lemma entry_good [simp, sessions]:
  assumes "good_iv i"
  shows "entry_length (interval_entry i) = inst (iv_end i) - inst (iv_start i)"
    "entry_app (interval_entry i) = iv_app i"
    "entry_covers (interval_entry i) x \<longleftrightarrow> inst (iv_start i) \<le> x \<and> x < inst (iv_end i)"
  using assms by (simp_all add: entry_length_def entry_app_def entry_covers_def)
    (simp add: interval_entry_good)

lemma stored_day_entries:
  assumes "stored_day d0 is"
  shows "\<forall>e \<in> set (map interval_entry is). isVisibleAppUsageName (entry_app e)
      \<and> inst d0 \<le> inst (activitySessionStart e) \<and> 0 < entry_length e
      \<and> inst (activitySessionEnd e) \<le> inst d0 + day_ns"
    "sorted_wrt (\<lambda>a b. inst (activitySessionEnd a) \<le> inst (activitySessionStart b)) (map interval_entry is)"
    "(\<Sum>e\<leftarrow>map interval_entry is. entry_length e) \<le> day_ns"
    "successively (\<lambda>a b. appKey (entry_app a) = appKey (entry_app b)
       \<longrightarrow> activitySessionMergeGap < inst (activitySessionStart b) - inst (activitySessionEnd a))
       (map interval_entry is)"
proof -
  have g: "\<forall>i \<in> set is. good_iv i" and d: "\<forall>i \<in> set is. day_iv (inst d0) (inst d0 + day_ns) i"
    and c: "chain is" and s: "successively (\<lambda>i j. \<not> mergeable activitySessionMergeGap i j) is"
    using assms by (auto simp: stored_day_def)
  show "\<forall>e \<in> set (map interval_entry is). isVisibleAppUsageName (entry_app e)
      \<and> inst d0 \<le> inst (activitySessionStart e) \<and> 0 < entry_length e
      \<and> inst (activitySessionEnd e) \<le> inst d0 + day_ns"
    using g d by (auto simp: day_iv_def)
  show "sorted_wrt (\<lambda>a b. inst (activitySessionEnd a) \<le> inst (activitySessionStart b)) (map interval_entry is)"
    unfolding sorted_wrt_map using c g unfolding chain_def
    by (rule_tac sorted_wrt_mono_rel [rotated]) auto
  have "(\<Sum>i\<leftarrow>is. inst (iv_end i) - inst (iv_start i)) \<le> inst d0 + day_ns - inst d0"
    using c d by (intro chain_total) (auto simp: day_iv_def ns_units)
  moreover have "map (entry_length \<circ> interval_entry) is = map (\<lambda>i. inst (iv_end i) - inst (iv_start i)) is"
    using g by simp
  ultimately show "(\<Sum>e\<leftarrow>map interval_entry is. entry_length e) \<le> day_ns"
    by (simp only: map_map)
  show "successively (\<lambda>a b. appKey (entry_app a) = appKey (entry_app b)
       \<longrightarrow> activitySessionMergeGap < inst (activitySessionStart b) - inst (activitySessionEnd a))
       (map interval_entry is)"
    unfolding successively_map using s
    by (rule successively_mono) (use g in \<open>auto simp: mergeable_def\<close>)
qed

subsection \<open>Normalising twice\<close>

lemma i64_inj: "i64 a = i64 b \<Longrightarrow> \<bar>a - b\<bar> < 2 ^ 64 \<Longrightarrow> a = b"
proof -
  assume e: "i64 a = i64 b" and d: "\<bar>a - b\<bar> < 2 ^ 64"
  then have "(a + 2 ^ 63) mod 2 ^ 64 = (b + 2 ^ 63) mod 2 ^ 64" by (simp add: i64_def)
  then have "2 ^ 64 dvd (a + 2 ^ 63) - (b + 2 ^ 63)" by (rule mod_eqE) simp
  then obtain k where k: "a - b = 2 ^ 64 * k" by (auto simp: dvd_def)
  have "k = 0"
  proof (rule ccontr)
    assume "k \<noteq> 0"
    then have "1 \<le> \<bar>k\<bar>" by simp
    then have "2 ^ 64 \<le> \<bar>2 ^ 64 * k\<bar>" by (simp add: abs_mult)
    then show False using d k by simp
  qed
  then show "a = b" using k by simp
qed

lemma day_entry_stored:
  assumes "good_iv i" "day_iv (inst d0) (inst d0 + day_ns) i"
  shows "day_entry d0 (add d0 day_ns) (interval_entry i) = Some i"
  using assms good_ivD [OF assms(1)] entry_times [OF assms(1)]
  by (simp add: day_entry_def interval_entry_good day_iv_def Let_def before_def after_def)

lemma day_collect_stored:
  "\<forall>i \<in> set is. good_iv i \<and> day_iv (inst d0) (inst d0 + day_ns) i \<Longrightarrow> distinct (map iv_key is) \<Longrightarrow>
   iv_key ` set is \<inter> ks = {} \<Longrightarrow>
   fst (foldl (day_collect d0 (add d0 day_ns)) (js, ks) (map interval_entry is)) = js @ is"
proof (induction "is" arbitrary: js ks)
  case (Cons i "is")
  have "day_collect d0 (add d0 day_ns) (js, ks) (interval_entry i) = (js @ [i], insert (iv_key i) ks)"
    using Cons.prems by (auto simp: day_collect_entry day_entry_stored)
  then show ?case using Cons.prems Cons.IH [of "insert (iv_key i) ks" "js @ [i]"] by auto
qed simp

lemma chain_distinct_keys:
  "chain is \<Longrightarrow> \<forall>i \<in> set is. day_iv lo (lo + day_ns) i \<Longrightarrow> distinct (map iv_key is)"
proof (induction "is")
  case (Cons i "is")
  have "iv_key i \<noteq> iv_key j" if "j \<in> set is" for j
  proof
    assume "iv_key i = iv_key j"
    then have "i64 (inst (iv_start i)) = i64 (inst (iv_start j))" by (simp add: iv_key_def replay_key_def)
    then have "inst (iv_start i) = inst (iv_start j)"
      by (rule i64_inj) (use Cons.prems that in \<open>auto simp: day_iv_def ns_units\<close>)
    then show False using Cons.prems that by (auto simp: day_iv_def)
  qed
  then show ?case using Cons by auto
qed simp

lemma sort_intervals_id:
  assumes "chain is" "\<forall>i \<in> set is. inst (iv_start i) < inst (iv_end i)"
  shows "sort_intervals is = is"
  unfolding sort_intervals_def
proof (rule sort_key_id_if_sorted)
  show "sorted (map (\<lambda>i. (inst (iv_start i), inst (iv_end i))) is)"
    unfolding sorted_map using assms unfolding chain_def
    by (elim sorted_wrt_mono_rel [rotated]) (fastforce simp: less_eq_prod_simp)
qed

lemma trim_overlaps_id:
  "chain is \<Longrightarrow> \<forall>i \<in> set is. inst occ \<le> inst (iv_start i) \<and> inst (iv_start i) < inst (iv_end i) \<Longrightarrow>
   trim_overlaps occ is = is"
proof (induction "is" arbitrary: occ)
  case (Cons i "is")
  have "trim_overlaps (iv_end i) is = is" using Cons.prems by (intro Cons.IH) auto
  then show ?case using Cons.prems by (simp add: Let_def before_def after_def)
qed simp

lemma day_intervals_stored:
  assumes "stored_day d0 is" "ordinary_day d0"
  shows "day_intervals d0 (map interval_entry is) = is"
proof -
  have g: "\<forall>i \<in> set is. good_iv i" and d: "\<forall>i \<in> set is. day_iv (inst d0) (inst d0 + day_ns) i"
    and c: "chain is" using assms(1) by (auto simp: stored_day_def)
  have u: "map utc_iv is = is" using g by (auto intro!: map_idI simp: utc_iv_def utc_id good_iv_def)
  have "fst (foldl (day_collect d0 (add d0 day_ns)) ([], {}) (map interval_entry is)) = is"
    using day_collect_stored [of "is" d0 "{}" "[]"] g d chain_distinct_keys [OF c d] by simp
  moreover have "sort_intervals is = is" using c g by (auto intro: sort_intervals_id)
  moreover have "trim_overlaps zero_time is = is"
    using c g d assms(2) by (intro trim_overlaps_id) (auto simp: zero_time_def ordinary_day_def day_iv_def)
  ultimately show ?thesis by (simp add: day_intervals_def u)
qed

lemma merge_stored: "stored_day d0 is \<Longrightarrow> merge_iv activitySessionMergeGap is = is"
  by (simp add: stored_day_def merge_iv_fixpoint)

subsection \<open>Coverage\<close>

lemma replay_covers:
  assumes "iv_key i = iv_key j" "day_iv lo (lo + day_ns) i" "day_iv lo (lo + day_ns) j"
  shows "inst (iv_start i) = inst (iv_start j)" "inst (iv_end i) = inst (iv_end j)"
  using assms by (auto simp: iv_key_def replay_key_def day_iv_def ns_units intro!: i64_inj)

text \<open>A raw entry the day counts, and the instants of the day it covers.\<close>

definition counts_at :: "val \<Rightarrow> int \<Rightarrow> bool" where
  "counts_at raw x \<longleftrightarrow> as_obj raw \<noteq> None \<and> isVisibleAppUsageName (displayAppName (entry_app raw))
     \<and> \<not> is_zero (activitySessionStart raw) \<and> \<not> is_zero (activitySessionEnd raw)
     \<and> entry_covers raw x"

definition collected :: "int \<Rightarrow> interval list \<times> replay_key set \<Rightarrow> bool" where
  "collected lo acc \<longleftrightarrow> snd acc = iv_key ` set (fst acc) \<and> (\<forall>i \<in> set (fst acc). day_iv lo (lo + day_ns) i)"

lemma day_collect_collected:
  assumes "collected (inst d0) acc"
  shows "collected (inst d0) (day_collect d0 (add d0 day_ns) acc raw)"
  using assms day_entry_iv [of d0 "add d0 day_ns" raw]
  by (auto simp: collected_def day_collect_entry split: option.split)

lemma day_entry_covers:
  assumes "inst d0 \<le> x" "x < inst d0 + day_ns"
  shows "counts_at raw x \<longleftrightarrow>
    (\<exists>i. day_entry d0 (add d0 day_ns) raw = Some i \<and> inst (iv_start i) \<le> x \<and> x < inst (iv_end i))"
proof (cases "as_obj raw")
  case (Some m)
  let ?s = "activitySessionStart raw" let ?e = "activitySessionEnd raw"
  have clip: "inst ?s \<le> x \<and> x < inst ?e \<longleftrightarrow>
      inst (if before ?s d0 then d0 else ?s) \<le> x \<and> x < inst (if after ?e (add d0 day_ns) then add d0 day_ns else ?e)"
    using assms by (auto simp: before_def after_def)
  let ?s' = "if before ?s d0 then d0 else ?s"
  let ?e' = "if after ?e (add d0 day_ns) then add d0 day_ns else ?e"
  let ?i = "\<lparr>iv_app = displayAppName (str_of (get m ''app_name'')), iv_start = ?s', iv_end = ?e',
      iv_dev = str_of (get m ''device_id''), iv_user = str_of (get m ''username'')\<rparr>"
  let ?v = "isVisibleAppUsageName (displayAppName (str_of (get m ''app_name''))) \<and> \<not> is_zero ?s \<and> \<not> is_zero ?e"
  have e: "day_entry d0 (add d0 day_ns) raw = (if ?v \<and> after ?e ?s \<and> after ?e' ?s' then Some ?i else None)"
    unfolding day_entry_def Let_def using Some by simp
  have c: "counts_at raw x \<longleftrightarrow> ?v \<and> inst ?s \<le> x \<and> x < inst ?e"
    using Some by (simp add: counts_at_def entry_app_def entry_covers_def)
  have "after ?e ?s" if "inst ?s \<le> x \<and> x < inst ?e" using that by (simp add: after_def)
  moreover have "after ?e' ?s'" if "inst ?s' \<le> x \<and> x < inst ?e'"
    using order.strict_trans1 [OF conjunct1 [OF that] conjunct2 [OF that]] by (simp only: after_def)
  moreover have "(\<exists>i. (if C then Some I else None) = Some i \<and> P i) \<longleftrightarrow> C \<and> P I"
    for C and I :: interval and P by auto
  ultimately show ?thesis unfolding c e interval.simps using clip by (simp del: if_split split del: if_split) argo
qed (simp add: counts_at_def day_entry_def)

lemma day_collect_covered:
  assumes c: "collected (inst d0) acc" and x: "inst d0 \<le> x" "x < inst d0 + day_ns"
  shows "covered (fst (day_collect d0 (add d0 day_ns) acc raw)) x \<longleftrightarrow> covered (fst acc) x \<or> counts_at raw x"
proof (cases "day_entry d0 (add d0 day_ns) raw")
  case None
  then show ?thesis using day_entry_covers [OF x, of raw] by (simp add: day_collect_entry)
next
  case (Some i)
  note i = day_entry_covers [OF x, of raw, unfolded Some option.inject ex_simps simp_thms]
  show ?thesis
  proof (cases "iv_key i \<in> snd acc")
    case False
    then show ?thesis using i Some by (auto simp: day_collect_entry covered_def)
  next
    case True
    then obtain j where j: "j \<in> set (fst acc)" "iv_key i = iv_key j" "day_iv (inst d0) (inst d0 + day_ns) j"
      using c by (auto simp: collected_def)
    have di: "day_iv (inst d0) (inst d0 + day_ns) i" using day_entry_iv [OF Some] by simp
    have "counts_at raw x \<Longrightarrow> covered (fst acc) x"
      using replay_covers [OF j(2) di j(3)] i j(1) by (auto simp: covered_def)
    then show ?thesis using True Some by (auto simp: day_collect_entry)
  qed
qed

lemma collect_covered:
  assumes "collected (inst d0) acc" "inst d0 \<le> x" "x < inst d0 + day_ns"
  shows "covered (fst (foldl (day_collect d0 (add d0 day_ns)) acc raws)) x
     \<longleftrightarrow> covered (fst acc) x \<or> (\<exists>raw \<in> set raws. counts_at raw x)"
  using assms(1)
proof (induction raws arbitrary: acc)
  case (Cons r rs)
  show ?case
    using Cons.IH [OF day_collect_collected [OF Cons.prems]] day_collect_covered [OF Cons.prems assms(2,3), of r]
    by auto
qed simp

lemma day_intervals_covered:
  assumes "ordinary_day d0" "inst d0 \<le> x" "x < inst d0 + day_ns"
  shows "covered (day_intervals d0 sessions) x \<longleftrightarrow> (\<exists>raw \<in> set sessions. counts_at raw x)"
proof -
  have "inst zero_time \<le> x" using assms by (simp add: ordinary_day_def zero_time_def)
  then show ?thesis
    using collect_covered [of d0 "([], {})" x sessions] assms(2,3)
    by (simp add: day_intervals_def covered_utc trim_overlaps_covers [OF sort_intervals_sorted] collected_def)
qed

text \<open>Coverage before and after, shared with the archive.\<close>

lemma normalize_covers:
  assumes "parse_date_in date loc = Some d0" "ordinary_day d0"
    "inst d0 \<le> x" "x < inst d0 + day_ns" "raw \<in> set sessions" "counts_at raw x"
  shows "\<exists>e \<in> set (normalizeActivitySessions sessions date loc). entry_covers e x"
proof -
  have "covered (day_intervals d0 sessions) x"
    using day_intervals_covered assms(2-6) by blast
  then have "covered (merge_iv activitySessionMergeGap (day_intervals d0 sessions)) x"
    using merge_iv_covers day_intervals_chain day_intervals_good [OF assms(2)] by blast
  then show ?thesis unfolding normalize_intervals [OF assms(1,2)] covered_def
    using stored_day_merge [OF assms(2), of sessions] by (auto simp: stored_day_def)
qed

lemma normalized_counts:
  assumes "parse_date_in date loc = Some d0" "ordinary_day d0" "e \<in> set (normalizeActivitySessions sessions date loc)"
  shows "counts_at e x \<longleftrightarrow> entry_covers e x"
proof -
  obtain i where i: "e = interval_entry i" "good_iv i"
    using assms(3) stored_day_merge [OF assms(2), of sessions] unfolding normalize_intervals [OF assms(1,2)] stored_day_def by auto
  then show ?thesis using good_ivD [OF i(2)] by (simp add: counts_at_def) (simp add: interval_entry_good)
qed

subsection \<open>The properties of a normalised day\<close>

text \<open>C3. Whatever fragments, replays, overlaps and overflowing spans a device reports for a day,
  the sessions stored for it name visible applications only, lie inside the day, have positive
  length, follow one another without overlapping, fill at most 24 hours together, and two
  neighbours of one application are more than the merge gap apart.\<close>

theorem normalized_day:
  assumes "parse_date_in date loc = Some d0" "ordinary_day d0"
  shows "(\<forall>e \<in> set (normalizeActivitySessions sessions date loc). isVisibleAppUsageName (entry_app e)
      \<and> inst d0 \<le> inst (activitySessionStart e) \<and> 0 < entry_length e
      \<and> inst (activitySessionEnd e) \<le> inst d0 + day_ns)
    \<and> sorted_wrt (\<lambda>a b. inst (activitySessionEnd a) \<le> inst (activitySessionStart b))
        (normalizeActivitySessions sessions date loc)
    \<and> (\<Sum>e\<leftarrow>normalizeActivitySessions sessions date loc. entry_length e) \<le> day_ns
    \<and> successively (\<lambda>a b. appKey (entry_app a) = appKey (entry_app b)
        \<longrightarrow> activitySessionMergeGap < inst (activitySessionStart b) - inst (activitySessionEnd a))
        (normalizeActivitySessions sessions date loc)"
  unfolding normalize_intervals [OF assms]
  using stored_day_entries [OF stored_day_merge [OF assms(2)]] by blast

text \<open>C4. No observed time is lost: an instant of the day that some reported session of a visible
  application covers is covered by a stored one.\<close>

theorem normalize_keeps_time:
  assumes "parse_date_in date loc = Some d0" "ordinary_day d0"
    "inst d0 \<le> x" "x < inst d0 + day_ns" "raw \<in> set sessions" "counts_at raw x"
  shows "\<exists>e \<in> set (normalizeActivitySessions sessions date loc). entry_covers e x"
  using assms by (rule normalize_covers)

text \<open>Normalising is idempotent: what the archive has stored for a day is not changed by reading
  it back and normalising it again with the next batch's empty contribution.\<close>

theorem normalize_idempotent:
  assumes "parse_date_in date loc = Some d0" "ordinary_day d0"
  shows "normalizeActivitySessions (normalizeActivitySessions sessions date loc) date loc
     = normalizeActivitySessions sessions date loc"
proof -
  note st = stored_day_merge [OF assms(2), of sessions]
  show ?thesis
    unfolding normalize_intervals [OF assms] day_intervals_stored [OF st assms(2)] merge_stored [OF st] ..
qed

definition sample_sessions :: "val list" where
  "sample_sessions =
     [Obj [(''app_name'', Str ''Firefox''), (''start_time'', Str ''2024-02-29T23:50:00Z''),
           (''end_time'', Str ''2024-03-01T00:10:00Z'')],
      Obj [(''app_name'', Str ''Slack''), (''start_time'', Str ''2024-03-01T00:05:00Z''),
           (''duration_seconds'', F64 600)],
      Obj [(''app_name'', Str ''Firefox''), (''start_time'', Str ''2024-02-29T23:50:00Z''),
           (''end_time'', Str ''2024-03-01T00:10:00Z'')]]"

definition sample_day :: gotime where
  "sample_day = \<lparr>inst = 1709251200 * 10 ^ 9, off = 0\<rparr>"

lemma sample_day_parse: "parse_date_in ''2024-03-01'' 0 = Some sample_day"
  by code_simp

lemma sample_day_ordinary: "ordinary_day sample_day"
  by code_simp

theorem normalized_day_witness:
  "(\<Sum>e\<leftarrow>normalizeActivitySessions sample_sessions ''2024-03-01'' 0. entry_length e) \<le> day_ns
   \<and> map entry_length (normalizeActivitySessions sample_sessions ''2024-03-01'' 0) = [10 * minute_ns, 5 * minute_ns]"
proof
  show "(\<Sum>e\<leftarrow>normalizeActivitySessions sample_sessions ''2024-03-01'' 0. entry_length e) \<le> day_ns"
    using normalized_day [OF sample_day_parse sample_day_ordinary, of sample_sessions] by blast
  show "map entry_length (normalizeActivitySessions sample_sessions ''2024-03-01'' 0) = [10 * minute_ns, 5 * minute_ns]"
    unfolding normalize_intervals [OF sample_day_parse sample_day_ordinary] by code_simp
qed

theorem normalize_keeps_time_witness:
  "\<exists>e \<in> set (normalizeActivitySessions sample_sessions ''2024-03-01'' 0).
     entry_covers e (inst sample_day + 12 * minute_ns)"
proof (rule normalize_keeps_time [OF sample_day_parse sample_day_ordinary])
  show "sample_sessions ! 1 \<in> set sample_sessions" by (simp add: sample_sessions_def)
  show "counts_at (sample_sessions ! 1) (inst sample_day + 12 * minute_ns)" by code_simp
qed (simp_all add: ns_units)

theorem normalize_idempotent_witness:
  "normalizeActivitySessions (normalizeActivitySessions sample_sessions ''2024-03-01'' 0) ''2024-03-01'' 0
     = normalizeActivitySessions sample_sessions ''2024-03-01'' 0
   \<and> length (normalizeActivitySessions sample_sessions ''2024-03-01'' 0) = 2"
proof
  show "length (normalizeActivitySessions sample_sessions ''2024-03-01'' 0) = 2"
    unfolding normalize_intervals [OF sample_day_parse sample_day_ordinary] by code_simp
qed (rule normalize_idempotent [OF sample_day_parse sample_day_ordinary])

end
