(* ===== verification/PresenceLaws.thy ===== *)
theory PresenceLaws
  imports SessionLaws "HOL-Library.Multiset"
begin

text \<open>
  The laws of the online windows a day's heartbeats leave, of the sessions clipped to them, and
  of the per-application totals the reports show.
\<close>

subsection \<open>Online windows\<close>

definition w_chain :: "window list \<Rightarrow> bool" where
  "w_chain = sorted_wrt (\<lambda>a b. inst (w_end a) \<le> inst (w_start b))"

definition points_sorted :: "gotime list \<Rightarrow> bool" where
  "points_sorted ps \<longleftrightarrow> sorted (map inst ps)"

lemma sub_gap:
  "0 < sub q p \<Longrightarrow> inst p < inst q"
  "(if sub q p > 2 * minute_ns then 2 * minute_ns else sub q p) \<le> 2 * minute_ns"
  "0 < sub q p \<Longrightarrow> (if sub q p > 2 * minute_ns then 2 * minute_ns else sub q p) \<le> inst q - inst p"
  by (auto simp: sub_def sat64_def i64_min_def i64_max_def ns_units split: if_splits)

lemma presence_windows_in:
  "points_sorted (p # ps) \<Longrightarrow> w \<in> set (presenceWindows (p # ps)) \<Longrightarrow>
     inst p \<le> inst (w_start w) \<and> inst (w_start w) < inst (w_end w)
     \<and> inst (w_end w) \<le> inst (last (p # ps)) \<and> inst (w_end w) - inst (w_start w) \<le> 2 * minute_ns"
proof (induction ps arbitrary: p)
  case (Cons q qs)
  have s: "points_sorted (q # qs)" "inst p \<le> inst q" "inst q \<le> inst (last (q # qs))"
    using Cons.prems(1) last_in_set [of "q # qs"] by (auto simp: points_sorted_def simp del: last.simps)
  show ?case
  proof (cases "w \<in> set (presenceWindows (q # qs))")
    case True
    then show ?thesis using Cons.IH [OF s(1)] s(2) by auto
  next
    case False
    then have "0 < sub q p" and w: "w = \<lparr>w_start = p, w_end = add p (if sub q p > 2 * minute_ns then 2 * minute_ns else sub q p)\<rparr>"
      using Cons.prems(2) by (auto simp: Let_def simp del: if_split split: if_split_asm)
    then show ?thesis using sub_gap [of q p] s(3) by (auto simp: ns_units)
  qed
qed simp

lemma presence_windows_chain: "points_sorted ps \<Longrightarrow> w_chain (presenceWindows ps)"
proof (induction ps rule: induct_list012)
  case (3 p q ps)
  have s: "points_sorted (q # ps)" using "3.prems" by (simp add: points_sorted_def)
  have "inst (add p (if sub q p > 2 * minute_ns then 2 * minute_ns else sub q p)) \<le> inst (w_start w)"
    if "0 < sub q p" "w \<in> set (presenceWindows (q # ps))" for w
    using sub_gap(3) [OF that(1)] presence_windows_in [OF s that(2)] by simp
  then show ?case
    using "3.IH"(2) [OF s] by (auto simp: Let_def w_chain_def simp del: if_split presenceWindows.simps(1) add_simps
      simp: presenceWindows.simps(1) [of p q ps])
qed (simp_all add: w_chain_def)

lemma w_chain_total:
  "w_chain ws \<Longrightarrow> lo \<le> hi \<Longrightarrow> \<forall>w \<in> set ws. lo \<le> inst (w_start w) \<and> inst (w_start w) < inst (w_end w) \<and> inst (w_end w) \<le> hi
     \<Longrightarrow> (\<Sum>w\<leftarrow>ws. inst (w_end w) - inst (w_start w)) \<le> hi - lo"
proof (induction ws arbitrary: lo)
  case (Cons w ws)
  have "(\<Sum>w\<leftarrow>ws. inst (w_end w) - inst (w_start w)) \<le> hi - inst (w_end w)"
    using Cons.prems by (intro Cons.IH) (auto simp: w_chain_def)
  then show ?case using Cons.prems(3) by simp
qed simp

text \<open>Online time never exceeds the time that passed: for heartbeats in order the windows are
  disjoint and ordered, none is longer than two minutes, and together they fit between the first
  and the last heartbeat.\<close>

theorem presence_bounded:
  assumes "points_sorted ps" "ps \<noteq> []"
  shows "w_chain (presenceWindows ps)
    \<and> (\<forall>w \<in> set (presenceWindows ps). 0 < inst (w_end w) - inst (w_start w)
         \<and> inst (w_end w) - inst (w_start w) \<le> 2 * minute_ns)
    \<and> (\<Sum>w\<leftarrow>presenceWindows ps. inst (w_end w) - inst (w_start w)) \<le> inst (last ps) - inst (hd ps)"
proof -
  obtain p qs where ps: "ps = p # qs" using assms(2) by (cases ps) auto
  have le: "inst p \<le> inst (last (p # qs))"
    using assms(1) last_in_set [of "p # qs"] by (auto simp: points_sorted_def ps simp del: last.simps)
  have c: "w_chain (presenceWindows ps)" by (rule presence_windows_chain [OF assms(1)])
  have w: "\<forall>w \<in> set (presenceWindows ps). inst p \<le> inst (w_start w) \<and> inst (w_start w) < inst (w_end w)
     \<and> inst (w_end w) \<le> inst (last ps) \<and> inst (w_end w) - inst (w_start w) \<le> 2 * minute_ns"
    using presence_windows_in assms(1) unfolding ps by blast
  show ?thesis using c w w_chain_total [OF c le] by (auto simp: ps)
qed

theorem presence_bounded_witness:
  "(\<Sum>w\<leftarrow>presenceWindows [sample_day, add sample_day minute_ns, add sample_day hour_ns].
      inst (w_end w) - inst (w_start w)) = 3 * minute_ns
   \<and> w_chain (presenceWindows [sample_day, add sample_day minute_ns, add sample_day hour_ns])"
proof
  show "w_chain (presenceWindows [sample_day, add sample_day minute_ns, add sample_day hour_ns])"
    using presence_bounded [of "[sample_day, add sample_day minute_ns, add sample_day hour_ns]"]
    by (simp add: points_sorted_def ns_units)
qed code_simp

subsection \<open>Sessions clipped to the windows\<close>

definition settle :: "interval list \<Rightarrow> interval list" where
  "settle is = map utc_iv (trim_overlaps zero_time (sort_intervals is))"

lemma settle_laws:
  assumes "\<forall>i \<in> set is. day_iv lo hi i" "zero_inst < lo" "hi < year10000_inst"
  shows "\<forall>i \<in> set (settle is). good_iv i \<and> day_iv lo hi i" "chain (settle is)"
    "covered (settle is) x \<longleftrightarrow> covered is x"
proof -
  have d: "\<forall>i \<in> set (trim_overlaps zero_time (sort_intervals is)). day_iv lo hi i"
    by (rule trim_overlaps_day_iv) (use assms(1) in simp)
  then show "\<forall>i \<in> set (settle is). good_iv i \<and> day_iv lo hi i"
    using utc_iv_good [OF _ assms(2,3)] by (auto simp: settle_def) (auto simp: day_iv_def utc_iv_def)
  show "chain (settle is)" by (simp add: settle_def chain_utc trim_overlaps_chain)
  show "covered (settle is) x \<longleftrightarrow> covered is x"
  proof (cases "zero_inst \<le> x")
    case True
    then show ?thesis
      by (simp add: settle_def covered_utc trim_overlaps_covers [OF sort_intervals_sorted] zero_time_def)
  next
    case False
    then have "\<not> covered is x" "\<not> covered (trim_overlaps zero_time (sort_intervals is)) x"
      using assms d by (fastforce simp: covered_def day_iv_def)+
    then show ?thesis by (simp add: settle_def covered_utc)
  qed
qed

lemma merge_settled:
  assumes "\<forall>i \<in> set is. day_iv lo hi i" "zero_inst < lo" "hi < year10000_inst"
  shows "mergeActivitySessions (map interval_entry (trim_overlaps zero_time (sort_intervals is))) g
     = map interval_entry (merge_iv g (settle is))"
proof -
  have "mergeActivitySessions (map interval_entry (settle is)) g = map interval_entry (merge_iv g (settle is))"
    by (rule mergeActivitySessions_entries) (use settle_laws(1) [OF assms] in blast)
  then show ?thesis by (simp add: settle_def comp_def interval_entry_utc)
qed

lemma settle_origin:
  assumes "k \<in> set (settle is)"
  shows "\<exists>i \<in> set is. inst (iv_start i) \<le> inst (iv_start k) \<and> inst (iv_end k) = inst (iv_end i)"
proof -
  obtain j where j: "j \<in> set (trim_overlaps zero_time (sort_intervals is))" "k = utc_iv j"
    using assms by (auto simp: settle_def)
  show ?thesis using trim_overlaps_origin [OF j(1)] by (auto simp: j(2) utc_iv_def)
qed

lemma chain_entries:
  assumes "\<forall>i \<in> set is. good_iv i" "chain is"
  shows "sorted_wrt (\<lambda>a b. inst (activitySessionEnd a) \<le> inst (activitySessionStart b)) (map interval_entry is)"
  unfolding sorted_wrt_map using assms(2) unfolding chain_def
  by (rule sorted_wrt_mono_rel [rotated]) (use assms(1) in auto)

definition in_window :: "window \<Rightarrow> int \<Rightarrow> bool" where
  "in_window w x \<longleftrightarrow> inst (w_start w) \<le> x \<and> x < inst (w_end w)"

lemma clip_covers:
  "covered (clip_to_window a m s e w) x \<longleftrightarrow> in_window w x \<and> inst s \<le> x \<and> x < inst e"
  by (auto simp: clip_to_window_def Let_def in_window_def after_def before_def)

lemma clip_inside:
  assumes "i \<in> set (clip_to_window a m s e w)" "displayAppName a = a" "isVisibleAppUsageName a"
  shows "day_iv (inst (w_start w)) (inst (w_end w)) i"
  using assms by (auto simp: clip_to_window_def Let_def day_iv_def after_def before_def split: if_splits)

lemma presence_intervals_in:
  assumes "i \<in> set (presence_intervals ws raw)"
  shows "\<exists>w \<in> set ws. day_iv (inst (w_start w)) (inst (w_end w)) i"
proof -
  obtain m a s e w where "i \<in> set (clip_to_window a m s e w)" "w \<in> set ws"
      "displayAppName a = a" "isVisibleAppUsageName a"
    using assms by (auto simp: presence_intervals_def Let_def split: option.splits if_splits)
  then show ?thesis using clip_inside by blast
qed

lemma presence_intervals_cover:
  assumes "counts_at raw x" "w \<in> set ws" "in_window w x"
  shows "covered (presence_intervals ws raw) x"
proof -
  obtain m where m: "raw = Obj m" using assms(1) by (auto simp: counts_at_def)
  have a: "after (activitySessionEnd raw) (activitySessionStart raw)"
    using assms(1) by (auto simp: counts_at_def entry_covers_def after_def)
  have "covered (clip_to_window (displayAppName (str_of (get m ''app_name''))) m
      (activitySessionStart raw) (activitySessionEnd raw) w) x"
    using assms by (simp add: clip_covers counts_at_def entry_covers_def)
  then show ?thesis using assms(1,2) a
    by (auto simp: presence_intervals_def m counts_at_def entry_app_def covered_def)
qed

lemma settle_window:
  assumes "\<And>i. i \<in> set is \<Longrightarrow> \<exists>w \<in> set ws. day_iv (inst (w_start w)) (inst (w_end w)) i"
    and k: "k \<in> set (settle is)" and g: "good_iv k"
  shows "(\<exists>w \<in> set ws. in_window w (inst (iv_start k))) \<and> (\<exists>w \<in> set ws. in_window w (inst (iv_end k) - 1))"
proof -
  obtain i where i: "i \<in> set is" "inst (iv_start i) \<le> inst (iv_start k)" "inst (iv_end k) = inst (iv_end i)"
    using settle_origin [OF k] by blast
  obtain w where "w \<in> set ws" "day_iv (inst (w_start w)) (inst (w_end w)) i" using assms(1) [OF i(1)] by blast
  then have "w \<in> set ws \<and> in_window w (inst (iv_start k)) \<and> in_window w (inst (iv_end k) - 1)"
    using i good_ivD(9) [OF g] by (simp add: day_iv_def in_window_def)
  then show ?thesis by blast
qed

text \<open>The sessions of a day clipped to its online windows are disjoint and ordered spans of
  visible applications, each begins and ends inside an online window, and every instant at which
  the device was online and a reported session ran is in one of them.\<close>

theorem clipped_sessions:
  assumes "\<forall>w \<in> set ws. zero_inst < inst (w_start w) \<and> inst (w_end w) < year10000_inst"
  shows "sorted_wrt (\<lambda>a b. inst (activitySessionEnd a) \<le> inst (activitySessionStart b))
        (clippedActivitySessionsForPresence sessions ws)
    \<and> (\<forall>e \<in> set (clippedActivitySessionsForPresence sessions ws). isVisibleAppUsageName (entry_app e)
        \<and> 0 < entry_length e
        \<and> (\<exists>w \<in> set ws. in_window w (inst (activitySessionStart e)))
        \<and> (\<exists>w \<in> set ws. in_window w (inst (activitySessionEnd e) - 1)))
    \<and> (\<forall>raw \<in> set sessions. \<forall>x. counts_at raw x \<and> (\<exists>w \<in> set ws. in_window w x)
        \<longrightarrow> (\<exists>e \<in> set (clippedActivitySessionsForPresence sessions ws). entry_covers e x))"
proof (cases "sessions = [] \<or> ws = []")
  case True
  then show ?thesis by (auto simp: clippedActivitySessionsForPresence_def)
next
  case False
  let ?is = "concat (map (presence_intervals ws) sessions)"
  define lo where "lo = Min ((\<lambda>w. inst (w_start w)) ` set ws)"
  define hi where "hi = Max ((\<lambda>w. inst (w_end w)) ` set ws)"
  have lohi: "zero_inst < lo" "hi < year10000_inst" using False assms by (simp_all add: lo_def hi_def)
  have win: "\<exists>w \<in> set ws. day_iv (inst (w_start w)) (inst (w_end w)) i" if "i \<in> set ?is" for i
    using that presence_intervals_in by fastforce
  have lw: "lo \<le> inst (w_start w) \<and> inst (w_end w) \<le> hi" if "w \<in> set ws" for w
    using that by (simp add: lo_def hi_def)
  have d: "\<forall>i \<in> set ?is. day_iv lo hi i"
    using win lw by (fastforce simp: day_iv_def)
  let ?m = "merge_iv activitySessionMergeGap (settle ?is)"
  have out: "clippedActivitySessionsForPresence sessions ws = map interval_entry ?m"
    using False merge_settled [OF d lohi] by (simp add: clippedActivitySessionsForPresence_def Let_def)
  have g: "\<forall>i \<in> set (settle ?is). good_iv i" and c: "chain (settle ?is)"
    using settle_laws [OF d lohi] by blast+
  have gm: "\<forall>i \<in> set ?m. good_iv i" by (rule merge_iv_good [OF g])
  have inw: "(\<exists>w \<in> set ws. in_window w (inst (iv_start k))) \<and> (\<exists>w \<in> set ws. in_window w (inst (iv_end k) - 1))"
    if "k \<in> set (settle ?is)" for k using settle_window [OF win that] g that by blast
  have dis: "sorted_wrt (\<lambda>a b. inst (activitySessionEnd a) \<le> inst (activitySessionStart b)) (map interval_entry ?m)"
    by (rule chain_entries [OF gm merge_iv_chain [OF c]])
  have entry: "isVisibleAppUsageName (iv_app k) \<and> inst (iv_start k) < inst (iv_end k)
      \<and> (\<exists>w \<in> set ws. in_window w (inst (iv_start k))) \<and> (\<exists>w \<in> set ws. in_window w (inst (iv_end k) - 1))"
    if k: "k \<in> set ?m" for k
    using merge_iv_bounds [OF k] inw good_ivD(2,9) [OF bspec [OF gm k]] by fastforce
  have cov: "\<exists>k \<in> set ?m. inst (iv_start k) \<le> x \<and> x < inst (iv_end k)"
    if "raw \<in> set sessions" "counts_at raw x" "w \<in> set ws" "in_window w x" for raw x w
  proof -
    have "covered ?is x" using presence_intervals_cover [OF that(2-4)] that(1) by (auto simp: covered_def)
    then have "covered (settle ?is) x" using settle_laws(3) [OF d lohi] by simp
    then have "covered ?m x" by (rule merge_iv_covers [OF _ c]) (use g in blast)
    then show ?thesis by (simp add: covered_def)
  qed
  show ?thesis unfolding out using dis entry cov gm by (simp (no_asm_simp)) blast
qed


theorem clipped_sessions_witness:
  "\<exists>e \<in> set (clippedActivitySessionsForPresence sample_sessions
        [\<lparr>w_start = sample_day, w_end = add sample_day (2 * minute_ns)\<rparr>]). entry_covers e (inst sample_day + minute_ns)"
proof -
  let ?w = "\<lparr>w_start = sample_day, w_end = add sample_day (2 * minute_ns)\<rparr>"
  have w: "\<forall>w \<in> set [?w]. zero_inst < inst (w_start w) \<and> inst (w_end w) < year10000_inst"
    by (simp add: sample_day_def zero_inst_def year10000_inst_def ns_units)
  have "counts_at (sample_sessions ! 0) (inst sample_day + minute_ns)" by code_simp
  moreover have "sample_sessions ! 0 \<in> set sample_sessions" by (simp add: sample_sessions_def)
  moreover have "in_window ?w (inst sample_day + minute_ns)" by (simp add: in_window_def ns_units)
  ultimately show ?thesis using clipped_sessions [OF w, of sample_sessions] by auto
qed

subsection \<open>Totals per application\<close>

text \<open>The durations an application's entries contribute, and its name as first seen.\<close>

definition counted :: "val \<Rightarrow> (string \<times> float64) option" where
  "counted raw = (case as_obj raw of None \<Rightarrow> None
     | Some m \<Rightarrow> (case toFloat (get m ''duration_seconds'') of None \<Rightarrow> None
        | Some d \<Rightarrow> if isVisibleAppUsageName (entry_app raw) \<and> 0 < d
                   then Some (displayAppName (entry_app raw), d) else None))"

definition contributions :: "val list \<Rightarrow> (string \<times> float64) list" where
  "contributions sessions = concat (map (\<lambda>r. case counted r of None \<Rightarrow> [] | Some c \<Rightarrow> [c]) sessions)"

definition of_app :: "string \<Rightarrow> (string \<times> float64) list \<Rightarrow> (string \<times> float64) list" where
  "of_app k = filter (\<lambda>c. appKey (fst c) = k)"

definition app_total :: "(string \<times> float64) list \<Rightarrow> (string \<times> float64 \<times> int)" where
  "app_total cs = (fst (hd cs), foldl fadd 0 (map snd cs), i64 (int (length cs)))"

lemma summarize_step_counted:
  "summarize_step acc raw = (case counted raw of None \<Rightarrow> acc
     | Some (n, d) \<Rightarrow> (total_add (fst acc) n d, fadd (snd acc) d))"
  unfolding summarize_step_def Let_def counted_def entry_app_def
  by (cases "as_obj raw"; simp split: option.split)

lemma i64_add: "i64 (i64 a + 1) = i64 (a + 1)"
  by (simp add: i64_def mod_simps algebra_simps)

lemma i64_1: "i64 1 = 1"
  by (simp add: i64_def)

definition totals_of :: "(string \<times> float64) list \<Rightarrow> app_totals \<Rightarrow> bool" where
  "totals_of cs t \<longleftrightarrow> distinct (map fst t)
     \<and> (\<forall>k. map_of t k = (if of_app k cs = [] then None else Some (app_total (of_app k cs))))"

lemma totals_of_add:
  assumes "totals_of cs t"
  shows "totals_of (cs @ [(n, d)]) (total_add t n d)"
proof -
  have "hd (of_app (appKey n) cs @ [(n, d)]) = (if of_app (appKey n) cs = [] then (n, d) else hd (of_app (appKey n) cs))"
    by simp
  then show ?thesis using assms
    by (auto simp: totals_of_def total_add_def of_app_def app_total_def i64_add Let_def i64_1
        add.commute [of 1 "int _"] split: option.split)
qed

lemma summarize_fold:
  assumes "totals_of cs t"
  shows "totals_of (cs @ contributions ss) (fst (foldl summarize_step (t, x) ss))
    \<and> snd (foldl summarize_step (t, x) ss) = foldl fadd x (map snd (contributions ss))"
  using assms
proof (induction ss arbitrary: cs t x)
  case Nil
  then show ?case by (simp add: contributions_def)
next
  case (Cons r ss)
  show ?case
  proof (cases "counted r")
    case None
    then show ?thesis using Cons by (simp add: contributions_def summarize_step_counted)
  next
    case (Some nd)
    obtain n d where nd: "nd = (n, d)" by (cases nd)
    show ?thesis using Cons.IH [OF totals_of_add [OF Cons.prems, of n d], of "fadd x d"] Some nd
      by (simp add: contributions_def summarize_step_counted)
  qed
qed

text \<open>A summary has one row per application that contributed, whatever spellings its entries
  use: the row carries the sum of that application's durations and their number, rows come by
  falling time, and the grand total is the sum of all contributions. The order in which Go's map
  hands the rows to the sort does not matter for any of this.\<close>

theorem summary_totals:
  assumes "\<And>xs. mset (perm xs) = mset xs"
  shows "mset (fst (summarizeActivitySessions perm sessions)) =
      image_mset (\<lambda>k. app_row (k, app_total (of_app k (contributions sessions))))
        (mset_set ((\<lambda>c. appKey (fst c)) ` set (contributions sessions)))
    \<and> sorted_wrt (\<lambda>a b. row_seconds b \<le> row_seconds a) (fst (summarizeActivitySessions perm sessions))
    \<and> snd (summarizeActivitySessions perm sessions) = foldl fadd 0 (map snd (contributions sessions))"
proof -
  let ?cs = "contributions sessions" and ?r = "foldl summarize_step ([], 0) sessions"
  have f: "totals_of ?cs (fst ?r)" "snd ?r = foldl fadd 0 (map snd ?cs)"
    using summarize_fold [of "[]" "[]" sessions 0] by (simp_all add: totals_of_def of_app_def)
  have rows: "fst (summarizeActivitySessions perm sessions) = sort_key (\<lambda>r. - row_seconds r) (perm (map app_row (fst ?r)))"
    and total: "snd (summarizeActivitySessions perm sessions) = snd ?r"
    by (simp_all add: summarizeActivitySessions_def split: prod.split)
  have dist: "distinct (map fst (fst ?r))" using f(1) by (simp add: totals_of_def)
  have keys: "set (map fst (fst ?r)) = (\<lambda>c. appKey (fst c)) ` set ?cs"
  proof -
    have "k \<in> set (map fst (fst ?r)) \<longleftrightarrow> of_app k ?cs \<noteq> []" for k
      using f(1) map_of_eq_None_iff [of "fst ?r" k] by (simp add: totals_of_def split: if_splits)
    moreover have "of_app k ?cs \<noteq> [] \<longleftrightarrow> k \<in> (\<lambda>c. appKey (fst c)) ` set ?cs" for k
      by (auto simp: of_app_def filter_empty_conv)
    ultimately show ?thesis by blast
  qed
  have ent: "map (\<lambda>k. (k, app_total (of_app k ?cs))) (map fst (fst ?r)) = fst ?r"
  proof -
    have "app_total (of_app (fst e) ?cs) = snd e" if "e \<in> set (fst ?r)" for e
      using f(1) map_of_is_SomeI [OF dist, of "fst e" "snd e"] that by (simp add: totals_of_def split: if_splits)
    then show ?thesis by (simp add: map_idI)
  qed
  have "mset (map app_row (fst ?r)) = image_mset (\<lambda>k. app_row (k, app_total (of_app k ?cs))) (mset (map fst (fst ?r)))"
    by (subst ent [symmetric]) (simp add: image_mset.compositionality comp_def)
  also have "mset (map fst (fst ?r)) = mset_set (set (map fst (fst ?r)))"
    using dist by (simp only: mset_set_set)
  finally have m: "mset (fst (summarizeActivitySessions perm sessions)) =
      image_mset (\<lambda>k. app_row (k, app_total (of_app k ?cs))) (mset_set ((\<lambda>c. appKey (fst c)) ` set ?cs))"
    unfolding rows keys by (simp only: mset_sort assms)
  have "sorted (map (\<lambda>r. - row_seconds r) (fst (summarizeActivitySessions perm sessions)))"
    unfolding rows by simp
  then have s: "sorted_wrt (\<lambda>a b. row_seconds b \<le> row_seconds a) (fst (summarizeActivitySessions perm sessions))"
    by (simp add: sorted_map)
  show ?thesis using m s total f(2) by simp
qed

theorem summary_totals_witness:
  "snd (summarizeActivitySessions (\<lambda>xs. xs)
     [Obj [(''app_name'', Str ''google-chrome''), (''duration_seconds'', F64 60)],
      Obj [(''app_name'', Str ''Chrome''), (''duration_seconds'', Int_v 30)]]) = 90"
    (is "snd (summarizeActivitySessions _ ?s) = 90")
proof -
  have "snd (summarizeActivitySessions (\<lambda>xs. xs) ?s) = foldl fadd 0 (map snd (contributions ?s))"
    using summary_totals [of "\<lambda>xs. xs" ?s] by simp
  also have "foldl fadd 0 (map snd (contributions ?s)) = 90" by code_simp
  finally show ?thesis .
qed

end
