(* ===== verification/DailyUsage.thy ===== *)
theory DailyUsage
  imports Sessions
begin

text \<open>
  The rows of daily application usage and what the API does to them before it shows them
  (\<^verbatim>\<open>api/main.go\<close>): filtering background applications and recomputing each row's totals,
  scaling rows down to the time the device was online, recomputing rows from the archived
  sessions, and the small readers of the weekly report. A row is a \<^verbatim>\<open>bson.M\<close>.
\<close>

named_theorems usage \<open>facts on rows of daily usage\<close>

subsection \<open>Filtering\<close>

definition top_app_step :: "val list \<times> float64 \<times> int \<Rightarrow> val \<Rightarrow> val list \<times> float64 \<times> int" where
  "top_app_step acc item =
     (case acc of (out, totalS, sessionCount) \<Rightarrow>
        if \<not> isVisibleAppUsageSummary item then acc
        else (case mapValue item of
            None \<Rightarrow> (out @ [item], totalS, sessionCount)
          | Some m \<Rightarrow> (out @ [item], fadd totalS (float_of (get m ''total_seconds'')),
                       i64 (sessionCount + f2i (float_of (get m ''session_count''))))))"

definition filterDailyTopApps :: "val \<Rightarrow> val list \<times> float64 \<times> int" where
  "filterDailyTopApps raw =
     (case interfaceSlice raw of None \<Rightarrow> ([], 0, 0)
      | Some items \<Rightarrow> foldl top_app_step ([], 0, 0) items)"

definition set_totals :: "obj \<Rightarrow> val list \<Rightarrow> float64 \<Rightarrow> int \<Rightarrow> obj" where
  "set_totals row apps totalS sessionCount =
     al_upd ''session_count'' (Int_v sessionCount)
       (al_upd ''total_seconds'' (F64 totalS) (al_upd ''top_apps'' (Arr apps) row))"

definition filterDailyAppUsageRows :: "obj list \<Rightarrow> obj list" where
  "filterDailyAppUsageRows rows =
     concat (map (\<lambda>row. case filterDailyTopApps (get row ''top_apps'') of (topApps, totalS, sessionCount) \<Rightarrow>
        if topApps = [] then [] else [set_totals row topApps totalS sessionCount]) rows)"

definition appUsageSummaryValues :: "val \<Rightarrow> string \<times> float64 \<times> int" where
  "appUsageSummaryValues raw =
     (case mapValue raw of None \<Rightarrow> ([], 0, 0)
      | Some m \<Rightarrow> (displayAppName (str_of (get m ''app_name'')),
          float_of (firstNonNil [get m ''total_seconds'', get m ''total_focus_seconds'']),
          f2i (float_of (get m ''session_count''))))"

definition weeklyActivityApps :: "obj \<Rightarrow> val list \<times> float64 \<times> int" where
  "weeklyActivityApps row = filterDailyTopApps (get row ''top_apps'')"

subsection \<open>Capping to the online time\<close>

definition cap_app :: "float64 \<Rightarrow> val \<Rightarrow> (string \<times> float64 \<times> int) option" where
  "cap_app scale raw =
     (case appUsageSummaryValues raw of (appName, secs, sessions) \<Rightarrow>
        if \<not> isVisibleAppUsageName appName \<or> secs \<le> 0 then None
        else let cappedSeconds = fmul secs scale
             in if cappedSeconds \<le> 0 then None
                else let cappedSessions =
                       (if sessions > 0
                        then (let c = f2i (of_int (ceiling (fmul (i2f sessions) scale))) in if c < 1 then 1 else c)
                        else 0)
                     in Some (appName, cappedSeconds, cappedSessions))"

definition capped_entry :: "string \<times> float64 \<times> int \<Rightarrow> val" where
  "capped_entry e = (case e of (appName, cappedSeconds, cappedSessions) \<Rightarrow>
     Obj [(''app_name'', Str appName), (''total_seconds'', F64 cappedSeconds),
          (''session_count'', Int_v cappedSessions)])"

definition cap_apps :: "float64 \<Rightarrow> val list \<Rightarrow> (string \<times> float64 \<times> int) list" where
  "cap_apps scale apps = List.map_filter (cap_app scale) apps"

definition cap_row :: "float64 \<Rightarrow> obj \<Rightarrow> obj option" where
  "cap_row scale row =
     (let apps = (case interfaceSlice (get row ''top_apps'') of Some xs \<Rightarrow> xs | None \<Rightarrow> []);
          capped = cap_apps scale apps
      in if capped = [] then None
         else Some (set_totals row (map capped_entry capped)
                (foldl (\<lambda>t e. fadd t (fst (snd e))) 0 capped)
                (foldl (\<lambda>n e. i64 (n + snd (snd e))) 0 capped)))"

definition rows_total :: "obj list \<Rightarrow> float64" where
  "rows_total rows = foldl (\<lambda>t row. fadd t (float_of (get row ''total_seconds''))) 0 rows"

definition capDailyAppUsageRowsToOnlineSeconds :: "obj list \<Rightarrow> float64 \<Rightarrow> obj list" where
  "capDailyAppUsageRowsToOnlineSeconds rows maxTotalS =
     (if rows = [] then rows
      else if maxTotalS \<le> 0 then []
      else let currentTotal = rows_total rows
           in if currentTotal \<le> maxTotalS \<or> currentTotal \<le> 0 then rows
              else List.map_filter (cap_row (fdiv maxTotalS currentTotal)) rows)"

subsection \<open>Recomputing from the archive\<close>

definition archiveKeyFromDailyUsageRow :: "obj \<Rightarrow> string" where
  "archiveKeyFromDailyUsageRow row =
     (let key = trim_space (str_of (get row ''archive_key''))
      in if key \<noteq> [] then key
         else (case mapValue (get row ''archive'') of
                 Some archive \<Rightarrow> trim_space (str_of (get archive ''key''))
               | None \<Rightarrow> []))"

text \<open>
  \<open>read\<close> is what the object store answers for a key: \<open>None\<close> for an error, \<open>Some None\<close> for a
  missing object, and the decoded document otherwise. \<open>store\<close> tells whether the archive is
  configured; \<open>perm\<close> is the iteration order of the summary's map.
\<close>

definition recompute_row ::
  "(string \<Rightarrow> obj option option) \<Rightarrow> (val list \<Rightarrow> val list) \<Rightarrow> window list \<Rightarrow> obj \<Rightarrow> obj list" where
  "recompute_row read perm windows row =
     (let key = archiveKeyFromDailyUsageRow row
      in if key = [] then [row]
         else (case read key of None \<Rightarrow> [row]
               | Some None \<Rightarrow> [row]
               | Some (Some doc) \<Rightarrow>
                   (case as_arr (get doc ''sessions'') of None \<Rightarrow> [row]
                    | Some rawSessions \<Rightarrow>
                        let sessions = clippedActivitySessionsForPresence rawSessions windows
                        in (case summarizeActivitySessions perm sessions of (apps, totalS) \<Rightarrow>
                              if apps = [] then []
                              else [set_totals row apps totalS (int (length sessions))]))))"

definition recomputeDailyAppUsageRowsFromArchives ::
  "bool \<Rightarrow> (string \<Rightarrow> obj option option) \<Rightarrow> (val list \<Rightarrow> val list) \<Rightarrow> obj list \<Rightarrow> window list \<Rightarrow> obj list" where
  "recomputeDailyAppUsageRowsFromArchives store read perm rows windows =
     (if \<not> store \<or> rows = [] \<or> windows = [] then rows
      else concat (map (recompute_row read perm windows) rows))"

text \<open>The heartbeat times of a day, from the timestamps the store returned.\<close>

definition presence_point :: "string \<Rightarrow> gotime list \<times> int set \<Rightarrow> obj \<Rightarrow> gotime list \<times> int set" where
  "presence_point date acc row =
     (case bsonTime (get row ''timestamp'') of None \<Rightarrow> acc
      | Some t \<Rightarrow>
          if date_str t \<noteq> date \<or> i64 (inst t) \<in> snd acc then acc
          else (fst acc @ [utc t], insert (i64 (inst t)) (snd acc)))"

definition dailyPresencePoints :: "string \<Rightarrow> obj list \<Rightarrow> gotime list" where
  "dailyPresencePoints date rows = sort_key inst (fst (foldl (presence_point date) ([], {}) rows))"

subsection \<open>Readers of the reports\<close>

fun first_trimmed :: "obj \<Rightarrow> string list \<Rightarrow> string option" where
  "first_trimmed m [] = None"
| "first_trimmed m (k # ks) =
     (let v = trim_space (str_of (get m k)) in if v \<noteq> [] then Some v else first_trimmed m ks)"

definition reportDeviceName :: "obj \<Rightarrow> string" where
  "reportDeviceName device =
     (case first_trimmed device [''display_name'', ''hostname'', ''device_id''] of
        Some v \<Rightarrow> v
      | None \<Rightarrow>
          (case Option.bind (as_bobj (get device ''data'')) (\<lambda>data. as_bobj (get data ''SystemInfo'')) of
             Some sys \<Rightarrow> (let h = trim_space (str_of (get sys ''hostname''))
                          in if h \<noteq> [] then h else ''Unknown device'')
           | None \<Rightarrow> ''Unknown device''))"

definition isSystemDiskMount :: "string \<Rightarrow> bool" where
  "isSystemDiskMount mount =
     (mount \<noteq> [] \<and> list_ex (\<lambda>p. mount = p \<or> take (length p + 1) mount = p @ ''/'')
        [''/proc'', ''/sys'', ''/dev'', ''/run'', ''/snap''])"

fun primary_disk :: "val list \<Rightarrow> float64 \<Rightarrow> float64" where
  "primary_disk [] firstVisible = firstVisible"
| "primary_disk (d # ds) firstVisible =
     (case mapValue d of None \<Rightarrow> primary_disk ds firstVisible
      | Some disk \<Rightarrow>
          let mount = str_of (get disk ''mount''); used = float_of (get disk ''used_percent'')
          in if mount = ''/'' then used
             else primary_disk ds (if firstVisible = 0 \<and> \<not> isSystemDiskMount mount then used else firstVisible))"

definition reportPrimaryDiskPercent :: "val \<Rightarrow> float64" where
  "reportPrimaryDiskPercent raw =
     (case interfaceSlice raw of None \<Rightarrow> 0 | Some disks \<Rightarrow> primary_disk disks 0)"

definition maxFloat :: "float64 list \<Rightarrow> float64" where
  "maxFloat values = foldl (\<lambda>m v. if v > m then v else m) 0 values"

definition activityUsername :: "obj \<Rightarrow> string" where
  "activityUsername payload =
     (let u = trim_space (str_of (get payload ''username'')) in if u \<noteq> [] then u else ''unknown'')"

definition appendInterfaceSlice :: "val \<Rightarrow> val list \<Rightarrow> val list" where
  "appendInterfaceSlice existing next =
     (case as_arr existing of Some items \<Rightarrow> items | None \<Rightarrow> []) @ next"

subsection \<open>Laws\<close>

lemma al_upd_same: "map_of m k = Some v \<Longrightarrow> al_upd k v m = m"
  by (induction k v m rule: al_upd.induct) (auto split: if_splits)

lemma set_totals_get [simp, usage]:
  "get (set_totals row apps t n) ''top_apps'' = Arr apps"
  "get (set_totals row apps t n) ''total_seconds'' = F64 t"
  "get (set_totals row apps t n) ''session_count'' = Int_v n"
  by (simp_all add: set_totals_def)

lemma set_totals_idem: "set_totals (set_totals row apps t n) apps t n = set_totals row apps t n"
proof -
  have "map_of (set_totals row apps t n) ''top_apps'' = Some (Arr apps)"
    "map_of (set_totals row apps t n) ''total_seconds'' = Some (F64 t)"
    "map_of (set_totals row apps t n) ''session_count'' = Some (Int_v n)"
    by (simp_all add: set_totals_def)
  then show ?thesis by (simp add: set_totals_def [of "set_totals row apps t n"] al_upd_same)
qed

lemma top_apps_invisible: "foldl top_app_step acc (filter isVisibleAppUsageSummary xs) = foldl top_app_step acc xs"
proof (induction xs arbitrary: acc)
  case (Cons x xs)
  show ?case
  proof (cases "isVisibleAppUsageSummary x")
    case False
    then have "top_app_step acc x = acc" by (simp add: top_app_step_def split: prod.split)
    then show ?thesis using Cons False by simp
  qed (simp add: Cons)
qed simp

lemma top_apps_fst: "fst (foldl top_app_step acc xs) = fst acc @ filter isVisibleAppUsageSummary xs"
  by (induction xs arbitrary: acc) (auto simp: top_app_step_def split: option.split prod.split)

lemma filterDailyTopApps_again:
  "filterDailyTopApps raw = (apps, t, n) \<Longrightarrow> filterDailyTopApps (Arr apps) = (apps, t, n)"
proof (cases "interfaceSlice raw")
  case (Some items)
  assume a: "filterDailyTopApps raw = (apps, t, n)"
  then have f: "foldl top_app_step ([], 0, 0) items = (apps, t, n)" by (simp add: filterDailyTopApps_def Some)
  then have "apps = filter isVisibleAppUsageSummary items" using top_apps_fst [of "([], 0, 0)" items] by simp
  then show ?thesis using f top_apps_invisible by (simp add: filterDailyTopApps_def)
qed (simp add: filterDailyTopApps_def)

lemma filterDailyTopApps_visible:
  "a \<in> set (fst (filterDailyTopApps raw)) \<Longrightarrow> isVisibleAppUsageSummary a"
  by (auto simp: filterDailyTopApps_def top_apps_fst split: option.splits)

text \<open>Filtering shows only rows with at least one visible application and only visible
  applications in them, makes each row's totals those of the applications it keeps, and a second
  pass changes nothing.\<close>

theorem filtered_rows:
  "(\<forall>row \<in> set (filterDailyAppUsageRows rows). \<exists>apps. get row ''top_apps'' = Arr apps \<and> apps \<noteq> []
      \<and> (\<forall>a \<in> set apps. isVisibleAppUsageSummary a)
      \<and> filterDailyTopApps (get row ''top_apps'')
        = (apps, float_of (get row ''total_seconds''), (case get row ''session_count'' of Int_v n \<Rightarrow> n)))
    \<and> filterDailyAppUsageRows (filterDailyAppUsageRows rows) = filterDailyAppUsageRows rows"
proof (induction rows)
  case Nil
  then show ?case by (simp add: filterDailyAppUsageRows_def)
next
  case (Cons row rows)
  obtain apps t n where f: "filterDailyTopApps (get row ''top_apps'') = (apps, t, n)"
    by (metis prod_cases3)
  have c: "filterDailyAppUsageRows (row # rs)
      = (if apps = [] then [] else [set_totals row apps t n]) @ filterDailyAppUsageRows rs" for rs
    by (simp add: filterDailyAppUsageRows_def f)
  show ?case
  proof (cases "apps = []")
    case False
    have v: "\<forall>a \<in> set apps. isVisibleAppUsageSummary a"
      using filterDailyTopApps_visible [of _ "get row ''top_apps''"] f by simp
    have again: "filterDailyAppUsageRows (set_totals row apps t n # rs)
        = set_totals row apps t n # filterDailyAppUsageRows rs" for rs
      using False by (simp add: filterDailyAppUsageRows_def filterDailyTopApps_again [OF f] set_totals_idem)
    show ?thesis using Cons False v c again filterDailyTopApps_again [OF f] by simp
  qed (use Cons c in simp)
qed

theorem filtered_rows_witness:
  "\<exists>apps. get (hd (filterDailyAppUsageRows [[(''top_apps'', Arr [Obj [(''app_name'', Str ''Slack''), (''total_seconds'', F64 60)]])]]))
      ''top_apps'' = Arr apps \<and> apps \<noteq> []"
proof -
  let ?rows = "[[(''top_apps'', Arr [Obj [(''app_name'', Str ''Slack''), (''total_seconds'', F64 60)]])]]"
  have "filterDailyAppUsageRows ?rows \<noteq> []" by code_simp
  then have "hd (filterDailyAppUsageRows ?rows) \<in> set (filterDailyAppUsageRows ?rows)" by simp
  then show ?thesis using filtered_rows [of ?rows] by blast
qed

lemma cap_app_bound:
  assumes "cap_app scale raw = Some (a, s, n)" "0 \<le> scale" "scale \<le> 1"
    "\<And>x. toFloat (firstNonNil [get m ''total_seconds'', get m ''total_focus_seconds'']) = Some x \<Longrightarrow> fl x = x"
    "mapValue raw = Some m"
  shows "isVisibleAppUsageName a" "0 < s" "s \<le> fst (snd (appUsageSummaryValues raw))" "0 \<le> n"
proof -
  let ?x = "fst (snd (appUsageSummaryValues raw))"
  have x: "fl ?x = ?x" using assms(4,5)
    by (auto simp: appUsageSummaryValues_def float_of_def split: option.split)
  have c: "isVisibleAppUsageName a" "0 < ?x" "s = fmul ?x scale" "0 < s" "0 \<le> n"
    using assms(1) by (auto simp: cap_app_def Let_def split: prod.splits if_splits)
  then show "isVisibleAppUsageName a" "0 < s" "s \<le> ?x" "0 \<le> n" using fmul_le [of ?x scale] x assms(2,3) by auto
qed

text \<open>A value whose seconds are a number of the 64-bit format, as every decoded number is.\<close>

definition float_seconds :: "val \<Rightarrow> bool" where
  "float_seconds raw = (let x = fst (snd (appUsageSummaryValues raw)) in fl x = x)"

definition row_apps :: "obj \<Rightarrow> val list" where
  "row_apps row = (case interfaceSlice (get row ''top_apps'') of Some xs \<Rightarrow> xs | None \<Rightarrow> [])"

lemma cap_scale:
  assumes "0 < m" "m < t"
  shows "0 \<le> fdiv m t" "fdiv m t \<le> 1"
  using fdiv_le_1 [of m t] assms by simp_all

lemma cap_row_apps:
  assumes "cap_row scale row = Some row'" "0 \<le> scale" "scale \<le> 1" "\<forall>a \<in> set (row_apps row). float_seconds a"
  shows "\<forall>e \<in> set (row_apps row'). \<exists>a \<in> set (row_apps row).
     fst (appUsageSummaryValues e) = fst (appUsageSummaryValues a)
     \<and> isVisibleAppUsageName (fst (appUsageSummaryValues e))
     \<and> 0 < fst (snd (appUsageSummaryValues e))
     \<and> fst (snd (appUsageSummaryValues e)) \<le> fst (snd (appUsageSummaryValues a))"
proof
  fix e assume e: "e \<in> set (row_apps row')"
  have "row_apps row' = map capped_entry (cap_apps scale (row_apps row))"
    using assms(1) by (auto simp: cap_row_def Let_def row_apps_def split: if_splits)
  then obtain a n s k where a: "a \<in> set (row_apps row)" "cap_app scale a = Some (n, s, k)" "e = capped_entry (n, s, k)"
    using e by (auto simp: cap_apps_def List.map_filter_def)
  have n: "n = fst (appUsageSummaryValues a)" and s: "s = fmul (fst (snd (appUsageSummaryValues a))) scale"
    and pos: "0 < fst (snd (appUsageSummaryValues a))" "0 < s" and vis: "isVisibleAppUsageName n"
    using a(2) by (auto simp: cap_app_def Let_def split: prod.splits if_splits)
  have "displayAppName n = n" unfolding n by (simp add: appUsageSummaryValues_def split: option.split)
    (simp add: displayAppName_def appAliases_def)
  then have "appUsageSummaryValues e = (n, s, f2i (i2f k))"
    by (simp add: a(3) capped_entry_def appUsageSummaryValues_def firstNonNil_def float_of_def)
  moreover have "s \<le> fst (snd (appUsageSummaryValues a))"
    unfolding s using fmul_le [of "fst (snd (appUsageSummaryValues a))" scale] pos(1) assms(2-4) a(1)
    by (simp add: float_seconds_def Let_def)
  ultimately show "\<exists>a \<in> set (row_apps row). fst (appUsageSummaryValues e) = fst (appUsageSummaryValues a)
     \<and> isVisibleAppUsageName (fst (appUsageSummaryValues e))
     \<and> 0 < fst (snd (appUsageSummaryValues e))
     \<and> fst (snd (appUsageSummaryValues e)) \<le> fst (snd (appUsageSummaryValues a))"
    using a(1) n vis pos(2) by auto
qed

text \<open>Capping to the online time: nothing is shown for a device that was never online, rows that
  fit are left as they are, and otherwise no application of a row gains time, every entry shown is
  a visible application of the same row with positive time, and no row is invented.\<close>

theorem capped_rows:
  assumes "\<forall>row \<in> set rows. \<forall>a \<in> set (row_apps row). float_seconds a"
  shows "(rows \<noteq> [] \<and> online \<le> 0 \<longrightarrow> capDailyAppUsageRowsToOnlineSeconds rows online = [])
    \<and> (0 < online \<and> rows_total rows \<le> online \<longrightarrow> capDailyAppUsageRowsToOnlineSeconds rows online = rows)
    \<and> (0 < online \<and> online < rows_total rows \<longrightarrow>
        (\<forall>row' \<in> set (capDailyAppUsageRowsToOnlineSeconds rows online). \<exists>row \<in> set rows.
           \<forall>e \<in> set (row_apps row'). \<exists>a \<in> set (row_apps row).
             fst (appUsageSummaryValues e) = fst (appUsageSummaryValues a)
             \<and> isVisibleAppUsageName (fst (appUsageSummaryValues e))
             \<and> 0 < fst (snd (appUsageSummaryValues e))
             \<and> fst (snd (appUsageSummaryValues e)) \<le> fst (snd (appUsageSummaryValues a))))"
proof -
  have rows: "\<exists>row \<in> set rows. \<forall>e \<in> set (row_apps row'). \<exists>a \<in> set (row_apps row).
             fst (appUsageSummaryValues e) = fst (appUsageSummaryValues a)
             \<and> isVisibleAppUsageName (fst (appUsageSummaryValues e))
             \<and> 0 < fst (snd (appUsageSummaryValues e))
             \<and> fst (snd (appUsageSummaryValues e)) \<le> fst (snd (appUsageSummaryValues a))"
    if on: "0 < online" "online < rows_total rows" and row': "row' \<in> set (capDailyAppUsageRowsToOnlineSeconds rows online)" for row'
  proof -
    obtain row where r: "row \<in> set rows" "cap_row (fdiv online (rows_total rows)) row = Some row'"
      using on row' by (auto simp: capDailyAppUsageRowsToOnlineSeconds_def List.map_filter_def Let_def split: if_splits)
    show ?thesis using cap_row_apps [OF r(2) cap_scale [OF on]] assms r(1) by blast
  qed
  show ?thesis using rows by (simp add: capDailyAppUsageRowsToOnlineSeconds_def Let_def)
qed

theorem capped_rows_witness:
  "capDailyAppUsageRowsToOnlineSeconds
     [[(''total_seconds'', F64 100), (''top_apps'', Arr [Obj [(''app_name'', Str ''Slack''), (''total_seconds'', F64 100)]])]] 200
   = [[(''total_seconds'', F64 100), (''top_apps'', Arr [Obj [(''app_name'', Str ''Slack''), (''total_seconds'', F64 100)]])]]"
    (is "capDailyAppUsageRowsToOnlineSeconds ?rows 200 = ?rows")
proof -
  have "\<forall>row \<in> set ?rows. \<forall>a \<in> set (row_apps row). float_seconds a"
    by (simp add: row_apps_def float_seconds_def appUsageSummaryValues_def firstNonNil_def float_of_def
        fl_int_exact [of 100, simplified])
  note c = capped_rows [OF this, of 200]
  have "rows_total ?rows = 100" by code_simp
  then show ?thesis using c by simp
qed

end
