(* ===== verification/GoUrl.thy ===== *)
theory GoUrl
  imports Prelude
begin

text \<open>
  The part of \<^verbatim>\<open>net/url\<close> the API relies on: \<^verbatim>\<open>url.Parse\<close> up to the scheme, the host and the
  path of the result, with its errors (control characters, a missing scheme, a colon in the first path
  segment, bad user information, a bad port, a bad character or escape in the host, bad escapes
  in path and fragment). Characters are bytes. What stands between the brackets of an IPv6
  literal is checked as any host is; releases of Go that also parse the address reject more.
\<close>

record go_url =
  u_scheme :: string
  u_host :: string
  u_path :: string

definition code_of :: "char \<Rightarrow> nat" where "code_of c = of_char c"

definition is_alpha :: "char \<Rightarrow> bool" where
  "is_alpha c \<longleftrightarrow> (65 \<le> code_of c \<and> code_of c \<le> 90) \<or> (97 \<le> code_of c \<and> code_of c \<le> 122)"

definition is_num :: "char \<Rightarrow> bool" where
  "is_num c \<longleftrightarrow> 48 \<le> code_of c \<and> code_of c \<le> 57"

definition is_hex :: "char \<Rightarrow> bool" where
  "is_hex c \<longleftrightarrow> is_num c \<or> (65 \<le> code_of c \<and> code_of c \<le> 70) \<or> (97 \<le> code_of c \<and> code_of c \<le> 102)"

definition unhex :: "char \<Rightarrow> nat" where
  "unhex c = (if is_num c then code_of c - 48 else if code_of c \<le> 70 then code_of c - 55 else code_of c - 87)"

text \<open>The text up to the first \<open>c\<close>, and what follows it.\<close>

definition before_char :: "char \<Rightarrow> string \<Rightarrow> string" where
  "before_char c = takeWhile (\<lambda>x. x \<noteq> c)"

definition after_char :: "char \<Rightarrow> string \<Rightarrow> string" where
  "after_char c s = drop 1 (dropWhile (\<lambda>x. x \<noteq> c) s)"

text \<open>Splitting at the last \<open>c\<close>.\<close>

definition before_last :: "char \<Rightarrow> string \<Rightarrow> string" where
  "before_last c s = rev (drop 1 (dropWhile (\<lambda>x. x \<noteq> c) (rev s)))"

definition after_last :: "char \<Rightarrow> string \<Rightarrow> string" where
  "after_last c s = rev (takeWhile (\<lambda>x. x \<noteq> c) (rev s))"

text \<open>\<^verbatim>\<open>getScheme\<close>: \<open>None\<close> for a missing scheme.\<close>

fun scheme_scan :: "string \<Rightarrow> string \<Rightarrow> string \<Rightarrow> (string \<times> string) option" where
  "scheme_scan whole acc [] = Some ([], whole)"
| "scheme_scan whole acc (c # cs) =
     (if is_alpha c then scheme_scan whole (acc @ [c]) cs
      else if is_num c \<or> c \<in> {CHR ''+'', CHR ''-'', CHR ''.''}
      then (if acc = [] then Some ([], whole) else scheme_scan whole (acc @ [c]) cs)
      else if c = CHR '':'' then (if acc = [] then None else Some (acc, cs))
      else Some ([], whole))"

definition getScheme :: "string \<Rightarrow> (string \<times> string) option" where
  "getScheme s = scheme_scan s [] s"

fun escapes_ok :: "string \<Rightarrow> bool" where
  "escapes_ok [] = True"
| "escapes_ok (c # cs) =
     (if c = CHR ''%''
      then (case cs of a # b # rest \<Rightarrow> is_hex a \<and> is_hex b \<and> escapes_ok rest | _ \<Rightarrow> False)
      else escapes_ok cs)"

definition host_char_ok :: "char \<Rightarrow> bool" where
  "host_char_ok c \<longleftrightarrow> 128 \<le> code_of c \<or> is_alpha c \<or> is_num c
     \<or> c \<in> set ''-_.~!$&()*+,;=:[]<>'' \<or> c = CHR 0x27 \<or> c = CHR 0x22"

text \<open>\<^verbatim>\<open>unescape(host, encodeHost)\<close>: only \<^verbatim>\<open>%25\<close> and bytes that are not ASCII may be escaped.\<close>

fun unescape_host :: "string \<Rightarrow> string option" where
  "unescape_host [] = Some []"
| "unescape_host (c # cs) =
     (if c = CHR ''%''
      then (case cs of
              a # b # rest \<Rightarrow>
                if \<not> is_hex a \<or> \<not> is_hex b then None
                else if unhex a < 8 \<and> \<not> (a = CHR ''2'' \<and> b = CHR ''5'') then None
                else map_option (\<lambda>r. char_of (16 * unhex a + unhex b :: nat) # r) (unescape_host rest)
            | _ \<Rightarrow> None)
      else if host_char_ok c then map_option (\<lambda>r. c # r) (unescape_host cs)
      else None)"

definition validOptionalPort :: "string \<Rightarrow> bool" where
  "validOptionalPort port \<longleftrightarrow> port = [] \<or> (hd port = CHR '':'' \<and> list_all is_num (tl port))"

definition parseHost :: "string \<Rightarrow> string option" where
  "parseHost host =
     (if host \<noteq> [] \<and> hd host = CHR ''[''
      then (if CHR '']'' \<notin> set host then None
            else if \<not> validOptionalPort (after_last CHR '']'' host) then None
            else unescape_host host)
      else if CHR '':'' \<in> set host \<and> \<not> validOptionalPort (CHR '':'' # after_last CHR '':'' host) then None
      else unescape_host host)"

definition userinfo_ok :: "string \<Rightarrow> bool" where
  "userinfo_ok s \<longleftrightarrow>
     list_all (\<lambda>c. is_alpha c \<or> is_num c \<or> c \<in> set ''-._:~!$&()*+,;=%@'' \<or> c = CHR 0x27) s \<and> escapes_ok s"

definition parseAuthority :: "string \<Rightarrow> string option" where
  "parseAuthority authority =
     (if CHR ''@'' \<notin> set authority then parseHost authority
      else (case parseHost (after_last CHR ''@'' authority) of
              None \<Rightarrow> None
            | Some host \<Rightarrow> if userinfo_ok (before_last CHR ''@'' authority) then Some host else None))"

definition has_ctl :: "string \<Rightarrow> bool" where
  "has_ctl s \<longleftrightarrow> list_ex (\<lambda>c. code_of c < 32 \<or> code_of c = 127) s"

definition strip_query :: "string \<Rightarrow> string" where
  "strip_query rest = before_char CHR ''?'' rest"

fun unescape_path :: "string \<Rightarrow> string option" where
  "unescape_path [] = Some []"
| "unescape_path (c # cs) =
     (if c = CHR ''%''
      then (case cs of
              a # b # rest \<Rightarrow>
                if is_hex a \<and> is_hex b
                then map_option (\<lambda>r. char_of (16 * unhex a + unhex b :: nat) # r) (unescape_path rest)
                else None
            | _ \<Rightarrow> None)
      else map_option (\<lambda>r. c # r) (unescape_path cs))"

definition with_path :: "string \<Rightarrow> string \<Rightarrow> string \<Rightarrow> go_url option" where
  "with_path scheme host rest =
     map_option (\<lambda>path. \<lparr>u_scheme = scheme, u_host = host, u_path = path\<rparr>) (unescape_path rest)"

text \<open>\<^verbatim>\<open>parse(rawURL, false)\<close>.\<close>

definition parse_noFragment :: "string \<Rightarrow> go_url option" where
  "parse_noFragment raw =
     (if has_ctl raw then None
      else if raw = ''*'' then Some \<lparr>u_scheme = [], u_host = [], u_path = ''*''\<rparr>
      else (case getScheme raw of
              None \<Rightarrow> None
            | Some (scheme0, rest0) \<Rightarrow>
                let scheme = to_lower scheme0; rest = strip_query rest0
                in if take 1 rest \<noteq> ''/'' \<and> scheme \<noteq> [] then Some \<lparr>u_scheme = scheme, u_host = [], u_path = []\<rparr>
                   else if take 1 rest \<noteq> ''/'' \<and> CHR '':'' \<in> set (before_char CHR ''/'' rest) then None
                   else if (scheme \<noteq> [] \<or> take 3 rest \<noteq> ''///'') \<and> take 2 rest = ''//''
                   then (let authority = before_char CHR ''/'' (drop 2 rest);
                             path = dropWhile (\<lambda>x. x \<noteq> CHR ''/'') (drop 2 rest)
                         in (case parseAuthority authority of
                               None \<Rightarrow> None
                             | Some host \<Rightarrow> with_path scheme host path))
                   else with_path scheme [] rest))"

definition url_parse :: "string \<Rightarrow> go_url option" where
  "url_parse raw =
     (case parse_noFragment (before_char CHR ''#'' raw) of
        None \<Rightarrow> None
      | Some u \<Rightarrow> if escapes_ok (after_char CHR ''#'' raw) then Some u else None)"

definition originOnly :: "string \<Rightarrow> string option" where
  "originOnly raw =
     (case url_parse raw of None \<Rightarrow> None
      | Some u \<Rightarrow> if u_scheme u = [] \<or> u_host u = [] then None
                 else Some (u_scheme u @ ''://'' @ u_host u))"

subsection \<open>What an origin cannot contain\<close>

definition host_clean :: "string \<Rightarrow> bool" where
  "host_clean h \<longleftrightarrow> set h \<inter> set ''/?#@'' = {}"

lemma host_char_clean: "host_char_ok c \<Longrightarrow> c \<notin> set ''/?#@''"
  by (auto simp: host_char_ok_def is_alpha_def is_num_def code_of_def)

lemma escaped_clean:
  assumes "is_hex a" "is_hex b" "8 \<le> unhex a \<or> (a = CHR ''2'' \<and> b = CHR ''5'')"
  shows "(char_of (16 * unhex a + unhex b :: nat) :: char) \<notin> set ''/?#@''"
proof (cases "a = CHR ''2'' \<and> b = CHR ''5''")
  case True
  then have "unhex a = 2" "unhex b = 5" by (simp_all add: unhex_def is_num_def code_of_def)
  then show ?thesis by (simp add: char_of_def)
next
  case False
  then have a: "8 \<le> unhex a" using assms(3) by blast
  have ab: "unhex a < 16" "unhex b < 16" using assms(1,2)
    by (auto simp: unhex_def is_hex_def is_num_def code_of_def)
  then have n: "128 \<le> 16 * unhex a + unhex b" "16 * unhex a + unhex b < 256" using a by linarith+
  then have "(of_char (char_of (16 * unhex a + unhex b :: nat) :: char) :: nat) = 16 * unhex a + unhex b"
    by (simp only: of_char_of mod_less)
  then have "128 \<le> (of_char (char_of (16 * unhex a + unhex b :: nat) :: char) :: nat)" using n by simp
  moreover have "(of_char c :: nat) < 128" if "c \<in> set ''/?#@''" for c using that by auto
  ultimately show ?thesis by (metis not_le)
qed

lemma unescape_host_clean: "unescape_host s = Some h \<Longrightarrow> host_clean h"
proof (induction s arbitrary: h rule: unescape_host.induct)
  case (2 c cs)
  show ?case
  proof (cases "c = CHR ''%''")
    case True
    then obtain a b rest r where s: "cs = a # b # rest" "is_hex a" "is_hex b"
        "8 \<le> unhex a \<or> (a = CHR ''2'' \<and> b = CHR ''5'')" "unescape_host rest = Some r"
        "h = char_of (16 * unhex a + unhex b :: nat) # r"
      using 2(3) by (auto split: list.splits if_splits)
    then have "host_clean r" using 2(1) [OF True s(1) refl] by auto
    then show ?thesis using escaped_clean [OF s(2-4)] by (auto simp: s(6) host_clean_def)
  next
    case False
    then obtain r where "host_char_ok c" "unescape_host cs = Some r" "h = c # r"
      using 2(3) by (auto split: if_splits)
    then show ?thesis using 2(2) [OF False] host_char_clean [of c] by (auto simp: host_clean_def)
  qed
qed (simp add: host_clean_def)

lemma parseAuthority_clean: "parseAuthority a = Some h \<Longrightarrow> host_clean h"
  using unescape_host_clean by (auto simp: parseAuthority_def parseHost_def split: if_splits option.splits)

lemma url_parse_clean: "url_parse raw = Some u \<Longrightarrow> host_clean (u_host u)"
  using parseAuthority_clean
  by (auto simp: url_parse_def parse_noFragment_def with_path_def Let_def host_clean_def split: option.splits if_splits prod.splits)

end
