(* ===== verification/ActiveWindow.thy ===== *)
theory ActiveWindow
  imports DailyUsage GoUrl
begin

text \<open>
  The active-window snapshot of a device in \<^verbatim>\<open>api/main.go\<close>: when it counts as fresh, what
  is extracted from it, how it is cleaned at ingest and hidden when stale, and how the fleet's
  browser-history policy is enforced on a payload. Functions that change their argument in the
  code return it here.
\<close>

definition activeWindowFreshnessWindow :: int where
  "activeWindowFreshnessWindow = 5 * minute_ns"

subsection \<open>Freshness\<close>

definition later :: "gotime \<Rightarrow> val \<Rightarrow> gotime" where
  "later latest v = (case bsonTime v of None \<Rightarrow> latest | Some t \<Rightarrow> if after t latest then t else latest)"

definition session_later :: "gotime \<Rightarrow> val \<Rightarrow> gotime" where
  "session_later latest rawSession =
     (case mapValue rawSession of None \<Rightarrow> latest | Some session \<Rightarrow> later latest (get session ''end_time''))"

definition activeWindowSnapshotTime :: "val \<Rightarrow> gotime option" where
  "activeWindowSnapshotTime raw =
     (case mapValue raw of None \<Rightarrow> None
      | Some awt \<Rightarrow>
          let latest1 = foldl (\<lambda>l k. later l (get awt k)) zero_time [''collected_at'', ''last_sample_at''];
              latest2 = (case interfaceSlice (get awt ''sessions'') of
                           None \<Rightarrow> latest1 | Some sessions \<Rightarrow> foldl session_later latest1 sessions)
          in if is_zero latest2 then None else Some latest2)"

definition activeWindowSnapshotFreshAt :: "val \<Rightarrow> gotime \<Rightarrow> bool" where
  "activeWindowSnapshotFreshAt raw now =
     (case mapValue raw of None \<Rightarrow> False
      | Some awt \<Rightarrow>
          if bool_of (get awt ''stale'') then False
          else if as_bool (get awt ''tracker_fresh'') = Some False then False
          else (case activeWindowSnapshotTime raw of None \<Rightarrow> False
                | Some t \<Rightarrow> if after t (add now activeWindowFreshnessWindow) then False
                           else sub now t \<le> activeWindowFreshnessWindow))"

definition staleActiveWindowPayload :: "gotime \<Rightarrow> obj" where
  "staleActiveWindowPayload now =
     [(''current_app'', Str []), (''sessions'', Arr []), (''app_summaries'', Arr []),
      (''cumulative_summaries'', Arr []), (''stale'', Bool_v True), (''stale_checked_at'', Time_v now),
      (''stale_after_seconds'', F64 (seconds activeWindowFreshnessWindow))]"

definition hide_stale :: "gotime \<Rightarrow> obj \<Rightarrow> obj" where
  "hide_stale now data =
     (case map_of data ''ActiveWindowTracker'' of
        Some awt \<Rightarrow> if activeWindowSnapshotFreshAt awt now then data
                   else al_upd ''ActiveWindowTracker'' (Obj (staleActiveWindowPayload now)) data
      | None \<Rightarrow> data)"

definition sanitizeDeviceActiveWindowSnapshot :: "gotime \<Rightarrow> obj \<Rightarrow> obj" where
  "sanitizeDeviceActiveWindowSnapshot now device =
     (case get device ''data'' of
        BObj data \<Rightarrow> al_upd ''data'' (BObj (hide_stale now data)) device
      | Obj data \<Rightarrow> al_upd ''data'' (Obj (hide_stale now data)) device
      | _ \<Rightarrow> device)"

subsection \<open>Extraction at ingest\<close>

definition payload_tracker :: "obj \<Rightarrow> obj option" where
  "payload_tracker payload =
     Option.bind (as_obj (get payload ''data'')) (\<lambda>data. as_obj (get data ''ActiveWindowTracker''))"

definition fresh_tracker :: "gotime \<Rightarrow> obj \<Rightarrow> obj option" where
  "fresh_tracker now payload =
     (case payload_tracker payload of None \<Rightarrow> None
      | Some awt \<Rightarrow> if activeWindowSnapshotFreshAt (Obj awt) (payloadTime now (get payload ''timestamp''))
                   then Some awt else None)"

definition focusSummariesFromPayload :: "gotime \<Rightarrow> obj \<Rightarrow> val list" where
  "focusSummariesFromPayload now payload =
     (case fresh_tracker now payload of None \<Rightarrow> []
      | Some awt \<Rightarrow> (case as_arr (get awt ''app_summaries'') of None \<Rightarrow> []
          | Some raw \<Rightarrow> filter isVisibleAppUsageSummary raw))"

definition focus_session :: "obj \<Rightarrow> val \<Rightarrow> val option" where
  "focus_session payload item =
     (case as_obj item of None \<Rightarrow> None
      | Some session \<Rightarrow>
          let appName = displayAppName (str_of (get session ''app_name''))
          in if \<not> isVisibleAppUsageName appName then None
             else (case toFloat (get session ''duration_seconds'') of None \<Rightarrow> None
                   | Some duration \<Rightarrow>
                       if duration \<le> 0 then None
                       else Some (Obj [(''app_name'', Str appName), (''start_time'', get session ''start_time''),
                              (''end_time'', get session ''end_time''), (''duration_seconds'', F64 duration),
                              (''device_id'', Str (str_of (get payload ''device_id''))),
                              (''username'', Str (activityUsername payload))])))"

definition extractFocusSessions :: "gotime \<Rightarrow> obj \<Rightarrow> val list" where
  "extractFocusSessions now payload =
     (case fresh_tracker now payload of None \<Rightarrow> []
      | Some awt \<Rightarrow> (case as_arr (get awt ''sessions'') of None \<Rightarrow> []
          | Some raw \<Rightarrow> List.map_filter (focus_session payload) raw))"

text \<open>\<^verbatim>\<open>extractFocusSummaries\<close> reads a stored document, whose maps are \<^verbatim>\<open>bson.M\<close>.\<close>

definition extractFocusSummaries :: "obj \<Rightarrow> val list" where
  "extractFocusSummaries doc =
     (case Option.bind (as_bobj (get doc ''data'')) (\<lambda>data. as_bobj (get data ''ActiveWindowTracker'')) of
        None \<Rightarrow> []
      | Some awt \<Rightarrow> filter isVisibleAppUsageSummary
          (case as_barr (get awt ''app_summaries'') of Some s \<Rightarrow> s | None \<Rightarrow> []))"

definition filter_key :: "obj \<Rightarrow> string \<Rightarrow> obj" where
  "filter_key awt key =
     (case as_arr (get awt key) of None \<Rightarrow> awt
      | Some raw \<Rightarrow> al_upd key (Arr (filter isVisibleAppUsageSummary raw)) awt)"

definition sanitize_tracker :: "obj \<Rightarrow> obj" where
  "sanitize_tracker awt =
     (let current = str_of (get awt ''current_app'');
          awt1 = (if current \<noteq> [] \<and> \<not> isVisibleAppUsageName current then al_upd ''current_app'' (Str []) awt else awt)
      in foldl filter_key awt1 [''app_summaries'', ''cumulative_summaries'', ''sessions''])"

definition sanitizeActiveWindowPayload :: "obj \<Rightarrow> obj" where
  "sanitizeActiveWindowPayload payload =
     (case as_obj (get payload ''data'') of None \<Rightarrow> payload
      | Some data \<Rightarrow>
          (case as_obj (get data ''ActiveWindowTracker'') of None \<Rightarrow> payload
           | Some awt \<Rightarrow>
               al_upd ''data'' (Obj (al_upd ''ActiveWindowTracker'' (Obj (sanitize_tracker awt)) data)) payload))"

subsection \<open>Browser-history policy\<close>

definition reduce_entry :: "val \<Rightarrow> val option" where
  "reduce_entry item =
     (case as_obj item of None \<Rightarrow> None
      | Some entry \<Rightarrow> (case originOnly (str_of (get entry ''url'')) of None \<Rightarrow> None
          | Some origin \<Rightarrow> Some (Obj (al_upd ''title'' (Str []) (al_upd ''url'' (Str origin) entry)))))"

definition reduce_key :: "obj \<Rightarrow> string \<Rightarrow> obj" where
  "reduce_key history key =
     (case as_arr (get history key) of None \<Rightarrow> history
      | Some items \<Rightarrow> al_upd key (Arr (List.map_filter reduce_entry items)) history)"

definition enforceBrowserHistoryPolicy :: "obj \<Rightarrow> string \<Rightarrow> bool \<Rightarrow> obj" where
  "enforceBrowserHistoryPolicy payload mode collect =
     (case as_obj (get payload ''data'') of None \<Rightarrow> payload
      | Some data \<Rightarrow>
          (case as_obj (get data ''BrowserHistory'') of None \<Rightarrow> payload
           | Some history \<Rightarrow>
               if \<not> collect \<or> mode = ''disabled''
               then al_upd ''data'' (Obj (al_del ''BrowserHistory'' data)) payload
               else if mode \<noteq> ''domain_only'' then payload
               else al_upd ''data'' (Obj (al_upd ''BrowserHistory''
                      (Obj (foldl reduce_key history [''new_history_entries'', ''top_recent_urls''])) data)) payload))"

subsection \<open>Freshness is exactly the window\<close>

lemma later_inst: "inst (later l v) = max (inst l) (case bsonTime v of None \<Rightarrow> inst l | Some t \<Rightarrow> inst t)"
  by (simp add: later_def after_def split: option.split)

lemma session_later_ge: "inst l \<le> inst (session_later l v)"
  by (simp add: session_later_def later_inst split: option.split)

text \<open>The times a snapshot claims for itself.\<close>

definition claimed_times :: "val \<Rightarrow> gotime set" where
  "claimed_times raw = (case mapValue raw of None \<Rightarrow> {}
     | Some awt \<Rightarrow> {t. bsonTime (get awt ''collected_at'') = Some t \<or> bsonTime (get awt ''last_sample_at'') = Some t}
         \<union> (case interfaceSlice (get awt ''sessions'') of None \<Rightarrow> {}
            | Some ss \<Rightarrow> {t. \<exists>v m. v \<in> set ss \<and> mapValue v = Some m \<and> bsonTime (get m ''end_time'') = Some t}))"

lemma sessions_later:
  "l' = foldl session_later l ss \<Longrightarrow>
     inst l \<le> inst l'
     \<and> (\<forall>v m t. v \<in> set ss \<and> mapValue v = Some m \<and> bsonTime (get m ''end_time'') = Some t \<longrightarrow> inst t \<le> inst l')
     \<and> (inst l' = inst l \<or> (\<exists>v m t. v \<in> set ss \<and> mapValue v = Some m \<and> bsonTime (get m ''end_time'') = Some t \<and> inst t = inst l'))"
proof (induction ss arbitrary: l)
  case (Cons s ss)
  note IH = Cons.IH [of "session_later l s"]
  have s: "inst (session_later l s) = inst l \<or> (\<exists>m t. mapValue s = Some m \<and> bsonTime (get m ''end_time'') = Some t
      \<and> inst t = inst (session_later l s))"
    "\<And>m t. mapValue s = Some m \<Longrightarrow> bsonTime (get m ''end_time'') = Some t \<Longrightarrow> inst t \<le> inst (session_later l s)"
    by (auto simp: session_later_def later_def after_def split: option.splits)
  show ?case using IH Cons.prems s session_later_ge [of l s] by (fastforce simp: not_le)
qed simp

lemma snapshot_time_max:
  assumes "activeWindowSnapshotTime raw = Some t"
  shows "\<exists>u \<in> claimed_times raw. inst u = inst t" "\<forall>u \<in> claimed_times raw. inst u \<le> inst t"
proof -
  obtain awt where m: "mapValue raw = Some awt"
    using assms by (auto simp: activeWindowSnapshotTime_def split: option.splits)
  let ?l1 = "later (later zero_time (get awt ''collected_at'')) (get awt ''last_sample_at'')"
  have l1: "inst ?l1 = zero_inst \<or> (\<exists>u. (bsonTime (get awt ''collected_at'') = Some u \<or> bsonTime (get awt ''last_sample_at'') = Some u) \<and> inst u = inst ?l1)"
    "\<And>u. bsonTime (get awt ''collected_at'') = Some u \<or> bsonTime (get awt ''last_sample_at'') = Some u \<Longrightarrow> inst u \<le> inst ?l1"
    by (auto simp: later_def after_def zero_time_def split: option.splits)
  have t: "t = (case interfaceSlice (get awt ''sessions'') of None \<Rightarrow> ?l1 | Some ss \<Rightarrow> foldl session_later ?l1 ss)"
    and nz: "inst t \<noteq> zero_inst"
    using assms by (auto simp: activeWindowSnapshotTime_def m Let_def is_zero_def split: if_splits)
  show "\<exists>u \<in> claimed_times raw. inst u = inst t" "\<forall>u \<in> claimed_times raw. inst u \<le> inst t"
  proof (atomize (full), cases "interfaceSlice (get awt ''sessions'')")
    case None
    then show "(\<exists>u \<in> claimed_times raw. inst u = inst t) \<and> (\<forall>u \<in> claimed_times raw. inst u \<le> inst t)"
      using l1 t nz by (auto simp: claimed_times_def m)
  next
    case (Some ss)
    then have t': "t = foldl session_later ?l1 ss" using t by simp
    let ?F = "{u. bsonTime (get awt ''collected_at'') = Some u \<or> bsonTime (get awt ''last_sample_at'') = Some u}"
    let ?S = "{u. \<exists>v m. v \<in> set ss \<and> mapValue v = Some m \<and> bsonTime (get m ''end_time'') = Some u}"
    have c: "claimed_times raw = ?F \<union> ?S" by (simp add: claimed_times_def m Some)
    have le: "inst ?l1 \<le> inst t" "\<forall>u \<in> ?S. inst u \<le> inst t"
      and ex: "inst t = inst ?l1 \<or> (\<exists>u \<in> ?S. inst u = inst t)"
      using sessions_later [OF t'] by blast+
    have "\<forall>u \<in> ?F. inst u \<le> inst t" using l1(2) le(1) by fastforce
    moreover have "\<exists>u \<in> ?F \<union> ?S. inst u = inst t"
    proof (cases "\<exists>u \<in> ?S. inst u = inst t")
      case False
      then have "inst t = inst ?l1" using ex by blast
      then show ?thesis using l1(1) nz by auto
    qed blast
    ultimately show "(\<exists>u \<in> claimed_times raw. inst u = inst t) \<and> (\<forall>u \<in> claimed_times raw. inst u \<le> inst t)"
      unfolding c using le(2) by blast
  qed
qed

lemma stale_not_fresh: "\<not> activeWindowSnapshotFreshAt (Obj (staleActiveWindowPayload t0)) now"
  by (simp add: activeWindowSnapshotFreshAt_def staleActiveWindowPayload_def)

lemma hide_stale_idem: "hide_stale now (hide_stale now data) = hide_stale now data"
  using stale_not_fresh by (auto simp: hide_stale_def al_upd_same split: option.split)

lemma sanitize_device_idem:
  "sanitizeDeviceActiveWindowSnapshot now (sanitizeDeviceActiveWindowSnapshot now device)
     = sanitizeDeviceActiveWindowSnapshot now device"
  by (cases "get device ''data''")
    (simp_all add: sanitizeDeviceActiveWindowSnapshot_def hide_stale_idem al_upd_same)

text \<open>A snapshot counts as fresh only if the latest time it claims for itself lies within five
  minutes of the reference time, before or after it; a hidden snapshot never counts as fresh
  again, so hiding is stable at every later time, and hiding twice is hiding once.\<close>

theorem fresh_within_window:
  "(activeWindowSnapshotFreshAt raw now \<longrightarrow>
      (\<exists>u \<in> claimed_times raw. \<bar>inst now - inst u\<bar> \<le> activeWindowFreshnessWindow)
      \<and> (\<forall>u \<in> claimed_times raw. inst u \<le> inst now + activeWindowFreshnessWindow))
   \<and> \<not> activeWindowSnapshotFreshAt (Obj (staleActiveWindowPayload t0)) now
   \<and> sanitizeDeviceActiveWindowSnapshot now (sanitizeDeviceActiveWindowSnapshot now device)
     = sanitizeDeviceActiveWindowSnapshot now device"
proof (intro conjI impI)
  assume "activeWindowSnapshotFreshAt raw now"
  then obtain t where t: "activeWindowSnapshotTime raw = Some t" "\<not> after t (add now activeWindowFreshnessWindow)"
      "sub now t \<le> activeWindowFreshnessWindow"
    by (auto simp: activeWindowSnapshotFreshAt_def split: option.splits if_splits)
  have "inst now - inst t \<le> activeWindowFreshnessWindow"
    using t(3) by (simp add: sub_def activeWindowFreshnessWindow_def ns_units sat64_def i64_min_def i64_max_def split: if_splits)
  then show "\<exists>u \<in> claimed_times raw. \<bar>inst now - inst u\<bar> \<le> activeWindowFreshnessWindow"
    using snapshot_time_max(1) [OF t(1)] t(2) by (force simp: after_def)
  show "\<forall>u \<in> claimed_times raw. inst u \<le> inst now + activeWindowFreshnessWindow"
    using snapshot_time_max(2) [OF t(1)] t(2) by (force simp: after_def)
qed (rule stale_not_fresh sanitize_device_idem)+

theorem fresh_within_window_witness:
  "\<exists>u \<in> claimed_times (Obj [(''collected_at'', Time_v \<lparr>inst = 0, off = 0\<rparr>)]).
     \<bar>inst (add \<lparr>inst = 0, off = 0\<rparr> minute_ns) - inst u\<bar> \<le> activeWindowFreshnessWindow"
proof -
  have "activeWindowSnapshotFreshAt (Obj [(''collected_at'', Time_v \<lparr>inst = 0, off = 0\<rparr>)]) (add \<lparr>inst = 0, off = 0\<rparr> minute_ns)"
    by (simp add: activeWindowSnapshotFreshAt_def activeWindowSnapshotTime_def later_def is_zero_def after_def
        zero_time_def zero_inst_def activeWindowFreshnessWindow_def ns_units sub_def
        sat64_def i64_min_def i64_max_def)
  then show ?thesis
    using fresh_within_window [of "Obj [(''collected_at'', Time_v \<lparr>inst = 0, off = 0\<rparr>)]" "add \<lparr>inst = 0, off = 0\<rparr> minute_ns"] by blast
qed

subsection \<open>The browser-history policy holds\<close>

definition history_of :: "obj \<Rightarrow> obj option" where
  "history_of payload = Option.bind (as_obj (get payload ''data'')) (\<lambda>d. as_obj (get d ''BrowserHistory''))"

text \<open>An address that names a host only: no path, query, fragment or credentials.\<close>

definition origin_only :: "string \<Rightarrow> bool" where
  "origin_only u \<longleftrightarrow> (\<exists>scheme host. u = scheme @ ''://'' @ host \<and> host \<noteq> [] \<and> host_clean host)"

lemma originOnly_clean: "originOnly raw = Some u \<Longrightarrow> origin_only u"
  using url_parse_clean by (auto simp: originOnly_def origin_only_def split: option.splits if_splits)

definition reduced :: "val \<Rightarrow> bool" where
  "reduced e \<longleftrightarrow> (\<exists>m. e = Obj m \<and> origin_only (str_of (get m ''url'')) \<and> get m ''title'' = Str [])"

lemma reduce_entry_reduced: "reduce_entry item = Some e \<Longrightarrow> reduced e"
  using originOnly_clean by (auto simp: reduce_entry_def reduced_def split: option.splits)

lemma reduce_key_get:
  "get (reduce_key h k) k' = (case as_arr (get h k) of None \<Rightarrow> get h k'
     | Some items \<Rightarrow> if k' = k then Arr (List.map_filter reduce_entry items) else get h k')"
  by (simp add: reduce_key_def split: option.split)

lemma reduce_all:
  assumes "e \<in> set (List.map_filter reduce_entry items)" shows "reduced e"
  using assms reduce_entry_reduced by (auto simp: List.map_filter_def)

text \<open>The fleet's browser-history policy holds for every payload it is enforced on, whatever the
  agent sent: with collection off or the mode disabled no history is left, and in domain-only
  mode every entry left under the two entry lists is a map with an empty title whose address
  consists of a scheme and a host, without path, query, fragment or credentials.\<close>

theorem browser_policy_enforced:
  "(\<not> collect \<or> mode = ''disabled'' \<longrightarrow> history_of (enforceBrowserHistoryPolicy payload mode collect) = None)
   \<and> (collect \<and> mode = ''domain_only'' \<longrightarrow>
      (\<forall>h. history_of (enforceBrowserHistoryPolicy payload mode collect) = Some h \<longrightarrow>
        (\<forall>key \<in> {''new_history_entries'', ''top_recent_urls''}. \<forall>items.
           get h key = Arr items \<longrightarrow> (\<forall>e \<in> set items. reduced e))))
   \<and> (collect \<and> mode \<notin> {''disabled'', ''domain_only''} \<longrightarrow>
        enforceBrowserHistoryPolicy payload mode collect = payload)"
proof (intro conjI impI allI ballI)
  assume "\<not> collect \<or> mode = ''disabled''"
  then show "history_of (enforceBrowserHistoryPolicy payload mode collect) = None"
    by (auto simp: history_of_def enforceBrowserHistoryPolicy_def bind_eq_None_conv split: option.splits)
next
  fix h key items e
  assume m: "collect \<and> mode = ''domain_only''"
    and h: "history_of (enforceBrowserHistoryPolicy payload mode collect) = Some h"
    and k: "key \<in> {''new_history_entries'', ''top_recent_urls''}" "get h key = Arr items" and e: "e \<in> set items"
  obtain h0 where "h = reduce_key (reduce_key h0 ''new_history_entries'') ''top_recent_urls''"
    using m h by (auto simp: history_of_def enforceBrowserHistoryPolicy_def bind_eq_Some_conv split: option.splits)
  then show "reduced e" using k e reduce_all
    by (auto simp: reduce_key_get split: option.splits if_splits)
next
  assume "collect \<and> mode \<notin> {''disabled'', ''domain_only''}"
  then show "enforceBrowserHistoryPolicy payload mode collect = payload"
    by (auto simp: enforceBrowserHistoryPolicy_def split: option.split)
qed

definition sample_history :: obj where
  "sample_history = [(''data'', Obj [(''BrowserHistory'', Obj [(''new_history_entries'',
     Arr [Obj [(''url'', Str ''https://u:p@example.com:8443/a/b?q=1#f''), (''title'', Str ''secret'')]])])])]"

theorem browser_policy_enforced_witness:
  "history_of (enforceBrowserHistoryPolicy sample_history ''disabled'' True) = None
   \<and> originOnly ''https://u:p@example.com:8443/a/b?q=1#f'' = Some ''https://example.com:8443''"
proof
  show "history_of (enforceBrowserHistoryPolicy sample_history ''disabled'' True) = None"
    using browser_policy_enforced [of True "''disabled''" sample_history] by simp
  show "originOnly ''https://u:p@example.com:8443/a/b?q=1#f'' = Some ''https://example.com:8443''"
    by code_simp
qed

end
