(* ===== verification/FocusCache.thy ===== *)
theory FocusCache
  imports ActiveWindow "HOL-Library.Multiset"
begin

text \<open>
  The in-memory focus cache of \<^verbatim>\<open>api/main.go\<close>: per device and application the focus seconds and
  session counts summed over every cycle. It is filled from the stored documents at start, updated at
  every ingest, pruned when devices disappear, and read through a sorted snapshot. Go's two maps are
  association lists; the entries, which the code updates through pointers, are their values.
\<close>

record AppFocusEntry =
  AppName :: string
  TotalFocusS :: float64
  SessionCount :: int

type_synonym app_map = "(string \<times> AppFocusEntry) list"
type_synonym focus_cache = "(string \<times> app_map) list"

text \<open>What one summary adds: a name, seconds and sessions.\<close>

definition focus_delta :: "val \<Rightarrow> (string \<times> float64 \<times> int) option" where
  "focus_delta raw =
     (case mapValue raw of None \<Rightarrow> None
      | Some m \<Rightarrow>
          let name = displayAppName (str_of (get m ''app_name''))
          in if \<not> isVisibleAppUsageName name then None
             else Some (name, float_of (get m ''total_focus_seconds''), f2i (float_of (get m ''session_count''))))"

definition new_entry :: "string \<Rightarrow> AppFocusEntry" where
  "new_entry name = \<lparr>AppName = name, TotalFocusS = 0, SessionCount = 0\<rparr>"

definition add_delta :: "AppFocusEntry \<Rightarrow> string \<times> float64 \<times> int \<Rightarrow> AppFocusEntry" where
  "add_delta e d = (case d of (name, dur, sessions) \<Rightarrow>
     e\<lparr>TotalFocusS := fadd (TotalFocusS e) dur, SessionCount := i64 (SessionCount e + sessions)\<rparr>)"

definition apply_summary :: "app_map \<Rightarrow> val \<Rightarrow> app_map" where
  "apply_summary apps raw =
     (case focus_delta raw of None \<Rightarrow> apps
      | Some d \<Rightarrow>
          let e = (case map_of apps (appKey (fst d)) of Some e \<Rightarrow> e | None \<Rightarrow> new_entry (fst d))
          in al_upd (appKey (fst d)) (add_delta e d) apps)"

definition applyFocusSummaries :: "string \<Rightarrow> val list \<Rightarrow> focus_cache \<Rightarrow> focus_cache" where
  "applyFocusSummaries deviceID summaries fc =
     al_upd deviceID
       (foldl apply_summary (case map_of fc deviceID of Some apps \<Rightarrow> apps | None \<Rightarrow> []) summaries) fc"

text \<open>\<open>perm\<close> is the order in which the map iteration hands the entries to the sort.\<close>

definition snapshot :: "(AppFocusEntry list \<Rightarrow> AppFocusEntry list) \<Rightarrow> focus_cache \<Rightarrow> string \<Rightarrow> AppFocusEntry list" where
  "snapshot perm fc deviceID =
     (case map_of fc deviceID of None \<Rightarrow> []
      | Some apps \<Rightarrow> sort_key (\<lambda>e. - TotalFocusS e) (perm (map snd apps)))"

text \<open>
  The rebuild at start: \<open>ids\<close> are the device ids the database lists (not every one a string),
  \<open>docs\<close> what the query for a device returned before it ended, \<open>None\<close> where it failed.
\<close>

definition rebuild_doc :: "string \<Rightarrow> focus_cache \<Rightarrow> obj \<Rightarrow> focus_cache" where
  "rebuild_doc deviceID fc doc =
     (let summaries = extractFocusSummaries doc
      in if summaries = [] then fc else applyFocusSummaries deviceID summaries fc)"

definition rebuild_device :: "(string \<Rightarrow> obj list option) \<Rightarrow> focus_cache \<Rightarrow> val \<Rightarrow> focus_cache" where
  "rebuild_device docs fc rawID =
     (case as_str rawID of None \<Rightarrow> fc
      | Some deviceID \<Rightarrow>
          if deviceID = [] then fc
          else (case docs deviceID of None \<Rightarrow> fc | Some ds \<Rightarrow> foldl (rebuild_doc deviceID) fc ds))"

definition buildFocusCacheFromMongo :: "val list option \<Rightarrow> (string \<Rightarrow> obj list option) \<Rightarrow> focus_cache \<Rightarrow> focus_cache" where
  "buildFocusCacheFromMongo ids docs fc =
     (case ids of None \<Rightarrow> fc | Some rawIDs \<Rightarrow> foldl (rebuild_device docs) fc rawIDs)"

definition pruneFocusCacheStaleDevices :: "val list option \<Rightarrow> focus_cache \<Rightarrow> focus_cache" where
  "pruneFocusCacheStaleDevices ids fc =
     (case ids of None \<Rightarrow> fc
      | Some rawIDs \<Rightarrow>
          let active = {i. Str i \<in> set rawIDs \<and> i \<noteq> []}
          in filter (\<lambda>e. fst e \<in> active) fc)"

definition focusHandler :: "(AppFocusEntry list \<Rightarrow> AppFocusEntry list) \<Rightarrow> focus_cache \<Rightarrow> string \<Rightarrow> string
    \<Rightarrow> (nat \<times> string) + (string \<times> AppFocusEntry list)" where
  "focusHandler perm fc meth path =
     (if meth \<noteq> ''GET'' then Inl (405, ''Method not allowed'')
      else let parts = split_on CHR ''/'' (trim_prefix path ''/'')
           in if length parts < 2 \<or> parts ! 1 = [] then Inl (400, ''Missing device_id'')
              else Inr (parts ! 1, snapshot perm fc (parts ! 1)))"

subsection \<open>The cache is the sum of what was applied\<close>

definition deltas :: "val list \<Rightarrow> (string \<times> float64 \<times> int) list" where
  "deltas summaries = List.map_filter focus_delta summaries"

definition key_deltas :: "string \<Rightarrow> val list \<Rightarrow> (string \<times> float64 \<times> int) list" where
  "key_deltas k summaries = filter (\<lambda>d. appKey (fst d) = k) (deltas summaries)"

text \<open>The entry a key holds after the summaries, from the entry it held before.\<close>

definition sum_entry :: "AppFocusEntry option \<Rightarrow> (string \<times> float64 \<times> int) list \<Rightarrow> AppFocusEntry option" where
  "sum_entry e ds = (case e of
       Some e0 \<Rightarrow> Some (foldl add_delta e0 ds)
     | None \<Rightarrow> if ds = [] then None else Some (foldl add_delta (new_entry (fst (hd ds))) ds))"

lemma key_deltas_simps [simp]:
  "key_deltas k [] = []"
  "key_deltas k (s # ss) = (case focus_delta s of None \<Rightarrow> key_deltas k ss
     | Some d \<Rightarrow> (if appKey (fst d) = k then [d] else []) @ key_deltas k ss)"
  "key_deltas k (ss @ ts) = key_deltas k ss @ key_deltas k ts"
  by (auto simp: key_deltas_def deltas_def List.map_filter_def split: option.split)

lemma sum_entry_append: "sum_entry (sum_entry e as) bs = sum_entry e (as @ bs)"
  by (auto simp: sum_entry_def split: option.split)

lemma apply_summary_lookup:
  "map_of (apply_summary apps s) k = sum_entry (map_of apps k) (key_deltas k [s])"
  by (auto simp: apply_summary_def sum_entry_def Let_def split: option.split)

lemma apply_summaries_lookup:
  "map_of (foldl apply_summary apps ss) k = sum_entry (map_of apps k) (key_deltas k ss)"
proof (induction ss arbitrary: apps)
  case Nil
  then show ?case by (simp add: sum_entry_def split: option.split)
next
  case (Cons s ss)
  have "key_deltas k (s # ss) = key_deltas k [s] @ key_deltas k ss"
    by (simp split: option.split)
  then show ?case by (simp only: foldl_Cons Cons.IH apply_summary_lookup sum_entry_append)
qed

definition cache_entry :: "focus_cache \<Rightarrow> string \<Rightarrow> string \<Rightarrow> AppFocusEntry option" where
  "cache_entry fc d k = (case map_of fc d of None \<Rightarrow> None | Some apps \<Rightarrow> map_of apps k)"

lemma apply_entry:
  "cache_entry (applyFocusSummaries d ss fc) d' k =
     (if d' = d then sum_entry (cache_entry fc d k) (key_deltas k ss) else cache_entry fc d' k)"
  by (auto simp: cache_entry_def applyFocusSummaries_def apply_summaries_lookup split: option.split)

definition batches_for :: "string \<Rightarrow> (string \<times> val list) list \<Rightarrow> val list" where
  "batches_for d bs = concat (map snd (filter (\<lambda>b. fst b = d) bs))"

lemma apply_batches_entry:
  "cache_entry (foldl (\<lambda>fc (d, ss). applyFocusSummaries d ss fc) fc bs) d k
     = sum_entry (cache_entry fc d k) (key_deltas k (batches_for d bs))"
proof (induction bs arbitrary: fc)
  case Nil
  then show ?case by (simp add: batches_for_def sum_entry_def split: option.split)
next
  case (Cons b bs)
  obtain d' ss where b: "b = (d', ss)" by (cases b)
  show ?case using Cons [of "applyFocusSummaries d' ss fc"]
    by (simp add: b batches_for_def apply_entry sum_entry_append)
qed

text \<open>After any sequence of batches from any devices, in any interleaving, an application's entry
  for a device is exactly the sum, in order, of that device's visible deltas for it: no batch is
  lost or counted for another device, spellings of one application share an entry, and the
  snapshot lists each entry once, by falling time.\<close>

theorem focus_cache_sums:
  assumes "\<And>es. mset (perm es) = mset es"
  shows "cache_entry (foldl (\<lambda>fc (d, ss). applyFocusSummaries d ss fc) [] bs) d k
       = sum_entry None (key_deltas k (batches_for d bs))
    \<and> (\<forall>fc. mset (snapshot perm fc d) = mset (map snd (case map_of fc d of None \<Rightarrow> [] | Some apps \<Rightarrow> apps))
         \<and> sorted_wrt (\<lambda>a b. TotalFocusS b \<le> TotalFocusS a) (snapshot perm fc d))"
proof (intro conjI allI)
  show "cache_entry (foldl (\<lambda>fc (d, ss). applyFocusSummaries d ss fc) [] bs) d k
       = sum_entry None (key_deltas k (batches_for d bs))"
    by (simp add: apply_batches_entry) (simp add: cache_entry_def)
next
  fix fc
  show "mset (snapshot perm fc d) = mset (map snd (case map_of fc d of None \<Rightarrow> [] | Some apps \<Rightarrow> apps))"
    by (simp add: snapshot_def assms split: option.split)
  have "sorted (map (\<lambda>e. - TotalFocusS e) (snapshot perm fc d))"
    by (simp add: snapshot_def split: option.split)
  then show "sorted_wrt (\<lambda>a b. TotalFocusS b \<le> TotalFocusS a) (snapshot perm fc d)"
    by (simp add: sorted_map)
qed

theorem focus_cache_sums_witness:
  "cache_entry (foldl (\<lambda>fc (d, ss). applyFocusSummaries d ss fc) []
      [(''d1'', [Obj [(''app_name'', Str ''Code''), (''total_focus_seconds'', F64 5), (''session_count'', F64 1)]]),
       (''d2'', [Obj [(''app_name'', Str ''code''), (''total_focus_seconds'', F64 9), (''session_count'', F64 1)]]),
       (''d1'', [BObj [(''app_name'', Str ''code''), (''total_focus_seconds'', F64 7), (''session_count'', I32 2)]])])
      ''d1'' ''code'' = Some \<lparr>AppName = ''Code'', TotalFocusS = 12, SessionCount = 3\<rparr>"
  (is "cache_entry (foldl _ [] ?bs) _ _ = _")
proof -
  have "cache_entry (foldl (\<lambda>fc (d, ss). applyFocusSummaries d ss fc) [] ?bs) ''d1'' ''code''
      = sum_entry None (key_deltas ''code'' (batches_for ''d1'' ?bs))"
    using focus_cache_sums [of "\<lambda>es. es"] by blast
  also have "\<dots> = Some \<lparr>AppName = ''Code'', TotalFocusS = 12, SessionCount = 3\<rparr>" by code_simp
  finally show ?thesis .
qed

end
