(* ===== verification/Store.thy ===== *)
theory Store
  imports Values "HOL-Library.Multiset" "HOL-Library.Sublist"
begin

text \<open>
  The document store as the API uses it. The MongoDB driver is not part of the program, so it is a
  parameter: a record of the calls the handlers make, over an abstract collection state \<open>'c\<close> and
  documents \<open>'d\<close>. A filter is a predicate, an update a function on documents, a sort a key. Every
  call can fail (a lost connection, an expired deadline, a violated unique index).

  \<open>driver_laws\<close> is the documented behaviour the code relies on, stated over \<open>held\<close>, the documents
  a collection holds: reads return exactly what matches, a single-document update is atomic, an
  update of many documents touches matching documents only, and after a failed write each matching
  document may be as it was or updated (the write may have reached the server). Times are kept as
  the code has them: that BSON rounds them to milliseconds is not modelled. \<open>list_driver\<close> is a store that never fails; it shows that
  the laws can hold and lets the witnesses run.
\<close>

record ('c, 'd) driver =
  held :: "'c \<Rightarrow> 'd list"
  find_docs :: "'c \<Rightarrow> ('d \<Rightarrow> bool) \<Rightarrow> 'd list option"
  find_one :: "'c \<Rightarrow> ('d \<Rightarrow> bool) \<Rightarrow> ('d \<Rightarrow> int) \<Rightarrow> 'd option"
  insert_one :: "'c \<Rightarrow> 'd \<Rightarrow> 'c \<times> bool"
  update_many :: "'c \<Rightarrow> ('d \<Rightarrow> bool) \<Rightarrow> ('d \<Rightarrow> 'd) \<Rightarrow> 'c \<times> nat option"
  update_one :: "'c \<Rightarrow> ('d \<Rightarrow> bool) \<Rightarrow> ('d \<Rightarrow> 'd) \<Rightarrow> 'c \<times> nat option"
  upsert_one :: "'c \<Rightarrow> ('d \<Rightarrow> bool) \<Rightarrow> ('d \<Rightarrow> 'd) \<Rightarrow> 'd \<Rightarrow> 'c \<times> bool"
  find_update :: "'c \<Rightarrow> ('d \<Rightarrow> bool) \<Rightarrow> ('d \<Rightarrow> int) \<Rightarrow> ('d \<Rightarrow> 'd) \<Rightarrow> 'c \<times> 'd option"
  delete_many :: "'c \<Rightarrow> ('d \<Rightarrow> bool) \<Rightarrow> 'c \<times> nat option"
  delete_one :: "'c \<Rightarrow> ('d \<Rightarrow> bool) \<Rightarrow> 'c \<times> nat option"

text \<open>No document matched or the call failed: \<^verbatim>\<open>FindOne\<close> reports both as an error, and so does
  \<open>find_one\<close>. The sort key of \<open>find_one\<close> and \<open>find_update\<close> is ascending: the least comes first.\<close>

named_theorems store \<open>facts on the document store\<close>

subsection \<open>Atomic effects\<close>

definition touched :: "('d \<Rightarrow> bool) \<Rightarrow> ('d \<Rightarrow> 'd) \<Rightarrow> 'd list \<Rightarrow> 'd list \<Rightarrow> bool" where
  "touched P f = list_all2 (\<lambda>d e. e = d \<or> (P d \<and> e = f d))"

definition one_updated :: "('d \<Rightarrow> bool) \<Rightarrow> ('d \<Rightarrow> 'd) \<Rightarrow> 'd list \<Rightarrow> 'd list \<Rightarrow> 'd \<Rightarrow> bool" where
  "one_updated P f ds ds' d \<longleftrightarrow> (\<exists>as bs. ds = as @ d # bs \<and> ds' = as @ f d # bs \<and> P d)"

definition find_law :: "('c, 'd) driver \<Rightarrow> bool" where
  "find_law D \<longleftrightarrow> (\<forall>c P ds. find_docs D c P = Some ds \<longrightarrow> mset ds = mset (filter P (held D c)))"

definition find_one_law :: "('c, 'd) driver \<Rightarrow> bool" where
  "find_one_law D \<longleftrightarrow> (\<forall>c P key d. find_one D c P key = Some d \<longrightarrow>
     d \<in> set (held D c) \<and> P d \<and> (\<forall>e \<in> set (held D c). P e \<longrightarrow> key d \<le> key e))"

definition insert_law :: "('c, 'd) driver \<Rightarrow> bool" where
  "insert_law D \<longleftrightarrow> (\<forall>c d c' ok. insert_one D c d = (c', ok) \<longrightarrow>
     held D c' = held D c @ [d] \<or> (\<not> ok \<and> held D c' = held D c))"

definition update_many_law :: "('c, 'd) driver \<Rightarrow> bool" where
  "update_many_law D \<longleftrightarrow> (\<forall>c P f c' n. update_many D c P f = (c', n) \<longrightarrow>
     (case n of Some k \<Rightarrow> held D c' = map (\<lambda>d. if P d then f d else d) (held D c)
                    \<and> k = length (filter P (held D c))
      | None \<Rightarrow> touched P f (held D c) (held D c')))"

definition update_one_law :: "('c, 'd) driver \<Rightarrow> bool" where
  "update_one_law D \<longleftrightarrow> (\<forall>c P f c' n. update_one D c P f = (c', n) \<longrightarrow>
     (held D c' = held D c \<and> (n = None \<or> (n = Some 0 \<and> (\<forall>d \<in> set (held D c). \<not> P d))))
     \<or> ((\<exists>d. one_updated P f (held D c) (held D c') d) \<and> n \<noteq> Some 0))"

definition upsert_law :: "('c, 'd) driver \<Rightarrow> bool" where
  "upsert_law D \<longleftrightarrow> (\<forall>c P f d0 c' ok. upsert_one D c P f d0 = (c', ok) \<longrightarrow>
     (held D c' = held D c \<and> \<not> ok)
     \<or> (\<exists>d. one_updated P f (held D c) (held D c') d)
     \<or> ((\<forall>d \<in> set (held D c). \<not> P d) \<and> held D c' = held D c @ [d0]))"

definition find_update_law :: "('c, 'd) driver \<Rightarrow> bool" where
  "find_update_law D \<longleftrightarrow> (\<forall>c P key f c' r. find_update D c P key f = (c', r) \<longrightarrow>
     (case r of None \<Rightarrow> held D c' = held D c \<or> (\<exists>d. one_updated P f (held D c) (held D c') d)
      | Some d' \<Rightarrow> (\<exists>d. one_updated P f (held D c) (held D c') d \<and> d' = f d
                     \<and> (\<forall>e \<in> set (held D c). P e \<longrightarrow> key d \<le> key e))))"

definition delete_law :: "('c, 'd) driver \<Rightarrow> bool" where
  "delete_law D \<longleftrightarrow> (\<forall>c P c' n. delete_many D c P = (c', n) \<longrightarrow>
     (case n of Some k \<Rightarrow> held D c' = filter (\<lambda>d. \<not> P d) (held D c)
      | None \<Rightarrow> subseq (held D c') (held D c) \<and> set (filter (\<lambda>d. \<not> P d) (held D c)) \<subseteq> set (held D c')))"

definition delete_one_law :: "('c, 'd) driver \<Rightarrow> bool" where
  "delete_one_law D \<longleftrightarrow> (\<forall>c P c' n. delete_one D c P = (c', n) \<longrightarrow>
     (held D c' = held D c \<and> (n = None \<or> (n = Some 0 \<and> (\<forall>d \<in> set (held D c). \<not> P d))))
     \<or> ((\<exists>as d bs. held D c = as @ d # bs \<and> held D c' = as @ bs \<and> P d) \<and> n \<noteq> Some 0))"

definition driver_laws :: "('c, 'd) driver \<Rightarrow> bool" where
  "driver_laws D \<longleftrightarrow> find_law D \<and> find_one_law D \<and> insert_law D \<and> update_many_law D \<and> update_one_law D
     \<and> upsert_law D \<and> find_update_law D \<and> delete_law D \<and> delete_one_law D"

subsection \<open>A store over lists\<close>

fun update_first :: "('d \<Rightarrow> bool) \<Rightarrow> ('d \<Rightarrow> 'd) \<Rightarrow> 'd list \<Rightarrow> 'd list" where
  "update_first P f [] = []"
| "update_first P f (d # ds) = (if P d then f d # ds else d # update_first P f ds)"

fun delete_first :: "('d \<Rightarrow> bool) \<Rightarrow> 'd list \<Rightarrow> 'd list" where
  "delete_first P [] = []"
| "delete_first P (d # ds) = (if P d then ds else d # delete_first P ds)"

definition least :: "('d \<Rightarrow> bool) \<Rightarrow> ('d \<Rightarrow> int) \<Rightarrow> 'd list \<Rightarrow> 'd option" where
  "least P key ds = (case sort_key key (filter P ds) of [] \<Rightarrow> None | d # _ \<Rightarrow> Some d)"

definition list_driver :: "('d list, 'd) driver" where
  "list_driver = \<lparr>
     held = (\<lambda>c. c),
     find_docs = (\<lambda>c P. Some (filter P c)),
     find_one = (\<lambda>c P key. least P key c),
     insert_one = (\<lambda>c d. (c @ [d], True)),
     update_many = (\<lambda>c P f. (map (\<lambda>d. if P d then f d else d) c, Some (length (filter P c)))),
     update_one = (\<lambda>c P f. (update_first P f c, Some (if list_ex P c then 1 else 0))),
     upsert_one = (\<lambda>c P f d. if list_ex P c then (update_first P f c, True) else (c @ [d], True)),
     find_update = (\<lambda>c P key f. (case least P key c of
        None \<Rightarrow> (c, None)
      | Some d \<Rightarrow> (update_first (\<lambda>e. P e \<and> key e = key d) f c,
                 map_option f (find (\<lambda>e. P e \<and> key e = key d) c)))),
     delete_many = (\<lambda>c P. (filter (\<lambda>d. \<not> P d) c, Some (length (filter P c)))),
     delete_one = (\<lambda>c P. (delete_first P c, Some (if list_ex P c then 1 else 0))) \<rparr>"

lemma least_Some:
  assumes "least P key ds = Some d"
  shows "d \<in> set ds" "P d" "\<forall>e \<in> set ds. P e \<longrightarrow> key d \<le> key e"
proof -
  obtain rest where s: "sort_key key (filter P ds) = d # rest"
    using assms by (auto simp: least_def split: list.splits)
  have m: "set (sort_key key (filter P ds)) = set (filter P ds)" by simp
  show "d \<in> set ds" "P d" using m unfolding s by auto
  have "sorted (map key (d # rest))" using sorted_sort_key [of key "filter P ds"] s by simp
  then show "\<forall>e \<in> set ds. P e \<longrightarrow> key d \<le> key e" using m unfolding s by auto
qed

lemma update_first_updated:
  "\<exists>d \<in> set ds. P d \<Longrightarrow> \<exists>d. find P ds = Some d \<and> one_updated P f ds (update_first P f ds) d"
proof (induction ds)
  case (Cons x xs)
  show ?case
  proof (cases "P x")
    case True
    then show ?thesis by (auto simp: one_updated_def intro: exI [of _ "[]"])
  next
    case False
    then obtain d as bs where d: "find P xs = Some d" "xs = as @ d # bs" "update_first P f xs = as @ f d # bs" "P d"
      using Cons by (auto simp: one_updated_def)
    have "x # xs = (x # as) @ d # bs \<and> x # update_first P f xs = (x # as) @ f d # bs \<and> P d" using d by simp
    then show ?thesis using False d(1) unfolding one_updated_def by (metis find.simps(2) update_first.simps(2))
  qed
qed simp

lemma update_first_none: "\<forall>d \<in> set ds. \<not> P d \<Longrightarrow> update_first P f ds = ds"
  by (induction ds) auto

lemma one_updated_weaken: "one_updated P f ds ds' d \<Longrightarrow> (\<And>d. P d \<Longrightarrow> Q d) \<Longrightarrow> one_updated Q f ds ds' d"
  by (auto simp: one_updated_def)

lemma list_driver_ops [simp]:
  "held list_driver c = c"
  "find_docs list_driver c P = Some (filter P c)"
  "find_one list_driver c P key = least P key c"
  "insert_one list_driver c d = (c @ [d], True)"
  "update_many list_driver c P f = (map (\<lambda>d. if P d then f d else d) c, Some (length (filter P c)))"
  "update_one list_driver c P f = (update_first P f c, Some (if list_ex P c then 1 else 0))"
  "delete_many list_driver c P = (filter (\<lambda>d. \<not> P d) c, Some (length (filter P c)))"
  "delete_one list_driver c P = (delete_first P c, Some (if list_ex P c then 1 else 0))"
  by (simp_all add: list_driver_def)

lemma list_update_one_law: "update_one_law list_driver"
  unfolding update_one_law_def
proof (intro allI impI)
  fix c :: "'a list" and P f c' n
  assume "update_one list_driver c P f = (c', n)"
  then have c: "c' = update_first P f c" "n = Some (if list_ex P c then 1 else 0)" by simp_all
  show "(held list_driver c' = held list_driver c \<and> (n = None \<or> (n = Some 0 \<and> (\<forall>d \<in> set (held list_driver c). \<not> P d))))
      \<or> ((\<exists>d. one_updated P f (held list_driver c) (held list_driver c') d) \<and> n \<noteq> Some 0)"
  proof (cases "\<exists>d \<in> set c. P d")
    case True
    then show ?thesis using update_first_updated [OF True, of f] c by (auto simp: list_ex_iff)
  next
    case False
    then have "\<forall>d \<in> set c. \<not> P d" by blast
    then show ?thesis using c update_first_none [of c P f] by (simp add: list_ex_iff)
  qed
qed

lemma delete_first_splits:
  "list_ex P ds \<Longrightarrow> \<exists>as d bs. ds = as @ d # bs \<and> delete_first P ds = as @ bs \<and> P d"
proof (induction ds)
  case (Cons x xs)
  show ?case
  proof (cases "P x")
    case True
    then have "x # xs = [] @ x # xs \<and> delete_first P (x # xs) = [] @ xs \<and> P x" by simp
    then show ?thesis by blast
  next
    case False
    then obtain as d bs where "xs = as @ d # bs" "delete_first P xs = as @ bs" "P d" using Cons by auto
    then have "x # xs = (x # as) @ d # bs \<and> delete_first P (x # xs) = (x # as) @ bs \<and> P d" using False by simp
    then show ?thesis by blast
  qed
qed simp

lemma delete_first_none: "\<not> list_ex P ds \<Longrightarrow> delete_first P ds = ds"
  by (induction ds) auto

lemma list_delete_one_law: "delete_one_law list_driver"
  unfolding delete_one_law_def list_driver_ops
proof (intro allI impI)
  fix c :: "'a list" and P c' and n :: "nat option"
  assume "(delete_first P c, Some (if list_ex P c then 1 else 0)) = (c', n)"
  then show "(c' = c \<and> (n = None \<or> (n = Some 0 \<and> (\<forall>d \<in> set c. \<not> P d))))
      \<or> ((\<exists>as d bs. c = as @ d # bs \<and> c' = as @ bs \<and> P d) \<and> n \<noteq> Some 0)"
    using delete_first_splits [of P c] delete_first_none [of P c] by (cases "list_ex P c") (auto simp: list_ex_iff)
qed

lemma list_upsert_law: "upsert_law list_driver"
  unfolding upsert_law_def
proof (intro allI impI)
  fix c :: "'a list" and P f d0 c' ok
  assume u: "upsert_one list_driver c P f d0 = (c', ok)"
  show "(held list_driver c' = held list_driver c \<and> \<not> ok)
      \<or> (\<exists>d. one_updated P f (held list_driver c) (held list_driver c') d)
      \<or> ((\<forall>d \<in> set (held list_driver c). \<not> P d) \<and> held list_driver c' = held list_driver c @ [d0])"
  proof (cases "\<exists>d \<in> set c. P d")
    case True
    then have "c' = update_first P f c" using u by (simp add: list_driver_def list_ex_iff)
    then show ?thesis using update_first_updated [OF True, of f] by auto
  next
    case False
    then have "c' = c @ [d0]" using u by (simp add: list_driver_def list_ex_iff)
    then show ?thesis using False by simp
  qed
qed

lemma list_find_update_law: "find_update_law list_driver"
  unfolding find_update_law_def
proof (intro allI impI)
  fix c :: "'a list" and P key f c' r
  assume fu: "find_update list_driver c P key f = (c', r)"
  show "case r of None \<Rightarrow> held list_driver c' = held list_driver c \<or> (\<exists>d. one_updated P f (held list_driver c) (held list_driver c') d)
         | Some d' \<Rightarrow> (\<exists>d. one_updated P f (held list_driver c) (held list_driver c') d \<and> d' = f d
                     \<and> (\<forall>e \<in> set (held list_driver c). P e \<longrightarrow> key d \<le> key e))"
  proof (cases "least P key c")
    case None
    then have "c' = c" "r = None" using fu by (simp_all add: list_driver_def)
    then show ?thesis by simp
  next
    case (Some d)
    let ?Q = "\<lambda>e. P e \<and> key e = key d"
    have ex: "\<exists>e \<in> set c. ?Q e" using least_Some [OF Some] by blast
    obtain e where e: "find ?Q c = Some e" "one_updated ?Q f c (update_first ?Q f c) e"
      using update_first_updated [OF ex, of f] by (elim exE conjE)
    have "c' = update_first ?Q f c" "r = Some (f e)" using fu Some e(1) by (simp_all add: list_driver_def)
    moreover have "key e = key d" using e(2) by (auto simp: one_updated_def)
    ultimately show ?thesis using one_updated_weaken [OF e(2), of P] least_Some [OF Some] by auto
  qed
qed

theorem list_driver_laws: "driver_laws list_driver"
proof -
  have "find_law list_driver" "insert_law list_driver" "update_many_law list_driver" "delete_law list_driver"
    by (simp_all add: find_law_def insert_law_def update_many_law_def delete_law_def)
  moreover have "find_one_law list_driver"
    unfolding find_one_law_def list_driver_ops by (intro allI impI conjI) (erule least_Some)+
  ultimately show ?thesis
    using list_update_one_law list_upsert_law list_find_update_law list_delete_one_law by (simp add: driver_laws_def)
qed

subsection \<open>Consequences\<close>

lemma one_updated_set:
  "one_updated P f ds ds' d \<Longrightarrow> d \<in> set ds \<and> f d \<in> set ds' \<and> P d \<and> set ds' \<subseteq> insert (f d) (set ds)"
  by (auto simp: one_updated_def)

lemma one_updated_mset: "one_updated P f ds ds' d \<Longrightarrow> mset ds' = mset ds - {#d#} + {#f d#}"
  by (auto simp: one_updated_def)

lemma driver_find [store]:
  "driver_laws D \<Longrightarrow> find_docs D c P = Some ds \<Longrightarrow> mset ds = mset (filter P (held D c))"
  unfolding driver_laws_def find_law_def by (elim conjE) blast

lemma driver_find_one [store]:
  "driver_laws D \<Longrightarrow> find_one D c P key = Some d \<Longrightarrow>
     d \<in> set (held D c) \<and> P d \<and> (\<forall>e \<in> set (held D c). P e \<longrightarrow> key d \<le> key e)"
  unfolding driver_laws_def find_one_law_def by (elim conjE) blast

lemma driver_insert [store]:
  "driver_laws D \<Longrightarrow> insert_one D c d = (c', ok) \<Longrightarrow>
     held D c' = held D c @ [d] \<or> (\<not> ok \<and> held D c' = held D c)"
  unfolding driver_laws_def insert_law_def by (elim conjE) blast

lemma driver_update_many [store]:
  "driver_laws D \<Longrightarrow> update_many D c P f = (c', n) \<Longrightarrow>
     (case n of Some k \<Rightarrow> held D c' = map (\<lambda>d. if P d then f d else d) (held D c) \<and> k = length (filter P (held D c))
      | None \<Rightarrow> touched P f (held D c) (held D c'))"
  unfolding driver_laws_def update_many_law_def by (elim conjE) blast

lemma driver_update_one [store]:
  "driver_laws D \<Longrightarrow> update_one D c P f = (c', n) \<Longrightarrow>
     (held D c' = held D c \<and> (n = None \<or> (n = Some 0 \<and> (\<forall>d \<in> set (held D c). \<not> P d))))
     \<or> ((\<exists>d. one_updated P f (held D c) (held D c') d) \<and> n \<noteq> Some 0)"
  unfolding driver_laws_def update_one_law_def by (elim conjE) blast

lemma driver_find_update [store]:
  "driver_laws D \<Longrightarrow> find_update D c P key f = (c', r) \<Longrightarrow>
     (case r of None \<Rightarrow> held D c' = held D c \<or> (\<exists>d. one_updated P f (held D c) (held D c') d)
      | Some d' \<Rightarrow> (\<exists>d. one_updated P f (held D c) (held D c') d \<and> d' = f d
                     \<and> (\<forall>e \<in> set (held D c). P e \<longrightarrow> key d \<le> key e)))"
  unfolding driver_laws_def find_update_law_def by (elim conjE) blast

lemma driver_upsert [store]:
  "driver_laws D \<Longrightarrow> upsert_one D c P f d0 = (c', ok) \<Longrightarrow>
     (held D c' = held D c \<and> \<not> ok) \<or> (\<exists>d. one_updated P f (held D c) (held D c') d)
     \<or> ((\<forall>d \<in> set (held D c). \<not> P d) \<and> held D c' = held D c @ [d0])"
  unfolding driver_laws_def upsert_law_def by (elim conjE) blast

lemma driver_delete [store]:
  "driver_laws D \<Longrightarrow> delete_many D c P = (c', n) \<Longrightarrow>
     (case n of Some k \<Rightarrow> held D c' = filter (\<lambda>d. \<not> P d) (held D c)
      | None \<Rightarrow> subseq (held D c') (held D c) \<and> set (filter (\<lambda>d. \<not> P d) (held D c)) \<subseteq> set (held D c'))"
  unfolding driver_laws_def delete_law_def by (elim conjE) blast
lemma driver_delete_one [store]:
  "driver_laws D \<Longrightarrow> delete_one D c P = (c', n) \<Longrightarrow>
     (held D c' = held D c \<and> (n = None \<or> (n = Some 0 \<and> (\<forall>d \<in> set (held D c). \<not> P d))))
     \<or> ((\<exists>as d bs. held D c = as @ d # bs \<and> held D c' = as @ bs \<and> P d) \<and> n \<noteq> Some 0)"
  unfolding driver_laws_def delete_one_law_def by (elim conjE) blast

lemma one_updated_filter:
  assumes "one_updated P f ds ds' d" "\<And>x. Q (f x) = Q x"
  shows "length (filter Q ds') = length (filter Q ds)"
  using assms by (auto simp: one_updated_def)

text \<open>At most one document answers the filter, as a unique index promises.\<close>

definition at_most_one :: "('c, 'd) driver \<Rightarrow> 'c \<Rightarrow> ('d \<Rightarrow> bool) \<Rightarrow> bool" where
  "at_most_one D c P \<longleftrightarrow> length (filter P (held D c)) \<le> 1"

lemma update_one_at_most_one:
  assumes "driver_laws D" "update_one D c P f = (c', n)" "\<And>x. Q (f x) = Q x" "at_most_one D c Q"
  shows "at_most_one D c' Q"
  using driver_update_one [OF assms(1,2)] one_updated_filter [of P f _ _ _ Q] assms(3,4)
  by (auto simp: at_most_one_def)

lemma at_most_oneD:
  "at_most_one D c P \<Longrightarrow> held D c = as @ d # bs \<Longrightarrow> P d \<Longrightarrow> e \<in> set as \<union> set bs \<Longrightarrow> \<not> P e"
  by (auto simp: at_most_one_def filter_empty_conv)

lemma at_most_one_eq:
  assumes "at_most_one D c P" "d \<in> set (held D c)" "P d" "e \<in> set (held D c)" "P e"
  shows "d = e"
proof -
  have "d \<in> set (filter P (held D c))" "e \<in> set (filter P (held D c))" using assms(2-5) by simp_all
  then show ?thesis using assms(1) by (cases "filter P (held D c)") (auto simp: at_most_one_def)
qed

text \<open>A unique document that matched is the updated one; nothing else matches afterwards.\<close>

lemma update_unique:
  assumes "driver_laws D" "update_one D c P f = (c', Some n)" "at_most_one D c P" "d \<in> set (held D c)" "P d"
    "e \<in> set (held D c')" "P e"
  shows "e = f d"
proof -
  obtain x as bs where x: "held D c = as @ x # bs" "held D c' = as @ f x # bs" "P x"
    using driver_update_one [OF assms(1,2)] assms(4,5) by (auto simp: one_updated_def)
  have "y \<in> set as \<union> set bs \<Longrightarrow> \<not> P y" for y using at_most_oneD [OF assms(3) x(1,3)] by blast
  then show ?thesis using x assms(4-7) by auto
qed

end
