(* ===== verification/Policy.thy ===== *)
theory Policy
  imports Values
begin

text \<open>
  The fleet policy of \<^verbatim>\<open>api/main.go\<close>: the defaults, normalisation of what a client or the
  database supplies, the store with its audit fields, and the handler of \<^verbatim>\<open>/policy\<close>. The
  request's body is what the JSON decoder made of it (\<open>None\<close> where it failed).
\<close>

named_theorems policy \<open>facts on the fleet policy\<close>

subsection \<open>Responses\<close>

text \<open>What a handler writes: an error text, a JSON body, or a bare status.\<close>

datatype response =
    HttpError nat string
  | Json nat val
  | Status nat

fun status_of :: "response \<Rightarrow> nat" where
  "status_of (HttpError c _) = c"
| "status_of (Json c _) = c"
| "status_of (Status c) = c"

text \<open>An entry for the audit log: the action, its target and a detail.\<close>

type_synonym audit = "string \<times> string \<times> string"

subsection \<open>The policy\<close>

definition defaultPolicy :: obj where
  "defaultPolicy =
    [(''sync_interval_seconds'', Int_v 10),
     (''telemetry_retention_days'', Int_v 30),
     (''delta_upload_enabled'', Bool_v True),
     (''cache_unchanged_collector_data'', Bool_v True),
     (''browser_history_mode'', Str ''full_url''),
     (''browser_history_limit'', Int_v 200),
     (''collect_system_info'', Bool_v True),
     (''collect_hardware_stats'', Bool_v True),
     (''collect_processes'', Bool_v True),
     (''collect_browser_history'', Bool_v True),
     (''collect_active_window'', Bool_v True),
     (''collect_services'', Bool_v True),
     (''collect_network_ports'', Bool_v True),
     (''collect_installed_apps'', Bool_v True),
     (''collect_os_updates'', Bool_v True),
     (''collect_usb_devices'', Bool_v True)]"

definition policy_flags :: "string list" where
  "policy_flags =
    [''delta_upload_enabled'', ''cache_unchanged_collector_data'', ''collect_system_info'',
     ''collect_hardware_stats'', ''collect_processes'', ''collect_browser_history'',
     ''collect_active_window'', ''collect_services'', ''collect_network_ports'',
     ''collect_installed_apps'', ''collect_os_updates'', ''collect_usb_devices'']"

definition clampNumber :: "string \<Rightarrow> float64 \<Rightarrow> float64 \<Rightarrow> obj \<Rightarrow> obj" where
  "clampNumber key lo hi policy =
     (case toFloat (get policy key) of
        None \<Rightarrow> al_upd key (get defaultPolicy key) policy
      | Some v0 \<Rightarrow>
          let v1 = (if v0 < lo then lo else v0); v = (if v1 > hi then hi else v1)
          in al_upd key (F64 v) policy)"

definition take_known :: "obj \<Rightarrow> obj \<Rightarrow> obj" where
  "take_known input policy =
     map (\<lambda>(k, d). (k, (case map_of input k of Some v \<Rightarrow> v | None \<Rightarrow> d))) policy"

definition fix_mode :: "obj \<Rightarrow> obj" where
  "fix_mode policy =
     (if str_of (get policy ''browser_history_mode'') \<in> {''disabled'', ''domain_only'', ''full_url''}
      then policy else al_upd ''browser_history_mode'' (Str ''disabled'') policy)"

definition fix_flag :: "obj \<Rightarrow> string \<Rightarrow> obj" where
  "fix_flag policy key =
     (if as_bool (get policy key) = None then al_upd key (get defaultPolicy key) policy else policy)"

definition normalizePolicy :: "obj \<Rightarrow> obj" where
  "normalizePolicy input =
     (let policy0 = take_known input defaultPolicy;
          policy1 = clampNumber ''sync_interval_seconds'' 10 3600 policy0;
          policy2 = clampNumber ''telemetry_retention_days'' 1 3650 policy1;
          policy3 = clampNumber ''browser_history_limit'' 0 5000 policy2
      in foldl fix_flag (fix_mode policy3) policy_flags)"

subsection \<open>The store and its handler\<close>

record policy_store =
  config :: obj
  updatedBy :: string
  updatedAt :: string

definition globalPolicy :: policy_store where
  "globalPolicy = \<lparr>config = defaultPolicy, updatedBy = [], updatedAt = []\<rparr>"

definition currentRetentionDays :: "policy_store \<Rightarrow> int" where
  "currentRetentionDays st =
     (case toFloat (get (config st) ''telemetry_retention_days'') of
        None \<Rightarrow> 30
      | Some days \<Rightarrow> if days < 1 then 30 else f2i days)"

definition with_audit :: "policy_store \<Rightarrow> obj" where
  "with_audit st =
     (if updatedAt st \<noteq> []
      then al_upd ''updated_at'' (Str (updatedAt st)) (al_upd ''updated_by'' (Str (updatedBy st)) (config st))
      else config st)"

text \<open>\<^verbatim>\<open>for k, v := range b { a[k] = v }\<close>.\<close>

definition merge_into :: "obj \<Rightarrow> obj \<Rightarrow> obj" where
  "merge_into a b = foldl (\<lambda>m (k, v). al_upd k v m) a b"

definition policyHandler ::
  "string \<Rightarrow> string \<Rightarrow> obj option \<Rightarrow> string option \<Rightarrow> gotime \<Rightarrow> policy_store
     \<Rightarrow> response \<times> policy_store \<times> obj option \<times> audit list" where
  "policyHandler method apiKey body user now st =
     (if method = ''GET''
      then (Json 200 (Obj (if apiKey = [] then with_audit st else config st)), st, None, [])
      else if method = ''POST''
      then (case body of
              None \<Rightarrow> (HttpError 400 ''Bad JSON'', st, None, [])
            | Some newConfig \<Rightarrow>
                let st1 = st\<lparr>config := normalizePolicy (merge_into (config st) newConfig)\<rparr>;
                    st2 = (case user of
                             Some email \<Rightarrow> st1\<lparr>updatedBy := email, updatedAt := rfc3339_sec_str (utc now)\<rparr>
                           | None \<Rightarrow> st1)
                in (Status 200, st2, Some (with_audit st2), [(''policy.updated'', ''fleet policy'', [])]))
      else (HttpError 405 ''Method not allowed'', st, None, []))"

text \<open>\<open>doc\<close> is the saved document, if there is one; saving merges into it (\<^verbatim>\<open>$set\<close>, upsert).\<close>

definition loadPolicyFromMongo :: "obj option \<Rightarrow> policy_store \<Rightarrow> policy_store" where
  "loadPolicyFromMongo doc st =
     (case doc of None \<Rightarrow> st
      | Some d0 \<Rightarrow>
          let d = al_del ''_id'' d0
          in \<lparr>config = normalizePolicy d, updatedBy = str_of (get d ''updated_by''),
              updatedAt = str_of (get d ''updated_at'')\<rparr>)"

definition savePolicyToMongo :: "obj \<Rightarrow> obj option \<Rightarrow> obj option" where
  "savePolicyToMongo cfg doc =
     Some (merge_into (case doc of Some d \<Rightarrow> d | None \<Rightarrow> [(''_id'', Str ''global_policy'')]) cfg)"

subsection \<open>What a policy promises\<close>

definition num_in :: "obj \<Rightarrow> string \<Rightarrow> float64 \<Rightarrow> float64 \<Rightarrow> bool" where
  "num_in m k lo hi \<longleftrightarrow> (\<exists>x. toFloat (get m k) = Some x \<and> lo \<le> x \<and> x \<le> hi)"

definition valid_policy :: "obj \<Rightarrow> bool" where
  "valid_policy m \<longleftrightarrow> map fst m = map fst defaultPolicy
     \<and> num_in m ''sync_interval_seconds'' 10 3600
     \<and> num_in m ''telemetry_retention_days'' 1 3650
     \<and> num_in m ''browser_history_limit'' 0 5000
     \<and> get m ''browser_history_mode'' \<in> {Str ''disabled'', Str ''domain_only'', Str ''full_url''}
     \<and> (\<forall>k \<in> set policy_flags. \<exists>b. get m k = Bool_v b)"

lemma upd_known_keys [policy]: "k \<in> set (map fst m) \<Longrightarrow> map fst (al_upd k v m) = map fst m"
  by (induction k v m rule: al_upd.induct) auto

lemma take_known_keys: "map fst (take_known input m) = map fst m"
  by (simp add: take_known_def case_prod_beta comp_def)

definition known :: "obj \<Rightarrow> bool" where
  "known m \<longleftrightarrow> map fst m = map fst defaultPolicy"

lemma known_upd: "known m \<Longrightarrow> k \<in> fst ` set defaultPolicy \<Longrightarrow> known (al_upd k v m)"
  using upd_known_keys [of k m v] by (metis known_def list.set_map)

lemma default_number:
  "get defaultPolicy ''sync_interval_seconds'' = Int_v 10"
  "get defaultPolicy ''telemetry_retention_days'' = Int_v 30"
  "get defaultPolicy ''browser_history_limit'' = Int_v 200"
  by (simp_all add: defaultPolicy_def)

lemma clamp_known:
  "known m \<Longrightarrow> k \<in> fst ` set defaultPolicy \<Longrightarrow> known (clampNumber k lo hi m)"
  by (auto simp: clampNumber_def Let_def known_upd split: option.split)

lemma clamp_other: "k' \<noteq> k \<Longrightarrow> get (clampNumber k lo hi m) k' = get m k'"
  by (auto simp: clampNumber_def Let_def split: option.split)

lemma clamp_in:
  "lo \<le> hi \<Longrightarrow> num_in defaultPolicy k lo hi \<Longrightarrow> num_in (clampNumber k lo hi m) k lo hi"
  by (auto simp: clampNumber_def Let_def num_in_def split: option.split)

lemma clamp_id:
  "num_in m k lo hi \<Longrightarrow> toFloat (get (clampNumber k lo hi m) k) = toFloat (get m k)"
  by (auto simp: clampNumber_def Let_def num_in_def)

lemma fix_mode_other: "k \<noteq> ''browser_history_mode'' \<Longrightarrow> get (fix_mode m) k = get m k"
  by (simp add: fix_mode_def)

lemma fix_mode_known: "known m \<Longrightarrow> known (fix_mode m)"
  using known_upd [of m "''browser_history_mode''" "Str ''disabled''"]
  by (simp add: fix_mode_def) (simp add: defaultPolicy_def)

lemma fix_mode_ok:
  "get (fix_mode m) ''browser_history_mode'' \<in> {Str ''disabled'', Str ''domain_only'', Str ''full_url''}"
  by (auto simp: fix_mode_def str_of_def split: option.splits)

lemma fix_flag_other: "k' \<noteq> k \<Longrightarrow> get (fix_flag m k) k' = get m k'"
  by (simp add: fix_flag_def)

lemma flags_default: "set policy_flags \<subseteq> fst ` set defaultPolicy"
proof -
  have "list_all (\<lambda>k. k \<in> set (map fst defaultPolicy)) policy_flags" by code_simp
  then show ?thesis by (auto simp: list_all_iff)
qed

lemma fix_flag_known: "known m \<Longrightarrow> k \<in> set policy_flags \<Longrightarrow> known (fix_flag m k)"
  using known_upd [of m k "get defaultPolicy k"] subsetD [OF flags_default] by (simp add: fix_flag_def)

lemma default_flag: "k \<in> set policy_flags \<Longrightarrow> get defaultPolicy k = Bool_v True"
  by (auto simp: defaultPolicy_def policy_flags_def)

lemma fix_flag_ok: "k \<in> set policy_flags \<Longrightarrow> \<exists>b. get (fix_flag m k) k = Bool_v b"
  by (auto simp: fix_flag_def default_flag)

lemma fix_flag_keeps: "(\<exists>b. get m k = Bool_v b) \<Longrightarrow> get (fix_flag m k') k = get m k"
  by (auto simp: fix_flag_def)

lemma fix_flags:
  "known m \<Longrightarrow> set ks \<subseteq> set policy_flags \<Longrightarrow>
     known (foldl fix_flag m ks)
     \<and> (\<forall>k. k \<notin> set ks \<longrightarrow> get (foldl fix_flag m ks) k = get m k)
     \<and> (\<forall>k. (k \<in> set ks \<or> (\<exists>b. get m k = Bool_v b)) \<longrightarrow> (\<exists>b. get (foldl fix_flag m ks) k = Bool_v b))
     \<and> (\<forall>k. (\<exists>b. get m k = Bool_v b) \<longrightarrow> get (foldl fix_flag m ks) k = get m k)"
proof (induction ks arbitrary: m)
  case (Cons k ks)
  have k: "k \<in> set policy_flags" and ks: "set ks \<subseteq> set policy_flags" using Cons.prems by auto
  note IH = Cons.IH [OF fix_flag_known [OF Cons.prems(1) k] ks]
  show ?case
  proof (intro conjI allI impI)
    show "known (foldl fix_flag m (k # ks))" using IH by simp
    fix x
    show "get (foldl fix_flag m (k # ks)) x = get m x" if "x \<notin> set (k # ks)"
      using IH that fix_flag_other [of x k m] by auto
    show "\<exists>b. get (foldl fix_flag m (k # ks)) x = Bool_v b" if "x \<in> set (k # ks) \<or> (\<exists>b. get m x = Bool_v b)"
    proof (cases "x \<in> set ks")
      case False
      then have "\<exists>b. get (fix_flag m k) x = Bool_v b" using that fix_flag_ok [OF k] fix_flag_keeps by auto
      then show ?thesis using IH by simp
    qed (use IH in simp)
    show "get (foldl fix_flag m (k # ks)) x = get m x" if "\<exists>b. get m x = Bool_v b"
      using that IH fix_flag_keeps [of m x k] by auto
  qed
qed simp

definition policy_numbers :: "string list" where
  "policy_numbers = [''sync_interval_seconds'', ''telemetry_retention_days'', ''browser_history_limit'']"

lemma flags_apart:
  "k \<in> set policy_flags \<Longrightarrow> k \<noteq> ''browser_history_mode'' \<and> k \<notin> set policy_numbers"
  by (auto simp: policy_flags_def policy_numbers_def)

lemma numbers_default:
  "num_in defaultPolicy ''sync_interval_seconds'' 10 3600"
  "num_in defaultPolicy ''telemetry_retention_days'' 1 3650"
  "num_in defaultPolicy ''browser_history_limit'' 0 5000"
  by (simp_all add: num_in_def default_number i2f_exact)

lemma default_keys:
  "''sync_interval_seconds'' \<in> fst ` set defaultPolicy"
  "''telemetry_retention_days'' \<in> fst ` set defaultPolicy"
  "''browser_history_limit'' \<in> fst ` set defaultPolicy"
  by (simp_all add: defaultPolicy_def)

text \<open>What the last two stages leave untouched.\<close>

definition clamped :: "obj \<Rightarrow> obj" where
  "clamped m = clampNumber ''browser_history_limit'' 0 5000
     (clampNumber ''telemetry_retention_days'' 1 3650
       (clampNumber ''sync_interval_seconds'' 10 3600 (take_known m defaultPolicy)))"

lemma normalize_stages: "normalizePolicy m = foldl fix_flag (fix_mode (clamped m)) policy_flags"
  by (simp add: normalizePolicy_def clamped_def Let_def)

lemma clamped_facts:
  "known (clamped m)"
  "num_in (clamped m) ''sync_interval_seconds'' 10 3600"
  "num_in (clamped m) ''telemetry_retention_days'' 1 3650"
  "num_in (clamped m) ''browser_history_limit'' 0 5000"
proof -
  have "known (take_known m defaultPolicy)" by (simp add: known_def take_known_keys)
  then show "known (clamped m)" unfolding clamped_def by (intro clamp_known default_keys)
  show "num_in (clamped m) ''sync_interval_seconds'' 10 3600"
    using clamp_in [OF _ numbers_default(1)] by (simp add: clamped_def num_in_def clamp_other)
  show "num_in (clamped m) ''telemetry_retention_days'' 1 3650"
    using clamp_in [OF _ numbers_default(2)] by (simp add: clamped_def num_in_def clamp_other)
  show "num_in (clamped m) ''browser_history_limit'' 0 5000"
    using clamp_in [OF _ numbers_default(3)] by (simp add: clamped_def)
qed

lemma normalize_other:
  assumes "k \<notin> set policy_flags" "k \<noteq> ''browser_history_mode''"
  shows "get (normalizePolicy m) k = get (clamped m) k"
  using fix_flags [OF fix_mode_known [OF clamped_facts(1)] order_refl, of m] assms
  by (simp add: normalize_stages fix_mode_other)

lemma normalizePolicy_valid: "valid_policy (normalizePolicy m)"
proof -
  note fx = fix_flags [OF fix_mode_known [OF clamped_facts(1)] order_refl, of m, folded normalize_stages]
  have "get (normalizePolicy m) ''browser_history_mode'' = get (fix_mode (clamped m)) ''browser_history_mode''"
    using fx flags_apart by blast
  then have "get (normalizePolicy m) ''browser_history_mode'' \<in> {Str ''disabled'', Str ''domain_only'', Str ''full_url''}"
    using fix_mode_ok by simp
  moreover have "k \<notin> set policy_flags \<and> k \<noteq> ''browser_history_mode''" if "k \<in> set policy_numbers" for k
    using that by (auto simp: policy_flags_def policy_numbers_def)
  ultimately show ?thesis
    using fx clamped_facts [of m] normalize_other [of _ m]
    by (auto simp: valid_policy_def known_def num_in_def policy_numbers_def)
qed


lemma numbers_apart: "k \<in> set policy_numbers \<Longrightarrow> k \<notin> set policy_flags \<and> k \<noteq> ''browser_history_mode''"
  by (auto simp: policy_flags_def policy_numbers_def)

lemma take_known_get:
  "k \<in> fst ` set d \<Longrightarrow> k \<in> fst ` set m \<Longrightarrow> get (take_known m d) k = get m k"
proof -
  assume d: "k \<in> fst ` set d" and m: "k \<in> fst ` set m"
  obtain v where v: "map_of m k = Some v" using m by (cases "map_of m k") (auto simp: map_of_eq_None_iff)
  have "map_of (take_known m d) k = Some v" using d v by (induction d) (auto simp: take_known_def)
  then show ?thesis using v by (simp add: get_def)
qed

text \<open>C9. Whatever a client or the database supplies, the normalised policy has exactly the known
  keys, numbers inside their limits, a known browser-history mode and Boolean switches; and
  normalising a valid policy changes no setting.\<close>

theorem normalized_policy_valid:
  "valid_policy (normalizePolicy input)
   \<and> (valid_policy input \<longrightarrow>
       (\<forall>k \<in> set policy_numbers. toFloat (get (normalizePolicy input) k) = toFloat (get input k))
       \<and> (\<forall>k \<in> set (''browser_history_mode'' # policy_flags). get (normalizePolicy input) k = get input k))"
proof (intro conjI impI)
  assume v: "valid_policy input"
  have keys: "fst ` set input = fst ` set defaultPolicy" using v by (metis list.set_map valid_policy_def)
  have tk: "get (take_known input defaultPolicy) k = get input k" if "k \<in> fst ` set defaultPolicy" for k
    by (rule take_known_get [OF that]) (simp add: keys that)
  let ?t = "take_known input defaultPolicy"
  have "toFloat (get (clamped input) ''sync_interval_seconds'') = toFloat (get input ''sync_interval_seconds'')"
    using clamp_id [of ?t "''sync_interval_seconds''" 10 3600] v tk [OF default_keys(1)]
    by (simp add: clamped_def clamp_other valid_policy_def num_in_def)
  moreover have "toFloat (get (clamped input) ''telemetry_retention_days'') = toFloat (get input ''telemetry_retention_days'')"
    using clamp_id [of "clampNumber ''sync_interval_seconds'' 10 3600 ?t" "''telemetry_retention_days''" 1 3650]
      v tk [OF default_keys(2)] by (simp add: clamped_def clamp_other valid_policy_def num_in_def)
  moreover have "toFloat (get (clamped input) ''browser_history_limit'') = toFloat (get input ''browser_history_limit'')"
    using clamp_id [of "clampNumber ''telemetry_retention_days'' 1 3650 (clampNumber ''sync_interval_seconds'' 10 3600 ?t)"
        "''browser_history_limit''" 0 5000] v tk [OF default_keys(3)]
    by (simp add: clamped_def clamp_other valid_policy_def num_in_def)
  ultimately have num: "toFloat (get (clamped input) k) = toFloat (get input k)" if "k \<in> set policy_numbers" for k
    using that by (auto simp: policy_numbers_def)
  then show "\<forall>k \<in> set policy_numbers. toFloat (get (normalizePolicy input) k) = toFloat (get input k)"
    using normalize_other numbers_apart by fastforce
  have keep: "get (clamped input) k = get input k" if "k \<in> fst ` set defaultPolicy" "k \<notin> set policy_numbers" for k
    using that tk by (simp add: clamped_def clamp_other policy_numbers_def)
  have mode: "get (fix_mode (clamped input)) ''browser_history_mode'' = get input ''browser_history_mode''"
    using v keep [of "''browser_history_mode''"]
    by (auto simp: valid_policy_def fix_mode_def policy_numbers_def defaultPolicy_def)
  note fx = fix_flags [OF fix_mode_known [OF clamped_facts(1)] order_refl, of input, folded normalize_stages]
  have "get (normalizePolicy input) k = get input k" if k: "k \<in> set policy_flags" for k
  proof -
    have "get (fix_mode (clamped input)) k = get input k"
      using keep [of k] k flags_default flags_apart [OF k] by (auto simp: fix_mode_other)
    moreover have "\<exists>b. get input k = Bool_v b" using v k by (simp add: valid_policy_def)
    ultimately show ?thesis using fx by metis
  qed
  moreover have "get (normalizePolicy input) ''browser_history_mode'' = get input ''browser_history_mode''"
    using fx flags_apart mode by metis
  ultimately show "\<forall>k \<in> set (''browser_history_mode'' # policy_flags). get (normalizePolicy input) k = get input k"
    by simp
qed (rule normalizePolicy_valid)

theorem normalized_policy_valid_witness:
  "toFloat (get (normalizePolicy (normalizePolicy [(''sync_interval_seconds'', F64 1), (''junk'', Nil_v)]))
     ''sync_interval_seconds'') = Some 10"
proof -
  let ?p = "normalizePolicy [(''sync_interval_seconds'', F64 1), (''junk'', Nil_v)]"
  have "toFloat (get (normalizePolicy ?p) ''sync_interval_seconds'') = toFloat (get ?p ''sync_interval_seconds'')"
    using normalized_policy_valid [of ?p] normalizePolicy_valid by (simp add: policy_numbers_def)
  also have "\<dots> = Some 10" by code_simp
  finally show ?thesis .
qed

subsection \<open>The policy over time\<close>

text \<open>The states the store passes through: requests to the handler and reloads from the database.\<close>

inductive policy_reachable :: "policy_store \<Rightarrow> bool" where
  start: "policy_reachable globalPolicy"
| request: "policy_reachable st \<Longrightarrow> policyHandler meth key body user now st = (resp, st', saved, aud)
     \<Longrightarrow> policy_reachable st'"
| load: "policy_reachable st \<Longrightarrow> policy_reachable (loadPolicyFromMongo doc st)"

lemma default_valid: "valid_policy defaultPolicy"
proof -
  have "get defaultPolicy ''browser_history_mode'' = Str ''full_url''" by (simp add: defaultPolicy_def)
  then show ?thesis using numbers_default default_flag by (auto simp: valid_policy_def)
qed

lemma policy_reachable_valid: "policy_reachable st \<Longrightarrow> valid_policy (config st)"
proof (induction rule: policy_reachable.induct)
  case start
  then show ?case by (simp add: globalPolicy_def default_valid)
next
  case (request st meth key body user now resp st' saved aud)
  then show ?case
    by (auto simp: policyHandler_def Let_def normalizePolicy_valid split: if_splits option.splits)
next
  case (load st doc)
  then show ?case by (auto simp: loadPolicyFromMongo_def Let_def normalizePolicy_valid split: option.split)
qed

lemma retention_of_valid: "valid_policy (config st) \<Longrightarrow> 1 \<le> currentRetentionDays st \<and> currentRetentionDays st \<le> 3650"
proof -
  assume "valid_policy (config st)"
  then obtain x where x: "toFloat (get (config st) ''telemetry_retention_days'') = Some x" "1 \<le> x" "x \<le> 3650"
    by (auto simp: valid_policy_def num_in_def)
  then have fl: "1 \<le> floor x" "floor x \<le> 3650" by (simp_all add: le_floor_iff floor_le_iff)
  then have "f2i x = floor x" using x by (simp add: f2i_def trunc_rat_def in_i64_def i64_min_def i64_max_def)
  then show ?thesis using x fl by (simp add: currentRetentionDays_def)
qed

text \<open>In every state the policy store can reach the policy is valid, so the retention the sweeps
  use is between 1 and 3650 days, and what an agent is sent has exactly the known policy keys,
  never the name of the user who saved it.\<close>

theorem policy_store_safe:
  assumes "policy_reachable st"
  shows "valid_policy (config st) \<and> 1 \<le> currentRetentionDays st \<and> currentRetentionDays st \<le> 3650
    \<and> (\<forall>key body user now. key \<noteq> [] \<longrightarrow>
         (\<exists>m. fst (policyHandler ''GET'' key body user now st) = Json 200 (Obj m)
            \<and> map fst m = map fst defaultPolicy \<and> get m ''updated_by'' = Nil_v))"
proof -
  note v = policy_reachable_valid [OF assms]
  have "map_of (config st) ''updated_by'' = None"
  proof -
    have "''updated_by'' \<notin> set (map fst defaultPolicy)" by (simp add: defaultPolicy_def)
    then have "''updated_by'' \<notin> set (map fst (config st))" using v by (simp only: valid_policy_def not_False_eq_True)
    then show ?thesis by (simp only: map_of_eq_None_iff list.set_map not_False_eq_True)
  qed
  then show ?thesis using v retention_of_valid [OF v]
    by (simp add: policyHandler_def valid_policy_def get_def)
qed

theorem policy_store_safe_witness:
  "currentRetentionDays (loadPolicyFromMongo (Some [(''telemetry_retention_days'', F64 90000)]) globalPolicy) \<le> 3650"
  using policy_store_safe [OF policy_reachable.load [OF policy_reachable.start]] by blast

end
