(* ===== verification/Auth.thy ===== *)
theory Auth
  imports Store Policy
begin

text \<open>
  Dashboard roles, session tokens and the two ways a request is authenticated (\<^verbatim>\<open>api/main.go\<close>):
  the session cookie of a dashboard user and the API key of an agent. Roles are the strings the
  code stores. The keyed hash and the JSON and base64 encoding of the claims are a record of
  functions, and so is the hash of an API key; object identifiers are their hexadecimal text, and
  \<open>oid\<close> stands for the driver's parser of that text.
\<close>

named_theorems auth \<open>facts on roles and sessions\<close>

subsection \<open>Roles\<close>

abbreviation RoleAdmin :: string where "RoleAdmin \<equiv> ''admin''"
abbreviation RoleManager :: string where "RoleManager \<equiv> ''manager''"
abbreviation RoleViewer :: string where "RoleViewer \<equiv> ''viewer''"

definition validRole :: "string \<Rightarrow> bool" where
  "validRole role = (role \<in> {RoleAdmin, RoleManager, RoleViewer})"

definition roleRank :: "string \<Rightarrow> int" where
  "roleRank role = (if role = RoleAdmin then 3 else if role = RoleManager then 2
     else if role = RoleViewer then 1 else 0)"

definition canAccessRole :: "string \<Rightarrow> string \<Rightarrow> bool" where
  "canAccessRole actual required = (roleRank actual \<ge> roleRank required)"

record DashboardUser =
  u_id :: string
  u_email :: string
  u_name :: string
  u_hash :: string
  u_role :: string
  u_status :: string
  u_created :: gotime
  u_updated :: gotime
  u_epoch :: int

record SessionClaims =
  c_user :: string
  c_email :: string
  c_name :: string
  c_role :: string
  c_exp :: int
  c_epoch :: int

definition normalizeEmail :: "string \<Rightarrow> string" where
  "normalizeEmail email = to_lower (trim_space email)"

definition userResponse :: "DashboardUser \<Rightarrow> obj" where
  "userResponse user =
     [(''id'', Str (u_id user)), (''email'', Str (u_email user)), (''name'', Str (u_name user)),
      (''role'', Str (u_role user)), (''status'', Str (u_status user)),
      (''created_at'', Time_v (u_created user)), (''updated_at'', Time_v (u_updated user))]"

subsection \<open>Session tokens\<close>

record token_codec =
  encode_claims :: "SessionClaims \<Rightarrow> string"
  decode_claims :: "string \<Rightarrow> SessionClaims option"
  mac :: "string \<Rightarrow> string"

text \<open>URL-safe base64 without padding contains no dot and is empty only for the empty text.\<close>

definition codec_laws :: "token_codec \<Rightarrow> bool" where
  "codec_laws K \<longleftrightarrow> (\<forall>c. decode_claims K (encode_claims K c) = Some c \<and> encode_claims K c \<noteq> []
       \<and> CHR ''.'' \<notin> set (encode_claims K c))
     \<and> (\<forall>p. mac K p \<noteq> [] \<and> CHR ''.'' \<notin> set (mac K p))"

definition unix :: "gotime \<Rightarrow> int" where
  "unix t = inst t div ns_per_s"

definition createSessionToken :: "token_codec \<Rightarrow> DashboardUser \<Rightarrow> gotime \<Rightarrow> string" where
  "createSessionToken K user now =
     (let payload = encode_claims K \<lparr>c_user = u_id user, c_email = u_email user, c_name = u_name user,
            c_role = u_role user, c_exp = unix (add now (24 * hour_ns)), c_epoch = u_epoch user\<rparr>
      in payload @ ''.'' @ mac K payload)"

definition parseSessionToken :: "token_codec \<Rightarrow> string \<Rightarrow> gotime \<Rightarrow> SessionClaims option" where
  "parseSessionToken K token now =
     (case split_on CHR ''.'' token of
        [payload, sig] \<Rightarrow>
          if payload = [] \<or> sig = [] \<or> mac K payload \<noteq> sig then None
          else (case decode_claims K payload of None \<Rightarrow> None
                | Some claims \<Rightarrow>
                    if c_exp claims < unix now \<or> c_user claims = [] \<or> \<not> validRole (c_role claims)
                    then None else Some claims)
      | _ \<Rightarrow> None)"

text \<open>\<open>cookie\<close> is the cookie's value, \<open>None\<close> when there is none; the result is what the wrapped
  handler finds in the request's context, or the refusal.\<close>

definition requireAuth ::
  "token_codec \<Rightarrow> (string \<Rightarrow> string option) \<Rightarrow> ('c, DashboardUser) driver \<Rightarrow> 'c \<Rightarrow> string option \<Rightarrow> gotime
     \<Rightarrow> response + SessionClaims" where
  "requireAuth K oid D users cookie now =
     (let unauthorized = Inl (HttpError 401 ''Unauthorized'')
      in case cookie of None \<Rightarrow> unauthorized
       | Some token \<Rightarrow> (case parseSessionToken K token now of None \<Rightarrow> unauthorized
          | Some claims \<Rightarrow> (case oid (c_user claims) of None \<Rightarrow> unauthorized
             | Some userID \<Rightarrow>
                 (case find_one D users (\<lambda>u. u_id u = userID \<and> u_status u = ''active'') (\<lambda>_. 0) of
                    None \<Rightarrow> unauthorized
                  | Some user \<Rightarrow>
                      if c_epoch claims \<noteq> u_epoch user then unauthorized
                      else Inr (claims\<lparr>c_email := u_email user, c_name := u_name user, c_role := u_role user\<rparr>)))))"

definition requireRole ::
  "string \<Rightarrow> token_codec \<Rightarrow> (string \<Rightarrow> string option) \<Rightarrow> ('c, DashboardUser) driver \<Rightarrow> 'c \<Rightarrow> string option \<Rightarrow> gotime
     \<Rightarrow> response + SessionClaims" where
  "requireRole required K oid D users cookie now =
     (case requireAuth K oid D users cookie now of
        Inl r \<Rightarrow> Inl r
      | Inr user \<Rightarrow> if canAccessRole (c_role user) required then Inr user else Inl (HttpError 403 ''Forbidden''))"

subsection \<open>API keys\<close>

definition unrevoked :: "obj \<Rightarrow> bool" where
  "unrevoked d \<longleftrightarrow> get d ''status'' \<noteq> Str ''revoked''"

definition resolveAPIKey ::
  "(string \<Rightarrow> string) \<Rightarrow> ('c, obj) driver \<Rightarrow> 'c \<Rightarrow> string \<Rightarrow> string option \<times> 'c" where
  "resolveAPIKey hashAPIKey D devices key =
     (if key = [] then (None, devices)
      else let keyHash = hashAPIKey key
           in case find_one D devices (\<lambda>d. get d ''api_key_hash'' = Str keyHash \<and> unrevoked d) (\<lambda>_. 0) of
                Some device \<Rightarrow>
                  (let deviceID = str_of (get device ''device_id'')
                   in (if str_of (get device ''api_key_hash'') \<noteq> keyHash \<or> deviceID = [] then None else Some deviceID, devices))
              | None \<Rightarrow>
                  (case find_one D devices (\<lambda>d. get d ''api_key'' = Str key \<and> unrevoked d) (\<lambda>_. 0) of
                     None \<Rightarrow> (None, devices)
                   | Some device \<Rightarrow>
                       let deviceID = str_of (get device ''device_id'')
                       in if deviceID = [] then (None, devices)
                          else (Some deviceID,
                                fst (update_one D devices (\<lambda>d. get d ''device_id'' = Str deviceID)
                                  (\<lambda>d. al_del ''api_key'' (al_upd ''api_key_hash'' (Str keyHash) d))))))"

definition requireAgent ::
  "(string \<Rightarrow> string) \<Rightarrow> ('c, obj) driver \<Rightarrow> 'c \<Rightarrow> string \<Rightarrow> (response + string) \<times> 'c" where
  "requireAgent hashAPIKey D devices key =
     (case resolveAPIKey hashAPIKey D devices key of
        (Some deviceID, devices') \<Rightarrow> (Inr deviceID, devices')
      | (None, devices') \<Rightarrow> (Inl (HttpError 401 ''Unauthorized''), devices'))"

subsection \<open>Tokens\<close>

lemma token_split:
  assumes "CHR ''.'' \<notin> set p" "CHR ''.'' \<notin> set s"
  shows "split_on CHR ''.'' (p @ ''.'' @ s) = [p, s]"
  using split_on_append_sep [OF assms(1), of s] split_on_no_sep [OF assms(2)] by simp

lemma parse_create:
  assumes "codec_laws K" "validRole (u_role user)" "u_id user \<noteq> []"
    "unix later \<le> unix (add now (24 * hour_ns))"
  shows "parseSessionToken K (createSessionToken K user now) later =
     Some \<lparr>c_user = u_id user, c_email = u_email user, c_name = u_name user, c_role = u_role user,
           c_exp = unix (add now (24 * hour_ns)), c_epoch = u_epoch user\<rparr>"
  using assms token_split by (simp add: createSessionToken_def parseSessionToken_def codec_laws_def Let_def)

lemma parse_signed:
  "parseSessionToken K token now = Some claims \<Longrightarrow>
     \<exists>p. token = p @ ''.'' @ mac K p \<and> decode_claims K p = Some claims
        \<and> unix now \<le> c_exp claims \<and> validRole (c_role claims)"
proof -
  assume a: "parseSessionToken K token now = Some claims"
  then obtain p s where s: "split_on CHR ''.'' token = [p, s]"
    by (auto simp: parseSessionToken_def split: list.splits)
  have "token = p @ ''.'' @ s" using split_on_two [OF s] .
  then show ?thesis using a s by (auto simp: parseSessionToken_def split: if_splits option.splits)
qed

text \<open>A token the server issues is accepted, with the claims it was issued for, until it expires
  after 24 hours; and a token is accepted only if it is the encoding of claims followed by their
  keyed hash, not expired, with a valid role, so changing any byte needs the secret.\<close>

theorem session_tokens:
  assumes "codec_laws K"
  shows "(validRole (u_role user) \<and> u_id user \<noteq> [] \<and> unix later \<le> unix (add now (24 * hour_ns)) \<longrightarrow>
      parseSessionToken K (createSessionToken K user now) later =
        Some \<lparr>c_user = u_id user, c_email = u_email user, c_name = u_name user, c_role = u_role user,
              c_exp = unix (add now (24 * hour_ns)), c_epoch = u_epoch user\<rparr>)
    \<and> (unix (add now (24 * hour_ns)) < unix later \<longrightarrow>
        parseSessionToken K (createSessionToken K user now) later = None)
    \<and> (parseSessionToken K token later = Some claims \<longrightarrow>
        (\<exists>p. token = p @ ''.'' @ mac K p \<and> decode_claims K p = Some claims
           \<and> unix later \<le> c_exp claims \<and> validRole (c_role claims)))"
  using parse_create [OF assms] parse_signed [of K token later claims] assms token_split
  by (auto simp: createSessionToken_def parseSessionToken_def codec_laws_def Let_def)

text \<open>A codec of decimal numbers, to show that the laws can hold.\<close>

definition text_of :: "string \<Rightarrow> string" where
  "text_of s = concat (map (\<lambda>c. dfix 3 (of_char c)) s)"

fun of_text :: "string \<Rightarrow> string" where
  "of_text (a # b # c # rest) = char_of (nat_of_digits [a, b, c]) # of_text rest"
| "of_text _ = []"

lemma of_text_of: "of_text (text_of s) = s"
proof (induction s)
  case (Cons c s)
  have "dfix 3 (of_char c) = [digit_char (of_char c div 100), digit_char (of_char c div 10), digit_char (of_char c)]"
    by (simp add: numeral_3_eq_3 flip: div_mult2_eq)
  moreover have "nat_of_digits (dfix 3 (of_char c)) = (of_char c :: nat)"
    using nat_of_char_less_256 [of c] by (simp add: nat_of_digits_dfix mod_less less_trans [of _ 256 1000])
  ultimately show ?case using Cons by (simp add: text_of_def)
qed (simp add: text_of_def)

lemma text_of_dot: "CHR ''.'' \<notin> set (text_of s)"
  using dfix_digits by (fastforce simp: text_of_def is_digit_def)

definition claims_fields :: "SessionClaims \<Rightarrow> string list" where
  "claims_fields c = [c_user c, c_email c, c_name c, c_role c,
     (if c_exp c < 0 then ''-'' else []) @ dec_str (nat \<bar>c_exp c\<bar>), (if c_epoch c < 0 then ''-'' else []) @ dec_str (nat \<bar>c_epoch c\<bar>)]"

definition int_of_text :: "string \<Rightarrow> int" where
  "int_of_text s = (if take 1 s = ''-'' then - int (nat_of_digits (drop 1 s)) else int (nat_of_digits s))"

definition plain_codec :: token_codec where
  "plain_codec = \<lparr>
     encode_claims = (\<lambda>c. ''c'' @ concat (map (\<lambda>f. text_of f @ ''|'') (claims_fields c))),
     decode_claims = (\<lambda>s. (case split_on CHR ''|'' (drop 1 s) of
        [a, b, d, e, x, y, _] \<Rightarrow> Some \<lparr>c_user = of_text a, c_email = of_text b, c_name = of_text d, c_role = of_text e,
            c_exp = int_of_text (of_text x), c_epoch = int_of_text (of_text y)\<rparr>
      | _ \<Rightarrow> None)),
     mac = (\<lambda>p. ''m'') \<rparr>"

lemma text_of_bar: "CHR ''|'' \<notin> set (text_of s)"
  using dfix_digits by (fastforce simp: text_of_def is_digit_def)

lemma int_of_text_dec: "int_of_text ((if x < 0 then ''-'' else []) @ dec_str (nat \<bar>x\<bar>)) = x"
proof -
  have "take 1 (dec_str n) \<noteq> ''-''" for n
    using dec_str_digits [of "hd (dec_str n)" n] by (cases "dec_str n") (auto simp: is_digit_def)
  then show ?thesis by (simp add: int_of_text_def)
qed

lemma plain_codec_laws: "codec_laws plain_codec"
proof -
  have "decode_claims plain_codec (encode_claims plain_codec c) = Some c" for c
    by (simp add: plain_codec_def claims_fields_def split_on_append_sep text_of_bar of_text_of int_of_text_dec)
  then show ?thesis using text_of_dot by (auto simp: codec_laws_def plain_codec_def)
qed

definition sample_user :: DashboardUser where
  "sample_user = \<lparr>u_id = ''507f1f77bcf86cd799439011'', u_email = ''a@b.c'', u_name = ''A'', u_hash = ''h'', u_role = ''admin'',
     u_status = ''active'', u_created = \<lparr>inst = 0, off = 0\<rparr>, u_updated = \<lparr>inst = 0, off = 0\<rparr>, u_epoch = 3\<rparr>"

theorem session_tokens_witness:
  "map_option c_epoch (parseSessionToken plain_codec
     (createSessionToken plain_codec sample_user \<lparr>inst = 0, off = 0\<rparr>) \<lparr>inst = 5, off = 0\<rparr>) = Some 3"
  using session_tokens [OF plain_codec_laws, of sample_user "\<lparr>inst = 5, off = 0\<rparr>" "\<lparr>inst = 0, off = 0\<rparr>"]
  by (simp add: sample_user_def validRole_def unix_def ns_units)

text \<open>C7. A request passes the session check only with a properly signed token of a user who is active
  in the database now and whose epoch has not moved since the token was issued, and it acts with
  the role the database holds now: disabling an account, resetting its password, ending its
  sessions and changing its role all take effect at the next request. A handler behind a role
  runs only for users who have at least that role.\<close>

theorem session_is_current:
  assumes "driver_laws D" "requireRole required K oid D users cookie now = Inr claims"
  shows "\<exists>token payload user issued. cookie = Some token \<and> token = payload @ ''.'' @ mac K payload
    \<and> decode_claims K payload = Some issued \<and> oid (c_user issued) = Some (u_id user)
    \<and> user \<in> set (held D users) \<and> u_status user = ''active'' \<and> u_epoch user = c_epoch issued
    \<and> c_role claims = u_role user \<and> c_email claims = u_email user
    \<and> roleRank required \<le> roleRank (u_role user)"
proof -
  have auth: "requireAuth K oid D users cookie now = Inr claims" and rank: "canAccessRole (c_role claims) required"
    using assms(2) by (auto simp: requireRole_def split: sum.splits if_splits)
  obtain token issued uid user where
    c: "cookie = Some token" "parseSessionToken K token now = Some issued" "oid (c_user issued) = Some uid"
      "find_one D users (\<lambda>u. u_id u = uid \<and> u_status u = ''active'') (\<lambda>_. 0) = Some user"
      "c_epoch issued = u_epoch user"
      "claims = issued\<lparr>c_email := u_email user, c_name := u_name user, c_role := u_role user\<rparr>"
    using auth by (auto simp: requireAuth_def Let_def split: option.splits if_splits)
  have u: "user \<in> set (held D users)" "u_id user = uid" "u_status user = ''active''"
    using driver_find_one [OF assms(1) c(4)] by auto
  obtain p where p: "token = p @ ''.'' @ mac K p" "decode_claims K p = Some issued"
    using parse_signed [OF c(2)] by blast
  show ?thesis
    using c p u rank by (intro exI [of _ token] exI [of _ p] exI [of _ user] exI [of _ issued])
      (simp add: canAccessRole_def)
qed

theorem session_is_current_witness:
  "\<exists>user \<in> set [sample_user]. roleRank ''manager'' \<le> roleRank (u_role user)"
proof -
  let ?t = "createSessionToken plain_codec sample_user \<lparr>inst = 0, off = 0\<rparr>"
  have "\<exists>c. requireRole ''manager'' plain_codec Some list_driver [sample_user] (Some ?t) \<lparr>inst = 5, off = 0\<rparr> = Inr c"
    using parse_create [OF plain_codec_laws, of sample_user "\<lparr>inst = 5, off = 0\<rparr>" "\<lparr>inst = 0, off = 0\<rparr>"]
    by (simp add: requireRole_def requireAuth_def sample_user_def validRole_def unix_def ns_units Let_def
        least_def canAccessRole_def roleRank_def)
  then obtain c where "requireRole ''manager'' plain_codec Some list_driver [sample_user] (Some ?t) \<lparr>inst = 5, off = 0\<rparr> = Inr c"
    by blast
  from session_is_current [OF list_driver_laws this] show ?thesis by auto
qed

subsection \<open>Keys resolve to live devices\<close>

lemma resolved_key:
  assumes "driver_laws D" "resolveAPIKey h D devices key = (Some dev, devices')"
  shows "key \<noteq> [] \<and> dev \<noteq> [] \<and> (\<exists>d \<in> set (held D devices). get d ''device_id'' = Str dev \<and> unrevoked d
      \<and> (get d ''api_key_hash'' = Str (h key) \<or> get d ''api_key'' = Str key))
    \<and> (\<forall>d' \<in> set (held D devices'). d' \<in> set (held D devices)
        \<or> (get d' ''device_id'' = Str dev \<and> get d' ''api_key_hash'' = Str (h key) \<and> get d' ''api_key'' = Nil_v))"
proof -
  have k: "key \<noteq> []" using assms(2) by (auto simp: resolveAPIKey_def)
  show ?thesis
  proof (cases "find_one D devices (\<lambda>d. get d ''api_key_hash'' = Str (h key) \<and> unrevoked d) (\<lambda>_. 0)")
    case (Some d)
    have d: "d \<in> set (held D devices)" "get d ''api_key_hash'' = Str (h key)" "unrevoked d"
      using driver_find_one [OF assms(1) Some] by auto
    have "dev = str_of (get d ''device_id'')" "dev \<noteq> []" "devices' = devices"
      using assms(2) k by (auto simp: resolveAPIKey_def Some Let_def split: if_splits)
    then show ?thesis using d k str_of_nonempty [of "get d ''device_id''"] by (metis (no_types, lifting))
  next
    case None
    obtain d where f: "find_one D devices (\<lambda>d. get d ''api_key'' = Str key \<and> unrevoked d) (\<lambda>_. 0) = Some d"
      and dev: "dev = str_of (get d ''device_id'')" "dev \<noteq> []"
      and up: "devices' = fst (update_one D devices (\<lambda>d. get d ''device_id'' = Str dev)
          (\<lambda>d. al_del ''api_key'' (al_upd ''api_key_hash'' (Str (h key)) d)))"
      using assms(2) k by (auto simp: resolveAPIKey_def None Let_def split: option.splits if_splits)
    have d: "d \<in> set (held D devices)" "get d ''api_key'' = Str key" "unrevoked d" "get d ''device_id'' = Str dev"
      using driver_find_one [OF assms(1) f] dev str_of_nonempty [of "get d ''device_id''"] by auto
    obtain n where "update_one D devices (\<lambda>d. get d ''device_id'' = Str dev)
          (\<lambda>d. al_del ''api_key'' (al_upd ''api_key_hash'' (Str (h key)) d)) = (devices', n)"
      using up by (metis prod.collapse)
    from driver_update_one [OF assms(1) this] have "\<forall>d' \<in> set (held D devices'). d' \<in> set (held D devices)
        \<or> (get d' ''device_id'' = Str dev \<and> get d' ''api_key_hash'' = Str (h key) \<and> get d' ''api_key'' = Nil_v)"
      by (auto simp: one_updated_def)
    then show ?thesis using k dev(2) d by blast
  qed
qed

text \<open>An API key resolves only to a device the database holds that is not revoked and whose stored
  hash is the key's hash (or, for a device from before hashing, whose stored key is the key). The
  lookup changes nothing except that such an old device gets its hash and loses the plaintext key.\<close>

theorem api_key_resolves:
  assumes "driver_laws D" "resolveAPIKey h D devices key = (Some dev, devices')"
  shows "key \<noteq> [] \<and> dev \<noteq> [] \<and> (\<exists>d \<in> set (held D devices). get d ''device_id'' = Str dev \<and> unrevoked d
      \<and> (get d ''api_key_hash'' = Str (h key) \<or> get d ''api_key'' = Str key))
    \<and> (\<forall>d' \<in> set (held D devices'). d' \<in> set (held D devices)
        \<or> (get d' ''device_id'' = Str dev \<and> get d' ''api_key_hash'' = Str (h key) \<and> get d' ''api_key'' = Nil_v))"
  by (rule resolved_key [OF assms])

theorem api_key_resolves_witness:
  "fst (resolveAPIKey (\<lambda>k. ''h'' @ k) list_driver [[(''device_id'', Str ''d1''), (''api_key'', Str ''k'')]] ''k'') = Some ''d1''
   \<and> ''d1'' \<noteq> []"
proof -
  let ?ds = "[[(''device_id'', Str ''d1''), (''api_key'', Str ''k'')]]"
  have r: "resolveAPIKey (\<lambda>k. ''h'' @ k) list_driver ?ds ''k''
      = (Some ''d1'', snd (resolveAPIKey (\<lambda>k. ''h'' @ k) list_driver ?ds ''k''))"
    by (simp add: resolveAPIKey_def Let_def least_def unrevoked_def)
  from api_key_resolves [OF list_driver_laws r] show ?thesis by (subst r) simp
qed

end
