(* ===== verification/RateLimiter.thy ===== *)
theory RateLimiter
  imports GoTime "HOL-Library.Sublist"
begin

text \<open>
  Throttling and request plumbing of \<^verbatim>\<open>api/main.go\<close>: the fixed-window counter behind sign-in and
  registration, the address it counts by, the allowed origins and the CORS headers, and the reader
  of integer settings. A counter would need \<open>2 ^ 63\<close> hits in one window to wrap, so counts
  are unbounded here. The clock is an argument.
\<close>

named_theorems limiter \<open>facts on the rate limiter\<close>

subsection \<open>The fixed-window counter\<close>

record rateWindow =
  rw_start :: gotime
  rw_count :: int

record rateLimiter =
  rl_limit :: int
  rl_window :: int
  rl_hits :: "(string \<times> rateWindow) list"

definition newRateLimiter :: "int \<Rightarrow> int \<Rightarrow> rateLimiter" where
  "newRateLimiter limit window = \<lparr>rl_limit = limit, rl_window = window, rl_hits = []\<rparr>"

text \<open>What the background ticker does at each tick.\<close>

definition rl_sweep :: "rateLimiter \<Rightarrow> gotime \<Rightarrow> rateLimiter" where
  "rl_sweep rl now =
     rl\<lparr>rl_hits := filter (\<lambda>e. \<not> before (rw_start (snd e)) (add now (- rl_window rl))) (rl_hits rl)\<rparr>"

definition rl_blocked :: "rateLimiter \<Rightarrow> string \<Rightarrow> gotime \<Rightarrow> bool" where
  "rl_blocked rl key now =
     (if rl_limit rl \<le> 0 then False
      else (case map_of (rl_hits rl) key of None \<Rightarrow> False
            | Some w \<Rightarrow> sub now (rw_start w) < rl_window rl \<and> rl_limit rl \<le> rw_count w))"

definition rl_allow :: "rateLimiter \<Rightarrow> string \<Rightarrow> gotime \<Rightarrow> bool \<times> rateLimiter" where
  "rl_allow rl key now =
     (if rl_limit rl \<le> 0 then (True, rl)
      else let w0 = (case map_of (rl_hits rl) key of
                       None \<Rightarrow> \<lparr>rw_start = now, rw_count = 0\<rparr>
                     | Some w \<Rightarrow> if rl_window rl \<le> sub now (rw_start w) then \<lparr>rw_start = now, rw_count = 0\<rparr> else w);
               w = w0\<lparr>rw_count := rw_count w0 + 1\<rparr>
           in (rw_count w \<le> rl_limit rl, rl\<lparr>rl_hits := al_upd key w (rl_hits rl)\<rparr>))"

definition rl_hit :: "rateLimiter \<Rightarrow> string \<Rightarrow> gotime \<Rightarrow> rateLimiter" where
  "rl_hit rl key now = snd (rl_allow rl key now)"

definition rl_reset :: "rateLimiter \<Rightarrow> string \<Rightarrow> rateLimiter" where
  "rl_reset rl key = rl\<lparr>rl_hits := al_del key (rl_hits rl)\<rparr>"

text \<open>\<^verbatim>\<open>requireRateLimit\<close>: the value of \<^verbatim>\<open>Retry-After\<close>, or the request goes on.\<close>

definition requireRateLimit :: "rateLimiter \<Rightarrow> string \<Rightarrow> gotime \<Rightarrow> (nat \<times> string \<times> int) option \<times> rateLimiter" where
  "requireRateLimit rl ip now =
     (case rl_allow rl ip now of (ok, rl') \<Rightarrow>
        if ok then (None, rl')
        else (Some (429, ''Too many requests'', f2i (seconds (rl_window rl))), rl'))"

subsection \<open>The client's address\<close>

text \<open>
  \<open>peer\<close> is the host of the TCP peer, \<open>trusted\<close> tells membership in the configured proxy networks
  (\<open>None\<close> when no network is configured).
\<close>

fun rightmost_untrusted :: "(string \<Rightarrow> bool) \<Rightarrow> string list \<Rightarrow> string option" where
  "rightmost_untrusted trusted [] = None"
| "rightmost_untrusted trusted (p # ps) =
     (case rightmost_untrusted trusted ps of
        Some ip \<Rightarrow> Some ip
      | None \<Rightarrow> if trim_space p \<noteq> [] \<and> \<not> trusted (trim_space p) then Some (trim_space p) else None)"

definition clientIP :: "(string \<Rightarrow> bool) option \<Rightarrow> string \<Rightarrow> string \<Rightarrow> string" where
  "clientIP proxies peer header =
     (let xff = trim_space header
      in if xff = [] then peer
         else (case proxies of
                 None \<Rightarrow> trim_space (takeWhile (\<lambda>c. c \<noteq> CHR '','') xff)
               | Some trusted \<Rightarrow>
                   if \<not> trusted peer then peer
                   else (case rightmost_untrusted trusted (split_on CHR '','' xff) of
                           Some ip \<Rightarrow> ip | None \<Rightarrow> peer)))"

subsection \<open>Origins\<close>

definition allowedOrigins :: "string \<Rightarrow> string \<Rightarrow> string set" where
  "allowedOrigins origin extras =
     (let base = trim_space origin
      in (if base = [] then {''http://127.0.0.1:3000'', ''http://localhost:3000''} else {base})
         \<union> set (filter (\<lambda>e. e \<noteq> []) (map trim_space (split_on CHR '','' extras))))"

text \<open>The response headers of \<^verbatim>\<open>corsMiddleware\<close> and whether the request goes on to the handler.\<close>

definition corsMiddleware :: "string set \<Rightarrow> string \<Rightarrow> string \<Rightarrow> (string \<times> string) list \<times> bool" where
  "corsMiddleware allowed origin meth =
     ((''Vary'', ''Origin'')
      # (if origin \<noteq> [] \<and> origin \<in> allowed
         then [(''Access-Control-Allow-Origin'', origin), (''Access-Control-Allow-Credentials'', ''true'')] else [])
      @ [(''Access-Control-Allow-Methods'', ''POST, GET, OPTIONS, PUT, DELETE''),
         (''Access-Control-Allow-Headers'',
          ''Accept, Content-Type, Content-Length, Accept-Encoding, Authorization, X-API-Key, X-DevicePulse-Public-Key''),
         (''Access-Control-Expose-Headers'', ''X-DevicePulse-Encryption, X-DevicePulse-Content-Type'')],
      meth \<noteq> ''OPTIONS'')"

subsection \<open>Integer settings\<close>

definition all_digits :: "string \<Rightarrow> bool" where
  "all_digits s \<longleftrightarrow> s \<noteq> [] \<and> list_all is_digit s"

text \<open>\<^verbatim>\<open>strconv.Atoi\<close>.\<close>

definition atoi :: "string \<Rightarrow> int option" where
  "atoi s =
     (let (neg, body) = (case s of
            c # cs \<Rightarrow> if c = CHR ''-'' then (True, cs) else if c = CHR ''+'' then (False, cs) else (False, s)
          | [] \<Rightarrow> (False, []));
          v = (if neg then - int (nat_of_digits body) else int (nat_of_digits body))
      in if all_digits body \<and> in_i64 v then Some v else None)"

definition envInt :: "string \<Rightarrow> int \<Rightarrow> int" where
  "envInt value def =
     (let raw = trim_space value
      in if raw = [] then def
         else (case atoi raw of None \<Rightarrow> def | Some n \<Rightarrow> if n < 0 then def else n))"

subsection \<open>Asking is predicting\<close>

lemma sub_window: "0 < w \<Longrightarrow> w \<le> i64_max \<Longrightarrow> w \<le> sub t u \<longleftrightarrow> w \<le> inst t - inst u"
  by (auto simp: sub_def sat64_def i64_min_def i64_max_def)

text \<open>Asking whether a key is blocked predicts the next hit: it is blocked exactly when counting a
  hit now would be refused. A reset or an expired window unblocks it.\<close>

theorem blocked_predicts:
  assumes "0 < rl_limit rl"
  shows "(rl_blocked rl key now \<longleftrightarrow> \<not> fst (rl_allow rl key now)) \<and> \<not> rl_blocked (rl_reset rl key) key now"
  using assms
  by (auto simp: rl_blocked_def rl_allow_def rl_reset_def Let_def split: option.split)

theorem blocked_predicts_witness:
  "rl_blocked (rl_hit (newRateLimiter 1 minute_ns) ''k'' \<lparr>inst = 0, off = 0\<rparr>) ''k'' \<lparr>inst = 5, off = 0\<rparr>
   \<and> \<not> rl_blocked (rl_reset (rl_hit (newRateLimiter 1 minute_ns) ''k'' \<lparr>inst = 0, off = 0\<rparr>) ''k'') ''k'' \<lparr>inst = 5, off = 0\<rparr>"
proof -
  let ?rl = "rl_hit (newRateLimiter 1 minute_ns) ''k'' \<lparr>inst = 0, off = 0\<rparr>"
  have "0 < rl_limit ?rl" "\<not> fst (rl_allow ?rl ''k'' \<lparr>inst = 5, off = 0\<rparr>)" by code_simp+
  then show ?thesis using blocked_predicts [of ?rl "''k''" "\<lparr>inst = 5, off = 0\<rparr>"] by simp
qed

subsection \<open>At most twice the limit in any window's length\<close>

datatype rl_event = Req gotime string | Sweep gotime

fun ev_time :: "rl_event \<Rightarrow> int" where
  "ev_time (Req t k) = inst t" | "ev_time (Sweep t) = inst t"

text \<open>The limiter's state and the times at which requests of \<open>key\<close> were let through.\<close>

fun rl_run :: "string \<Rightarrow> rateLimiter \<Rightarrow> rl_event list \<Rightarrow> int list" where
  "rl_run key rl [] = []"
| "rl_run key rl (Sweep t # es) = rl_run key (rl_sweep rl t) es"
| "rl_run key rl (Req t k # es) =
     (case rl_allow rl k t of (ok, rl') \<Rightarrow> (if ok \<and> k = key then [inst t] else []) @ rl_run key rl' es)"

definition in_span :: "int \<Rightarrow> int \<Rightarrow> int \<Rightarrow> bool" where
  "in_span T w x \<longleftrightarrow> T \<le> x \<and> x < T + w"

text \<open>What the key's window bounds: \<open>n\<close> requests of the span \<open>[T, T + w)\<close> were let through so far,
  and every later event happens at or after \<open>now\<close>.\<close>

definition span_inv :: "int \<Rightarrow> int \<Rightarrow> int \<Rightarrow> rateWindow option \<Rightarrow> int \<Rightarrow> int \<Rightarrow> bool" where
  "span_inv T w cap e now n \<longleftrightarrow> 0 \<le> n \<and> (0 < n \<longrightarrow> T \<le> now) \<and>
     (case e of
        None \<Rightarrow> n \<le> cap \<or> (n \<le> 2 * cap \<and> T + w \<le> now)
      | Some v \<Rightarrow> inst (rw_start v) \<le> now \<and> 0 \<le> rw_count v \<and>
          (if inst (rw_start v) < T then n \<le> min (rw_count v) cap
           else if inst (rw_start v) < T + w then n \<le> cap + min (rw_count v) cap
           else n \<le> 2 * cap))"

lemma span_inv_later: "span_inv T w cap e now n \<Longrightarrow> now \<le> now' \<Longrightarrow> span_inv T w cap e now' n"
  by (auto simp: span_inv_def split: option.splits)

lemma span_inv_bound: "span_inv T w cap e now n \<Longrightarrow> 0 \<le> cap \<Longrightarrow> n \<le> 2 * cap"
  by (auto simp: span_inv_def split: option.splits if_splits)

lemma span_inv_drop:
  assumes "span_inv T w cap (Some v) now n" "inst (rw_start v) + w \<le> now" "0 \<le> cap"
  shows "span_inv T w cap None now n"
  using assms by (auto simp: span_inv_def split: if_splits)

lemma span_inv_new:
  assumes "span_inv T w cap None now n" "inst t = now" "0 < cap" "0 < w"
  shows "span_inv T w cap (Some \<lparr>rw_start = t, rw_count = 1\<rparr>) now (n + (if in_span T w now then 1 else 0))"
  using assms by (auto simp: span_inv_def in_span_def)

lemma span_inv_count:
  assumes "span_inv T w cap (Some v) now n" "now < inst (rw_start v) + w" "0 < cap"
  shows "span_inv T w cap (Some (v\<lparr>rw_count := rw_count v + 1\<rparr>)) now
     (n + (if rw_count v + 1 \<le> cap \<and> in_span T w now then 1 else 0))"
  using assms by (auto simp: span_inv_def in_span_def min_def split: if_splits)


definition spanned :: "int \<Rightarrow> int \<Rightarrow> int list \<Rightarrow> int" where
  "spanned T w ts = int (length (filter (in_span T w) ts))"

lemma spanned_simps [simp]:
  "spanned T w [] = 0" "spanned T w (t # ts) = (if in_span T w t then 1 else 0) + spanned T w ts"
  by (simp_all add: spanned_def)

lemma map_of_filter_snd:
  "distinct (map fst m) \<Longrightarrow> map_of (filter (\<lambda>e. P (snd e)) m) k =
     (case map_of m k of None \<Rightarrow> None | Some v \<Rightarrow> if P v then Some v else None)"
proof (induction m)
  case (Cons e m)
  obtain a v where e: "e = (a, v)" by (cases e)
  have "a = k \<Longrightarrow> map_of m k = None" using Cons.prems by (simp add: map_of_eq_None_iff e)
  then show ?case using Cons by (cases "a = k") (simp_all add: e)
qed simp

lemma sweep_lookup:
  assumes "distinct (map fst (rl_hits rl))"
  shows "map_of (rl_hits (rl_sweep rl t)) key =
     (case map_of (rl_hits rl) key of None \<Rightarrow> None
      | Some v \<Rightarrow> if inst (rw_start v) + rl_window rl < inst t then None else Some v)"
proof -
  define P where "P v \<longleftrightarrow> \<not> inst (rw_start v) + rl_window rl < inst t" for v :: rateWindow
  have "rl_hits (rl_sweep rl t) = filter (\<lambda>e. P (snd e)) (rl_hits rl)"
    by (auto simp: rl_sweep_def before_def P_def intro!: filter_cong)
  then show ?thesis using map_of_filter_snd [OF assms, of P key] by (simp add: P_def split: option.split)
qed

lemma sweep_fields [simp]: "rl_limit (rl_sweep rl t) = rl_limit rl" "rl_window (rl_sweep rl t) = rl_window rl"
  "distinct (map fst (rl_hits rl)) \<Longrightarrow> distinct (map fst (rl_hits (rl_sweep rl t)))"
  by (simp_all add: rl_sweep_def distinct_map_filter)

lemma allow_fields [simp]:
  "rl_limit (snd (rl_allow rl k t)) = rl_limit rl" "rl_window (snd (rl_allow rl k t)) = rl_window rl"
  "distinct (map fst (rl_hits rl)) \<Longrightarrow> distinct (map fst (rl_hits (snd (rl_allow rl k t))))"
  "k' \<noteq> k \<Longrightarrow> map_of (rl_hits (snd (rl_allow rl k t))) k' = map_of (rl_hits rl) k'"
  by (simp_all add: rl_allow_def Let_def)

lemma allow_inv:
  assumes "span_inv T (rl_window rl) (rl_limit rl) (map_of (rl_hits rl) key) (inst t) n"
    and "0 < rl_limit rl" "0 < rl_window rl" "rl_window rl \<le> i64_max"
  shows "span_inv T (rl_window rl) (rl_limit rl) (map_of (rl_hits (snd (rl_allow rl key t))) key) (inst t)
     (n + (if fst (rl_allow rl key t) \<and> in_span T (rl_window rl) (inst t) then 1 else 0))"
proof (cases "\<exists>v. map_of (rl_hits rl) key = Some v \<and> inst t < inst (rw_start v) + rl_window rl")
  case True
  then obtain v where v: "map_of (rl_hits rl) key = Some v" "\<not> rl_window rl \<le> sub t (rw_start v)"
      "inst t < inst (rw_start v) + rl_window rl"
    using sub_window [OF assms(3,4)] by auto
  show ?thesis using span_inv_count [of T "rl_window rl" "rl_limit rl" v "inst t" n] assms v
    by (simp add: rl_allow_def Let_def)
next
  case False
  have n: "span_inv T (rl_window rl) (rl_limit rl) None (inst t) n"
  proof (cases "map_of (rl_hits rl) key")
    case (Some v)
    then show ?thesis using span_inv_drop [of T "rl_window rl" "rl_limit rl" v "inst t" n] assms False by force
  qed (use assms in simp)
  have "map_of (rl_hits (snd (rl_allow rl key t))) key = Some \<lparr>rw_start = t, rw_count = 1\<rparr>" "fst (rl_allow rl key t)"
    using False assms(2) sub_window [OF assms(3,4)]
    by (auto simp: rl_allow_def Let_def split: option.split)
  then show ?thesis using span_inv_new [OF n refl assms(2,3)] by simp
qed

lemma rl_run_bound:
  assumes "sorted (map ev_time es)" "\<forall>e \<in> set es. now \<le> ev_time e"
    and "span_inv T (rl_window rl) (rl_limit rl) (map_of (rl_hits rl) key) now n"
    and "0 < rl_limit rl" "0 < rl_window rl" "rl_window rl \<le> i64_max" "distinct (map fst (rl_hits rl))"
  shows "n + spanned T (rl_window rl) (rl_run key rl es) \<le> 2 * rl_limit rl"
  using assms
proof (induction es arbitrary: rl now n)
  case Nil
  then show ?case using span_inv_bound by simp
next
  case (Cons e es)
  have now: "now \<le> ev_time e" and srt: "sorted (map ev_time es)" and le: "\<forall>x \<in> set es. ev_time e \<le> ev_time x"
    using Cons.prems(1,2) by auto
  note inv = span_inv_later [OF Cons.prems(3) now]
  show ?case
  proof (cases e)
    case (Sweep t)
    have "span_inv T (rl_window rl) (rl_limit rl) (map_of (rl_hits (rl_sweep rl t)) key) (inst t) n"
      using inv span_inv_drop [of T "rl_window rl" "rl_limit rl" _ "inst t" n] Cons.prems(4,7) Sweep
      by (auto simp: sweep_lookup split: option.splits)
    then show ?thesis using Cons.IH [OF srt le, of "rl_sweep rl t" n] Cons.prems(4-7) Sweep by simp
  next
    case (Req t k)
    let ?rl = "snd (rl_allow rl k t)" and ?ok = "fst (rl_allow rl k t) \<and> k = key"
    have i: "span_inv T (rl_window rl) (rl_limit rl) (map_of (rl_hits ?rl) key) (inst t)
        (n + (if ?ok \<and> in_span T (rl_window rl) (inst t) then 1 else 0))"
      using allow_inv [of T rl key t n] inv Cons.prems(4-6) Req by (cases "k = key") auto
    have "n + (if ?ok \<and> in_span T (rl_window rl) (inst t) then 1 else 0)
        + spanned T (rl_window rl) (rl_run key ?rl es) \<le> 2 * rl_limit rl"
      using Cons.IH [OF srt le, of ?rl] i Cons.prems(4-7) Req by simp
    then show ?thesis using Req by (auto simp: case_prod_beta)
  qed
qed



subsection \<open>Forged addresses\<close>

lemma rightmost_append:
  "rightmost_untrusted tr (ps @ qs) = (case rightmost_untrusted tr qs of Some ip \<Rightarrow> Some ip | None \<Rightarrow> rightmost_untrusted tr ps)"
  by (induction ps) (auto split: option.splits)

lemma split_on_snoc:
  "split_on c (a @ c # b) = split_on c a @ split_on c b"
  by (induction a) (auto split: list.splits)


text \<open>With proxies configured, a caller cannot choose the address it is counted under: a direct
  caller is counted under its own address whatever the header says, and behind a proxy anything
  the caller puts in front of the entries the proxies append is ignored as soon as those name one
  address that is not a proxy's. (A header value carries no surrounding blanks: the server's header
  reader strips them.)\<close>

theorem forged_address_ignored:
  "(\<not> trusted peer \<longrightarrow> clientIP (Some trusted) peer header = peer)
   \<and> (trusted peer \<and> rightmost_untrusted trusted (split_on CHR '','' appended) = Some ip
       \<and> trim_space (forged @ CHR '','' # appended) = forged @ CHR '','' # appended
       \<longrightarrow> clientIP (Some trusted) peer (forged @ CHR '','' # appended) = ip)"
  by (auto simp: clientIP_def Let_def split_on_snoc rightmost_append)

theorem forged_address_ignored_witness:
  "clientIP (Some (\<lambda>ip. ip = ''10.0.0.1'')) ''10.0.0.1'' (''6.6.6.6'' @ CHR '','' # ''203.0.113.9, 10.0.0.1'') = ''203.0.113.9''"
proof -
  have "rightmost_untrusted (\<lambda>ip. ip = ''10.0.0.1'') (split_on CHR '','' ''203.0.113.9, 10.0.0.1'') = Some ''203.0.113.9''"
    "trim_space (''6.6.6.6'' @ CHR '','' # ''203.0.113.9, 10.0.0.1'') = ''6.6.6.6'' @ CHR '','' # ''203.0.113.9, 10.0.0.1''"
    by code_simp+
  then show ?thesis
    using forged_address_ignored [of "\<lambda>ip. ip = ''10.0.0.1''" "''10.0.0.1''" "[]" "''203.0.113.9, 10.0.0.1''" "''203.0.113.9''" "''6.6.6.6''"]
    by simp
qed

end
