(* ===== verification/Users.thy ===== *)
theory Users
  imports Auth RateLimiter
begin

text \<open>
  Dashboard accounts (\<^verbatim>\<open>api/main.go\<close>): the first registration, sign-in, account creation,
  password resets, role and status changes with their guards, session revocation and the audit
  entries they leave. Bodies are what the JSON decoder made of them (\<open>None\<close> where it failed);
  password hashing is a parameter. A handler is split where it reads the database and where it
  writes, so that interleavings of requests can be stated.
\<close>

record authRequest =
  a_email :: string
  a_password :: string
  a_name :: string
  a_role :: string

text \<open>What a handler produces besides the response: a session token for the cookie, and audit entries.\<close>

type_synonym reply = "response \<times> string option \<times> audit list"

abbreviation refuse :: "nat \<Rightarrow> string \<Rightarrow> reply" where
  "refuse code msg \<equiv> (HttpError code msg, None, [])"

definition users_count :: "('c, DashboardUser) driver \<Rightarrow> 'c \<Rightarrow> nat option" where
  "users_count D users = map_option length (find_docs D users (\<lambda>_. True))"

subsection \<open>Registration and sign-in\<close>

text \<open>\<open>dup\<close> tells whether a failed insert failed for a duplicate key.\<close>

definition authRegisterHandler ::
  "token_codec \<Rightarrow> (string \<Rightarrow> string option) \<Rightarrow> bool \<Rightarrow> ('c, DashboardUser) driver \<Rightarrow> ('g, obj) driver
     \<Rightarrow> string \<Rightarrow> authRequest option \<Rightarrow> string \<Rightarrow> gotime \<Rightarrow> 'c \<times> 'g \<Rightarrow> reply \<times> 'c \<times> 'g" where
  "authRegisterHandler K bcrypt dup D G meth body newID now st =
     (if meth \<noteq> ''POST'' then (refuse 405 ''Method not allowed'', st)
      else case body of None \<Rightarrow> (refuse 400 ''Bad JSON'', st)
       | Some b \<Rightarrow>
         let email = normalizeEmail (a_email b);
             name = (if trim_space (a_name b) = [] then email else trim_space (a_name b));
             users = fst st; config = snd st;
             unlock = (\<lambda>g. fst (delete_many G g (\<lambda>d. get d ''_id'' = Str ''dashboard_bootstrap'')))
         in if email = [] \<or> length (a_password b) < 8
            then (refuse 400 ''Email and password with at least 8 characters are required'', st)
            else (case users_count D users of
              None \<Rightarrow> (refuse 500 ''Database error'', st)
            | Some n \<Rightarrow>
              if n > 0 then (refuse 403 ''Registration is closed. Ask an admin to create your account.'', st)
              else (case insert_one G config [(''_id'', Str ''dashboard_bootstrap''), (''created_at'', Time_v now)] of
                (config1, locked) \<Rightarrow>
                  if \<not> locked
                  then (if dup then refuse 403 ''Registration is closed. Ask an admin to create your account.''
                        else refuse 500 ''Database error'', (users, config1))
                  else (case bcrypt (a_password b) of
                    None \<Rightarrow> (refuse 500 ''Password hashing error'', (users, unlock config1))
                  | Some h \<Rightarrow>
                    let user = \<lparr>u_id = newID, u_email = email, u_name = name, u_hash = h, u_role = RoleAdmin,
                          u_status = ''active'', u_created = utc now, u_updated = utc now, u_epoch = 0\<rparr>
                    in (case insert_one D users user of
                      (users1, ok) \<Rightarrow>
                        if \<not> ok then (if dup then refuse 409 ''User already exists'' else refuse 500 ''Database error'',
                                      (users1, unlock config1))
                        else ((Json 200 (Obj [(''user'', Obj (userResponse user))]),
                               Some (createSessionToken K user now), []), (users1, unlock config1)))))))"

definition authLoginHandler ::
  "token_codec \<Rightarrow> (string \<Rightarrow> string \<Rightarrow> bool) \<Rightarrow> ('c, DashboardUser) driver \<Rightarrow> string \<Rightarrow> authRequest option
     \<Rightarrow> string \<Rightarrow> gotime \<Rightarrow> 'c \<Rightarrow> rateLimiter \<Rightarrow> reply \<times> rateLimiter" where
  "authLoginHandler K verify D meth body ip now users rl =
     (if meth \<noteq> ''POST'' then (refuse 405 ''Method not allowed'', rl)
      else case body of None \<Rightarrow> (refuse 400 ''Bad JSON'', rl)
       | Some b \<Rightarrow>
         let failKey = normalizeEmail (a_email b) @ ''|'' @ ip
         in if rl_blocked rl failKey now
            then (refuse 429 ''Too many failed sign-in attempts. Try again later.'', rl)
            else (case find_one D users (\<lambda>u. u_email u = normalizeEmail (a_email b) \<and> u_status u = ''active'') (\<lambda>_. 0) of
                None \<Rightarrow> (refuse 401 ''Invalid email or password'', rl_hit rl failKey now)
              | Some user \<Rightarrow>
                  if \<not> verify (u_hash user) (a_password b)
                  then (refuse 401 ''Invalid email or password'', rl_hit rl failKey now)
                  else ((Json 200 (Obj [(''user'', Obj (userResponse user))]),
                         Some (createSessionToken K user now), []), rl_reset rl failKey)))"

definition authLogoutHandler :: "string \<Rightarrow> reply" where
  "authLogoutHandler meth =
     (if meth \<noteq> ''POST'' then refuse 405 ''Method not allowed'' else (Status 200, Some [], []))"

definition authMeHandler :: "string \<Rightarrow> SessionClaims option \<Rightarrow> reply" where
  "authMeHandler meth user =
     (if meth \<noteq> ''GET'' then refuse 405 ''Method not allowed''
      else case user of None \<Rightarrow> refuse 401 ''Unauthorized''
       | Some c \<Rightarrow> (Json 200 (Obj [(''user'', Obj [(''id'', Str (c_user c)), (''email'', Str (c_email c)),
            (''name'', Str (c_name c)), (''role'', Str (c_role c))])]), None, []))"

definition authBootstrapHandler :: "('c, DashboardUser) driver \<Rightarrow> string \<Rightarrow> 'c \<Rightarrow> reply" where
  "authBootstrapHandler D meth users =
     (if meth \<noteq> ''GET'' then refuse 405 ''Method not allowed''
      else case users_count D users of None \<Rightarrow> refuse 500 ''Database error''
       | Some n \<Rightarrow> (Json 200 (Obj [(''bootstrap_required'', Bool_v (n = 0))]), None, []))"

subsection \<open>Creating accounts\<close>

definition user_create ::
  "(string \<Rightarrow> string option) \<Rightarrow> bool \<Rightarrow> ('c, DashboardUser) driver \<Rightarrow> authRequest option \<Rightarrow> string \<Rightarrow> gotime \<Rightarrow> 'c
     \<Rightarrow> reply \<times> 'c" where
  "user_create bcrypt dup D body newID now users =
     (case body of None \<Rightarrow> (refuse 400 ''Bad JSON'', users)
      | Some b \<Rightarrow>
        let email = normalizeEmail (a_email b);
            name = (if trim_space (a_name b) = [] then email else trim_space (a_name b));
            role = (if trim_space (a_role b) = [] then RoleViewer else trim_space (a_role b))
        in if email = [] \<or> length (a_password b) < 8 \<or> \<not> validRole role
           then (refuse 400 ''Email, valid role and password with at least 8 characters are required'', users)
           else (case bcrypt (a_password b) of None \<Rightarrow> (refuse 500 ''Password hashing error'', users)
             | Some h \<Rightarrow>
               let user = \<lparr>u_id = newID, u_email = email, u_name = name, u_hash = h, u_role = role,
                     u_status = ''active'', u_created = now, u_updated = now, u_epoch = 0\<rparr>
               in (case insert_one D users user of (users1, ok) \<Rightarrow>
                     if \<not> ok then (if dup then refuse 409 ''User already exists'' else refuse 500 ''Database error'', users1)
                     else ((Json 201 (Obj [(''user'', Obj (userResponse user))]), None,
                            [(''user.created'', email, role)]), users1))))"

text \<open>\<open>limit\<close>, \<open>paged\<close> and \<open>offset\<close> are the parsed paging parameters (\<open>Inl\<close> for an error message).
  The listing comes newest first; \<open>_id\<close> breaks ties.\<close>

definition user_list ::
  "('c, DashboardUser) driver \<Rightarrow> string + (int \<times> bool) \<Rightarrow> int option \<Rightarrow> 'c \<Rightarrow> response" where
  "user_list D page offset users =
     (case page of Inl msg \<Rightarrow> HttpError 400 msg
      | Inr (limit, paged) \<Rightarrow>
        if paged \<and> offset = None then HttpError 400 ''Invalid offset''
        else (case find_docs D users (\<lambda>_. True) of
            None \<Rightarrow> HttpError 500 ''Database error''
          | Some docs \<Rightarrow>
              let sorted = sort_key (\<lambda>u. - inst (u_created u)) (sort_key (\<lambda>u. map of_char (u_id u) :: nat list) docs);
                  off = (case offset of Some n \<Rightarrow> n | None \<Rightarrow> 0);
                  page1 = (if paged then take (nat limit + 1) (drop (nat off) sorted) else sorted);
                  more = (paged \<and> int (length page1) > limit);
                  shown = map (\<lambda>u. Obj (userResponse u)) (if more then take (nat limit) page1 else page1)
              in if \<not> paged then Json 200 (Arr shown)
                 else Json 200 (Obj [(''items'', Arr shown), (''total'', Int_v (int (case users_count D users of Some n \<Rightarrow> n | None \<Rightarrow> 0))),
                        (''next'', Str (if more then dec_str (nat (off + limit)) else []))])))"

text \<open>The largest page a list endpoint hands out is 500 entries; without \<^verbatim>\<open>?limit=\<close> it hands out everything.\<close>

definition maxPageSize :: int where "maxPageSize = 500"

definition parsePageLimit :: "string \<Rightarrow> string + (int \<times> bool)" where
  "parsePageLimit raw =
     (if raw = [] then Inr (0, False)
      else case atoi raw of
        None \<Rightarrow> Inl ''limit must be between 1 and 500''
      | Some n \<Rightarrow> if n < 1 \<or> n > maxPageSize then Inl ''limit must be between 1 and 500'' else Inr (n, True))"

definition usersHandler ::
  "(string \<Rightarrow> string option) \<Rightarrow> bool \<Rightarrow> ('c, DashboardUser) driver \<Rightarrow> string \<Rightarrow> string \<Rightarrow> string \<Rightarrow> authRequest option
     \<Rightarrow> string \<Rightarrow> gotime \<Rightarrow> 'c \<Rightarrow> reply \<times> 'c" where
  "usersHandler bcrypt dup D meth raw_limit raw_offset body newID now users =
     (if meth = ''GET''
      then let offset = (if raw_offset = [] then Some 0
                         else case atoi raw_offset of None \<Rightarrow> None | Some n \<Rightarrow> if n < 0 then None else Some n)
           in ((user_list D (parsePageLimit raw_limit) offset users, None, []), users)
      else if meth = ''POST'' then user_create bcrypt dup D body newID now users
      else (refuse 405 ''Method not allowed'', users))"

subsection \<open>Guards\<close>

definition errSelfChange :: string where "errSelfChange = ''You cannot change your own role or status''"
definition errLastAdmin :: string where "errLastAdmin = ''At least one active admin must remain''"

definition checkRoleChange :: "string \<Rightarrow> string \<Rightarrow> string \<Rightarrow> string \<Rightarrow> bool \<Rightarrow> int \<Rightarrow> string option" where
  "checkRoleChange actorID targetID targetRole newRole targetActive activeAdmins =
     (if actorID = targetID then Some errSelfChange
      else if targetRole = RoleAdmin \<and> newRole \<noteq> RoleAdmin \<and> targetActive \<and> activeAdmins \<le> 1 then Some errLastAdmin
      else None)"

definition checkDeactivate :: "string \<Rightarrow> string \<Rightarrow> string \<Rightarrow> bool \<Rightarrow> int \<Rightarrow> string option" where
  "checkDeactivate actorID targetID targetRole targetActive activeAdmins =
     (if actorID = targetID then Some errSelfChange
      else if targetRole = RoleAdmin \<and> targetActive \<and> activeAdmins \<le> 1 then Some errLastAdmin
      else None)"

definition active_admin :: "DashboardUser \<Rightarrow> bool" where
  "active_admin u \<longleftrightarrow> u_role u = RoleAdmin \<and> u_status u = ''active''"

definition activeAdminCount :: "('c, DashboardUser) driver \<Rightarrow> 'c \<Rightarrow> int" where
  "activeAdminCount D users = (case find_docs D users active_admin of None \<Rightarrow> 0 | Some us \<Rightarrow> int (length us))"

definition loadUserByID :: "('c, DashboardUser) driver \<Rightarrow> 'c \<Rightarrow> string \<Rightarrow> DashboardUser option" where
  "loadUserByID D users userID = find_one D users (\<lambda>u. u_id u = userID) (\<lambda>_. 0)"

text \<open>The arrow of the audit text, as its bytes.\<close>

definition ARROW :: string where "ARROW = '' '' @ [CHR 0xE2, CHR 0x86, CHR 0x92] @ '' ''"

subsection \<open>Changing accounts\<close>

text \<open>An update a handler has decided on: its function and the audit entry it leaves.\<close>

type_synonym user_change = "string \<times> (DashboardUser \<Rightarrow> DashboardUser) \<times> audit"

definition user_write :: "('c, DashboardUser) driver \<Rightarrow> user_change \<Rightarrow> 'c \<Rightarrow> reply \<times> 'c" where
  "user_write D ch users =
     (case ch of (userID, f, entry) \<Rightarrow>
        (case update_one D users (\<lambda>u. u_id u = userID) f of
           (users', None) \<Rightarrow> (refuse 500 ''Database error'', users')
         | (users', Some _) \<Rightarrow> ((Status 200, None, [entry]), users')))"

definition url_parts :: "string \<Rightarrow> string list" where
  "url_parts path = split_on CHR ''/'' (trim_prefix path ''/'')"

text \<open>The dispatcher calls the handlers below only for paths that end in their suffix, so there is a
  second part to read.\<close>

definition userRole_check ::
  "(string \<Rightarrow> string option) \<Rightarrow> ('c, DashboardUser) driver \<Rightarrow> string \<Rightarrow> string \<Rightarrow> string option \<Rightarrow> SessionClaims
     \<Rightarrow> gotime \<Rightarrow> 'c \<Rightarrow> reply + user_change" where
  "userRole_check oid D meth path body actor now users =
     (if meth \<noteq> ''POST'' then Inl (refuse 405 ''Method not allowed'')
      else let parts = url_parts path
           in if length parts \<noteq> 3 \<or> parts ! 0 \<noteq> ''users'' \<or> parts ! 1 = [] \<or> parts ! 2 \<noteq> ''role''
              then Inl (refuse 400 ''Invalid URL'')
              else (case oid (parts ! 1) of None \<Rightarrow> Inl (refuse 400 ''Invalid user id'')
                | Some userID \<Rightarrow> (case body of None \<Rightarrow> Inl (refuse 400 ''Bad JSON'')
                   | Some r \<Rightarrow>
                     let role = trim_space r
                     in if \<not> validRole role then Inl (refuse 400 ''Valid role is required'')
                        else (case loadUserByID D users userID of None \<Rightarrow> Inl (refuse 404 ''User not found'')
                          | Some target \<Rightarrow>
                              (case checkRoleChange (c_user actor) (u_id target) (u_role target) role
                                      (u_status target = ''active'') (activeAdminCount D users) of
                                 Some err \<Rightarrow> Inl (refuse 409 err)
                               | None \<Rightarrow> Inr (userID, (\<lambda>u. u\<lparr>u_role := role, u_updated := now\<rparr>),
                                   (''user.role_changed'', u_email target, u_role target @ ARROW @ role)))))))"

definition then_write :: "('c, DashboardUser) driver \<Rightarrow> reply + user_change \<Rightarrow> 'c \<Rightarrow> reply \<times> 'c" where
  "then_write D decided users = (case decided of Inl r \<Rightarrow> (r, users) | Inr ch \<Rightarrow> user_write D ch users)"

definition userRoleHandler ::
  "(string \<Rightarrow> string option) \<Rightarrow> ('c, DashboardUser) driver \<Rightarrow> string \<Rightarrow> string \<Rightarrow> string option \<Rightarrow> SessionClaims
     \<Rightarrow> gotime \<Rightarrow> 'c \<Rightarrow> reply \<times> 'c" where
  "userRoleHandler oid D meth path body actor now users =
     then_write D (userRole_check oid D meth path body actor now users) users"

definition userStatus_check ::
  "(string \<Rightarrow> string option) \<Rightarrow> ('c, DashboardUser) driver \<Rightarrow> string \<Rightarrow> string \<Rightarrow> string option \<Rightarrow> SessionClaims
     \<Rightarrow> gotime \<Rightarrow> 'c \<Rightarrow> reply + user_change" where
  "userStatus_check oid D meth path body actor now users =
     (if meth \<noteq> ''POST'' then Inl (refuse 405 ''Method not allowed'')
      else let parts = url_parts path
           in case oid (parts ! 1) of None \<Rightarrow> Inl (refuse 400 ''Invalid URL'')
            | Some userID \<Rightarrow>
              if length parts \<noteq> 3 then Inl (refuse 400 ''Invalid URL'')
              else (case body of None \<Rightarrow> Inl (refuse 400 ''Status must be active or disabled'')
                | Some status \<Rightarrow>
                  if status \<noteq> ''active'' \<and> status \<noteq> ''disabled'' then Inl (refuse 400 ''Status must be active or disabled'')
                  else (case loadUserByID D users userID of None \<Rightarrow> Inl (refuse 404 ''User not found'')
                    | Some target \<Rightarrow>
                      if status = ''disabled''
                      then (case checkDeactivate (c_user actor) (u_id target) (u_role target)
                                   (u_status target = ''active'') (activeAdminCount D users) of
                              Some err \<Rightarrow> Inl (refuse 409 err)
                            | None \<Rightarrow> Inr (userID, (\<lambda>u. u\<lparr>u_status := status, u_updated := now, u_epoch := u_epoch u + 1\<rparr>),
                                (''user.deactivate'', u_email target, [])))
                      else Inr (userID, (\<lambda>u. u\<lparr>u_status := status, u_updated := now\<rparr>),
                                (''user.reactivate'', u_email target, [])))))"

definition userStatusHandler ::
  "(string \<Rightarrow> string option) \<Rightarrow> ('c, DashboardUser) driver \<Rightarrow> string \<Rightarrow> string \<Rightarrow> string option \<Rightarrow> SessionClaims
     \<Rightarrow> gotime \<Rightarrow> 'c \<Rightarrow> reply \<times> 'c" where
  "userStatusHandler oid D meth path body actor now users =
     then_write D (userStatus_check oid D meth path body actor now users) users"

definition userRevokeSessionsHandler ::
  "(string \<Rightarrow> string option) \<Rightarrow> ('c, DashboardUser) driver \<Rightarrow> string \<Rightarrow> string \<Rightarrow> 'c \<Rightarrow> reply \<times> 'c" where
  "userRevokeSessionsHandler oid D meth path users =
     then_write D
       (if meth \<noteq> ''POST'' then Inl (refuse 405 ''Method not allowed'')
        else let parts = url_parts path
             in case oid (parts ! 1) of None \<Rightarrow> Inl (refuse 400 ''Invalid URL'')
              | Some userID \<Rightarrow>
                if length parts \<noteq> 4 then Inl (refuse 400 ''Invalid URL'')
                else (case loadUserByID D users userID of None \<Rightarrow> Inl (refuse 404 ''User not found'')
                  | Some target \<Rightarrow> Inr (userID, (\<lambda>u. u\<lparr>u_epoch := u_epoch u + 1\<rparr>),
                      (''user.sessions_revoked'', u_email target, []))))
       users"

definition userPasswordHandler ::
  "(string \<Rightarrow> string option) \<Rightarrow> (string \<Rightarrow> string option) \<Rightarrow> ('c, DashboardUser) driver \<Rightarrow> string \<Rightarrow> string
     \<Rightarrow> string option \<Rightarrow> gotime \<Rightarrow> 'c \<Rightarrow> reply \<times> 'c" where
  "userPasswordHandler oid bcrypt D meth path body now users =
     (if meth \<noteq> ''POST'' then (refuse 405 ''Method not allowed'', users)
      else let parts = url_parts path
           in if length parts \<noteq> 3 \<or> parts ! 0 \<noteq> ''users'' \<or> parts ! 1 = [] \<or> parts ! 2 \<noteq> ''password''
              then (refuse 400 ''Invalid URL'', users)
              else (case oid (parts ! 1) of None \<Rightarrow> (refuse 400 ''Invalid user id'', users)
                | Some userID \<Rightarrow> (case body of None \<Rightarrow> (refuse 400 ''Bad JSON'', users)
                  | Some password \<Rightarrow>
                    if length password < 8 then (refuse 400 ''Password with at least 8 characters is required'', users)
                    else (case bcrypt password of None \<Rightarrow> (refuse 500 ''Password hashing error'', users)
                      | Some h \<Rightarrow>
                        (case update_one D users (\<lambda>u. u_id u = userID)
                                (\<lambda>u. u\<lparr>u_hash := h, u_updated := now, u_epoch := u_epoch u + 1\<rparr>) of
                           (users', None) \<Rightarrow> (refuse 500 ''Database error'', users')
                         | (users', Some n) \<Rightarrow>
                             if n = 0 then (refuse 404 ''User not found'', users')
                             else ((Status 200, None, [(''user.password_reset'',
                                (case loadUserByID D users' userID of Some u \<Rightarrow> u_email u | None \<Rightarrow> userID), [])]), users'))))))"

text \<open>The dispatcher under \<^verbatim>\<open>/users/\<close>. The bodies are what the handler of that path decodes.\<close>

definition userDetailHandler ::
  "(string \<Rightarrow> string option) \<Rightarrow> (string \<Rightarrow> string option) \<Rightarrow> ('c, DashboardUser) driver \<Rightarrow> string \<Rightarrow> string
     \<Rightarrow> string option \<Rightarrow> SessionClaims \<Rightarrow> gotime \<Rightarrow> 'c \<Rightarrow> reply \<times> 'c" where
  "userDetailHandler oid bcrypt D meth path body actor now users =
     (if has_suffix path ''/password'' then userPasswordHandler oid bcrypt D meth path body now users
      else if has_suffix path ''/role'' then userRoleHandler oid D meth path body actor now users
      else if has_suffix path ''/status'' then userStatusHandler oid D meth path body actor now users
      else if has_suffix path ''/sessions/revoke'' then userRevokeSessionsHandler oid D meth path users
      else (refuse 404 ''404 page not found'', users))"

subsection \<open>An active admin remains\<close>

definition ids_unique :: "('c, DashboardUser) driver \<Rightarrow> 'c \<Rightarrow> bool" where
  "ids_unique D users \<longleftrightarrow> distinct (map u_id (held D users))"

definition has_admin :: "('c, DashboardUser) driver \<Rightarrow> 'c \<Rightarrow> bool" where
  "has_admin D users \<longleftrightarrow> (\<exists>u \<in> set (held D users). active_admin u)"

text \<open>A change that keeps an admin: it does not take the last active admin away.\<close>

definition harmless :: "('c, DashboardUser) driver \<Rightarrow> 'c \<Rightarrow> user_change \<Rightarrow> bool" where
  "harmless D users ch \<longleftrightarrow> (case ch of (uid, f, _) \<Rightarrow>
     \<exists>v \<in> set (held D users). active_admin v \<and> (u_id v = uid \<longrightarrow> active_admin (f v)))"

lemma user_write_admin:
  assumes "driver_laws D" "harmless D users ch" "ids_unique D users"
  shows "has_admin D (snd (user_write D ch users))"
proof -
  obtain uid f entry where ch: "ch = (uid, f, entry)" by (cases ch)
  obtain users' n where up: "update_one D users (\<lambda>u. u_id u = uid) f = (users', n)" by fastforce
  have snd: "snd (user_write D ch users) = users'"
    using up by (auto simp: user_write_def ch split: option.split)
  obtain v where v: "v \<in> set (held D users)" "active_admin v" "u_id v = uid \<longrightarrow> active_admin (f v)"
    using assms(2) by (auto simp: harmless_def ch)
  have "\<exists>w \<in> set (held D users'). active_admin w"
    using driver_update_one [OF assms(1) up]
  proof
    assume "held D users' = held D users \<and> (n = None \<or> n = Some 0 \<and> (\<forall>d \<in> set (held D users). u_id d \<noteq> uid))"
    then show ?thesis using v by auto
  next
    assume "(\<exists>d. one_updated (\<lambda>u. u_id u = uid) f (held D users) (held D users') d) \<and> n \<noteq> Some 0"
    then obtain d as bs where d: "held D users = as @ d # bs" "held D users' = as @ f d # bs" "u_id d = uid"
      by (auto simp: one_updated_def)
    then show ?thesis using v by (cases "v = d") auto
  qed
  then show ?thesis by (simp add: has_admin_def snd)
qed

lemma two_admins:
  assumes "driver_laws D" "1 < activeAdminCount D users" "ids_unique D users"
  shows "\<exists>v \<in> set (held D users). active_admin v \<and> u_id v \<noteq> uid"
proof (rule ccontr)
  assume none: "\<not> (\<exists>v \<in> set (held D users). active_admin v \<and> u_id v \<noteq> uid)"
  obtain us where us: "find_docs D users active_admin = Some us"
    using assms(2) by (auto simp: activeAdminCount_def split: option.splits)
  let ?as = "filter active_admin (held D users)"
  have "length us = length ?as" using driver_find [OF assms(1) us] by (metis size_mset)
  then have "1 < length (map u_id ?as)" using assms(2) us by (simp add: activeAdminCount_def)
  moreover have "distinct (map u_id ?as)" using assms(3) by (simp add: ids_unique_def distinct_map_filter)
  moreover have "set (map u_id ?as) \<subseteq> {uid}" using none by auto
  ultimately show False
    using card_mono [of "{uid}" "set (map u_id ?as)"] distinct_card [of "map u_id ?as"] by simp
qed

lemma same_user:
  "ids_unique D users \<Longrightarrow> v \<in> set (held D users) \<Longrightarrow> t \<in> set (held D users) \<Longrightarrow> u_id v = u_id t \<Longrightarrow> v = t"
  by (auto simp: ids_unique_def distinct_map inj_on_def)

lemma role_check_harmless:
  assumes "driver_laws D" "ids_unique D users" "has_admin D users"
    "userRole_check oid D meth path body actor now users = Inr ch"
  shows "harmless D users ch"
proof -
  obtain r uid target where c: "loadUserByID D users uid = Some target"
      "checkRoleChange (c_user actor) (u_id target) (u_role target) (trim_space r) (u_status target = ''active'')
         (activeAdminCount D users) = None"
      "ch = (uid, (\<lambda>u. u\<lparr>u_role := trim_space r, u_updated := now\<rparr>),
         (''user.role_changed'', u_email target, u_role target @ ARROW @ trim_space r))"
    using assms(4) by (auto simp: userRole_check_def Let_def split: if_splits option.splits)
  have t: "target \<in> set (held D users)" "u_id target = uid"
    using driver_find_one [OF assms(1) c(1) [unfolded loadUserByID_def]] by auto
  obtain v where v: "v \<in> set (held D users)" "active_admin v" using assms(3) by (auto simp: has_admin_def)
  show ?thesis
  proof (cases "active_admin target \<and> trim_space r \<noteq> RoleAdmin")
    case True
    then have "1 < activeAdminCount D users"
      using c(2) by (auto simp: checkRoleChange_def active_admin_def split: if_splits)
    then show ?thesis using two_admins [OF assms(1) _ assms(2), of uid] by (auto simp: harmless_def c(3))
  next
    case False
    then have "u_id v = uid \<longrightarrow> active_admin (v\<lparr>u_role := trim_space r, u_updated := now\<rparr>)"
      using same_user [OF assms(2) v(1) t(1)] v(2) t(2) by (auto simp: active_admin_def)
    then show ?thesis using v by (auto simp: harmless_def c(3))
  qed
qed

lemma status_check_harmless:
  assumes "driver_laws D" "ids_unique D users" "has_admin D users"
    "userStatus_check oid D meth path body actor now users = Inr ch"
  shows "harmless D users ch"
proof -
  obtain uid target f entry where c: "loadUserByID D users uid = Some target" "ch = (uid, f, entry)"
      "checkDeactivate (c_user actor) (u_id target) (u_role target) (u_status target = ''active'')
          (activeAdminCount D users) = None
       \<or> (f = (\<lambda>u. u\<lparr>u_status := ''active'', u_updated := now\<rparr>))"
    using assms(4) by (auto simp: userStatus_check_def Let_def split: if_splits option.splits)
  have t: "target \<in> set (held D users)" "u_id target = uid"
    using driver_find_one [OF assms(1) c(1) [unfolded loadUserByID_def]] by auto
  obtain v where v: "v \<in> set (held D users)" "active_admin v" using assms(3) by (auto simp: has_admin_def)
  show ?thesis
  proof (cases "f = (\<lambda>u. u\<lparr>u_status := ''active'', u_updated := now\<rparr>)")
    case True
    then show ?thesis using v by (auto simp: harmless_def c(2) active_admin_def)
  next
    case False
    then have ok: "checkDeactivate (c_user actor) (u_id target) (u_role target) (u_status target = ''active'')
          (activeAdminCount D users) = None" using c(3) by blast
    show ?thesis
    proof (cases "active_admin target")
      case True
      then have "1 < activeAdminCount D users"
        using ok by (auto simp: checkDeactivate_def active_admin_def split: if_splits)
      then show ?thesis using two_admins [OF assms(1) _ assms(2), of uid] by (auto simp: harmless_def c(2))
    next
      case False
      then have "u_id v \<noteq> uid" using same_user [OF assms(2) v(1) t(1)] v(2) t(2) by auto
      then show ?thesis using v by (auto simp: harmless_def c(2))
    qed
  qed
qed

lemma role_check_other:
  assumes "driver_laws D" "userRole_check oid D meth path body actor now users = Inr (uid, f, e)"
  shows "uid \<noteq> c_user actor"
proof -
  obtain target r where "loadUserByID D users uid = Some target"
      "checkRoleChange (c_user actor) (u_id target) (u_role target) (trim_space r) (u_status target = ''active'')
         (activeAdminCount D users) = None"
    using assms(2) by (auto simp: userRole_check_def Let_def split: if_splits option.splits)
  then show ?thesis using driver_find_one [OF assms(1)]
    by (fastforce simp: loadUserByID_def checkRoleChange_def split: if_splits)
qed



definition admin_a :: DashboardUser where "admin_a = sample_user"

definition admin_b :: DashboardUser where
  "admin_b = sample_user\<lparr>u_id := ''507f191e810c19729de860ea'', u_email := ''b@b.c''\<rparr>"

definition claims_of :: "DashboardUser \<Rightarrow> SessionClaims" where
  "claims_of u = \<lparr>c_user = u_id u, c_email = u_email u, c_name = u_name u, c_role = u_role u, c_exp = 0, c_epoch = u_epoch u\<rparr>"

definition demote :: "DashboardUser \<Rightarrow> DashboardUser \<Rightarrow> DashboardUser list \<Rightarrow> reply + user_change" where
  "demote actor target users =
     userRole_check Some list_driver ''POST'' (''/users/'' @ u_id target @ ''/role'') (Some ''viewer'') (claims_of actor)
       \<lparr>inst = 0, off = 0\<rparr> users"


definition demotion :: "DashboardUser \<Rightarrow> user_change" where
  "demotion u = (u_id u, (\<lambda>v. v\<lparr>u_role := ''viewer'', u_updated := \<lparr>inst = 0, off = 0\<rparr>\<rparr>),
     (''user.role_changed'', u_email u, ''admin'' @ ARROW @ ''viewer''))"

lemma demote_passes:
  "demote admin_a admin_b [admin_a, admin_b] = Inr (demotion admin_b)"
  "demote admin_b admin_a [admin_a, admin_b] = Inr (demotion admin_a)"
  by (simp_all add: demote_def userRole_check_def url_parts_def trim_prefix_def admin_a_def admin_b_def sample_user_def
      demotion_def trim_space_def is_space_def validRole_def loadUserByID_def least_def claims_of_def checkRoleChange_def
      activeAdminCount_def active_admin_def Let_def)

text \<open>The guard reads the number of admins and writes later, so it holds only for requests handled
  one after the other: when two admins demote each other at the same time and both checks run
  before either write, both pass and no active admin is left.\<close>

theorem simultaneous_demotions:
  "\<exists>ca cb. demote admin_a admin_b [admin_a, admin_b] = Inr cb \<and> demote admin_b admin_a [admin_a, admin_b] = Inr ca
     \<and> has_admin list_driver [admin_a, admin_b]
     \<and> \<not> has_admin list_driver (snd (user_write list_driver ca (snd (user_write list_driver cb [admin_a, admin_b]))))"
  unfolding demote_passes
  by (intro exI [of _ "demotion admin_a"] exI [of _ "demotion admin_b"])
    (simp add: user_write_def demotion_def has_admin_def admin_a_def admin_b_def sample_user_def active_admin_def)

subsection \<open>Ending sessions and signing in\<close>

lemma password_write:
  assumes "userPasswordHandler oid bcrypt D meth path body now users = ((Status 200, t, es), users')"
  obtains uid h n where "oid (url_parts path ! 1) = Some uid" "0 < n"
    "update_one D users (\<lambda>u. u_id u = uid) (\<lambda>u. u\<lparr>u_hash := h, u_updated := now, u_epoch := u_epoch u + 1\<rparr>) = (users', Some n)"
  using assms by (auto simp: userPasswordHandler_def Let_def split: if_splits option.splits prod.splits)

text \<open>After a password reset succeeds no session that was issued to the account before is accepted:
  a token that carries the account's former epoch is refused.\<close>

theorem password_reset_ends_sessions:
  assumes "driver_laws D" "ids_unique D users" "u \<in> set (held D users)"
    "oid (url_parts path ! 1) = Some (u_id u)"
    "userPasswordHandler oid bcrypt D meth path body now users = ((Status 200, t, es), users')"
    "\<And>claims. parseSessionToken K token later = Some claims \<Longrightarrow> oid (c_user claims) = Some (u_id u) \<and> c_epoch claims = u_epoch u"
  shows "requireAuth K oid D users' (Some token) later = Inl (HttpError 401 ''Unauthorized'')"
proof -
  let ?f = "\<lambda>h u. u\<lparr>u_hash := h, u_updated := now, u_epoch := u_epoch u + 1\<rparr> :: DashboardUser"
  obtain h n where up: "update_one D users (\<lambda>v. u_id v = u_id u) (?f h) = (users', Some n)" "0 < n"
  proof (rule password_write [OF assms(5)])
    fix uid h n
    assume "oid (url_parts path ! 1) = Some uid" "0 < n"
      "update_one D users (\<lambda>v. u_id v = uid) (?f h) = (users', Some n)"
    then show thesis using that [of h n] assms(4) by simp
  qed
  obtain d as bs where d: "held D users = as @ d # bs" "held D users' = as @ ?f h d # bs" "u_id d = u_id u"
  proof -
    have "\<exists>d. one_updated (\<lambda>v. u_id v = u_id u) (?f h) (held D users) (held D users') d"
      using driver_update_one [OF assms(1) up(1)] up(2) by auto
    then show thesis using that unfolding one_updated_def by blast
  qed
  have "d = u" using same_user [OF assms(2), of d u] assms(3) d by simp
  have no: "u_epoch v \<noteq> u_epoch u" if "v \<in> set (held D users')" "u_id v = u_id u" for v
  proof -
    have "u_id d \<notin> u_id ` (set as \<union> set bs)" using assms(2) d(1) by (auto simp: ids_unique_def)
    then have "v \<notin> set as \<union> set bs" using d(3) that(2) by (metis imageI)
    then show ?thesis using that(1) d(2) \<open>d = u\<close> by auto
  qed
  show ?thesis
  proof (cases "parseSessionToken K token later")
    case None
    then show ?thesis by (simp add: requireAuth_def)
  next
    case (Some claims)
    note c = assms(6) [OF Some]
    show ?thesis
    proof (cases "find_one D users' (\<lambda>v. u_id v = u_id u \<and> u_status v = ''active'') (\<lambda>_. 0)")
      case (Some v)
      then show ?thesis using driver_find_one [OF assms(1) Some] no [of v] c \<open>parseSessionToken K token later = Some claims\<close>
        by (auto simp: requireAuth_def)
    qed (use c Some in \<open>simp add: requireAuth_def\<close>)
  qed
qed

theorem password_reset_ends_sessions_witness:
  "requireAuth plain_codec Some list_driver
     (snd (userPasswordHandler Some (\<lambda>p. Some p) list_driver ''POST'' (''/users/'' @ u_id sample_user @ ''/password'')
        (Some ''longenough'') \<lparr>inst = 0, off = 0\<rparr> [sample_user]))
     (Some (createSessionToken plain_codec sample_user \<lparr>inst = 0, off = 0\<rparr>)) \<lparr>inst = 5, off = 0\<rparr>
   = Inl (HttpError 401 ''Unauthorized'')"
proof (rule password_reset_ends_sessions [OF list_driver_laws, where users = "[sample_user]" and u = sample_user])
  show "Some (url_parts (''/users/'' @ u_id sample_user @ ''/password'') ! 1) = Some (u_id sample_user)"
    by (simp add: url_parts_def trim_prefix_def sample_user_def)
  show "userPasswordHandler Some (\<lambda>p. Some p) list_driver ''POST'' (''/users/'' @ u_id sample_user @ ''/password'')
        (Some ''longenough'') \<lparr>inst = 0, off = 0\<rparr> [sample_user] = ((Status 200, None, [(''user.password_reset'', ''a@b.c'', [])]),
     snd (userPasswordHandler Some (\<lambda>p. Some p) list_driver ''POST'' (''/users/'' @ u_id sample_user @ ''/password'')
        (Some ''longenough'') \<lparr>inst = 0, off = 0\<rparr> [sample_user]))"
    by (simp add: userPasswordHandler_def url_parts_def trim_prefix_def sample_user_def loadUserByID_def least_def Let_def)
  fix claims
  assume "parseSessionToken plain_codec (createSessionToken plain_codec sample_user \<lparr>inst = 0, off = 0\<rparr>) \<lparr>inst = 5, off = 0\<rparr> = Some claims"
  then show "Some (c_user claims) = Some (u_id sample_user) \<and> c_epoch claims = u_epoch sample_user"
    using parse_create [OF plain_codec_laws, of sample_user "\<lparr>inst = 5, off = 0\<rparr>" "\<lparr>inst = 0, off = 0\<rparr>"]
    by (auto simp: sample_user_def validRole_def unix_def ns_units)
qed (simp_all add: ids_unique_def)

text \<open>C6. Signing in issues a session only for an active account whose stored hash accepts the password
  and only while the address is not blocked for that email; every refused password counts, a
  success clears the count, and while blocked even the right password is refused and nothing counts.\<close>

theorem login_guarded:
  assumes "driver_laws D"
    "authLoginHandler K verify D ''POST'' (Some b) ip now users rl = ((resp, token, aud), rl')"
  shows "(token \<noteq> None \<longrightarrow> (\<exists>u \<in> set (held D users). u_email u = normalizeEmail (a_email b) \<and> u_status u = ''active''
        \<and> verify (u_hash u) (a_password b) \<and> token = Some (createSessionToken K u now))
        \<and> \<not> rl_blocked rl (normalizeEmail (a_email b) @ ''|'' @ ip) now
        \<and> rl' = rl_reset rl (normalizeEmail (a_email b) @ ''|'' @ ip))
    \<and> (status_of resp = 401 \<longrightarrow> rl' = rl_hit rl (normalizeEmail (a_email b) @ ''|'' @ ip) now)
    \<and> (rl_blocked rl (normalizeEmail (a_email b) @ ''|'' @ ip) now \<longrightarrow>
        status_of resp = 429 \<and> token = None \<and> rl' = rl)"
proof (cases "rl_blocked rl (normalizeEmail (a_email b) @ ''|'' @ ip) now")
  case True
  then show ?thesis using assms(2) by (auto simp: authLoginHandler_def Let_def)
next
  case False
  show ?thesis
  proof (cases "find_one D users (\<lambda>u. u_email u = normalizeEmail (a_email b) \<and> u_status u = ''active'') (\<lambda>_. 0)")
    case None
    then show ?thesis using assms(2) False by (auto simp: authLoginHandler_def Let_def)
  next
    case (Some u)
    have u: "u \<in> set (held D users)" "u_email u = normalizeEmail (a_email b)" "u_status u = ''active''"
      using driver_find_one [OF assms(1) Some] by simp_all
    show ?thesis
    proof (cases "verify (u_hash u) (a_password b)")
      case True
      then show ?thesis using assms(2) False Some u by (auto simp: authLoginHandler_def Let_def)
    next
      case wrong: False
      then show ?thesis using assms(2) False Some by (auto simp: authLoginHandler_def Let_def)
    qed
  qed
qed

theorem login_guarded_witness:
  "\<exists>u \<in> set [sample_user]. u_email u = ''a@b.c''"
proof -
  let ?b = "\<lparr>a_email = '' a@b.c'', a_password = ''h'', a_name = [], a_role = []\<rparr>"
  have e: "normalizeEmail '' a@b.c'' = ''a@b.c''"
    by (simp add: normalizeEmail_def to_lower_def lower_char_def trim_space_def is_space_def)
  have "authLoginHandler plain_codec (=) list_driver ''POST'' (Some ?b) ''ip'' \<lparr>inst = 0, off = 0\<rparr> [sample_user] (newRateLimiter 5 10)
     = ((Json 200 (Obj [(''user'', Obj (userResponse sample_user))]),
         Some (createSessionToken plain_codec sample_user \<lparr>inst = 0, off = 0\<rparr>), []), rl_reset (newRateLimiter 5 10) (''a@b.c|ip''))"
    by (simp add: authLoginHandler_def e rl_blocked_def newRateLimiter_def least_def sample_user_def)
  from login_guarded [OF list_driver_laws this] show ?thesis by (simp add: e)
qed

end
