(* ===== verification/Runs.thy ===== *)
theory Runs
  imports Main
begin

text \<open>
  Step relations, shared by the components whose operations interleave. A component gives its
  atomic steps as a relation on its state; the locale \<open>preserving\<close> is the contract of an
  invariant, \<open>progressing\<close> that of an order in which every step moves forward. What holds of one
  step then holds of every run.
\<close>

named_theorems runs \<open>facts on runs of step relations\<close>

locale preserving =
  fixes step :: "'s \<Rightarrow> 's \<Rightarrow> bool" and inv :: "'s \<Rightarrow> bool"
  assumes step_inv: "step s s' \<Longrightarrow> inv s \<Longrightarrow> inv s'"
begin

lemma run_inv: "step\<^sup>*\<^sup>* s s' \<Longrightarrow> inv s \<Longrightarrow> inv s'"
  by (induction rule: rtranclp_induct) (auto intro: step_inv)

end

locale progressing =
  fixes step :: "'s \<Rightarrow> 's \<Rightarrow> bool" and le :: "'s \<Rightarrow> 's \<Rightarrow> bool"
  assumes le_refl: "le s s"
    and le_trans: "le s t \<Longrightarrow> le t u \<Longrightarrow> le s u"
    and step_le: "step s s' \<Longrightarrow> le s s'"
begin

lemma run_le: "step\<^sup>*\<^sup>* s s' \<Longrightarrow> le s s'"
  by (induction rule: rtranclp_induct) (auto intro: le_refl le_trans step_le)

end

sublocale progressing \<subseteq> above: preserving step "le s0" for s0
  by unfold_locales (blast intro: le_trans step_le)

end
