(* ===== verification/Commands.thy ===== *)
theory Commands
  imports Auth RateLimiter Runs
begin

text \<open>
  Remote commands of \<^verbatim>\<open>api/main.go\<close>: a dashboard user queues a command for a device, the agent
  polls for its pending commands and reports how each one ended. The state is the collection
  \<^verbatim>\<open>device_commands\<close> and the device documents, which carry the quarantine badge and the revocation
  that a wipe leaves. \<open>cmd_step\<close> is the relation of the atomic steps these handlers take, in any
  interleaving of requests.
\<close>

subsection \<open>Commands\<close>

record DeviceCommand =
  cmd_id :: string
  cmd_device :: string
  cmd_type :: string
  cmd_params :: "obj option"  \<comment> \<open>\<open>None\<close> is the nil map\<close>
  cmd_status :: string
  cmd_by :: string
  cmd_created :: gotime
  cmd_delivered :: "gotime option"
  cmd_completed :: "gotime option"
  cmd_result :: string
  cmd_expires :: gotime

definition commandMinRole :: "string \<Rightarrow> string option" where
  "commandMinRole = map_of
    [(''collect_now'', RoleManager), (''restart_agent'', RoleManager), (''lock_screen'', RoleAdmin),
     (''quarantine_enable'', RoleAdmin), (''quarantine_release'', RoleAdmin), (''wipe_agent'', RoleAdmin)]"

text \<open>The JSON form; the fields marked \<^verbatim>\<open>omitempty\<close> are left out when empty.\<close>

definition command_json :: "DeviceCommand \<Rightarrow> val" where
  "command_json cmd = Obj
    ([(''id'', Str (cmd_id cmd)), (''device_id'', Str (cmd_device cmd)), (''type'', Str (cmd_type cmd))]
     @ (case cmd_params cmd of None \<Rightarrow> [] | Some ps \<Rightarrow> if ps = [] then [] else [(''params'', Obj ps)])
     @ [(''status'', Str (cmd_status cmd)), (''created_by'', Str (cmd_by cmd)), (''created_at'', Time_v (cmd_created cmd))]
     @ (case cmd_delivered cmd of None \<Rightarrow> [] | Some t \<Rightarrow> [(''delivered_at'', Time_v t)])
     @ (case cmd_completed cmd of None \<Rightarrow> [] | Some t \<Rightarrow> [(''completed_at'', Time_v t)])
     @ (if cmd_result cmd = [] then [] else [(''result'', Str (cmd_result cmd))])
     @ [(''expires_at'', Time_v (cmd_expires cmd))])"

subsection \<open>Issuing\<close>

text \<open>\<open>env\<close> is the value of \<^verbatim>\<open>QUARANTINE_MAX_HOURS\<close>.\<close>

definition quarantineWindowMinutes :: "string \<Rightarrow> obj \<Rightarrow> float64" where
  "quarantineWindowMinutes env params =
     (let hours0 = i2f (envInt env 24);
          hours = (if hours0 < 1 then 24 else hours0);
          fallback = fmul hours 60
      in case get params ''duration_minutes'' of
           F64 m \<Rightarrow> if 1 \<le> m then (if m > 30 * 24 * 60 then 30 * 24 * 60 else m) else fallback
         | _ \<Rightarrow> fallback)"

definition quarantine_badge :: "gotime \<Rightarrow> float64 \<Rightarrow> obj \<Rightarrow> obj" where
  "quarantine_badge now minutes d =
     al_upd ''quarantine_until'' (Time_v (add now (f2i (fmul minutes (i2f minute_ns)))))
       (al_upd ''quarantined_at'' (Time_v now) (al_upd ''quarantined'' (Bool_v True) d))"

definition release_badge :: "obj \<Rightarrow> obj" where
  "release_badge d = al_del ''quarantine_until'' (al_del ''quarantined_at'' (al_upd ''quarantined'' (Bool_v False) d))"

definition update_device :: "('d, obj) driver \<Rightarrow> string \<Rightarrow> (obj \<Rightarrow> obj) \<Rightarrow> 'd \<Rightarrow> 'd" where
  "update_device DD deviceID f devices = fst (update_one DD devices (\<lambda>d. get d ''device_id'' = Str deviceID) f)"

text \<open>The body is the decoded type and parameters; \<open>newID\<close> is the object id the driver generates.\<close>

definition deviceCommandCreateHandler ::
  "string \<Rightarrow> ('c, DeviceCommand) driver \<Rightarrow> ('d, obj) driver \<Rightarrow> string \<Rightarrow> SessionClaims \<Rightarrow> (string \<times> obj option) option
     \<Rightarrow> string \<Rightarrow> gotime \<Rightarrow> 'c \<times> 'd \<Rightarrow> (response \<times> audit list) \<times> 'c \<times> 'd" where
  "deviceCommandCreateHandler env CD DD deviceID user body newID now st =
     (case st of (cmds, devices) \<Rightarrow>
      (case body of None \<Rightarrow> ((HttpError 400 ''Bad JSON'', []), st)
       | Some (ty, params0) \<Rightarrow>
         let given = (case params0 of None \<Rightarrow> [] | Some ps \<Rightarrow> ps);
             minutes = quarantineWindowMinutes env given;
             params = (if ty = ''quarantine_enable'' then Some (al_upd ''duration_minutes'' (F64 minutes) given) else params0)
         in (case commandMinRole ty of
               None \<Rightarrow> ((HttpError 400 (''Unknown command type. Valid: collect_now, restart_agent, lock_screen, '' @
                          ''quarantine_enable, quarantine_release, wipe_agent''), []), st)
             | Some minRole \<Rightarrow>
               if \<not> canAccessRole (c_role user) minRole
               then ((HttpError 403 (ty @ '' requires role '' @ minRole), []), st)
               else
                 let cmd = \<lparr>cmd_id = newID, cmd_device = deviceID, cmd_type = ty, cmd_params = params,
                       cmd_status = ''pending'', cmd_by = c_email user, cmd_created = now, cmd_delivered = None,
                       cmd_completed = None, cmd_result = [], cmd_expires = add now (24 * hour_ns)\<rparr>
                 in (case insert_one CD cmds cmd of (cmds', ok) \<Rightarrow>
                       if \<not> ok then ((HttpError 500 ''Database error'', []), (cmds', devices))
                       else let devices' =
                              (if ty = ''quarantine_enable'' then update_device DD deviceID (quarantine_badge now minutes) devices
                               else if ty = ''quarantine_release'' then update_device DD deviceID release_badge devices
                               else devices)
                            in ((Json 201 (command_json cmd), [(''device.command.'' @ ty, deviceID, [])]), (cmds', devices'))))))"

definition deviceCommandListHandler :: "('c, DeviceCommand) driver \<Rightarrow> string \<Rightarrow> 'c \<Rightarrow> response" where
  "deviceCommandListHandler CD deviceID cmds =
     (case find_docs CD cmds (\<lambda>c. cmd_device c = deviceID) of
        None \<Rightarrow> HttpError 500 ''Database error''
      | Some cs \<Rightarrow> Json 200 (Obj [(''commands'',
          Arr (map command_json (take 50 (sort_key (\<lambda>c. - inst (cmd_created c)) cs))))]))"

text \<open>The dispatcher behind \<^verbatim>\<open>/devices/{device_id}/commands\<close>.\<close>

definition deviceCommandsHandler ::
  "string \<Rightarrow> token_codec \<Rightarrow> (string \<Rightarrow> string option) \<Rightarrow> ('u, DashboardUser) driver \<Rightarrow> ('c, DeviceCommand) driver
     \<Rightarrow> ('d, obj) driver \<Rightarrow> 'u \<Rightarrow> string option \<Rightarrow> string \<Rightarrow> string \<Rightarrow> (string \<times> obj option) option \<Rightarrow> string \<Rightarrow> gotime
     \<Rightarrow> 'c \<times> 'd \<Rightarrow> (response \<times> audit list) \<times> 'c \<times> 'd" where
  "deviceCommandsHandler env K oid UD CD DD users cookie path meth body newID now st =
     (let parts = split_on CHR ''/'' (trim_prefix path ''/'')
      in if length parts \<noteq> 3 \<or> parts ! 0 \<noteq> ''devices'' \<or> parts ! 1 = [] \<or> parts ! 2 \<noteq> ''commands''
         then ((HttpError 400 ''Invalid URL'', []), st)
         else if meth = ''POST''
         then (case requireRole RoleManager K oid UD users cookie now of
                 Inl r \<Rightarrow> ((r, []), st)
               | Inr user \<Rightarrow> deviceCommandCreateHandler env CD DD (parts ! 1) user body newID now st)
         else if meth = ''GET''
         then (case requireRole RoleViewer K oid UD users cookie now of
                 Inl r \<Rightarrow> ((r, []), st)
               | Inr user \<Rightarrow> ((deviceCommandListHandler CD (parts ! 1) (fst st), []), st))
         else ((HttpError 405 ''Method not allowed'', []), st))"

subsection \<open>Polling\<close>

definition claimable :: "string \<Rightarrow> gotime \<Rightarrow> DeviceCommand \<Rightarrow> bool" where
  "claimable dev now c \<longleftrightarrow> cmd_device c = dev \<and> cmd_status c = ''pending'' \<and> after (cmd_expires c) now"

definition mark_delivered :: "gotime \<Rightarrow> DeviceCommand \<Rightarrow> DeviceCommand" where
  "mark_delivered now c = c\<lparr>cmd_status := ''delivered'', cmd_delivered := Some now\<rparr>"

definition claim_one :: "('c, DeviceCommand) driver \<Rightarrow> string \<Rightarrow> gotime \<Rightarrow> 'c \<Rightarrow> 'c \<times> DeviceCommand option" where
  "claim_one CD dev now cmds = find_update CD cmds (claimable dev now) (\<lambda>c. inst (cmd_created c)) (mark_delivered now)"

text \<open>The loop of the handler: at most \<open>n\<close> claims, each at the time the clock shows then.\<close>

fun claim_loop :: "('c, DeviceCommand) driver \<Rightarrow> string \<Rightarrow> gotime list \<Rightarrow> 'c \<Rightarrow> DeviceCommand list \<times> 'c" where
  "claim_loop CD dev [] cmds = ([], cmds)"
| "claim_loop CD dev (now # clock) cmds =
     (case claim_one CD dev now cmds of
        (cmds', None) \<Rightarrow> ([], cmds')
      | (cmds', Some c) \<Rightarrow> (case claim_loop CD dev clock cmds' of (cs, cmds'') \<Rightarrow> (c # cs, cmds'')))"

text \<open>\<open>clock\<close> lists the times the loop reads; the code allows 20 rounds.\<close>

definition commandsPendingHandler ::
  "(string \<Rightarrow> string) \<Rightarrow> ('c, DeviceCommand) driver \<Rightarrow> ('d, obj) driver \<Rightarrow> string \<Rightarrow> (nat \<Rightarrow> gotime) \<Rightarrow> 'c \<times> 'd
     \<Rightarrow> response \<times> 'c \<times> 'd" where
  "commandsPendingHandler h CD DD key clock st =
     (case st of (cmds, devices) \<Rightarrow>
      (case resolveAPIKey h DD devices key of
         (None, devices') \<Rightarrow> (HttpError 401 ''Unauthorized'', (cmds, devices'))
       | (Some dev, devices') \<Rightarrow>
           (case claim_loop CD dev (map clock [0..<20]) cmds of
              (cs, cmds') \<Rightarrow> (Json 200 (Obj [(''commands'', Arr (map command_json cs))]), (cmds', devices')))))"

subsection \<open>Results\<close>

definition open_command :: "string \<Rightarrow> string \<Rightarrow> DeviceCommand \<Rightarrow> bool" where
  "open_command cid dev c \<longleftrightarrow> cmd_id c = cid \<and> cmd_device c = dev \<and> cmd_status c \<in> {''pending'', ''delivered''}"

definition complete :: "string \<Rightarrow> string \<Rightarrow> gotime \<Rightarrow> DeviceCommand \<Rightarrow> DeviceCommand" where
  "complete status detail now c = c\<lparr>cmd_status := status, cmd_result := detail, cmd_completed := Some now\<rparr>"

definition result_effect :: "DeviceCommand \<Rightarrow> string \<Rightarrow> gotime \<Rightarrow> (obj \<Rightarrow> obj) option" where
  "result_effect cmd status now =
     (if status \<noteq> ''success'' then None
      else if cmd_type cmd = ''wipe_agent''
      then Some (\<lambda>d. al_upd ''wiped_at'' (Time_v now) (al_upd ''revoked_at'' (Time_v now) (al_upd ''status'' (Str ''revoked'') d)))
      else if cmd_type cmd = ''quarantine_release''
      then Some (\<lambda>d. al_del ''quarantined_at'' (al_upd ''quarantined'' (Bool_v False) d))
      else if cmd_type cmd = ''quarantine_enable''
      then Some (\<lambda>d. al_upd ''quarantined_confirmed_at'' (Time_v now) (al_upd ''quarantined'' (Bool_v True) d))
      else None)"

text \<open>The body is the decoded command id, status and detail.\<close>

definition commandsResultHandler ::
  "(string \<Rightarrow> string) \<Rightarrow> (string \<Rightarrow> string option) \<Rightarrow> ('c, DeviceCommand) driver \<Rightarrow> ('d, obj) driver \<Rightarrow> string
     \<Rightarrow> (string \<times> string \<times> string) option \<Rightarrow> gotime \<Rightarrow> 'c \<times> 'd \<Rightarrow> response \<times> 'c \<times> 'd" where
  "commandsResultHandler h oid CD DD key body now st =
     (case st of (cmds, devices) \<Rightarrow>
      (case resolveAPIKey h DD devices key of
         (None, devices') \<Rightarrow> (HttpError 401 ''Unauthorized'', (cmds, devices'))
       | (Some dev, devices') \<Rightarrow>
         (case body of None \<Rightarrow> (HttpError 400 ''Bad JSON'', (cmds, devices'))
          | Some (rawID, status, raw_detail) \<Rightarrow>
            if status \<notin> {''success'', ''failed'', ''unsupported''}
            then (HttpError 400 ''status must be success, failed, or unsupported'', (cmds, devices'))
            else (case oid rawID of None \<Rightarrow> (HttpError 400 ''Invalid command_id'', (cmds, devices'))
              | Some cid \<Rightarrow>
                let detail = take 2000 (trim_space raw_detail)
                in (case find_update CD cmds (open_command cid dev) (\<lambda>_. 0) (complete status detail now) of
                      (cmds', None) \<Rightarrow> (HttpError 404 ''Command not found or already completed'', (cmds', devices'))
                    | (cmds', Some cmd) \<Rightarrow>
                        (Json 200 (command_json cmd),
                         (cmds', (case result_effect cmd status now of
                                    None \<Rightarrow> devices'
                                  | Some f \<Rightarrow> update_device DD dev f devices'))))))))"
subsection \<open>Interleaved steps\<close>

text \<open>The atomic steps of all requests on the command collection. The second component collects the
  commands that polls have handed to agents. Object ids are never reused: a new command's id was
  not seen before.\<close>

inductive cmd_step :: "('c, DeviceCommand) driver \<Rightarrow> 'c \<times> DeviceCommand list \<Rightarrow> 'c \<times> DeviceCommand list \<Rightarrow> bool"
  for CD :: "('c, DeviceCommand) driver" where
  claimed: "claim_one CD dev now cmds = (cmds', Some c) \<Longrightarrow> cmd_step CD (cmds, out) (cmds', out @ [c])"
| unclaimed: "claim_one CD dev now cmds = (cmds', None) \<Longrightarrow> cmd_step CD (cmds, out) (cmds', out)"
| completed: "find_update CD cmds (open_command cid dev) (\<lambda>_. 0) (complete status detail now) = (cmds', r) \<Longrightarrow>
    status \<in> {''success'', ''failed'', ''unsupported''} \<Longrightarrow> cmd_step CD (cmds, out) (cmds', out)"
| created: "insert_one CD cmds c = (cmds', ok) \<Longrightarrow> cmd_status c = ''pending'' \<Longrightarrow>
    cmd_id c \<notin> cmd_id ` (set (held CD cmds) \<union> set out) \<Longrightarrow> cmd_step CD (cmds, out) (cmds', out)"

inductive_cases cmd_stepE: "cmd_step CD s t"

text \<open>A poll is a run of these steps, and what it answers is what they handed out.\<close>

lemma claim_loop_run:
  "claim_loop CD dev clock cmds = (cs, cmds') \<Longrightarrow> (cmd_step CD)\<^sup>*\<^sup>* (cmds, out) (cmds', out @ cs)"
proof (induction clock arbitrary: cmds cs out)
  case (Cons now clock)
  obtain cmds1 r where one: "claim_one CD dev now cmds = (cmds1, r)" by fastforce
  show ?case
  proof (cases r)
    case None
    then show ?thesis using Cons.prems one by (auto intro: cmd_step.unclaimed)
  next
    case (Some c)
    then obtain cs1 where l: "claim_loop CD dev clock cmds1 = (cs1, cmds')" and cs: "cs = c # cs1"
      using Cons.prems one by (auto split: prod.splits)
    have "cmd_step CD (cmds, out) (cmds1, out @ [c])" using one Some by (auto intro: cmd_step.claimed)
    with Cons.IH [OF l, of "out @ [c]"] cs show ?thesis by (auto intro: converse_rtranclp_into_rtranclp)
  qed
qed simp

subsection \<open>Each command is handed out at most once\<close>

definition issued_once :: "('c, DeviceCommand) driver \<Rightarrow> 'c \<times> DeviceCommand list \<Rightarrow> bool" where
  "issued_once CD s \<longleftrightarrow> (case s of (cmds, out) \<Rightarrow>
     distinct (map cmd_id (held CD cmds)) \<and> distinct (map cmd_id out)
     \<and> (\<forall>c \<in> set (held CD cmds). cmd_status c = ''pending'' \<longrightarrow> cmd_id c \<notin> cmd_id ` set out))"

text \<open>An update that keeps the ids and makes nothing pending keeps \<open>issued_once\<close>.\<close>

lemma issued_once_update:
  assumes "held CD cmds' = held CD cmds \<or> (\<exists>d. one_updated P f (held CD cmds) (held CD cmds') d)"
    "\<And>c. cmd_id (f c) = cmd_id c" "\<And>c. cmd_status (f c) \<noteq> ''pending''" "issued_once CD (cmds, out)"
  shows "issued_once CD (cmds', out)"
  using assms by (auto simp: issued_once_def one_updated_def)

lemma issued_once_claim:
  assumes "issued_once CD (cmds, out)" "one_updated (claimable dev now) (mark_delivered now) (held CD cmds) (held CD cmds') d"
  shows "issued_once CD (cmds', out @ [mark_delivered now d])"
  using assms by (auto simp: issued_once_def one_updated_def mark_delivered_def claimable_def image_iff) metis+

lemma cmd_step_issued_once:
  assumes "driver_laws CD" "cmd_step CD s s'" "issued_once CD s"
  shows "issued_once CD s'"
  using assms(2)
proof (cases rule: cmd_step.cases)
  case (claimed dev now cmds cmds' c out)
  then show ?thesis using driver_find_update [OF assms(1) claimed(3) [unfolded claim_one_def]] assms(3)
    by (auto intro: issued_once_claim)
next
  case (unclaimed dev now cmds cmds' out)
  have u: "held CD cmds' = held CD cmds \<or> (\<exists>d. one_updated (claimable dev now) (mark_delivered now) (held CD cmds) (held CD cmds') d)"
    using driver_find_update [OF assms(1) unclaimed(3) [unfolded claim_one_def]] by simp
  then show ?thesis using issued_once_update [OF u, of out] assms(3) unclaimed(1,2) by (simp add: mark_delivered_def)
next
  case (completed cmds cid dev status detail now cmds' r out)
  have u: "held CD cmds' = held CD cmds
      \<or> (\<exists>d. one_updated (open_command cid dev) (complete status detail now) (held CD cmds) (held CD cmds') d)"
    using driver_find_update [OF assms(1) completed(3)] by (auto split: option.splits)
  show ?thesis using issued_once_update [OF u, of out] assms(3) completed(1,2,4) by (auto simp: complete_def)
next
  case (created cmds c cmds' ok out)
  then show ?thesis using driver_insert [OF assms(1) created(3)] assms(3) by (auto simp: issued_once_def)
qed

interpretation commands: preserving "cmd_step CD" "\<lambda>s. driver_laws CD \<longrightarrow> issued_once CD s" for CD
  by unfold_locales (blast intro: cmd_step_issued_once)

text \<open>C10. However the requests of agents and dashboard users interleave, no command is handed to an agent
  twice: in every run of the atomic steps from a collection with distinct ids, the commands that
  polls answered with have distinct ids.\<close>

theorem delivered_once:
  assumes "driver_laws CD" "distinct (map cmd_id (held CD cmds))" "(cmd_step CD)\<^sup>*\<^sup>* (cmds, []) (cmds', out)"
  shows "distinct (map cmd_id out)"
proof -
  have "issued_once CD (cmds, [])" using assms(2) by (simp add: issued_once_def)
  then show ?thesis using commands.run_inv [OF assms(3)] assms(1) by (simp add: issued_once_def)
qed
subsection \<open>What a poll answers\<close>

lemma claimed_from:
  assumes "driver_laws CD" "claim_one CD dev now cmds = (cmds', Some c)"
  shows "\<exists>d as bs. held CD cmds = as @ d # bs \<and> held CD cmds' = as @ c # bs \<and> claimable dev now d
    \<and> c = mark_delivered now d \<and> (\<forall>e \<in> set (held CD cmds). claimable dev now e \<longrightarrow> inst (cmd_created d) \<le> inst (cmd_created e))"
  using driver_find_update [OF assms(1) assms(2) [unfolded claim_one_def]] by (fastforce simp: one_updated_def)

lemma claim_loop_answers:
  assumes "driver_laws CD" "claim_loop CD dev clock cmds = (cs, cmds')" "sorted (map inst clock)"
  shows "length cs \<le> length clock \<and> sorted (map (\<lambda>c. inst (cmd_created c)) cs)
    \<and> (\<forall>c \<in> set cs. \<exists>now \<in> set clock. \<exists>d \<in> set (held CD cmds). claimable dev now d \<and> c = mark_delivered now d)"
  using assms(2,3)
proof (induction clock arbitrary: cmds cs)
  case (Cons now clock)
  obtain cmds1 r where one: "claim_one CD dev now cmds = (cmds1, r)" by fastforce
  show ?case
  proof (cases r)
    case None
    then show ?thesis using Cons.prems one by auto
  next
    case (Some c)
    then obtain cs1 where l: "claim_loop CD dev clock cmds1 = (cs1, cmds')" and cs: "cs = c # cs1"
      using Cons.prems one by (auto split: prod.splits)
    obtain d as bs where d: "held CD cmds = as @ d # bs" "held CD cmds1 = as @ c # bs" "claimable dev now d"
      "c = mark_delivered now d" "\<And>e. e \<in> set (held CD cmds) \<Longrightarrow> claimable dev now e \<Longrightarrow> inst (cmd_created d) \<le> inst (cmd_created e)"
      using claimed_from [OF assms(1) one [unfolded Some]] by blast
    have ih: "length cs1 \<le> length clock" "sorted (map (\<lambda>c. inst (cmd_created c)) cs1)"
      "\<And>x. x \<in> set cs1 \<Longrightarrow> \<exists>t \<in> set clock. \<exists>e \<in> set (held CD cmds1). claimable dev t e \<and> x = mark_delivered t e"
      using Cons.IH [OF l] Cons.prems(2) by auto
    have old: "\<exists>t \<in> set clock. \<exists>e \<in> set (held CD cmds). claimable dev t e \<and> x = mark_delivered t e
        \<and> inst (cmd_created c) \<le> inst (cmd_created x)" if x: "x \<in> set cs1" for x
    proof -
      obtain t e where te: "t \<in> set clock" "e \<in> set (held CD cmds1)" "claimable dev t e" "x = mark_delivered t e"
        using ih(3) [OF x] by blast
      then have "e \<noteq> c" using d(4) by (auto simp: claimable_def mark_delivered_def)
      then have e: "e \<in> set (held CD cmds)" using te(2) d(1,2) by auto
      have "claimable dev now e" using te(1,3) Cons.prems(2) by (auto simp: claimable_def after_def)
      then show ?thesis using te e d(4) d(5) [OF e] by (auto simp: mark_delivered_def)
    qed
    show ?thesis unfolding cs using ih(1,2) old d(1,3,4) by (auto 4 3)
  qed
qed simp

text \<open>A poll with a device's key answers at most twenty commands, oldest first. Each was a pending
  command of that very device which had not expired when it was claimed, and is now recorded as
  delivered at that moment. The claims are steps of the interleaving relation.\<close>

theorem poll_answers:
  assumes "driver_laws CD" "resolveAPIKey h DD devices key = (Some dev, devices1)"
    "commandsPendingHandler h CD DD key clock (cmds, devices) = (resp, (cmds', devices'))"
    "\<And>i j. i \<le> j \<Longrightarrow> inst (clock i) \<le> inst (clock j)"
  shows "\<exists>cs. resp = Json 200 (Obj [(''commands'', Arr (map command_json cs))]) \<and> length cs \<le> 20
    \<and> sorted (map (\<lambda>c. inst (cmd_created c)) cs)
    \<and> (\<forall>c \<in> set cs. \<exists>now d. d \<in> set (held CD cmds) \<and> cmd_device d = dev \<and> cmd_status d = ''pending''
          \<and> after (cmd_expires d) now \<and> c = d\<lparr>cmd_status := ''delivered'', cmd_delivered := Some now\<rparr>)
    \<and> (cmd_step CD)\<^sup>*\<^sup>* (cmds, []) (cmds', cs)"
proof -
  obtain cs where l: "claim_loop CD dev (map clock [0..<20]) cmds = (cs, cmds')"
    and r: "resp = Json 200 (Obj [(''commands'', Arr (map command_json cs))])"
    using assms(2,3) by (auto simp: commandsPendingHandler_def split: prod.splits)
  have "sorted (map inst (map clock [0..<20]))"
    unfolding map_map using assms(4) by (intro sorted_map_mono) (auto intro!: mono_onI)
  then have a: "length cs \<le> length (map clock [0..<20]) \<and> sorted (map (\<lambda>c. inst (cmd_created c)) cs)
    \<and> (\<forall>c \<in> set cs. \<exists>now \<in> set (map clock [0..<20]). \<exists>d \<in> set (held CD cmds). claimable dev now d \<and> c = mark_delivered now d)"
    by (rule claim_loop_answers [OF assms(1) l])
  have "\<forall>c \<in> set cs. \<exists>now d. d \<in> set (held CD cmds) \<and> cmd_device d = dev \<and> cmd_status d = ''pending''
          \<and> after (cmd_expires d) now \<and> c = d\<lparr>cmd_status := ''delivered'', cmd_delivered := Some now\<rparr>"
    using a unfolding claimable_def mark_delivered_def by blast
  moreover have "length cs \<le> 20" using a by (elim conjE) (metis length_map length_upt diff_zero)
  ultimately show ?thesis using r a claim_loop_run [OF l, of "[]"] by (intro exI [of _ cs]) simp
qed

subsection \<open>A finished command stays as it is\<close>

definition finished :: "DeviceCommand \<Rightarrow> bool" where
  "finished c \<longleftrightarrow> cmd_status c \<in> {''success'', ''failed'', ''unsupported''}"

definition keeps_finished :: "('c, DeviceCommand) driver \<Rightarrow> 'c \<times> DeviceCommand list \<Rightarrow> 'c \<times> DeviceCommand list \<Rightarrow> bool" where
  "keeps_finished CD s s' \<longleftrightarrow> driver_laws CD \<longrightarrow>
     (\<forall>c \<in> set (held CD (fst s)). finished c \<longrightarrow> c \<in> set (held CD (fst s')))"

lemma finished_kept:
  assumes "held CD cmds' = held CD cmds \<or> (\<exists>d. one_updated P f (held CD cmds) (held CD cmds') d)"
    "\<And>c. P c \<Longrightarrow> \<not> finished c"
  shows "keeps_finished CD (cmds, out) (cmds', out')"
  using assms by (auto simp: keeps_finished_def one_updated_def)

lemma find_update_cases:
  assumes "driver_laws D" "find_update D c P key f = (c', r)"
  shows "held D c' = held D c \<or> (\<exists>d. one_updated P f (held D c) (held D c') d)"
  using driver_find_update [OF assms] by (auto split: option.splits)

lemma cmd_step_keeps:
  assumes "cmd_step CD s s'"
  shows "keeps_finished CD s s'"
proof (cases "driver_laws CD")
  case True
  note fu = find_update_cases [OF True]
  show ?thesis using assms
  proof (cases rule: cmd_step.cases)
    case (claimed dev now cmds cmds' c out)
    show ?thesis unfolding claimed(1,2)
      by (rule finished_kept [OF fu [OF claimed(3) [unfolded claim_one_def]]]) (auto simp: claimable_def finished_def)
  next
    case (unclaimed dev now cmds cmds' out)
    show ?thesis unfolding unclaimed(1,2)
      by (rule finished_kept [OF fu [OF unclaimed(3) [unfolded claim_one_def]]]) (auto simp: claimable_def finished_def)
  next
    case (completed cmds cid dev status detail now cmds' r out)
    show ?thesis unfolding completed(1,2)
      by (rule finished_kept [OF fu [OF completed(3)]]) (auto simp: open_command_def finished_def)
  next
    case (created cmds c cmds' ok out)
    then show ?thesis using driver_insert [OF True created(3)] by (auto simp: keeps_finished_def)
  qed
qed (simp add: keeps_finished_def)

interpretation finished: progressing "cmd_step CD" "keeps_finished CD" for CD
  proof unfold_locales
  show "cmd_step CD s s' \<Longrightarrow> keeps_finished CD s s'" for s s' by (rule cmd_step_keeps)
qed (auto simp: keeps_finished_def)

text \<open>A command that has ended (success, failed or unsupported) never changes again: in every later
  state of every interleaving the collection holds the very same document.\<close>

theorem finished_is_final:
  assumes "driver_laws CD" "(cmd_step CD)\<^sup>*\<^sup>* (cmds, out) (cmds', out')" "c \<in> set (held CD cmds)"
    "cmd_status c \<in> {''success'', ''failed'', ''unsupported''}"
  shows "c \<in> set (held CD cmds')"
  using finished.run_le [OF assms(2)] assms(1,3,4) unfolding keeps_finished_def finished_def by auto
subsection \<open>Issuing is guarded\<close>

lemma quarantine_at_least_a_minute: "1 \<le> quarantineWindowMinutes env params"
proof -
  let ?h = "if i2f (envInt env 24) < 1 then 24 else i2f (envInt env 24)"
  have "fl 60 = 60" using fl_int_exact [of 60] by simp
  moreover have "fl 60 \<le> fl (?h * 60)" by (rule fl_mono) auto
  ultimately have "1 \<le> fmul ?h 60" by (simp add: fmul_def)
  then show ?thesis by (auto simp: quarantineWindowMinutes_def Let_def split: val.split)
qed

text \<open>A command is queued only by a user whose role reaches the one its type asks for. The queued
  document is pending, for that device, signed with the user's address and valid for 24 hours; a
  quarantine always carries a deadline of at least one minute. Every other outcome queues nothing
  and leaves the devices alone, unless the database answered with an error.\<close>

theorem command_issue:
  assumes "driver_laws CD"
    "deviceCommandCreateHandler env CD DD dev user (Some (ty, params)) newID now (cmds, devices) = ((resp, aud), (cmds', devices'))"
  shows "(status_of resp = 201 \<longrightarrow> (\<exists>role cmd. commandMinRole ty = Some role \<and> canAccessRole (c_role user) role
        \<and> held CD cmds' = held CD cmds @ [cmd] \<and> cmd_device cmd = dev \<and> cmd_type cmd = ty \<and> cmd_status cmd = ''pending''
        \<and> cmd_by cmd = c_email user \<and> cmd_expires cmd = add now (24 * hour_ns)
        \<and> (ty = ''quarantine_enable'' \<longrightarrow> (\<exists>m ps. cmd_params cmd = Some ps \<and> get ps ''duration_minutes'' = F64 m \<and> 1 \<le> m))))
    \<and> (status_of resp \<noteq> 201 \<longrightarrow> aud = [] \<and> devices' = devices \<and> (status_of resp = 500 \<or> cmds' = cmds))"
proof (cases "commandMinRole ty")
  case None
  then show ?thesis using assms(2) by (auto simp: deviceCommandCreateHandler_def Let_def)
next
  case (Some role)
  show ?thesis
  proof (cases "canAccessRole (c_role user) role")
    case False
    then show ?thesis using assms(2) Some by (auto simp: deviceCommandCreateHandler_def Let_def)
  next
    case True
    let ?given = "case params of None \<Rightarrow> [] | Some ps \<Rightarrow> ps"
    let ?m = "quarantineWindowMinutes env ?given"
    let ?cmd = "\<lparr>cmd_id = newID, cmd_device = dev, cmd_type = ty,
        cmd_params = (if ty = ''quarantine_enable'' then Some (al_upd ''duration_minutes'' (F64 ?m) ?given) else params),
        cmd_status = ''pending'', cmd_by = c_email user, cmd_created = now, cmd_delivered = None,
        cmd_completed = None, cmd_result = [], cmd_expires = add now (24 * hour_ns)\<rparr>"
    obtain cmds1 ok where ins: "insert_one CD cmds ?cmd = (cmds1, ok)" by fastforce
    show ?thesis
    proof (cases ok)
      case True
      then have "status_of resp = 201" "cmds' = cmds1" "held CD cmds1 = held CD cmds @ [?cmd]"
        using assms(2) \<open>canAccessRole (c_role user) role\<close> Some ins driver_insert [OF assms(1) ins]
        unfolding deviceCommandCreateHandler_def Let_def by auto
      then show ?thesis using \<open>canAccessRole (c_role user) role\<close> Some quarantine_at_least_a_minute [of env ?given]
        by (intro conjI impI exI [of _ role] exI [of _ ?cmd]) auto
    next
      case False
      then show ?thesis using assms(2) \<open>canAccessRole (c_role user) role\<close> Some ins
        unfolding deviceCommandCreateHandler_def Let_def by auto
    qed
  qed
qed

subsection \<open>A wiped device is locked out\<close>

lemma command_json_type: "command_json c = command_json c' \<Longrightarrow> cmd_type c = cmd_type c'"
  by (simp add: command_json_def)

lemma result_of_wipe:
  assumes "commandsResultHandler h oid CD DD key (Some (rawID, ''success'', detail)) now (cmds, devices)
      = (Json 200 (command_json cmd), (cmds', devices'))" "cmd_type cmd = ''wipe_agent''"
  shows "\<exists>dev devices1. resolveAPIKey h DD devices key = (Some dev, devices1)
    \<and> devices' = update_device DD dev (\<lambda>d. al_upd ''wiped_at'' (Time_v now) (al_upd ''revoked_at'' (Time_v now)
        (al_upd ''status'' (Str ''revoked'') d))) devices1"
proof -
  obtain r devices1 where res: "resolveAPIKey h DD devices key = (r, devices1)" by fastforce
  then obtain dev where r: "r = Some dev" using assms(1) by (cases r) (auto simp: commandsResultHandler_def)
  show ?thesis
  proof (cases "oid rawID")
    case None
    then show ?thesis using assms(1) res r by (simp add: commandsResultHandler_def Let_def)
  next
    case (Some cid)
    obtain cmds1 q where fu: "find_update CD cmds (open_command cid dev) (\<lambda>_. 0)
        (complete ''success'' (take 2000 (trim_space detail)) now) = (cmds1, q)" by fastforce
    show ?thesis
    proof (cases q)
      case None
      then show ?thesis using assms(1) res r Some fu by (simp add: commandsResultHandler_def Let_def)
    next
      case (Some c)
      then have "command_json c = command_json cmd" "devices' = (case result_effect c ''success'' now of
          None \<Rightarrow> devices1 | Some f \<Rightarrow> update_device DD dev f devices1)"
        using assms(1) res r \<open>oid rawID = Some cid\<close> fu by (simp_all add: commandsResultHandler_def Let_def)
      then show ?thesis using assms(2) res r command_json_type [of c cmd] by (simp add: result_effect_def)
    qed
  qed
qed

lemma resolve_keeps_unique:
  assumes "driver_laws DD" "resolveAPIKey h DD devices key = (r, devices1)"
    "at_most_one DD devices (\<lambda>d. get d ''device_id'' = Str dev)"
  shows "at_most_one DD devices1 (\<lambda>d. get d ''device_id'' = Str dev)"
proof (cases "devices1 = devices")
  case False
  then obtain x where x: "devices1 = fst (update_one DD devices (\<lambda>d. get d ''device_id'' = Str x)
      (\<lambda>d. al_del ''api_key'' (al_upd ''api_key_hash'' (Str (h key)) d)))"
    using assms(2) by (auto simp: resolveAPIKey_def Let_def split: if_splits option.splits)
  obtain n where "update_one DD devices (\<lambda>d. get d ''device_id'' = Str x)
      (\<lambda>d. al_del ''api_key'' (al_upd ''api_key_hash'' (Str (h key)) d)) = (devices1, n)"
    using x by (metis prod.collapse)
  then show ?thesis by (rule update_one_at_most_one [OF assms(1) _ _ assms(3)]) simp
qed (use assms(3) in simp)

subsection \<open>A run\<close>

definition sample_command :: DeviceCommand where
  "sample_command = \<lparr>cmd_id = ''c1'', cmd_device = ''d1'', cmd_type = ''wipe_agent'', cmd_params = None,
     cmd_status = ''pending'', cmd_by = ''a@b.c'', cmd_created = \<lparr>inst = 0, off = 0\<rparr>, cmd_delivered = None,
     cmd_completed = None, cmd_result = [], cmd_expires = \<lparr>inst = 100, off = 0\<rparr>\<rparr>"

definition sample_device :: obj where
  "sample_device = [(''device_id'', Str ''d1''), (''api_key_hash'', Str ''k'')]"

definition claims_role :: "string \<Rightarrow> SessionClaims" where
  "claims_role r = \<lparr>c_user = ''u1'', c_email = ''a@b.c'', c_name = [], c_role = r, c_exp = 0, c_epoch = 0\<rparr>"

lemma sample_claim:
  "claim_one list_driver ''d1'' \<lparr>inst = 1, off = 0\<rparr> [sample_command]
     = ([mark_delivered \<lparr>inst = 1, off = 0\<rparr> sample_command], Some (mark_delivered \<lparr>inst = 1, off = 0\<rparr> sample_command))"
  by (simp add: claim_one_def list_driver_def least_def claimable_def sample_command_def after_def)

lemma sample_resolve: "resolveAPIKey (\<lambda>k. k) list_driver [sample_device] ''k'' = (Some ''d1'', [sample_device])"
  by (simp add: resolveAPIKey_def Let_def least_def unrevoked_def sample_device_def)

theorem delivered_once_witness:
  "distinct (map cmd_id [mark_delivered \<lparr>inst = 1, off = 0\<rparr> sample_command])"
proof (rule delivered_once [OF list_driver_laws])
  show "distinct (map cmd_id (held list_driver [sample_command]))" by simp
  show "(cmd_step list_driver)\<^sup>*\<^sup>* ([sample_command], [])
      ([mark_delivered \<lparr>inst = 1, off = 0\<rparr> sample_command], [mark_delivered \<lparr>inst = 1, off = 0\<rparr> sample_command])"
    using cmd_step.claimed [OF sample_claim, of "[]"] by auto
qed

lemma sample_finish:
  "find_update list_driver [sample_command] (open_command ''c1'' ''d1'') (\<lambda>_. 0) (complete ''success'' [] \<lparr>inst = 1, off = 0\<rparr>)
     = ([complete ''success'' [] \<lparr>inst = 1, off = 0\<rparr> sample_command], Some (complete ''success'' [] \<lparr>inst = 1, off = 0\<rparr> sample_command))"
  by (simp add: list_driver_def least_def open_command_def sample_command_def)

theorem finished_is_final_witness:
  "let c = complete ''success'' [] \<lparr>inst = 1, off = 0\<rparr> sample_command
   in c \<in> set (held list_driver [c]) \<and> claim_one list_driver ''d1'' \<lparr>inst = 1, off = 0\<rparr> [c] = ([c], None)"
proof -
  let ?c = "complete ''success'' [] \<lparr>inst = 1, off = 0\<rparr> sample_command"
  have n: "claim_one list_driver ''d1'' \<lparr>inst = 1, off = 0\<rparr> [?c] = ([?c], None)"
    by (simp add: claim_one_def list_driver_def least_def claimable_def complete_def)
  then have "(cmd_step list_driver)\<^sup>*\<^sup>* ([?c], []) ([?c], [])" by blast
  from finished_is_final [OF list_driver_laws this, of ?c] n show ?thesis by (simp add: complete_def Let_def)
qed

theorem poll_answers_witness:
  "\<exists>cs. fst (commandsPendingHandler (\<lambda>k. k) list_driver list_driver ''k'' (\<lambda>i. \<lparr>inst = int i, off = 0\<rparr>) ([sample_command], [sample_device]))
     = Json 200 (Obj [(''commands'', Arr (map command_json cs))]) \<and> length cs \<le> 20"
proof -
  obtain resp st where r: "commandsPendingHandler (\<lambda>k. k) list_driver list_driver ''k'' (\<lambda>i. \<lparr>inst = int i, off = 0\<rparr>)
      ([sample_command], [sample_device]) = (resp, st)" by (meson surj_pair)
  then have "commandsPendingHandler (\<lambda>k. k) list_driver list_driver ''k'' (\<lambda>i. \<lparr>inst = int i, off = 0\<rparr>)
      ([sample_command], [sample_device]) = (resp, (fst st, snd st))" by simp
  from poll_answers [OF list_driver_laws sample_resolve this] show ?thesis by (auto simp: r)
qed

theorem command_issue_witness:
  "\<exists>role cmd. commandMinRole ''lock_screen'' = Some role
     \<and> held list_driver (fst (snd (deviceCommandCreateHandler [] list_driver list_driver ''d1'' (claims_role ''admin'')
          (Some (''lock_screen'', None)) ''c9'' \<lparr>inst = 0, off = 0\<rparr> ([], [sample_device])))) = [cmd]"
proof -
  have "\<exists>b. deviceCommandCreateHandler [] list_driver list_driver ''d1'' (claims_role ''admin'')
      (Some (''lock_screen'', None)) ''c9'' \<lparr>inst = 0, off = 0\<rparr> ([], [sample_device])
    = ((Json 201 b, [(''device.command.lock_screen'', ''d1'', [])]),
       (fst (snd (deviceCommandCreateHandler [] list_driver list_driver ''d1'' (claims_role ''admin'')
          (Some (''lock_screen'', None)) ''c9'' \<lparr>inst = 0, off = 0\<rparr> ([], [sample_device]))), [sample_device]))"
    by (simp add: deviceCommandCreateHandler_def Let_def commandMinRole_def claims_role_def canAccessRole_def roleRank_def)
  then obtain b where "deviceCommandCreateHandler [] list_driver list_driver ''d1'' (claims_role ''admin'')
      (Some (''lock_screen'', None)) ''c9'' \<lparr>inst = 0, off = 0\<rparr> ([], [sample_device])
    = ((Json 201 b, [(''device.command.lock_screen'', ''d1'', [])]),
       (fst (snd (deviceCommandCreateHandler [] list_driver list_driver ''d1'' (claims_role ''admin'')
          (Some (''lock_screen'', None)) ''c9'' \<lparr>inst = 0, off = 0\<rparr> ([], [sample_device]))), [sample_device]))" by blast
  from command_issue [OF list_driver_laws this] show ?thesis by auto
qed


end
