(* ===== verification/Versions.thy ===== *)
theory Versions
  imports RateLimiter
begin

text \<open>
  Agent versions of \<^verbatim>\<open>api/main.go\<close>: their numeric parts, their prerelease, and the comparison that
  decides which release is newer. The locale \<open>version_order\<close> is the contract the release handlers
  rely on: the comparison is a total preorder, so that "the newest" exists and is found by one scan
  in any order.
\<close>

named_theorems versions \<open>facts on version comparison\<close>

subsection \<open>Parts and prerelease\<close>

definition version_sep :: "char \<Rightarrow> bool" where
  "version_sep c \<longleftrightarrow> c = CHR ''-'' \<or> c = CHR ''+''"

fun version_numbers :: "string list \<Rightarrow> int list" where
  "version_numbers [] = []"
| "version_numbers (raw # rest) = (case atoi raw of None \<Rightarrow> [] | Some n \<Rightarrow> n # version_numbers rest)"

definition agentVersionParts :: "string \<Rightarrow> int list" where
  "agentVersionParts v =
     (case dropWhile version_sep v of [] \<Rightarrow> []
      | w \<Rightarrow> version_numbers (split_on CHR ''.'' (takeWhile (\<lambda>c. \<not> version_sep c) w)))"

definition agentVersionPrerelease :: "string \<Rightarrow> string" where
  "agentVersionPrerelease v0 =
     (let v = takeWhile (\<lambda>c. c \<noteq> CHR ''+'') v0
      in case dropWhile (\<lambda>c. c \<noteq> CHR ''-'') v of [] \<Rightarrow> [] | _ # pre \<Rightarrow> pre)"

subsection \<open>Comparison\<close>

text \<open>The loop over the longer of the two lists; a missing part counts as zero.\<close>

fun compare_parts :: "int list \<Rightarrow> int list \<Rightarrow> int" where
  "compare_parts [] [] = 0"
| "compare_parts (a # as) [] = (if a > 0 then 1 else if a < 0 then -1 else compare_parts as [])"
| "compare_parts [] (b # bs) = (if 0 > b then 1 else if 0 < b then -1 else compare_parts [] bs)"
| "compare_parts (a # as) (b # bs) = (if a > b then 1 else if a < b then -1 else compare_parts as bs)"

text \<open>\<^verbatim>\<open>strings.Compare\<close>: by bytes.\<close>

definition strings_compare :: "string \<Rightarrow> string \<Rightarrow> int" where
  "strings_compare a b = (if a = b then 0 else if a < b then -1 else 1)"

definition compare_pre :: "string \<Rightarrow> string \<Rightarrow> int" where
  "compare_pre apre bpre =
     (if apre = bpre then 0 else if apre = [] then 1 else if bpre = [] then -1 else strings_compare apre bpre)"

definition compareAgentVersions :: "string \<Rightarrow> string \<Rightarrow> int" where
  "compareAgentVersions a b =
     (let c = compare_parts (agentVersionParts a) (agentVersionParts b)
      in if c \<noteq> 0 then c else compare_pre (agentVersionPrerelease a) (agentVersionPrerelease b))"

subsection \<open>Comparisons that order\<close>

locale version_order =
  fixes cmp :: "'a \<Rightarrow> 'a \<Rightarrow> int"
  assumes cmp_flip: "cmp b a = - cmp a b"
    and cmp_trans: "0 \<le> cmp a b \<Longrightarrow> 0 \<le> cmp b c \<Longrightarrow> 0 \<le> cmp a c"
begin

lemma cmp_self: "cmp a a = 0"
  using cmp_flip [of a a] by simp

lemma cmp_total: "0 \<le> cmp a b \<or> 0 \<le> cmp b a"
  using cmp_flip [of a b] by linarith

lemma cmp_strict: "0 < cmp a b \<Longrightarrow> 0 \<le> cmp b c \<Longrightarrow> 0 < cmp a c"
  using cmp_trans [of a b c] cmp_trans [of b c a] cmp_flip [of a b] cmp_flip [of a c] by linarith

lemma cmp_strict': "0 \<le> cmp a b \<Longrightarrow> 0 < cmp b c \<Longrightarrow> 0 < cmp a c"
  using cmp_trans [of a b c] cmp_trans [of c a b] cmp_flip [of c b] cmp_flip [of a c] by linarith

lemma cmp_equal: "cmp a b = 0 \<Longrightarrow> cmp a c = cmp b c \<or> (cmp a c \<noteq> 0 \<and> cmp b c \<noteq> 0 \<and> (0 < cmp a c \<longleftrightarrow> 0 < cmp b c))"
  using cmp_strict [of a c b] cmp_strict' [of b a c] cmp_strict' [of a b c] cmp_strict [of c a b] cmp_strict [of c b a]
    cmp_flip [of a b] cmp_flip [of a c] cmp_flip [of b c] by linarith

end

text \<open>Comparing images, and comparing by a first and then by a second criterion.\<close>

lemma version_order_image: "version_order cmp \<Longrightarrow> version_order (\<lambda>a b. cmp (f a) (f b))"
  unfolding version_order_def by blast

lemma version_order_then:
  assumes "version_order c1" "version_order c2"
  shows "version_order (\<lambda>a b. if c1 a b \<noteq> 0 then c1 a b else c2 a b)"
proof
  fix a b c
  show "(if c1 b a \<noteq> 0 then c1 b a else c2 b a) = - (if c1 a b \<noteq> 0 then c1 a b else c2 a b)"
    using version_order.cmp_flip [OF assms(1), of a b] version_order.cmp_flip [OF assms(2), of a b] by auto
  assume ab: "0 \<le> (if c1 a b \<noteq> 0 then c1 a b else c2 a b)" and bc: "0 \<le> (if c1 b c \<noteq> 0 then c1 b c else c2 b c)"
  then have ge: "0 \<le> c1 a b" "0 \<le> c1 b c" by (auto split: if_splits)
  then have ac: "0 \<le> c1 a c" by (rule version_order.cmp_trans [OF assms(1)])
  show "0 \<le> (if c1 a c \<noteq> 0 then c1 a c else c2 a c)"
  proof (cases "c1 a c = 0")
    case True
    then have "c1 a b = 0" "c1 b c = 0"
      using version_order.cmp_strict [OF assms(1), of a b c] version_order.cmp_strict' [OF assms(1), of a b c] ge by force+
    then show ?thesis using True ab bc version_order.cmp_trans [OF assms(2), of a b c] by simp
  qed (use ac in simp)
qed

subsection \<open>The comparison orders\<close>

lemma compare_parts_step:
  "compare_parts as bs =
     (let a = (case as of [] \<Rightarrow> 0 | x # _ \<Rightarrow> x); b = (case bs of [] \<Rightarrow> 0 | x # _ \<Rightarrow> x)
      in if a > b then 1 else if a < b then -1 else compare_parts (tl as) (tl bs))"
  by (cases as; cases bs) simp_all

lemma parts_order: "version_order compare_parts"
proof
  show "compare_parts bs as = - compare_parts as bs" for as bs
    by (induction as bs rule: compare_parts.induct) auto
  show "0 \<le> compare_parts as cs" if "0 \<le> compare_parts as bs" "0 \<le> compare_parts bs cs" for as bs cs
    using that
  proof (induction "length as + length bs + length cs" arbitrary: as bs cs rule: less_induct)
    case less
    let ?h = "\<lambda>xs. case xs of [] \<Rightarrow> 0 | x # _ \<Rightarrow> (x :: int)"
    have ge: "?h as \<ge> ?h bs" "?h bs \<ge> ?h cs"
      using less.prems compare_parts_step [of as bs] compare_parts_step [of bs cs] by (auto simp: Let_def split: if_splits)
    show ?case
    proof (cases "as = [] \<and> bs = [] \<and> cs = []")
      case False
      then have len: "length (tl as) + length (tl bs) + length (tl cs) < length as + length bs + length cs"
        by (cases as; cases bs; cases cs) auto
      show ?thesis
      proof (cases "?h as = ?h cs")
        case True
        then have eq: "?h as = ?h bs" "?h bs = ?h cs" using ge by linarith+
        have "0 \<le> compare_parts (tl as) (tl bs)" "0 \<le> compare_parts (tl bs) (tl cs)"
          using less.prems compare_parts_step [of as bs] compare_parts_step [of bs cs] eq by (simp_all add: Let_def)
        then have "0 \<le> compare_parts (tl as) (tl cs)" by (rule less.hyps [OF len])
        then show ?thesis using compare_parts_step [of as cs] True by (simp add: Let_def)
      qed (use ge compare_parts_step [of as cs] in \<open>simp add: Let_def\<close>)
    qed simp
  qed
qed

lemma pre_order: "version_order compare_pre"
  by unfold_locales (auto simp: compare_pre_def strings_compare_def split: if_splits)

interpretation agent_versions: version_order compareAgentVersions
proof -
  have "version_order (\<lambda>a b. if compare_parts (agentVersionParts a) (agentVersionParts b) \<noteq> 0
      then compare_parts (agentVersionParts a) (agentVersionParts b)
      else compare_pre (agentVersionPrerelease a) (agentVersionPrerelease b))"
    by (rule version_order_then [OF version_order_image [OF parts_order] version_order_image [OF pre_order]])
  then show "version_order compareAgentVersions"
    by (simp add: compareAgentVersions_def [abs_def] Let_def)
qed

text \<open>Version comparison is a total preorder: antisymmetric in sign, transitive, and every two
  versions are comparable; so a newest release of a non-empty collection exists.\<close>

theorem versions_ordered:
  "compareAgentVersions b a = - compareAgentVersions a b
   \<and> (0 \<le> compareAgentVersions a b \<and> 0 \<le> compareAgentVersions b c \<longrightarrow> 0 \<le> compareAgentVersions a c)
   \<and> (0 < compareAgentVersions a b \<and> 0 \<le> compareAgentVersions b c \<longrightarrow> 0 < compareAgentVersions a c)"
  using agent_versions.cmp_flip agent_versions.cmp_trans agent_versions.cmp_strict by blast

lemma version_samples:
  "compareAgentVersions ''1.2.0'' ''1.2'' = 0" "compareAgentVersions ''1.10.0'' ''1.9.9'' = 1"
  "compareAgentVersions ''1.2.0'' ''1.2.0-rc1'' = 1" "compareAgentVersions ''1.2.0+b7'' ''1.2.0'' = 0"
  "compareAgentVersions ''1.9.9'' ''1.2.0-rc1'' = 1"
  by code_simp+

theorem versions_ordered_witness: "0 < compareAgentVersions ''1.10.0'' ''1.2.0-rc1''"
proof -
  have "0 < compareAgentVersions ''1.10.0'' ''1.9.9''" "0 \<le> compareAgentVersions ''1.9.9'' ''1.2.0-rc1''"
    by (simp_all only: version_samples)
  then show ?thesis using versions_ordered [where a = "''1.10.0''" and b = "''1.9.9''" and c = "''1.2.0-rc1''"] by blast
qed

subsection \<open>One scan finds the best\<close>

text \<open>A scan that keeps the first entry and replaces it whenever a strictly better one comes.\<close>

locale best_choice =
  fixes better :: "'a \<Rightarrow> 'a \<Rightarrow> bool"
  assumes asym: "better a b \<Longrightarrow> \<not> better b a"
    and neg_trans: "\<not> better a b \<Longrightarrow> \<not> better b c \<Longrightarrow> \<not> better a c"
begin

lemma scan_best:
  "foldl (\<lambda>e r. if better r e then r else e) x xs \<in> set (x # xs)
   \<and> (\<forall>y \<in> set (x # xs). \<not> better y (foldl (\<lambda>e r. if better r e then r else e) x xs))"
proof (induction xs arbitrary: x)
  case Nil
  then show ?case using asym by auto
next
  case (Cons z zs)
  let ?x = "if better z x then z else x"
  have "\<not> better y ?x" if "y \<in> {x, z}" for y using that asym by auto
  then show ?case using Cons.IH [of ?x] neg_trans by (auto split: if_splits)
qed

end

sublocale version_order \<subseteq> newer: best_choice "\<lambda>a b. 0 < cmp a b"
proof unfold_locales
  show "\<not> 0 < cmp b a" if "0 < cmp a b" for a b using that cmp_flip [of a b] by simp
  show "\<not> 0 < cmp a c" if "\<not> 0 < cmp a b" "\<not> 0 < cmp b c" for a b c
    using that cmp_strict [of a c b] cmp_flip [of b c] by linarith
qed

end
