(* ===== verification/Releases.thy ===== *)
theory Releases
  imports Auth Versions GoUrl
begin

text \<open>
  Agent releases of \<^verbatim>\<open>api/main.go\<close>: publishing, listing, activating, signing and rolling out, and
  the check with which agents ask for updates. The state is the collection \<^verbatim>\<open>agent_releases\<close> and
  the device documents, which carry the version an agent reported and the version it should move to.
  Base64, Ed25519 and the presigning of S3 are parameters (\<open>release_crypto\<close>, \<open>presign\<close>);
  \<open>env\<close> is \<^verbatim>\<open>os.Getenv\<close>, the empty string for a variable that is not set.
\<close>

subsection \<open>Releases and settings\<close>

record AgentRelease =
  rel_version :: string
  rel_os :: string
  rel_arch :: string
  rel_url :: string
  rel_s3 :: string
  rel_checksum :: string
  rel_published :: gotime
  rel_pending :: bool
  rel_signature :: string

definition release_json :: "AgentRelease \<Rightarrow> val" where
  "release_json r = Obj
    ([(''version'', Str (rel_version r)), (''os'', Str (rel_os r)), (''arch'', Str (rel_arch r)),
      (''download_url'', Str (rel_url r))]
     @ (if rel_s3 r = [] then [] else [(''s3_key'', Str (rel_s3 r))])
     @ [(''checksum_sha256'', Str (rel_checksum r)), (''published_at'', Time_v (rel_published r))]
     @ (if rel_pending r then [(''pending_activation'', Bool_v True)] else [])
     @ (if rel_signature r = [] then [] else [(''signature'', Str (rel_signature r))]))"

definition validAgentOS :: "string \<Rightarrow> bool" where
  "validAgentOS os \<longleftrightarrow> os \<in> {''linux'', ''windows'', ''darwin''}"

definition validAgentArch :: "string \<Rightarrow> bool" where
  "validAgentArch arch \<longleftrightarrow> arch \<in> {''amd64'', ''arm64''}"

definition updateRequiresSignature :: "(string \<Rightarrow> string) \<Rightarrow> bool" where
  "updateRequiresSignature env = eq_fold (trim_space (env ''UPDATE_REQUIRE_SIGNATURE'')) ''true''"

definition releasesRequireActivation :: "(string \<Rightarrow> string) \<Rightarrow> bool" where
  "releasesRequireActivation env = eq_fold (trim_space (env ''RELEASES_REQUIRE_ACTIVATION'')) ''true''"

subsection \<open>Signatures\<close>

text \<open>The message a release signature covers; the agent's updater builds the same.\<close>

definition releaseSigningMessage :: "string \<Rightarrow> string \<Rightarrow> string \<Rightarrow> string \<Rightarrow> string" where
  "releaseSigningMessage version goos goarch checksum =
     ''devicepulse-release-v1'' @ [CHR 0x0A] @ version @ [CHR 0x0A] @ goos @ ''/'' @ goarch @ [CHR 0x0A] @ to_lower checksum"

record release_crypto =
  b64_decode :: "string \<Rightarrow> string option"
  b64_encode :: "string \<Rightarrow> string"
  ed_verify :: "string \<Rightarrow> string \<Rightarrow> string \<Rightarrow> bool"
  ed_sign :: "string \<Rightarrow> string \<Rightarrow> string"
  ed_from_seed :: "string \<Rightarrow> string"

definition signingKeyFromEnv :: "release_crypto \<Rightarrow> (string \<Rightarrow> string) \<Rightarrow> string option" where
  "signingKeyFromEnv C env =
     (case b64_decode C (trim_space (env ''RELEASE_SIGNING_KEY'')) of
        None \<Rightarrow> None
      | Some raw \<Rightarrow> if raw = [] then None
          else if length raw = 32 then Some (ed_from_seed C raw)
          else if length raw = 64 then Some raw
          else None)"

text \<open>\<open>None\<close> stands for no error.\<close>

definition verifyReleaseSignature :: "release_crypto \<Rightarrow> (string \<Rightarrow> string) \<Rightarrow> AgentRelease \<Rightarrow> string \<Rightarrow> string option" where
  "verifyReleaseSignature C env rel sigB64 =
     (case b64_decode C (trim_space sigB64) of
        None \<Rightarrow> Some ''signature must be a base64-encoded 64-byte Ed25519 signature''
      | Some sig \<Rightarrow>
        if length sig \<noteq> 64 then Some ''signature must be a base64-encoded 64-byte Ed25519 signature''
        else let pubB64 = trim_space (env ''UPDATE_PUBLIC_KEY'')
             in if pubB64 = [] then None
                else (case b64_decode C pubB64 of
                        None \<Rightarrow> Some ''UPDATE_PUBLIC_KEY is misconfigured on the server''
                      | Some pub \<Rightarrow>
                        if length pub \<noteq> 32 then Some ''UPDATE_PUBLIC_KEY is misconfigured on the server''
                        else if \<not> ed_verify C pub (releaseSigningMessage (rel_version rel) (rel_os rel) (rel_arch rel) (rel_checksum rel)) sig
                        then Some ''signature does not verify against the configured public key''
                        else None))"

subsection \<open>Where a release is downloaded\<close>

definition trim_char :: "char \<Rightarrow> string \<Rightarrow> string" where
  "trim_char c s = rev (dropWhile (\<lambda>x. x = c) (rev (dropWhile (\<lambda>x. x = c) s)))"

definition trim_right_char :: "char \<Rightarrow> string \<Rightarrow> string" where
  "trim_right_char c s = rev (dropWhile (\<lambda>x. x = c) (rev s))"

definition release_prefix :: "(string \<Rightarrow> string) \<Rightarrow> string" where
  "release_prefix env =
     (let prefix = trim_char CHR ''/'' (trim_space (env ''AGENT_RELEASE_S3_PREFIX''))
      in if prefix = [] then ''agent-releases'' else prefix)"

definition agentReleaseS3Key :: "(string \<Rightarrow> string) \<Rightarrow> AgentRelease \<Rightarrow> string" where
  "agentReleaseS3Key env rel =
     (if rel_s3 rel \<noteq> [] then rel_s3 rel
      else (case url_parse (rel_url rel) of
              None \<Rightarrow> []
            | Some u \<Rightarrow> (case unescape_path (trim_prefix (u_path u) ''/'') of
                None \<Rightarrow> []
              | Some key \<Rightarrow>
                  let pre = release_prefix env
                  in if prefix (pre @ ''/'' @ pre @ ''/'') key then trim_prefix key (pre @ ''/'') else key)))"

definition agentReleaseBucketName :: "(string \<Rightarrow> string) \<Rightarrow> string" where
  "agentReleaseBucketName env =
     (case filter (\<lambda>v. v \<noteq> []) (map (\<lambda>k. trim_space (env k)) [''AGENT_RELEASE_S3_BUCKET'', ''AGENT_RELEASE_BUCKET'', ''S3_BUCKET'']) of
        [] \<Rightarrow> [] | v # _ \<Rightarrow> v)"

text \<open>\<open>presign\<close> is the S3 client: given bucket, key and lifetime it signs a URL, or fails (also when the
  AWS configuration cannot be loaded). \<open>duration\<close> is \<^verbatim>\<open>time.ParseDuration\<close>.\<close>

definition agentReleaseDownloadURL ::
  "(string \<Rightarrow> string) \<Rightarrow> (string \<Rightarrow> int option) \<Rightarrow> (string \<Rightarrow> string \<Rightarrow> int \<Rightarrow> string option) \<Rightarrow> AgentRelease \<Rightarrow> string" where
  "agentReleaseDownloadURL env duration presign rel =
     (let s3Key = agentReleaseS3Key env rel
      in if s3Key = [] \<or> eq_fold (env ''AGENT_RELEASE_PRESIGN_DOWNLOADS'') ''false'' then rel_url rel
         else if agentReleaseBucketName env = [] then rel_url rel
         else let raw = trim_space (env ''AGENT_RELEASE_PRESIGN_TTL'');
                  expires = (if raw = [] then 24 * hour_ns
                             else case duration raw of None \<Rightarrow> 24 * hour_ns
                                | Some d \<Rightarrow> if d > 0 then d else 24 * hour_ns)
              in (case presign (agentReleaseBucketName env) s3Key expires of None \<Rightarrow> rel_url rel | Some url \<Rightarrow> url))"

subsection \<open>The update check\<close>

definition device_is :: "string \<Rightarrow> obj \<Rightarrow> bool" where
  "device_is dev d \<longleftrightarrow> get d ''device_id'' = Str dev"

definition set_device :: "('d, obj) driver \<Rightarrow> string \<Rightarrow> (obj \<Rightarrow> obj) \<Rightarrow> 'd \<Rightarrow> 'd" where
  "set_device DD dev f devices = fst (update_one DD devices (device_is dev) f)"

definition deviceTargetsRelease :: "('d, obj) driver \<Rightarrow> 'd \<Rightarrow> string \<Rightarrow> string \<Rightarrow> bool" where
  "deviceTargetsRelease DD devices deviceID version =
     (if deviceID = [] then False
      else (case find_one DD devices (device_is deviceID) (\<lambda>_. 0) of
              None \<Rightarrow> False
            | Some d \<Rightarrow> ''agent_update_requested_at'' \<in> fst ` set d \<and> str_of (get d ''agent_target_version'') = version))"

definition status_update :: "string \<Rightarrow> string \<Rightarrow> gotime \<Rightarrow> obj \<Rightarrow> obj" where
  "status_update status target now d =
     (let d1 = al_upd ''agent_last_checked'' (Time_v now) (al_upd ''agent_update_status'' (Str status) d)
      in if target \<noteq> [] then al_upd ''agent_target_version'' (Str target) d1
         else if status = ''up_to_date'' then al_del ''agent_update_requested_at'' (al_del ''agent_target_version'' d1)
         else d1)"

definition markAgentUpdateStatus ::
  "(string \<Rightarrow> string) \<Rightarrow> ('d, obj) driver \<Rightarrow> string \<Rightarrow> string \<Rightarrow> string \<Rightarrow> gotime \<Rightarrow> 'd \<Rightarrow> 'd" where
  "markAgentUpdateStatus h DD key status target now devices =
     (case resolveAPIKey h DD devices key of
        (None, devices') \<Rightarrow> devices'
      | (Some dev, devices') \<Rightarrow> set_device DD dev (status_update status target now) devices')"

definition checked_in :: "string \<Rightarrow> string \<Rightarrow> string \<Rightarrow> gotime \<Rightarrow> obj \<Rightarrow> obj" where
  "checked_in version os arch now d =
     al_upd ''agent_update_status'' (Str ''checking'') (al_upd ''agent_last_checked'' (Time_v now)
       (al_upd ''agent_arch'' (Str arch) (al_upd ''agent_os'' (Str os) (al_upd ''agent_version'' (Str version) d))))"

text \<open>The releases an agent of this platform may be offered, newest publication first.\<close>

definition offered :: "(string \<Rightarrow> string) \<Rightarrow> string \<Rightarrow> string \<Rightarrow> AgentRelease \<Rightarrow> bool" where
  "offered env os arch r \<longleftrightarrow> rel_os r = os \<and> rel_arch r = arch \<and> \<not> rel_pending r
     \<and> (updateRequiresSignature env \<longrightarrow> rel_signature r \<noteq> [])"

definition latest_offered :: "(string \<Rightarrow> string) \<Rightarrow> ('r, AgentRelease) driver \<Rightarrow> 'r \<Rightarrow> string \<Rightarrow> string \<Rightarrow> AgentRelease option" where
  "latest_offered env RD releases os arch = find_one RD releases (offered env os arch) (\<lambda>r. - inst (rel_published r))"

definition no_update :: response where
  "no_update = Json 200 (Obj [(''update_available'', Bool_v False)])"

text \<open>\<open>download\<close> stands for \<open>agentReleaseDownloadURL\<close> in the server's environment; the query is the
  version, platform and architecture the agent names.\<close>

definition updateCheckHandler ::
  "(string \<Rightarrow> string) \<Rightarrow> (string \<Rightarrow> string) \<Rightarrow> (AgentRelease \<Rightarrow> string) \<Rightarrow> ('r, AgentRelease) driver \<Rightarrow> ('d, obj) driver \<Rightarrow> string
     \<Rightarrow> string \<Rightarrow> string \<times> string \<times> string \<Rightarrow> gotime \<Rightarrow> 'r \<Rightarrow> 'd \<Rightarrow> response \<times> 'd" where
  "updateCheckHandler env h download RD DD meth key query now releases devices =
     (case query of (current, os, arch) \<Rightarrow>
      if meth \<noteq> ''GET'' then (HttpError 405 ''Method not allowed'', devices)
      else if current = [] \<or> os = [] \<or> arch = []
      then (HttpError 400 ''Missing required query params: version, os, arch'', devices)
      else
        let (dev, devices1) = (case resolveAPIKey h DD devices key of
               (None, ds) \<Rightarrow> ([], ds)
             | (Some dev, ds) \<Rightarrow> (dev, set_device DD dev (checked_in current os arch now) ds))
        in (case latest_offered env RD releases os arch of
              None \<Rightarrow> (no_update, markAgentUpdateStatus h DD key ''up_to_date'' [] now devices1)
            | Some latest \<Rightarrow>
                let c = compareAgentVersions (rel_version latest) current
                in if c = 0 \<or> (c < 0 \<and> \<not> deviceTargetsRelease DD devices1 dev (rel_version latest))
                   then (no_update, markAgentUpdateStatus h DD key ''up_to_date'' [] now devices1)
                   else (Json 200 (Obj [(''update_available'', Bool_v True), (''version'', Str (rel_version latest)),
                            (''download_url'', Str (download latest)), (''checksum_sha256'', Str (rel_checksum latest)),
                            (''signature'', Str (rel_signature latest))]),
                         markAgentUpdateStatus h DD key ''update_available'' (rel_version latest) now devices1)))"

subsection \<open>Publishing\<close>

definition releasePublishHandler ::
  "(string \<Rightarrow> string) \<Rightarrow> ('r, AgentRelease) driver \<Rightarrow> string \<Rightarrow> AgentRelease option \<Rightarrow> gotime \<Rightarrow> 'r \<Rightarrow> (response \<times> audit list) \<times> 'r" where
  "releasePublishHandler env RD meth body now releases =
     (if meth \<noteq> ''POST'' then ((HttpError 405 ''Method not allowed'', []), releases)
      else case body of None \<Rightarrow> ((HttpError 400 ''Bad JSON'', []), releases)
       | Some rel0 \<Rightarrow>
         if rel_version rel0 = [] \<or> rel_os rel0 = [] \<or> rel_arch rel0 = [] \<or> rel_url rel0 = [] \<or> rel_checksum rel0 = []
         then ((HttpError 400 ''version, os, arch, download_url and checksum_sha256 are required'', []), releases)
         else let rel = rel0\<lparr>rel_published := now, rel_pending := releasesRequireActivation env\<rparr>
              in (case insert_one RD releases rel of (releases', ok) \<Rightarrow>
                    if \<not> ok then ((HttpError 500 ''Database error'', []), releases')
                    else ((Status 201, [(''release.published'', rel_os rel @ ''/'' @ rel_arch rel, rel_version rel)]), releases')))"
subsection \<open>Listing\<close>

text \<open>The first release of each platform in the sorted listing; maps are association lists by \<^verbatim>\<open>os/arch\<close>.\<close>

definition target_key :: "AgentRelease \<Rightarrow> string" where
  "target_key r = rel_os r @ ''/'' @ rel_arch r"

definition list_step :: "(string \<times> AgentRelease) list \<Rightarrow> AgentRelease \<Rightarrow> (string \<times> AgentRelease) list" where
  "list_step latest rel =
     (if rel_pending rel then latest
      else case map_of latest (target_key rel) of Some _ \<Rightarrow> latest | None \<Rightarrow> latest @ [(target_key rel, rel)])"

definition by_target :: "AgentRelease list \<Rightarrow> AgentRelease list" where
  "by_target rs = sort_key rel_os (sort_key rel_arch rs)"

definition releaseListHandler :: "(string \<Rightarrow> string) \<Rightarrow> ('r, AgentRelease) driver \<Rightarrow> string \<Rightarrow> 'r \<Rightarrow> response" where
  "releaseListHandler env RD meth releases =
     (if meth \<noteq> ''GET'' then HttpError 405 ''Method not allowed''
      else case find_docs RD releases (\<lambda>_. True) of
        None \<Rightarrow> HttpError 500 ''Database error''
      | Some docs \<Rightarrow>
          let all = by_target (sort_key (\<lambda>r. - inst (rel_published r)) docs);
              latest = map snd (foldl list_step [] all)
          in Json 200 (Obj [(''releases'', Arr (map release_json (by_target latest))),
                            (''all_releases'', Arr (map release_json all)),
                            (''activation_required'', Bool_v (releasesRequireActivation env))]))"

subsection \<open>Activating\<close>

definition is_release :: "string \<Rightarrow> string \<Rightarrow> string \<Rightarrow> AgentRelease \<Rightarrow> bool" where
  "is_release os arch version r \<longleftrightarrow> rel_os r = os \<and> rel_arch r = arch \<and> rel_version r = version"

definition activate :: "gotime \<Rightarrow> AgentRelease \<Rightarrow> AgentRelease" where
  "activate now r = r\<lparr>rel_published := now, rel_pending := False\<rparr>"

text \<open>The body is the decoded platform, architecture and version.\<close>

definition releaseActivateHandler ::
  "('r, AgentRelease) driver \<Rightarrow> string \<Rightarrow> (string \<times> string \<times> string) option \<Rightarrow> gotime \<Rightarrow> 'r \<Rightarrow> (response \<times> audit list) \<times> 'r" where
  "releaseActivateHandler RD meth body now releases =
     (if meth \<noteq> ''POST'' then ((HttpError 405 ''Method not allowed'', []), releases)
      else case body of None \<Rightarrow> ((HttpError 400 ''Bad JSON'', []), releases)
       | Some (os0, arch0, version0) \<Rightarrow>
         let os = trim_space os0; arch = trim_space arch0; version = trim_space version0
         in if \<not> validAgentOS os \<or> \<not> validAgentArch arch \<or> version = []
            then ((HttpError 400 ''os, arch and version are required'', []), releases)
            else (case find_one RD releases (is_release os arch version) (\<lambda>r. - inst (rel_published r)) of
                    None \<Rightarrow> ((HttpError 404 ''Release not found'', []), releases)
                  | Some rel0 \<Rightarrow>
                      let rel = activate now rel0;
                          reply = (Json 200 (release_json rel), [(''release.activated'', os @ ''/'' @ arch, version)])
                      in (case update_many RD releases (is_release os arch version) (activate now) of
                            (releases1, None) \<Rightarrow> ((HttpError 500 ''Database error'', []), releases1)
                          | (releases1, Some n) \<Rightarrow>
                              if n = 0
                              then (case insert_one RD releases1 rel of (releases2, ok) \<Rightarrow>
                                      if ok then (reply, releases2) else ((HttpError 500 ''Database error'', []), releases2))
                              else (reply, releases1))))"

subsection \<open>Rolling out\<close>

text \<open>Whether the scan of the rollout replaces what it kept for a platform.\<close>

definition more_recent :: "AgentRelease \<Rightarrow> AgentRelease \<Rightarrow> bool" where
  "more_recent r e = after (rel_published r) (rel_published e)"

definition higher :: "AgentRelease \<Rightarrow> AgentRelease \<Rightarrow> bool" where
  "higher r e \<longleftrightarrow> compareAgentVersions (rel_version r) (rel_version e) > 0
     \<or> (compareAgentVersions (rel_version r) (rel_version e) = 0 \<and> more_recent r e)"

definition rollout_better :: "bool \<Rightarrow> AgentRelease \<Rightarrow> AgentRelease \<Rightarrow> bool" where
  "rollout_better use_active = (if use_active then more_recent else higher)"

definition rollout_step :: "bool \<Rightarrow> (string \<times> AgentRelease) list \<Rightarrow> AgentRelease \<Rightarrow> (string \<times> AgentRelease) list" where
  "rollout_step use_active latest rel =
     (case map_of latest (target_key rel) of
        None \<Rightarrow> al_upd (target_key rel) rel latest
      | Some existing \<Rightarrow> if rollout_better use_active rel existing then al_upd (target_key rel) rel latest else latest)"

definition rollout_targets :: "bool \<Rightarrow> AgentRelease list \<Rightarrow> AgentRelease list" where
  "rollout_targets use_active docs = map snd (foldl (rollout_step use_active) [] docs)"

definition wants_rollout :: "AgentRelease \<Rightarrow> obj \<Rightarrow> bool" where
  "wants_rollout rel d \<longleftrightarrow> get d ''agent_os'' = Str (rel_os rel) \<and> get d ''agent_arch'' = Str (rel_arch rel)
     \<and> get d ''agent_version'' \<noteq> Str (rel_version rel)"

definition request_update :: "gotime \<Rightarrow> AgentRelease \<Rightarrow> obj \<Rightarrow> obj" where
  "request_update now rel d =
     al_upd ''agent_target_version'' (Str (rel_version rel))
       (al_upd ''agent_update_requested_at'' (Time_v now) (al_upd ''agent_update_status'' (Str ''update_requested'') d))"

text \<open>One round of the loop over the platforms: the publication is bumped (unless the active release is
  kept), then the devices are marked. \<open>None\<close> is the early return with a database error. The fields are
  the releases activated so far and the number of devices marked.\<close>

definition rollout_bump ::
  "bool \<Rightarrow> ('r, AgentRelease) driver \<Rightarrow> gotime \<Rightarrow> AgentRelease \<Rightarrow> 'r \<Rightarrow> (AgentRelease option) \<times> 'r" where
  "rollout_bump use_active RD now rel0 releases =
     (if use_active then (Some rel0, releases)
      else let rel = rel0\<lparr>rel_published := now\<rparr>
           in (case update_many RD releases (is_release (rel_os rel) (rel_arch rel) (rel_version rel)) (\<lambda>r. r\<lparr>rel_published := now\<rparr>) of
                 (releases1, None) \<Rightarrow> (Some rel, releases1)
               | (releases1, Some n) \<Rightarrow>
                   if n \<noteq> 0 then (Some rel, releases1)
                   else (case insert_one RD releases1 rel of (releases2, ok) \<Rightarrow> (if ok then Some rel else None, releases2))))"

fun rollout_loop ::
  "bool \<Rightarrow> ('r, AgentRelease) driver \<Rightarrow> ('d, obj) driver \<Rightarrow> gotime \<Rightarrow> AgentRelease list \<Rightarrow> AgentRelease list \<times> nat \<Rightarrow> 'r \<times> 'd
     \<Rightarrow> (AgentRelease list \<times> nat) option \<times> 'r \<times> 'd" where
  "rollout_loop use_active RD DD now [] done st = (Some done, st)"
| "rollout_loop use_active RD DD now (rel0 # rels) (activated, marked) (releases, devices) =
     (case rollout_bump use_active RD now rel0 releases of
        (None, releases1) \<Rightarrow> (None, (releases1, devices))
      | (Some rel, releases1) \<Rightarrow>
          (case update_many DD devices (wants_rollout rel) (request_update now rel) of
             (devices1, n) \<Rightarrow> rollout_loop use_active RD DD now rels
                (activated @ [rel], marked + (case n of Some k \<Rightarrow> k | None \<Rightarrow> 0)) (releases1, devices1)))"

text \<open>\<open>shuffle\<close> is the order in which the map of platforms is visited.\<close>

definition releaseRolloutLatestHandler ::
  "(AgentRelease list \<Rightarrow> AgentRelease list) \<Rightarrow> ('r, AgentRelease) driver \<Rightarrow> ('d, obj) driver \<Rightarrow> string \<Rightarrow> bool \<Rightarrow> gotime
     \<Rightarrow> 'r \<times> 'd \<Rightarrow> (response \<times> audit list) \<times> 'r \<times> 'd" where
  "releaseRolloutLatestHandler shuffle RD DD meth use_active now st =
     (if meth \<noteq> ''POST'' then ((HttpError 405 ''Method not allowed'', []), st)
      else case find_docs RD (fst st) (\<lambda>r. \<not> rel_pending r) of
        None \<Rightarrow> ((HttpError 500 ''Database error'', []), st)
      | Some docs \<Rightarrow>
          if rollout_targets use_active docs = [] then ((HttpError 404 ''No agent releases are available'', []), st)
          else (case rollout_loop use_active RD DD now (shuffle (rollout_targets use_active docs)) ([], 0) st of
                  (None, st') \<Rightarrow> ((HttpError 500 ''Database error'', []), st')
                | (Some (activated, marked), st') \<Rightarrow>
                    ((Json 200 (Obj [(''activated'', Arr (map release_json (by_target activated))), (''devices_marked'', I64 (int marked))]),
                      [(''release.rollout'', ''fleet'', ''targets='' @ dec_str (length activated) @ '' devices='' @ dec_str marked
                         @ '' use_active='' @ (if use_active then ''true'' else ''false''))]), st')))"

subsection \<open>Attaching a signature\<close>

definition releaseSignatureHandler ::
  "release_crypto \<Rightarrow> (string \<Rightarrow> string) \<Rightarrow> ('r, AgentRelease) driver \<Rightarrow> string \<Rightarrow> (string \<times> string \<times> string \<times> string) option \<Rightarrow> 'r
     \<Rightarrow> (response \<times> audit list) \<times> 'r" where
  "releaseSignatureHandler C env RD meth body releases =
     (if meth \<noteq> ''POST'' then ((HttpError 405 ''Method not allowed'', []), releases)
      else case body of None \<Rightarrow> ((HttpError 400 ''Bad JSON'', []), releases)
       | Some (os0, arch0, version0, sig0) \<Rightarrow>
         let os = trim_space os0; arch = trim_space arch0; version = trim_space version0; sig = trim_space sig0
         in if \<not> validAgentOS os \<or> \<not> validAgentArch arch \<or> version = [] \<or> sig = []
            then ((HttpError 400 ''os, arch, version and signature are required'', []), releases)
            else (case find_one RD releases (is_release os arch version) (\<lambda>_. 0) of
                    None \<Rightarrow> ((HttpError 404 ''Release not found'', []), releases)
                  | Some rel \<Rightarrow>
                    (case verifyReleaseSignature C env rel sig of
                       Some err \<Rightarrow> ((HttpError 400 err, []), releases)
                     | None \<Rightarrow>
                       (case update_many RD releases (is_release os arch version) (\<lambda>r. r\<lparr>rel_signature := sig\<rparr>) of
                          (releases1, None) \<Rightarrow> ((HttpError 500 ''Database error'', []), releases1)
                        | (releases1, Some _) \<Rightarrow>
                            ((Status 200, [(''release.signed'', os @ ''/'' @ arch, version)]), releases1)))))"
subsection \<open>Only newer releases are offered\<close>

lemma set_device_from:
  assumes "driver_laws DD" "e \<in> set (held DD (set_device DD dev f devices))"
  shows "e \<in> set (held DD devices) \<or> (\<exists>d \<in> set (held DD devices). device_is dev d \<and> e = f d)"
proof -
  obtain n where "update_one DD devices (device_is dev) f = (set_device DD dev f devices, n)"
    unfolding set_device_def by (metis prod.collapse)
  from driver_update_one [OF assms(1) this] show ?thesis using assms(2) by (auto simp: one_updated_def)
qed

text \<open>A device asks for a version when a rollout marked it with that version as its target.\<close>

definition asks_for :: "string \<Rightarrow> obj \<Rightarrow> bool" where
  "asks_for version d \<longleftrightarrow> ''agent_update_requested_at'' \<in> fst ` set d \<and> get d ''agent_target_version'' = Str version"

lemma fst_al_upd_set: "fst ` set (al_upd k v m) = insert k (fst ` set m)"
  by (induction m rule: al_upd.induct) auto

lemma fst_al_del_set: "fst ` set (al_del k m) = fst ` set m - {k}"
  by (auto simp: al_del_def)

lemma targets_asks:
  assumes "driver_laws DD" "deviceTargetsRelease DD devices dev version" "version \<noteq> []"
  shows "\<exists>d \<in> set (held DD devices). device_is dev d \<and> asks_for version d"
  using assms driver_find_one [OF assms(1), of devices "device_is dev" "\<lambda>_. 0"] str_of_nonempty
  by (fastforce simp: deviceTargetsRelease_def asks_for_def split: if_splits option.splits)

lemma asks_for_checked_in: "asks_for v (checked_in a b c now d) = asks_for v d"
  by (auto simp: asks_for_def checked_in_def fst_al_upd_set)

lemma resolve_from:
  assumes "driver_laws DD" "resolveAPIKey h DD devices key = (r, devices1)" "e \<in> set (held DD devices1)"
  shows "e \<in> set (held DD devices) \<or> (\<exists>d \<in> set (held DD devices). e = al_del ''api_key'' (al_upd ''api_key_hash'' (Str (h key)) d))"
proof (cases "devices1 = devices")
  case False
  then obtain x where x: "devices1 = fst (update_one DD devices (\<lambda>d. get d ''device_id'' = Str x)
      (\<lambda>d. al_del ''api_key'' (al_upd ''api_key_hash'' (Str (h key)) d)))"
    using assms(2) by (auto simp: resolveAPIKey_def Let_def split: if_splits option.splits)
  obtain n where "update_one DD devices (\<lambda>d. get d ''device_id'' = Str x)
      (\<lambda>d. al_del ''api_key'' (al_upd ''api_key_hash'' (Str (h key)) d)) = (devices1, n)"
    using x by (metis prod.collapse)
  from driver_update_one [OF assms(1) this] show ?thesis using assms(3) by (auto simp: one_updated_def)
qed (use assms(3) in simp)

lemma asks_for_resolved: "asks_for v (al_del ''api_key'' (al_upd ''api_key_hash'' x d)) = asks_for v d"
  by (auto simp: asks_for_def fst_al_upd_set fst_al_del_set)

lemma targets_checked_in:
  assumes "driver_laws DD" "resolveAPIKey h DD devices key = (Some dev, ds)"
    "deviceTargetsRelease DD (set_device DD dev (checked_in a b c now) ds) dev v" "v \<noteq> []"
  shows "\<exists>d \<in> set (held DD devices). asks_for v d"
proof -
  obtain e where e: "e \<in> set (held DD (set_device DD dev (checked_in a b c now) ds))" "asks_for v e"
    using targets_asks [OF assms(1,3,4)] by blast
  then obtain d where "d \<in> set (held DD ds)" "asks_for v d"
    using set_device_from [OF assms(1) e(1)] asks_for_checked_in by blast
  then show ?thesis using resolve_from [OF assms(1,2)] asks_for_resolved by blast
qed


subsection \<open>Activation decides what is offered\<close>

text \<open>After a release has been activated, every later check of its platform (on a server that does not
  demand signatures) finds a row of exactly that version, no longer held back; publications so far
  are older than the activation.\<close>

theorem activation_takes_effect:
  assumes "driver_laws RD" "\<forall>r \<in> set (held RD releases). inst (rel_published r) < inst now"
    "releaseActivateHandler RD ''POST'' (Some (os, arch, version)) now releases = ((Json 200 b, aud), releases')"
    "\<not> updateRequiresSignature env" "latest_offered env RD releases' (trim_space os) (trim_space arch) = Some r"
  shows "rel_version r = trim_space version \<and> rel_published r = now"
proof -
  let ?P = "is_release (trim_space os) (trim_space arch) (trim_space version)"
  obtain rel0 where f: "find_one RD releases ?P (\<lambda>r. - inst (rel_published r)) = Some rel0"
    using assms(3) by (auto simp: releaseActivateHandler_def Let_def split: if_splits option.splits)
  obtain n where u: "update_many RD releases ?P (activate now) = (releases', Some n)"
  proof -
    obtain rs q where u: "update_many RD releases ?P (activate now) = (rs, q)" by fastforce
    obtain n where q: "q = Some n" using assms(3) f u by (cases q) (auto simp: releaseActivateHandler_def Let_def split: if_splits)
    have "rel0 \<in> set (filter ?P (held RD releases))" using driver_find_one [OF assms(1) f] by simp
    then have "0 < length (filter ?P (held RD releases))" by (rule length_pos_if_in_set)
    then have "n \<noteq> 0" using driver_update_many [OF assms(1) u] unfolding q by simp
    then have "rs = releases'" using assms(3) f u q by (auto simp: releaseActivateHandler_def Let_def split: if_splits)
    then show thesis using that u q by blast
  qed
  have h: "held RD releases' = map (\<lambda>r. if ?P r then activate now r else r) (held RD releases)"
    using driver_update_many [OF assms(1) u] by simp
  have rel0: "rel0 \<in> set (held RD releases)" "?P rel0" using driver_find_one [OF assms(1) f] by simp_all
  then have mine: "activate now rel0 \<in> set (held RD releases')" unfolding h by force
  moreover have "offered env (trim_space os) (trim_space arch) (activate now rel0)"
    using rel0(2) assms(4) by (simp add: offered_def activate_def is_release_def)
  ultimately have r: "r \<in> set (held RD releases')" "inst now \<le> inst (rel_published r)"
    using driver_find_one [OF assms(1) assms(5) [unfolded latest_offered_def]] by (force simp: activate_def)+
  then obtain r0 where "r0 \<in> set (held RD releases)" "r = (if ?P r0 then activate now r0 else r0)" unfolding h by auto
  then show ?thesis using r(2) assms(2) by (auto simp: activate_def is_release_def split: if_splits)
qed
subsection \<open>A rollout reaches every device\<close>

interpretation rollout: best_choice "rollout_better use_active" for use_active
proof
  note flip = agent_versions.cmp_flip and strict = agent_versions.cmp_strict and strict' = agent_versions.cmp_strict'
    and trans = agent_versions.cmp_trans
  show "\<not> rollout_better use_active b a" if "rollout_better use_active a b" for a b
    using that flip [of "rel_version b" "rel_version a"]
    by (auto simp: rollout_better_def more_recent_def higher_def after_def split: if_splits)
  show "\<not> rollout_better use_active a c" if n: "\<not> rollout_better use_active a b" "\<not> rollout_better use_active b c" for a b c
  proof (cases use_active)
    case True
    then show ?thesis using n by (auto simp: rollout_better_def more_recent_def after_def)
  next
    case False
    let ?ab = "compareAgentVersions (rel_version b) (rel_version a)" and ?bc = "compareAgentVersions (rel_version c) (rel_version b)"
      and ?ac = "compareAgentVersions (rel_version c) (rel_version a)"
    have fl: "compareAgentVersions (rel_version a) (rel_version b) = - ?ab" "compareAgentVersions (rel_version b) (rel_version c) = - ?bc"
      "compareAgentVersions (rel_version a) (rel_version c) = - ?ac"
      by (rule flip)+
    have ge: "0 \<le> ?ab" "0 \<le> ?bc" "?ab = 0 \<Longrightarrow> \<not> more_recent a b" "?bc = 0 \<Longrightarrow> \<not> more_recent b c"
      using n False fl by (auto simp: rollout_better_def higher_def)
    have "0 \<le> ?ac" by (rule trans [OF ge(2,1)])
    moreover have "?ac = 0 \<Longrightarrow> ?ab = 0 \<and> ?bc = 0"
      using strict [of "rel_version c" "rel_version b" "rel_version a"] strict' [of "rel_version c" "rel_version b" "rel_version a"] ge
      by linarith
    ultimately have "\<not> higher a c" using ge fl by (auto simp: higher_def more_recent_def after_def)
    then show ?thesis using False by (simp add: rollout_better_def)
  qed
qed

lemma rollout_lookup:
  "map_of (foldl (rollout_step ua) [] docs) k =
     (case filter (\<lambda>r. target_key r = k) docs of [] \<Rightarrow> None
      | x # xs \<Rightarrow> Some (foldl (\<lambda>e r. if rollout_better ua r e then r else e) x xs))"
  by (induction docs rule: rev_induct)
    (auto simp: rollout_step_def split: list.splits option.splits)

lemma in_al_upd: "(k', x) \<in> set (al_upd k v m) \<Longrightarrow> (k', x) \<in> set m \<or> (k' = k \<and> x = v)"
  by (induction m rule: al_upd.induct) (auto split: if_splits)

definition keyed_by_target :: "(string \<times> AgentRelease) list \<Rightarrow> bool" where
  "keyed_by_target m \<longleftrightarrow> distinct (map fst m) \<and> (\<forall>k r. (k, r) \<in> set m \<longrightarrow> target_key r = k)"

lemma keyed_upd: "keyed_by_target m \<Longrightarrow> keyed_by_target (al_upd (target_key r) r m)"
  unfolding keyed_by_target_def using in_al_upd [of _ _ "target_key r" r m] by auto

lemma rollout_kept: "keyed_by_target (foldl (rollout_step ua) [] docs)"
  by (induction docs rule: rev_induct) (simp_all add: rollout_step_def keyed_upd keyed_by_target_def [of "[]"] split: option.split)

text \<open>What the rollout chose: for each platform with a release, one that no other release of it beats.\<close>

lemma rollout_targets_best:
  assumes "rel \<in> set (rollout_targets ua docs)"
  shows "rel \<in> set docs \<and> (\<forall>r \<in> set docs. target_key r = target_key rel \<longrightarrow> \<not> rollout_better ua r rel)"
proof -
  let ?m = "foldl (rollout_step ua) [] docs"
  obtain k where "(k, rel) \<in> set ?m" using assms by (auto simp: rollout_targets_def)
  then have "map_of ?m k = Some rel" "target_key rel = k"
    using rollout_kept [of ua docs] by (auto simp: keyed_by_target_def)
  then obtain x xs where x: "filter (\<lambda>r. target_key r = k) docs = x # xs"
      "rel = foldl (\<lambda>e r. if rollout_better ua r e then r else e) x xs" "target_key rel = k"
    using rollout_lookup [of ua docs k] by (auto split: list.splits)
  have s: "set (x # xs) = {r \<in> set docs. target_key r = k}" using x(1) by (metis set_filter)
  show ?thesis using rollout.scan_best [of ua x xs] x(2,3) unfolding s by blast
qed

lemma rollout_targets_covers:
  assumes "r \<in> set docs"
  shows "\<exists>rel \<in> set (rollout_targets ua docs). target_key rel = target_key r"
proof -
  let ?m = "foldl (rollout_step ua) [] docs"
  have "filter (\<lambda>q. target_key q = target_key r) docs \<noteq> []" using assms by (auto simp: filter_empty_conv)
  then obtain rel where "map_of ?m (target_key r) = Some rel"
    using rollout_lookup [of ua docs "target_key r"] by (auto split: list.splits)
  then have "(target_key r, rel) \<in> set ?m" by (rule map_of_SomeD)
  then show ?thesis using rollout_kept [of ua docs] by (force simp: rollout_targets_def keyed_by_target_def)
qed

lemma rollout_targets_distinct: "distinct (map target_key (rollout_targets ua docs))"
proof -
  let ?m = "foldl (rollout_step ua) [] docs"
  have "map target_key (map snd ?m) = map fst ?m" using rollout_kept [of ua docs] by (auto simp: keyed_by_target_def)
  then show ?thesis using rollout_kept [of ua docs] unfolding rollout_targets_def keyed_by_target_def by metis
qed

definition mark_all :: "gotime \<Rightarrow> AgentRelease list \<Rightarrow> obj \<Rightarrow> obj" where
  "mark_all now rels d = foldl (\<lambda>d rel. if wants_rollout rel d then request_update now rel d else d) d rels"

lemma bump_platform:
  "rollout_bump ua RD now rel0 releases = (Some rel, releases1) \<Longrightarrow>
     rel_os rel = rel_os rel0 \<and> rel_arch rel = rel_arch rel0 \<and> rel_version rel = rel_version rel0"
  by (auto simp: rollout_bump_def Let_def split: if_splits prod.splits option.splits)

lemma mark_same:
  assumes "rel_os rel = rel_os rel0" "rel_arch rel = rel_arch rel0" "rel_version rel = rel_version rel0"
  shows "wants_rollout rel = wants_rollout rel0" "request_update now rel = request_update now rel0"
  using assms by (auto simp: wants_rollout_def [abs_def] request_update_def [abs_def])

lemma rollout_loop_devices:
  assumes "driver_laws DD" "\<And>c P f. snd (update_many DD c P f) \<noteq> None"
    "rollout_loop ua RD DD now rels acc (releases, devices) = (Some res, (releases', devices'))"
  shows "held DD devices' = map (mark_all now rels) (held DD devices)"
  using assms(3)
proof (induction rels arbitrary: acc releases devices)
  case Nil
  then show ?case by (cases acc) (simp add: mark_all_def)
next
  case (Cons rel0 rels)
  obtain activated marked where acc: "acc = (activated, marked)" by fastforce
  obtain q releases1 where b: "rollout_bump ua RD now rel0 releases = (q, releases1)" by fastforce
  obtain rel where q: "q = Some rel" using Cons.prems acc b by (cases q) auto
  have same: "wants_rollout rel = wants_rollout rel0" "request_update now rel = request_update now rel0"
    using mark_same(1) [of rel rel0] mark_same(2) [of rel rel0 now] bump_platform [OF b [unfolded q]] by auto
  obtain devices1 n where u: "update_many DD devices (wants_rollout rel0) (request_update now rel0) = (devices1, n)" by fastforce
  have "n \<noteq> None" using assms(2) [of devices "wants_rollout rel0" "request_update now rel0"] u by simp
  then have "held DD devices1 = map (\<lambda>d. if wants_rollout rel0 d then request_update now rel0 d else d) (held DD devices)"
    using driver_update_many [OF assms(1) u] by auto
  moreover have "held DD devices' = map (mark_all now rels) (held DD devices1)"
    using Cons.prems acc b q u same by (intro Cons.IH) auto
  ultimately show ?case by (simp add: mark_all_def)
qed
lemma mark_all_get:
  "k \<in> {''agent_os'', ''agent_arch'', ''agent_version''} \<Longrightarrow> get (mark_all now rels d) k = get d k"
  by (induction rels arbitrary: d) (auto simp: mark_all_def request_update_def)

lemma wants_rollout_get:
  "get d ''agent_os'' = get e ''agent_os'' \<Longrightarrow> get d ''agent_arch'' = get e ''agent_arch'' \<Longrightarrow>
   get d ''agent_version'' = get e ''agent_version'' \<Longrightarrow> wants_rollout rel d = wants_rollout rel e"
  by (simp add: wants_rollout_def)

lemma mark_all_none: "\<forall>x \<in> set rels. \<not> wants_rollout x d \<Longrightarrow> mark_all now rels d = d"
  by (induction rels) (simp_all add: mark_all_def)

lemma mark_all_asks:
  assumes "distinct (map target_key rels)" "rel \<in> set rels" "wants_rollout rel d"
  shows "asks_for (rel_version rel) (mark_all now rels d)"
  using assms
proof (induction rels arbitrary: d)
  case (Cons x rels)
  have same: "target_key y = target_key rel" if "wants_rollout y d" for y
    using that Cons.prems(3) by (auto simp: wants_rollout_def target_key_def)
  have step: "mark_all now (x # rels) d = mark_all now rels (if wants_rollout x d then request_update now x d else d)"
    by (simp add: mark_all_def)
  show ?case
  proof (cases "x = rel")
    case True
    have "\<not> wants_rollout y (request_update now rel d)" if "y \<in> set rels" for y
    proof
      assume "wants_rollout y (request_update now rel d)"
      then have "target_key y = target_key rel"
        using same [of y] wants_rollout_get [of "request_update now rel d" d y] by (simp add: request_update_def)
      moreover have "target_key y \<in> set (map target_key rels)" using that by simp
      ultimately show False using Cons.prems(1) True by simp
    qed
    then have "mark_all now (x # rels) d = request_update now rel d"
      unfolding step using True Cons.prems(3) by (simp add: mark_all_none)
    then show ?thesis by (simp add: asks_for_def request_update_def fst_al_upd_set)
  next
    case False
    then have "\<not> wants_rollout x d" using same [of x] Cons.prems(1,2) by auto
    then show ?thesis unfolding step using Cons.IH [of d] Cons.prems False by simp
  qed
qed simp

lemma valid_target_key:
  "validAgentOS (rel_os r) \<Longrightarrow> validAgentOS (rel_os q) \<Longrightarrow> target_key r = target_key q \<longleftrightarrow> rel_os r = rel_os q \<and> rel_arch r = rel_arch q"
  by (auto simp: target_key_def validAgentOS_def)

subsection \<open>Signed rows verify\<close>

text \<open>Where the server has a public key, a signature is stored only after it verified: when all rows
  of a version carry one checksum, every row that the request signed has a signature that verifies
  over that very row. The handler checks one row and writes all rows of the version, so without
  that premise a row with another checksum gets a signature nobody checked.\<close>

theorem signed_rows_verify:
  assumes "driver_laws RD" "b64_decode C (trim_space (env ''UPDATE_PUBLIC_KEY'')) = Some pub" "trim_space (env ''UPDATE_PUBLIC_KEY'') \<noteq> []"
    "\<forall>r \<in> set (held RD releases). \<forall>q \<in> set (held RD releases). rel_os r = rel_os q \<and> rel_arch r = rel_arch q
        \<and> rel_version r = rel_version q \<longrightarrow> to_lower (rel_checksum r) = to_lower (rel_checksum q)"
    "releaseSignatureHandler C env RD ''POST'' (Some (os, arch, version, sig)) releases = ((Status 200, aud), releases')"
    "r \<in> set (held RD releases')" "is_release (trim_space os) (trim_space arch) (trim_space version) r"
  shows "rel_signature r = trim_space sig \<and> (\<exists>s. b64_decode C (trim_space sig) = Some s \<and> length s = 64
    \<and> ed_verify C pub (releaseSigningMessage (rel_version r) (rel_os r) (rel_arch r) (rel_checksum r)) s)"
proof -
  let ?P = "is_release (trim_space os) (trim_space arch) (trim_space version)"
  obtain rel where f: "find_one RD releases ?P (\<lambda>_. 0) = Some rel"
    and v: "verifyReleaseSignature C env rel (trim_space sig) = None"
    using assms(5) by (auto simp: releaseSignatureHandler_def Let_def split: if_splits option.splits)
  obtain n where u: "update_many RD releases ?P (\<lambda>r. r\<lparr>rel_signature := trim_space sig\<rparr>) = (releases', Some n)"
    using assms(5) f v by (auto simp: releaseSignatureHandler_def Let_def split: if_splits option.splits prod.splits)
  obtain r0 where r0: "r0 \<in> set (held RD releases)" "r = (if ?P r0 then r0\<lparr>rel_signature := trim_space sig\<rparr> else r0)"
    using driver_update_many [OF assms(1) u] assms(6) by auto
  then have p: "?P r0" using assms(7) by (auto split: if_splits)
  have rel: "rel \<in> set (held RD releases)" "?P rel" using driver_find_one [OF assms(1) f] by simp_all
  have "rel_os r0 = rel_os rel \<and> rel_arch r0 = rel_arch rel \<and> rel_version r0 = rel_version rel"
    using p rel(2) by (simp add: is_release_def)
  then have "to_lower (rel_checksum r0) = to_lower (rel_checksum rel)" using assms(4) r0(1) rel(1) by blast
  moreover obtain s where "b64_decode C (trim_space sig) = Some s" "length s = 64"
      "ed_verify C pub (releaseSigningMessage (rel_version rel) (rel_os rel) (rel_arch rel) (rel_checksum rel)) s"
    using v assms(2,3) by (auto simp: verifyReleaseSignature_def Let_def split: option.splits if_splits)
  ultimately show ?thesis using r0(2) p rel(2) by (auto simp: releaseSigningMessage_def is_release_def)
qed

subsection \<open>Runs\<close>

definition sample_release :: "string \<Rightarrow> int \<Rightarrow> AgentRelease" where
  "sample_release v p = \<lparr>rel_version = v, rel_os = ''linux'', rel_arch = ''amd64'', rel_url = ''u'', rel_s3 = [],
     rel_checksum = ''ab'', rel_published = \<lparr>inst = p, off = 0\<rparr>, rel_pending = False, rel_signature = []\<rparr>"

definition sample_agent :: obj where
  "sample_agent = [(''device_id'', Str ''d1''), (''agent_os'', Str ''linux''), (''agent_arch'', Str ''amd64''), (''agent_version'', Str ''1.0'')]"

lemma no_signature_required: "\<not> updateRequiresSignature (\<lambda>_. [])"
  by (simp add: updateRequiresSignature_def eq_fold_def to_lower_def)


theorem activation_takes_effect_witness:
  "latest_offered (\<lambda>_. []) list_driver (snd (releaseActivateHandler list_driver ''POST'' (Some (''linux'', ''amd64'', ''1.0''))
     \<lparr>inst = 9, off = 0\<rparr> [sample_release ''1.0'' 1, sample_release ''1.1'' 5])) ''linux'' ''amd64''
   = Some ((sample_release ''1.0'' 1)\<lparr>rel_published := \<lparr>inst = 9, off = 0\<rparr>\<rparr>) \<and> rel_version (sample_release ''1.0'' 1) = ''1.0''"
proof -
  let ?R = "[sample_release ''1.0'' 1, sample_release ''1.1'' 5]"
  let ?new = "[(sample_release ''1.0'' 1)\<lparr>rel_published := \<lparr>inst = 9, off = 0\<rparr>\<rparr>, sample_release ''1.1'' 5]"
  have t: "trim_space ''linux'' = ''linux''" "trim_space ''amd64'' = ''amd64''" "trim_space ''1.0'' = ''1.0''" by code_simp+
  have a: "releaseActivateHandler list_driver ''POST'' (Some (''linux'', ''amd64'', ''1.0'')) \<lparr>inst = 9, off = 0\<rparr> ?R
      = ((Json 200 (release_json (activate \<lparr>inst = 9, off = 0\<rparr> (sample_release ''1.0'' 1))),
          [(''release.activated'', ''linux/amd64'', ''1.0'')]), ?new)"
    by (simp add: releaseActivateHandler_def t validAgentOS_def validAgentArch_def least_def is_release_def sample_release_def
        activate_def Let_def)
  have l: "latest_offered (\<lambda>_. []) list_driver ?new ''linux'' ''amd64'' = Some (?new ! 0)"
    by (simp add: latest_offered_def least_def offered_def sample_release_def no_signature_required)
  have "rel_version (?new ! 0) = trim_space ''1.0'' \<and> rel_published (?new ! 0) = \<lparr>inst = 9, off = 0\<rparr>"
    using l a t by (intro activation_takes_effect [OF list_driver_laws _ a]) (auto simp: sample_release_def no_signature_required)
  then show ?thesis using a l t by simp
qed


theorem signed_rows_verify_witness:
  "ed_verify \<lparr>b64_decode = Some, b64_encode = (\<lambda>s. s), ed_verify = (\<lambda>_ _ _. True), ed_sign = (\<lambda>_ _. []), ed_from_seed = (\<lambda>s. s)\<rparr>
     (replicate 32 CHR ''k'') (releaseSigningMessage ''1.1'' ''linux'' ''amd64'' ''ab'') (replicate 64 CHR ''s'')"
proof -
  let ?C = "\<lparr>b64_decode = Some, b64_encode = (\<lambda>s. s), ed_verify = (\<lambda>_ _ _. True), ed_sign = (\<lambda>_ _. []), ed_from_seed = (\<lambda>s. s)\<rparr>"
  let ?s = "replicate 64 CHR ''s''" and ?k = "replicate 32 CHR ''k''" and ?R = "[sample_release ''1.1'' 5]"
  have t: "trim_space ''linux'' = ''linux''" "trim_space ''amd64'' = ''amd64''" "trim_space ''1.1'' = ''1.1''"
    "trim_space ?s = ?s" "trim_space ?k = ?k" by code_simp+
  have "releaseSignatureHandler ?C (\<lambda>_. ?k) list_driver ''POST'' (Some (''linux'', ''amd64'', ''1.1'', ?s)) ?R
      = ((Status 200, [(''release.signed'', ''linux/amd64'', ''1.1'')]), [(sample_release ''1.1'' 5)\<lparr>rel_signature := ?s\<rparr>])"
    by (simp add: releaseSignatureHandler_def t validAgentOS_def validAgentArch_def least_def is_release_def sample_release_def
        verifyReleaseSignature_def Let_def)
  from signed_rows_verify [OF list_driver_laws _ _ _ this, of "?k"] t
  show ?thesis by (auto simp: sample_release_def is_release_def)
qed

end
