(* ===== verification/Registry.thy ===== *)
theory Registry
  imports Auth RateLimiter
begin

text \<open>
  Enrolment of devices in \<^verbatim>\<open>api/main.go\<close>: registration with recovery of known hardware, key
  rotation, the migration of plaintext keys, revocation records, and deletion of a device with all
  it left behind. Device and revocation documents are free-form maps. The archives in object storage
  are reached through their \<^verbatim>\<open>DeleteDevice\<close> operations.
\<close>

subsection \<open>Revocation records\<close>

definition identity_match :: "string \<Rightarrow> string \<Rightarrow> string \<Rightarrow> obj \<Rightarrow> bool" where
  "identity_match deviceID hardwareUUID macAddress d \<longleftrightarrow>
     (deviceID \<noteq> [] \<and> get d ''device_id'' = Str deviceID)
     \<or> (hardwareUUID \<noteq> [] \<and> get d ''hardware_uuid'' = Str hardwareUUID)
     \<or> (macAddress \<noteq> [] \<and> get d ''mac_address'' = Str macAddress)"

definition revokedDeviceFilter :: "string \<Rightarrow> string \<Rightarrow> string \<Rightarrow> obj \<Rightarrow> bool" where
  "revokedDeviceFilter deviceID hardwareUUID macAddress d \<longleftrightarrow>
     (if deviceID = [] \<and> hardwareUUID = [] \<and> macAddress = [] then get d ''_id'' = Str ''__never__''
      else identity_match deviceID hardwareUUID macAddress d)"

text \<open>A lookup that fails counts as not revoked.\<close>

definition isDeviceRevoked :: "('v, obj) driver \<Rightarrow> 'v \<Rightarrow> string \<Rightarrow> string \<Rightarrow> string \<Rightarrow> bool" where
  "isDeviceRevoked VD revs deviceID hardwareUUID macAddress \<longleftrightarrow>
     find_one VD revs (revokedDeviceFilter deviceID hardwareUUID macAddress) (\<lambda>_. 0) \<noteq> None"

definition set_all :: "(string \<times> val) list \<Rightarrow> obj \<Rightarrow> obj" where
  "set_all kvs d = foldl (\<lambda>m (k, v). al_upd k v m) d kvs"

text \<open>An upsert inserts the fields it sets (and the id its filter asks for, when it asks for one).\<close>

definition createDeviceRevocation :: "('v, obj) driver \<Rightarrow> obj \<Rightarrow> string \<Rightarrow> gotime \<Rightarrow> 'v \<Rightarrow> bool \<times> 'v" where
  "createDeviceRevocation VD device reason now revs =
     (let deviceID = str_of (get device ''device_id''); uuid = str_of (get device ''hardware_uuid'');
          nic = str_of (get device ''mac_address''); host = str_of (get device ''hostname'')
      in if deviceID = [] \<and> uuid = [] \<and> nic = [] \<and> host = [] then (True, revs)
         else let doc = [(''device_id'', Str deviceID), (''hardware_uuid'', Str uuid), (''mac_address'', Str nic),
                         (''hostname'', Str host), (''reason'', Str reason), (''revoked_at'', Time_v now)];
                  fresh = (if deviceID = [] \<and> uuid = [] \<and> nic = [] then [(''_id'', Str ''__never__'')] else [])
              in (case upsert_one VD revs (revokedDeviceFilter deviceID uuid nic) (set_all doc)
                         (fresh @ doc @ [(''created_at'', Time_v now)]) of (revs', ok) \<Rightarrow> (ok, revs')))"

definition revocationClearHandler ::
  "('v, obj) driver \<Rightarrow> string \<Rightarrow> string \<Rightarrow> 'v \<Rightarrow> (response \<times> audit list) \<times> 'v" where
  "revocationClearHandler VD meth path revs =
     (if meth \<noteq> ''DELETE'' then ((HttpError 405 ''Method not allowed'', []), revs)
      else let deviceID = trim_prefix path ''/devices/revocations/''
           in if deviceID = [] \<or> CHR ''/'' \<in> set deviceID
              then ((HttpError 400 ''Invalid URL: missing device_id'', []), revs)
              else (case delete_many VD revs (\<lambda>d. get d ''device_id'' = Str deviceID) of
                      (revs', None) \<Rightarrow> ((HttpError 500 ''Database error'', []), revs')
                    | (revs', Some n) \<Rightarrow>
                        if n = 0 then ((HttpError 404 ''No revocation found for device'', []), revs')
                        else ((Json 200 (Obj [(''device_id'', Str deviceID), (''cleared'', I64 (int n))]),
                               [(''device.revocation_cleared'', deviceID, [])]), revs')))"

subsection \<open>Keys\<close>

text \<open>\<open>key\<close> is the freshly generated one.\<close>

definition rotateDeviceKey ::
  "(string \<Rightarrow> string) \<Rightarrow> ('d, obj) driver \<Rightarrow> string \<Rightarrow> gotime \<Rightarrow> (obj \<Rightarrow> bool) \<Rightarrow> (string \<times> val) list \<Rightarrow> 'd \<Rightarrow> string option \<times> 'd" where
  "rotateDeviceKey h DD key now filt extraSet devices =
     (case update_one DD devices filt
             (set_all ([(''api_key_hash'', Str (h key)), (''last_seen'', Time_v now)] @ extraSet)) of
        (devices', None) \<Rightarrow> (None, devices')
      | (devices', Some n) \<Rightarrow> (if n = 0 then None else Some key, devices'))"

definition has_plain_key :: "obj \<Rightarrow> bool" where
  "has_plain_key d \<longleftrightarrow> get d ''api_key'' \<noteq> Nil_v \<and> get d ''api_key'' \<noteq> Str []"

definition hash_key :: "(string \<Rightarrow> string) \<Rightarrow> string \<Rightarrow> obj \<Rightarrow> obj" where
  "hash_key h key d = al_del ''api_key'' (al_upd ''api_key_hash'' (Str (h key)) d)"

text \<open>The loop over the cursor; \<open>False\<close> for the early return with an error. A key that is not a string
  does not decode and is skipped.\<close>

fun migrate_loop :: "(string \<Rightarrow> string) \<Rightarrow> ('d, obj) driver \<Rightarrow> obj list \<Rightarrow> nat \<Rightarrow> 'd \<Rightarrow> (nat \<times> bool) \<times> 'd" where
  "migrate_loop h DD [] n devices = ((n, True), devices)"
| "migrate_loop h DD (doc # docs) n devices =
     (case get doc ''api_key'' of
        Str key \<Rightarrow>
          if key = [] then migrate_loop h DD docs n devices
          else (case update_one DD devices (\<lambda>d. get d ''_id'' = get doc ''_id'') (hash_key h key) of
                  (devices', None) \<Rightarrow> ((n, False), devices')
                | (devices', Some k) \<Rightarrow> migrate_loop h DD docs (n + k) devices')
      | _ \<Rightarrow> migrate_loop h DD docs n devices)"

definition migrateDeviceAPIKeys :: "(string \<Rightarrow> string) \<Rightarrow> ('d, obj) driver \<Rightarrow> 'd \<Rightarrow> (nat \<times> bool) \<times> 'd" where
  "migrateDeviceAPIKeys h DD devices =
     (case find_docs DD devices has_plain_key of
        None \<Rightarrow> ((0, False), devices)
      | Some docs \<Rightarrow> migrate_loop h DD docs 0 devices)"

subsection \<open>Registration\<close>

definition validIdentityField :: "string \<Rightarrow> bool" where
  "validIdentityField s \<longleftrightarrow> length s \<le> 256 \<and> (\<forall>c \<in> set s. \<not> (of_char c < (0x20 :: nat)) \<and> of_char c \<noteq> (0x7f :: nat))"

definition credentials :: "string \<Rightarrow> string \<Rightarrow> response" where
  "credentials deviceID key = Json 200 (Obj [(''device_id'', Str deviceID), (''api_key'', Str key)])"

text \<open>\<open>key1\<close> and \<open>key2\<close> are the keys generated in turn, \<open>token\<close> is \<^verbatim>\<open>ENROLLMENT_TOKEN\<close>, \<open>offered\<close> the header
  \<^verbatim>\<open>X-Enrollment-Token\<close>, and \<open>dup\<close> whether a failed insert is a duplicate-key error.\<close>

definition enrol_new ::
  "(string \<Rightarrow> string) \<Rightarrow> ('d, obj) driver \<Rightarrow> bool \<Rightarrow> string \<Rightarrow> string \<Rightarrow> string \<Rightarrow> string \<Rightarrow> string \<Rightarrow> gotime \<Rightarrow> 'd
     \<Rightarrow> (response \<times> audit list) \<times> 'd" where
  "enrol_new h DD dup key1 key2 hostname uuid nic now devices =
     (let deviceID = (if uuid \<noteq> [] then ''device-'' @ uuid
                      else if nic \<noteq> [] then ''device-mac-'' @ nic
                      else ''device-'' @ hostname @ ''-'' @ dec_str (nat (inst now div 1000000)));
          doc = [(''device_id'', Str deviceID), (''api_key_hash'', Str (h key1)), (''hostname'', Str hostname),
                 (''hardware_uuid'', Str uuid), (''mac_address'', Str nic), (''registered_at'', Time_v now),
                 (''last_seen'', Time_v now), (''status'', Str ''active'')]
      in (case insert_one DD devices doc of (devices1, ok) \<Rightarrow>
            if ok then ((credentials deviceID key1, []), devices1)
            else if \<not> dup then ((HttpError 500 ''Database error'', []), devices1)
            else (case rotateDeviceKey h DD key2 now (\<lambda>d. get d ''device_id'' = Str deviceID) [] devices1 of
                    (None, devices2) \<Rightarrow> ((HttpError 500 ''Database error'', []), devices2)
                  | (Some key, devices2) \<Rightarrow> ((credentials deviceID key, []), devices2))))"

definition recovery_filter :: "string \<Rightarrow> string \<Rightarrow> (obj \<Rightarrow> bool) option" where
  "recovery_filter uuid nic =
     (if uuid \<noteq> [] then Some (\<lambda>d. get d ''hardware_uuid'' = Str uuid)
      else if nic \<noteq> [] then Some (\<lambda>d. get d ''mac_address'' = Str nic)
      else None)"

definition field :: "(string \<times> string) list \<Rightarrow> string \<Rightarrow> string" where
  "field body k = (case map_of body k of None \<Rightarrow> [] | Some s \<Rightarrow> s)"

definition registerHandler ::
  "(string \<Rightarrow> string) \<Rightarrow> string \<Rightarrow> ('d, obj) driver \<Rightarrow> ('v, obj) driver \<Rightarrow> bool \<Rightarrow> string \<Rightarrow> string \<Rightarrow> string \<Rightarrow> string
     \<Rightarrow> (string \<times> string) list option \<Rightarrow> gotime \<Rightarrow> 'd \<Rightarrow> 'v \<Rightarrow> (response \<times> audit list) \<times> 'd" where
  "registerHandler h token DD VD dup meth offered key1 key2 req now devices revs =
     (if meth \<noteq> ''POST'' then ((HttpError 405 ''Method not allowed'', []), devices)
      else case req of None \<Rightarrow> ((HttpError 400 ''Bad JSON'', []), devices)
       | Some body \<Rightarrow>
         let hostname = (if field body ''hostname'' = [] then ''unknown'' else field body ''hostname'');
             uuid = field body ''hardware_uuid''; nic = field body ''mac_address''
         in if \<not> validIdentityField hostname \<or> \<not> validIdentityField uuid \<or> \<not> validIdentityField nic
            then ((HttpError 400 ''Invalid device identity fields'', []), devices)
            else if isDeviceRevoked VD revs [] uuid nic then ((HttpError 403 ''Device registration is revoked'', []), devices)
            else let want = trim_space token;
                     enrol = (if want \<noteq> [] \<and> want \<noteq> offered then ((HttpError 403 ''Enrollment token required'', []), devices)
                              else enrol_new h DD dup key1 key2 hostname uuid nic now devices)
                 in (case recovery_filter uuid nic of
                       None \<Rightarrow> enrol
                     | Some filt \<Rightarrow>
                         (case find_one DD devices filt (\<lambda>_. 0) of
                            None \<Rightarrow> enrol
                          | Some existing \<Rightarrow>
                              let deviceID = str_of (get existing ''device_id'')
                              in if isDeviceRevoked VD revs deviceID uuid nic
                                 then ((HttpError 403 ''Device registration is revoked'', []), devices)
                                 else (case rotateDeviceKey h DD key1 now filt
                                         [(''hostname'', Str hostname), (''hardware_uuid'', Str uuid), (''mac_address'', Str nic)] devices of
                                         (None, devices1) \<Rightarrow> ((HttpError 500 ''Database error'', []), devices1)
                                       | (Some key, devices1) \<Rightarrow>
                                           ((credentials deviceID key, [(''device.key_rotated'', deviceID, hostname)]), devices1)))))"

subsection \<open>Deleting a device\<close>

text \<open>What holds data of a device. The archives are one state with three \<^verbatim>\<open>DeleteDevice\<close> operations that
  give the number of objects deleted, or fail.\<close>

record ('d, 'v, 't, 'u, 'a) fleet =
  fl_devices :: 'd
  fl_revocations :: 'v
  fl_telemetry :: 't
  fl_usage :: 'u
  fl_archives :: 'a
  fl_focus :: "string list"  \<comment> \<open>the devices with an entry in the focus cache\<close>

record ('d, 'v, 't, 'u, 'a) fleet_ops =
  op_devices :: "('d, obj) driver"
  op_revocations :: "('v, obj) driver"
  op_telemetry :: "('t, obj) driver"
  op_usage :: "('u, obj) driver"
  del_telemetry :: "string \<Rightarrow> 'a \<Rightarrow> 'a \<times> nat option"
  del_browser :: "string \<Rightarrow> 'a \<Rightarrow> 'a \<times> nat option"
  del_activity :: "string \<Rightarrow> 'a \<Rightarrow> 'a \<times> nat option"

definition of_device :: "string \<Rightarrow> obj \<Rightarrow> bool" where
  "of_device dev d \<longleftrightarrow> get d ''device_id'' = Str dev"

text \<open>The cleanup after the device document is gone, each part with its own error.\<close>

definition delete_leftovers ::
  "('d, 'v, 't, 'u, 'a) fleet_ops \<Rightarrow> string \<Rightarrow> ('d, 'v, 't, 'u, 'a) fleet \<Rightarrow> (response \<times> audit list) \<times> ('d, 'v, 't, 'u, 'a) fleet" where
  "delete_leftovers F dev s =
     (case delete_many (op_telemetry F) (fl_telemetry s) (of_device dev) of
        (t, None) \<Rightarrow> ((HttpError 500 ''Device deleted, but telemetry cleanup failed'', []), s\<lparr>fl_telemetry := t\<rparr>)
      | (t, Some nt) \<Rightarrow>
     (case del_telemetry F dev (fl_archives s) of
        (a1, None) \<Rightarrow> ((HttpError 500 ''Device deleted, but telemetry archive cleanup failed'', []), s\<lparr>fl_telemetry := t, fl_archives := a1\<rparr>)
      | (a1, Some na) \<Rightarrow>
     (case del_browser F dev a1 of
        (a2, None) \<Rightarrow> ((HttpError 500 ''Device deleted, but browser history archive cleanup failed'', []), s\<lparr>fl_telemetry := t, fl_archives := a2\<rparr>)
      | (a2, Some nb) \<Rightarrow>
     (case delete_many (op_usage F) (fl_usage s) (of_device dev) of
        (u, None) \<Rightarrow> ((HttpError 500 ''Device deleted, but app usage cleanup failed'', []),
                     s\<lparr>fl_telemetry := t, fl_archives := a2, fl_usage := u\<rparr>)
      | (u, Some nu) \<Rightarrow>
     (case del_activity F dev a2 of
        (a3, None) \<Rightarrow> ((HttpError 500 ''Device deleted, but app usage archive cleanup failed'', []),
                      s\<lparr>fl_telemetry := t, fl_archives := a3, fl_usage := u\<rparr>)
      | (a3, Some nc) \<Rightarrow>
          ((Json 200 (Obj [(''device_id'', Str dev), (''deleted'', Bool_v True), (''revoked'', Bool_v True),
              (''telemetry_deleted_count'', I64 (int nt)), (''telemetry_archive_deleted_count'', I64 (int na)),
              (''browser_archive_deleted_count'', I64 (int nb)), (''app_usage_deleted_count'', I64 (int nu)),
              (''app_usage_archive_deleted_count'', I64 (int nc)), (''focus_cache_deleted'', Bool_v True)]),
            [(''device.deleted'', dev, [])]),
           s\<lparr>fl_telemetry := t, fl_archives := a3, fl_usage := u, fl_focus := removeAll dev (fl_focus s)\<rparr>))))))"

definition deviceDeleteHandler ::
  "('d, 'v, 't, 'u, 'a) fleet_ops \<Rightarrow> string \<Rightarrow> string \<Rightarrow> gotime \<Rightarrow> ('d, 'v, 't, 'u, 'a) fleet
     \<Rightarrow> (response \<times> audit list) \<times> ('d, 'v, 't, 'u, 'a) fleet" where
  "deviceDeleteHandler F meth path now s =
     (if meth \<noteq> ''DELETE'' then ((HttpError 405 ''Method not allowed'', []), s)
      else let parts = split_on CHR ''/'' (trim_prefix path ''/'')
           in if length parts < 2 \<or> parts ! 1 = []
              then ((HttpError 400 ''Invalid URL: missing device_id'', []), s)
              else let dev = parts ! 1
                   in (case find_one (op_devices F) (fl_devices s) (of_device dev) (\<lambda>_. 0) of
                         None \<Rightarrow> ((HttpError 404 ''Device not found'', []), s)
                       | Some existing \<Rightarrow>
                         (case createDeviceRevocation (op_revocations F) existing ''device_deleted'' now (fl_revocations s) of
                            (False, v) \<Rightarrow> ((HttpError 500 ''Device revocation failed'', []), s\<lparr>fl_revocations := v\<rparr>)
                          | (True, v) \<Rightarrow>
                            (case delete_one (op_devices F) (fl_devices s) (of_device dev) of
                               (d, None) \<Rightarrow> ((HttpError 500 ''Database error'', []), s\<lparr>fl_revocations := v, fl_devices := d\<rparr>)
                             | (d, Some n) \<Rightarrow>
                               if n = 0 then ((HttpError 404 ''Device not found'', []), s\<lparr>fl_revocations := v, fl_devices := d\<rparr>)
                               else delete_leftovers F dev (s\<lparr>fl_revocations := v, fl_devices := d\<rparr>)))))"
subsection \<open>Revoked hardware cannot enrol\<close>

text \<open>A lookup answers whenever a document matches; a lookup that fails would let a revoked device in.\<close>

definition lookups_answer :: "('c, 'd) driver \<Rightarrow> bool" where
  "lookups_answer D \<longleftrightarrow> (\<forall>c P key. find_one D c P key = None \<longrightarrow> (\<forall>d \<in> set (held D c). \<not> P d))"

lemma list_lookups_answer: "lookups_answer list_driver"
proof -
  have none: "\<forall>d \<in> set c. \<not> P d" if "least P key c = None" for P key and c :: "'a list"
  proof -
    have "sort_key key (filter P c) = []" using that by (simp add: least_def split: list.splits)
    then have "set (filter P c) = {}" by (metis set_empty set_sort)
    then show ?thesis by (simp add: filter_empty_conv)
  qed
  show ?thesis unfolding lookups_answer_def list_driver_ops by (intro allI impI) (erule none)
qed

lemma revoked_refused:
  assumes "lookups_answer VD" "e \<in> set (held VD revs)" "identity_match [] uuid nic e"
    "field body ''hardware_uuid'' = uuid" "field body ''mac_address'' = nic"
  shows "snd (registerHandler h token DD VD dup meth offered k1 k2 (Some body) now devices revs) = devices
    \<and> 400 \<le> status_of (fst (fst (registerHandler h token DD VD dup meth offered k1 k2 (Some body) now devices revs)))"
proof -
  have "revokedDeviceFilter [] uuid nic e" using assms(3) by (auto simp: revokedDeviceFilter_def identity_match_def)
  then have "isDeviceRevoked VD revs [] uuid nic"
    using assms(1,2) unfolding isDeviceRevoked_def lookups_answer_def by blast
  then show ?thesis using assms(4,5) by (simp add: registerHandler_def Let_def)
qed

lemma revocation_recorded:
  assumes "driver_laws VD" "createDeviceRevocation VD device reason now revs = (True, revs')"
    "get device k = Str x" "k \<in> {''device_id'', ''hardware_uuid'', ''mac_address''}" "x \<noteq> []"
  shows "\<exists>e \<in> set (held VD revs'). get e k = Str x"
proof -
  let ?id = "str_of (get device ''device_id'')" and ?uuid = "str_of (get device ''hardware_uuid'')"
    and ?nic = "str_of (get device ''mac_address'')" and ?host = "str_of (get device ''hostname'')"
  let ?doc = "[(''device_id'', Str ?id), (''hardware_uuid'', Str ?uuid), (''mac_address'', Str ?nic),
      (''hostname'', Str ?host), (''reason'', Str reason), (''revoked_at'', Time_v now)]"
  have some: "\<not> (?id = [] \<and> ?uuid = [] \<and> ?nic = [])" using assms(3-5) by (auto simp: str_of_def)
  obtain ok where up: "upsert_one VD revs (revokedDeviceFilter ?id ?uuid ?nic) (set_all ?doc) (?doc @ [(''created_at'', Time_v now)]) = (revs', ok)"
    "ok" using assms(2) some by (auto simp: createDeviceRevocation_def Let_def split: prod.splits if_splits)
  have x: "str_of (get device k) = x" using assms(3) by simp
  have set: "get (set_all ?doc e) k = Str x" for e using assms(4) x by (elim insertE) (simp_all add: set_all_def)
  have ins: "get (?doc @ [(''created_at'', Time_v now)]) k = Str x" using assms(4) x by (elim insertE) simp_all
  show ?thesis using driver_upsert [OF assms(1) up(1)] up(2) set ins by (auto simp: one_updated_def)
qed

lemma deleted_recorded:
  assumes "driver_laws (op_devices F)" "at_most_one (op_devices F) (fl_devices s) (of_device dev)"
    "d \<in> set (held (op_devices F) (fl_devices s))" "of_device dev d"
    "deviceDeleteHandler F ''DELETE'' (''/devices/'' @ dev) now s = ((Json 200 b, aud), s')" "CHR ''/'' \<notin> set dev" "dev \<noteq> []"
  shows "\<exists>v. createDeviceRevocation (op_revocations F) d ''device_deleted'' now (fl_revocations s) = (True, v) \<and> fl_revocations s' = v
    \<and> (\<exists>n s1. delete_one (op_devices F) (fl_devices s) (of_device dev) = (fl_devices s', Some n))"
proof -
  have parts: "split_on CHR ''/'' (trim_prefix (''/devices/'' @ dev) ''/'') = [''devices'', dev]"
    using split_on_append_sep [of "CHR ''/''" "''devices''" dev] split_on_no_sep [OF assms(6)] by (simp add: trim_prefix_def)
  have keeps: "fl_revocations (snd (delete_leftovers F dev t)) = fl_revocations t" "fl_devices (snd (delete_leftovers F dev t)) = fl_devices t" for t
    by (auto simp: delete_leftovers_def split: prod.split option.split)
  obtain e where e: "find_one (op_devices F) (fl_devices s) (of_device dev) (\<lambda>_. 0) = Some e"
    using assms(5) parts assms(7) by (cases "find_one (op_devices F) (fl_devices s) (of_device dev) (\<lambda>_. 0)")
      (auto simp: deviceDeleteHandler_def Let_def)
  have "e \<in> set (held (op_devices F) (fl_devices s))" "of_device dev e" using driver_find_one [OF assms(1) e] by simp_all
  then have "e = d" using at_most_one_eq [OF assms(2)] assms(3,4) by blast
  obtain ok v where v: "createDeviceRevocation (op_revocations F) d ''device_deleted'' now (fl_revocations s) = (ok, v)" by fastforce
  obtain ds q where ds: "delete_one (op_devices F) (fl_devices s) (of_device dev) = (ds, q)" by fastforce
  have "ok" "q \<noteq> None" using assms(5,7) parts e \<open>e = d\<close> v ds
    by (auto simp: deviceDeleteHandler_def Let_def split: bool.splits option.splits if_splits)
  then obtain n where n: "q = Some n" by blast
  have r: "(if n = 0 then ((HttpError 404 ''Device not found'', []), s\<lparr>fl_revocations := v, fl_devices := ds\<rparr>)
      else delete_leftovers F dev (s\<lparr>fl_revocations := v, fl_devices := ds\<rparr>)) = ((Json 200 b, aud), s')"
    using assms(5,7) parts e \<open>e = d\<close> v ds n \<open>ok\<close> by (simp add: deviceDeleteHandler_def Let_def)
  then have "s' = snd (delete_leftovers F dev (s\<lparr>fl_revocations := v, fl_devices := ds\<rparr>))" by (auto split: if_splits)
  then show ?thesis using keeps v ds n \<open>ok\<close> by simp
qed

text \<open>Deleting a device blocks its hardware: after the deletion every registration that presents the
  device's hardware UUID or its MAC address is refused and changes nothing, as long as the lookup
  of revocations itself does not fail.\<close>

theorem deletion_blocks_enrolment:
  assumes "driver_laws (op_devices F)" "driver_laws (op_revocations F)" "lookups_answer (op_revocations F)"
    "at_most_one (op_devices F) (fl_devices s) (of_device dev)"
    "d \<in> set (held (op_devices F) (fl_devices s))" "of_device dev d"
    "deviceDeleteHandler F ''DELETE'' (''/devices/'' @ dev) now s = ((Json 200 b, aud), s')" "CHR ''/'' \<notin> set dev" "dev \<noteq> []"
    "k \<in> {''hardware_uuid'', ''mac_address''}" "get d k = Str x" "x \<noteq> []" "field body k = x"
  shows "snd (registerHandler h token D (op_revocations F) dup meth offered k1 k2 (Some body) later devices (fl_revocations s')) = devices
    \<and> 400 \<le> status_of (fst (fst (registerHandler h token D (op_revocations F) dup meth offered k1 k2 (Some body) later devices (fl_revocations s'))))"
proof -
  have "createDeviceRevocation (op_revocations F) d ''device_deleted'' now (fl_revocations s) = (True, fl_revocations s')"
    using deleted_recorded [OF assms(1,4-9)] by auto
  then obtain e where e: "e \<in> set (held (op_revocations F) (fl_revocations s'))" "get e k = Str x"
    using revocation_recorded [OF assms(2) _ assms(11) _ assms(12)] assms(10) by blast
  have "identity_match [] (field body ''hardware_uuid'') (field body ''mac_address'') e"
    using assms(10,12,13) e(2) by (auto simp: identity_match_def)
  then show ?thesis by (rule revoked_refused [OF assms(3) e(1) _ refl refl])
qed
subsection \<open>Enrolment hands out keys that work\<close>

lemma set_all_hash: "get (set_all ([(''api_key_hash'', Str x), (''last_seen'', Time_v now)] @ kvs) d) k =
    get (set_all kvs (al_upd ''last_seen'' (Time_v now) (al_upd ''api_key_hash'' (Str x) d))) k"
  by (simp add: set_all_def)

text \<open>All documents with that hash belong to one live device, and there is one.\<close>

definition key_opens :: "('d, obj) driver \<Rightarrow> 'd \<Rightarrow> string \<Rightarrow> string \<Rightarrow> bool" where
  "key_opens DD devices keyHash dev \<longleftrightarrow>
     (\<exists>e \<in> set (held DD devices). get e ''api_key_hash'' = Str keyHash \<and> unrevoked e)
     \<and> (\<forall>e \<in> set (held DD devices). get e ''api_key_hash'' = Str keyHash \<longrightarrow> get e ''device_id'' = Str dev)"

lemma key_opens_resolves:
  assumes "driver_laws DD" "lookups_answer DD" "key_opens DD devices (h key) dev" "key \<noteq> []" "dev \<noteq> []"
  shows "fst (resolveAPIKey h DD devices key) = Some dev"
proof -
  let ?P = "\<lambda>d. get d ''api_key_hash'' = Str (h key) \<and> unrevoked d"
  obtain e where e: "find_one DD devices ?P (\<lambda>_. 0) = Some e"
    using assms(2,3) by (cases "find_one DD devices ?P (\<lambda>_. 0)") (auto simp: lookups_answer_def key_opens_def)
  have "e \<in> set (held DD devices)" "?P e" using driver_find_one [OF assms(1) e] by simp_all
  then have "get e ''device_id'' = Str dev" "get e ''api_key_hash'' = Str (h key)"
    using assms(3) by (auto simp: key_opens_def)
  then show ?thesis using e assms(4,5) by (simp add: resolveAPIKey_def)
qed

lemma rotate_opens:
  assumes "driver_laws DD" "rotateDeviceKey h DD key now P kvs devices = (Some k, devices')"
    "\<And>d. get (set_all kvs d) ''api_key_hash'' = get d ''api_key_hash''" "\<And>d. get (set_all kvs d) ''device_id'' = get d ''device_id''"
    "\<And>d. get (set_all kvs d) ''status'' = get d ''status''"
    "\<And>d. d \<in> set (held DD devices) \<Longrightarrow> P d \<Longrightarrow> get d ''device_id'' = Str dev \<and> unrevoked d"
    "\<And>d. d \<in> set (held DD devices) \<Longrightarrow> get d ''api_key_hash'' = Str (h key) \<Longrightarrow> get d ''device_id'' = Str dev"
  shows "k = key \<and> key_opens DD devices' (h key) dev"
proof -
  let ?f = "set_all ([(''api_key_hash'', Str (h key)), (''last_seen'', Time_v now)] @ kvs)"
  obtain n where n: "update_one DD devices P ?f = (devices', Some n)" "n \<noteq> 0" "k = key"
    using assms(2) by (auto simp: rotateDeviceKey_def split: prod.splits option.splits if_splits)
  obtain d as bs where d: "held DD devices = as @ d # bs" "held DD devices' = as @ ?f d # bs" "P d"
    using driver_update_one [OF assms(1) n(1)] n(2) by (auto simp: one_updated_def)
  have f: "get (?f d) ''api_key_hash'' = Str (h key)" "get (?f d) ''device_id'' = get d ''device_id''" "get (?f d) ''status'' = get d ''status''"
    unfolding set_all_hash using assms(3-5) by simp_all
  have "get d ''device_id'' = Str dev \<and> unrevoked d" using assms(6) [of d] d by simp
  then show ?thesis using f d assms(7) n(3) by (auto simp: key_opens_def unrevoked_def)
qed

lemma insert_opens:
  assumes "held DD devices' = held DD devices @ [x]" "get x ''api_key_hash'' = Str H" "get x ''device_id'' = Str i" "unrevoked x"
    "\<forall>d \<in> set (held DD devices). get d ''api_key_hash'' \<noteq> Str H"
  shows "key_opens DD devices' H i"
  using assms by (auto simp: key_opens_def)

lemma enrol_opens:
  assumes "driver_laws DD" "enrol_new h DD dup k1 k2 host uuid nic now devices = ((credentials dev key, aud), devices')"
    "\<forall>d \<in> set (held DD devices). get d ''api_key_hash'' \<notin> {Str (h k1), Str (h k2)} \<and> unrevoked d"
  shows "key \<in> {k1, k2} \<and> dev \<noteq> [] \<and> key_opens DD devices' (h key) dev"
proof -
  let ?id = "if uuid \<noteq> [] then ''device-'' @ uuid else if nic \<noteq> [] then ''device-mac-'' @ nic
      else ''device-'' @ host @ ''-'' @ dec_str (nat (inst now div 1000000))"
  let ?doc = "[(''device_id'', Str ?id), (''api_key_hash'', Str (h k1)), (''hostname'', Str host),
      (''hardware_uuid'', Str uuid), (''mac_address'', Str nic), (''registered_at'', Time_v now),
      (''last_seen'', Time_v now), (''status'', Str ''active'')]"
  obtain devices1 ok where ins: "insert_one DD devices ?doc = (devices1, ok)" by fastforce
  have h1: "held DD devices1 = held DD devices @ [?doc] \<or> (\<not> ok \<and> held DD devices1 = held DD devices)"
    by (rule driver_insert [OF assms(1) ins])
  have doc: "get ?doc ''device_id'' = Str ?id" "get ?doc ''api_key_hash'' = Str (h k1)" "unrevoked ?doc"
    by (simp_all add: unrevoked_def)
  show ?thesis
  proof (cases ok)
    case True
    then have "dev = ?id" "key = k1" "devices' = devices1"
      using assms(2) ins by (simp_all add: enrol_new_def Let_def credentials_def)
    moreover have "?id \<noteq> []" by simp
    moreover have "key_opens DD devices1 (h k1) ?id"
      by (rule insert_opens [OF _ doc(2,1,3)]) (use h1 True assms(3) in auto)
    ultimately show ?thesis by simp
  next
    case False
    obtain q devices2 where rot: "rotateDeviceKey h DD k2 now (\<lambda>d. get d ''device_id'' = Str ?id) [] devices1 = (q, devices2)" by fastforce
    obtain k where k: "q = Some k" "dev = ?id" "key = k" "devices' = devices2"
      using assms(2) ins False rot by (cases q) (auto simp: enrol_new_def Let_def credentials_def split: if_splits)
    have in1: "d \<in> set (held DD devices) \<or> d = ?doc" if "d \<in> set (held DD devices1)" for d using h1 that by auto
    have "k = k2 \<and> key_opens DD devices2 (h k2) ?id"
    proof (rule rotate_opens [OF assms(1) rot [unfolded k(1)]])
      show "get d ''device_id'' = Str ?id \<and> unrevoked d" if "d \<in> set (held DD devices1)" "get d ''device_id'' = Str ?id" for d
        using in1 [OF that(1)] that(2) assms(3) doc(3) by blast
      show "get d ''device_id'' = Str ?id" if "d \<in> set (held DD devices1)" "get d ''api_key_hash'' = Str (h k2)" for d
        using in1 [OF that(1)] that(2) assms(3) doc(1) by blast
    qed (simp_all add: set_all_def)
    then show ?thesis using k by simp
  qed
qed
text \<open>Credentials that registration hands out work: the key it answers with resolves to the device it
  names, for new hardware, for recovered hardware and in the race of two first registrations. The
  premises are that the generated keys' hashes are fresh, that an identity names at most one device,
  that every device has an id, and that none is marked revoked (a wiped device gets a key, but one that
  opens nothing).\<close>

theorem registered_key_works:
  assumes "driver_laws DD" "lookups_answer DD" "k1 \<noteq> []" "k2 \<noteq> []"
    "\<forall>d \<in> set (held DD devices). get d ''api_key_hash'' \<notin> {Str (h k1), Str (h k2)} \<and> unrevoked d
        \<and> (\<exists>i. i \<noteq> [] \<and> get d ''device_id'' = Str i)"
    "\<And>P. recovery_filter (field body ''hardware_uuid'') (field body ''mac_address'') = Some P \<Longrightarrow> at_most_one DD devices P"
    "registerHandler h token DD VD dup ''POST'' offered k1 k2 (Some body) now devices revs = ((credentials dev key, aud), devices')"
  shows "fst (resolveAPIKey h DD devices' key) = Some dev"
proof -
  let ?uuid = "field body ''hardware_uuid''" and ?nic = "field body ''mac_address''"
  let ?host = "if field body ''hostname'' = [] then ''unknown'' else field body ''hostname''"
  have "key \<in> {k1, k2} \<and> dev \<noteq> [] \<and> key_opens DD devices' (h key) dev"
  proof (cases "\<exists>P e. recovery_filter ?uuid ?nic = Some P \<and> find_one DD devices P (\<lambda>_. 0) = Some e")
    case False
    then have "enrol_new h DD dup k1 k2 ?host ?uuid ?nic now devices = ((credentials dev key, aud), devices')"
      using assms(7) by (auto simp: registerHandler_def Let_def credentials_def split: if_splits option.splits)
    then show ?thesis by (rule enrol_opens [OF assms(1)]) (use assms(5) in blast)
  next
    case True
    then obtain P e where P: "recovery_filter ?uuid ?nic = Some P" "find_one DD devices P (\<lambda>_. 0) = Some e" by blast
    have e: "e \<in> set (held DD devices)" "P e" using driver_find_one [OF assms(1) P(2)] by simp_all
    obtain i where i: "i \<noteq> []" "get e ''device_id'' = Str i" using assms(5) e(1) by blast
    let ?kvs = "[(''hostname'', Str ?host), (''hardware_uuid'', Str ?uuid), (''mac_address'', Str ?nic)]"
    obtain q devices1 where rot: "rotateDeviceKey h DD k1 now P ?kvs devices = (q, devices1)" by fastforce
    obtain k where k: "q = Some k" "dev = i" "key = k" "devices' = devices1"
      using assms(7) P i rot by (cases q) (auto simp: registerHandler_def Let_def credentials_def split: if_splits)
    have only: "d = e" if "d \<in> set (held DD devices)" "P d" for d
      using at_most_one_eq [OF assms(6) [OF P(1)] that e] .
    have "k = k1 \<and> key_opens DD devices1 (h k1) i"
    proof (rule rotate_opens [OF assms(1) rot [unfolded k(1)]])
      show "get d ''device_id'' = Str i \<and> unrevoked d" if "d \<in> set (held DD devices)" "P d" for d
        using only [OF that] i(2) assms(5) e(1) by blast
      show "get d ''device_id'' = Str i" if "d \<in> set (held DD devices)" "get d ''api_key_hash'' = Str (h k1)" for d
        using that assms(5) by auto
    qed (simp_all add: set_all_def)
    then show ?thesis using k i(1) by simp
  qed
  then show ?thesis using key_opens_resolves [OF assms(1,2), of devices' h key dev] assms(3,4) by auto
qed

subsection \<open>Migration of plaintext keys\<close>

definition migrated :: "(string \<Rightarrow> string) \<Rightarrow> obj \<Rightarrow> obj" where
  "migrated h d = (case get d ''api_key'' of Str key \<Rightarrow> if key = [] then d else hash_key h key d | _ \<Rightarrow> d)"

lemma hash_key_id: "get (hash_key h key d) ''_id'' = get d ''_id''"
  by (simp add: hash_key_def)

lemma migrated_id: "get (migrated h d) ''_id'' = get d ''_id''"
  by (simp add: migrated_def hash_key_id split: val.split)

lemma migrate_loop_held:
  assumes "driver_laws DD" "migrate_loop h DD docs n devices = ((m, True), devices')"
    "set docs \<subseteq> set (held DD devices)" "distinct (map (\<lambda>d. get d ''_id'') docs)" "distinct (map (\<lambda>d. get d ''_id'') (held DD devices))"
  shows "held DD devices' = map (\<lambda>d. if d \<in> set docs then migrated h d else d) (held DD devices)"
  using assms(2-5)
proof (induction docs arbitrary: n devices)
  case (Cons doc docs)
  have rest: "set docs \<subseteq> set (held DD devices)" "distinct (map (\<lambda>d. get d ''_id'') docs)" using Cons.prems by auto
  have new: "doc \<notin> set docs" using Cons.prems(3) by auto
  show ?case
  proof (cases "\<exists>key. get doc ''api_key'' = Str key \<and> key \<noteq> []")
    case False
    then have "migrate_loop h DD docs n devices = ((m, True), devices')" "migrated h doc = doc"
      using Cons.prems(1) by (auto simp: migrated_def split: val.splits if_splits)
    then show ?thesis using Cons.IH [OF _ rest Cons.prems(4)] by (auto intro!: map_cong)
  next
    case True
    then obtain key where key: "get doc ''api_key'' = Str key" "key \<noteq> []" by blast
    let ?P = "\<lambda>d. get d ''_id'' = get doc ''_id''" and ?f = "hash_key h key"
    obtain devices1 q where u: "update_one DD devices ?P ?f = (devices1, q)" by fastforce
    obtain k where q: "q = Some k" and loop: "migrate_loop h DD docs (n + k) devices1 = ((m, True), devices')"
      using Cons.prems(1) key u by (cases q) auto
    obtain d as bs where d: "held DD devices = as @ d # bs" "held DD devices1 = as @ ?f d # bs" "?P d"
      using driver_update_one [OF assms(1) u] q Cons.prems(2) by (auto simp: one_updated_def)
    have "d = doc"
    proof -
      have "d \<in> set (held DD devices)" "doc \<in> set (held DD devices)" using d(1) Cons.prems(2) by auto
      then show ?thesis using Cons.prems(4) d(3) unfolding distinct_map inj_on_def by blast
    qed
    have one: "held DD devices1 = map (\<lambda>x. if x = doc then ?f doc else x) (held DD devices)"
    proof -
      have "doc \<notin> set as \<union> set bs" using Cons.prems(4) unfolding d(1) \<open>d = doc\<close> by (auto simp: distinct_map)
      then show ?thesis using d(1,2) \<open>d = doc\<close> by (auto intro!: map_idI [symmetric])
    qed
    have ids: "map (\<lambda>d. get d ''_id'') (held DD devices1) = map (\<lambda>d. get d ''_id'') (held DD devices)"
      unfolding one by (simp add: hash_key_id)
    have sub: "set docs \<subseteq> set (held DD devices1)" using rest(1) new unfolding one by auto
    have "?f doc \<notin> set docs"
    proof
      assume "?f doc \<in> set docs"
      then have "get (?f doc) ''_id'' \<in> set (map (\<lambda>d. get d ''_id'') docs)" by force
      then show False using Cons.prems(3) by (simp add: hash_key_id)
    qed
    moreover have "migrated h doc = ?f doc" using key by (simp add: migrated_def)
    moreover have "held DD devices' = map (\<lambda>d. if d \<in> set docs then migrated h d else d) (held DD devices1)"
      by (rule Cons.IH [OF loop sub rest(2)]) (simp add: ids Cons.prems(4))
    ultimately show ?thesis unfolding one using new by (auto intro!: map_cong)
  qed
qed simp

text \<open>C14. A migration of the keys that reports success has replaced every plaintext key by its hash, in
  place and touching nothing else, so it leaves no plaintext key behind and running it again finds
  nothing to do.\<close>

theorem migration_complete:
  assumes "driver_laws DD" "distinct (map (\<lambda>d. get d ''_id'') (held DD devices))"
    "migrateDeviceAPIKeys h DD devices = ((n, True), devices')"
  shows "held DD devices' = map (migrated h) (held DD devices)
    \<and> (\<forall>d \<in> set (held DD devices'). \<nexists>key. key \<noteq> [] \<and> get d ''api_key'' = Str key)"
proof -
  obtain docs where docs: "find_docs DD devices has_plain_key = Some docs" "migrate_loop h DD docs 0 devices = ((n, True), devices')"
    using assms(3) by (auto simp: migrateDeviceAPIKeys_def split: option.splits)
  have m: "mset docs = mset (filter has_plain_key (held DD devices))" by (rule driver_find [OF assms(1) docs(1)])
  have s: "set docs = {d \<in> set (held DD devices). has_plain_key d}" using m by (metis set_filter set_mset_mset)
  have "distinct (map (\<lambda>d. get d ''_id'') (filter has_plain_key (held DD devices)))"
    using assms(2) by (simp add: distinct_map_filter)
  then have "distinct (map (\<lambda>d. get d ''_id'') docs)" using m by (metis mset_eq_imp_distinct_iff mset_map)
  then have "held DD devices' = map (\<lambda>d. if d \<in> set docs then migrated h d else d) (held DD devices)"
    using migrate_loop_held [OF assms(1) docs(2) _ _ assms(2)] s by auto
  moreover have "migrated h d = d" if "\<not> has_plain_key d" for d
    using that by (auto simp: migrated_def has_plain_key_def split: val.split)
  ultimately have e: "held DD devices' = map (migrated h) (held DD devices)" using s by auto
  moreover have "get (migrated h d) ''api_key'' \<noteq> Str key" if "key \<noteq> []" for d key
    using that by (auto simp: migrated_def hash_key_def split: val.split)
  ultimately show ?thesis by auto
qed
subsection \<open>Runs\<close>

definition hw :: "string \<Rightarrow> string \<Rightarrow> string \<Rightarrow> obj" where
  "hw dev uuid nic = [(''device_id'', Str dev), (''hardware_uuid'', Str uuid), (''mac_address'', Str nic)]"

definition list_fleet :: "(obj list, obj list, obj list, obj list, unit) fleet_ops" where
  "list_fleet = \<lparr>op_devices = list_driver, op_revocations = list_driver, op_telemetry = list_driver, op_usage = list_driver,
     del_telemetry = (\<lambda>_ a. (a, Some 0)), del_browser = (\<lambda>_ a. (a, Some 0)), del_activity = (\<lambda>_ a. (a, Some 0))\<rparr>"

definition fleet_of :: "obj list \<Rightarrow> (obj list, obj list, obj list, obj list, unit) fleet" where
  "fleet_of ds = \<lparr>fl_devices = ds, fl_revocations = [], fl_telemetry = [], fl_usage = [], fl_archives = (), fl_focus = []\<rparr>"

definition after_delete :: "string \<Rightarrow> (obj list, obj list, obj list, obj list, unit) fleet \<Rightarrow> (obj list, obj list, obj list, obj list, unit) fleet" where
  "after_delete dev s = snd (deviceDeleteHandler list_fleet ''DELETE'' (''/devices/'' @ dev) \<lparr>inst = 0, off = 0\<rparr> s)"

text \<open>Deleting a second device can lift the block of the first: a revocation is upserted under any
  matching identity, so when two deleted machines shared a MAC address (a dock, a cloned adapter) the
  second record overwrites the first, and the first machine's hardware UUID is no longer revoked.\<close>

theorem revocation_overwritten:
  "isDeviceRevoked list_driver (fl_revocations (after_delete ''a'' (fleet_of [hw ''a'' ''U1'' ''M'', hw ''b'' ''U2'' ''M'']))) [] ''U1'' []
   \<and> \<not> isDeviceRevoked list_driver
       (fl_revocations (after_delete ''b'' (after_delete ''a'' (fleet_of [hw ''a'' ''U1'' ''M'', hw ''b'' ''U2'' ''M''])))) [] ''U1'' []"
  by code_simp

theorem deletion_blocks_enrolment_witness:
  "400 \<le> status_of (fst (fst (registerHandler (\<lambda>k. k) [] list_driver list_driver False ''POST'' [] ''k1'' ''k2''
     (Some [(''hardware_uuid'', ''U1'')]) \<lparr>inst = 9, off = 0\<rparr> [] (fl_revocations (after_delete ''a'' (fleet_of [hw ''a'' ''U1'' ''M'']))))))"
proof -
  let ?s = "fleet_of [hw ''a'' ''U1'' ''M'']"
  have "\<exists>b aud. deviceDeleteHandler list_fleet ''DELETE'' (''/devices/'' @ ''a'') \<lparr>inst = 0, off = 0\<rparr> ?s
      = ((Json 200 b, aud), after_delete ''a'' ?s)"
    by (simp add: after_delete_def deviceDeleteHandler_def Let_def trim_prefix_def list_fleet_def fleet_of_def hw_def least_def of_device_def
        createDeviceRevocation_def list_driver_def delete_leftovers_def)
  then obtain b aud where del: "deviceDeleteHandler list_fleet ''DELETE'' (''/devices/'' @ ''a'') \<lparr>inst = 0, off = 0\<rparr> ?s
      = ((Json 200 b, aud), after_delete ''a'' ?s)" by blast
  have ops: "op_devices list_fleet = list_driver" "op_revocations list_fleet = list_driver" by (simp_all add: list_fleet_def)
  have "snd (registerHandler (\<lambda>k. k) [] list_driver (op_revocations list_fleet) False ''POST'' [] ''k1'' ''k2''
      (Some [(''hardware_uuid'', ''U1'')]) \<lparr>inst = 9, off = 0\<rparr> [] (fl_revocations (after_delete ''a'' ?s))) = []
    \<and> 400 \<le> status_of (fst (fst (registerHandler (\<lambda>k. k) [] list_driver (op_revocations list_fleet) False ''POST'' [] ''k1'' ''k2''
      (Some [(''hardware_uuid'', ''U1'')]) \<lparr>inst = 9, off = 0\<rparr> [] (fl_revocations (after_delete ''a'' ?s)))))"
    by (rule deletion_blocks_enrolment [where d = "hw ''a'' ''U1'' ''M''" and k = "''hardware_uuid''" and x = "''U1''", OF _ _ _ _ _ _ del])
      (simp_all add: ops list_driver_laws list_lookups_answer at_most_one_def of_device_def hw_def fleet_of_def field_def)
  then show ?thesis by (simp add: ops)
qed

theorem registered_key_works_witness:
  "fst (resolveAPIKey (\<lambda>k. k) list_driver (snd (registerHandler (\<lambda>k. k) [] list_driver list_driver False ''POST'' [] ''k1'' ''k2''
     (Some [(''hardware_uuid'', ''U1'')]) \<lparr>inst = 9, off = 0\<rparr> [hw ''b'' ''U2'' ''M''] [])) ''k1'') = Some ''device-U1''"
proof (rule registered_key_works [OF list_driver_laws list_lookups_answer])
  show "registerHandler (\<lambda>k. k) [] list_driver list_driver False ''POST'' [] ''k1'' ''k2''
      (Some [(''hardware_uuid'', ''U1'')]) \<lparr>inst = 9, off = 0\<rparr> [hw ''b'' ''U2'' ''M''] []
    = ((credentials ''device-U1'' ''k1'', []), snd (registerHandler (\<lambda>k. k) [] list_driver list_driver False ''POST'' [] ''k1'' ''k2''
      (Some [(''hardware_uuid'', ''U1'')]) \<lparr>inst = 9, off = 0\<rparr> [hw ''b'' ''U2'' ''M''] []))"
    by (simp add: registerHandler_def field_def validIdentityField_def isDeviceRevoked_def least_def recovery_filter_def hw_def
        enrol_new_def Let_def)
qed (auto simp: hw_def unrevoked_def recovery_filter_def field_def at_most_one_def)

theorem migration_complete_witness:
  "snd (migrateDeviceAPIKeys (\<lambda>k. ''h'' @ k) list_driver [[(''_id'', Str ''1''), (''api_key'', Str ''k'')], [(''_id'', Str ''2'')]])
   = [[(''_id'', Str ''1''), (''api_key_hash'', Str ''hk'')], [(''_id'', Str ''2'')]]"
proof -
  let ?ds = "[[(''_id'', Str ''1''), (''api_key'', Str ''k'')], [(''_id'', Str ''2'')]]"
  have r: "migrateDeviceAPIKeys (\<lambda>k. ''h'' @ k) list_driver ?ds
      = ((1, True), snd (migrateDeviceAPIKeys (\<lambda>k. ''h'' @ k) list_driver ?ds))"
    by (simp add: migrateDeviceAPIKeys_def has_plain_key_def)
  have "snd (migrateDeviceAPIKeys (\<lambda>k. ''h'' @ k) list_driver ?ds) = map (migrated (\<lambda>k. ''h'' @ k)) ?ds"
    using migration_complete [OF list_driver_laws _ r] by simp
  then show ?thesis by (simp add: migrated_def hash_key_def al_del_def)
qed

end
