(* ===== verification/AgentQueue.thy ===== *)
theory AgentQueue
  imports RateLimiter
begin

text \<open>
  The agent's offline queue, \<^verbatim>\<open>agent/queue/queue.go\<close>: a SQLite table with rising ids. The SQL
  statements are translated to functions on the table; each takes whether the engine executes it
  (\<open>ok\<close>), and a statement that fails changes nothing, as SQLite documents. Times are the seconds in
  which the table keeps \<^verbatim>\<open>created_at\<close>. \<open>env\<close> is \<^verbatim>\<open>os.Getenv\<close>. The files' permissions are the
  business of \<^verbatim>\<open>safefs\<close>.
\<close>

record queue_row =
  q_id :: int
  q_payload :: string
  q_created :: int

text \<open>The rows by rising id, the last id handed out (\<^verbatim>\<open>AUTOINCREMENT\<close> never reuses one), and the push
  counter of the process.\<close>

record queue_db =
  q_rows :: "queue_row list"
  q_last :: int
  q_pushes :: int

definition defaultQueueMaxMB :: int where "defaultQueueMaxMB = 512"
definition defaultQueueMaxAgeHours :: int where "defaultQueueMaxAgeHours = 168"
definition pruneEveryNPushes :: int where "pruneEveryNPushes = 100"

definition queue_envInt :: "(string \<Rightarrow> string) \<Rightarrow> string \<Rightarrow> int \<Rightarrow> int" where
  "queue_envInt env key def =
     (case atoi (trim_space (env key)) of None \<Rightarrow> def | Some n \<Rightarrow> if n > 0 then n else def)"

subsection \<open>Pruning\<close>

text \<open>\<^verbatim>\<open>datetime('now', '-N seconds')\<close>; a negative \<open>N\<close> makes the modifier invalid, the comparison null
  and the statement delete nothing.\<close>

definition drop_expired :: "int \<Rightarrow> int \<Rightarrow> queue_row list \<Rightarrow> queue_row list" where
  "drop_expired now secs rows = (if secs < 0 then rows else filter (\<lambda>r. \<not> q_created r < now - secs) rows)"

text \<open>The window function: running totals of payload bytes from the newest row backwards.\<close>

fun running_totals :: "int \<Rightarrow> queue_row list \<Rightarrow> (int \<times> int) list" where
  "running_totals acc [] = []"
| "running_totals acc (r # rs) = (q_id r, acc + int (length (q_payload r))) # running_totals (acc + int (length (q_payload r))) rs"

definition size_cutoff :: "int \<Rightarrow> queue_row list \<Rightarrow> int option" where
  "size_cutoff maxBytes rows = map_option fst (find (\<lambda>(_, running). running > maxBytes) (running_totals 0 (rev rows)))"

text \<open>\<open>ok1\<close>, \<open>ok2\<close> and \<open>ok3\<close> say whether the three statements execute; the flag returned is that of no error.\<close>

definition pruneTo :: "bool \<times> bool \<times> bool \<Rightarrow> int \<Rightarrow> int \<Rightarrow> int \<Rightarrow> queue_db \<Rightarrow> bool \<times> queue_db" where
  "pruneTo oks now maxBytes maxAge q =
     (case oks of (ok1, ok2, ok3) \<Rightarrow>
      if \<not> ok1 then (False, q)
      else let rows1 = drop_expired now (f2i (seconds maxAge)) (q_rows q); q1 = q\<lparr>q_rows := rows1\<rparr>
           in if \<not> ok2 then (False, q1)
              else (case size_cutoff maxBytes rows1 of
                      None \<Rightarrow> (True, q1)
                    | Some cutoff \<Rightarrow>
                        if \<not> ok3 then (False, q1)
                        else (True, q1\<lparr>q_rows := filter (\<lambda>r. \<not> q_id r \<le> cutoff) rows1\<rparr>)))"

definition Prune :: "(string \<Rightarrow> string) \<Rightarrow> bool \<times> bool \<times> bool \<Rightarrow> int \<Rightarrow> queue_db \<Rightarrow> bool \<times> queue_db" where
  "Prune env oks now q =
     pruneTo oks now (i64 (queue_envInt env ''DEVICEPULSE_QUEUE_MAX_MB'' defaultQueueMaxMB * 2 ^ 20))
       (i64 (queue_envInt env ''DEVICEPULSE_QUEUE_MAX_AGE_HOURS'' defaultQueueMaxAgeHours * hour_ns)) q"

text \<open>Opening the queue creates the table when there is none; \<open>stored\<close> is the table found on disk. The
  first flag is that of opening and creating; a failed startup prune is only logged.\<close>

definition NewQueue :: "(string \<Rightarrow> string) \<Rightarrow> bool \<Rightarrow> bool \<times> bool \<times> bool \<Rightarrow> int \<Rightarrow> (queue_row list \<times> int) option \<Rightarrow> queue_db option" where
  "NewQueue env ok oks now stored =
     (if \<not> ok then None
      else let q = (case stored of None \<Rightarrow> \<lparr>q_rows = [], q_last = 0, q_pushes = 0\<rparr>
                    | Some (rows, lastid) \<Rightarrow> \<lparr>q_rows = rows, q_last = lastid, q_pushes = 0\<rparr>)
           in Some (snd (Prune env oks now q)))"

subsection \<open>Pushing, taking and clearing\<close>

text \<open>\<open>json\<close> is the encoded payload (\<open>None\<close> when it does not encode).\<close>

definition queue_insert :: "string \<Rightarrow> int \<Rightarrow> queue_db \<Rightarrow> queue_db" where
  "queue_insert payload now q =
     q\<lparr>q_rows := q_rows q @ [\<lparr>q_id = q_last q + 1, q_payload = payload, q_created = now\<rparr>], q_last := q_last q + 1\<rparr>"

definition Push ::
  "(string \<Rightarrow> string) \<Rightarrow> bool \<Rightarrow> bool \<times> bool \<times> bool \<Rightarrow> int \<Rightarrow> string option \<Rightarrow> queue_db \<Rightarrow> bool \<times> queue_db" where
  "Push env ok oks now json q =
     (case json of None \<Rightarrow> (False, q)
      | Some payload \<Rightarrow>
        if \<not> ok then (False, q)
        else let q1 = (queue_insert payload now q)\<lparr>q_pushes := q_pushes q + 1\<rparr>
             in (True, if q_pushes q1 mod pruneEveryNPushes = 0 then snd (Prune env oks now q1) else q1))"

text \<open>Newest first.\<close>

definition PopBatch :: "bool \<Rightarrow> nat \<Rightarrow> queue_db \<Rightarrow> (int \<times> string) list option" where
  "PopBatch ok limit q =
     (if \<not> ok then None else Some (map (\<lambda>r. (q_id r, q_payload r)) (take limit (rev (q_rows q)))))"

definition MarkSent :: "bool \<Rightarrow> int list \<Rightarrow> queue_db \<Rightarrow> bool \<times> queue_db" where
  "MarkSent ok ids q =
     (if ids = [] then (True, q)
      else if \<not> ok then (False, q)
      else (True, q\<lparr>q_rows := filter (\<lambda>r. q_id r \<notin> set ids) (q_rows q)\<rparr>))"

subsection \<open>The table stays in order\<close>

text \<open>Rows have strictly rising ids up to the last one handed out.\<close>

definition queue_ok :: "queue_db \<Rightarrow> bool" where
  "queue_ok q \<longleftrightarrow> sorted_wrt (<) (map q_id (q_rows q)) \<and> (\<forall>r \<in> set (q_rows q). q_id r \<le> q_last q)"

lemma sorted_filter_ids: "sorted_wrt (<) (map q_id rows) \<Longrightarrow> sorted_wrt (<) (map q_id (filter P rows))"
  by (simp add: sorted_wrt_map sorted_wrt_filter)

lemma queue_ok_filter: "queue_ok q \<Longrightarrow> queue_ok (q\<lparr>q_rows := filter P (q_rows q)\<rparr>)"
  by (auto simp: queue_ok_def sorted_filter_ids)

lemma queue_ok_unique:
  assumes "queue_ok q" "r \<in> set (q_rows q)" "s \<in> set (q_rows q)" "q_id r = q_id s"
  shows "r = s"
proof -
  have "distinct (map q_id (q_rows q))" using assms(1) by (simp add: queue_ok_def strict_sorted_iff)
  then show ?thesis using assms(2-4) by (auto simp: distinct_map dest: inj_onD)
qed

text \<open>Pruning only ever drops rows.\<close>

lemma pruneTo_filter: "\<exists>P. snd (pruneTo oks now maxBytes maxAge q) = q\<lparr>q_rows := filter P (q_rows q)\<rparr>"
proof -
  obtain ok1 ok2 ok3 where oks: "oks = (ok1, ok2, ok3)" by (metis prod_cases3)
  let ?s = "f2i (seconds maxAge)"
  let ?P = "\<lambda>r. ?s < 0 \<or> \<not> q_created r < now - ?s"
  have d: "drop_expired now ?s (q_rows q) = filter ?P (q_rows q)" by (simp add: drop_expired_def)
  consider "\<not> ok1" | "ok1" "\<not> ok2 \<or> size_cutoff maxBytes (filter ?P (q_rows q)) = None \<or> \<not> ok3"
    | c where "ok1" "ok2" "ok3" "size_cutoff maxBytes (filter ?P (q_rows q)) = Some c"
    by (cases "size_cutoff maxBytes (filter ?P (q_rows q))") blast+
  then show ?thesis
  proof cases
    case 1
    then have "snd (pruneTo oks now maxBytes maxAge q) = q\<lparr>q_rows := filter (\<lambda>_. True) (q_rows q)\<rparr>"
      by (simp add: oks pruneTo_def)
    then show ?thesis by blast
  next
    case 2
    then have "snd (pruneTo oks now maxBytes maxAge q) = q\<lparr>q_rows := filter ?P (q_rows q)\<rparr>"
      unfolding oks pruneTo_def d by (auto simp: Let_def split: option.split)
    then show ?thesis by blast
  next
    case 3
    then have "snd (pruneTo oks now maxBytes maxAge q) = q\<lparr>q_rows := filter (\<lambda>r. ?P r \<and> \<not> q_id r \<le> c) (q_rows q)\<rparr>"
      unfolding oks pruneTo_def d by (simp add: Let_def conj_commute)
    then show ?thesis by blast
  qed
qed

lemma Prune_filter: "\<exists>P. snd (Prune env oks now q) = q\<lparr>q_rows := filter P (q_rows q)\<rparr>"
  unfolding Prune_def by (rule pruneTo_filter)

lemma queue_ok_insert: "queue_ok q \<Longrightarrow> queue_ok (queue_insert p now q)"
  by (force simp: queue_ok_def queue_insert_def sorted_wrt_append)

lemma queue_ok_pushes: "queue_ok (q\<lparr>q_pushes := n\<rparr>) = queue_ok q"
  by (simp add: queue_ok_def)

lemma queue_ok_Prune: "queue_ok q \<Longrightarrow> queue_ok (snd (Prune env oks now q))"
  using Prune_filter [of env oks now q] queue_ok_filter by metis

lemma queue_ok_Push: "queue_ok q \<Longrightarrow> queue_ok (snd (Push env ok oks now json q))"
  by (auto simp: Push_def Let_def queue_ok_pushes intro!: queue_ok_insert queue_ok_Prune split: option.split)

lemma queue_ok_MarkSent: "queue_ok q \<Longrightarrow> queue_ok (snd (MarkSent ok ids q))"
  by (simp add: MarkSent_def queue_ok_filter)

subsection \<open>The size cap\<close>

definition bytes_of :: "queue_row list \<Rightarrow> int" where
  "bytes_of rows = (\<Sum>r\<leftarrow>rows. int (length (q_payload r)))"

lemma bytes_of_simps [simp]:
  "bytes_of [] = 0" "bytes_of (r # rs) = int (length (q_payload r)) + bytes_of rs" "bytes_of (xs @ ys) = bytes_of xs + bytes_of ys"
  by (simp_all add: bytes_of_def)

lemma bytes_of_nonneg: "0 \<le> bytes_of rows"
  by (induction rows) auto

text \<open>Either everything fits, or the first row from the newest end that does not splits the table.\<close>

lemma find_running:
  "(find (\<lambda>(_, t). t > m) (running_totals acc rs) = None \<and> (rs \<noteq> [] \<longrightarrow> acc + bytes_of rs \<le> m))
   \<or> (\<exists>new r old. rs = new @ r # old \<and> find (\<lambda>(_, t). t > m) (running_totals acc rs) = Some (q_id r, acc + bytes_of (new @ [r]))
        \<and> (new \<noteq> [] \<longrightarrow> acc + bytes_of new \<le> m) \<and> m < acc + bytes_of (new @ [r]))"
proof (induction rs arbitrary: acc)
  case (Cons x xs)
  let ?a = "acc + int (length (q_payload x))"
  show ?case
  proof (cases "?a > m")
    case True
    then show ?thesis by (intro disjI2 exI [of _ "[]"] exI [of _ x] exI [of _ xs]) simp
  next
    case False
    from Cons.IH [of ?a] show ?thesis
    proof
      assume "find (\<lambda>(_, t). t > m) (running_totals ?a xs) = None \<and> (xs \<noteq> [] \<longrightarrow> ?a + bytes_of xs \<le> m)"
      then show ?thesis using False by (cases "xs = []") auto
    next
      assume "\<exists>new r old. xs = new @ r # old
          \<and> find (\<lambda>(_, t). t > m) (running_totals ?a xs) = Some (q_id r, ?a + bytes_of (new @ [r]))
          \<and> (new \<noteq> [] \<longrightarrow> ?a + bytes_of new \<le> m) \<and> m < ?a + bytes_of (new @ [r])"
      then obtain new r old where h: "xs = new @ r # old"
          "find (\<lambda>(_, t). t > m) (running_totals ?a xs) = Some (q_id r, ?a + bytes_of (new @ [r]))"
          "new \<noteq> [] \<longrightarrow> ?a + bytes_of new \<le> m" "m < ?a + bytes_of (new @ [r])" by blast
      show ?thesis using h False by (intro disjI2 exI [of _ "x # new"] exI [of _ r] exI [of _ old]) (cases "new = []"; simp)
    qed
  qed
qed simp

lemma filter_above:
  assumes "sorted_wrt (<) (map q_id (old @ r # new))"
  shows "filter (\<lambda>x. \<not> q_id x \<le> q_id r) (old @ r # new) = new"
proof -
  have "\<forall>x \<in> set old. q_id x < q_id r" "\<forall>x \<in> set new. q_id r < q_id x" using assms by (auto simp: sorted_wrt_append)
  then have "filter (\<lambda>x. \<not> q_id x \<le> q_id r) old = []" "filter (\<lambda>x. \<not> q_id x \<le> q_id r) new = new"
    by (auto simp: filter_empty_conv filter_id_conv)
  then show ?thesis by simp
qed

text \<open>A prune that reports success leaves a queue within both limits, by dropping only the oldest: what
  it keeps is a tail of the unexpired rows, it fits into the size limit, and it is the longest such
  tail, since adding the next older row would exceed the limit.\<close>

theorem prune_bound:
  assumes "queue_ok q" "0 \<le> maxBytes" "0 \<le> f2i (seconds maxAge)" "pruneTo oks now maxBytes maxAge q = (True, q')"
  shows "\<exists>dropped. filter (\<lambda>r. now - f2i (seconds maxAge) \<le> q_created r) (q_rows q) = dropped @ q_rows q'
    \<and> bytes_of (q_rows q') \<le> maxBytes
    \<and> (dropped = [] \<or> maxBytes < bytes_of (last dropped # q_rows q'))"
proof -
  obtain ok1 ok2 ok3 where oks: "oks = (ok1, ok2, ok3)" by (metis prod_cases3)
  define rows1 where "rows1 = drop_expired now (f2i (seconds maxAge)) (q_rows q)"
  have r1: "rows1 = filter (\<lambda>r. now - f2i (seconds maxAge) \<le> q_created r) (q_rows q)"
    using assms(3) by (simp add: rows1_def drop_expired_def not_less)
  have sorted: "sorted_wrt (<) (map q_id rows1)" unfolding r1 using assms(1) by (simp add: queue_ok_def sorted_filter_ids)
  have oks3: "ok1" "ok2" using assms(4) by (auto simp: oks pruneTo_def Let_def split: if_splits)
  from find_running [of maxBytes 0 "rev rows1"] show ?thesis
  proof
    assume h: "find (\<lambda>(_, t). t > maxBytes) (running_totals 0 (rev rows1)) = None \<and> (rev rows1 \<noteq> [] \<longrightarrow> 0 + bytes_of (rev rows1) \<le> maxBytes)"
    then have "q_rows q' = rows1" using assms(4) oks3 by (auto simp: oks pruneTo_def size_cutoff_def rows1_def Let_def)
    moreover have "bytes_of (rev rows1) = bytes_of rows1" by (simp add: bytes_of_def rev_map [symmetric])
    ultimately show ?thesis using h r1 assms(2) by (cases "rows1 = []") auto
  next
    assume "\<exists>new r old. rev rows1 = new @ r # old
        \<and> find (\<lambda>(_, t). t > maxBytes) (running_totals 0 (rev rows1)) = Some (q_id r, 0 + bytes_of (new @ [r]))
        \<and> (new \<noteq> [] \<longrightarrow> 0 + bytes_of new \<le> maxBytes) \<and> maxBytes < 0 + bytes_of (new @ [r])"
    then obtain new r old where h: "rev rows1 = new @ r # old"
        "find (\<lambda>(_, t). t > maxBytes) (running_totals 0 (rev rows1)) = Some (q_id r, bytes_of (new @ [r]))"
        "new \<noteq> [] \<longrightarrow> bytes_of new \<le> maxBytes" "maxBytes < bytes_of (new @ [r])" unfolding add_0 by blast
    have rows: "rows1 = rev old @ r # rev new" using arg_cong [OF h(1), of rev] by simp
    have q': "q_rows q' = filter (\<lambda>x. \<not> q_id x \<le> q_id r) rows1"
      using assms(4) oks3 h(2) by (auto simp: oks pruneTo_def size_cutoff_def rows1_def Let_def split: if_splits)
    have kept: "q_rows q' = rev new" unfolding q' using filter_above [of "rev old" r "rev new"] sorted rows by simp
    have b: "bytes_of (rev new) = bytes_of new" by (simp add: bytes_of_def rev_map [symmetric])
    have "bytes_of (rev new) \<le> maxBytes" using h(3) assms(2) b by (cases "new = []") auto
    then show ?thesis using r1 rows kept h(4) b by (intro exI [of _ "rev old @ [r]"]) simp
  qed
qed

theorem prune_bound_witness:
  "let rows = [\<lparr>q_id = 1, q_payload = ''old'', q_created = 50\<rparr>, \<lparr>q_id = 2, q_payload = ''mid'', q_created = 90\<rparr>,
               \<lparr>q_id = 3, q_payload = ''new'', q_created = 95\<rparr>]
   in bytes_of (q_rows (snd (pruneTo (True, True, True) 100 4 (20 * ns_per_s) \<lparr>q_rows = rows, q_last = 3, q_pushes = 0\<rparr>))) \<le> 4"
proof -
  let ?q = "\<lparr>q_rows = [\<lparr>q_id = 1, q_payload = ''old'', q_created = 50\<rparr>, \<lparr>q_id = 2, q_payload = ''mid'', q_created = 90\<rparr>,
               \<lparr>q_id = 3, q_payload = ''new'', q_created = 95\<rparr>], q_last = 3, q_pushes = 0\<rparr> :: queue_db"
  have s: "f2i (seconds (20 * ns_per_s)) = 20" by code_simp
  have r: "pruneTo (True, True, True) 100 4 (20 * ns_per_s) ?q = (True, snd (pruneTo (True, True, True) 100 4 (20 * ns_per_s) ?q))"
    by (simp add: pruneTo_def Let_def split: option.split)
  from prune_bound [OF _ _ _ r] s show ?thesis by (auto simp: queue_ok_def Let_def)
qed

end
