(* ===== verification/SyncEngine.thy ===== *)
theory SyncEngine
  imports AgentQueue GoUrl Runs
begin

text \<open>
  The agent's side of the upload path in \<^verbatim>\<open>agent/main.go\<close> and \<^verbatim>\<open>agent/credentials.go\<close>: registration with
  its private cache, the credentials in use, and the engine that drains the queue. The network and
  the file system are the world \<open>'w\<close>, reached through the calls of \<open>agent_io\<close>: an upload gives the
  HTTP status (\<open>None\<close> when no response came), a registration request the status and the decoded
  body, and so on.
\<close>

subsection \<open>The world\<close>

datatype cache_read = No_cache | Cache_error | Cache "(string \<times> string) list option"

type_synonym fields = "(string \<times> string) list"

record 'w agent_io =
  io_ingest :: "string \<Rightarrow> string \<Rightarrow> 'w \<Rightarrow> nat option \<times> 'w"  \<comment> \<open>API key, payload\<close>
  io_register :: "string \<Rightarrow> fields \<Rightarrow> 'w \<Rightarrow> (nat \<times> fields option) option \<times> 'w"  \<comment> \<open>enrolment token, body\<close>
  io_read_cache :: "'w \<Rightarrow> cache_read \<times> 'w"
  io_write_cache :: "fields \<Rightarrow> 'w \<Rightarrow> bool \<times> 'w"

record agent_credentials =
  cred_device :: string
  cred_key :: string

record fingerprint =
  fp_host :: string
  fp_uuid :: string
  fp_mac :: string

definition entry :: "fields \<Rightarrow> string \<Rightarrow> string" where
  "entry m k = (case map_of m k of None \<Rightarrow> [] | Some s \<Rightarrow> s)"

subsection \<open>Registration\<close>

definition setCredentials :: "string \<Rightarrow> string \<Rightarrow> agent_credentials" where
  "setCredentials dev key = \<lparr>cred_device = dev, cred_key = key\<rparr>"

text \<open>The request and what is done with its answer; the flag is that of no error. New credentials are in
  use before they are persisted.\<close>

definition register_request ::
  "'w agent_io \<Rightarrow> fingerprint \<Rightarrow> string \<Rightarrow> agent_credentials \<Rightarrow> 'w \<Rightarrow> (bool \<times> agent_credentials) \<times> 'w" where
  "register_request io fp token creds w =
     (case io_register io (trim_space token)
             [(''hostname'', fp_host fp), (''hardware_uuid'', fp_uuid fp), (''mac_address'', fp_mac fp)] w of
        (None, w1) \<Rightarrow> ((False, creds), w1)
      | (Some (status, body), w1) \<Rightarrow>
          if status \<noteq> 200 then ((False, creds), w1)
          else (case body of None \<Rightarrow> ((False, creds), w1)
            | Some result \<Rightarrow>
                let newID = entry result ''device_id''; newKey = entry result ''api_key''
                in if newID = [] \<or> newKey = [] then ((False, creds), w1)
                   else (case io_write_cache io [(''device_id'', newID), (''api_key'', newKey),
                                (''hardware_uuid'', fp_uuid fp), (''mac_address'', fp_mac fp)] w1 of
                           (ok, w2) \<Rightarrow> ((ok, setCredentials newID newKey), w2))))"

definition registerDeviceWithCache ::
  "'w agent_io \<Rightarrow> fingerprint \<Rightarrow> string \<Rightarrow> bool \<Rightarrow> agent_credentials \<Rightarrow> 'w \<Rightarrow> (bool \<times> agent_credentials) \<times> 'w" where
  "registerDeviceWithCache io fp token useCache creds w =
     (if \<not> useCache then register_request io fp token creds w
      else (case io_read_cache io w of
              (Cache_error, w1) \<Rightarrow> ((False, creds), w1)
            | (No_cache, w1) \<Rightarrow> register_request io fp token creds w1
            | (Cache None, w1) \<Rightarrow> register_request io fp token creds w1
            | (Cache (Some reg), w1) \<Rightarrow>
                if entry reg ''device_id'' \<noteq> [] \<and> entry reg ''api_key'' \<noteq> []
                   \<and> entry reg ''hardware_uuid'' = fp_uuid fp \<and> entry reg ''mac_address'' = fp_mac fp
                then ((True, setCredentials (entry reg ''device_id'') (entry reg ''api_key'')), w1)
                else register_request io fp token creds w1))"

text \<open>The per-user service picks up a rotated key; the flag says whether the credentials changed.\<close>

definition reloadCredentialsFromCache :: "'w agent_io \<Rightarrow> agent_credentials \<Rightarrow> 'w \<Rightarrow> (bool \<times> agent_credentials) \<times> 'w" where
  "reloadCredentialsFromCache io creds w =
     (case io_read_cache io w of
        (Cache (Some reg), w1) \<Rightarrow>
          if entry reg ''device_id'' = [] \<or> entry reg ''api_key'' = [] \<or> entry reg ''api_key'' = cred_key creds
          then ((False, creds), w1)
          else ((True, setCredentials (entry reg ''device_id'') (entry reg ''api_key'')), w1)
      | (_, w1) \<Rightarrow> ((False, creds), w1))"

text \<open>The delays of \<^verbatim>\<open>registerUntilSuccess\<close>, in nanoseconds: doubling up to five minutes.\<close>

definition next_delay :: "int \<Rightarrow> int" where
  "next_delay delay = (if delay * 2 > 5 * minute_ns then 5 * minute_ns else delay * 2)"

fun registerUntilSuccess ::
  "nat \<Rightarrow> 'w agent_io \<Rightarrow> fingerprint \<Rightarrow> string \<Rightarrow> int \<Rightarrow> agent_credentials \<Rightarrow> 'w \<Rightarrow> (int list \<times> agent_credentials option) \<times> 'w" where
  "registerUntilSuccess 0 io fp token delay creds w = (([], None), w)"
| "registerUntilSuccess (Suc fuel) io fp token delay creds w =
     (case registerDeviceWithCache io fp token True creds w of
        ((True, creds'), w1) \<Rightarrow> (([delay], Some creds'), w1)
      | ((False, creds'), w1) \<Rightarrow>
          (case registerUntilSuccess fuel io fp token (next_delay delay) creds' w1 of
             ((ds, r), w2) \<Rightarrow> ((delay # ds, r), w2)))"

text \<open>Whether the API key may travel to this URL: \<open>loopback\<close> is \<^verbatim>\<open>net.ParseIP(host).IsLoopback()\<close>, \<open>hostname\<close>
  strips the port. \<open>Some False\<close> is the warning.\<close>

definition checkAPIScheme :: "(string \<Rightarrow> bool) \<Rightarrow> (string \<Rightarrow> string) \<Rightarrow> string \<Rightarrow> bool \<Rightarrow> bool option" where
  "checkAPIScheme loopback hostname raw requireHTTPS =
     (case url_parse raw of None \<Rightarrow> None
      | Some u \<Rightarrow>
        if u_host u = [] then None
        else if u_scheme u = ''https'' then Some True
        else if hostname (u_host u) = ''localhost'' \<or> loopback (hostname (u_host u)) then Some True
        else if requireHTTPS then None else Some False)"

definition requireHTTPSFromEnv :: "(string \<Rightarrow> string) \<Rightarrow> bool" where
  "requireHTTPSFromEnv env = eq_fold (trim_space (env ''DEVICEPULSE_REQUIRE_HTTPS'')) ''true''"

subsection \<open>Draining the queue\<close>

definition maxTelemetryPayloadBytes :: nat where "maxTelemetryPayloadBytes = 5 * 1024 * 1024"

definition uploadQueuedItem :: "'w agent_io \<Rightarrow> string \<Rightarrow> string \<Rightarrow> 'w \<Rightarrow> (nat \<times> bool) \<times> 'w" where
  "uploadQueuedItem io key payload w =
     (case io_ingest io key payload w of
        (None, w1) \<Rightarrow> ((0, False), w1)
      | (Some status, w1) \<Rightarrow> ((status, status = 200), w1))"

text \<open>One item of a batch: whether its id counts as sent, and the credentials afterwards.\<close>

definition sync_item ::
  "'w agent_io \<Rightarrow> fingerprint \<Rightarrow> string \<Rightarrow> string \<Rightarrow> agent_credentials \<Rightarrow> 'w \<Rightarrow> (bool \<times> agent_credentials) \<times> 'w" where
  "sync_item io fp token payload creds w =
     (if length payload > maxTelemetryPayloadBytes then ((True, creds), w)
      else (case uploadQueuedItem io (cred_key creds) payload w of
              ((status, True), w1) \<Rightarrow> ((True, creds), w1)
            | ((status, False), w1) \<Rightarrow>
                if status \<noteq> 401 then ((False, creds), w1)
                else (case registerDeviceWithCache io fp token False creds w1 of
                        ((False, creds2), w2) \<Rightarrow> ((False, creds2), w2)
                      | ((True, creds2), w2) \<Rightarrow>
                          (case uploadQueuedItem io (cred_key creds2) payload w2 of
                             ((_, sent), w3) \<Rightarrow> ((sent, creds2), w3)))))"

fun sync_items ::
  "'w agent_io \<Rightarrow> fingerprint \<Rightarrow> string \<Rightarrow> (int \<times> string) list \<Rightarrow> agent_credentials \<Rightarrow> 'w \<Rightarrow> (int list \<times> agent_credentials) \<times> 'w" where
  "sync_items io fp token [] creds w = (([], creds), w)"
| "sync_items io fp token ((i, payload) # items) creds w =
     (case sync_item io fp token payload creds w of
        ((sent, creds1), w1) \<Rightarrow>
          (case sync_items io fp token items creds1 w1 of
             ((ids, creds2), w2) \<Rightarrow> ((if sent then i # ids else ids, creds2), w2)))"

text \<open>One round of the engine. Between taking a batch and clearing it other processes use the table:
  \<open>drift\<close> is what they make of it meanwhile.\<close>

definition syncEngine_round ::
  "'w agent_io \<Rightarrow> fingerprint \<Rightarrow> string \<Rightarrow> bool \<times> bool \<Rightarrow> (queue_db \<Rightarrow> queue_db) \<Rightarrow> agent_credentials \<Rightarrow> queue_db \<Rightarrow> 'w
     \<Rightarrow> (agent_credentials \<times> queue_db) \<times> 'w" where
  "syncEngine_round io fp token oks drift creds q w =
     (case PopBatch (fst oks) 50 q of
        None \<Rightarrow> ((creds, drift q), w)
      | Some items \<Rightarrow>
          (case sync_items io fp token items creds w of
             ((ids, creds1), w1) \<Rightarrow> ((creds1, snd (MarkSent (snd oks) ids (drift q))), w1)))"

subsection \<open>What other processes do meanwhile\<close>

inductive queue_step :: "queue_db \<Rightarrow> queue_db \<Rightarrow> bool" where
  pushed: "queue_step q (snd (Push env ok oks now json q))"
| pruned: "queue_step q (snd (Prune env oks now q))"
| other_counter: "queue_step q (q\<lparr>q_pushes := n\<rparr>)"

inductive_cases queue_stepE: "queue_step q q'"

text \<open>Ids are never reused: a row that is still there under an old id is the old row.\<close>

definition same_old_rows :: "queue_db \<Rightarrow> queue_db \<Rightarrow> bool" where
  "same_old_rows q q' \<longleftrightarrow> (queue_ok q \<longrightarrow> queue_ok q' \<and> q_last q \<le> q_last q'
     \<and> (\<forall>r \<in> set (q_rows q'). q_id r \<le> q_last q \<longrightarrow> r \<in> set (q_rows q)))"

lemma same_old_rows_refl: "same_old_rows q q"
  by (simp add: same_old_rows_def)

lemma same_old_rows_trans: "same_old_rows q r \<Longrightarrow> same_old_rows r s \<Longrightarrow> same_old_rows q s"
  by (fastforce simp: same_old_rows_def)

lemma same_old_rows_filter: "same_old_rows q (q\<lparr>q_rows := filter P (q_rows q)\<rparr>)"
  by (auto simp: same_old_rows_def intro: queue_ok_filter)

lemma same_old_rows_insert: "same_old_rows q (queue_insert p now q)"
  using queue_ok_insert [of q p now] by (auto simp: same_old_rows_def queue_insert_def)

lemma same_old_rows_pushes: "same_old_rows q (q\<lparr>q_pushes := n\<rparr>)"
  by (simp add: same_old_rows_def queue_ok_pushes)

lemma same_old_rows_Prune: "same_old_rows q (snd (Prune env oks now q))"
  using Prune_filter [of env oks now q] same_old_rows_filter by metis

lemma same_old_rows_Push: "same_old_rows q (snd (Push env ok oks now json q))"
proof (cases "json = None \<or> \<not> ok")
  case False
  then obtain p where p: "json = Some p" "ok" by auto
  let ?q1 = "(queue_insert p now q)\<lparr>q_pushes := q_pushes q + 1\<rparr>"
  have "same_old_rows q ?q1"
    using same_old_rows_insert same_old_rows_pushes by (rule same_old_rows_trans)
  then show ?thesis using p same_old_rows_Prune [of ?q1 env oks now]
    by (auto simp: Push_def Let_def intro: same_old_rows_trans)
qed (auto simp: Push_def same_old_rows_refl split: option.split)

interpretation meanwhile: progressing queue_step same_old_rows
proof
  show "same_old_rows q q" for q by (rule same_old_rows_refl)
  show "same_old_rows q r \<Longrightarrow> same_old_rows r s \<Longrightarrow> same_old_rows q s" for q r s by (rule same_old_rows_trans)
  show "queue_step q q' \<Longrightarrow> same_old_rows q q'" for q q'
    by (elim queue_stepE) (auto simp: same_old_rows_Push same_old_rows_Prune same_old_rows_pushes)
qed

subsection \<open>Nothing unsent is lost\<close>

text \<open>\<open>acked\<close> are the payloads the server has accepted so far: an upload that is answered with 200 adds
  its payload, and nothing the agent does takes one away.\<close>

definition records_acks :: "'w agent_io \<Rightarrow> ('w \<Rightarrow> string set) \<Rightarrow> bool" where
  "records_acks io acked \<longleftrightarrow>
     (\<forall>key p w. acked w \<subseteq> acked (snd (io_ingest io key p w)) \<and> (fst (io_ingest io key p w) = Some 200 \<longrightarrow> p \<in> acked (snd (io_ingest io key p w))))
     \<and> (\<forall>t b w. acked w \<subseteq> acked (snd (io_register io t b w)))
     \<and> (\<forall>b w. acked w \<subseteq> acked (snd (io_write_cache io b w)))
     \<and> (\<forall>w. acked w \<subseteq> acked (snd (io_read_cache io w)))"

lemma upload_acked:
  assumes "records_acks io acked" "uploadQueuedItem io key p w = ((s, sent), w1)"
  shows "acked w \<subseteq> acked w1 \<and> (sent \<longrightarrow> p \<in> acked w1)"
proof -
  obtain r w2 where r: "io_ingest io key p w = (r, w2)" by fastforce
  then have "acked w \<subseteq> acked w2 \<and> (r = Some 200 \<longrightarrow> p \<in> acked w2)"
    using assms(1) unfolding records_acks_def by (metis fst_conv snd_conv)
  then show ?thesis using assms(2) r by (auto simp: uploadQueuedItem_def split: option.splits)
qed

lemma register_acked:
  assumes "records_acks io acked" "register_request io fp token creds w = (r, w1)"
  shows "acked w \<subseteq> acked w1"
proof -
  obtain a w2 where a: "io_register io (trim_space token)
      [(''hostname'', fp_host fp), (''hardware_uuid'', fp_uuid fp), (''mac_address'', fp_mac fp)] w = (a, w2)" by fastforce
  have "acked w \<subseteq> acked w2" using assms(1) a unfolding records_acks_def by (metis snd_conv)
  moreover have "acked w2 \<subseteq> acked (snd (io_write_cache io b w2))" for b using assms(1) by (simp add: records_acks_def)
  moreover have "w1 = w2 \<or> (\<exists>b. w1 = snd (io_write_cache io b w2))"
    using assms(2) a unfolding register_request_def Let_def
    by (auto split: option.splits prod.splits if_splits) (metis snd_conv)+
  ultimately show ?thesis by blast
qed

lemma sync_item_acked:
  assumes "records_acks io acked" "sync_item io fp token p creds w = ((sent, creds1), w1)"
  shows "acked w \<subseteq> acked w1 \<and> (sent \<longrightarrow> p \<in> acked w1 \<or> length p > maxTelemetryPayloadBytes)"
proof (cases "length p > maxTelemetryPayloadBytes")
  case True
  then show ?thesis using assms(2) by (simp add: sync_item_def)
next
  case small: False
  obtain s ok w2 where u: "uploadQueuedItem io (cred_key creds) p w = ((s, ok), w2)" by (metis prod_cases3 surj_pair)
  note a = upload_acked [OF assms(1) u]
  show ?thesis
  proof (cases "ok \<or> s \<noteq> 401")
    case True
    then show ?thesis using assms(2) u a small by (cases ok) (auto simp: sync_item_def)
  next
    case False
    obtain r creds2 w3 where g: "register_request io fp token creds w2 = ((r, creds2), w3)" by (metis prod_cases3 surj_pair)
    note b = register_acked [OF assms(1) g]
    obtain s2 ok2 w4 where v: "uploadQueuedItem io (cred_key creds2) p w3 = ((s2, ok2), w4)" by (metis prod_cases3 surj_pair)
    note c = upload_acked [OF assms(1) v]
    have "sync_item io fp token p creds w = (if r then ((ok2, creds2), w4) else ((False, creds2), w3))"
      using False small u g v by (simp add: sync_item_def registerDeviceWithCache_def)
    then show ?thesis using assms(2) a b c by (auto split: if_splits)
  qed
qed

lemma sync_items_acked:
  assumes "records_acks io acked" "sync_items io fp token items creds w = ((ids, creds1), w1)"
  shows "acked w \<subseteq> acked w1
    \<and> (\<forall>i \<in> set ids. \<exists>p. (i, p) \<in> set items \<and> (p \<in> acked w1 \<or> length p > maxTelemetryPayloadBytes))"
  using assms(2)
proof (induction items arbitrary: creds w ids)
  case (Cons x items)
  obtain i p where x: "x = (i, p)" by fastforce
  obtain sent creds2 w2 where s: "sync_item io fp token p creds w = ((sent, creds2), w2)" by (metis prod_cases3 surj_pair)
  obtain ids2 creds3 w3 where r: "sync_items io fp token items creds2 w2 = ((ids2, creds3), w3)" by (metis prod_cases3 surj_pair)
  have e: "ids = (if sent then i # ids2 else ids2)" "creds1 = creds3" "w1 = w3" using Cons.prems x s r by auto
  note a = sync_item_acked [OF assms(1) s]
  have b: "acked w2 \<subseteq> acked w1" "\<forall>j \<in> set ids2. \<exists>p. (j, p) \<in> set items \<and> (p \<in> acked w1 \<or> length p > maxTelemetryPayloadBytes)"
    using Cons.IH [of creds2 w2 ids2] r e by simp_all
  then show ?case using a e(1) x by (cases sent) (auto 4 3)
qed simp

text \<open>C15. The engine never loses telemetry: whatever other processes push or prune while a batch is being
  uploaded, a row that clearing the batch removes was accepted by the server or is larger than
  five megabytes.\<close>

theorem sync_loses_nothing:
  assumes "records_acks io acked" "queue_ok q" "queue_step\<^sup>*\<^sup>* q (drift q)"
    "syncEngine_round io fp token oks drift creds q w = ((creds', q'), w')"
    "r \<in> set (q_rows (drift q))" "r \<notin> set (q_rows q')"
  shows "q_payload r \<in> acked w' \<or> length (q_payload r) > maxTelemetryPayloadBytes"
proof -
  obtain items where items: "PopBatch (fst oks) 50 q = Some items"
    using assms(4-6) by (cases "PopBatch (fst oks) 50 q") (auto simp: syncEngine_round_def)
  obtain ids creds1 w1 where s: "sync_items io fp token items creds w = ((ids, creds1), w1)" by (metis prod_cases3 surj_pair)
  have q': "q' = snd (MarkSent (snd oks) ids (drift q))" "w' = w1" using assms(4) items s by (auto simp: syncEngine_round_def)
  then have "q_id r \<in> set ids" using assms(5,6) by (auto simp: MarkSent_def split: if_splits)
  then obtain p where p: "(q_id r, p) \<in> set items" "p \<in> acked w1 \<or> length p > maxTelemetryPayloadBytes"
    using sync_items_acked [OF assms(1) s] by blast
  have "(q_id r, p) \<in> (\<lambda>r. (q_id r, q_payload r)) ` set (q_rows q)"
    using p(1) items set_take_subset [of 50 "rev (q_rows q)"] by (fastforce simp: PopBatch_def split: if_splits)
  then obtain r0 where r0: "r0 \<in> set (q_rows q)" "q_id r0 = q_id r" "q_payload r0 = p" by auto
  have "same_old_rows q (drift q)" by (rule meanwhile.run_le [OF assms(3)])
  moreover have "q_id r \<le> q_last q" using assms(2) r0(1,2) by (auto simp: queue_ok_def)
  ultimately have "r \<in> set (q_rows q)" using assms(2,5) unfolding same_old_rows_def by blast
  then have "r = r0" using queue_ok_unique [OF assms(2)] r0(1,2) by simp
  then show ?thesis using p(2) r0(3) q'(2) by simp
qed
subsection \<open>The queue drains\<close>

definition accepts_all :: "'w agent_io \<Rightarrow> bool" where
  "accepts_all io \<longleftrightarrow> (\<forall>key p w. fst (io_ingest io key p w) = Some 200)"

lemma sync_item_accepts:
  assumes "accepts_all io"
  shows "fst (fst (sync_item io fp token p creds w))"
proof -
  obtain r w1 where i: "io_ingest io (cred_key creds) p w = (r, w1)" by fastforce
  then have "r = Some 200" using assms unfolding accepts_all_def by (metis fst_conv)
  then show ?thesis using i by (simp add: sync_item_def uploadQueuedItem_def)
qed

lemma sync_items_accepts:
  "accepts_all io \<Longrightarrow> fst (fst (sync_items io fp token items creds w)) = map fst items"
proof (induction items arbitrary: creds w)
  case (Cons x items)
  obtain i p where x: "x = (i, p)" by fastforce
  obtain sent creds1 w1 where s: "sync_item io fp token p creds w = ((sent, creds1), w1)" by (metis prod_cases3 surj_pair)
  then have "sent" using sync_item_accepts [OF Cons.prems, of fp token p creds w] by simp
  moreover obtain ids creds2 w2 where r: "sync_items io fp token items creds1 w1 = ((ids, creds2), w2)" by (metis prod_cases3 surj_pair)
  ultimately show ?case using x s Cons.IH [OF Cons.prems, of creds1 w1] by simp
qed simp

text \<open>A round that the server accepts leaves what was older than the fifty newest rows.\<close>

lemma round_drains:
  assumes "accepts_all io" "queue_ok q" "syncEngine_round io fp token (True, True) (\<lambda>q. q) creds q w = ((creds', q'), w')"
  shows "q_rows q' = rev (drop 50 (rev (q_rows q))) \<and> queue_ok q'"
proof -
  let ?new = "take 50 (rev (q_rows q))"
  let ?items = "map (\<lambda>r. (q_id r, q_payload r)) ?new"
  obtain ids creds1 w1 where s: "sync_items io fp token ?items creds w = ((ids, creds1), w1)"
    by (cases "sync_items io fp token ?items creds w") (auto simp del: take_map rev_map)
  have "ids = map fst ?items" using sync_items_accepts [OF assms(1), of fp token ?items creds w] unfolding s fst_conv .
  then have ids: "ids = map q_id ?new" unfolding map_map comp_def fst_conv .
  have q': "q' = snd (MarkSent True ids q)" using assms(3) s by (simp add: syncEngine_round_def PopBatch_def)
  have dist: "distinct (map q_id (q_rows q))" using assms(2) by (simp add: queue_ok_def strict_sorted_iff)
  have split: "rev (q_rows q) = ?new @ drop 50 (rev (q_rows q))" by simp
  have apart: "\<forall>r \<in> set (drop 50 (rev (q_rows q))). q_id r \<notin> set ids"
  proof -
    have "distinct (map q_id (?new @ drop 50 (rev (q_rows q))))" unfolding append_take_drop_id using dist by (simp add: rev_map [symmetric])
    then have "set (map q_id ?new) \<inter> set (map q_id (drop 50 (rev (q_rows q)))) = {}"
      unfolding map_append distinct_append by (elim conjE)
    then show ?thesis unfolding ids set_map by blast
  qed
  have "rev (filter (\<lambda>r. q_id r \<notin> set ids) (q_rows q)) = filter (\<lambda>r. q_id r \<notin> set ids) (?new @ drop 50 (rev (q_rows q)))"
    by (simp add: rev_filter [symmetric])
  also have "\<dots> = drop 50 (rev (q_rows q))"
  proof -
    have "filter (\<lambda>r. q_id r \<notin> set ids) ?new = []" by (simp add: ids filter_empty_conv)
    moreover have "filter (\<lambda>r. q_id r \<notin> set ids) (drop 50 (rev (q_rows q))) = drop 50 (rev (q_rows q))"
      using apart by (simp add: filter_id_conv)
    ultimately show ?thesis by (simp only: filter_append append_Nil)
  qed
  finally have "filter (\<lambda>r. q_id r \<notin> set ids) (q_rows q) = rev (drop 50 (rev (q_rows q)))" by (metis rev_rev_ident)
  moreover have "ids = [] \<Longrightarrow> q_rows q = []" unfolding ids by simp
  ultimately show ?thesis using q' queue_ok_MarkSent [OF assms(2), of True ids] by (cases "ids = []") (auto simp: MarkSent_def)
qed

text \<open>The rounds of the engine while nothing else touches the queue.\<close>

definition sync_rounds ::
  "'w agent_io \<Rightarrow> fingerprint \<Rightarrow> string \<Rightarrow> nat \<Rightarrow> (agent_credentials \<times> queue_db) \<times> 'w \<Rightarrow> (agent_credentials \<times> queue_db) \<times> 'w" where
  "sync_rounds io fp token n =
     ((\<lambda>s. case s of ((creds, q), w) \<Rightarrow> syncEngine_round io fp token (True, True) (\<lambda>q. q) creds q w) ^^ n)"

lemma sync_rounds_rows:
  assumes "accepts_all io" "queue_ok q"
  shows "q_rows (snd (fst (sync_rounds io fp token n ((creds, q), w)))) = rev (drop (50 * n) (rev (q_rows q)))
    \<and> queue_ok (snd (fst (sync_rounds io fp token n ((creds, q), w))))"
proof (induction n)
  case (Suc n)
  obtain creds1 q1 w1 where s: "sync_rounds io fp token n ((creds, q), w) = ((creds1, q1), w1)" by (metis prod_cases3 surj_pair)
  obtain creds2 q2 w2 where r: "syncEngine_round io fp token (True, True) (\<lambda>q. q) creds1 q1 w1 = ((creds2, q2), w2)" by (metis prod_cases3 surj_pair)
  have "sync_rounds io fp token (Suc n) ((creds, q), w) = ((creds2, q2), w2)" using s r by (simp add: sync_rounds_def)
  moreover have "q_rows q1 = rev (drop (50 * n) (rev (q_rows q)))" "queue_ok q1" using Suc s by simp_all
  moreover have "q_rows q2 = rev (drop 50 (rev (q_rows q1))) \<and> queue_ok q2" by (rule round_drains [OF assms(1) \<open>queue_ok q1\<close> r])
  ultimately show ?case by (simp add: add.commute)
qed (use assms(2) in \<open>simp add: sync_rounds_def\<close>)

text \<open>C16. When the server accepts everything, the queue empties: a backlog of \<open>n\<close> rows is gone after
  \<open>n / 50\<close> rounds (rounded up), the newest rows first.\<close>

theorem sync_drains:
  assumes "accepts_all io" "queue_ok q" "length (q_rows q) \<le> 50 * n"
  shows "q_rows (snd (fst (sync_rounds io fp token n ((creds, q), w)))) = []"
  using sync_rounds_rows [OF assms(1,2), of fp token n creds w] assms(3) by simp

text \<open>A batch of fifty rows that the server refuses for good (any answer other than 200 and 401) blocks
  the queue: the engine takes the newest fifty again and again and never reaches the older rows.\<close>

theorem refused_batch_blocks:
  assumes "\<forall>r \<in> set (take 50 (rev (q_rows q))). length (q_payload r) \<le> maxTelemetryPayloadBytes
      \<and> (\<forall>key w. fst (io_ingest io key (q_payload r) w) \<notin> {Some 200, Some 401})"
  shows "snd (fst (syncEngine_round io fp token (True, True) (\<lambda>q. q) creds q w)) = q"
proof -
  have item: "fst (sync_item io fp token p creds w) = (False, creds)"
    if "length p \<le> maxTelemetryPayloadBytes" "\<forall>key w. fst (io_ingest io key p w) \<notin> {Some 200, Some 401}" for p creds w
  proof -
    obtain r w1 where "io_ingest io (cred_key creds) p w = (r, w1)" by fastforce
    moreover from this have "r \<notin> {Some 200, Some 401}" using that(2) by (metis fst_conv)
    ultimately show ?thesis using that(1) by (auto simp: sync_item_def uploadQueuedItem_def split: option.split)
  qed
  have "fst (sync_items io fp token items creds w) = ([], creds)"
    if "\<forall>(i, p) \<in> set items. length p \<le> maxTelemetryPayloadBytes \<and> (\<forall>key w. fst (io_ingest io key p w) \<notin> {Some 200, Some 401})" for items creds w
    using that
  proof (induction items arbitrary: creds w)
    case (Cons x items)
    obtain i p where x: "x = (i, p)" by fastforce
    obtain w1 where s: "sync_item io fp token p creds w = ((False, creds), w1)"
      using item [of p creds w] Cons.prems x by (cases "sync_item io fp token p creds w") auto
    show ?case using s x Cons.IH [of creds w1] Cons.prems by (auto split: prod.split)
  qed simp
  from this [of "map (\<lambda>r. (q_id r, q_payload r)) (take 50 (rev (q_rows q)))" creds w] assms
  have "fst (sync_items io fp token (map (\<lambda>r. (q_id r, q_payload r)) (take 50 (rev (q_rows q)))) creds w) = ([], creds)" by auto
  then show ?thesis by (auto simp: syncEngine_round_def PopBatch_def MarkSent_def split: prod.split)
qed

subsection \<open>Runs\<close>

text \<open>A world that lists the payloads accepted, before a server that answers with a fixed status.\<close>

definition sample_io :: "nat \<Rightarrow> string list agent_io" where
  "sample_io status = \<lparr>io_ingest = (\<lambda>_ p w. (Some status, if status = 200 then p # w else w)), io_register = (\<lambda>_ _ w. (None, w)),
     io_read_cache = (\<lambda>w. (No_cache, w)), io_write_cache = (\<lambda>_ w. (True, w))\<rparr>"

definition sample_fp :: fingerprint where "sample_fp = \<lparr>fp_host = ''h'', fp_uuid = ''u'', fp_mac = ''m''\<rparr>"

definition sample_queue :: queue_db where
  "sample_queue = \<lparr>q_rows = [\<lparr>q_id = 1, q_payload = ''a'', q_created = 0\<rparr>, \<lparr>q_id = 2, q_payload = ''b'', q_created = 1\<rparr>], q_last = 2, q_pushes = 0\<rparr>"

lemma sample_queue_ok: "queue_ok sample_queue"
  by (simp add: sample_queue_def queue_ok_def)

theorem sync_loses_nothing_witness:
  "''a'' \<in> set (snd (syncEngine_round (sample_io 200) sample_fp [] (True, True) (\<lambda>q. q) (setCredentials ''d'' ''k'') sample_queue []))
   \<or> length ''a'' > maxTelemetryPayloadBytes"
proof -
  have r: "syncEngine_round (sample_io 200) sample_fp [] (True, True) (\<lambda>q. q) (setCredentials ''d'' ''k'') sample_queue []
      = ((setCredentials ''d'' ''k'', sample_queue\<lparr>q_rows := []\<rparr>), [''a'', ''b''])"
    by (simp add: syncEngine_round_def PopBatch_def sample_queue_def sync_item_def uploadQueuedItem_def sample_io_def
        MarkSent_def maxTelemetryPayloadBytes_def)
  have "records_acks (sample_io 200) set" by (auto simp: records_acks_def sample_io_def)
  from sync_loses_nothing [OF this sample_queue_ok _ r, of "\<lparr>q_id = 1, q_payload = ''a'', q_created = 0\<rparr>"]
  show ?thesis unfolding r by (simp add: sample_queue_def)
qed

theorem sync_drains_witness:
  "q_rows (snd (fst (sync_rounds (sample_io 200) sample_fp [] 1 ((setCredentials ''d'' ''k'', sample_queue), [])))) = []"
  by (rule sync_drains) (simp_all add: accepts_all_def sample_io_def sample_queue_def queue_ok_def)

theorem refused_batch_blocks_witness:
  "snd (fst (syncEngine_round (sample_io 400) sample_fp [] (True, True) (\<lambda>q. q) (setCredentials ''d'' ''k'') sample_queue [])) = sample_queue"
  by (rule refused_batch_blocks) (auto simp: sample_io_def sample_queue_def maxTelemetryPayloadBytes_def)

end
