(* ===== verification/Quarantine.thy ===== *)
theory Quarantine
  imports Values GoUrl
begin

text \<open>
  Remote actions on the endpoint, \<^verbatim>\<open>agent/commander\<close>: dispatch of a claimed command, network quarantine
  on Linux through iptables and ip6tables, its release, and the deadline after which the agent
  releases itself. Running a program and resolving a name are calls on the world \<open>'w\<close>
  (\<open>host_io\<close>). What iptables does is not part of the program: \<open>tool_laws\<close> states its documented
  behaviour over a view of the chain and the hooks, and only the proofs use it.
\<close>

named_theorems quarantine \<open>facts on the quarantine\<close>

subsection \<open>The world\<close>

text \<open>A program run gives its output and whether it succeeded.\<close>

record 'w host_io =
  execCommand :: "string \<Rightarrow> string list \<Rightarrow> 'w \<Rightarrow> (string \<times> bool) \<times> 'w"
  lookupIP :: "string \<Rightarrow> 'w \<Rightarrow> string list option"

fun join_with :: "string \<Rightarrow> string list \<Rightarrow> string" where
  "join_with sep [] = []"
| "join_with sep [x] = x"
| "join_with sep (x # xs) = x @ sep @ join_with sep xs"

definition quarantineChain :: string where "quarantineChain = ''DEVICEPULSE_Q''"

definition splitIPFamilies :: "string list \<Rightarrow> string list \<times> string list" where
  "splitIPFamilies ips = (filter (\<lambda>ip. CHR '':'' \<notin> set ip) ips, filter (\<lambda>ip. CHR '':'' \<in> set ip) ips)"

text \<open>\<open>hostname\<close> is \<^verbatim>\<open>url.URL.Hostname\<close>: it strips the port.\<close>

definition apiHost :: "(string \<Rightarrow> string) \<Rightarrow> string \<Rightarrow> string" where
  "apiHost hostname apiURL = (case url_parse apiURL of None \<Rightarrow> [] | Some u \<Rightarrow> hostname (u_host u))"

definition resolveHostIPs :: "'w host_io \<Rightarrow> string \<Rightarrow> 'w \<Rightarrow> string list" where
  "resolveHostIPs io host w =
     (if host = [] then [] else case lookupIP io host w of None \<Rightarrow> [] | Some ips \<Rightarrow> take 4 ips)"

subsection \<open>Isolating the host\<close>

definition base_rules :: "bool \<Rightarrow> string list list" where
  "base_rules v6 =
     [[''-i'', ''lo'', ''-j'', ''ACCEPT''], [''-o'', ''lo'', ''-j'', ''ACCEPT''],
      [''-m'', ''conntrack'', ''--ctstate'', ''ESTABLISHED,RELATED'', ''-j'', ''ACCEPT''],
      [''-p'', ''udp'', ''--dport'', ''53'', ''-j'', ''ACCEPT''], [''-p'', ''tcp'', ''--dport'', ''53'', ''-j'', ''ACCEPT'']]
     @ (if v6 then [[''-p'', ''udp'', ''--sport'', ''546:547'', ''--dport'', ''546:547'', ''-j'', ''ACCEPT''],
                    [''-p'', ''ipv6-icmp'', ''-j'', ''ACCEPT'']]
        else [[''-p'', ''udp'', ''--sport'', ''67:68'', ''--dport'', ''67:68'', ''-j'', ''ACCEPT'']])"

definition quarantine_rules :: "string list \<Rightarrow> bool \<Rightarrow> string list list" where
  "quarantine_rules apiIPs v6 =
     base_rules v6 @ concat (map (\<lambda>ip. [[''-d'', ip, ''-j'', ''ACCEPT''], [''-s'', ip, ''-j'', ''ACCEPT'']]) apiIPs)
     @ [[''-j'', ''DROP'']]"

text \<open>The loop that appends the rules; \<open>Some\<close> is the failure text it returns with.\<close>

fun add_rules :: "'w host_io \<Rightarrow> string \<Rightarrow> string list list \<Rightarrow> 'w \<Rightarrow> string option \<times> 'w" where
  "add_rules io bin [] w = (None, w)"
| "add_rules io bin (r # rs) w =
     (case execCommand io bin (''-A'' # quarantineChain # r) w of
        ((out, True), w1) \<Rightarrow> add_rules io bin rs w1
      | ((out, False), w1) \<Rightarrow> (Some (bin @ '' ['' @ join_with '' '' (''-A'' # quarantineChain # r) @ ''] failed: '' @ out), w1))"

fun add_hooks :: "'w host_io \<Rightarrow> string \<Rightarrow> string list \<Rightarrow> string list \<Rightarrow> 'w \<Rightarrow> string list \<times> 'w" where
  "add_hooks io bin [] failures w = (failures, w)"
| "add_hooks io bin (hook # hooks) failures w =
     (case execCommand io bin [''-C'', hook, ''-j'', quarantineChain] w of
        ((_, True), w1) \<Rightarrow> add_hooks io bin hooks failures w1
      | ((_, False), w1) \<Rightarrow>
          (case execCommand io bin [''-I'', hook, ''1'', ''-j'', quarantineChain] w1 of
             ((_, True), w2) \<Rightarrow> add_hooks io bin hooks failures w2
           | ((out, False), w2) \<Rightarrow> add_hooks io bin hooks (failures @ [bin @ '' '' @ hook @ '' hook: '' @ out]) w2))"

definition hooks :: "string list" where "hooks = [''INPUT'', ''OUTPUT'']"

definition applyQuarantineChain :: "'w host_io \<Rightarrow> string \<Rightarrow> string list \<Rightarrow> bool \<Rightarrow> 'w \<Rightarrow> (string \<times> string) \<times> 'w" where
  "applyQuarantineChain io bin apiIPs v6 w =
     (case execCommand io bin [''-N'', quarantineChain] w of (_, w1) \<Rightarrow>
      (case execCommand io bin [''-F'', quarantineChain] w1 of
         ((out, False), w2) \<Rightarrow> ((''failed'', bin @ '': cannot reset quarantine chain: '' @ out), w2)
       | ((_, True), w2) \<Rightarrow>
         (case add_rules io bin (quarantine_rules apiIPs v6) w2 of
            (Some err, w3) \<Rightarrow> ((''failed'', err), w3)
          | (None, w3) \<Rightarrow>
            (case add_hooks io bin hooks [] w3 of (failures, w4) \<Rightarrow>
               ((if failures \<noteq> [] then (''failed'', join_with ''; '' failures) else (''success'', [])), w4)))))"

subsection \<open>Releasing it\<close>

fun drop_hooks :: "'w host_io \<Rightarrow> string \<Rightarrow> string list \<Rightarrow> string list \<Rightarrow> 'w \<Rightarrow> string list \<times> 'w" where
  "drop_hooks io bin [] notes w = (notes, w)"
| "drop_hooks io bin (h # hs) notes w =
     (case execCommand io bin [''-C'', h, ''-j'', quarantineChain] w of
        ((_, False), w1) \<Rightarrow> drop_hooks io bin hs notes w1
      | ((_, True), w1) \<Rightarrow>
          (case execCommand io bin [''-D'', h, ''-j'', quarantineChain] w1 of
             ((_, True), w2) \<Rightarrow> drop_hooks io bin hs notes w2
           | ((out, False), w2) \<Rightarrow> drop_hooks io bin hs (notes @ [bin @ '' unhook '' @ h @ '': '' @ out]) w2))"

definition drop_chain :: "'w host_io \<Rightarrow> string \<Rightarrow> string list \<Rightarrow> 'w \<Rightarrow> string list \<times> 'w" where
  "drop_chain io bin notes w =
     (case execCommand io bin [''-L'', quarantineChain, ''-n''] w of
        ((_, False), w1) \<Rightarrow> (notes, w1)
      | ((_, True), w1) \<Rightarrow>
        (case execCommand io bin [''-F'', quarantineChain] w1 of ((out1, ok1), w2) \<Rightarrow>
         (case execCommand io bin [''-X'', quarantineChain] w2 of ((out2, ok2), w3) \<Rightarrow>
            (notes @ (if ok1 then [] else [bin @ '' flush: '' @ out1]) @ (if ok2 then [] else [bin @ '' delete chain: '' @ out2]), w3))))"

fun release_bins :: "'w host_io \<Rightarrow> string list \<Rightarrow> string list \<Rightarrow> 'w \<Rightarrow> string list \<times> 'w" where
  "release_bins io [] notes w = (notes, w)"
| "release_bins io (bin # bins) notes w =
     (case execCommand io bin [''--version''] w of
        ((_, False), w1) \<Rightarrow> release_bins io bins notes w1
      | ((_, True), w1) \<Rightarrow>
        (case drop_hooks io bin hooks notes w1 of (notes2, w2) \<Rightarrow>
         (case drop_chain io bin notes2 w2 of (notes3, w3) \<Rightarrow> release_bins io bins notes3 w3)))"

definition quarantineRelease :: "'w host_io \<Rightarrow> 'w \<Rightarrow> (string \<times> string) \<times> 'w" where
  "quarantineRelease io w =
     (case release_bins io [''iptables'', ''ip6tables''] [] w of (notes, w') \<Rightarrow>
        ((if notes \<noteq> [] then (''failed'', ''release incomplete: '' @ join_with ''; '' notes)
          else (''success'', ''quarantine rules removed, full connectivity restored'')), w'))"

definition enabled_detail :: "string list \<Rightarrow> string" where
  "enabled_detail apiIPs =
     (if apiIPs = [] then ''host quarantined via iptables chain '' @ quarantineChain @
          '' (WARNING: API host could not be resolved; only DNS/loopback allowed)''
      else ''host quarantined via iptables chain '' @ quarantineChain @
          '' (allowed: loopback, established, DNS, DHCP, API '' @ join_with '','' apiIPs @ '')'')"

definition quarantineEnable :: "'w host_io \<Rightarrow> (string \<Rightarrow> string) \<Rightarrow> string \<Rightarrow> 'w \<Rightarrow> (string \<times> string) \<times> 'w" where
  "quarantineEnable io hostname apiURL w =
     (case execCommand io ''iptables'' [''--version''] w of
        ((out, False), w1) \<Rightarrow> ((''unsupported'', ''iptables not available: '' @ out), w1)
      | ((_, True), w1) \<Rightarrow>
        (let apiIPs = resolveHostIPs io (apiHost hostname apiURL) w1; (v4, v6) = splitIPFamilies apiIPs in
         (case applyQuarantineChain io ''iptables'' v4 False w1 of ((status, detail), w2) \<Rightarrow>
            if status \<noteq> ''success'' then ((status, detail), w2)
            else (case execCommand io ''ip6tables'' [''--version''] w2 of
                    ((_, False), w3) \<Rightarrow> ((''success'', enabled_detail apiIPs @ '' WARNING: ip6tables not available, IPv6 traffic is NOT isolated.''), w3)
                  | ((_, True), w3) \<Rightarrow>
                    (case applyQuarantineChain io ''ip6tables'' v6 True w3 of ((status6, detail6), w4) \<Rightarrow>
                       if status6 \<noteq> ''success''
                       then ((''failed'', ''IPv6 isolation failed, rolled back: '' @ detail6), snd (quarantineRelease io w4))
                       else ((''success'', enabled_detail apiIPs), w4))))))"

subsection \<open>The deadline\<close>

text \<open>The scheduled release, the state file, and whether the data directory is known (without it there is
  no file). A timer that has fired is not scheduled any more.\<close>

record quarantine_state =
  qs_timer :: "gotime option"
  qs_file :: "string option"
  qs_dir :: bool

definition quarantineDuration :: "obj \<Rightarrow> int" where
  "quarantineDuration params =
     (case get params ''duration_minutes'' of
        F64 minutes \<Rightarrow>
          if minutes < 1 then 24 * hour_ns
          else f2i (fmul (if minutes > 30 * 24 * 60 then 30 * 24 * 60 else minutes) (i2f minute_ns))
      | _ \<Rightarrow> 24 * hour_ns)"

text \<open>\<open>ok\<close>: whether the state file could be written; a failure is ignored and may leave the old file.\<close>

definition armQuarantineDeadline :: "bool \<Rightarrow> int \<Rightarrow> gotime \<Rightarrow> quarantine_state \<Rightarrow> quarantine_state" where
  "armQuarantineDeadline ok d now s =
     s\<lparr>qs_timer := Some (add now d), qs_file := (if qs_dir s \<and> ok then Some (rfc3339_sec_str (utc (add now d))) else qs_file s)\<rparr>"

definition clearQuarantineDeadline :: "quarantine_state \<Rightarrow> quarantine_state" where
  "clearQuarantineDeadline s = s\<lparr>qs_timer := None, qs_file := (if qs_dir s then None else qs_file s)\<rparr>"

text \<open>What the timer runs when it fires.\<close>

definition autoReleaseQuarantine :: "'w host_io \<Rightarrow> quarantine_state \<times> 'w \<Rightarrow> quarantine_state \<times> 'w" where
  "autoReleaseQuarantine io st =
     (case st of (s, w) \<Rightarrow>
      (case quarantineRelease io w of ((status, _), w1) \<Rightarrow>
         (if status = ''success'' then clearQuarantineDeadline s else s\<lparr>qs_timer := None\<rparr>, w1)))"

definition ResumeQuarantineDeadline :: "quarantine_state \<Rightarrow> quarantine_state" where
  "ResumeQuarantineDeadline s =
     (if \<not> qs_dir s then s
      else case qs_file s of None \<Rightarrow> s
       | Some text \<Rightarrow> (case parse_rfc3339 (trim_space text) of
            None \<Rightarrow> s\<lparr>qs_file := None\<rparr>
          | Some until \<Rightarrow> s\<lparr>qs_timer := Some until\<rparr>))"

text \<open>A restart of the agent: the timer is gone, the file is not.\<close>

definition restarted :: "quarantine_state \<Rightarrow> quarantine_state" where
  "restarted s = ResumeQuarantineDeadline (s\<lparr>qs_timer := None\<rparr>)"

subsection \<open>Dispatch\<close>

text \<open>What runs after the result was posted.\<close>

datatype followup = Nothing | Collect_now | Restart | Wipe

text \<open>\<^verbatim>\<open>d.Round(time.Minute)\<close> as text, for a duration of at least a minute.\<close>

definition minutes_str :: "int \<Rightarrow> string" where
  "minutes_str d =
     (let m = (d + 30 * ns_per_s) div minute_ns
      in (if m \<ge> 60 then dec_str (nat (m div 60)) @ ''h'' else []) @ dec_str (nat (m mod 60)) @ ''m0s'')"

text \<open>\<open>lock\<close> is \<^verbatim>\<open>lockScreen\<close> of the platform.\<close>

definition Execute ::
  "'w host_io \<Rightarrow> (string \<Rightarrow> string) \<Rightarrow> ('w \<Rightarrow> (string \<times> string) \<times> 'w) \<Rightarrow> string \<Rightarrow> bool \<Rightarrow> string \<times> obj \<Rightarrow> gotime
     \<Rightarrow> quarantine_state \<times> 'w \<Rightarrow> (string \<times> string \<times> followup) \<times> quarantine_state \<times> 'w" where
  "Execute io hostname lock apiURL ok cmd now st =
     (case cmd of (ty, params) \<Rightarrow> case st of (s, w) \<Rightarrow>
      if ty = ''collect_now'' then ((''success'', ''collection cycle triggered'', Collect_now), st)
      else if ty = ''restart_agent'' then ((''success'', ''agent restart scheduled'', Restart), st)
      else if ty = ''lock_screen'' then (case lock w of ((status, detail), w1) \<Rightarrow> ((status, detail, Nothing), (s, w1)))
      else if ty = ''quarantine_enable''
      then (case quarantineEnable io hostname apiURL w of ((status, detail), w1) \<Rightarrow>
              if status = ''success''
              then ((status, detail @ ''; auto-release in '' @ minutes_str (quarantineDuration params), Nothing), (armQuarantineDeadline ok (quarantineDuration params) now s, w1))
              else ((status, detail, Nothing), (s, w1)))
      else if ty = ''quarantine_release''
      then (case quarantineRelease io w of ((status, detail), w1) \<Rightarrow>
              ((status, detail, Nothing), (if status = ''success'' then clearQuarantineDeadline s else s, w1)))
      else if ty = ''wipe_agent'' then ((''success'', ''corporate wipe started (data purge + service disable)'', Wipe), st)
      else ((''unsupported'', ''unknown command type '' @ [CHR 0x22] @ ty @ [CHR 0x22], Nothing), st))"
subsection \<open>What the tools do\<close>

text \<open>The chain of one tool (\<open>None\<close>: it does not exist) and how often each built-in chain jumps to it.\<close>

record firewall =
  fw_chain :: "string list list option"
  fw_hooked :: "string \<Rightarrow> nat"

text \<open>The effect of a successful run; \<open>None\<close> where the tool must fail.\<close>

definition iptables_effect :: "string list \<Rightarrow> firewall \<Rightarrow> firewall option" where
  "iptables_effect args s =
     (if args = [''--version''] then Some s
      else if args = [''-N'', quarantineChain] then (if fw_chain s = None then Some (s\<lparr>fw_chain := Some []\<rparr>) else None)
      else if args = [''-F'', quarantineChain] then (if fw_chain s = None then None else Some (s\<lparr>fw_chain := Some []\<rparr>))
      else if args = [''-L'', quarantineChain, ''-n''] then (if fw_chain s = None then None else Some s)
      else if args = [''-X'', quarantineChain] then (if fw_chain s = None then None else Some (s\<lparr>fw_chain := None\<rparr>))
      else if take 2 args = [''-A'', quarantineChain]
      then map_option (\<lambda>rs. s\<lparr>fw_chain := Some (rs @ [drop 2 args])\<rparr>) (fw_chain s)
      else if length args = 4 \<and> args ! 0 = ''-C'' \<and> drop 2 args = [''-j'', quarantineChain]
      then (if fw_hooked s (args ! 1) > 0 then Some s else None)
      else if length args = 4 \<and> args ! 0 = ''-D'' \<and> drop 2 args = [''-j'', quarantineChain]
      then (if fw_hooked s (args ! 1) > 0 then Some (s\<lparr>fw_hooked := (fw_hooked s)(args ! 1 := fw_hooked s (args ! 1) - 1)\<rparr>) else None)
      else if length args = 5 \<and> args ! 0 = ''-I'' \<and> drop 2 args = [''1'', ''-j'', quarantineChain]
      then Some (s\<lparr>fw_hooked := (fw_hooked s)(args ! 1 := fw_hooked s (args ! 1) + 1)\<rparr>)
      else None)"

definition tools :: "string set" where "tools = {''iptables'', ''ip6tables''}"

text \<open>A run of a tool that succeeds has that effect, one that fails has none; asking (\<^verbatim>\<open>--version\<close>, and on an
  installed tool \<^verbatim>\<open>-C\<close> and \<^verbatim>\<open>-L\<close>) succeeds exactly when the answer is yes.\<close>

definition tool_laws :: "'w host_io \<Rightarrow> (string \<Rightarrow> 'w \<Rightarrow> firewall) \<Rightarrow> (string \<Rightarrow> 'w \<Rightarrow> bool) \<Rightarrow> bool" where
  "tool_laws io view installed \<longleftrightarrow>
     (\<forall>bin args w out ok w'. bin \<in> tools \<longrightarrow> execCommand io bin args w = ((out, ok), w') \<longrightarrow>
        (\<forall>b \<in> tools. installed b w' = installed b w \<and> (b \<noteq> bin \<longrightarrow> view b w' = view b w))
        \<and> (if ok then iptables_effect args (view bin w) = Some (view bin w') else view bin w' = view bin w)
        \<and> (args = [''--version''] \<longrightarrow> ok = installed bin w)
        \<and> (installed bin w \<and> args \<noteq> [] \<and> hd args \<in> {''-C'', ''-L''} \<longrightarrow> ok = (iptables_effect args (view bin w) \<noteq> None)))"

lemma tool_run:
  assumes "tool_laws io view installed" "bin \<in> tools" "execCommand io bin args w = ((out, ok), w')"
  shows "b \<in> tools \<Longrightarrow> installed b w' = installed b w"
    and "b \<in> tools \<Longrightarrow> b \<noteq> bin \<Longrightarrow> view b w' = view b w"
    and "ok \<Longrightarrow> iptables_effect args (view bin w) = Some (view bin w')"
    and "\<not> ok \<Longrightarrow> view bin w' = view bin w"
    and "args = [''--version''] \<Longrightarrow> ok = installed bin w"
    and "installed bin w \<Longrightarrow> args \<noteq> [] \<Longrightarrow> hd args \<in> {''-C'', ''-L''} \<Longrightarrow> ok = (iptables_effect args (view bin w) \<noteq> None)"
  using assms unfolding tool_laws_def by (metis (full_types))+

lemma effect_simps [quarantine]:
  "iptables_effect [''--version''] s = Some s"
  "iptables_effect [''-N'', quarantineChain] s = (if fw_chain s = None then Some (s\<lparr>fw_chain := Some []\<rparr>) else None)"
  "iptables_effect [''-F'', quarantineChain] s = (if fw_chain s = None then None else Some (s\<lparr>fw_chain := Some []\<rparr>))"
  "iptables_effect [''-L'', quarantineChain, ''-n''] s = (if fw_chain s = None then None else Some s)"
  "iptables_effect [''-X'', quarantineChain] s = (if fw_chain s = None then None else Some (s\<lparr>fw_chain := None\<rparr>))"
  "iptables_effect (''-A'' # quarantineChain # r) s = map_option (\<lambda>rs. s\<lparr>fw_chain := Some (rs @ [r])\<rparr>) (fw_chain s)"
  "iptables_effect [''-C'', h, ''-j'', quarantineChain] s = (if fw_hooked s h > 0 then Some s else None)"
  "iptables_effect [''-D'', h, ''-j'', quarantineChain] s
     = (if fw_hooked s h > 0 then Some (s\<lparr>fw_hooked := (fw_hooked s)(h := fw_hooked s h - 1)\<rparr>) else None)"
  "iptables_effect [''-I'', h, ''1'', ''-j'', quarantineChain] s = Some (s\<lparr>fw_hooked := (fw_hooked s)(h := fw_hooked s h + 1)\<rparr>)"
  by (simp_all add: iptables_effect_def quarantineChain_def)
subsection \<open>A release opens the host\<close>

definition only :: "(string \<Rightarrow> 'w \<Rightarrow> firewall) \<Rightarrow> (string \<Rightarrow> 'w \<Rightarrow> bool) \<Rightarrow> string \<Rightarrow> 'w \<Rightarrow> 'w \<Rightarrow> bool" where
  "only view installed bin w w' \<longleftrightarrow> (\<forall>b \<in> tools. installed b w' = installed b w \<and> (b \<noteq> bin \<longrightarrow> view b w' = view b w))"

lemma only_refl: "only view installed bin w w"
  by (simp add: only_def)

lemma only_trans: "only view installed bin w w1 \<Longrightarrow> only view installed bin w1 w2 \<Longrightarrow> only view installed bin w w2"
  by (simp add: only_def)

lemma only_run:
  assumes "tool_laws io view installed" "bin \<in> tools" "execCommand io bin args w = ((out, ok), w')"
  shows "only view installed bin w w'"
  unfolding only_def using tool_run(1,2) [OF assms] by blast

lemma only_installed: "only view installed bin w w' \<Longrightarrow> b \<in> tools \<Longrightarrow> installed b w' = installed b w"
  by (simp add: only_def)

lemma only_view: "only view installed bin w w' \<Longrightarrow> b \<in> tools \<Longrightarrow> b \<noteq> bin \<Longrightarrow> view b w' = view b w"
  by (simp add: only_def)

text \<open>A stretch of a release on one tool: nothing else is touched, no hook is added, failure texts are kept.\<close>

definition releasing :: "(string \<Rightarrow> 'w \<Rightarrow> firewall) \<Rightarrow> (string \<Rightarrow> 'w \<Rightarrow> bool) \<Rightarrow> string
    \<Rightarrow> string list \<times> 'w \<Rightarrow> string list \<times> 'w \<Rightarrow> bool" where
  "releasing view installed bin r r' \<longleftrightarrow>
     only view installed bin (snd r) (snd r') \<and> (\<forall>h. fw_hooked (view bin (snd r')) h \<le> fw_hooked (view bin (snd r)) h)
     \<and> (fst r' = [] \<longrightarrow> fst r = [])"

lemma releasing_refl: "releasing view installed bin r r"
  by (simp add: releasing_def only_refl)

lemma releasing_trans:
  assumes "releasing view installed bin r r1" "releasing view installed bin r1 r2"
  shows "releasing view installed bin r r2"
  using assms le_trans unfolding releasing_def by (blast intro: only_trans)

lemma drop_hook:
  assumes "tool_laws io view installed" "bin \<in> tools" "drop_hooks io bin (h # hs) ns w = r"
  obtains ns1 w1 where "drop_hooks io bin hs ns1 w1 = r" "releasing view installed bin (ns, w) (ns1, w1)"
    "ns1 = [] \<Longrightarrow> installed bin w \<Longrightarrow> fw_hooked (view bin w) h \<le> 1 \<Longrightarrow> fw_hooked (view bin w1) h = 0"
proof -
  obtain out ok w1 where c: "execCommand io bin [''-C'', h, ''-j'', quarantineChain] w = ((out, ok), w1)" by (metis surj_pair)
  note run = tool_run [OF assms(1,2) c] and frame = only_run [OF assms(1,2) c]
  have v1: "view bin w1 = view bin w" using run(3,4) by (cases ok) (simp_all add: quarantine split: if_splits)
  have ok: "installed bin w \<Longrightarrow> ok = (fw_hooked (view bin w) h > 0)" using run(6) by (simp add: quarantine)
  show thesis
  proof (cases ok)
    case False
    show ?thesis
      by (rule that [of ns w1]) (use assms(3) c False v1 ok frame in \<open>simp_all add: releasing_def\<close>)
  next
    case True
    obtain out2 ok2 w2 where d: "execCommand io bin [''-D'', h, ''-j'', quarantineChain] w1 = ((out2, ok2), w2)" by (metis surj_pair)
    note run2 = tool_run [OF assms(1,2) d] and frame2 = only_trans [OF frame only_run [OF assms(1,2) d]]
    show ?thesis
    proof (cases ok2)
      case False
      show ?thesis
        by (rule that [of "ns @ [bin @ '' unhook '' @ h @ '': '' @ out2]" w2])
          (use assms(3) c d True False v1 run2(4) frame2 in \<open>simp_all add: releasing_def\<close>)
    next
      case ok2: True
      have v2: "view bin w2 = (view bin w)\<lparr>fw_hooked := (fw_hooked (view bin w))(h := fw_hooked (view bin w) h - 1)\<rparr>"
        using run2(3) ok2 v1 by (simp add: quarantine split: if_splits)
      show ?thesis
        by (rule that [of ns w2]) (use assms(3) c d True ok2 v2 frame2 in \<open>simp_all add: releasing_def\<close>)
    qed
  qed
qed

lemma drop_hooks_run:
  assumes "tool_laws io view installed" "bin \<in> tools" "drop_hooks io bin hs ns w = (ns', w')"
  shows "releasing view installed bin (ns, w) (ns', w')
    \<and> (ns' = [] \<longrightarrow> installed bin w \<longrightarrow> (\<forall>h \<in> set hs. fw_hooked (view bin w) h \<le> 1 \<longrightarrow> fw_hooked (view bin w') h = 0))"
  using assms(3)
proof (induction hs arbitrary: ns w)
  case Nil
  then show ?case by (simp add: releasing_refl)
next
  case (Cons h hs)
  obtain ns1 w1 where s: "drop_hooks io bin hs ns1 w1 = (ns', w')" "releasing view installed bin (ns, w) (ns1, w1)"
    "ns1 = [] \<Longrightarrow> installed bin w \<Longrightarrow> fw_hooked (view bin w) h \<le> 1 \<Longrightarrow> fw_hooked (view bin w1) h = 0"
    using drop_hook [OF assms(1,2) Cons.prems] by metis
  note ih = Cons.IH [OF s(1)]
  have "installed bin w1 = installed bin w" using s(2) assms(2) by (simp add: releasing_def only_def)
  moreover have "fw_hooked (view bin w1) x \<le> 1" if "fw_hooked (view bin w) x \<le> 1" for x
    using s(2) that unfolding releasing_def by (metis le_trans snd_conv)
  moreover have "fw_hooked (view bin w') h = 0" if "ns' = []" "installed bin w" "fw_hooked (view bin w) h \<le> 1"
    using s(3) that ih by (simp add: releasing_def) (metis le_0_eq)
  ultimately show ?case using ih releasing_trans [OF s(2)] by auto
qed

lemma drop_chain_run:
  assumes "tool_laws io view installed" "bin \<in> tools" "drop_chain io bin ns w = (ns', w')"
  shows "releasing view installed bin (ns, w) (ns', w')"
proof -
  obtain out ok w1 where l: "execCommand io bin [''-L'', quarantineChain, ''-n''] w = ((out, ok), w1)" by (metis surj_pair)
  obtain out1 ok1 w2 where f: "execCommand io bin [''-F'', quarantineChain] w1 = ((out1, ok1), w2)" by (metis surj_pair)
  obtain out2 ok2 w3 where x: "execCommand io bin [''-X'', quarantineChain] w2 = ((out2, ok2), w3)" by (metis surj_pair)
  have h1: "fw_hooked (view bin w1) = fw_hooked (view bin w)"
    using tool_run(3,4) [OF assms(1,2) l] by (cases ok) (simp_all add: quarantine split: if_splits)
  have h2: "fw_hooked (view bin w2) = fw_hooked (view bin w1)"
    using tool_run(3,4) [OF assms(1,2) f] by (cases ok1) (auto simp: quarantine dest: sym split: if_splits)
  have h3: "fw_hooked (view bin w3) = fw_hooked (view bin w2)"
    using tool_run(3,4) [OF assms(1,2) x] by (cases ok2) (auto simp: quarantine dest: sym split: if_splits)
  note frames = only_run [OF assms(1,2) l] only_run [OF assms(1,2) f] only_run [OF assms(1,2) x]
  have all: "only view installed bin w w3" using frames by (metis only_trans)
  show ?thesis
  proof (cases ok)
    case False
    then show ?thesis using assms(3) l h1 frames(1) by (simp add: drop_chain_def releasing_def)
  next
    case True
    then have "ns' = ns @ (if ok1 then [] else [bin @ '' flush: '' @ out1]) @ (if ok2 then [] else [bin @ '' delete chain: '' @ out2])"
      "w' = w3"
      using assms(3) l f x by (simp_all add: drop_chain_def)
    then show ?thesis using all h1 h2 h3 by (simp add: releasing_def)
  qed
qed

text \<open>One round of the loop over the tools.\<close>

lemma release_bin:
  assumes "tool_laws io view installed" "bin \<in> tools" "release_bins io (bin # bins) ns w = r"
  obtains ns1 w1 where "release_bins io bins ns1 w1 = r" "releasing view installed bin (ns, w) (ns1, w1)"
    "ns1 = [] \<Longrightarrow> installed bin w \<Longrightarrow> \<forall>h \<in> set hooks. fw_hooked (view bin w) h \<le> 1 \<longrightarrow> fw_hooked (view bin w1) h = 0"
proof -
  obtain out ok w1 where v: "execCommand io bin [''--version''] w = ((out, ok), w1)" by (metis surj_pair)
  note frame = only_run [OF assms(1,2) v]
  have ok: "ok = installed bin w" using tool_run(5) [OF assms(1,2) v] by simp
  have v1: "view bin w1 = view bin w" using tool_run(3,4) [OF assms(1,2) v] by (cases ok) (simp_all add: quarantine)
  have s: "releasing view installed bin (ns, w) (ns, w1)" using frame v1 by (simp add: releasing_def)
  show thesis
  proof (cases ok)
    case False
    show ?thesis by (rule that [of ns w1]) (use assms(3) v False ok s in simp_all)
  next
    case True
    obtain ns2 w2 where d: "drop_hooks io bin hooks ns w1 = (ns2, w2)" by (meson surj_pair)
    obtain ns3 w3 where x: "drop_chain io bin ns2 w2 = (ns3, w3)" by (meson surj_pair)
    note d1 = drop_hooks_run [OF assms(1,2) d] and c1 = drop_chain_run [OF assms(1,2) x]
    have inst1: "installed bin w1" using ok True only_installed [OF frame assms(2)] by simp
    show ?thesis
    proof (rule that [of ns3 w3])
      show "release_bins io bins ns3 w3 = r" using assms(3) v True d x by simp
      show "releasing view installed bin (ns, w) (ns3, w3)"
        using s d1 c1 releasing_trans by blast
      show "\<forall>h \<in> set hooks. fw_hooked (view bin w) h \<le> 1 \<longrightarrow> fw_hooked (view bin w3) h = 0" if "ns3 = []"
        using that c1 d1 inst1 v1 by (simp add: releasing_def) (metis le_0_eq)
    qed
  qed
qed
definition released :: "(string \<Rightarrow> 'w \<Rightarrow> firewall) \<Rightarrow> (string \<Rightarrow> 'w \<Rightarrow> bool) \<Rightarrow> 'w \<Rightarrow> bool" where
  "released view installed w \<longleftrightarrow> (\<forall>bin \<in> tools. installed bin w \<longrightarrow> (\<forall>h \<in> set hooks. fw_hooked (view bin w) h = 0))"

text \<open>At most one jump each: what \<open>quarantineEnable\<close> leaves, as it asks with \<^verbatim>\<open>-C\<close> first.\<close>

definition single_hooks :: "(string \<Rightarrow> 'w \<Rightarrow> firewall) \<Rightarrow> 'w \<Rightarrow> bool" where
  "single_hooks view w \<longleftrightarrow> (\<forall>bin \<in> tools. \<forall>h \<in> set hooks. fw_hooked (view bin w) h \<le> 1)"

lemma release_success: "quarantineRelease io w = ((''success'', detail), w') \<Longrightarrow> release_bins io [''iptables'', ''ip6tables''] [] w = ([], w')"
  by (cases "release_bins io [''iptables'', ''ip6tables''] [] w") (simp add: quarantineRelease_def del: release_bins.simps split: if_splits)

lemma release_opens_hooks:
  assumes laws: "tool_laws io view installed" and one: "single_hooks view w"
    and run: "quarantineRelease io w = ((''success'', detail), w')"
  shows "released view installed w'"
proof -
  have t: "''iptables'' \<in> tools" "''ip6tables'' \<in> tools" "tools = {''iptables'', ''ip6tables''}" by (simp_all add: tools_def)
  obtain ns1 w1 where a: "release_bins io [''ip6tables''] ns1 w1 = ([], w')" "releasing view installed ''iptables'' ([], w) (ns1, w1)"
    "ns1 = [] \<Longrightarrow> installed ''iptables'' w \<Longrightarrow> \<forall>h \<in> set hooks. fw_hooked (view ''iptables'' w) h \<le> 1 \<longrightarrow> fw_hooked (view ''iptables'' w1) h = 0"
    using release_bin [OF laws t(1) release_success [OF run]] by metis
  obtain ns2 w2 where b: "release_bins io [] ns2 w2 = ([], w')" "releasing view installed ''ip6tables'' (ns1, w1) (ns2, w2)"
    "ns2 = [] \<Longrightarrow> installed ''ip6tables'' w1 \<Longrightarrow> \<forall>h \<in> set hooks. fw_hooked (view ''ip6tables'' w1) h \<le> 1 \<longrightarrow> fw_hooked (view ''ip6tables'' w2) h = 0"
    using release_bin [OF laws t(2) a(1)] by metis
  have e: "ns2 = []" "w2 = w'" using b(1) by simp_all
  have ns1: "ns1 = []" using b(2) e by (simp add: releasing_def)
  have f1: "only view installed ''iptables'' w w1" using a(2) by (simp add: releasing_def)
  have f2: "only view installed ''ip6tables'' w1 w'" using b(2) e by (simp add: releasing_def)
  have i: "installed b w1 = installed b w" "installed b w' = installed b w" if "b \<in> tools" for b
    using f1 f2 that by (simp_all add: only_def)
  have v: "view ''ip6tables'' w1 = view ''ip6tables'' w" "view ''iptables'' w' = view ''iptables'' w1"
    using f1 f2 t by (simp_all add: only_def)
  show ?thesis
    using a(3) [OF ns1] b(3) [OF e(1)] one e(2) i [OF t(1)] i [OF t(2)] v unfolding released_def single_hooks_def t(3) by auto
qed

subsection \<open>An enabled quarantine isolates it\<close>

text \<open>A run of iptables that can only touch \<open>bin\<close>; kept for the stretches of \<open>quarantineEnable\<close>.\<close>

lemma add_rules_run:
  assumes "tool_laws io view installed" "bin \<in> tools" "add_rules io bin rs w = (res, w')"
  shows "only view installed bin w w' \<and> fw_hooked (view bin w') = fw_hooked (view bin w)
    \<and> (res = None \<longrightarrow> fw_chain (view bin w) = Some rs0 \<longrightarrow> fw_chain (view bin w') = Some (rs0 @ rs))"
  using assms(3)
proof (induction rs arbitrary: rs0 w)
  case Nil
  then show ?case by (simp add: only_refl)
next
  case (Cons r rs)
  obtain out ok w1 where c: "execCommand io bin (''-A'' # quarantineChain # r) w = ((out, ok), w1)" by (metis surj_pair)
  note run = tool_run [OF assms(1,2) c] and frame = only_run [OF assms(1,2) c]
  have hooked: "fw_hooked (view bin w1) = fw_hooked (view bin w)"
    using run(3,4) by (cases ok) (auto simp: quarantine dest: sym)
  show ?case
  proof (cases ok)
    case False
    then show ?thesis using Cons.prems c frame hooked by auto
  next
    case True
    then have "fw_chain (view bin w) = Some rs0 \<Longrightarrow> fw_chain (view bin w1) = Some (rs0 @ [r])"
      using run(3) by (auto simp: quarantine dest: sym)
    moreover have "add_rules io bin rs w1 = (res, w')" using Cons.prems c True by simp
    ultimately show ?thesis using Cons.IH [of w1 "rs0 @ [r]"] hooked only_trans [OF frame] by auto
  qed
qed

text \<open>The hooks only grow, never beyond one when there was at most one.\<close>

definition hooking :: "(string \<Rightarrow> 'w \<Rightarrow> firewall) \<Rightarrow> (string \<Rightarrow> 'w \<Rightarrow> bool) \<Rightarrow> string
    \<Rightarrow> string list \<times> 'w \<Rightarrow> string list \<times> 'w \<Rightarrow> bool" where
  "hooking view installed bin r r' \<longleftrightarrow>
     only view installed bin (snd r) (snd r') \<and> fw_chain (view bin (snd r')) = fw_chain (view bin (snd r))
     \<and> (\<forall>h. fw_hooked (view bin (snd r)) h \<le> fw_hooked (view bin (snd r')) h
            \<and> (fw_hooked (view bin (snd r)) h \<le> 1 \<longrightarrow> installed bin (snd r) \<longrightarrow> fw_hooked (view bin (snd r')) h \<le> 1))
     \<and> (fst r' = [] \<longrightarrow> fst r = [])"

lemma hooking_trans:
  assumes "bin \<in> tools" "hooking view installed bin r r1" "hooking view installed bin r1 r2"
  shows "hooking view installed bin r r2"
proof -
  have "installed bin (snd r1) = installed bin (snd r)" using assms(1,2) by (simp add: hooking_def only_def)
  moreover have "only view installed bin (snd r) (snd r2)" using assms(2,3) unfolding hooking_def by (blast intro: only_trans)
  ultimately show ?thesis using assms(2,3) unfolding hooking_def by (auto intro: order.trans)
qed

lemma add_hook:
  assumes "tool_laws io view installed" "bin \<in> tools" "add_hooks io bin (h # hs) ns w = r"
  obtains ns1 w1 where "add_hooks io bin hs ns1 w1 = r" "hooking view installed bin (ns, w) (ns1, w1)"
    "ns1 = [] \<Longrightarrow> fw_hooked (view bin w1) h > 0"
proof -
  obtain out ok w1 where c: "execCommand io bin [''-C'', h, ''-j'', quarantineChain] w = ((out, ok), w1)" by (metis surj_pair)
  note run = tool_run [OF assms(1,2) c] and frame = only_run [OF assms(1,2) c]
  have v1: "view bin w1 = view bin w" using run(3,4) by (cases ok) (simp_all add: quarantine split: if_splits)
  have ok: "installed bin w \<Longrightarrow> ok = (fw_hooked (view bin w) h > 0)" using run(6) by (simp add: quarantine)
  show thesis
  proof (cases ok)
    case True
    then have "fw_hooked (view bin w) h > 0" using run(3) by (simp add: quarantine split: if_splits)
    then show ?thesis
      by (intro that [of ns w1]) (use assms(3) c True v1 frame in \<open>simp_all add: hooking_def\<close>)
  next
    case False
    obtain out2 ok2 w2 where d: "execCommand io bin [''-I'', h, ''1'', ''-j'', quarantineChain] w1 = ((out2, ok2), w2)" by (metis surj_pair)
    note run2 = tool_run [OF assms(1,2) d] and frame2 = only_trans [OF frame only_run [OF assms(1,2) d]]
    show ?thesis
    proof (cases ok2)
      case ok2: False
      show ?thesis
        by (rule that [of "ns @ [bin @ '' '' @ h @ '' hook: '' @ out2]" w2])
          (use assms(3) c d False ok2 v1 run2(4) frame2 in \<open>simp_all add: hooking_def\<close>)
    next
      case ok2: True
      have "view bin w2 = (view bin w)\<lparr>fw_hooked := (fw_hooked (view bin w))(h := fw_hooked (view bin w) h + 1)\<rparr>"
        using run2(3) ok2 v1 by (simp add: quarantine)
      then show ?thesis
        by (intro that [of ns w2]) (use assms(3) c d False ok2 ok frame2 in \<open>auto simp: hooking_def\<close>)
    qed
  qed
qed

lemma add_hooks_run:
  assumes "tool_laws io view installed" "bin \<in> tools" "add_hooks io bin hs ns w = (ns', w')"
  shows "hooking view installed bin (ns, w) (ns', w') \<and> (ns' = [] \<longrightarrow> (\<forall>h \<in> set hs. fw_hooked (view bin w') h > 0))"
  using assms(3)
proof (induction hs arbitrary: ns w)
  case Nil
  then show ?case by (simp add: hooking_def only_refl)
next
  case (Cons h hs)
  obtain ns1 w1 where s: "add_hooks io bin hs ns1 w1 = (ns', w')" "hooking view installed bin (ns, w) (ns1, w1)"
    "ns1 = [] \<Longrightarrow> fw_hooked (view bin w1) h > 0"
    using add_hook [OF assms(1,2) Cons.prems] by metis
  note ih = Cons.IH [OF s(1)]
  have "fw_hooked (view bin w') h > 0" if "ns' = []"
  proof -
    have "fw_hooked (view bin w1) h > 0" using s(3) ih that by (simp add: hooking_def)
    then show ?thesis using ih unfolding hooking_def by (metis order_less_le_trans snd_conv)
  qed
  then show ?case using ih hooking_trans [OF assms(2) s(2)] by simp
qed
lemma chain_exists:
  assumes "tool_laws io view installed" "bin \<in> tools" "execCommand io bin [''-F'', quarantineChain] w = ((out, True), w')"
  shows "fw_chain (view bin w') = Some [] \<and> fw_hooked (view bin w') = fw_hooked (view bin w)"
  using tool_run(3) [OF assms] by (auto simp: quarantine dest: sym split: if_splits)

lemma applyQuarantineChain_run:
  assumes laws: "tool_laws io view installed" and bin: "bin \<in> tools" and run: "applyQuarantineChain io bin apiIPs v6 w = ((status, detail), w')"
  shows "only view installed bin w w'
    \<and> (\<forall>h. fw_hooked (view bin w) h \<le> 1 \<longrightarrow> installed bin w \<longrightarrow> fw_hooked (view bin w') h \<le> 1)
    \<and> (status = ''success'' \<longrightarrow> fw_chain (view bin w') = Some (quarantine_rules apiIPs v6) \<and> (\<forall>h \<in> set hooks. fw_hooked (view bin w') h > 0))"
proof -
  obtain r1 w1 where n: "execCommand io bin [''-N'', quarantineChain] w = (r1, w1)" by (meson surj_pair)
  then obtain out1 ok1 where n': "execCommand io bin [''-N'', quarantineChain] w = ((out1, ok1), w1)" by (metis surj_pair)
  obtain out ok w2 where f: "execCommand io bin [''-F'', quarantineChain] w1 = ((out, ok), w2)" by (metis surj_pair)
  obtain res w3 where a: "add_rules io bin (quarantine_rules apiIPs v6) w2 = (res, w3)" by (meson surj_pair)
  obtain fs w4 where k: "add_hooks io bin hooks [] w3 = (fs, w4)" by (meson surj_pair)
  have h1: "fw_hooked (view bin w1) = fw_hooked (view bin w)"
    using tool_run(3,4) [OF laws bin n'] by (cases ok1) (auto simp: quarantine dest: sym split: if_splits)
  have h2: "fw_hooked (view bin w2) = fw_hooked (view bin w1)"
    using tool_run(3,4) [OF laws bin f] by (cases ok) (auto simp: quarantine dest: sym split: if_splits)
  have o12: "only view installed bin w w2"
    using only_run [OF laws bin n'] only_run [OF laws bin f] by (rule only_trans)
  note rules = add_rules_run [OF laws bin a, of "[]"] and hk = add_hooks_run [OF laws bin k]
  have o3: "only view installed bin w w3" using o12 rules by (blast intro: only_trans)
  have o4: "only view installed bin w w4" using o3 hk by (auto simp: hooking_def intro: only_trans)
  show ?thesis
  proof (cases ok)
    case False
    then have "w' = w2" "status \<noteq> ''success''" using run n f by (auto simp: applyQuarantineChain_def)
    then show ?thesis using o12 h1 h2 by simp
  next
    case ok: True
    show ?thesis
    proof (cases res)
      case (Some e)
      then have "w' = w3" "status \<noteq> ''success''" using run n f a ok by (auto simp: applyQuarantineChain_def)
      then show ?thesis using o3 h1 h2 rules by simp
    next
      case None
      then have w4: "w' = w4" "status = ''success'' \<Longrightarrow> fs = []"
        using run n f a k ok by (auto simp: applyQuarantineChain_def split: if_splits)
      have "fw_chain (view bin w2) = Some []" using chain_exists [OF laws bin, of w1 out w2] f ok by simp
      then have "fw_chain (view bin w4) = Some (quarantine_rules apiIPs v6)" using rules None hk by (simp add: hooking_def)
      moreover have "installed bin w3 = installed bin w" using o3 bin by (simp add: only_def)
      ultimately show ?thesis using o4 hk w4 h1 h2 rules by (simp add: hooking_def)
    qed
  qed
qed

text \<open>What a tool holds of an isolated host.\<close>

definition isolated_by :: "firewall \<Rightarrow> string list \<Rightarrow> bool \<Rightarrow> bool" where
  "isolated_by s apiIPs v6 \<longleftrightarrow> fw_chain s = Some (quarantine_rules apiIPs v6) \<and> (\<forall>h \<in> set hooks. fw_hooked s h > 0)"

text \<open>The two stages of a success.\<close>

lemma enable_success:
  assumes run: "quarantineEnable io hostname apiURL w = ((''success'', detail), w')"
  obtains out w1 ips d4 w2 out6 ok6 w3 where
    "execCommand io ''iptables'' [''--version''] w = ((out, True), w1)" "ips = resolveHostIPs io (apiHost hostname apiURL) w1"
    "applyQuarantineChain io ''iptables'' (fst (splitIPFamilies ips)) False w1 = ((''success'', d4), w2)"
    "execCommand io ''ip6tables'' [''--version''] w2 = ((out6, ok6), w3)"
    "\<not> ok6 \<Longrightarrow> w' = w3"
    "ok6 \<Longrightarrow> \<exists>d6. applyQuarantineChain io ''ip6tables'' (snd (splitIPFamilies ips)) True w3 = ((''success'', d6), w')"
proof -
  obtain out ok w1 where v: "execCommand io ''iptables'' [''--version''] w = ((out, ok), w1)" by (metis surj_pair)
  define ips where "ips = resolveHostIPs io (apiHost hostname apiURL) w1"
  obtain s4 d4 w2 where a: "applyQuarantineChain io ''iptables'' (fst (splitIPFamilies ips)) False w1 = ((s4, d4), w2)" by (metis surj_pair)
  obtain out6 ok6 w3 where v6: "execCommand io ''ip6tables'' [''--version''] w2 = ((out6, ok6), w3)" by (metis surj_pair)
  obtain s6 d6 w4 where b: "applyQuarantineChain io ''ip6tables'' (snd (splitIPFamilies ips)) True w3 = ((s6, d6), w4)" by (metis surj_pair)
  have ok: "ok" using run v by (cases ok) (simp_all add: quarantineEnable_def)
  have s4: "s4 = ''success''" using run v ok a by (cases "s4 = ''success''") (simp_all add: quarantineEnable_def ips_def Let_def split_beta)
  have "\<not> ok6 \<Longrightarrow> w' = w3" using run v ok a v6 s4 by (simp add: quarantineEnable_def ips_def Let_def split_beta)
  moreover have "s6 = ''success'' \<and> w4 = w'" if "ok6"
    using run v ok a v6 s4 b that by (cases "s6 = ''success''") (simp_all add: quarantineEnable_def ips_def Let_def split_beta)
  ultimately show thesis using b by (intro that [OF _ ips_def _ v6]) (use v ok a s4 in auto)
qed

lemma version_run:
  assumes "tool_laws io view installed" "bin \<in> tools" "execCommand io bin [''--version''] w = ((out, ok), w')"
  shows "view bin w' = view bin w"
  using tool_run(3,4) [OF assms] by (cases ok) (simp_all add: quarantine)

lemma enabled_state:
  assumes laws: "tool_laws io view installed" and run: "quarantineEnable io hostname apiURL w = ((''success'', detail), w')"
  shows "(\<exists>ips. isolated_by (view ''iptables'' w') (fst (splitIPFamilies ips)) False
           \<and> (installed ''ip6tables'' w \<longrightarrow> isolated_by (view ''ip6tables'' w') (snd (splitIPFamilies ips)) True))
    \<and> (\<forall>b \<in> tools. installed b w' = installed b w) \<and> (single_hooks view w \<longrightarrow> single_hooks view w')"
proof -
  have t: "''iptables'' \<in> tools" "''ip6tables'' \<in> tools" "tools = {''iptables'', ''ip6tables''}" by (simp_all add: tools_def)
  obtain out w1 ips d4 w2 out6 ok6 w3 where s:
    "execCommand io ''iptables'' [''--version''] w = ((out, True), w1)" "ips = resolveHostIPs io (apiHost hostname apiURL) w1"
    "applyQuarantineChain io ''iptables'' (fst (splitIPFamilies ips)) False w1 = ((''success'', d4), w2)"
    "execCommand io ''ip6tables'' [''--version''] w2 = ((out6, ok6), w3)"
    "\<not> ok6 \<Longrightarrow> w' = w3"
    "ok6 \<Longrightarrow> \<exists>d6. applyQuarantineChain io ''ip6tables'' (snd (splitIPFamilies ips)) True w3 = ((''success'', d6), w')"
    using enable_success [OF run] by metis
  note v = tool_run [OF laws t(1) s(1)] and v6 = tool_run [OF laws t(2) s(4)]
  note o1 = only_run [OF laws t(1) s(1)] and o3 = only_run [OF laws t(2) s(4)]
  note a = applyQuarantineChain_run [OF laws t(1) s(3)]
  have i: "installed ''iptables'' w" using v(5) by simp
  have w1: "view ''iptables'' w1 = view ''iptables'' w" "view ''ip6tables'' w1 = view ''ip6tables'' w"
    using version_run [OF laws t(1) s(1)] only_view [OF o1 t(2)] by simp_all
  have w2: "view ''ip6tables'' w2 = view ''ip6tables'' w1" using only_view [of view installed "''iptables''" w1 w2 "''ip6tables''"] a t by simp
  have w3: "view ''iptables'' w3 = view ''iptables'' w2" "view ''ip6tables'' w3 = view ''ip6tables'' w2"
    using only_view [OF o3 t(1)] version_run [OF laws t(2) s(4)] by simp_all
  have inst: "installed b w1 = installed b w" "installed b w2 = installed b w1" "installed b w3 = installed b w2" if "b \<in> tools" for b
    using o1 o3 a that by (simp_all add: only_def)
  have ok6: "ok6 = installed ''ip6tables'' w" using v6(5) inst t by simp
  have iso4: "isolated_by (view ''iptables'' w3) (fst (splitIPFamilies ips)) False" using a w3 by (simp add: isolated_by_def)
  have one4: "fw_hooked (view ''iptables'' w3) h \<le> 1" if "fw_hooked (view ''iptables'' w) h \<le> 1" for h
    using a w1 w3 that i inst t by simp
  show ?thesis
  proof (cases ok6)
    case False
    then have "w' = w3" by (rule s(5))
    then have "isolated_by (view ''iptables'' w') (fst (splitIPFamilies ips)) False" "\<not> installed ''ip6tables'' w"
      "\<forall>b \<in> tools. installed b w' = installed b w"
      using iso4 False ok6 inst by simp_all
    moreover have "single_hooks view w'" if "single_hooks view w"
      using that one4 w1 w2 w3 \<open>w' = w3\<close> unfolding single_hooks_def t(3) by simp
    ultimately show ?thesis by blast
  next
    case True
    obtain d6 where d6: "applyQuarantineChain io ''ip6tables'' (snd (splitIPFamilies ips)) True w3 = ((''success'', d6), w')"
      using s(6) [OF True] by blast
    note b = applyQuarantineChain_run [OF laws t(2) d6]
    have same: "view ''iptables'' w' = view ''iptables'' w3" using only_view [of view installed "''ip6tables''" w3 w' "''iptables''"] b t by simp
    have iso6: "isolated_by (view ''ip6tables'' w') (snd (splitIPFamilies ips)) True" using b by (simp add: isolated_by_def)
    have one6: "fw_hooked (view ''ip6tables'' w') h \<le> 1" if "fw_hooked (view ''ip6tables'' w) h \<le> 1" for h
      using b w1 w2 w3 that True ok6 inst t by simp
    have "\<forall>b \<in> tools. installed b w' = installed b w" using b inst by (simp add: only_def)
    moreover have "single_hooks view w'" if "single_hooks view w"
      using that one4 one6 same unfolding single_hooks_def t(3) by simp
    moreover have "isolated_by (view ''iptables'' w') (fst (splitIPFamilies ips)) False" using iso4 same by simp
    ultimately show ?thesis using iso6 by blast
  qed
qed
subsection \<open>Every command keeps the hooks single\<close>

definition calm :: "(string \<Rightarrow> 'w \<Rightarrow> firewall) \<Rightarrow> (string \<Rightarrow> 'w \<Rightarrow> bool) \<Rightarrow> 'w \<Rightarrow> 'w \<Rightarrow> bool" where
  "calm view installed w w' \<longleftrightarrow>
     (\<forall>b \<in> tools. installed b w' = installed b w
        \<and> (\<forall>h. fw_hooked (view b w) h \<le> 1 \<longrightarrow> fw_hooked (view b w') h \<le> 1))"

lemma calm_refl: "calm view installed w w"
  by (simp add: calm_def)

lemma calm_trans: "calm view installed w w1 \<Longrightarrow> calm view installed w1 w2 \<Longrightarrow> calm view installed w w2"
  by (simp add: calm_def)

lemma calm_single: "calm view installed w w' \<Longrightarrow> single_hooks view w \<Longrightarrow> single_hooks view w'"
  by (simp add: calm_def single_hooks_def)

lemma only_calm:
  assumes "only view installed bin w w'" "bin \<in> tools"
    "\<And>h. fw_hooked (view bin w) h \<le> 1 \<Longrightarrow> fw_hooked (view bin w') h \<le> 1"
  shows "calm view installed w w'"
  unfolding calm_def
proof
  fix b assume b: "b \<in> tools"
  show "installed b w' = installed b w \<and> (\<forall>h. fw_hooked (view b w) h \<le> 1 \<longrightarrow> fw_hooked (view b w') h \<le> 1)"
    using assms b by (cases "b = bin") (simp_all add: only_def)
qed

lemma releasing_calm: "releasing view installed bin r r' \<Longrightarrow> bin \<in> tools \<Longrightarrow> calm view installed (snd r) (snd r')"
  by (rule only_calm [of view installed bin]) (auto simp: releasing_def intro: order.trans)

lemma version_calm:
  assumes "tool_laws io view installed" "bin \<in> tools" "execCommand io bin [''--version''] w = ((out, ok), w')"
  shows "calm view installed w w'"
  using only_calm [OF only_run [OF assms] assms(2)] version_run [OF assms] by simp

lemma apply_calm:
  assumes "tool_laws io view installed" "bin \<in> tools" "installed bin w" "applyQuarantineChain io bin apiIPs v6 w = ((status, detail), w')"
  shows "calm view installed w w'"
  using only_calm [of view installed bin w w'] applyQuarantineChain_run [OF assms(1,2,4)] assms(2,3) by simp

lemma release_bins_calm:
  assumes "tool_laws io view installed" "set bins \<subseteq> tools" "release_bins io bins ns w = (ns', w')"
  shows "calm view installed w w'"
  using assms(2,3)
proof (induction bins arbitrary: ns w)
  case Nil
  then show ?case by (simp add: calm_refl)
next
  case (Cons bin bins)
  have t: "bin \<in> tools" using Cons.prems(1) by simp
  obtain ns1 w1 where s: "release_bins io bins ns1 w1 = (ns', w')" "releasing view installed bin (ns, w) (ns1, w1)"
    using release_bin [OF assms(1) t Cons.prems(2)] by metis
  show ?case using Cons.IH [OF _ s(1)] Cons.prems(1) releasing_calm [OF s(2) t] calm_trans by (metis set_subset_Cons snd_conv subset_trans)
qed

lemma release_calm: "tool_laws io view installed \<Longrightarrow> calm view installed w (snd (quarantineRelease io w))"
  by (cases "release_bins io [''iptables'', ''ip6tables''] [] w")
    (use release_bins_calm [of io view installed "[''iptables'', ''ip6tables'']" "[]" w] in
      \<open>auto simp: quarantineRelease_def tools_def simp del: release_bins.simps\<close>)

lemma enable_calm:
  assumes laws: "tool_laws io view installed"
  shows "calm view installed w (snd (quarantineEnable io hostname apiURL w))"
proof -
  have t: "''iptables'' \<in> tools" "''ip6tables'' \<in> tools" by (simp_all add: tools_def)
  obtain out ok w1 where v: "execCommand io ''iptables'' [''--version''] w = ((out, ok), w1)" by (metis surj_pair)
  define ips where "ips = resolveHostIPs io (apiHost hostname apiURL) w1"
  obtain s4 d4 w2 where a: "applyQuarantineChain io ''iptables'' (fst (splitIPFamilies ips)) False w1 = ((s4, d4), w2)" by (metis surj_pair)
  obtain out6 ok6 w3 where v6: "execCommand io ''ip6tables'' [''--version''] w2 = ((out6, ok6), w3)" by (metis surj_pair)
  obtain s6 d6 w4 where b: "applyQuarantineChain io ''ip6tables'' (snd (splitIPFamilies ips)) True w3 = ((s6, d6), w4)" by (metis surj_pair)
  have c1: "calm view installed w w1" by (rule version_calm [OF laws t(1) v])
  have i: "installed ''iptables'' w1" if ok using tool_run(5) [OF laws t(1) v] that c1 t by (simp add: calm_def)
  have c2: "calm view installed w w2" if ok using calm_trans [OF c1 apply_calm [OF laws t(1) i [OF that] a]] .
  have c3: "calm view installed w w3" if ok using calm_trans [OF c2 [OF that] version_calm [OF laws t(2) v6]] .
  have i6: "installed ''ip6tables'' w3" if ok6
    using tool_run(5) [OF laws t(2) v6] that version_calm [OF laws t(2) v6] t by (simp add: calm_def)
  have c4: "calm view installed w w4" if ok ok6 using calm_trans [OF c3 [OF that(1)] apply_calm [OF laws t(2) i6 [OF that(2)] b]] .
  have c5: "calm view installed w (snd (quarantineRelease io w4))" if ok ok6 using calm_trans [OF c4 [OF that] release_calm [OF laws]] .
  consider "\<not> ok" | "ok" "s4 \<noteq> ''success''" | "ok" "s4 = ''success''" "\<not> ok6"
    | "ok" "s4 = ''success''" "ok6" "s6 \<noteq> ''success''" | "ok" "s4 = ''success''" "ok6" "s6 = ''success''" by blast
  then have "snd (quarantineEnable io hostname apiURL w) \<in>
    (if ok then {w2, w3} \<union> (if ok6 then {w4, snd (quarantineRelease io w4)} else {}) else {w1})"
    by cases (simp_all add: quarantineEnable_def v a [unfolded ips_def] v6 b [unfolded ips_def] Let_def split_beta)
  then show ?thesis using c1 c2 c3 c4 c5 by (auto split: if_splits)
qed

text \<open>A day of an agent: commands, deadlines that pass, restarts.\<close>

datatype happening = Command "string \<times> obj" gotime bool | Deadline | Restarted

definition happens :: "'w host_io \<Rightarrow> (string \<Rightarrow> string) \<Rightarrow> ('w \<Rightarrow> (string \<times> string) \<times> 'w) \<Rightarrow> string \<Rightarrow> happening
    \<Rightarrow> quarantine_state \<times> 'w \<Rightarrow> quarantine_state \<times> 'w" where
  "happens io hostname lock apiURL e st =
     (case e of Command c now ok \<Rightarrow> snd (Execute io hostname lock apiURL ok c now st)
      | Deadline \<Rightarrow> autoReleaseQuarantine io st
      | Restarted \<Rightarrow> (restarted (fst st), snd st))"

lemma happens_calm:
  assumes laws: "tool_laws io view installed" and lock: "\<And>w. calm view installed w (snd (lock w))"
  shows "calm view installed (snd st) (snd (happens io hostname lock apiURL e st))"
proof (cases e)
  case (Command c now ok)
  have "snd (snd (Execute io hostname lock apiURL ok c now st))
      \<in> {snd st, snd (lock (snd st)), snd (quarantineEnable io hostname apiURL (snd st)), snd (quarantineRelease io (snd st))}"
    by (cases c; cases st) (simp add: Execute_def split_beta)
  then show ?thesis using Command lock enable_calm [OF laws] release_calm [OF laws] by (auto simp: happens_def calm_refl)
next
  case Deadline
  then show ?thesis using release_calm [OF laws, of "snd st"]
    by (cases st) (simp add: happens_def autoReleaseQuarantine_def split_beta)
next
  case Restarted
  then show ?thesis by (simp add: happens_def calm_refl)
qed

lemma history_calm:
  assumes "tool_laws io view installed" "\<And>w. calm view installed w (snd (lock w))"
  shows "calm view installed (snd st) (snd (fold (happens io hostname lock apiURL) es st))"
proof (induction es arbitrary: st)
  case (Cons e es)
  then show ?case using happens_calm [OF assms] by (simp, blast intro: calm_trans)
qed (simp add: calm_refl)
subsection \<open>The deadline is kept across a restart\<close>

lemma whole_part:
  assumes "0 < (n :: int)" "0 < k"
  shows "(L div n * n) div (n * k) = L div (n * k)" "(L div n * n) mod (n * k) div n = L mod (n * k) div n"
    "(L div n * n) mod (n * k) mod n = 0"
proof -
  have m: "L mod (n * k) = n * (L div n mod k) + L mod n" for L using assms by (simp add: zmod_zmult2_eq)
  show "(L div n * n) div (n * k) = L div (n * k)" using assms by (simp add: zdiv_zmult2_eq)
  show "(L div n * n) mod (n * k) div n = L mod (n * k) div n" "(L div n * n) mod (n * k) mod n = 0"
    using assms by (simp_all add: m)
qed

lemma truncation: "x div ns_per_s * ns_per_s \<le> x" "x < x div ns_per_s * ns_per_s + ns_per_s"
  by (simp_all add: ns_per_s_def; linarith)+

lemma local_ns_truncated: "local_ns (t\<lparr>inst := inst t div ns_per_s * ns_per_s\<rparr>) = local_ns t div ns_per_s * ns_per_s"
  by (simp add: local_ns_def ns_per_s_def div_mult1_eq algebra_simps)

lemma day_of_seconds: "day_ns = ns_per_s * 86400" "0 < ns_per_s"
  by (simp_all add: ns_units)

lemma rfc3339_sec_truncates: "rfc3339_sec_str t = rfc3339_str (t\<lparr>inst := inst t div ns_per_s * ns_per_s\<rparr>)"
  using whole_part [OF day_of_seconds(2), of 86400 "local_ns t"]
  by (simp add: rfc3339_sec_str_def rfc3339_str_def date_str_def frac_str_def Let_def local_ns_truncated day_of_seconds(1))

lemma printable_truncated: "printable t \<Longrightarrow> printable (t\<lparr>inst := inst t div ns_per_s * ns_per_s\<rparr>)"
  using whole_part(1) [OF day_of_seconds(2), of 86400 "local_ns t"]
  by (simp add: printable_def local_ns_truncated day_of_seconds(1))

text \<open>The text has nothing to trim.\<close>

lemma trimmed_digit_Z: "is_digit c \<Longrightarrow> trim_space (c # s @ ''Z'') = c # s @ ''Z''"
  by (auto simp: trim_space_def is_space_def is_digit_def)

lemma trim_rfc3339_sec:
  assumes "printable t" "off t = 0"
  shows "trim_space (rfc3339_sec_str t) = rfc3339_sec_str t"
proof -
  obtain y m d where c: "civil_of (local_ns t div day_ns) = (y, m, d)" by (metis prod_cases3)
  have "0 \<le> y" "y \<le> 9999" using assms by (auto simp: printable_def c)
  then have "date_str t = digit_char (nat y div 1000) # tl (date_str t)"
    by (simp add: date_str_def ymd_str_def c year_str_def dfix_4)
  moreover have "rfc3339_sec_str t = date_str t @ hms_str (local_ns t mod day_ns div ns_per_s) @ ''Z''"
    using assms(2) by (simp add: rfc3339_sec_str_def zone_str_def)
  moreover have "is_digit (digit_char (nat y div 1000))" by simp
  ultimately show ?thesis using trimmed_digit_Z by (metis append_Cons append_assoc)
qed

lemma quarantineDuration_bounds: "minute_ns \<le> quarantineDuration params \<and> quarantineDuration params \<le> 30 * 24 * 60 * minute_ns"
proof (cases "get params ''duration_minutes''")
  case (F64 m)
  show ?thesis
  proof (cases "m < 1")
    case False
    define x where "x = (if m > 30 * 24 * 60 then 30 * 24 * 60 else m)"
    have x: "1 \<le> x" "x \<le> 43200" using False by (simp_all add: x_def)
    have i: "i2f minute_ns = 60000000000" by (simp add: i2f_exact ns_units)
    have "fl 60000000000 \<le> fl (x * 60000000000)" "fl (x * 60000000000) \<le> fl 2592000000000000"
      using x by (simp_all add: fl_mono)
    moreover have "fl 60000000000 = 60000000000" "fl 2592000000000000 = 2592000000000000"
      using fl_int_exact [of 60000000000] fl_int_exact [of 2592000000000000] by simp_all
    ultimately have f: "60000000000 \<le> fmul x (i2f minute_ns)" "fmul x (i2f minute_ns) \<le> 2592000000000000"
      by (simp_all add: fmul_def i)
    then have "60000000000 \<le> trunc_rat (fmul x (i2f minute_ns))" "trunc_rat (fmul x (i2f minute_ns)) \<le> 2592000000000000"
      by (simp_all add: trunc_rat_def le_floor_iff floor_le_iff)
    then show ?thesis using F64 False by (simp add: quarantineDuration_def f2i_def ns_units x_def in_i64_def i64_min_def i64_max_def)
  qed (simp add: quarantineDuration_def F64 ns_units)
qed (simp_all add: quarantineDuration_def ns_units)

text \<open>The example host: both tools are installed and do what the laws say.\<close>

definition example_host :: "(string \<Rightarrow> firewall) host_io" where
  "example_host = \<lparr>execCommand = \<lambda>bin args w. case iptables_effect args (w bin) of
       Some s \<Rightarrow> (([], True), w(bin := s)) | None \<Rightarrow> ((''no such rule or chain'', False), w),
     lookupIP = \<lambda>_ _. Some [''10.0.0.7'', ''fd00::7'']\<rparr>"

lemma example_laws: "tool_laws example_host (\<lambda>b w. w b) (\<lambda>_ _. True)"
  unfolding tool_laws_def
proof (intro allI impI)
  fix bin args w out ok w' assume r: "execCommand example_host bin args w = ((out, ok), w')"
  show "(\<forall>b \<in> tools. True = True \<and> (b \<noteq> bin \<longrightarrow> w' b = w b)) \<and> (if ok then iptables_effect args (w bin) = Some (w' bin) else w' bin = w bin)
    \<and> (args = [''--version''] \<longrightarrow> ok = True) \<and> (True \<and> args \<noteq> [] \<and> hd args \<in> {''-C'', ''-L''} \<longrightarrow> ok = (iptables_effect args (w bin) \<noteq> None))"
  proof (cases "iptables_effect args (w bin)")
    case None
    then have "args \<noteq> [''--version'']" by (auto simp: effect_simps(1))
    then show ?thesis using r None by (simp add: example_host_def)
  next
    case (Some s)
    then show ?thesis using r by (auto simp: example_host_def)
  qed
qed


definition open_host :: "string \<Rightarrow> firewall" where
  "open_host = (\<lambda>_. \<lparr>fw_chain = None, fw_hooked = \<lambda>_. 0\<rparr>)"

definition no_deadline :: quarantine_state where
  "no_deadline = \<lparr>qs_timer = None, qs_file = None, qs_dir = True\<rparr>"

definition example_Execute :: "string \<Rightarrow> quarantine_state \<times> (string \<Rightarrow> firewall)
    \<Rightarrow> (string \<times> string \<times> followup) \<times> quarantine_state \<times> (string \<Rightarrow> firewall)" where
  "example_Execute ty = Execute example_host (\<lambda>h. h) (\<lambda>w. ((''success'', []), w)) ''https://api.example'' True (ty, []) \<lparr>inst = 0, off = 0\<rparr>"

lemma example_run: "execCommand example_host bin args w
    = (case iptables_effect args (w bin) of Some s \<Rightarrow> (([], True), w(bin := s)) | None \<Rightarrow> ((''no such rule or chain'', False), w))"
  by (simp add: example_host_def)

lemma example_rules: "fw_chain (w bin) = Some rs0 \<Longrightarrow>
    add_rules example_host bin rs w = (None, w(bin := (w bin)\<lparr>fw_chain := Some (rs0 @ rs)\<rparr>))"
proof (induction rs arbitrary: w rs0)
  case Nil
  then have "(w bin)\<lparr>fw_chain := Some rs0\<rparr> = w bin" by (metis firewall.surjective firewall.update_convs(1))
  then show ?case by simp
qed (simp add: example_run quarantine)

lemma example_apply: "w bin = \<lparr>fw_chain = None, fw_hooked = \<lambda>_. 0\<rparr> \<Longrightarrow>
    applyQuarantineChain example_host bin ips v6 w
      = ((''success'', []), w(bin := \<lparr>fw_chain = Some (quarantine_rules ips v6), fw_hooked = (\<lambda>_. 0)(''INPUT'' := 1, ''OUTPUT'' := 1)\<rparr>))"
  by (simp add: applyQuarantineChain_def example_run quarantine example_rules hooks_def)

lemma example_enabled: "quarantineEnable example_host (\<lambda>h. h) ''https://api.example'' open_host
    = ((''success'', enabled_detail [''10.0.0.7'', ''fd00::7'']), \<lambda>bin. if bin \<in> tools
        then \<lparr>fw_chain = Some (quarantine_rules (if bin = ''iptables'' then [''10.0.0.7''] else [''fd00::7'']) (bin = ''ip6tables'')),
              fw_hooked = (\<lambda>_. 0)(''INPUT'' := 1, ''OUTPUT'' := 1)\<rparr> else open_host bin)"
proof -
  have h: "apiHost (\<lambda>h. h) ''https://api.example'' = ''api.example''" by code_simp
  have ips: "splitIPFamilies [''10.0.0.7'', ''fd00::7''] = ([''10.0.0.7''], [''fd00::7''])" by code_simp
  have r: "resolveHostIPs example_host ''api.example'' w = [''10.0.0.7'', ''fd00::7'']" for w
    by (simp add: resolveHostIPs_def example_host_def)
  show ?thesis
    by (simp add: quarantineEnable_def h r ips example_run quarantine example_apply open_host_def tools_def fun_eq_iff)
qed

lemma example_released: "fst (fst (quarantineRelease example_host (\<lambda>bin. if bin \<in> tools
        then \<lparr>fw_chain = Some (rs bin), fw_hooked = (\<lambda>_. 0)(''INPUT'' := 1, ''OUTPUT'' := 1)\<rparr> else open_host bin))) = ''success''"
  by (simp add: quarantineRelease_def example_run quarantine hooks_def drop_chain_def tools_def)

subsection \<open>What the commands promise\<close>





text \<open>A quarantine releases itself between one minute and thirty days after it was enabled, whatever duration
  the server sent, and a restart of the agent keeps that deadline: the timer it arms from the state file goes off
  less than a second before it, never after it.\<close>

theorem quarantine_deadline:
  assumes "qs_dir s" "printable (utc (add now (quarantineDuration params)))"
  defines "armed \<equiv> armQuarantineDeadline True (quarantineDuration params) now s"
  shows "\<exists>t t'. qs_timer armed = Some t \<and> qs_timer (restarted armed) = Some t'
    \<and> inst now + minute_ns \<le> inst t \<and> inst t \<le> inst now + 30 * 24 * 60 * minute_ns
    \<and> inst t' \<le> inst t \<and> inst t < inst t' + ns_per_s"
proof -
  let ?t = "add now (quarantineDuration params)"
  let ?t' = "(utc ?t)\<lparr>inst := inst (utc ?t) div ns_per_s * ns_per_s\<rparr>"
  have f: "qs_file armed = Some (rfc3339_sec_str (utc ?t))" "qs_timer armed = Some ?t" "qs_dir armed"
    using assms(1) by (simp_all add: armed_def armQuarantineDeadline_def)
  have "parse_rfc3339 (trim_space (rfc3339_sec_str (utc ?t))) = Some ?t'"
    using trim_rfc3339_sec [OF assms(2)] parse_rfc3339_str [OF printable_truncated [OF assms(2)]]
    by (simp add: rfc3339_sec_truncates)
  then have "qs_timer (restarted armed) = Some ?t'"
    using f by (simp add: restarted_def ResumeQuarantineDeadline_def)
  moreover have "inst ?t' \<le> inst ?t" "inst ?t < inst ?t' + ns_per_s"
    using truncation by simp_all
  ultimately show ?thesis using quarantineDuration_bounds [of params] f(2) by simp
qed


theorem quarantine_deadline_witness:
  "\<exists>t. qs_timer (restarted (armQuarantineDeadline True (quarantineDuration [(''duration_minutes'', F64 30)])
       \<lparr>inst = 1700000000 * ns_per_s, off = 0\<rparr> no_deadline)) = Some t"
proof -
  have "printable (utc (add \<lparr>inst = 1700000000 * ns_per_s, off = 0\<rparr> (quarantineDuration [(''duration_minutes'', F64 30)])))"
    by code_simp
  then show ?thesis using quarantine_deadline [of no_deadline] by (fastforce simp: no_deadline_def)
qed

end
