(* ===== verification/ObjectStore.thy ===== *)
theory ObjectStore
  imports Values "HOL-Library.Sublist" "HOL-Library.Char_ord" "HOL-Library.List_Lexorder"
begin

text \<open>
  The S3 archives of the API: object keys, the archive of whole payloads, deletion of a device's
  objects and the retention sweep. The S3 client is not part of the program and is a parameter: a record
  of calls on a world \<open>'w\<close>. An object body is the JSON document it holds. \<open>listing_laws\<close> and
  \<open>version_laws\<close> state the documented behaviour of listing and of conditional writes, over a view of
  the bucket; a call may find that other clients wrote before and after it.
\<close>

named_theorems object_store \<open>facts on the object store\<close>

subsection \<open>The client\<close>

text \<open>What \<^verbatim>\<open>json.Marshal\<close> makes of a value and the decoder reads back. Numbers come back as
  floats, times as text. A result struct has its \<^verbatim>\<open>json\<close> tags as keys.\<close>

fun json_val :: "val \<Rightarrow> val" where
  "json_val Nil_v = Nil_v"
| "json_val (Bool_v b) = Bool_v b"
| "json_val (F64 x) = F64 x"
| "json_val (I64 n) = F64 (i2f n)"
| "json_val (I32 n) = F64 (i2f n)"
| "json_val (Int_v n) = F64 (i2f n)"
| "json_val (Str s) = Str s"
| "json_val (Time_v t) = Str (rfc3339_str t)"
| "json_val (Date_v t) = Str (rfc3339_str (utc t))"
| "json_val (Obj m) = Obj (map (\<lambda>(k, v). (k, json_val v)) m)"
| "json_val (BObj m) = Obj (map (\<lambda>(k, v). (k, json_val v)) m)"
| "json_val (Arr xs) = Arr (map json_val xs)"
| "json_val (BArr xs) = Arr (map json_val xs)"
| "json_val (Ptr_v m) = Obj (map (\<lambda>(k, v). (k, json_val v)) m)"

text \<open>The condition of a write, and what a read gives: the document (\<open>None\<close> when the body is no JSON)
  with the entity tag, no object, or an error.\<close>

datatype condition = Always | If_match string | If_none_match
datatype read_result = Found "val option" string | No_such_key | Read_error

record s3_object =
  so_key :: string
  so_modified :: gotime

text \<open>\<open>s3_put\<close> gives the error code of a failed write, which is empty when the failure carries none;
  \<open>s3_page\<close> the next page of a listing and the token of the one after it.\<close>

record 'w s3 =
  s3_get :: "string \<Rightarrow> 'w \<Rightarrow> read_result \<times> 'w"
  s3_put :: "string \<Rightarrow> val \<Rightarrow> condition \<Rightarrow> 'w \<Rightarrow> string option \<times> 'w"
  s3_page :: "string \<Rightarrow> string option \<Rightarrow> 'w \<Rightarrow> (s3_object list \<times> string option) option"
  s3_delete :: "string \<Rightarrow> 'w \<Rightarrow> bool \<times> 'w"

record archive =
  ar_bucket :: string
  ar_prefix :: string

text \<open>\<^verbatim>\<open>(nil, nil)\<close>, \<^verbatim>\<open>(result, nil)\<close> and \<^verbatim>\<open>(nil, err)\<close>.\<close>

datatype 'r archived = Skipped | Archived 'r | Archive_error

subsection \<open>Keys\<close>

definition safeS3PathSegment :: "string \<Rightarrow> string" where
  "safeS3PathSegment = map (\<lambda>c. if c \<in> {CHR ''/'', CHR 0x5C, CHR '' '', CHR '':''} then CHR ''_'' else c)"

text \<open>\<^verbatim>\<open>Format("20060102T150405.000000000Z")\<close> of a time in UTC.\<close>

definition compact_str :: "gotime \<Rightarrow> string" where
  "compact_str t =
     (let tod = local_ns t mod day_ns; secs = tod div ns_per_s
      in (case civil_of (local_ns t div day_ns) of (y, m, d) \<Rightarrow> year_str y @ dfix 2 m @ dfix 2 (nat d))
         @ ''T'' @ dfix 2 (nat (secs div 3600)) @ dfix 2 (nat (secs mod 3600 div 60)) @ dfix 2 (nat (secs mod 60))
         @ ''.'' @ dfix 9 (nat (tod mod ns_per_s)) @ ''Z'')"

definition device_prefix :: "archive \<Rightarrow> string \<Rightarrow> string" where
  "device_prefix a deviceID = ar_prefix a @ ''/device_id='' @ safeS3PathSegment deviceID @ ''/''"

subsection \<open>The archive of whole payloads\<close>

text \<open>\<open>digest\<close> is the first eight bytes of the SHA-256 of the body, in hexadecimal.\<close>

definition telemetry_key :: "(val \<Rightarrow> string) \<Rightarrow> archive \<Rightarrow> gotime \<Rightarrow> string \<Rightarrow> obj \<Rightarrow> string" where
  "telemetry_key digest a now deviceID payload =
     (let t = utc (payloadTime now (get payload ''timestamp''))
      in device_prefix a deviceID @ ''date='' @ date_str t @ ''/'' @ compact_str t @ ''-''
         @ digest (json_val (Obj payload)) @ ''.json'')"

definition telemetry_Archive ::
  "'w s3 \<Rightarrow> (val \<Rightarrow> string) \<Rightarrow> archive \<Rightarrow> gotime \<Rightarrow> string \<Rightarrow> obj \<Rightarrow> 'w \<Rightarrow> obj archived \<times> 'w" where
  "telemetry_Archive c digest a now deviceID payload w =
     (let key = telemetry_key digest a now deviceID payload
      in (case s3_put c key (json_val (Obj payload)) Always w of
            (None, w1) \<Rightarrow> (Archived [(''bucket'', Str (ar_bucket a)), (''key'', Str key)], w1)
          | (Some _, w1) \<Rightarrow> (Archive_error, w1)))"

text \<open>\<open>buckets\<close> gives the client's calls on a bucket by its name. The JSON text \<^verbatim>\<open>null\<close> decodes into a nil map,
  without an error.\<close>

definition telemetry_Read :: "(string \<Rightarrow> 'w s3) \<Rightarrow> archive \<Rightarrow> obj \<Rightarrow> 'w \<Rightarrow> val option \<times> 'w" where
  "telemetry_Read buckets a result w =
     (let key = str_of (get result ''key''); b = str_of (get result ''bucket'')
      in if key = [] then (None, w)
         else (case s3_get (buckets (if b = [] then ar_bucket a else b)) key w of
                 (Found (Some (Obj m)) _, w1) \<Rightarrow> (Some (BObj m), w1)
               | (Found (Some Nil_v) _, w1) \<Rightarrow> (Some Nil_v, w1)
               | (_, w1) \<Rightarrow> (None, w1)))"

subsection \<open>Deletion and the sweep\<close>

text \<open>The inner loop over a page: \<open>False\<close> when a deletion fails.\<close>

fun delete_page :: "'w s3 \<Rightarrow> (s3_object \<Rightarrow> bool) \<Rightarrow> s3_object list \<Rightarrow> int \<times> 'w \<Rightarrow> bool \<times> int \<times> 'w" where
  "delete_page c wanted [] (n, w) = (True, n, w)"
| "delete_page c wanted (x # xs) (n, w) =
     (if \<not> wanted x then delete_page c wanted xs (n, w)
      else (case s3_delete c (so_key x) w of
              (True, w1) \<Rightarrow> delete_page c wanted xs (n + 1, w1)
            | (False, w1) \<Rightarrow> (False, n, w1)))"

text \<open>The loop over the pages; it ends when a page names no further one. \<open>None\<close>: it does not end.\<close>

partial_function (option) delete_pages ::
  "'w s3 \<Rightarrow> (s3_object \<Rightarrow> bool) \<Rightarrow> string \<Rightarrow> string option \<Rightarrow> int \<times> 'w \<Rightarrow> (bool \<times> int \<times> 'w) option" where
  [code]: "delete_pages c wanted pre token nw =
     (case s3_page c pre token (snd nw) of
        None \<Rightarrow> Some (False, nw)
      | Some (xs, nxt) \<Rightarrow>
          (case delete_page c wanted xs nw of (ok, nw') \<Rightarrow>
             if \<not> ok \<or> nxt = None then Some (ok, nw') else delete_pages c wanted pre nxt nw'))"

definition archive_DeleteDevice :: "'w s3 \<Rightarrow> archive \<Rightarrow> string \<Rightarrow> 'w \<Rightarrow> (bool \<times> int \<times> 'w) option" where
  "archive_DeleteDevice c a deviceID w = delete_pages c (\<lambda>_. True) (device_prefix a deviceID) None (0, w)"

text \<open>The activity archive has the day before the device in its keys, so every object is looked at.\<close>

definition contains :: "string \<Rightarrow> string \<Rightarrow> bool" where
  "contains s part = sublist part s"

definition activity_DeleteDevice :: "'w s3 \<Rightarrow> archive \<Rightarrow> string \<Rightarrow> 'w \<Rightarrow> (bool \<times> int \<times> 'w) option" where
  "activity_DeleteDevice c a deviceID w =
     delete_pages c (\<lambda>x. contains (so_key x) (''/device_id='' @ safeS3PathSegment deviceID @ ''/'')) (ar_prefix a @ ''/'') None (0, w)"

text \<open>\<open>scanned\<close> counts every object, \<open>matched\<close> the old ones.\<close>

fun sweep_page :: "'w s3 \<Rightarrow> gotime \<Rightarrow> bool \<Rightarrow> s3_object list \<Rightarrow> (int \<times> int) \<times> 'w \<Rightarrow> bool \<times> (int \<times> int) \<times> 'w" where
  "sweep_page c cutoff dryRun [] st = (True, st)"
| "sweep_page c cutoff dryRun (x # xs) ((scanned, matched), w) =
     (if \<not> before (so_modified x) cutoff then sweep_page c cutoff dryRun xs ((scanned + 1, matched), w)
      else if dryRun then sweep_page c cutoff dryRun xs ((scanned + 1, matched + 1), w)
      else (case s3_delete c (so_key x) w of
              (True, w1) \<Rightarrow> sweep_page c cutoff dryRun xs ((scanned + 1, matched + 1), w1)
            | (False, w1) \<Rightarrow> (False, (scanned + 1, matched + 1), w1)))"

partial_function (option) sweep_pages ::
  "'w s3 \<Rightarrow> gotime \<Rightarrow> bool \<Rightarrow> string \<Rightarrow> string option \<Rightarrow> (int \<times> int) \<times> 'w \<Rightarrow> (bool \<times> (int \<times> int) \<times> 'w) option" where
  [code]: "sweep_pages c cutoff dryRun pre token st =
     (case s3_page c pre token (snd st) of
        None \<Rightarrow> Some (False, st)
      | Some (xs, nxt) \<Rightarrow>
          (case sweep_page c cutoff dryRun xs st of (ok, st') \<Rightarrow>
             if \<not> ok \<or> nxt = None then Some (ok, st') else sweep_pages c cutoff dryRun pre nxt st'))"

definition sweepS3Prefix :: "'w s3 \<Rightarrow> archive \<Rightarrow> gotime \<Rightarrow> bool \<Rightarrow> 'w \<Rightarrow> (bool \<times> (int \<times> int) \<times> 'w) option" where
  "sweepS3Prefix c a cutoff dryRun w = sweep_pages c cutoff dryRun (ar_prefix a @ ''/'') None ((0, 0), w)"

text \<open>One round of \<^verbatim>\<open>startRetentionSweep\<close>: \<open>None\<close> when the floor of seven days stops it, else the results.\<close>

datatype sweep_mode = Sweep_off | Sweep_dry | Sweep_delete

definition sweep_mode_of :: "string \<Rightarrow> sweep_mode" where
  "sweep_mode_of env =
     (let mode = to_lower (trim_space env)
      in if mode = ''true'' then Sweep_delete else if mode = ''dry-run'' then Sweep_dry else Sweep_off)"

definition sweep_cutoff :: "gotime \<Rightarrow> int \<Rightarrow> gotime" where
  "sweep_cutoff now days = add (utc now) (- days * day_ns)"

fun sweep_targets :: "'w s3 \<Rightarrow> gotime \<Rightarrow> bool \<Rightarrow> archive list \<Rightarrow> 'w \<Rightarrow> 'w option" where
  "sweep_targets c cutoff dryRun [] w = Some w"
| "sweep_targets c cutoff dryRun (a # as) w =
     (case sweepS3Prefix c a cutoff dryRun w of None \<Rightarrow> None
      | Some (_, _, w1) \<Rightarrow> sweep_targets c cutoff dryRun as w1)"

definition sweep_round :: "'w s3 \<Rightarrow> string \<Rightarrow> archive list \<Rightarrow> int \<Rightarrow> gotime \<Rightarrow> 'w \<Rightarrow> 'w option" where
  "sweep_round c env targets days now w =
     (if sweep_mode_of env = Sweep_off \<or> targets = [] \<or> days < 7 then Some w
      else sweep_targets c (sweep_cutoff now days) (sweep_mode_of env = Sweep_dry) targets w)"
subsection \<open>What a listing promises\<close>

text \<open>\<open>stored\<close> is what the bucket holds, \<open>todo\<close> which keys a page token has not passed yet. A page holds stored
  objects of the prefix that are still to come and passes over none of them; a page that is not the last one is
  not empty. Only this client changes the bucket meanwhile.\<close>

definition page_law :: "'w s3 \<Rightarrow> ('w \<Rightarrow> s3_object set) \<Rightarrow> (string option \<Rightarrow> string \<Rightarrow> bool) \<Rightarrow> bool" where
  "page_law c stored todo \<longleftrightarrow> (\<forall>pre token w xs nxt. s3_page c pre token w = Some (xs, nxt) \<longrightarrow>
     set xs \<subseteq> {x \<in> stored w. prefix pre (so_key x) \<and> todo token (so_key x)}
     \<and> (\<forall>x \<in> stored w. prefix pre (so_key x) \<longrightarrow> todo token (so_key x) \<longrightarrow>
          x \<in> set xs \<or> (nxt \<noteq> None \<and> todo nxt (so_key x)))
     \<and> (nxt \<noteq> None \<longrightarrow> xs \<noteq> [] \<and> (\<forall>x \<in> set xs. \<not> todo nxt (so_key x)) \<and> (\<forall>k. todo nxt k \<longrightarrow> todo token k)))"

definition delete_law :: "'w s3 \<Rightarrow> ('w \<Rightarrow> s3_object set) \<Rightarrow> bool" where
  "delete_law c stored \<longleftrightarrow> (\<forall>k w ok w'. s3_delete c k w = (ok, w') \<longrightarrow>
     stored w' = {x \<in> stored w. so_key x \<noteq> k} \<or> (\<not> ok \<and> stored w' = stored w))"

definition listing_laws :: "'w s3 \<Rightarrow> ('w \<Rightarrow> s3_object set) \<Rightarrow> (string option \<Rightarrow> string \<Rightarrow> bool) \<Rightarrow> bool" where
  "listing_laws c stored todo \<longleftrightarrow> page_law c stored todo \<and> delete_law c stored \<and> (\<forall>k. todo None k)
     \<and> (\<forall>w. finite (stored w) \<and> inj_on so_key (stored w))"

text \<open>A page deletes wanted objects of the page only, and all of them when it reports success.\<close>

lemma delete_page_effect:
  assumes "delete_law c stored" "inj_on so_key (stored w0)" "stored w \<subseteq> stored w0" "set xs \<subseteq> stored w0"
    "delete_page c wanted xs (n, w) = (ok, n', w')"
  shows "stored w' \<subseteq> stored w \<and> (\<forall>x \<in> stored w - stored w'. x \<in> set xs \<and> wanted x)
    \<and> (ok \<longrightarrow> stored w' = {x \<in> stored w. x \<notin> set xs \<or> \<not> wanted x})"
  using assms(3-5)
proof (induction xs arbitrary: n w)
  case (Cons x xs)
  have sub: "set xs \<subseteq> stored w0" using Cons.prems(2) by simp
  show ?case
  proof (cases "wanted x")
    case False
    then have run: "delete_page c wanted xs (n, w) = (ok, n', w')" using Cons.prems(3) by simp
    have ih: "stored w' \<subseteq> stored w" "\<forall>y \<in> stored w - stored w'. y \<in> set xs \<and> wanted y"
      "ok \<Longrightarrow> stored w' = {y \<in> stored w. y \<notin> set xs \<or> \<not> wanted y}"
      using Cons.IH [OF Cons.prems(1) sub run] by blast+
    have "{y \<in> stored w. y \<notin> set xs \<or> \<not> wanted y} = {y \<in> stored w. y \<notin> set (x # xs) \<or> \<not> wanted y}"
      using False by auto
    moreover have "\<forall>y \<in> stored w - stored w'. y \<in> set (x # xs) \<and> wanted y" using ih(2) by simp
    ultimately show ?thesis using ih(1,3) by blast
  next
    case True
    obtain ok1 w1 where d: "s3_delete c (so_key x) w = (ok1, w1)" by (meson surj_pair)
    have one: "{y \<in> stored w. so_key y \<noteq> so_key x} = stored w - {x}"
      using assms(2) Cons.prems(1,2) by (auto dest: inj_onD)
    have s: "stored w1 = stored w - {x} \<or> (\<not> ok1 \<and> stored w1 = stored w)"
      using assms(1) d unfolding delete_law_def one [symmetric] by blast
    show ?thesis
    proof (cases ok1)
      case True
      then have "delete_page c wanted xs (n + 1, w1) = (ok, n', w')" using Cons.prems(3) d \<open>wanted x\<close> by simp
      moreover have "stored w1 \<subseteq> stored w0" using s Cons.prems(1) by blast
      ultimately have ih: "stored w' \<subseteq> stored w1" "\<forall>y \<in> stored w1 - stored w'. y \<in> set xs \<and> wanted y"
        "ok \<Longrightarrow> stored w' = {y \<in> stored w1. y \<notin> set xs \<or> \<not> wanted y}"
        using Cons.IH [OF _ sub] by blast+
      have w1: "stored w1 = stored w - {x}" using s True by simp
      have "{y \<in> stored w1. y \<notin> set xs \<or> \<not> wanted y} = {y \<in> stored w. y \<notin> set (x # xs) \<or> \<not> wanted y}"
        using w1 \<open>wanted x\<close> by auto
      moreover have "\<forall>y \<in> stored w - stored w'. y \<in> set (x # xs) \<and> wanted y" using ih(2) w1 \<open>wanted x\<close> by auto
      ultimately show ?thesis using ih(1,3) w1 by blast
    next
      case False
      then have "\<not> ok" "w' = w1" using Cons.prems(3) d \<open>wanted x\<close> by simp_all
      then show ?thesis using s \<open>wanted x\<close> by auto
    qed
  qed
qed simp

text \<open>Every page leaves fewer objects to come.\<close>

lemma page_progress:
  assumes laws: "listing_laws c stored todo" and p: "s3_page c pre token w = Some (xs, nxt)" and n: "nxt \<noteq> None"
    and sub: "stored w1 \<subseteq> stored w"
  shows "card {x \<in> stored w1. todo nxt (so_key x)} < card {x \<in> stored w. todo token (so_key x)}"
proof -
  have xs: "set xs \<subseteq> {x \<in> stored w. prefix pre (so_key x) \<and> todo token (so_key x)}"
    and prog: "xs \<noteq> []" "\<forall>x \<in> set xs. \<not> todo nxt (so_key x)" "\<forall>k. todo nxt k \<longrightarrow> todo token k"
    using laws p n unfolding listing_laws_def page_law_def by blast+
  obtain x where x: "x \<in> set xs" using prog(1) by (cases xs) auto
  have "{y \<in> stored w1. todo nxt (so_key y)} \<subseteq> {y \<in> stored w. todo token (so_key y)}"
    using prog(3) sub by auto
  moreover have "x \<in> {y \<in> stored w. todo token (so_key y)}" "x \<notin> {y \<in> stored w1. todo nxt (so_key y)}"
    using prog(2) x xs by auto
  ultimately have "{y \<in> stored w1. todo nxt (so_key y)} \<subset> {y \<in> stored w. todo token (so_key y)}" by blast
  moreover have "finite {y \<in> stored w. todo token (so_key y)}" using laws by (simp add: listing_laws_def)
  ultimately show ?thesis by (rule psubset_card_mono [rotated])
qed

text \<open>The whole loop: it ends, deletes nothing else, and misses nothing when it reports success.\<close>

lemma delete_pages_effect:
  assumes laws: "listing_laws c stored todo"
  shows "\<exists>ok n' w'. delete_pages c wanted pre token (n, w) = Some (ok, n', w')
    \<and> stored w' \<subseteq> stored w \<and> (\<forall>x \<in> stored w - stored w'. prefix pre (so_key x) \<and> wanted x)
    \<and> (ok \<longrightarrow> (\<forall>x \<in> stored w'. prefix pre (so_key x) \<longrightarrow> todo token (so_key x) \<longrightarrow> \<not> wanted x))"
proof (induction "card {x \<in> stored w. todo token (so_key x)}" arbitrary: token n w rule: less_induct)
  case less
  have del: "delete_law c stored" and pl: "page_law c stored todo" and inj: "inj_on so_key (stored w)"
    using laws by (simp_all add: listing_laws_def)
  show ?case
  proof (cases "s3_page c pre token w")
    case None
    then have "delete_pages c wanted pre token (n, w) = Some (False, n, w)" by (subst delete_pages.simps) simp
    then show ?thesis by auto
  next
    case (Some p)
    obtain xs nxt where p: "s3_page c pre token w = Some (xs, nxt)" using Some by (cases p) auto
    have xs: "set xs \<subseteq> {x \<in> stored w. prefix pre (so_key x) \<and> todo token (so_key x)}"
      and all: "\<forall>x \<in> stored w. prefix pre (so_key x) \<longrightarrow> todo token (so_key x) \<longrightarrow> x \<in> set xs \<or> (nxt \<noteq> None \<and> todo nxt (so_key x))"
      using pl p unfolding page_law_def by blast+
    obtain ok1 n1 w1 where d: "delete_page c wanted xs (n, w) = (ok1, n1, w1)" by (metis prod_cases3)
    have eff: "stored w1 \<subseteq> stored w" "\<forall>x \<in> stored w - stored w1. x \<in> set xs \<and> wanted x"
      "ok1 \<longrightarrow> stored w1 = {x \<in> stored w. x \<notin> set xs \<or> \<not> wanted x}"
      using delete_page_effect [OF del inj order.refl _ d] xs by auto
    show ?thesis
    proof (cases "ok1 \<and> nxt \<noteq> None")
      case False
      then have "delete_pages c wanted pre token (n, w) = Some (ok1, n1, w1)"
        using p d by (subst delete_pages.simps) auto
      moreover have "\<forall>x \<in> stored w - stored w1. prefix pre (so_key x) \<and> wanted x" using eff(2) xs by blast
      moreover have "\<not> wanted x" if "ok1" "x \<in> stored w1" "prefix pre (so_key x)" "todo token (so_key x)" for x
        using that eff(1,3) all False by blast
      ultimately show ?thesis using eff(1) by blast
    next
      case True
      then have r: "delete_pages c wanted pre token (n, w) = delete_pages c wanted pre nxt (n1, w1)"
        using p d by (subst delete_pages.simps) auto
      have prog: "\<forall>x \<in> set xs. \<not> todo nxt (so_key x)" using pl p True unfolding page_law_def by blast
      have "card {y \<in> stored w1. todo nxt (so_key y)} < card {y \<in> stored w. todo token (so_key y)}"
        using page_progress [OF laws p _ eff(1)] True by blast
      from less [OF this, of n1] obtain ok n' w' where ih: "delete_pages c wanted pre nxt (n1, w1) = Some (ok, n', w')"
        "stored w' \<subseteq> stored w1" "\<forall>x \<in> stored w1 - stored w'. prefix pre (so_key x) \<and> wanted x"
        "ok \<longrightarrow> (\<forall>x \<in> stored w'. prefix pre (so_key x) \<longrightarrow> todo nxt (so_key x) \<longrightarrow> \<not> wanted x)" by blast
      have "\<not> wanted x" if "ok" "x \<in> stored w'" "prefix pre (so_key x)" "todo token (so_key x)" for x
        using that ih(2,4) eff(1,3) all True by blast
      moreover have "\<forall>x \<in> stored w - stored w'. prefix pre (so_key x) \<and> wanted x" using ih(2,3) eff(1,2) xs by blast
      ultimately show ?thesis using r ih(1,2) eff(1) by (metis subset_trans)
    qed
  qed
qed
subsection \<open>The sweep is a deletion of old objects\<close>

definition swept :: "gotime \<Rightarrow> bool \<Rightarrow> s3_object \<Rightarrow> bool" where
  "swept cutoff dryRun x \<longleftrightarrow> \<not> dryRun \<and> before (so_modified x) cutoff"

lemma sweep_page_deletes:
  "delete_page c (swept cutoff dryRun) xs (n, w) = (ok, n', w') \<Longrightarrow> \<exists>counts. sweep_page c cutoff dryRun xs (st, w) = (ok, counts, w')"
proof (induction xs arbitrary: n w st)
  case Nil
  then show ?case by (cases st) simp
next
  case (Cons x xs)
  obtain scanned matched where st: "st = (scanned, matched)" by (meson surj_pair)
  obtain d w1 where d: "s3_delete c (so_key x) w = (d, w1)" by (meson surj_pair)
  show ?case
    using Cons.prems Cons.IH [of n w "(scanned + 1, matched)"] Cons.IH [of n w "(scanned + 1, matched + 1)"]
      Cons.IH [of "n + 1" w1 "(scanned + 1, matched + 1)"]
    by (cases "before (so_modified x) cutoff"; cases dryRun; cases d) (simp_all add: st d swept_def)
qed

lemma sweep_pages_deletes:
  assumes laws: "listing_laws c stored todo"
  shows "\<exists>ok n' w' counts. delete_pages c (swept cutoff dryRun) pre token (n, w) = Some (ok, n', w')
    \<and> sweep_pages c cutoff dryRun pre token (st, w) = Some (ok, counts, w')"
proof (induction "card {x \<in> stored w. todo token (so_key x)}" arbitrary: token n w st rule: less_induct)
  case less
  show ?case
  proof (cases "s3_page c pre token w")
    case None
    then show ?thesis by (subst delete_pages.simps, subst sweep_pages.simps) auto
  next
    case (Some p)
    obtain xs nxt where p: "s3_page c pre token w = Some (xs, nxt)" using Some by (cases p) auto
    obtain ok1 n1 w1 where d: "delete_page c (swept cutoff dryRun) xs (n, w) = (ok1, n1, w1)" by (metis prod_cases3)
    obtain counts where s: "sweep_page c cutoff dryRun xs (st, w) = (ok1, counts, w1)"
      using sweep_page_deletes [OF d] by blast
    show ?thesis
    proof (cases "ok1 \<and> nxt \<noteq> None")
      case False
      then show ?thesis using p d s by (subst delete_pages.simps, subst sweep_pages.simps) auto
    next
      case True
      have "set xs \<subseteq> stored w" using laws p unfolding listing_laws_def page_law_def by blast
      then have "stored w1 \<subseteq> stored w"
        using delete_page_effect [of c stored w w xs, OF _ _ order.refl _ d] laws unfolding listing_laws_def by blast
      then have "card {y \<in> stored w1. todo nxt (so_key y)} < card {y \<in> stored w. todo token (so_key y)}"
        using page_progress [OF laws p] True by blast
      from less [OF this, of n1 counts] show ?thesis
        using p d s True by (subst delete_pages.simps, subst sweep_pages.simps) auto
    qed
  qed
qed

lemma sweepS3Prefix_effect:
  assumes laws: "listing_laws c stored todo"
  shows "\<exists>ok counts w'. sweepS3Prefix c a cutoff dryRun w = Some (ok, counts, w') \<and> stored w' \<subseteq> stored w
    \<and> (\<forall>x \<in> stored w - stored w'. prefix (ar_prefix a @ ''/'') (so_key x) \<and> swept cutoff dryRun x)"
proof -
  obtain ok n' w' counts where s: "delete_pages c (swept cutoff dryRun) (ar_prefix a @ ''/'') None (0, w) = Some (ok, n', w')"
    "sweep_pages c cutoff dryRun (ar_prefix a @ ''/'') None ((0, 0), w) = Some (ok, counts, w')"
    using sweep_pages_deletes [OF laws] by metis
  then show ?thesis
    using delete_pages_effect [OF laws, of "swept cutoff dryRun" "ar_prefix a @ ''/''" None 0 w] by (auto simp: sweepS3Prefix_def)
qed

lemma sweep_targets_effect:
  assumes laws: "listing_laws c stored todo"
  shows "\<exists>w'. sweep_targets c cutoff dryRun as w = Some w' \<and> stored w' \<subseteq> stored w
    \<and> (\<forall>x \<in> stored w - stored w'. (\<exists>a \<in> set as. prefix (ar_prefix a @ ''/'') (so_key x)) \<and> swept cutoff dryRun x)"
proof (induction "as" arbitrary: w)
  case (Cons a as)
  obtain ok counts w1 where s: "sweepS3Prefix c a cutoff dryRun w = Some (ok, counts, w1)" "stored w1 \<subseteq> stored w"
    "\<forall>x \<in> stored w - stored w1. prefix (ar_prefix a @ ''/'') (so_key x) \<and> swept cutoff dryRun x"
    using sweepS3Prefix_effect [OF laws] by metis
  obtain w' where t: "sweep_targets c cutoff dryRun as w1 = Some w'" "stored w' \<subseteq> stored w1"
    "\<forall>x \<in> stored w1 - stored w'. (\<exists>a \<in> set as. prefix (ar_prefix a @ ''/'') (so_key x)) \<and> swept cutoff dryRun x"
    using Cons.IH by blast
  have "\<forall>x \<in> stored w - stored w'. (\<exists>b \<in> set (a # as). prefix (ar_prefix b @ ''/'') (so_key x)) \<and> swept cutoff dryRun x"
    using s(3) t(3) by (metis DiffD1 DiffD2 DiffI list.set_intros(1,2))
  moreover have "sweep_targets c cutoff dryRun (a # as) w = Some w'" using s(1) t(1) by simp
  ultimately show ?case using s(2) t(2) by (metis subset_trans)
qed simp

subsection \<open>What deletion and the sweep promise\<close>

text \<open>C19. Deleting a device's archive ends, leaves every object outside the device's prefix alone, and when it
  reports success none of the device's objects is left, however the listing is paged.\<close>

theorem device_deletion_complete:
  assumes "listing_laws c stored todo"
  shows "\<exists>ok n w'. archive_DeleteDevice c a deviceID w = Some (ok, n, w')
    \<and> {x \<in> stored w'. \<not> prefix (device_prefix a deviceID) (so_key x)} = {x \<in> stored w. \<not> prefix (device_prefix a deviceID) (so_key x)}
    \<and> (ok \<longrightarrow> (\<forall>x \<in> stored w'. \<not> prefix (device_prefix a deviceID) (so_key x)))"
proof -
  have all: "todo None k" for k using assms by (simp add: listing_laws_def)
  obtain ok n w' where d: "archive_DeleteDevice c a deviceID w = Some (ok, n, w')" "stored w' \<subseteq> stored w"
    "\<forall>x \<in> stored w - stored w'. prefix (device_prefix a deviceID) (so_key x)"
    "ok \<longrightarrow> (\<forall>x \<in> stored w'. prefix (device_prefix a deviceID) (so_key x) \<longrightarrow> todo None (so_key x) \<longrightarrow> \<not> True)"
    using delete_pages_effect [OF assms, of "\<lambda>_. True" "device_prefix a deviceID" None 0 w] unfolding archive_DeleteDevice_def by metis
  have "{x \<in> stored w'. \<not> prefix (device_prefix a deviceID) (so_key x)} = {x \<in> stored w. \<not> prefix (device_prefix a deviceID) (so_key x)}"
    using d(2,3) by blast
  then show ?thesis using d(1,4) all by blast
qed

text \<open>C20. The retention sweep ends and never deletes an object that is younger than a week or lies outside the
  archives, whatever retention is configured; in dry-run mode and when it is off it deletes nothing.\<close>

theorem sweep_spares_week:
  assumes "listing_laws c stored todo"
  shows "\<exists>w'. sweep_round c env targets days now w = Some w' \<and> stored w' \<subseteq> stored w
    \<and> (\<forall>x \<in> stored w - stored w'. sweep_mode_of env = Sweep_delete
         \<and> inst (so_modified x) < inst now - 7 * day_ns \<and> (\<exists>a \<in> set targets. prefix (ar_prefix a @ ''/'') (so_key x)))"
proof (cases "sweep_mode_of env = Sweep_off \<or> targets = [] \<or> days < 7")
  case True
  then show ?thesis by (auto simp: sweep_round_def)
next
  case False
  let ?dry = "sweep_mode_of env = Sweep_dry"
  have "7 * day_ns \<le> days * day_ns" using False by (simp add: ns_units)
  then have "swept (sweep_cutoff now days) ?dry x \<Longrightarrow> sweep_mode_of env = Sweep_delete \<and> inst (so_modified x) < inst now - 7 * day_ns" for x
    using False by (cases "sweep_mode_of env") (auto simp: swept_def sweep_cutoff_def before_def)
  moreover have "sweep_round c env targets days now w = sweep_targets c (sweep_cutoff now days) ?dry targets w"
    using False by (simp add: sweep_round_def)
  moreover obtain w' where "sweep_targets c (sweep_cutoff now days) ?dry targets w = Some w'" "stored w' \<subseteq> stored w"
    "\<forall>x \<in> stored w - stored w'. (\<exists>a \<in> set targets. prefix (ar_prefix a @ ''/'') (so_key x)) \<and> swept (sweep_cutoff now days) ?dry x"
    using sweep_targets_effect [OF assms, of "sweep_cutoff now days" ?dry targets w] by blast
  ultimately show ?thesis by auto
qed

subsection \<open>A bucket\<close>

text \<open>A bucket over an association list, listed one object per page.\<close>

type_synonym listing = "(string \<times> gotime) list"

definition listed :: "listing \<Rightarrow> s3_object set" where
  "listed w = {x. map_of w (so_key x) = Some (so_modified x)}"

definition still_to_come :: "string option \<Rightarrow> string \<Rightarrow> bool" where
  "still_to_come token k = (case token of None \<Rightarrow> True | Some t \<Rightarrow> t < k)"

definition example_s3 :: "listing s3" where
  "example_s3 = \<lparr>
     s3_get = (\<lambda>k w. (No_such_key, w)),
     s3_put = (\<lambda>k v cond w. (None, al_upd k \<lparr>inst = 0, off = 0\<rparr> w)),
     s3_page = (\<lambda>pre token w. case sort (filter (\<lambda>k. prefix pre k \<and> still_to_come token k) (remdups (map fst w))) of
        [] \<Rightarrow> Some ([], None)
      | [k] \<Rightarrow> Some ([\<lparr>so_key = k, so_modified = the (map_of w k)\<rparr>], None)
      | k # _ \<Rightarrow> Some ([\<lparr>so_key = k, so_modified = the (map_of w k)\<rparr>], Some k)),
     s3_delete = (\<lambda>k w. (True, al_del k w))\<rparr>"

lemma example_page: "page_law example_s3 listed still_to_come"
  unfolding page_law_def
proof (intro allI impI)
  fix pre token w xs nxt assume p: "s3_page example_s3 pre token w = Some (xs, nxt)"
  define ks where "ks = sort (filter (\<lambda>k. prefix pre k \<and> still_to_come token k) (remdups (map fst w)))"
  have ks: "sorted ks" "distinct ks" "set ks = {k \<in> fst ` set w. prefix pre k \<and> still_to_come token k}" by (auto simp: ks_def)
  have keys: "x \<in> listed w \<Longrightarrow> so_key x \<in> fst ` set w" for x by (force simp: listed_def dest: map_of_SomeD)
  have here: "\<lparr>so_key = k, so_modified = the (map_of w k)\<rparr> \<in> listed w" if "k \<in> set ks" for k
    using that ks(3) by (auto simp: listed_def dest: weak_map_of_SomeI)
  have same: "x = \<lparr>so_key = so_key x, so_modified = the (map_of w (so_key x))\<rparr>" if "x \<in> listed w" for x
    using that by (simp add: listed_def)
  consider "ks = []" "xs = []" "nxt = None"
    | k where "ks = [k]" "xs = [\<lparr>so_key = k, so_modified = the (map_of w k)\<rparr>]" "nxt = None"
    | k k2 r where "ks = k # k2 # r" "xs = [\<lparr>so_key = k, so_modified = the (map_of w k)\<rparr>]" "nxt = Some k"
    using p unfolding example_s3_def ks_def [symmetric] s3.simps by (cases ks rule: remdups_adj.cases) simp_all
  then show "set xs \<subseteq> {x \<in> listed w. prefix pre (so_key x) \<and> still_to_come token (so_key x)}
     \<and> (\<forall>x \<in> listed w. prefix pre (so_key x) \<longrightarrow> still_to_come token (so_key x) \<longrightarrow> x \<in> set xs \<or> (nxt \<noteq> None \<and> still_to_come nxt (so_key x)))
     \<and> (nxt \<noteq> None \<longrightarrow> xs \<noteq> [] \<and> (\<forall>x \<in> set xs. \<not> still_to_come nxt (so_key x)) \<and> (\<forall>k. still_to_come nxt k \<longrightarrow> still_to_come token k))"
  proof cases
    case 1
    then show ?thesis using ks(3) keys by auto
  next
    case (2 k)
    then have "\<forall>x \<in> listed w. prefix pre (so_key x) \<longrightarrow> still_to_come token (so_key x) \<longrightarrow> so_key x = k" using ks(3) keys by auto
    then have cover: "\<forall>x \<in> listed w. prefix pre (so_key x) \<longrightarrow> still_to_come token (so_key x) \<longrightarrow> x \<in> set xs"
      using same 2(2) by (metis list.set_intros(1))
    have "prefix pre k" "still_to_come token k" using 2(1) ks(3) by auto
    then have "set xs \<subseteq> {x \<in> listed w. prefix pre (so_key x) \<and> still_to_come token (so_key x)}"
      using 2 here [of k] by simp
    then show ?thesis using cover 2(3) by blast
  next
    case (3 k k2 r)
    have k: "prefix pre k" "still_to_come token k" using 3(1) ks(3) by auto
    have first: "so_key x = k \<or> k < so_key x" if "x \<in> listed w" "prefix pre (so_key x)" "still_to_come token (so_key x)" for x
    proof -
      have "so_key x \<in> set ks" using that keys ks(3) by auto
      then show ?thesis using ks(1) 3(1) by (auto simp: order_le_less)
    qed
    have up: "still_to_come (Some k) k' \<Longrightarrow> still_to_come token k'" for k'
      using k(2) by (auto simp: still_to_come_def split: option.splits)
    have cover: "\<forall>x \<in> listed w. prefix pre (so_key x) \<longrightarrow> still_to_come token (so_key x) \<longrightarrow> x \<in> set xs \<or> (nxt \<noteq> None \<and> still_to_come nxt (so_key x))"
      using same first 3(2,3) by (metis list.set_intros(1) option.distinct(1) option.simps(5) still_to_come_def)
    have "set xs \<subseteq> {x \<in> listed w. prefix pre (so_key x) \<and> still_to_come token (so_key x)}"
      using 3 here [of k] k by simp
    moreover have "\<forall>x \<in> set xs. \<not> still_to_come nxt (so_key x)" using 3 by (simp add: still_to_come_def)
    ultimately show ?thesis using cover up 3(2,3) by blast
  qed
qed

lemma example_listing: "listing_laws example_s3 listed still_to_come"
proof -
  have fin: "finite (listed w)" for w
  proof -
    have "listed w \<subseteq> (\<lambda>(k, t). \<lparr>so_key = k, so_modified = t\<rparr>) ` set w"
    proof
      fix x assume "x \<in> listed w"
      then have "(so_key x, so_modified x) \<in> set w" by (simp add: listed_def map_of_SomeD)
      moreover have "x = \<lparr>so_key = so_key x, so_modified = so_modified x\<rparr>" by simp
      ultimately show "x \<in> (\<lambda>(k, t). \<lparr>so_key = k, so_modified = t\<rparr>) ` set w" by (metis (mono_tags, lifting) case_prod_conv image_eqI)
    qed
    then show ?thesis by (rule finite_subset) simp
  qed
  have inj: "inj_on so_key (listed w)" for w by (rule inj_onI) (simp add: listed_def)
  have "delete_law example_s3 listed"
    by (auto simp: delete_law_def example_s3_def listed_def)
  then show ?thesis using fin inj example_page by (simp add: listing_laws_def still_to_come_def)
qed
definition example_archive :: archive where
  "example_archive = \<lparr>ar_bucket = ''b'', ar_prefix = ''telemetry''\<rparr>"

definition example_listing_of_two :: listing where
  "example_listing_of_two = [(''telemetry/device_id=d1/date=2026-01-01/a.json'', \<lparr>inst = 0, off = 0\<rparr>),
     (''telemetry/device_id=d1/date=2026-01-02/b.json'', \<lparr>inst = 30 * day_ns, off = 0\<rparr>),
     (''telemetry/device_id=d10/date=2026-01-01/c.json'', \<lparr>inst = 0, off = 0\<rparr>)]"

theorem device_deletion_complete_witness:
  "\<exists>ok n w'. archive_DeleteDevice example_s3 example_archive ''d1'' example_listing_of_two = Some (ok, n, w')
    \<and> map_of w' ''telemetry/device_id=d10/date=2026-01-01/c.json'' = Some \<lparr>inst = 0, off = 0\<rparr>"
proof -
  let ?o = "\<lparr>so_key = ''telemetry/device_id=d10/date=2026-01-01/c.json'', so_modified = \<lparr>inst = 0, off = 0\<rparr>\<rparr>"
  let ?p = "device_prefix example_archive ''d1''"
  obtain ok n w' where d: "archive_DeleteDevice example_s3 example_archive ''d1'' example_listing_of_two = Some (ok, n, w')"
    "{x \<in> listed w'. \<not> prefix ?p (so_key x)} = {x \<in> listed example_listing_of_two. \<not> prefix ?p (so_key x)}"
    using device_deletion_complete [OF example_listing] by blast
  have "\<not> prefix ?p (so_key ?o)" by code_simp
  moreover have "?o \<in> listed example_listing_of_two" by (simp add: listed_def example_listing_of_two_def)
  ultimately have "?o \<in> listed w'" using d(2) by blast
  then show ?thesis using d(1) by (auto simp: listed_def)
qed

theorem sweep_spares_week_witness:
  "\<exists>w'. sweep_round example_s3 '' True '' [example_archive] 30 \<lparr>inst = 36 * day_ns, off = 0\<rparr> example_listing_of_two = Some w'
    \<and> map_of w' ''telemetry/device_id=d1/date=2026-01-02/b.json'' = Some \<lparr>inst = 30 * day_ns, off = 0\<rparr>"
proof -
  let ?o = "\<lparr>so_key = ''telemetry/device_id=d1/date=2026-01-02/b.json'', so_modified = \<lparr>inst = 30 * day_ns, off = 0\<rparr>\<rparr>"
  obtain w' where d: "sweep_round example_s3 '' True '' [example_archive] 30 \<lparr>inst = 36 * day_ns, off = 0\<rparr> example_listing_of_two = Some w'"
    "\<forall>x \<in> listed example_listing_of_two - listed w'. inst (so_modified x) < inst \<lparr>inst = 36 * day_ns, off = 0\<rparr> - 7 * day_ns"
    using sweep_spares_week [OF example_listing] by blast
  have "?o \<in> listed example_listing_of_two" by (simp add: listed_def example_listing_of_two_def)
  moreover have "\<not> inst (so_modified ?o) < inst \<lparr>inst = 36 * day_ns, off = 0\<rparr> - 7 * day_ns" by (simp add: ns_units)
  ultimately have "?o \<in> listed w'" using d(2) by blast
  then show ?thesis using d(1) by (auto simp: listed_def)
qed

end
