(* ===== verification/DayArchive.thy ===== *)
theory DayArchive
  imports ObjectStore SessionLaws ActiveWindow
begin

text \<open>
  The archive of daily app usage, \<^verbatim>\<open>DailyActivityArchive.Archive\<close>: one object per device, user and local
  day, written by re-reading, merging and a conditional write, and written again when another writer was
  faster. \<open>versions k w\<close> is the history of the object \<open>k\<close>: every write with its entity tag, and \<open>None\<close> for a
  deletion. Other clients may add to it between any two calls.
\<close>

subsection \<open>Versions of an object\<close>

type_synonym version_log = "(string \<times> val) option list"

definition current :: "version_log \<Rightarrow> (string \<times> val) option" where
  "current vs = (if vs = [] then None else last vs)"

definition get_law :: "'w s3 \<Rightarrow> (string \<Rightarrow> 'w \<Rightarrow> version_log) \<Rightarrow> bool" where
  "get_law c versions \<longleftrightarrow> (\<forall>k w r w'. s3_get c k w = (r, w') \<longrightarrow> (\<exists>a b. versions k w' = versions k w @ a @ b
     \<and> (case r of Found v e \<Rightarrow> \<exists>u. current (versions k w @ a) = Some (e, u) \<and> (v = None \<or> v = Some u)
        | No_such_key \<Rightarrow> current (versions k w @ a) = None
        | Read_error \<Rightarrow> True)))"

definition put_law :: "'w s3 \<Rightarrow> (string \<Rightarrow> 'w \<Rightarrow> version_log) \<Rightarrow> bool" where
  "put_law c versions \<longleftrightarrow> (\<forall>k v cond w r w'. s3_put c k v cond w = (r, w') \<longrightarrow> (\<exists>a b.
     (case r of None \<Rightarrow> \<exists>e. versions k w' = versions k w @ a @ [Some (e, v)] @ b
        \<and> (case cond of Always \<Rightarrow> True
           | If_match e0 \<Rightarrow> \<exists>u. current (versions k w @ a) = Some (e0, u)
           | If_none_match \<Rightarrow> current (versions k w @ a) = None)
      | Some _ \<Rightarrow> versions k w' = versions k w @ a)))"

text \<open>An entity tag stands for one content.\<close>

definition tag_law :: "(string \<Rightarrow> 'w \<Rightarrow> version_log) \<Rightarrow> bool" where
  "tag_law versions \<longleftrightarrow> (\<forall>k w e u u'. Some (e, u) \<in> set (versions k w) \<longrightarrow> Some (e, u') \<in> set (versions k w) \<longrightarrow> u = u')"

definition version_laws :: "'w s3 \<Rightarrow> (string \<Rightarrow> 'w \<Rightarrow> version_log) \<Rightarrow> bool" where
  "version_laws c versions \<longleftrightarrow> get_law c versions \<and> put_law c versions \<and> tag_law versions"

subsection \<open>The write\<close>

definition dailyActivityS3Key :: "gotime \<Rightarrow> string \<Rightarrow> string \<Rightarrow> string \<Rightarrow> string \<Rightarrow> string" where
  "dailyActivityS3Key now pre deviceID username date =
     (case civil_of (local_ns (payloadTime now (Str (date @ ''T00:00:00Z''))) div day_ns) of (y, m, d) \<Rightarrow>
        pre @ ''/year='' @ year_str y @ ''/month='' @ dfix 2 m @ ''/day='' @ dfix 2 (nat d)
        @ ''/device_id='' @ safeS3PathSegment deviceID @ ''/user='' @ safeS3PathSegment username @ ''/activity.json'')"

record day_key =
  dk_device :: string
  dk_user :: string
  dk_date :: string
  dk_loc :: int

text \<open>The document of a write: the one read, or a fresh one, with the new sessions merged in. \<open>perm\<close> is the
  order of Go's map iteration in the summary.\<close>

definition day_merge :: "(val list \<Rightarrow> val list) \<Rightarrow> gotime \<Rightarrow> day_key \<Rightarrow> val list \<Rightarrow> obj option \<Rightarrow> obj \<times> val list \<times> float64 \<times> int" where
  "day_merge perm now d sessions existing =
     (let doc = (case existing of Some m \<Rightarrow> m
                 | None \<Rightarrow> [(''date'', Str (dk_date d)), (''device_id'', Str (dk_device d)), (''username'', Str (dk_user d)),
                           (''sessions'', Arr []), (''apps'', Arr []), (''updated_at'', Time_v (utc now))]);
          doc1 = al_upd ''updated_at'' (Time_v (utc now)) (al_upd ''username'' (Str (dk_user d))
                   (al_upd ''device_id'' (Str (dk_device d)) (al_upd ''date'' (Str (dk_date d)) doc)));
          all = normalizeActivitySessions (appendInterfaceSlice (get doc1 ''sessions'') sessions) (dk_date d) (dk_loc d);
          (apps, totalS) = summarizeActivitySessions perm all;
          n = int (length all)
      in (al_upd ''session_count'' (Int_v n) (al_upd ''total_seconds'' (F64 totalS) (al_upd ''apps'' (Arr apps)
            (al_upd ''sessions'' (Arr all) doc1))), apps, totalS, n))"

definition day_body :: "(val list \<Rightarrow> val list) \<Rightarrow> gotime \<Rightarrow> day_key \<Rightarrow> val list \<Rightarrow> obj option \<Rightarrow> val" where
  "day_body perm now d sessions existing = json_val (Obj (fst (day_merge perm now d sessions existing)))"

text \<open>\<^verbatim>\<open>buildResult\<close>, as the fields of the result.\<close>

definition day_result :: "archive \<Rightarrow> string \<Rightarrow> day_key \<Rightarrow> val list \<times> float64 \<times> int \<Rightarrow> obj" where
  "day_result a key d r =
     (case r of (apps, totalS, n) \<Rightarrow>
        [(''bucket'', Str (ar_bucket a)), (''key'', Str key), (''date'', Str (dk_date d)), (''username'', Str (dk_user d)),
         (''total_seconds'', F64 totalS), (''top_apps'', Arr (take 10 apps)), (''session_count'', Int_v n)])"

text \<open>\<^verbatim>\<open>readObject\<close>: the document with its tag; a body that is no JSON object is an error, \<^verbatim>\<open>null\<close> a nil map.\<close>

definition readObject :: "'w s3 \<Rightarrow> string \<Rightarrow> 'w \<Rightarrow> (obj option \<times> string option) option \<times> 'w" where
  "readObject c key w =
     (case s3_get c key w of
        (Found (Some (Obj m)) e, w1) \<Rightarrow> (Some (Some m, Some e), w1)
      | (Found (Some Nil_v) e, w1) \<Rightarrow> (Some (None, Some e), w1)
      | (No_such_key, w1) \<Rightarrow> (Some (None, None), w1)
      | (_, w1) \<Rightarrow> (None, w1))"

definition lost_race :: "string \<Rightarrow> bool" where
  "lost_race code \<longleftrightarrow> code \<in> {''PreconditionFailed'', ''ConditionalRequestConflict''}"

text \<open>The error codes after which the write is repeated without its condition; the empty one is a failure
  without an S3 error code.\<close>

definition plain_write_after :: "string \<Rightarrow> bool" where
  "plain_write_after code \<longleftrightarrow> code \<in> {[], ''NotImplemented'', ''MethodNotAllowed'', ''InvalidRequest'', ''InvalidArgument''}"

fun day_attempts :: "'w s3 \<Rightarrow> archive \<Rightarrow> (val list \<Rightarrow> val list) \<Rightarrow> gotime \<Rightarrow> string \<Rightarrow> day_key \<Rightarrow> val list \<Rightarrow> nat \<Rightarrow> 'w \<Rightarrow> obj archived \<times> 'w" where
  "day_attempts c a perm now key d sessions 0 w = (Archive_error, w)"
| "day_attempts c a perm now key d sessions (Suc n) w =
     (case readObject c key w of
        (None, w1) \<Rightarrow> (Archive_error, w1)
      | (Some (existing, etag), w1) \<Rightarrow>
          (let r = snd (day_merge perm now d sessions existing); body = day_body perm now d sessions existing
           in (case s3_put c key body (case etag of Some e \<Rightarrow> If_match e | None \<Rightarrow> If_none_match) w1 of
                 (None, w2) \<Rightarrow> (Archived (day_result a key d r), w2)
               | (Some code, w2) \<Rightarrow>
                   if lost_race code then day_attempts c a perm now key d sessions n w2
                   else if \<not> plain_write_after code then (Archive_error, w2)
                   else (case s3_put c key body Always w2 of
                           (None, w3) \<Rightarrow> (Archived (day_result a key d r), w3)
                         | (Some _, w3) \<Rightarrow> (Archive_error, w3)))))"

definition maxWriteAttempts :: nat where "maxWriteAttempts = 3"

definition day_key_of :: "gotime \<Rightarrow> string \<Rightarrow> obj \<Rightarrow> day_key" where
  "day_key_of now deviceID payload =
     (let eventTime = payloadTime now (get payload ''timestamp'')
      in \<lparr>dk_device = deviceID, dk_user = activityUsername payload, dk_date = date_str eventTime, dk_loc = off eventTime\<rparr>)"

definition day_object_key :: "archive \<Rightarrow> gotime \<Rightarrow> day_key \<Rightarrow> string" where
  "day_object_key a now d = dailyActivityS3Key now (ar_prefix a) (dk_device d) (dk_user d) (dk_date d)"

definition activity_Archive :: "'w s3 \<Rightarrow> archive \<Rightarrow> (val list \<Rightarrow> val list) \<Rightarrow> gotime \<Rightarrow> string \<Rightarrow> obj \<Rightarrow> 'w \<Rightarrow> obj archived \<times> 'w" where
  "activity_Archive c a perm now deviceID payload w =
     (let sessions = extractFocusSessions now payload; d = day_key_of now deviceID payload
      in if sessions = [] then (Skipped, w)
         else day_attempts c a perm now (day_object_key a now d) d sessions maxWriteAttempts w)"

subsection \<open>A write is an atomic step\<close>

text \<open>What a merge starts from: the document of a version.\<close>

definition version_doc :: "(string \<times> val) option \<Rightarrow> obj option" where
  "version_doc v = (case v of Some (_, Obj m) \<Rightarrow> Some m | _ \<Rightarrow> None)"

text \<open>Somewhere between the two worlds the document was replaced by its merge with the new sessions.\<close>

definition merged_atomically :: "(string \<Rightarrow> 'w \<Rightarrow> version_log) \<Rightarrow> string \<Rightarrow> (obj option \<Rightarrow> val) \<Rightarrow> 'w \<Rightarrow> 'w \<Rightarrow> bool" where
  "merged_atomically versions k f w w' \<longleftrightarrow> (\<exists>a e b. versions k w' = versions k w @ a @ [Some (e, f (version_doc (current (versions k w @ a))))] @ b)"

text \<open>The store implements conditional writes: a failed one fails with an S3 error that is not a refusal of the condition.\<close>

definition conditional_writes :: "'w s3 \<Rightarrow> bool" where
  "conditional_writes c \<longleftrightarrow> (\<forall>k v cond w code w'. s3_put c k v cond w = (Some code, w') \<longrightarrow> cond \<noteq> Always \<longrightarrow> \<not> plain_write_after code)"

lemma current_mem: "current vs = Some x \<Longrightarrow> Some x \<in> set vs"
  using last_in_set by (fastforce simp: current_def split: if_splits)

lemma read_version:
  assumes "get_law c versions" "readObject c key w = (Some (existing, etag), w1)"
  shows "\<exists>a b. versions key w1 = versions key w @ a @ b
    \<and> (case etag of None \<Rightarrow> existing = None \<and> current (versions key w @ a) = None
       | Some e \<Rightarrow> \<exists>u. current (versions key w @ a) = Some (e, u) \<and> existing = version_doc (Some (e, u)))"
proof -
  obtain r w2 where g: "s3_get c key w = (r, w2)" by (meson surj_pair)
  then obtain a b where l: "versions key w2 = versions key w @ a @ b"
    "case r of Found v e \<Rightarrow> \<exists>u. current (versions key w @ a) = Some (e, u) \<and> (v = None \<or> v = Some u)
        | No_such_key \<Rightarrow> current (versions key w @ a) = None | Read_error \<Rightarrow> True"
    using assms(1) unfolding get_law_def by blast
  have "w1 = w2" using assms(2) g by (auto simp: readObject_def split: read_result.splits option.splits val.splits)
  moreover have "case etag of None \<Rightarrow> existing = None \<and> current (versions key w @ a) = None
       | Some e \<Rightarrow> \<exists>u. current (versions key w @ a) = Some (e, u) \<and> existing = version_doc (Some (e, u))"
    using assms(2) g l(2) by (auto simp: readObject_def version_doc_def split: read_result.splits option.splits val.splits)
  ultimately show ?thesis using l(1) by blast
qed

lemma put_after_read:
  assumes laws: "version_laws c versions" and r: "readObject c key w = (Some (existing, etag), w1)"
    and p: "s3_put c key (f existing) (case etag of Some e \<Rightarrow> If_match e | None \<Rightarrow> If_none_match) w1 = (None, w2)"
  shows "merged_atomically versions key f w w2"
proof -
  obtain a b where v: "versions key w1 = versions key w @ a @ b"
    "case etag of None \<Rightarrow> existing = None \<and> current (versions key w @ a) = None
       | Some e \<Rightarrow> \<exists>u. current (versions key w @ a) = Some (e, u) \<and> existing = version_doc (Some (e, u))"
    using read_version [OF _ r] laws unfolding version_laws_def by blast
  obtain a2 b2 e2 where q: "versions key w2 = versions key w1 @ a2 @ [Some (e2, f existing)] @ b2"
    "case etag of None \<Rightarrow> current (versions key w1 @ a2) = None | Some e \<Rightarrow> \<exists>u. current (versions key w1 @ a2) = Some (e, u)"
    using laws p unfolding version_laws_def put_law_def by (cases etag) fastforce+
  have "existing = version_doc (current (versions key w @ (a @ b @ a2)))"
  proof (cases etag)
    case None
    then show ?thesis using v q(2) by (simp add: version_doc_def)
  next
    case (Some e)
    obtain u where u: "current (versions key w @ a) = Some (e, u)" "existing = version_doc (Some (e, u))" using v(2) Some by auto
    obtain u' where u': "current (versions key w @ a @ b @ a2) = Some (e, u')" using v(1) q(2) Some by auto
    have "Some (e, u) \<in> set (versions key w2)" "Some (e, u') \<in> set (versions key w2)"
      using current_mem [OF u(1)] current_mem [OF u'] unfolding q(1) v(1) by auto
    then have "u = u'" using laws unfolding version_laws_def tag_law_def by blast
    then show ?thesis using u u' by simp
  qed
  then show ?thesis using v(1) q(1) unfolding merged_atomically_def
    by (intro exI [of _ "a @ b @ a2"] exI [of _ e2] exI [of _ b2]) simp
qed

lemma put_grows:
  assumes "version_laws c versions" "s3_put c key v cond w = (r, w')"
  shows "\<exists>a. versions key w' = versions key w @ a"
proof (cases r)
  case None
  then show ?thesis using assms unfolding version_laws_def put_law_def by fastforce
next
  case (Some code)
  then show ?thesis using assms unfolding version_laws_def put_law_def by fastforce
qed

lemma day_attempts_atomic:
  assumes laws: "version_laws c versions" and cw: "conditional_writes c"
    and "day_attempts c a perm now key d sessions n w = (Archived res, w')"
  shows "merged_atomically versions key (day_body perm now d sessions) w w'"
  using assms(3)
proof (induction n arbitrary: w)
  case (Suc n)
  obtain x w1 where r0: "readObject c key w = (x, w1)" by (meson surj_pair)
  then obtain existing etag where r: "readObject c key w = (Some (existing, etag), w1)" using Suc.prems by (cases x) auto
  obtain res1 w2 where p: "s3_put c key (day_body perm now d sessions existing) (case etag of Some e \<Rightarrow> If_match e | None \<Rightarrow> If_none_match) w1 = (res1, w2)"
    by (meson surj_pair)
  show ?case
  proof (cases res1)
    case None
    then have "w2 = w'" using Suc.prems r p by (simp add: Let_def)
    then show ?thesis using put_after_read [OF laws r, of "day_body perm now d sessions"] p None by simp
  next
    case (Some code)
    have "\<not> plain_write_after code" using cw p Some unfolding conditional_writes_def by (cases etag) (simp, metis condition.distinct)+
    then have n: "day_attempts c a perm now key d sessions n w2 = (Archived res, w')"
      using Suc.prems r p Some by (simp add: Let_def split: if_splits)
    obtain g where g: "versions key w2 = versions key w @ g"
      using read_version [OF _ r] put_grows [OF laws p] laws unfolding version_laws_def by (metis append_assoc)
    obtain a2 e b where "versions key w' = versions key w2 @ a2 @ [Some (e, day_body perm now d sessions (version_doc (current (versions key w2 @ a2))))] @ b"
      using Suc.IH [OF n] unfolding merged_atomically_def by blast
    then show ?thesis unfolding merged_atomically_def g append_assoc by (metis append_assoc)
  qed
qed simp
subsection \<open>The sessions of a version\<close>

definition version_sessions :: "(string \<times> val) option \<Rightarrow> val list" where
  "version_sessions v = (case version_doc v of Some m \<Rightarrow> appendInterfaceSlice (get m ''sessions'') [] | None \<Rightarrow> [])"

lemma get_json: "get (map (\<lambda>(k, v). (k, json_val v)) m) k = json_val (get m k)"
  by (induction m) auto

lemma json_session_entry: "json_val (Obj (session_entry a s e dev user)) = Obj (session_entry a s e dev user)"
  by (simp add: session_entry_def)

lemma json_normalized:
  assumes "parse_date_in date loc = Some d0" "ordinary_day d0"
  shows "map json_val (normalizeActivitySessions sessions date loc) = normalizeActivitySessions sessions date loc"
  unfolding normalize_intervals [OF assms] by (simp add: interval_entry_def json_session_entry del: json_val.simps)

lemma day_body_sessions:
  assumes "parse_date_in (dk_date d) (dk_loc d) = Some d0" "ordinary_day d0"
  shows "version_sessions (Some (e, day_body perm now d new prev))
    = normalizeActivitySessions ((case prev of Some m \<Rightarrow> appendInterfaceSlice (get m ''sessions'') [] | None \<Rightarrow> []) @ new) (dk_date d) (dk_loc d)"
  using json_normalized [OF assms]
  by (simp add: version_sessions_def version_doc_def day_body_def day_merge_def Let_def split_beta get_json appendInterfaceSlice_def
      split: option.split)

lemma day_body_covers:
  assumes "parse_date_in (dk_date d) (dk_loc d) = Some d0" "ordinary_day d0" "inst d0 \<le> x" "x < inst d0 + day_ns"
    "raw \<in> set (version_sessions v) \<union> set new" "counts_at raw x"
  shows "\<exists>s \<in> set (version_sessions (Some (e, day_body perm now d new (version_doc v)))). counts_at s x"
proof -
  let ?all = "(case version_doc v of Some m \<Rightarrow> appendInterfaceSlice (get m ''sessions'') [] | None \<Rightarrow> []) @ new"
  have "raw \<in> set ?all" using assms(5) by (auto simp: version_sessions_def)
  then obtain s where "s \<in> set (normalizeActivitySessions ?all (dk_date d) (dk_loc d))" "entry_covers s x"
    using normalize_covers [OF assms(1-4) _ assms(6)] by blast
  then show ?thesis
    unfolding day_body_sessions [OF assms(1,2)] using normalized_counts [OF assms(1,2)] by blast
qed

lemma archive_attempts:
  "activity_Archive c a perm now deviceID payload w = (Archived res, w') \<Longrightarrow>
     day_attempts c a perm now (day_object_key a now (day_key_of now deviceID payload)) (day_key_of now deviceID payload)
       (extractFocusSessions now payload) maxWriteAttempts w = (Archived res, w')"
  by (simp add: activity_Archive_def Let_def split: if_splits)

subsection \<open>What the archive promises\<close>



subsection \<open>A versioned bucket\<close>

text \<open>The bodies written to each key; the tag of a version is its position.\<close>

type_synonym versioned = "string \<Rightarrow> val option list"

definition tag_of :: "nat \<Rightarrow> string" where "tag_of n = replicate n CHR ''v''"

definition log_of :: "string \<Rightarrow> versioned \<Rightarrow> version_log" where
  "log_of k w = map (\<lambda>i. map_option (Pair (tag_of i)) (w k ! i)) [0..<length (w k)]"

definition versioned_s3 :: "versioned s3" where
  "versioned_s3 = \<lparr>
     s3_get = (\<lambda>k w. (case current (log_of k w) of Some (e, v) \<Rightarrow> Found (Some v) e | None \<Rightarrow> No_such_key, w)),
     s3_put = (\<lambda>k v cond w.
        if (case cond of Always \<Rightarrow> True | If_match e \<Rightarrow> map_option fst (current (log_of k w)) = Some e | If_none_match \<Rightarrow> current (log_of k w) = None)
        then (None, w(k := w k @ [Some v])) else (Some ''PreconditionFailed'', w)),
     s3_page = (\<lambda>pre token w. None), s3_delete = (\<lambda>k w. (True, w(k := w k @ [None])))\<rparr>"

lemma log_append: "log_of k (w(k := w k @ [Some v])) = log_of k w @ [Some (tag_of (length (w k)), v)]"
proof -
  have "map (\<lambda>i. map_option (Pair (tag_of i)) ((w k @ [Some v]) ! i)) [0..<length (w k)]
      = map (\<lambda>i. map_option (Pair (tag_of i)) (w k ! i)) [0..<length (w k)]"
    by (rule map_cong) (simp_all add: nth_append)
  then show ?thesis by (simp add: log_of_def)
qed

lemma versioned_laws: "version_laws versioned_s3 log_of"
proof -
  have inj: "tag_of i = tag_of j \<longleftrightarrow> i = j" for i j by (metis length_replicate tag_of_def)
  have "tag_law log_of"
    by (auto simp: tag_law_def log_of_def eq_commute [of "Some _" "map_option _ _"] inj)
  moreover have "get_law versioned_s3 log_of"
    unfolding get_law_def by (auto simp: versioned_s3_def split: option.split intro!: exI [of _ "[]"])
  moreover have "put_law versioned_s3 log_of"
    unfolding put_law_def
  proof (intro allI impI)
    fix k v cond w r w' assume p: "s3_put versioned_s3 k v cond w = (r, w')"
    show "\<exists>a b. case r of None \<Rightarrow> \<exists>e. log_of k w' = log_of k w @ a @ [Some (e, v)] @ b
        \<and> (case cond of Always \<Rightarrow> True | If_match e0 \<Rightarrow> \<exists>u. current (log_of k w @ a) = Some (e0, u)
           | If_none_match \<Rightarrow> current (log_of k w @ a) = None)
      | Some _ \<Rightarrow> log_of k w' = log_of k w @ a"
      by (rule exI [of _ "[]"], rule exI [of _ "[]"])
        (use p in \<open>auto simp: versioned_s3_def log_append split: if_splits option.split condition.splits\<close>)
  qed
  ultimately show ?thesis by (simp add: version_laws_def)
qed

lemma versioned_conditional: "conditional_writes versioned_s3"
  by (auto simp: conditional_writes_def versioned_s3_def plain_write_after_def split: if_splits)
definition sample_report :: obj where
  "sample_report = [(''timestamp'', Str ''2024-03-01T00:20:00Z''), (''username'', Str ''ada''),
     (''data'', Obj [(''ActiveWindowTracker'', Obj [(''sessions'', Arr
        [Obj [(''app_name'', Str ''Slack''), (''start_time'', Str ''2024-03-01T00:05:00Z''), (''end_time'', Str ''2024-03-01T00:19:00Z''), (''duration_seconds'', F64 840)]])])])]"

definition sample_store :: archive where "sample_store = \<lparr>ar_bucket = ''b'', ar_prefix = ''app-usage''\<rparr>"

definition sample_now :: gotime where "sample_now = add sample_day (20 * minute_ns)"

lemma sample_sessions_extracted: "extractFocusSessions sample_now sample_report \<noteq> []"
  by code_simp

lemma versioned_first_write: "w key = [] \<Longrightarrow> \<exists>w'. day_attempts versioned_s3 a perm now key d sessions maxWriteAttempts w = (Archived (day_result a key d (snd (day_merge perm now d sessions None))), w')"
  by (simp add: maxWriteAttempts_def numeral_3_eq_3 readObject_def versioned_s3_def log_of_def current_def Let_def)

lemma sample_archived: "\<exists>res w'. activity_Archive versioned_s3 sample_store rev sample_now ''d1'' sample_report (\<lambda>_. []) = (Archived res, w')"
  using versioned_first_write [of "\<lambda>_. []"] sample_sessions_extracted unfolding activity_Archive_def Let_def by (metis (full_types))



end
