(* ===== verification/BrowserArchive.thy ===== *)
theory BrowserArchive
  imports ObjectStore GoUrl RateLimiter Policy "HOL-Library.Multiset"
begin

text \<open>
  The S3 archive of browser history: which reported entries are archived, the objects they are put into,
  reading them back and counting them. Objects are grouped by the day of the visit. Go's map
  iteration has no fixed order: \<open>perm\<close> and \<open>order\<close> stand for the order of an iteration. The keys of
  an entry are compared after \<^verbatim>\<open>strings.ToLower\<close> of bytes.
\<close>

subsection \<open>Entries\<close>

definition normalizedBrowserHistoryURL :: "string \<Rightarrow> string" where
  "normalizedBrowserHistoryURL raw =
     (case url_parse raw of
        None \<Rightarrow> to_lower (trim_space raw)
      | Some u \<Rightarrow> if u_host u = [] then to_lower (trim_space raw) else to_lower (u_host u @ u_path u))"

definition browserHistoryDedupeKey :: "obj \<Rightarrow> string" where
  "browserHistoryDedupeKey entry =
     (let url = str_of (get entry ''url''); title = str_of (get entry ''title''); browser = str_of (get entry ''browser'')
      in if url = [] then []
         else let identity = trim_space (to_lower title)
              in to_lower browser @ ''|'' @ (if identity = [] then normalizedBrowserHistoryURL url else identity))"

definition browserHistoryVisitNanos :: "val \<Rightarrow> int" where
  "browserHistoryVisitNanos entry =
     (case as_obj entry of None \<Rightarrow> 0
      | Some m \<Rightarrow> (case toFloat (get m ''last_visit_time'') of None \<Rightarrow> 0 | Some v \<Rightarrow> f2i v))"

definition browserHistoryEntryVisitTime :: "val \<Rightarrow> gotime \<Rightarrow> gotime" where
  "browserHistoryEntryVisitTime entry fallback =
     (if browserHistoryVisitNanos entry \<le> 0 then utc fallback else \<lparr>inst = browserHistoryVisitNanos entry, off = 0\<rparr>)"

text \<open>The loop of \<^verbatim>\<open>appendBrowserHistoryEntries\<close> over \<open>(entries, seen)\<close>.\<close>

definition append_entry :: "val list \<times> string set \<Rightarrow> val \<Rightarrow> val list \<times> string set" where
  "append_entry acc entry =
     (let key = (case as_obj entry of Some m \<Rightarrow> browserHistoryDedupeKey m | None \<Rightarrow> [])
      in if key \<noteq> [] \<and> key \<in> snd acc then acc
         else (fst acc @ [entry], if key \<noteq> [] then insert key (snd acc) else snd acc))"

definition appendBrowserHistoryEntries :: "val list \<times> string set \<Rightarrow> val \<Rightarrow> val list \<times> string set" where
  "appendBrowserHistoryEntries acc raw = (case as_arr raw of None \<Rightarrow> acc | Some items \<Rightarrow> foldl append_entry acc items)"

definition payload_browser :: "obj \<Rightarrow> obj option" where
  "payload_browser payload = Option.bind (as_obj (get payload ''data'')) (\<lambda>data. as_obj (get data ''BrowserHistory''))"

definition extractNewBrowserHistoryEntries :: "obj \<Rightarrow> obj \<times> val list" where
  "extractNewBrowserHistoryEntries payload =
     (case payload_browser payload of None \<Rightarrow> ([], [])
      | Some b \<Rightarrow> (b, fst (appendBrowserHistoryEntries ([], {}) (get b ''new_history_entries''))))"

text \<open>Both functions write through the maps of the payload.\<close>

definition set_browser :: "(obj \<Rightarrow> obj) \<Rightarrow> obj \<Rightarrow> obj" where
  "set_browser f payload =
     (case as_obj (get payload ''data'') of None \<Rightarrow> payload
      | Some data \<Rightarrow> (case as_obj (get data ''BrowserHistory'') of None \<Rightarrow> payload
          | Some b \<Rightarrow> al_upd ''data'' (Obj (al_upd ''BrowserHistory'' (Obj (f b)) data)) payload))"

definition dropBrowserRecentSnapshot :: "obj \<Rightarrow> obj" where
  "dropBrowserRecentSnapshot = set_browser (al_del ''top_recent_urls'')"

definition pruneArchivedBrowserHistory :: "obj \<Rightarrow> obj \<Rightarrow> obj" where
  "pruneArchivedBrowserHistory result =
     set_browser (\<lambda>b. al_upd ''archive'' (Ptr_v result) (al_del ''top_recent_urls'' (al_del ''new_history_entries'' b)))"

subsection \<open>Archiving\<close>

definition visit_day :: "gotime \<Rightarrow> val \<Rightarrow> string" where
  "visit_day eventTime entry = date_str (browserHistoryEntryVisitTime entry eventTime)"

definition group_entry :: "gotime \<Rightarrow> (string \<times> val list) list \<Rightarrow> val \<Rightarrow> (string \<times> val list) list" where
  "group_entry eventTime groups entry =
     (let day = visit_day eventTime entry
      in al_upd day ((case map_of groups day of Some g \<Rightarrow> g | None \<Rightarrow> []) @ [entry]) groups)"

definition browser_groups :: "gotime \<Rightarrow> val list \<Rightarrow> (string \<times> val list) list" where
  "browser_groups eventTime = foldl (group_entry eventTime) []"

definition browser_object :: "string \<Rightarrow> obj \<Rightarrow> string \<Rightarrow> val list \<Rightarrow> val" where
  "browser_object deviceID payload syncType es =
     json_val (Obj [(''device_id'', Str deviceID), (''timestamp'', get payload ''timestamp''), (''ingested_at'', get payload ''ingested_at''),
       (''sync_type'', Str syncType), (''entry_count'', Int_v (int (length es))), (''entries'', Arr es)])"

definition browser_key :: "(val \<Rightarrow> string) \<Rightarrow> archive \<Rightarrow> string \<Rightarrow> gotime \<Rightarrow> string \<Rightarrow> val \<Rightarrow> string" where
  "browser_key digest a deviceID eventTime day body =
     device_prefix a deviceID @ ''date='' @ day @ ''/'' @ compact_str (utc eventTime) @ ''-'' @ digest body @ ''.json''"

fun put_groups :: "'w s3 \<Rightarrow> (val \<Rightarrow> string) \<Rightarrow> archive \<Rightarrow> string \<Rightarrow> obj \<Rightarrow> string \<Rightarrow> gotime
    \<Rightarrow> (string \<times> val list) list \<Rightarrow> string list \<Rightarrow> 'w \<Rightarrow> string list option \<times> 'w" where
  "put_groups c digest a deviceID payload syncType eventTime [] keys w = (Some keys, w)"
| "put_groups c digest a deviceID payload syncType eventTime ((day, es) # gs) keys w =
     (let body = browser_object deviceID payload syncType es; key = browser_key digest a deviceID eventTime day body
      in (case s3_put c key body Always w of
            (None, w1) \<Rightarrow> put_groups c digest a deviceID payload syncType eventTime gs (keys @ [key]) w1
          | (Some _, w1) \<Rightarrow> (None, w1)))"

definition browser_result :: "archive \<Rightarrow> string list \<Rightarrow> int \<Rightarrow> obj" where
  "browser_result a keys n =
     [(''bucket'', Str (ar_bucket a))] @ (if keys = [] \<or> hd keys = [] then [] else [(''key'', Str (hd keys))])
     @ [(''keys'', Arr (map Str keys)), (''entry_count'', Int_v n)]"

definition browser_Archive ::
  "'w s3 \<Rightarrow> (val \<Rightarrow> string) \<Rightarrow> archive \<Rightarrow> ((string \<times> val list) list \<Rightarrow> (string \<times> val list) list) \<Rightarrow> gotime
     \<Rightarrow> string \<Rightarrow> obj \<Rightarrow> 'w \<Rightarrow> obj archived \<times> 'w" where
  "browser_Archive c digest a perm now deviceID payload w =
     (case extractNewBrowserHistoryEntries payload of (b, entries) \<Rightarrow>
        if entries = [] then (Skipped, w)
        else
          (let eventTime = payloadTime now (get payload ''timestamp'')
           in (case put_groups c digest a deviceID payload (str_of (get b ''sync_type'')) eventTime (perm (browser_groups eventTime entries)) [] w of
                 (None, w1) \<Rightarrow> (Archive_error, w1)
               | (Some keys, w1) \<Rightarrow> (Archived (browser_result a (sort keys) (int (length entries))), w1))))"

subsection \<open>Reading back\<close>

definition startOfDay :: "gotime \<Rightarrow> gotime" where
  "startOfDay t = t\<lparr>inst := local_ns t div day_ns * day_ns - off t * ns_per_s\<rparr>"

text \<open>The decoder's struct: entry count and entries; \<open>None\<close> when a field has another type.\<close>

fun decode_archive :: "val \<Rightarrow> (int \<times> val list) option" where
  "decode_archive Nil_v = Some (0, [])"
| "decode_archive (Obj m) =
     (if \<not> (\<forall>k \<in> {''device_id'', ''sync_type''}. get m k = Nil_v \<or> as_str (get m k) \<noteq> None) then None
      else
        Option.bind (case get m ''entry_count'' of
           Nil_v \<Rightarrow> Some 0
         | F64 x \<Rightarrow> if x = of_int (floor x) \<and> in_i64 (floor x) then Some (floor x) else None
         | _ \<Rightarrow> None) (\<lambda>n. map_option (Pair n) (case get m ''entries'' of Nil_v \<Rightarrow> Some [] | Arr xs \<Rightarrow> Some xs | _ \<Rightarrow> None)))"
| "decode_archive _ = None"

definition read_archive_object :: "'w s3 \<Rightarrow> string \<Rightarrow> 'w \<Rightarrow> (int \<times> val list) option \<times> 'w" where
  "read_archive_object c key w =
     (case s3_get c key w of
        (Found (Some v) _, w1) \<Rightarrow> (decode_archive v, w1)
      | (_, w1) \<Rightarrow> (None, w1))"

text \<open>What \<^verbatim>\<open>ReadEntries\<close> collects: entries without a key, and per key the latest visit.\<close>

record history_state =
  hs_plain :: "val list"
  hs_latest :: "(string \<times> int \<times> val) list"

definition read_entry :: "gotime \<Rightarrow> gotime \<Rightarrow> history_state \<Rightarrow> val \<Rightarrow> history_state" where
  "read_entry from until st entry =
     (case as_obj entry of None \<Rightarrow> st
      | Some m \<Rightarrow> (case toFloat (get m ''last_visit_time'') of None \<Rightarrow> st
          | Some v \<Rightarrow>
              let n = f2i v; visit = \<lparr>inst = n, off = 0\<rparr>; key = browserHistoryDedupeKey m
              in if before visit from \<or> after visit until then st
                 else if key = [] then st\<lparr>hs_plain := hs_plain st @ [entry]\<rparr>
                 else (case map_of (hs_latest st) key of
                         Some (x, _) \<Rightarrow> if x \<ge> n then st else st\<lparr>hs_latest := al_upd key (n, entry) (hs_latest st)\<rparr>
                       | None \<Rightarrow> st\<lparr>hs_latest := al_upd key (n, entry) (hs_latest st)\<rparr>)))"

fun read_page :: "'w s3 \<Rightarrow> gotime \<Rightarrow> gotime \<Rightarrow> s3_object list \<Rightarrow> history_state \<times> 'w \<Rightarrow> history_state option \<times> 'w" where
  "read_page c from until [] (st, w) = (Some st, w)"
| "read_page c from until (x # xs) (st, w) =
     (case read_archive_object c (so_key x) w of
        (None, w1) \<Rightarrow> (None, w1)
      | (Some (_, entries), w1) \<Rightarrow> read_page c from until xs (foldl (read_entry from until) st entries, w1))"

partial_function (option) read_pages ::
  "'w s3 \<Rightarrow> gotime \<Rightarrow> gotime \<Rightarrow> string \<Rightarrow> string option \<Rightarrow> history_state \<times> 'w \<Rightarrow> (history_state option \<times> 'w) option" where
  [code]: "read_pages c from until pre token sw =
     (case s3_page c pre token (snd sw) of
        None \<Rightarrow> Some (None, snd sw)
      | Some (xs, nxt) \<Rightarrow>
          (case read_page c from until xs sw of
             (None, w1) \<Rightarrow> Some (None, w1)
           | (Some st, w1) \<Rightarrow> if nxt = None then Some (Some st, w1) else read_pages c from until pre nxt (st, w1)))"

definition day_prefix :: "archive \<Rightarrow> string \<Rightarrow> gotime \<Rightarrow> string" where
  "day_prefix a deviceID day = device_prefix a deviceID @ ''date='' @ date_str day @ ''/''"

text \<open>The loop over the days.\<close>

function days_between :: "gotime \<Rightarrow> gotime \<Rightarrow> gotime list" where
  "days_between day last_day = (if after day last_day then [] else day # days_between (add day day_ns) last_day)"
  by pat_completeness auto
termination
  by (relation "measure (\<lambda>(d, l). nat (inst l - inst d + 1))") (auto simp: after_def ns_units)

declare days_between.simps [simp del]

fun read_days :: "'w s3 \<Rightarrow> archive \<Rightarrow> string \<Rightarrow> gotime \<Rightarrow> gotime \<Rightarrow> gotime list \<Rightarrow> history_state \<times> 'w \<Rightarrow> (history_state option \<times> 'w) option" where
  "read_days c a deviceID from until [] (st, w) = Some (Some st, w)"
| "read_days c a deviceID from until (d # ds) sw =
     (case read_pages c from until (day_prefix a deviceID d) None sw of
        None \<Rightarrow> None
      | Some (None, w1) \<Rightarrow> Some (None, w1)
      | Some (Some st, w1) \<Rightarrow> read_days c a deviceID from until ds (st, w1))"

definition history_entries :: "(val list \<Rightarrow> val list) \<Rightarrow> int \<Rightarrow> history_state \<Rightarrow> val list" where
  "history_entries order limit st =
     (let entries = sort_key (\<lambda>e. - browserHistoryVisitNanos e) (order (hs_plain st @ map (\<lambda>(_, _, e). e) (hs_latest st)))
      in if limit > 0 \<and> int (length entries) > limit then take (nat limit) entries else entries)"

definition ReadEntries ::
  "'w s3 \<Rightarrow> archive \<Rightarrow> (val list \<Rightarrow> val list) \<Rightarrow> string \<Rightarrow> gotime \<Rightarrow> gotime \<Rightarrow> int \<Rightarrow> 'w \<Rightarrow> (val list option \<times> 'w) option" where
  "ReadEntries c a order deviceID from until limit w =
     map_option (\<lambda>(st, w1). (map_option (history_entries order limit) st, w1))
       (read_days c a deviceID from until (days_between (startOfDay from) (startOfDay until)) (\<lparr>hs_plain = [], hs_latest = []\<rparr>, w))"
subsection \<open>Counting\<close>

partial_function (option) list_keys :: "'w s3 \<Rightarrow> string \<Rightarrow> string option \<Rightarrow> string list \<Rightarrow> 'w \<Rightarrow> string list option option" where
  [code]: "list_keys c pre token keys w =
     (case s3_page c pre token w of
        None \<Rightarrow> Some None
      | Some (xs, nxt) \<Rightarrow>
          (let keys1 = keys @ map so_key xs
           in if nxt = None then Some (Some keys1) else list_keys c pre nxt keys1 w))"

fun list_days :: "'w s3 \<Rightarrow> archive \<Rightarrow> string \<Rightarrow> gotime list \<Rightarrow> string list \<Rightarrow> 'w \<Rightarrow> string list option option" where
  "list_days c a deviceID [] keys w = Some (Some keys)"
| "list_days c a deviceID (d # ds) keys w =
     (case list_keys c (day_prefix a deviceID d) None keys w of
        Some (Some keys1) \<Rightarrow> list_days c a deviceID ds keys1 w
      | r \<Rightarrow> r)"

definition object_count :: "int \<times> val list \<Rightarrow> int" where
  "object_count r = (case r of (n, entries) \<Rightarrow> if n = 0 \<and> entries \<noteq> [] then int (length entries) else n)"

text \<open>The workers, over the keys they read, in the order in which they read them: after a failure the feeding of
  further keys stops at some point, but what was counted so far is returned with the error.\<close>

fun count_keys :: "'w s3 \<Rightarrow> string list \<Rightarrow> bool \<times> int \<Rightarrow> 'w \<Rightarrow> (bool \<times> int) \<times> 'w" where
  "count_keys c [] acc w = (acc, w)"
| "count_keys c (k # ks) (ok, n) w =
     (case read_archive_object c k w of
        (None, w1) \<Rightarrow> count_keys c ks (False, n) w1
      | (Some r, w1) \<Rightarrow> count_keys c ks (ok, i64 (n + object_count r)) w1)"

definition CountEntries :: "'w s3 \<Rightarrow> archive \<Rightarrow> (string list \<Rightarrow> string list) \<Rightarrow> string \<Rightarrow> gotime \<Rightarrow> gotime \<Rightarrow> 'w \<Rightarrow> ((bool \<times> int) \<times> 'w) option" where
  "CountEntries c a order deviceID from until w =
     (case list_days c a deviceID (days_between (startOfDay from) (startOfDay until)) [] w of
        None \<Rightarrow> None
      | Some None \<Rightarrow> Some ((False, 0), w)
      | Some (Some keys) \<Rightarrow> Some (count_keys c (order keys) (True, 0) w))"

subsection \<open>What a scan collects\<close>

text \<open>An entry the scan counts: a visit inside the range.\<close>

definition in_range :: "gotime \<Rightarrow> gotime \<Rightarrow> val \<Rightarrow> bool" where
  "in_range from until entry \<longleftrightarrow>
     (case as_obj entry of None \<Rightarrow> False
      | Some m \<Rightarrow> toFloat (get m ''last_visit_time'') \<noteq> None
          \<and> inst from \<le> browserHistoryVisitNanos entry \<and> browserHistoryVisitNanos entry \<le> inst until)"

definition entry_key :: "val \<Rightarrow> string" where
  "entry_key entry = (case as_obj entry of Some m \<Rightarrow> browserHistoryDedupeKey m | None \<Rightarrow> [])"

lemma read_entry_cases:
  "read_entry from until st entry =
     (if \<not> in_range from until entry then st
      else if entry_key entry = [] then st\<lparr>hs_plain := hs_plain st @ [entry]\<rparr>
      else (case map_of (hs_latest st) (entry_key entry) of
              Some (x, _) \<Rightarrow> if x \<ge> browserHistoryVisitNanos entry then st
                else st\<lparr>hs_latest := al_upd (entry_key entry) (browserHistoryVisitNanos entry, entry) (hs_latest st)\<rparr>
            | None \<Rightarrow> st\<lparr>hs_latest := al_upd (entry_key entry) (browserHistoryVisitNanos entry, entry) (hs_latest st)\<rparr>))"
  by (auto simp: read_entry_def in_range_def entry_key_def browserHistoryVisitNanos_def before_def after_def Let_def split: option.split)

text \<open>The collected state after the entries \<open>es\<close>: entries without a key as they came, and per key one latest visit.\<close>

definition collected_from :: "gotime \<Rightarrow> gotime \<Rightarrow> val list \<Rightarrow> history_state \<Rightarrow> bool" where
  "collected_from from until es st \<longleftrightarrow>
     hs_plain st = filter (\<lambda>e. in_range from until e \<and> entry_key e = []) es
     \<and> distinct (map fst (hs_latest st))
     \<and> (\<forall>(k, n, e) \<in> set (hs_latest st). e \<in> set es \<and> in_range from until e \<and> entry_key e = k \<and> k \<noteq> [] \<and> n = browserHistoryVisitNanos e)
     \<and> (\<forall>e \<in> set es. in_range from until e \<longrightarrow> entry_key e \<noteq> [] \<longrightarrow>
          (\<exists>n e'. map_of (hs_latest st) (entry_key e) = Some (n, e') \<and> browserHistoryVisitNanos e \<le> n))"

lemma set_al_upd: "set (al_upd k v m) \<subseteq> insert (k, v) (set m)"
  by (induction k v m rule: al_upd.induct) auto

lemma collected_step:
  assumes "collected_from from until es st"
  shows "collected_from from until (es @ [x]) (read_entry from until st x)"
proof (cases "in_range from until x \<and> entry_key x \<noteq> []")
  case False
  then show ?thesis using assms by (cases "in_range from until x") (auto simp: collected_from_def read_entry_cases)
next
  case True
  let ?k = "entry_key x" and ?n = "browserHistoryVisitNanos x"
  define keep where "keep = (\<exists>y e. map_of (hs_latest st) ?k = Some (y, e) \<and> ?n \<le> y)"
  have r: "read_entry from until st x = (if keep then st else st\<lparr>hs_latest := al_upd ?k (?n, x) (hs_latest st)\<rparr>)"
    using True by (auto simp: read_entry_cases keep_def split: option.splits)
  show ?thesis
  proof (cases keep)
    case keep: True
    then show ?thesis using assms True unfolding r by (auto simp: collected_from_def keep_def)
  next
    case keep: False
    have set: "set (al_upd ?k (?n, x) (hs_latest st)) \<subseteq> insert (?k, ?n, x) (set (hs_latest st))"
      by (rule set_al_upd)
    have new: "\<exists>n e'. map_of (al_upd ?k (?n, x) (hs_latest st)) (entry_key e) = Some (n, e') \<and> browserHistoryVisitNanos e \<le> n"
      if "e \<in> set es \<or> e = x" "in_range from until e" "entry_key e \<noteq> []" for e
    proof (cases "entry_key e = ?k")
      case True
      have "browserHistoryVisitNanos e \<le> ?n"
        using that assms True keep unfolding collected_from_def keep_def by (metis linear order_trans)
      then show ?thesis using True by simp
    next
      case False
      then show ?thesis using that assms unfolding collected_from_def by auto
    qed
    show ?thesis using assms True keep set new unfolding r collected_from_def by auto
  qed
qed

lemma collected_all: "collected_from from until es (foldl (read_entry from until) \<lparr>hs_plain = [], hs_latest = []\<rparr> es)"
proof (induction es rule: rev_induct)
  case Nil
  show ?case by (simp add: collected_from_def)
next
  case (snoc x xs)
  then show ?case using collected_step by simp
qed
subsection \<open>What a scan reads\<close>

text \<open>Reading changes nothing, and an object is what was stored.\<close>

definition reads_law :: "'w s3 \<Rightarrow> ('w \<Rightarrow> string \<Rightarrow> val option) \<Rightarrow> bool" where
  "reads_law c content \<longleftrightarrow> (\<forall>k w r w'. s3_get c k w = (r, w') \<longrightarrow>
     w' = w \<and> (case r of Found (Some v) e \<Rightarrow> content w k = Some v | _ \<Rightarrow> True))"

definition object_entries :: "('w \<Rightarrow> string \<Rightarrow> val option) \<Rightarrow> 'w \<Rightarrow> string \<Rightarrow> val list" where
  "object_entries content w k = (case Option.bind (content w k) decode_archive of Some (_, es) \<Rightarrow> es | None \<Rightarrow> [])"

lemma read_object:
  assumes "reads_law c content" "read_archive_object c k w = (r, w')"
  shows "w' = w" "r = Some (n, es) \<Longrightarrow> object_entries content w k = es"
proof -
  obtain g w1 where g: "s3_get c k w = (g, w1)" by (meson surj_pair)
  have l: "w1 = w" "case g of Found (Some v) e \<Rightarrow> content w k = Some v | _ \<Rightarrow> True"
    using assms(1) g unfolding reads_law_def by blast+
  show "w' = w" using assms(2) g l(1) by (auto simp: read_archive_object_def split: read_result.splits option.splits)
  show "object_entries content w k = es" if "r = Some (n, es)"
    using assms(2) g l that by (auto simp: read_archive_object_def object_entries_def split: read_result.splits option.splits)
qed

lemma read_page_run:
  assumes "reads_law c content"
  shows "\<exists>res. read_page c from until xs (st, w) = (res, w)
    \<and> (\<forall>st'. res = Some st' \<longrightarrow> st' = foldl (read_entry from until) st (concat (map (object_entries content w) (map so_key xs))))"
proof (induction xs arbitrary: st)
  case (Cons x xs)
  obtain r w1 where r: "read_archive_object c (so_key x) w = (r, w1)" by (meson surj_pair)
  have w1: "w1 = w" by (rule read_object(1) [OF assms r])
  show ?case
  proof (cases r)
    case (Some p)
    then obtain n es where p: "r = Some (n, es)" by (cases p) auto
    show ?thesis using Cons.IH r w1 p read_object(2) [OF assms r p] by simp
  qed (use r w1 in simp)
qed simp

lemma read_pages_run:
  assumes laws: "listing_laws c stored todo" "reads_law c content"
  shows "\<exists>res. read_pages c from until pre token (st, w) = Some (res, w)
    \<and> (\<forall>st'. res = Some st' \<longrightarrow> (\<exists>ks. st' = foldl (read_entry from until) st (concat (map (object_entries content w) ks))
         \<and> set ks = so_key ` {x \<in> stored w. prefix pre (so_key x) \<and> todo token (so_key x)}))"
proof (induction "card {x \<in> stored w. todo token (so_key x)}" arbitrary: token st rule: less_induct)
  case less
  show ?case
  proof (cases "s3_page c pre token w")
    case None
    then have "read_pages c from until pre token (st, w) = Some (None, w)" by (subst read_pages.simps) simp
    then show ?thesis by simp
  next
    case (Some p)
    obtain xs nxt where p: "s3_page c pre token w = Some (xs, nxt)" using Some by (cases p) auto
    have xs: "set xs \<subseteq> {x \<in> stored w. prefix pre (so_key x) \<and> todo token (so_key x)}"
      and all: "\<forall>x \<in> stored w. prefix pre (so_key x) \<longrightarrow> todo token (so_key x) \<longrightarrow> x \<in> set xs \<or> (nxt \<noteq> None \<and> todo nxt (so_key x))"
      and up: "nxt \<noteq> None \<longrightarrow> (\<forall>k. todo nxt k \<longrightarrow> todo token k)"
      using laws(1) p unfolding listing_laws_def page_law_def by blast+
    obtain res where r: "read_page c from until xs (st, w) = (res, w)"
      "\<forall>st'. res = Some st' \<longrightarrow> st' = foldl (read_entry from until) st (concat (map (object_entries content w) (map so_key xs)))"
      using read_page_run [OF laws(2)] by blast
    consider (failed) "res = None" | (over) st1 where "res = Some st1" "nxt = None" | (further) st1 where "res = Some st1" "nxt \<noteq> None"
      by (cases res) auto
    then show ?thesis
    proof cases
      case failed
      then have "read_pages c from until pre token (st, w) = Some (None, w)" using p r(1) by (subst read_pages.simps) simp
      then show ?thesis by simp
    next
      case over
      then have "read_pages c from until pre token (st, w) = Some (Some st1, w)" using p r(1) by (subst read_pages.simps) simp
      moreover have "set (map so_key xs) = so_key ` {x \<in> stored w. prefix pre (so_key x) \<and> todo token (so_key x)}"
        using xs all over(2) by auto
      ultimately show ?thesis using r(2) over(1) by (auto intro!: exI [of _ "map so_key xs"])
    next
      case further
      have m: "card {x \<in> stored w. todo nxt (so_key x)} < card {x \<in> stored w. todo token (so_key x)}"
        by (rule page_progress [OF laws(1) p further(2) order.refl])
      obtain res2 where i: "read_pages c from until pre nxt (st1, w) = Some (res2, w)"
        "\<forall>st'. res2 = Some st' \<longrightarrow> (\<exists>ks. st' = foldl (read_entry from until) st1 (concat (map (object_entries content w) ks))
           \<and> set ks = so_key ` {x \<in> stored w. prefix pre (so_key x) \<and> todo nxt (so_key x)})"
        using less [OF m, of st1] by blast
      have e: "read_pages c from until pre token (st, w) = Some (res2, w)"
        using p r(1) further i(1) by (subst read_pages.simps) auto
      have keys: "so_key ` set xs \<union> so_key ` {x \<in> stored w. prefix pre (so_key x) \<and> todo nxt (so_key x)}
          = so_key ` {x \<in> stored w. prefix pre (so_key x) \<and> todo token (so_key x)}"
        using xs all up further(2) by auto
      have "\<exists>ks. st' = foldl (read_entry from until) st (concat (map (object_entries content w) ks))
         \<and> set ks = so_key ` {x \<in> stored w. prefix pre (so_key x) \<and> todo token (so_key x)}" if s: "res2 = Some st'" for st'
      proof -
        obtain ks where ks: "st' = foldl (read_entry from until) st1 (concat (map (object_entries content w) ks))"
          "set ks = so_key ` {x \<in> stored w. prefix pre (so_key x) \<and> todo nxt (so_key x)}"
          using i(2) s by blast
        have "set (map so_key xs @ ks) = so_key ` {x \<in> stored w. prefix pre (so_key x) \<and> todo token (so_key x)}"
          using keys ks(2) by simp
        moreover have "st' = foldl (read_entry from until) st (concat (map (object_entries content w) (map so_key xs @ ks)))"
          using ks(1) r(2) further(1) by simp
        ultimately show ?thesis by blast
      qed
      then show ?thesis using e by simp
    qed
  qed
qed

text \<open>The keys of the objects of a list of days.\<close>

definition day_keys :: "('w \<Rightarrow> s3_object set) \<Rightarrow> archive \<Rightarrow> string \<Rightarrow> gotime list \<Rightarrow> 'w \<Rightarrow> string set" where
  "day_keys stored a deviceID ds w = {so_key x | x. x \<in> stored w \<and> (\<exists>d \<in> set ds. prefix (day_prefix a deviceID d) (so_key x))}"

lemma read_days_run:
  assumes laws: "listing_laws c stored todo" "reads_law c content"
  shows "\<exists>res. read_days c a deviceID from until ds (st, w) = Some (res, w)
    \<and> (\<forall>st'. res = Some st' \<longrightarrow> (\<exists>ks. st' = foldl (read_entry from until) st (concat (map (object_entries content w) ks))
         \<and> set ks = day_keys stored a deviceID ds w))"
proof (induction ds arbitrary: st)
  case Nil
  have "day_keys stored a deviceID [] w = {}" by (simp add: day_keys_def)
  then show ?case by (auto intro: exI [of _ "[]"])
next
  case (Cons d ds)
  have td: "todo None k" for k using laws(1) by (simp add: listing_laws_def)
  obtain res where r: "read_pages c from until (day_prefix a deviceID d) None (st, w) = Some (res, w)"
    "\<forall>st'. res = Some st' \<longrightarrow> (\<exists>ks. st' = foldl (read_entry from until) st (concat (map (object_entries content w) ks))
         \<and> set ks = so_key ` {x \<in> stored w. prefix (day_prefix a deviceID d) (so_key x) \<and> todo None (so_key x)})"
    using read_pages_run [OF laws] by blast
  show ?case
  proof (cases res)
    case None
    then show ?thesis using r(1) by simp
  next
    case (Some st1)
    obtain ks1 where ks1: "st1 = foldl (read_entry from until) st (concat (map (object_entries content w) ks1))"
      "set ks1 = so_key ` {x \<in> stored w. prefix (day_prefix a deviceID d) (so_key x)}"
      using r(2) Some td by auto
    obtain res2 where i: "read_days c a deviceID from until ds (st1, w) = Some (res2, w)"
      "\<forall>st'. res2 = Some st' \<longrightarrow> (\<exists>ks. st' = foldl (read_entry from until) st1 (concat (map (object_entries content w) ks))
         \<and> set ks = day_keys stored a deviceID ds w)"
      using Cons.IH by blast
    have u: "set ks1 \<union> day_keys stored a deviceID ds w = day_keys stored a deviceID (d # ds) w"
      unfolding ks1(2) day_keys_def by auto
    have "\<exists>ks. st' = foldl (read_entry from until) st (concat (map (object_entries content w) ks)) \<and> set ks = day_keys stored a deviceID (d # ds) w"
      if s: "res2 = Some st'" for st'
    proof -
      obtain ks where "st' = foldl (read_entry from until) st1 (concat (map (object_entries content w) ks))" "set ks = day_keys stored a deviceID ds w"
        using i(2) s by blast
      then show ?thesis using ks1(1) u by (intro exI [of _ "ks1 @ ks"]) simp
    qed
    then show ?thesis using r(1) Some i(1) by simp
  qed
qed

subsection \<open>What reading back promises\<close>

lemma history_entries_laws:
  assumes perm: "\<And>xs. mset (order xs) = mset xs" and c: "collected_from from until es st"
  shows "sorted_wrt (\<lambda>x y. browserHistoryVisitNanos x \<ge> browserHistoryVisitNanos y) (history_entries order limit st)"
    "set (history_entries order limit st) \<subseteq> {e \<in> set es. in_range from until e}"
    "0 < limit \<Longrightarrow> int (length (history_entries order limit st)) \<le> limit"
    "limit \<le> 0 \<Longrightarrow> e \<in> set es \<Longrightarrow> in_range from until e \<Longrightarrow> \<exists>e' \<in> set (history_entries order limit st).
       if entry_key e = [] then e' = e else entry_key e' = entry_key e \<and> browserHistoryVisitNanos e \<le> browserHistoryVisitNanos e'"
proof -
  let ?s = "sort_key (\<lambda>e. - browserHistoryVisitNanos e) (order (hs_plain st @ map (\<lambda>(_, _, e). e) (hs_latest st)))"
  have h: "history_entries order limit st = (if limit > 0 \<and> int (length ?s) > limit then take (nat limit) ?s else ?s)"
    by (simp add: history_entries_def Let_def)
  have m: "set ?s = set (hs_plain st) \<union> (\<lambda>(_, _, e). e) ` set (hs_latest st)"
    using mset_eq_setD [OF perm, of "hs_plain st @ map (\<lambda>(_, _, e). e) (hs_latest st)"] by simp
  have "sorted (map (\<lambda>e. - browserHistoryVisitNanos e) ?s)" by simp
  then have srt: "sorted_wrt (\<lambda>x y. browserHistoryVisitNanos x \<ge> browserHistoryVisitNanos y) ?s"
    by (simp only: sorted_map) simp
  then show "sorted_wrt (\<lambda>x y. browserHistoryVisitNanos x \<ge> browserHistoryVisitNanos y) (history_entries order limit st)"
    unfolding h by (simp add: sorted_wrt_take)
  have "set ?s \<subseteq> {e \<in> set es. in_range from until e}"
    using c unfolding m collected_from_def by auto
  then show "set (history_entries order limit st) \<subseteq> {e \<in> set es. in_range from until e}"
    unfolding h by (rule subset_trans [rotated]) (simp add: set_take_subset del: set_sort)
  show "0 < limit \<Longrightarrow> int (length (history_entries order limit st)) \<le> limit" unfolding h by auto
  assume l: "limit \<le> 0" "e \<in> set es" "in_range from until e"
  show "\<exists>e' \<in> set (history_entries order limit st).
       if entry_key e = [] then e' = e else entry_key e' = entry_key e \<and> browserHistoryVisitNanos e \<le> browserHistoryVisitNanos e'"
  proof (cases "entry_key e = []")
    case True
    then have "e \<in> set (hs_plain st)" using c l by (simp add: collected_from_def)
    then show ?thesis using True l(1) m unfolding h by auto
  next
    case False
    obtain n e' where e': "map_of (hs_latest st) (entry_key e) = Some (n, e')" "browserHistoryVisitNanos e \<le> n"
      using c l False unfolding collected_from_def by blast
    have i: "(entry_key e, n, e') \<in> set (hs_latest st)" by (rule map_of_SomeD [OF e'(1)])
    have "entry_key e' = entry_key e" "n = browserHistoryVisitNanos e'" using c i unfolding collected_from_def by blast+
    moreover have "e' \<in> set ?s" unfolding m using i by force
    ultimately show ?thesis using e'(2) l(1) False unfolding h by auto
  qed
qed

text \<open>What the archive holds for the days of a range.\<close>

definition held_entries :: "('w \<Rightarrow> s3_object set) \<Rightarrow> ('w \<Rightarrow> string \<Rightarrow> val option) \<Rightarrow> archive \<Rightarrow> string \<Rightarrow> gotime list \<Rightarrow> 'w \<Rightarrow> val set" where
  "held_entries stored content a deviceID ds w = (\<Union>k \<in> day_keys stored a deviceID ds w. set (object_entries content w k))"


subsection \<open>Where a visit is archived\<close>

text \<open>The browser archive writes a visit under its UTC day; a scan with boundaries in UTC looks there.\<close>

lemma days_between_mem: "d \<in> set (days_between a b) \<longleftrightarrow> (\<exists>n. d = add a (int n * day_ns) \<and> inst d \<le> inst b)"
proof (induction a b rule: days_between.induct)
  case (1 a b)
  have p: "0 < day_ns" by (simp add: ns_units)
  show ?case
  proof (cases "after a b")
    case True
    have "inst b < inst (add a (int n * day_ns))" for n
    proof -
      have "0 \<le> int n * day_ns" using p by simp
      then show ?thesis using True unfolding after_def add_simps by linarith
    qed
    then show ?thesis using True by (subst days_between.simps) (auto simp: not_le [symmetric])
  next
    case False
    have step: "add (add a day_ns) (int n * day_ns) = add a (int (Suc n) * day_ns)" for n by (simp add: add_def algebra_simps)
    have z: "add a (int 0 * day_ns) = a" by (simp add: add_def)
    have "(\<exists>n. d = add a (int n * day_ns) \<and> inst d \<le> inst b)
        \<longleftrightarrow> (d = a \<and> inst d \<le> inst b) \<or> (\<exists>n. d = add a (int (Suc n) * day_ns) \<and> inst d \<le> inst b)"
      using z by (metis not0_implies_Suc)
    then show ?thesis using False 1 [OF False] unfolding step by (subst days_between.simps) (auto simp: after_def)
  qed
qed

lemma visit_day_in_range:
  assumes "off from = 0" "off until = 0" "inst from \<le> x" "x \<le> inst until"
  shows "\<exists>d \<in> set (days_between (startOfDay from) (startOfDay until)). date_str d = date_str \<lparr>inst = x, off = 0\<rparr>"
proof -
  let ?d = "\<lparr>inst = x div day_ns * day_ns, off = 0\<rparr>"
  have p: "0 < day_ns" by (simp add: ns_units)
  have "inst from div day_ns \<le> x div day_ns" "x div day_ns \<le> inst until div day_ns"
    using assms(3,4) p by (simp_all add: zdiv_mono1)
  then have n: "?d = add (startOfDay from) (int (nat (x div day_ns - inst from div day_ns)) * day_ns)"
    "inst ?d \<le> inst (startOfDay until)"
    using assms(1,2) p by (simp_all add: startOfDay_def add_def local_ns_def left_diff_distrib)
  have "?d \<in> set (days_between (startOfDay from) (startOfDay until))"
    unfolding days_between_mem using n by blast
  moreover have "date_str ?d = date_str \<lparr>inst = x, off = 0\<rparr>" using p by (simp add: date_str_def local_ns_def)
  ultimately show ?thesis by blast
qed

text \<open>Grouping puts every entry into the group of its day, and nothing else there.\<close>

lemma group_entry_keeps:
  assumes "distinct (map fst gs)" "\<forall>(day, es) \<in> set gs. \<forall>e \<in> set es. visit_day t e = day"
  shows "distinct (map fst (group_entry t gs x)) \<and> (\<forall>(day, es) \<in> set (group_entry t gs x). \<forall>e \<in> set es. visit_day t e = day)
    \<and> (\<Union>g \<in> set (group_entry t gs x). set (snd g)) = insert x (\<Union>g \<in> set gs. set (snd g))"
proof -
  have upd: "set (al_upd k v m) = insert (k, v) {p \<in> set m. fst p \<noteq> k}" if "distinct (map fst m)" for k :: string and v and m :: "(string \<times> val list) list"
    using that by (induction k v m rule: al_upd.induct) auto
  show ?thesis
  proof (cases "map_of gs (visit_day t x)")
    case None
    then have "visit_day t x \<notin> fst ` set gs" by (simp add: map_of_eq_None_iff)
    then have "{p \<in> set gs. fst p \<noteq> visit_day t x} = set gs" by force
    then show ?thesis using assms None by (auto simp: group_entry_def Let_def upd)
  next
    case (Some es)
    then have i: "(visit_day t x, es) \<in> set gs" by (rule map_of_SomeD)
    have "(\<Union>g \<in> set gs. set (snd g)) = set es \<union> (\<Union>g \<in> {p \<in> set gs. fst p \<noteq> visit_day t x}. set (snd g))"
      using i assms(1) by (force dest: eq_key_imp_eq_value)
    moreover have "\<forall>e \<in> set es. visit_day t e = visit_day t x" using assms(2) i by auto
    ultimately show ?thesis using assms Some by (auto simp: group_entry_def Let_def upd)
  qed
qed

lemma browser_groups_laws:
  "distinct (map fst (browser_groups t es)) \<and> (\<forall>(day, g) \<in> set (browser_groups t es). \<forall>e \<in> set g. visit_day t e = day)
   \<and> (\<Union>g \<in> set (browser_groups t es). set (snd g)) = set es"
proof (induction es rule: rev_induct)
  case (snoc x xs)
  then show ?case using group_entry_keeps [of "browser_groups t xs" t x] by (simp add: browser_groups_def)
qed (simp add: browser_groups_def)
subsection \<open>The handler\<close>

definition parseDateQuery :: "string \<Rightarrow> gotime \<Rightarrow> bool \<Rightarrow> gotime option" where
  "parseDateQuery raw fallback endOfDay =
     (if raw = [] then Some fallback
      else case parse_rfc3339 raw of Some t \<Rightarrow> Some t
       | None \<Rightarrow> map_option (\<lambda>t. if endOfDay then add (add t day_ns) (- 1) else t) (parse_date_in raw 0))"

text \<open>The server's zone has a fixed offset. \<open>days\<close> is \<^verbatim>\<open>currentRetentionDays()\<close>.\<close>

definition default_from :: "gotime \<Rightarrow> int \<Rightarrow> gotime" where
  "default_from now days = startOfDay (add now ((1 - days) * day_ns))"

definition default_to :: "gotime \<Rightarrow> gotime" where
  "default_to now = add (add (startOfDay now) day_ns) (- 1)"

definition history_max_range :: "int \<Rightarrow> int" where
  "history_max_range days = (if days > 90 then (days + 2) * day_ns else 92 * day_ns)"

definition history_limit :: "string \<Rightarrow> int option" where
  "history_limit raw = (if raw = [] then Some 0 else case atoi raw of Some n \<Rightarrow> if n < 0 then None else Some n | None \<Rightarrow> None)"

definition history_reply :: "string \<Rightarrow> gotime \<Rightarrow> gotime \<Rightarrow> val list \<Rightarrow> val" where
  "history_reply deviceID from until entries =
     Obj [(''device_id'', Str deviceID), (''from'', Str (rfc3339_sec_str from)), (''to'', Str (rfc3339_sec_str until)),
          (''count'', Int_v (int (length entries))), (''entries'', if entries = [] then Nil_v else Arr entries)]"

definition browserHistoryHandler ::
  "'w s3 \<Rightarrow> archive option \<Rightarrow> (val list \<Rightarrow> val list) \<Rightarrow> int \<Rightarrow> gotime \<Rightarrow> string \<Rightarrow> string \<Rightarrow> (string \<Rightarrow> string) \<Rightarrow> 'w
     \<Rightarrow> (response \<times> 'w) option" where
  "browserHistoryHandler c store order days now meth path query w =
     (if meth \<noteq> ''GET'' then Some (HttpError 405 ''Method not allowed'', w)
      else case store of None \<Rightarrow> Some (HttpError 503 ''Browser history S3 archive is not configured'', w)
      | Some a \<Rightarrow>
        let parts = split_on CHR ''/'' path
        in if length parts < 4 then Some (HttpError 400 ''Invalid URL'', w)
        else (case parseDateQuery (query ''from'') (default_from now days) False of
          None \<Rightarrow> Some (HttpError 400 ''Invalid from date. Use YYYY-MM-DD.'', w)
        | Some from \<Rightarrow> (case parseDateQuery (query ''to'') (default_to now) True of
            None \<Rightarrow> Some (HttpError 400 ''Invalid to date. Use YYYY-MM-DD.'', w)
          | Some until \<Rightarrow>
              if before until from then Some (HttpError 400 ''to must be on or after from'', w)
              else if sub until from > history_max_range days
              then Some (HttpError 400 (''Date range too large; maximum is '' @ dec_str (nat (history_max_range days div day_ns)) @ '' days''), w)
              else (case history_limit (query ''limit'') of
                None \<Rightarrow> Some (HttpError 400 ''Invalid limit'', w)
              | Some limit \<Rightarrow> (case ReadEntries c a order (parts ! 2) from until limit w of
                  None \<Rightarrow> None
                | Some (None, w1) \<Rightarrow> Some (HttpError 500 ''S3 archive read error'', w1)
                | Some (Some entries, w1) \<Rightarrow> Some (Json 200 (history_reply (parts ! 2) from until entries), w1))))))"

lemma short_groups: "\<forall>(day, g) \<in> set (browser_groups t es). length g \<le> length es"
proof (induction es rule: rev_induct)
  case (snoc x xs)
  let ?gs = "browser_groups t xs"
  have old: "length (case map_of ?gs k of Some g \<Rightarrow> g | None \<Rightarrow> []) \<le> length xs" for k
    using snoc.IH by (auto split: option.split dest!: map_of_SomeD)
  have "set (group_entry t ?gs x) \<subseteq> insert (visit_day t x, (case map_of ?gs (visit_day t x) of Some g \<Rightarrow> g | None \<Rightarrow> []) @ [x]) (set ?gs)"
    unfolding group_entry_def Let_def by (rule set_al_upd)
  then show ?case using snoc.IH old [of "visit_day t x"] by (fastforce simp: browser_groups_def)
qed (simp add: browser_groups_def)

lemma nonempty_groups: "\<forall>(day, g) \<in> set (browser_groups t es). g \<noteq> []"
proof (induction es rule: rev_induct)
  case (snoc x xs)
  let ?gs = "browser_groups t xs"
  have "set (group_entry t ?gs x) \<subseteq> insert (visit_day t x, (case map_of ?gs (visit_day t x) of Some g \<Rightarrow> g | None \<Rightarrow> []) @ [x]) (set ?gs)"
    unfolding group_entry_def Let_def by (rule set_al_upd)
  then show ?case using snoc.IH by (fastforce simp: browser_groups_def)
qed (simp add: browser_groups_def)

text \<open>A boundary given with an offset is not converted to UTC, but the objects are named by UTC days: this one
  starts at 18:30 UTC on the first of January, and the first day that is scanned is the second.\<close>

definition offset_from :: string where "offset_from = ''2026-01-02T00:00:00+05:30''"

theorem offset_boundary_skips:
  "\<exists>from until x. parseDateQuery offset_from zero_time False = Some from \<and> parseDateQuery ''2026-01-03'' zero_time True = Some until
    \<and> inst from \<le> x \<and> x \<le> inst until
    \<and> date_str \<lparr>inst = x, off = 0\<rparr> \<notin> date_str ` set (days_between (startOfDay from) (startOfDay until))"
proof -
  have "case (parseDateQuery offset_from zero_time False, parseDateQuery ''2026-01-03'' zero_time True) of
      (Some f, Some u) \<Rightarrow> inst f \<le> inst u \<and> date_str \<lparr>inst = inst f, off = 0\<rparr> \<notin> set (map date_str (days_between (startOfDay f) (startOfDay u)))
    | _ \<Rightarrow> False"
    by code_simp
  then show ?thesis by (auto split: option.splits)
qed

subsection \<open>Archiving and reading meet\<close>

definition puts_law :: "'w s3 \<Rightarrow> ('w \<Rightarrow> s3_object set) \<Rightarrow> ('w \<Rightarrow> string \<Rightarrow> val option) \<Rightarrow> bool" where
  "puts_law c stored content \<longleftrightarrow> (\<forall>k v w w'. s3_put c k v Always w = (None, w') \<longrightarrow>
     (\<exists>x \<in> stored w'. so_key x = k) \<and> content w' k = Some v
     \<and> (\<forall>k'. k' \<noteq> k \<longrightarrow> content w' k' = content w k' \<and> (\<forall>x. so_key x = k' \<longrightarrow> (x \<in> stored w' \<longleftrightarrow> x \<in> stored w))))"

definition holds_object :: "('w \<Rightarrow> s3_object set) \<Rightarrow> ('w \<Rightarrow> string \<Rightarrow> val option) \<Rightarrow> 'w \<Rightarrow> string \<Rightarrow> val \<Rightarrow> bool" where
  "holds_object stored content w k v \<longleftrightarrow> (\<exists>x \<in> stored w. so_key x = k) \<and> content w k = Some v"

lemma put_holds:
  assumes "puts_law c stored content" "s3_put c k v Always w = (None, w')"
  shows "holds_object stored content w' k v"
    "k' \<noteq> k \<Longrightarrow> holds_object stored content w k' v' \<Longrightarrow> holds_object stored content w' k' v'"
  using assms unfolding puts_law_def holds_object_def by (blast, metis)

lemma date_str_no_slash: "CHR ''/'' \<notin> set (date_str t)"
proof
  assume s: "CHR ''/'' \<in> set (date_str t)"
  obtain y m d where c: "civil_of (local_ns t div day_ns) = (y, m, d)" by (metis prod_cases3)
  have "\<not> is_digit CHR ''/''" by (simp add: is_digit_def)
  then have "CHR ''/'' \<notin> set (dfix n k)" "CHR ''/'' \<notin> set (dec_str k)" for n k
    using dfix_digits dec_str_digits by (metis list_all_iff)+
  then show False using s by (auto simp: date_str_def ymd_str_def c year_str_def split: if_splits)
qed

lemma first_segment: "CHR ''/'' \<notin> set x \<Longrightarrow> CHR ''/'' \<notin> set y \<Longrightarrow> x @ ''/'' @ r = y @ ''/'' @ s \<Longrightarrow> x = y"
proof -
  have t: "takeWhile (\<lambda>c. c \<noteq> CHR ''/'') (z @ ''/'' @ q) = z" if "CHR ''/'' \<notin> set z" for z q
    using that by (induction z) auto
  show "CHR ''/'' \<notin> set x \<Longrightarrow> CHR ''/'' \<notin> set y \<Longrightarrow> x @ ''/'' @ r = y @ ''/'' @ s \<Longrightarrow> x = y" by (metis t)
qed

lemma browser_key_day:
  "CHR ''/'' \<notin> set day \<Longrightarrow> CHR ''/'' \<notin> set day' \<Longrightarrow>
   browser_key digest a deviceID t day body = browser_key digest a deviceID t day' body' \<Longrightarrow> day = day'"
  unfolding browser_key_def using first_segment by (metis (no_types, lifting) same_append_eq)

lemma put_groups_hold:
  assumes law: "puts_law c stored content"
  shows "distinct (map fst gs) \<Longrightarrow> \<forall>g \<in> set gs. CHR ''/'' \<notin> set (fst g)
    \<Longrightarrow> put_groups c digest a deviceID payload sync t gs keys w = (Some keys', w')
    \<Longrightarrow> (\<forall>(day, es) \<in> set gs. holds_object stored content w' (browser_key digest a deviceID t day (browser_object deviceID payload sync es)) (browser_object deviceID payload sync es))
      \<and> (\<forall>k v. holds_object stored content w k v \<longrightarrow> (\<forall>(day, es) \<in> set gs. k \<noteq> browser_key digest a deviceID t day (browser_object deviceID payload sync es))
           \<longrightarrow> holds_object stored content w' k v)"
proof (induction gs arbitrary: keys w)
  case (Cons g gs)
  obtain day es where g: "g = (day, es)" by (cases g)
  let ?b = "browser_object deviceID payload sync es" let ?k = "browser_key digest a deviceID t day ?b"
  obtain w1 where p: "s3_put c ?k ?b Always w = (None, w1)" and r: "put_groups c digest a deviceID payload sync t gs (keys @ [?k]) w1 = (Some keys', w')"
    using Cons.prems(3) g by (auto simp: Let_def split: prod.splits option.splits)
  note ih = Cons.IH [OF _ _ r]
  have other: "?k \<noteq> browser_key digest a deviceID t day' b'" if "(day', es') \<in> set gs" for day' es' b'
    using that Cons.prems(1,2) browser_key_day g by (metis fst_conv image_eqI distinct.simps(2) list.map(2) list.set_intros(1,2) list.set_map)
  have ih': "\<forall>(day, es) \<in> set gs. holds_object stored content w' (browser_key digest a deviceID t day (browser_object deviceID payload sync es)) (browser_object deviceID payload sync es)"
    "\<And>k v. holds_object stored content w1 k v \<Longrightarrow> \<forall>(day, es) \<in> set gs. k \<noteq> browser_key digest a deviceID t day (browser_object deviceID payload sync es) \<Longrightarrow> holds_object stored content w' k v"
    using ih Cons.prems(1,2) by simp_all
  have "holds_object stored content w' ?k ?b"
    by (rule ih'(2) [OF put_holds(1) [OF law p]]) (use other in blast)
  then show ?case using ih' put_holds(2) [OF law p] g by auto
qed simp

lemma decode_browser_object:
  assumes "int (length es) < 2 ^ 53"
  shows "decode_archive (browser_object deviceID payload sync es) = Some (int (length es), map json_val es)"
proof -
  have "i2f (int (length es)) = of_int (int (length es))" using assms by (intro i2f_exact) simp
  moreover have "in_i64 (int (length es))" using assms by (simp add: in_i64_def i64_min_def i64_max_def)
  ultimately show ?thesis by (simp add: browser_object_def)
qed

subsection \<open>A bucket with bodies\<close>

type_synonym bodies = "listing \<times> (string \<times> val) list"

definition body_s3 :: "bodies s3" where
  "body_s3 = \<lparr>
     s3_get = (\<lambda>k w. (case map_of (snd w) k of Some v \<Rightarrow> Found (Some v) [] | None \<Rightarrow> No_such_key, w)),
     s3_put = (\<lambda>k v cond w. (None, (al_upd k zero_time (fst w), al_upd k v (snd w)))),
     s3_page = (\<lambda>pre token w. s3_page example_s3 pre token (fst w)),
     s3_delete = (\<lambda>k w. (True, (al_del k (fst w), snd w)))\<rparr>"

definition body_content :: "bodies \<Rightarrow> string \<Rightarrow> val option" where "body_content w k = map_of (snd w) k"

definition body_stored :: "bodies \<Rightarrow> s3_object set" where "body_stored w = listed (fst w)"

lemma body_listing: "listing_laws body_s3 body_stored still_to_come"
proof -
  have "page_law body_s3 body_stored still_to_come"
    using example_page unfolding page_law_def body_stored_def by (simp add: body_s3_def)
  moreover have "delete_law body_s3 body_stored"
    by (auto simp: delete_law_def body_s3_def body_stored_def listed_def)
  ultimately show ?thesis using example_listing by (simp add: listing_laws_def body_stored_def)
qed

lemma body_reads: "reads_law body_s3 body_content"
  by (auto simp: reads_law_def body_s3_def body_content_def split: option.split)

lemma body_puts: "puts_law body_s3 body_stored body_content"
proof -
  have "\<exists>x \<in> listed (al_upd k zero_time l). so_key x = k" for k l
    by (rule bexI [of _ "\<lparr>so_key = k, so_modified = zero_time\<rparr>"]) (simp_all add: listed_def)
  then show ?thesis by (auto simp: puts_law_def body_s3_def body_content_def body_stored_def) (auto simp: listed_def)
qed

definition sample_visit :: val where
  "sample_visit = Obj [(''url'', Str ''https://example.org/a''), (''last_visit_time'', F64 (of_int (10 * ns_per_s)))]"

definition sample_browser_report :: obj where
  "sample_browser_report = [(''data'', Obj [(''BrowserHistory'', Obj [(''new_history_entries'', Arr [sample_visit])])])]"

definition browser_store :: archive where "browser_store = \<lparr>ar_bucket = ''b'', ar_prefix = ''browser-history''\<rparr>"

lemma sample_visit_nanos: "browserHistoryVisitNanos sample_visit = 10 * ns_per_s"
  by code_simp



end
