(* ===== verification/DeviceViews.thy ===== *)
theory DeviceViews
  imports DayArchive Users Runs
begin

text \<open>
  The dashboard's views of a device in \<^verbatim>\<open>api/main.go\<close>: the paged list, renaming, the check whether it is
  online, its presence and app usage of a day, the audit log, and the lease that lets one active-window collector of a
  device report at a time.
\<close>

definition same_device :: "string \<Rightarrow> obj \<Rightarrow> bool" where
  "same_device dev d \<longleftrightarrow> get d ''device_id'' = Str dev"

text \<open>\<^verbatim>\<open>/devices/{id}/{what}\<close>.\<close>

definition device_path :: "string \<Rightarrow> string \<Rightarrow> string option" where
  "device_path what path =
     (case split_on CHR ''/'' (trim_prefix path ''/'') of
        [a, dev, c] \<Rightarrow> if a = ''devices'' \<and> dev \<noteq> [] \<and> c = what then Some dev else None
      | _ \<Rightarrow> None)"

subsection \<open>Name and ping\<close>

text \<open>\<open>body\<close> is the name of the request, \<open>None\<close> when it does not decode.\<close>

definition deviceNameHandler ::
  "('d, obj) driver \<Rightarrow> string \<Rightarrow> string \<Rightarrow> string option \<Rightarrow> gotime \<Rightarrow> 'd \<Rightarrow> (response \<times> audit list) \<times> 'd" where
  "deviceNameHandler DD meth path body now devices =
     (if meth \<noteq> ''PUT'' then ((HttpError 405 ''Method not allowed'', []), devices)
      else case device_path ''name'' path of None \<Rightarrow> ((HttpError 400 ''Invalid URL'', []), devices)
      | Some dev \<Rightarrow> (case body of None \<Rightarrow> ((HttpError 400 ''Bad JSON'', []), devices)
        | Some raw \<Rightarrow>
            let name = trim_space raw
            in if length name > 80 then ((HttpError 400 ''Name must be 80 characters or fewer'', []), devices)
               else (case update_one DD devices (same_device dev)
                         (\<lambda>d. (if name = [] then al_del ''display_name'' else al_upd ''display_name'' (Str name)) (al_upd ''updated_at'' (Time_v now) d)) of
                       (devices', None) \<Rightarrow> ((HttpError 500 ''Database error'', []), devices')
                     | (devices', Some n) \<Rightarrow>
                         if n = 0 then ((HttpError 404 ''Device not found'', []), devices')
                         else ((Json 200 (Obj [(''device_id'', Str dev), (''display_name'', Str name)]), [(''device.renamed'', dev, name)]), devices'))))"

definition ping_reply :: "string \<Rightarrow> gotime \<Rightarrow> obj \<Rightarrow> val" where
  "ping_reply dev now device =
     (let seen = bsonTime (get device ''last_seen'');
          online = (case seen of None \<Rightarrow> False | Some t \<Rightarrow> sub now t < 60 * ns_per_s)
      in Obj [(''device_id'', Str dev), (''online'', Bool_v online),
              (''last_seen'', case seen of None \<Rightarrow> Nil_v | Some t \<Rightarrow> Time_v t),
              (''age_seconds'', Int_v (case seen of None \<Rightarrow> - 1 | Some t \<Rightarrow> f2i (seconds (sub now t)))),
              (''checked_at'', Time_v now),
              (''message'', Str (if online then ''Agent is online'' else ''No recent agent check-in'')),
              (''live_window_s'', Int_v 60)])"

definition devicePingHandler :: "('d, obj) driver \<Rightarrow> string \<Rightarrow> string \<Rightarrow> gotime \<Rightarrow> 'd \<Rightarrow> response" where
  "devicePingHandler DD meth path now devices =
     (if meth \<noteq> ''POST'' then HttpError 405 ''Method not allowed''
      else case device_path ''ping'' path of None \<Rightarrow> HttpError 400 ''Invalid URL''
      | Some dev \<Rightarrow> (case find_docs DD devices (same_device dev) of
          None \<Rightarrow> HttpError 500 ''Database error''
        | Some [] \<Rightarrow> HttpError 404 ''Device not found''
        | Some (device # _) \<Rightarrow> Json 200 (ping_reply dev now device)))"

subsection \<open>Usage and presence of a day\<close>

definition starts_with :: "string \<Rightarrow> string \<Rightarrow> bool" where
  "starts_with pre s \<longleftrightarrow> take (length pre) s = pre"

text \<open>The query for the heartbeats of a day: a regular expression matches strings only.\<close>

definition heartbeat_of :: "string \<Rightarrow> string \<Rightarrow> obj \<Rightarrow> bool" where
  "heartbeat_of dev date d \<longleftrightarrow> same_device dev d \<and> (case get d ''timestamp'' of Str s \<Rightarrow> starts_with date s | _ \<Rightarrow> False)"

definition presence_points :: "('t, obj) driver \<Rightarrow> 't \<Rightarrow> string \<Rightarrow> string \<Rightarrow> gotime list option" where
  "presence_points TD telemetry dev date = map_option (dailyPresencePoints date) (find_docs TD telemetry (heartbeat_of dev date))"

definition devicePresenceHandler :: "('t, obj) driver \<Rightarrow> string \<Rightarrow> string \<Rightarrow> string \<Rightarrow> 't \<Rightarrow> response" where
  "devicePresenceHandler TD meth path raw_date telemetry =
     (if meth \<noteq> ''GET'' then HttpError 405 ''Method not allowed''
      else case device_path ''presence'' path of None \<Rightarrow> HttpError 400 ''Invalid URL''
      | Some dev \<Rightarrow>
        let date = trim_space raw_date
        in if parse_date_in date 0 = None then HttpError 400 ''Invalid date; use YYYY-MM-DD''
           else (case presence_points TD telemetry dev date of
                   None \<Rightarrow> HttpError 500 ''Database error''
                 | Some points \<Rightarrow>
                     Json 200 (Obj [(''device_id'', Str dev), (''date'', Str date),
                       (''first_seen'', if points = [] then Nil_v else Time_v (hd points)),
                       (''last_seen'', if points = [] then Nil_v else Time_v (last points)),
                       (''online_seconds'', F64 (presenceOnlineSeconds points)),
                       (''heartbeat_count'', Int_v (int (length points))),
                       (''connection_count'', Int_v (presenceConnections points))])))"

text \<open>The rows of the daily table, highest total first. \<open>read\<close> is what the activity archive answers for a key.\<close>

definition usage_rows :: "('a, obj) driver \<Rightarrow> string \<Rightarrow> string \<Rightarrow> 'a \<Rightarrow> obj list option" where
  "usage_rows AD dev date activity =
     map_option (sort_key (\<lambda>r. - float_of (get r ''total_seconds'')))
       (find_docs AD activity (\<lambda>r. same_device dev r \<and> get r ''date'' = Str date))"

definition deviceAppUsageHandler ::
  "('a, obj) driver \<Rightarrow> ('t, obj) driver \<Rightarrow> bool \<Rightarrow> (string \<Rightarrow> obj option option) \<Rightarrow> (val list \<Rightarrow> val list)
     \<Rightarrow> string \<Rightarrow> string \<Rightarrow> string \<Rightarrow> gotime \<Rightarrow> 'a \<Rightarrow> 't \<Rightarrow> response" where
  "deviceAppUsageHandler AD TD store read perm meth path raw_date now activity telemetry =
     (if meth \<noteq> ''GET'' then HttpError 405 ''Method not allowed''
      else case device_path ''app-usage'' path of None \<Rightarrow> HttpError 400 ''Invalid URL''
      | Some dev \<Rightarrow>
        let date = (if trim_space raw_date = [] then date_str (utc now) else trim_space raw_date)
        in if parse_date_in date 0 = None then HttpError 400 ''Invalid date; use YYYY-MM-DD''
           else (case usage_rows AD dev date activity of
                   None \<Rightarrow> HttpError 500 ''Database error''
                 | Some rows \<Rightarrow> (case presence_points TD telemetry dev date of
                     None \<Rightarrow> HttpError 500 ''Presence lookup error''
                   | Some points \<Rightarrow>
                       Json 200 (Obj [(''device_id'', Str dev), (''date'', Str date),
                         (''users'', Arr (map BObj (capDailyAppUsageRowsToOnlineSeconds
                            (filterDailyAppUsageRows (recomputeDailyAppUsageRowsFromArchives store read perm rows (presenceWindows points)))
                            (presenceOnlineSeconds points))))]))))"

subsection \<open>The list of devices\<close>

text \<open>An \<^verbatim>\<open>ObjectID\<close> is kept as its 24 hexadecimal digits, which compare as the bytes do.\<close>

definition object_id :: "obj \<Rightarrow> string" where "object_id d = str_of (get d ''_id'')"

definition is_object_id :: "string \<Rightarrow> bool" where
  "is_object_id s \<longleftrightarrow> length s = 24 \<and> list_all is_hex s"

text \<open>The projection: no keys, and at most 200 recent URLs.\<close>

definition slice_urls :: "obj \<Rightarrow> obj" where
  "slice_urls d =
     (case get d ''data'' of
        BObj data \<Rightarrow> (case get data ''BrowserHistory'' of
            BObj b \<Rightarrow> (case get b ''top_recent_urls'' of
                BArr urls \<Rightarrow> al_upd ''data'' (BObj (al_upd ''BrowserHistory'' (BObj (al_upd ''top_recent_urls'' (BArr (take 200 urls)) b)) data)) d
              | _ \<Rightarrow> d)
          | _ \<Rightarrow> d)
      | _ \<Rightarrow> d)"

definition project_device :: "obj \<Rightarrow> obj" where
  "project_device d = slice_urls (al_del ''api_key'' (al_del ''api_key_hash'' d))"

definition show_device :: "gotime \<Rightarrow> obj \<Rightarrow> obj" where
  "show_device now d =
     (let device = sanitizeDeviceActiveWindowSnapshot now d
      in if bool_of (get device ''quarantined'')
            \<and> (case bsonTime (get device ''quarantine_until'') of Some until \<Rightarrow> after now until | None \<Rightarrow> False)
         then al_upd ''quarantined'' (Bool_v False) device else device)"

text \<open>The rows after the cursor, one more than asked for, and the page made of them.\<close>

definition device_page :: "('d, obj) driver \<Rightarrow> int \<Rightarrow> string \<Rightarrow> 'd \<Rightarrow> obj list option" where
  "device_page DD limit cursor devices =
     map_option (\<lambda>ds. map project_device (take (nat limit + 1) (sort_key object_id ds)))
       (find_docs DD devices (\<lambda>d. cursor = [] \<or> to_lower cursor < object_id d))"

definition page_reply :: "int \<Rightarrow> obj list \<Rightarrow> obj list \<times> string" where
  "page_reply limit ds =
     (if int (length ds) > limit then (take (nat limit) ds, object_id (ds ! (nat limit - 1))) else (ds, []))"

definition device_items :: "('d, obj) driver \<Rightarrow> int \<Rightarrow> string \<Rightarrow> gotime \<Rightarrow> 'd \<Rightarrow> response + obj list \<times> string" where
  "device_items DD limit cursor now devices =
     (if cursor \<noteq> [] \<and> \<not> is_object_id cursor then Inl (HttpError 400 ''Invalid after cursor'')
      else case device_page DD limit cursor devices of
        None \<Rightarrow> Inl (HttpError 500 ''Database error'')
      | Some ds \<Rightarrow> Inr (page_reply limit (map (show_device now) ds)))"

text \<open>\<open>estimate\<close> is the number of documents the store estimates, 0 when it fails.\<close>

definition devicesHandler ::
  "('d, obj) driver \<Rightarrow> int \<Rightarrow> string \<Rightarrow> string \<Rightarrow> string \<Rightarrow> gotime \<Rightarrow> 'd \<Rightarrow> response" where
  "devicesHandler DD estimate meth raw_limit cursor now devices =
     (if meth \<noteq> ''GET'' then HttpError 405 ''Method not allowed''
      else case parsePageLimit raw_limit of Inl err \<Rightarrow> HttpError 400 err
      | Inr (limit, False) \<Rightarrow> (case find_docs DD devices (\<lambda>_. True) of
            None \<Rightarrow> HttpError 500 ''Database error''
          | Some ds \<Rightarrow> Json 200 (Arr (map (BObj \<circ> show_device now \<circ> project_device) ds)))
      | Inr (limit, True) \<Rightarrow> (case device_items DD limit cursor now devices of
            Inl err \<Rightarrow> err
          | Inr (items, nxt) \<Rightarrow>
              Json 200 (Obj [(''items'', Arr (map BObj items)), (''total'', I64 estimate), (''next'', Str nxt)])))"

subsection \<open>The audit log\<close>

record AuditEvent =
  ae_action :: string
  ae_actor :: string
  ae_target :: string
  ae_detail :: string
  ae_at :: gotime

text \<open>\<open>user\<close> is the signed-in account, if any. A failed write is only logged.\<close>

definition recordAudit :: "('l, AuditEvent) driver \<Rightarrow> string option \<Rightarrow> gotime \<Rightarrow> audit \<Rightarrow> 'l \<Rightarrow> 'l" where
  "recordAudit LD user now a log0 =
     (case a of (action, target, detail) \<Rightarrow>
        fst (insert_one LD log0 \<lparr>ae_action = action, ae_actor = (case user of Some email \<Rightarrow> email | None \<Rightarrow> ''system''),
                                 ae_target = target, ae_detail = detail, ae_at = utc now\<rparr>))"

definition audit_json :: "AuditEvent \<Rightarrow> val" where
  "audit_json e = Obj [(''action'', Str (ae_action e)), (''actor'', Str (ae_actor e)), (''target'', Str (ae_target e)),
                       (''detail'', Str (ae_detail e)), (''at'', Time_v (ae_at e))]"

definition auditHandler :: "('l, AuditEvent) driver \<Rightarrow> string \<Rightarrow> 'l \<Rightarrow> response" where
  "auditHandler LD meth log0 =
     (if meth \<noteq> ''GET'' then HttpError 405 ''Method not allowed''
      else case find_docs LD log0 (\<lambda>_. True) of
        None \<Rightarrow> HttpError 500 ''Database error''
      | Some es \<Rightarrow> Json 200 (Arr (map audit_json (take 50 (sort_key (\<lambda>e. - inst (ae_at e)) es)))))"

subsection \<open>The lease of the active-window collector\<close>

definition isLiveCollectorPayload :: "obj \<Rightarrow> gotime \<Rightarrow> bool" where
  "isLiveCollectorPayload payload now \<longleftrightarrow>
     (case as_str (get payload ''timestamp'') of None \<Rightarrow> True
      | Some stamp \<Rightarrow> (case parse_rfc3339 stamp of None \<Rightarrow> True
          | Some t \<Rightarrow> - 2 * minute_ns \<le> sub now t \<and> sub now t \<le> 2 * minute_ns))"

text \<open>The filter of the claim. The store compares a date with dates only.\<close>

definition lease_free :: "string \<Rightarrow> string \<Rightarrow> gotime \<Rightarrow> obj \<Rightarrow> bool" where
  "lease_free dev collectorID now d \<longleftrightarrow> same_device dev d \<and>
     ((case get d ''active_window_lease_until'' of Time_v until \<Rightarrow> inst until \<le> inst now | _ \<Rightarrow> False)
      \<or> map_of d ''active_window_lease_until'' = None
      \<or> get d ''active_window_lease_id'' = Str collectorID)"

definition lease_set :: "string \<Rightarrow> gotime \<Rightarrow> obj \<Rightarrow> obj" where
  "lease_set collectorID now d =
     al_upd ''active_window_lease_until'' (Time_v (add now (2 * minute_ns))) (al_upd ''active_window_lease_id'' (Str collectorID) d)"

definition claimActiveWindowLease :: "('d, obj) driver \<Rightarrow> string \<Rightarrow> obj \<Rightarrow> gotime \<Rightarrow> 'd \<Rightarrow> bool \<times> 'd" where
  "claimActiveWindowLease DD dev payload now devices =
     (let collectorID = str_of (get payload ''agent_session_id'')
      in if trim_space collectorID = [] then (True, devices)
         else (case update_one DD devices (lease_free dev collectorID now) (lease_set collectorID now) of
                 (devices', n) \<Rightarrow> (n = Some 1, devices')))"

subsection \<open>One collector at a time\<close>

definition leases :: "('d, obj) driver \<Rightarrow> string \<Rightarrow> 'd \<Rightarrow> (val option \<times> val option) list" where
  "leases DD dev devices =
     map (\<lambda>d. (map_of d ''active_window_lease_id'', map_of d ''active_window_lease_until''))
       (filter (same_device dev) (held DD devices))"

text \<open>
  The requests on the devices, with the claims logged in order: a claim of any collector, or any other request that
  leaves the leases of the registered devices alone.
\<close>

inductive lease_step ::
  "('d, obj) driver \<Rightarrow> 'd \<times> (string \<times> string \<times> gotime \<times> bool) list
     \<Rightarrow> 'd \<times> (string \<times> string \<times> gotime \<times> bool) list \<Rightarrow> bool" for DD where
  claim: "claimActiveWindowLease DD dev payload now devices = (ok, devices') \<Longrightarrow>
    lease_step DD (devices, evs) (devices', evs @ [(dev, str_of (get payload ''agent_session_id''), now, ok)])"
| other: "(\<And>dev. leases DD dev devices \<noteq> [] \<Longrightarrow> leases DD dev devices' = leases DD dev devices) \<Longrightarrow>
    lease_step DD (devices, evs) (devices', evs)"

definition timely :: "string \<Rightarrow> int \<Rightarrow> int \<Rightarrow> (string \<times> string \<times> gotime \<times> bool) list \<Rightarrow> bool" where
  "timely dev lo hi evs \<longleftrightarrow> list_all (\<lambda>(dev', _, now, _). dev' = dev \<longrightarrow> lo \<le> inst now \<and> inst now < hi) evs"

definition granted_to :: "string \<Rightarrow> string \<Rightarrow> (string \<times> string \<times> gotime \<times> bool) list \<Rightarrow> bool" where
  "granted_to dev collector evs \<longleftrightarrow>
     list_all (\<lambda>(dev', c, _, ok). dev' = dev \<and> trim_space c \<noteq> [] \<and> ok \<longrightarrow> c = collector) evs"

definition leased :: "('d, obj) driver \<Rightarrow> string \<Rightarrow> string \<Rightarrow> int \<Rightarrow> 'd \<Rightarrow> bool" where
  "leased DD dev collector hi devices \<longleftrightarrow>
     (\<exists>u. leases DD dev devices = [(Some (Str collector), Some (Time_v u))] \<and> hi \<le> inst u)"

lemma leases_update:
  assumes "driver_laws DD" "update_one DD devices P f = (devices', n)" "\<And>d. P d \<Longrightarrow> \<not> same_device dev d"
    "\<And>d. same_device dev (f d) = same_device dev d"
  shows "leases DD dev devices' = leases DD dev devices"
  using driver_update_one [OF assms(1,2)] assms(3,4) by (auto simp: leases_def one_updated_def)

lemma same_device_lease_set [simp]: "same_device dev (lease_set c now d) = same_device dev d"
  by (simp add: same_device_def lease_set_def)

lemma lease_set_fields [simp]:
  "map_of (lease_set c now d) ''active_window_lease_id'' = Some (Str c)"
  "map_of (lease_set c now d) ''active_window_lease_until'' = Some (Time_v (add now (2 * minute_ns)))"
  by (simp_all add: lease_set_def)

lemma leased_update:
  assumes "driver_laws DD" "update_one DD devices (lease_free dev c now) (lease_set c now) = (devices', n)"
    "leased DD dev collector hi devices" "inst now < hi"
  shows "if c = collector then leased DD dev collector (min hi (inst now + 2 * minute_ns)) devices'
         else n \<noteq> Some 1 \<and> leased DD dev collector hi devices'"
proof -
  obtain u d where d: "filter (same_device dev) (held DD devices) = [d]" "hi \<le> inst u"
    "map_of d ''active_window_lease_id'' = Some (Str collector)" "map_of d ''active_window_lease_until'' = Some (Time_v u)"
    using assms(3) by (auto simp: leased_def leases_def map_eq_Cons_conv)
  have free: "lease_free dev c now e \<Longrightarrow> e \<in> set (held DD devices) \<Longrightarrow> e = d \<and> c = collector" for e
  proof -
    assume e: "lease_free dev c now e" "e \<in> set (held DD devices)"
    then have "e \<in> set (filter (same_device dev) (held DD devices))" by (simp add: lease_free_def)
    then have "e = d" unfolding d by simp
    then show "e = d \<and> c = collector" using e d(2-4) assms(4) by (auto simp: lease_free_def get_def)
  qed
  show ?thesis
  proof (cases "held DD devices' = held DD devices")
    case True
    then have same: "leased DD dev collector hi devices'" using assms(3) by (simp add: leased_def leases_def)
    have "n \<noteq> Some 1" if "c \<noteq> collector"
      using driver_update_one [OF assms(1,2)] free that by (fastforce simp: one_updated_def)
    then show ?thesis using same by (auto simp: leased_def)
  next
    case False
    then obtain e as bs where e: "held DD devices = as @ e # bs" "held DD devices' = as @ lease_set c now e # bs"
      "lease_free dev c now e"
      using driver_update_one [OF assms(1,2)] by (auto simp: one_updated_def)
    then have "e = d" "c = collector" using free [of e] by auto
    moreover have "same_device dev e" using e(3) by (simp add: lease_free_def)
    ultimately have "leases DD dev devices' = [(Some (Str collector), Some (Time_v (add now (2 * minute_ns))))]"
      using d(1) e by (auto simp: leases_def filter_empty_conv append_eq_Cons_conv)
    then show ?thesis using \<open>c = collector\<close> by (auto simp: leased_def)
  qed
qed

lemma leased_claim:
  assumes "driver_laws DD" "claimActiveWindowLease DD dev' payload now devices = (ok, devices')"
    "leased DD dev collector hi devices" "dev' = dev \<longrightarrow> hi - 2 * minute_ns \<le> inst now \<and> inst now < hi"
  shows "leased DD dev collector hi devices' \<and>
         (dev' = dev \<and> trim_space (str_of (get payload ''agent_session_id'')) \<noteq> [] \<and> ok
            \<longrightarrow> str_of (get payload ''agent_session_id'') = collector)"
proof (cases "trim_space (str_of (get payload ''agent_session_id'')) = []")
  case True
  then show ?thesis using assms(2,3) by (simp add: claimActiveWindowLease_def Let_def)
next
  case False
  let ?c = "str_of (get payload ''agent_session_id'')"
  obtain n where n: "update_one DD devices (lease_free dev' ?c now) (lease_set ?c now) = (devices', n)" "ok = (n = Some 1)"
    using assms(2) False by (auto simp: claimActiveWindowLease_def Let_def split: prod.splits)
  show ?thesis
  proof (cases "dev' = dev")
    case True
    then show ?thesis using leased_update [OF assms(1) n(1) [unfolded True] assms(3)] assms(4) n(2)
      by (auto simp: min_def split: if_splits)
  next
    case other: False
    have "leases DD dev devices' = leases DD dev devices"
      by (rule leases_update [OF assms(1) n(1)]) (use other in \<open>auto simp: lease_free_def same_device_def lease_set_def\<close>)
    then show ?thesis using assms(3) other by (simp add: leased_def)
  qed
qed

lemma lease_step_keeps:
  assumes "driver_laws DD" "lease_step DD s s'"
    "timely dev (hi - 2 * minute_ns) hi (snd s) \<longrightarrow> leased DD dev collector hi (fst s) \<and> granted_to dev collector (snd s)"
  shows "timely dev (hi - 2 * minute_ns) hi (snd s') \<longrightarrow> leased DD dev collector hi (fst s') \<and> granted_to dev collector (snd s')"
  using assms(2)
proof cases
  case (claim dev' payload now devices ok devices' evs)
  then show ?thesis using leased_claim [OF assms(1) claim(3), of dev collector hi] assms(3)
    by (auto simp: timely_def granted_to_def)
next
  case (other devices devices' evs)
  then show ?thesis using assms(3) by (auto simp: leased_def)
qed

definition exclusive :: "('d, obj) driver \<Rightarrow> string \<Rightarrow> int \<Rightarrow> string \<Rightarrow> 'd \<times> (string \<times> string \<times> gotime \<times> bool) list \<Rightarrow> bool" where
  "exclusive DD dev hi collector s \<longleftrightarrow>
     (timely dev (hi - 2 * minute_ns) hi (snd s) \<longrightarrow> leased DD dev collector hi (fst s) \<and> granted_to dev collector (snd s))"

interpretation leasing: preserving "lease_step DD" "\<lambda>s. driver_laws DD \<longrightarrow> exclusive DD dev hi collector s"
  for DD dev hi collector
  by unfold_locales (auto simp: exclusive_def dest: lease_step_keeps)

lemma claim_leases:
  assumes "driver_laws DD" "at_most_one DD devices (same_device dev)"
    "claimActiveWindowLease DD dev payload now devices = (True, devices')"
    "trim_space (str_of (get payload ''agent_session_id'')) \<noteq> []"
  shows "leased DD dev (str_of (get payload ''agent_session_id'')) (inst now + 2 * minute_ns) devices'"
proof -
  let ?c = "str_of (get payload ''agent_session_id'')"
  have u: "update_one DD devices (lease_free dev ?c now) (lease_set ?c now) = (devices', Some 1)"
    using assms(3,4) by (auto simp: claimActiveWindowLease_def Let_def split: prod.splits)
  then obtain e as bs where e: "held DD devices = as @ e # bs" "held DD devices' = as @ lease_set ?c now e # bs" "lease_free dev ?c now e"
    using driver_update_one [OF assms(1) u] by (auto simp: one_updated_def)
  have "same_device dev e" using e(3) by (simp add: lease_free_def)
  then have "\<not> same_device dev x" if "x \<in> set as \<union> set bs" for x
    using at_most_oneD [OF assms(2) e(1)] that by blast
  then have "leases DD dev devices' = [(Some (Str ?c), Some (Time_v (add now (2 * minute_ns))))]"
    using e(2) \<open>same_device dev e\<close> by (simp add: leases_def)
  then show ?thesis by (simp add: leased_def)
qed



subsection \<open>Paging\<close>

lemma get_kept [simp]:
  "k \<noteq> ''data'' \<Longrightarrow> get (slice_urls d) k = get d k"
  "k \<noteq> ''data'' \<Longrightarrow> get (sanitizeDeviceActiveWindowSnapshot now d) k = get d k"
  by (auto simp: slice_urls_def sanitizeDeviceActiveWindowSnapshot_def split: val.splits)

lemma get_shown: "k \<noteq> ''data'' \<Longrightarrow> k \<noteq> ''quarantined'' \<Longrightarrow> get (show_device now d) k = get d k"
  by (auto simp: show_device_def Let_def split: option.splits)

lemma object_id_shown [simp]: "object_id (show_device now (project_device d)) = object_id d"
  by (simp add: object_id_def get_shown project_device_def)

text \<open>The keys of an agent are not in the answer.\<close>

lemma keys_hidden: "k \<in> {''api_key'', ''api_key_hash''} \<Longrightarrow> get (show_device now (project_device d)) k = Nil_v"
  by (auto simp: get_shown project_device_def)

text \<open>A client that follows the cursors; \<open>devices i\<close> is the collection when the \<open>i\<close>-th page is asked for.\<close>

fun follow :: "('d, obj) driver \<Rightarrow> int \<Rightarrow> gotime \<Rightarrow> (nat \<Rightarrow> 'd) \<Rightarrow> nat \<Rightarrow> string \<Rightarrow> nat \<Rightarrow> obj list option" where
  "follow DD limit now devices i cursor 0 = None"
| "follow DD limit now devices i cursor (Suc fuel) =
     (case device_items DD limit cursor now (devices i) of
        Inl _ \<Rightarrow> None
      | Inr (items, nxt) \<Rightarrow> if nxt = [] then Some items
                            else map_option ((@) items) (follow DD limit now devices (Suc i) nxt fuel))"

definition ids :: "('d, obj) driver \<Rightarrow> 'd \<Rightarrow> string set" where
  "ids DD devices = object_id ` set (held DD devices)"

definition numbered :: "('d, obj) driver \<Rightarrow> 'd \<Rightarrow> bool" where
  "numbered DD devices \<longleftrightarrow> distinct (map object_id (held DD devices))
     \<and> list_all (\<lambda>d. is_object_id (object_id d) \<and> to_lower (object_id d) = object_id d) (held DD devices)"

definition beyond :: "string \<Rightarrow> string set" where
  "beyond cursor = {x. cursor = [] \<or> cursor < x}"

lemma device_items_ok:
  assumes "driver_laws DD" "\<And>P. find_docs DD devices P \<noteq> None" "numbered DD devices" "1 \<le> limit"
    and "cursor = [] \<or> is_object_id cursor \<and> to_lower cursor = cursor"
  obtains items nxt where "device_items DD limit cursor now devices = Inr (items, nxt)"
    "sorted_wrt (<) (map object_id items)" "set items \<subseteq> (show_device now \<circ> project_device) ` set (held DD devices)"
    "object_id ` set items \<subseteq> beyond cursor"
    "nxt = [] \<Longrightarrow> ids DD devices \<inter> beyond cursor \<subseteq> object_id ` set items"
    "nxt \<noteq> [] \<Longrightarrow> nxt \<in> ids DD devices \<inter> beyond cursor \<and> is_object_id nxt \<and> to_lower nxt = nxt
       \<and> ids DD devices \<inter> beyond cursor \<subseteq> object_id ` set items \<union> beyond nxt
       \<and> object_id ` set items \<inter> beyond nxt = {}"
proof -
  obtain ds where ds: "find_docs DD devices (\<lambda>d. cursor = [] \<or> to_lower cursor < object_id d) = Some ds" using assms(2) by auto
  let ?P = "\<lambda>d. cursor = [] \<or> to_lower cursor < object_id d"
  have ms: "mset ds = mset (filter ?P (held DD devices))" using driver_find [OF assms(1) ds] by simp
  define L where "L = sort_key object_id ds"
  have set_L: "set L = {d \<in> set (held DD devices). object_id d \<in> beyond cursor}"
  proof -
    have "set ds = set (filter ?P (held DD devices))" using ms by (metis set_mset_mset)
    moreover have "?P d \<longleftrightarrow> object_id d \<in> beyond cursor" for d using assms(5) by (auto simp: beyond_def)
    ultimately show ?thesis by (simp add: L_def)
  qed
  have "distinct (map object_id (filter ?P (held DD devices)))" using assms(3) by (simp add: numbered_def distinct_map_filter)
  moreover have "mset (map object_id L) = mset (map object_id (filter ?P (held DD devices)))" using ms by (simp add: L_def)
  ultimately have "distinct (map object_id L)" using mset_eq_imp_distinct_iff by blast
  moreover have "sorted (map object_id L)" by (simp add: L_def)
  ultimately have strict: "sorted_wrt (<) (map object_id L)" by (simp add: strict_sorted_iff)
  let ?show = "show_device now \<circ> project_device"
  have page: "device_items DD limit cursor now devices = Inr (page_reply limit (map ?show (take (nat limit + 1) L)))"
    using assms(5) ds by (auto simp: device_items_def device_page_def L_def)
  have in_ids: "object_id ` set L = ids DD devices \<inter> beyond cursor" by (auto simp: set_L ids_def)
  show ?thesis
  proof (cases "length L \<le> nat limit")
    case True
    then have "page_reply limit (map ?show (take (nat limit + 1) L)) = (map ?show L, [])" using assms(4) by (auto simp: page_reply_def)
    then show ?thesis using that [of "map ?show L" "[]"] page strict set_L in_ids by (force simp: image_image comp_def)
  next
    case False
    define k where "k = nat limit - 1"
    have k: "nat limit = Suc k" "k < length L" using False assms(4) by (simp_all add: k_def)
    define x where "x = L ! k"
    have split: "L = take k L @ x # drop (Suc k) L" unfolding x_def by (rule id_take_nth_drop [OF k(2)])
    have reply: "page_reply limit (map ?show (take (nat limit + 1) L)) = (map ?show (take (Suc k) L), object_id x)"
      using False k assms(4) by (auto simp: page_reply_def x_def min_def take_map)
    have items: "take (Suc k) L = take k L @ [x]" using k(2) by (simp add: x_def take_Suc_conv_app_nth)
    have low: "object_id d < object_id x" if "d \<in> set (take k L)" for d
      using strict that by (subst (asm) split) (simp add: sorted_wrt_append)
    have high: "object_id x < object_id d" if "d \<in> set (drop (Suc k) L)" for d
      using strict that by (subst (asm) split) (simp add: sorted_wrt_append)
    have "x \<in> set L" using k(2) by (simp add: x_def)
    then have x: "is_object_id (object_id x)" "to_lower (object_id x) = object_id x" "object_id x \<in> ids DD devices \<inter> beyond cursor"
      using assms(3) by (auto simp: set_L numbered_def list_all_iff ids_def)
    then have nonempty: "object_id x \<noteq> []" by (auto simp: is_object_id_def)
    have whole: "set L = set (take (Suc k) L) \<union> set (drop (Suc k) L)" by (metis append_take_drop_id set_append)
    have sorted_items: "sorted_wrt (<) (map object_id (map ?show (take (Suc k) L)))"
      using strict by (simp add: comp_def take_map [symmetric] sorted_wrt_take)
    have "ids DD devices \<inter> beyond cursor \<subseteq> object_id ` set (take (Suc k) L) \<union> beyond (object_id x)"
      unfolding in_ids [symmetric] whole using high by (auto simp: beyond_def)
    moreover have "object_id ` set (take (Suc k) L) \<inter> beyond (object_id x) = {}"
      using low nonempty by (auto simp: items beyond_def dest: less_asym)
    moreover have "set (take (Suc k) L) \<subseteq> set L" by (rule set_take_subset)
    ultimately show ?thesis
      using that [of "map ?show (take (Suc k) L)" "object_id x"] page reply sorted_items x nonempty set_L
      by (force simp: image_image comp_def)
  qed
qed

lemma follow_lists_all:
  assumes "driver_laws DD" "\<And>i P. find_docs DD (devices i) P \<noteq> None" "\<And>i. numbered DD (devices i)" "1 \<le> limit"
    and "finite I" "\<And>i. ids DD (devices i) \<subseteq> I" "card (I \<inter> beyond cursor) < fuel"
    and "cursor = [] \<or> is_object_id cursor \<and> to_lower cursor = cursor"
  shows "\<exists>items. follow DD limit now devices i cursor fuel = Some items \<and> sorted_wrt (<) (map object_id items)
     \<and> object_id ` set items \<subseteq> beyond cursor
     \<and> (\<Inter>i. ids DD (devices i)) \<inter> beyond cursor \<subseteq> object_id ` set items
     \<and> set items \<subseteq> (\<Union>i. (show_device now \<circ> project_device) ` set (held DD (devices i)))"
  using assms(7,8)
proof (induction fuel arbitrary: i cursor)
  case 0
  then show ?case by simp
next
  case (Suc fuel)
  obtain items nxt where it: "device_items DD limit cursor now (devices i) = Inr (items, nxt)"
    "sorted_wrt (<) (map object_id items)" "set items \<subseteq> (show_device now \<circ> project_device) ` set (held DD (devices i))"
    "object_id ` set items \<subseteq> beyond cursor"
    "nxt = [] \<Longrightarrow> ids DD (devices i) \<inter> beyond cursor \<subseteq> object_id ` set items"
    "nxt \<noteq> [] \<Longrightarrow> nxt \<in> ids DD (devices i) \<inter> beyond cursor \<and> is_object_id nxt \<and> to_lower nxt = nxt
       \<and> ids DD (devices i) \<inter> beyond cursor \<subseteq> object_id ` set items \<union> beyond nxt
       \<and> object_id ` set items \<inter> beyond nxt = {}"
    using device_items_ok [OF assms(1,2,3,4) Suc.prems(2), where now = now] by metis
  show ?case
  proof (cases "nxt = []")
    case True
    have "(\<Inter>i. ids DD (devices i)) \<inter> beyond cursor \<subseteq> object_id ` set items" using it(5) [OF True] by blast
    moreover have "set items \<subseteq> (\<Union>i. (show_device now \<circ> project_device) ` set (held DD (devices i)))" using it(3) by blast
    ultimately show ?thesis using it(1,2,4) True by simp
  next
    case False
    note nxt = it(6) [OF False]
    have sub: "beyond nxt \<subseteq> beyond cursor" "nxt \<notin> beyond nxt" using nxt False by (auto simp: beyond_def)
    have "I \<inter> beyond nxt \<subset> I \<inter> beyond cursor" using sub nxt assms(6) [of i] by blast
    then have "card (I \<inter> beyond nxt) < fuel"
      using psubset_card_mono [of "I \<inter> beyond cursor" "I \<inter> beyond nxt"] assms(5) Suc.prems(1) by simp
    moreover have "nxt = [] \<or> is_object_id nxt \<and> to_lower nxt = nxt" using nxt by blast
    ultimately obtain rest where rest: "follow DD limit now devices (Suc i) nxt fuel = Some rest" "sorted_wrt (<) (map object_id rest)"
      "object_id ` set rest \<subseteq> beyond nxt" "(\<Inter>i. ids DD (devices i)) \<inter> beyond nxt \<subseteq> object_id ` set rest"
      "set rest \<subseteq> (\<Union>i. (show_device now \<circ> project_device) ` set (held DD (devices i)))"
      using Suc.IH [of nxt "Suc i"] by blast
    have "object_id a < object_id b" if "a \<in> set items" "b \<in> set rest" for a b
    proof -
      have "object_id a \<notin> beyond nxt" "object_id b \<in> beyond nxt" using that nxt rest(3) by blast+
      then show ?thesis using False by (auto simp: beyond_def)
    qed
    then have "sorted_wrt (<) (map object_id (items @ rest))" using it(2) rest(2) by (auto simp: sorted_wrt_append)
    moreover have "object_id ` set (items @ rest) \<subseteq> beyond cursor" using it(4) rest(3) sub by auto
    moreover have "(\<Inter>i. ids DD (devices i)) \<inter> beyond cursor \<subseteq> object_id ` set (items @ rest)"
    proof
      fix y assume "y \<in> (\<Inter>i. ids DD (devices i)) \<inter> beyond cursor"
      then show "y \<in> object_id ` set (items @ rest)" using nxt rest(4) by (cases "y \<in> beyond nxt") auto
    qed
    moreover have "set (items @ rest) \<subseteq> (\<Union>i. (show_device now \<circ> project_device) ` set (held DD (devices i)))"
      using it(3) rest(5) by auto
    ultimately show ?thesis using it(1) False rest(1) by simp
  qed
qed

text \<open>C26. A client that follows the cursors of the device list comes to an end and has seen every device that was
  registered throughout exactly once, and no agent key, whatever is registered or deleted while it reads.\<close>

theorem device_paging:
  assumes "driver_laws DD" "\<And>i P. find_docs DD (devices i) P \<noteq> None" "\<And>i. numbered DD (devices i)" "1 \<le> limit"
    and "finite I" "\<And>i. ids DD (devices i) \<subseteq> I"
  shows "\<exists>items. follow DD limit now devices 0 [] (card I + 1) = Some items \<and> sorted_wrt (<) (map object_id items)
     \<and> (\<Inter>i. ids DD (devices i)) \<subseteq> object_id ` set items
     \<and> set items \<subseteq> (\<Union>i. (show_device now \<circ> project_device) ` set (held DD (devices i)))
     \<and> list_all (\<lambda>d. get d ''api_key'' = Nil_v \<and> get d ''api_key_hash'' = Nil_v) items"
proof -
  have all: "beyond [] = UNIV" by (simp add: beyond_def)
  have "card (I \<inter> beyond []) < card I + 1" unfolding all by simp
  then have "\<exists>items. follow DD limit now devices 0 [] (card I + 1) = Some items \<and> sorted_wrt (<) (map object_id items)
     \<and> object_id ` set items \<subseteq> beyond []
     \<and> (\<Inter>i. ids DD (devices i)) \<inter> beyond [] \<subseteq> object_id ` set items
     \<and> set items \<subseteq> (\<Union>i. (show_device now \<circ> project_device) ` set (held DD (devices i)))"
    by (rule follow_lists_all [OF assms]) simp
  then obtain items where "follow DD limit now devices 0 [] (card I + 1) = Some items" "sorted_wrt (<) (map object_id items)"
    "(\<Inter>i. ids DD (devices i)) \<subseteq> object_id ` set items"
    "set items \<subseteq> (\<Union>i. (show_device now \<circ> project_device) ` set (held DD (devices i)))"
    unfolding all by blast
  moreover from this(4) have "list_all (\<lambda>d. get d ''api_key'' = Nil_v \<and> get d ''api_key_hash'' = Nil_v) items"
    by (auto simp: list_all_iff keys_hidden)
  ultimately show ?thesis by blast
qed

theorem device_paging_witness:
  "\<exists>items. follow list_driver 1 \<lparr>inst = 0, off = 0\<rparr> (\<lambda>_. [[(''_id'', Str (replicate 24 CHR ''1'')), (''api_key'', Str ''k'')],
        [(''_id'', Str (replicate 24 CHR ''0''))]]) 0 [] 3 = Some items
     \<and> map object_id items = [replicate 24 CHR ''0'', replicate 24 CHR ''1'']"
proof -
  let ?d = "[[(''_id'', Str (replicate 24 CHR ''1'')), (''api_key'', Str ''k'')], [(''_id'', Str (replicate 24 CHR ''0''))]]"
  let ?I = "{replicate 24 CHR ''0'', replicate 24 CHR ''1''}"
  have i: "ids list_driver ?d = ?I" by (auto simp: ids_def list_driver_def object_id_def)
  have n: "numbered list_driver ?d" by code_simp
  have f: "find_docs list_driver ?d P \<noteq> None" for P by (simp add: list_driver_def)
  have c: "card ?I = 2" by (simp add: card_insert_if)
  have "\<exists>items. follow list_driver 1 \<lparr>inst = 0, off = 0\<rparr> (\<lambda>_. ?d) 0 [] (card ?I + 1) = Some items
       \<and> sorted_wrt (<) (map object_id items) \<and> (\<Inter>i::nat. ids list_driver ?d) \<subseteq> object_id ` set items
       \<and> set items \<subseteq> (\<Union>i::nat. (show_device \<lparr>inst = 0, off = 0\<rparr> \<circ> project_device) ` set (held list_driver ?d))
       \<and> list_all (\<lambda>d. get d ''api_key'' = Nil_v \<and> get d ''api_key_hash'' = Nil_v) items"
  proof (rule device_paging [OF list_driver_laws])
    show "ids list_driver ?d \<subseteq> ?I" by (simp only: i)
  qed (rule f, rule n, simp_all)
  then obtain items where it: "follow list_driver 1 \<lparr>inst = 0, off = 0\<rparr> (\<lambda>_. ?d) 0 [] (card ?I + 1) = Some items"
    "sorted_wrt (<) (map object_id items)" "(\<Inter>i::nat. ids list_driver ?d) \<subseteq> object_id ` set items"
    "set items \<subseteq> (\<Union>i::nat. (show_device \<lparr>inst = 0, off = 0\<rparr> \<circ> project_device) ` set (held list_driver ?d))"
    by blast
  have three: "card ?I + 1 = 3" using c by simp
  have "object_id ` set items \<subseteq> ?I"
  proof
    fix y assume "y \<in> object_id ` set items"
    then obtain e where e: "e \<in> set items" "y = object_id e" by blast
    then obtain d where "d \<in> set (held list_driver ?d)" "e = (show_device \<lparr>inst = 0, off = 0\<rparr> \<circ> project_device) d"
      using it(4) by blast
    then have "d \<in> set (held list_driver ?d)" "y = object_id d" by (simp_all only: e(2) comp_def object_id_shown)
    then show "y \<in> ?I" unfolding i [symmetric] ids_def by blast
  qed
  moreover have "?I \<subseteq> object_id ` set items"
    by (rule order_trans [OF _ it(3)]) (intro INT_greatest, simp only: i)
  ultimately have same: "set (map object_id items) = ?I" by (simp only: set_map antisym)
  have "CHR ''0'' < CHR ''1''" by simp
  then have "sorted_wrt (<) [replicate 24 CHR ''0'', replicate 24 CHR ''1'']" by (simp add: numeral_eq_Suc)
  then have "map object_id items = [replicate 24 CHR ''0'', replicate 24 CHR ''1'']"
    by (rule strict_sorted_equal [OF _ it(2)]) (simp only: same list.set)
  with it(1) [unfolded three] show ?thesis by (intro exI conjI)
qed

end
