(* ===== verification/Ingest.thy ===== *)
theory Ingest
  imports BrowserArchive DayArchive FocusCache Registry DeviceViews
begin

text \<open>
  \<^verbatim>\<open>ingestHandler\<close> of \<^verbatim>\<open>api/main.go\<close>, the one request that brings telemetry in, with the slim documents of
  \<^verbatim>\<open>api/telemetry_slim.go\<close>: authentication, the stamps of the server, the policy, duplicates, the collector lease, the
  three archives, the document of the event, the device's latest state, the row of the day and the focus
  totals. The stores, the S3 client and the clock are parameters.
\<close>

named_theorems ingest \<open>facts on the ingest\<close>

subsection \<open>What the store keeps\<close>

text \<open>A value as the BSON encoder and decoder hand it back.\<close>

fun bson_val :: "val \<Rightarrow> val" where
  "bson_val (Obj m) = BObj (map (\<lambda>(k, v). (k, bson_val v)) m)"
| "bson_val (BObj m) = BObj (map (\<lambda>(k, v). (k, bson_val v)) m)"
| "bson_val (Ptr_v m) = BObj (map (\<lambda>(k, v). (k, bson_val v)) m)"
| "bson_val (Arr xs) = BArr (map bson_val xs)"
| "bson_val (BArr xs) = BArr (map bson_val xs)"
| "bson_val (Int_v n) = (if - (2 ^ 31) \<le> n \<and> n < 2 ^ 31 then I32 n else I64 n)"
| "bson_val v = v"

definition stored :: "obj \<Rightarrow> obj" where "stored d = map (\<lambda>(k, v). (k, bson_val v)) d"

subsection \<open>The environment\<close>

text \<open>
  The request as it reaches the handler: its body cannot be read (or is over 5 MB), is no JSON, or is a JSON value.
\<close>

datatype ingest_body = Unreadable | No_json | Json_body val

text \<open>
  \<open>ie_clock i\<close> is what the \<open>i\<close>-th reading of the clock gives. \<open>ie_set\<close> is what the store makes of a document under
  \<^verbatim>\<open>$set\<close> and \<^verbatim>\<open>$unset\<close> with dotted paths, \<open>None\<close> when it refuses. \<open>ie_dup\<close>: the failed insertion of this
  document violates a unique index. \<open>ie_sprint\<close> is \<^verbatim>\<open>fmt.Sprint\<close> on values that are neither text nor \<^verbatim>\<open>nil\<close>. The
  permutations are orders of Go's map iteration.
\<close>

record ('d, 't, 'a, 'v, 'w) ingest_env =
  ie_hash :: "string \<Rightarrow> string"
  ie_devices :: "('d, obj) driver"
  ie_telemetry :: "('t, obj) driver"
  ie_activity :: "('a, obj) driver"
  ie_revocations :: "('v, obj) driver"
  ie_s3 :: "string \<Rightarrow> 'w s3"
  ie_digest :: "val \<Rightarrow> string"
  ie_browser_archive :: "archive option"
  ie_day_archive :: "archive option"
  ie_payload_archive :: "archive option"
  ie_clock :: "nat \<Rightarrow> gotime"
  ie_set :: "obj \<Rightarrow> string list \<Rightarrow> obj \<Rightarrow> obj option"
  ie_dup :: "'t \<Rightarrow> obj \<Rightarrow> bool"
  ie_sprint :: "val \<Rightarrow> string"
  ie_groups :: "(string \<times> val list) list \<Rightarrow> (string \<times> val list) list"
  ie_apps :: "val list \<Rightarrow> val list"
  ie_collectors :: "obj \<Rightarrow> obj"
  ie_store_full :: bool
  ie_snapshot_minutes :: int

record ('d, 't, 'a, 'v, 'w) ingest_world =
  iw_devices :: 'd
  iw_telemetry :: 't
  iw_activity :: 'a
  iw_revocations :: 'v
  iw_bucket :: 'w
  iw_focus :: focus_cache
  iw_snapshots :: "string \<rightharpoonup> gotime"
  iw_policy :: policy_store

subsection \<open>The document of an event\<close>

definition telemetryStoreFull :: "string \<Rightarrow> bool" where
  "telemetryStoreFull env = eq_fold (trim_space env) ''true''"

definition telemetrySnapshotInterval :: "int \<Rightarrow> int" where
  "telemetrySnapshotInterval minutes = i64 (minutes * minute_ns)"

text \<open>\<^verbatim>\<open>snapshotTracker.due\<close>.\<close>

definition snapshot_due :: "string \<Rightarrow> gotime \<Rightarrow> int \<Rightarrow> (string \<rightharpoonup> gotime) \<Rightarrow> bool \<times> (string \<rightharpoonup> gotime)" where
  "snapshot_due key now every tracker =
     (if every \<le> 0 then (False, tracker)
      else case tracker key of
        Some t \<Rightarrow> if sub now t < every then (False, tracker) else (True, tracker(key \<mapsto> now))
      | None \<Rightarrow> (True, tracker(key \<mapsto> now)))"

definition slimTelemetryFields :: "string list" where
  "slimTelemetryFields =
     [''device_id'', ''event_id'', ''agent_session_id'', ''boot_id'', ''sequence'', ''collector_role'',
      ''timestamp'', ''ingested_at'', ''telemetry_expires_at'', ''agent_version'', ''agent_os'',
      ''agent_arch'', ''username'', ''app_usage_archive'', ''browser_history_archive'']"

text \<open>The data that both documents keep: the summaries of the cycle and the pointer to the archived browser history.\<close>

definition kept_data :: "gotime \<Rightarrow> obj \<Rightarrow> obj" where
  "kept_data now payload =
     (let summaries = focusSummariesFromPayload now payload
      in (if summaries = [] then [] else [(''ActiveWindowTracker'', BObj [(''app_summaries'', Arr summaries)])])
         @ (if get payload ''browser_history_archive'' = Nil_v then []
            else [(''BrowserHistory'', BObj [(''archive'', get payload ''browser_history_archive'')])]))"

definition with_data :: "obj \<Rightarrow> obj \<Rightarrow> obj" where
  "with_data doc data = (if data = [] then doc else al_upd ''data'' (BObj data) doc)"

definition slimTelemetryDoc :: "gotime \<Rightarrow> obj \<Rightarrow> obj" where
  "slimTelemetryDoc now payload =
     with_data ((''slim'', Bool_v True) # map (\<lambda>k. (k, get payload k)) (filter (\<lambda>k. get payload k \<noteq> Nil_v) slimTelemetryFields))
       (kept_data now payload)"

definition metadata_fields :: "string list" where
  "metadata_fields =
     [''device_id'', ''event_id'', ''agent_session_id'', ''boot_id'', ''sequence'', ''collector_role'',
      ''timestamp'', ''ingested_at'', ''telemetry_expires_at'']"

definition telemetryMetadata :: "gotime \<Rightarrow> obj \<Rightarrow> obj \<Rightarrow> obj" where
  "telemetryMetadata now payload archiveResult =
     with_data
       (map (\<lambda>k. (k, get payload k)) metadata_fields
        @ [(''telemetry_archive'', Ptr_v archiveResult), (''telemetry_archive_key'', get archiveResult ''key'')]
        @ map (\<lambda>k. (k, get payload k)) [''agent_version'', ''agent_os'', ''agent_arch'', ''username'', ''app_usage_archive'', ''browser_history_archive''])
       (kept_data now payload)"

text \<open>\<^verbatim>\<open>fmt.Sprint\<close>.\<close>

definition sprint :: "(val \<Rightarrow> string) \<Rightarrow> val \<Rightarrow> string" where
  "sprint other v = (case v of Nil_v \<Rightarrow> ''<nil>'' | Str s \<Rightarrow> s | _ \<Rightarrow> other v)"

definition telemetryDocForStorage ::
  "bool \<Rightarrow> int \<Rightarrow> (val \<Rightarrow> string) \<Rightarrow> gotime \<Rightarrow> gotime \<Rightarrow> obj \<Rightarrow> obj option \<Rightarrow> (string \<rightharpoonup> gotime) \<Rightarrow> obj \<times> (string \<rightharpoonup> gotime)" where
  "telemetryDocForStorage full minutes other now now5 payload archiveResult tracker =
     (case archiveResult of
        Some r \<Rightarrow> (telemetryMetadata now5 payload r, tracker)
      | None \<Rightarrow>
          if full then (payload, tracker)
          else (case snapshot_due (sprint other (get payload ''device_id'') @ ''|'' @ sprint other (get payload ''collector_role''))
                       now (telemetrySnapshotInterval minutes) tracker of
                  (True, tracker1) \<Rightarrow> (al_upd ''snapshot'' (Bool_v True) payload, tracker1)
                | (False, tracker1) \<Rightarrow> (slimTelemetryDoc now5 payload, tracker1)))"

subsection \<open>The latest state of a device\<close>

definition applyBrowserHistoryDelta :: "obj \<Rightarrow> val \<Rightarrow> obj" where
  "applyBrowserHistoryDelta setDoc v =
     (case as_obj v of None \<Rightarrow> setDoc
      | Some m \<Rightarrow>
          let s1 = (case as_arr (get m ''top_recent_urls'') of
                      Some urls \<Rightarrow> if urls \<noteq> [] then al_upd ''data.BrowserHistory.top_recent_urls'' (Arr urls) setDoc else setDoc
                    | None \<Rightarrow> setDoc);
              s2 = (if str_of (get m ''sync_type'') \<noteq> [] then al_upd ''data.BrowserHistory.sync_type'' (get m ''sync_type'') s1 else s1)
          in (case map_of m ''archive'' of Some r \<Rightarrow> al_upd ''data.BrowserHistory.archive'' r s2 | None \<Rightarrow> s2))"

definition set_collector :: "gotime \<Rightarrow> obj \<Rightarrow> string \<times> val \<Rightarrow> obj" where
  "set_collector now setDoc kv =
     (case kv of (name, v) \<Rightarrow>
        if name = ''BrowserHistory'' then applyBrowserHistoryDelta setDoc v
        else if name = ''ActiveWindowTracker'' \<and> \<not> activeWindowSnapshotFreshAt v now
        then al_upd (''data.'' @ name) (Obj (staleActiveWindowPayload now)) setDoc
        else al_upd (''data.'' @ name) v setDoc)"

definition set_text :: "obj \<Rightarrow> obj \<Rightarrow> string \<Rightarrow> obj" where
  "set_text payload setDoc k = (if str_of (get payload k) \<noteq> [] then al_upd k (get payload k) setDoc else setDoc)"

definition device_base :: "gotime \<Rightarrow> string \<Rightarrow> obj \<Rightarrow> obj" where
  "device_base now dev payload =
     foldl (set_text payload)
       [(''device_id'', Str dev), (''timestamp'', get payload ''timestamp''), (''last_seen'', Time_v now)]
       [''agent_version'', ''agent_os'', ''agent_arch'', ''username'']"

definition device_set :: "(obj \<Rightarrow> obj) \<Rightarrow> gotime \<Rightarrow> string \<Rightarrow> obj \<Rightarrow> obj" where
  "device_set order now dev payload =
     (case as_obj (get payload ''data'') of
        Some data \<Rightarrow> foldl (set_collector now) (device_base now dev payload) (order data)
      | None \<Rightarrow> al_upd ''data'' (get payload ''data'') (device_base now dev payload))"

definition device_unset :: "bool \<Rightarrow> obj \<Rightarrow> string list" where
  "device_unset archiving payload =
     (if map_of payload ''browser_history_archive'' \<noteq> None \<or> archiving
      then [''data.BrowserHistory.new_history_entries'', ''data.BrowserHistory.top_recent_urls''] else [])"

subsection \<open>The stages of the handler\<close>

text \<open>The server's stamps, then the filters. The retention ends after whole days of the server's zone, which is taken
  to have no clock changes.\<close>

definition prepare_payload :: "policy_store \<Rightarrow> string \<Rightarrow> gotime \<Rightarrow> obj \<Rightarrow> obj" where
  "prepare_payload gp dev now body =
     (let p = al_upd ''telemetry_expires_at'' (Time_v (add now (currentRetentionDays gp * day_ns)))
                (al_upd ''ingested_at'' (Time_v now) (al_upd ''device_id'' (Str dev) body))
      in enforceBrowserHistoryPolicy (sanitizeActiveWindowPayload p)
           (str_of (get (config gp) ''browser_history_mode'')) (bool_of (get (config gp) ''collect_browser_history'')))"

definition event_of :: "string \<Rightarrow> string \<Rightarrow> obj \<Rightarrow> bool" where
  "event_of dev eventID d \<longleftrightarrow> get d ''device_id'' = Str dev \<and> get d ''event_id'' = Str eventID"

definition event_id :: "obj \<Rightarrow> string option" where
  "event_id payload = (case as_str (get payload ''event_id'') of Some e \<Rightarrow> if trim_space e \<noteq> [] then Some e else None | None \<Rightarrow> None)"

definition accepted_duplicate :: "val \<Rightarrow> response" where
  "accepted_duplicate eventID = Json 200 (Obj [(''accepted'', Bool_v True), (''duplicate'', Bool_v True), (''event_id'', eventID)])"

text \<open>The three archives, each with the payload it leaves; \<open>None\<close> when it fails.\<close>

definition archive_browser ::
  "('d, 't, 'a, 'v, 'w) ingest_env \<Rightarrow> string \<Rightarrow> obj \<Rightarrow> 'w \<Rightarrow> obj option \<times> 'w" where
  "archive_browser env dev payload w =
     (case ie_browser_archive env of None \<Rightarrow> (Some payload, w)
      | Some a \<Rightarrow>
          (case browser_Archive (ie_s3 env (ar_bucket a)) (ie_digest env) a (ie_groups env) (ie_clock env 2) dev payload w of
             (Archive_error, w1) \<Rightarrow> (None, w1)
           | (Archived r, w1) \<Rightarrow> (Some (pruneArchivedBrowserHistory r (al_upd ''browser_history_archive'' (Ptr_v r) payload)), w1)
           | (Skipped, w1) \<Rightarrow> (Some (dropBrowserRecentSnapshot payload), w1)))"

definition archive_day ::
  "('d, 't, 'a, 'v, 'w) ingest_env \<Rightarrow> string \<Rightarrow> obj \<Rightarrow> 'w \<Rightarrow> (obj \<times> obj option) option \<times> 'w" where
  "archive_day env dev payload w =
     (case ie_day_archive env of None \<Rightarrow> (Some (payload, None), w)
      | Some a \<Rightarrow>
          (case activity_Archive (ie_s3 env (ar_bucket a)) a (ie_apps env) (ie_clock env 3) dev payload w of
             (Archive_error, w1) \<Rightarrow> (None, w1)
           | (Archived r, w1) \<Rightarrow> (Some (al_upd ''app_usage_archive'' (Ptr_v r) payload, Some r), w1)
           | (Skipped, w1) \<Rightarrow> (Some (payload, None), w1)))"

definition archive_payload ::
  "('d, 't, 'a, 'v, 'w) ingest_env \<Rightarrow> string \<Rightarrow> obj \<Rightarrow> 'w \<Rightarrow> (obj \<times> obj option) option \<times> 'w" where
  "archive_payload env dev payload w =
     (case ie_payload_archive env of None \<Rightarrow> (Some (payload, None), w)
      | Some a \<Rightarrow>
          (case telemetry_Archive (ie_s3 env (ar_bucket a)) (ie_digest env) a (ie_clock env 4) dev payload w of
             (Archived r, w1) \<Rightarrow> (Some (al_upd ''telemetry_archive'' (Ptr_v r) payload, Some r), w1)
           | (_, w1) \<Rightarrow> (None, w1)))"

text \<open>The device's latest state. A refused or failed update is logged only.\<close>

definition device_update :: "('d, 't, 'a, 'v, 'w) ingest_env \<Rightarrow> string \<Rightarrow> obj \<Rightarrow> obj \<Rightarrow> obj option" where
  "device_update env dev payload d =
     ie_set env (stored (device_set (ie_collectors env) (ie_clock env 0) dev payload))
       (device_unset (ie_browser_archive env \<noteq> None) payload) d"

definition update_state :: "('d, 't, 'a, 'v, 'w) ingest_env \<Rightarrow> string \<Rightarrow> obj \<Rightarrow> 'd \<Rightarrow> 'd" where
  "update_state env dev payload devices =
     (case device_update env dev payload [(''device_id'', Str dev)] of
        None \<Rightarrow> fst (update_one (ie_devices env) devices (same_device dev) (\<lambda>d. case device_update env dev payload d of Some d' \<Rightarrow> d' | None \<Rightarrow> d))
      | Some d0 \<Rightarrow> fst (upsert_one (ie_devices env) devices (same_device dev)
                        (\<lambda>d. case device_update env dev payload d of Some d' \<Rightarrow> d' | None \<Rightarrow> d) d0))"

text \<open>The row of the day.\<close>

definition day_row :: "gotime \<Rightarrow> string \<Rightarrow> obj \<Rightarrow> obj" where
  "day_row now dev r =
     [(''device_id'', Str dev), (''username'', get r ''username''), (''date'', get r ''date''), (''total_seconds'', get r ''total_seconds''),
      (''session_count'', get r ''session_count''), (''top_apps'', get r ''top_apps''), (''archive'', Ptr_v r),
      (''archive_bucket'', get r ''bucket''), (''archive_key'', get r ''key''), (''updated_at'', Time_v now)]"

definition is_day_row :: "string \<Rightarrow> obj \<Rightarrow> obj \<Rightarrow> bool" where
  "is_day_row dev r d \<longleftrightarrow> same_device dev d \<and> get d ''username'' = get r ''username'' \<and> get d ''date'' = get r ''date''"

definition update_day_row :: "('a, obj) driver \<Rightarrow> gotime \<Rightarrow> string \<Rightarrow> obj option \<Rightarrow> 'a \<Rightarrow> 'a" where
  "update_day_row AD now dev result activity =
     (case result of None \<Rightarrow> activity
      | Some r \<Rightarrow> fst (upsert_one AD activity (is_day_row dev r) (set_all (stored (day_row now dev r)))
                       (stored (day_row now dev r) @ [(''created_at'', Time_v now)])))"

text \<open>The background update of the focus totals, taken as done at once.\<close>

definition update_focus :: "gotime \<Rightarrow> string \<Rightarrow> obj \<Rightarrow> focus_cache \<Rightarrow> focus_cache" where
  "update_focus now dev payload fc =
     (case payload_tracker payload of None \<Rightarrow> fc
      | Some awt \<Rightarrow>
          if \<not> activeWindowSnapshotFreshAt (Obj awt) now then fc
          else (case as_arr (get awt ''app_summaries'') of
                  Some raw \<Rightarrow> if raw \<noteq> [] then applyFocusSummaries dev raw fc else fc
                | None \<Rightarrow> fc))"

definition ingest_reply :: "('d, obj) driver \<Rightarrow> string \<Rightarrow> 'd \<Rightarrow> response" where
  "ingest_reply DD dev devices =
     (let ok = [(''ok'', Bool_v True)]
      in Json 200 (BObj (case find_docs DD devices (same_device dev) of
           Some (state # _) \<Rightarrow>
             if str_of (get state ''agent_update_status'') = ''update_requested''
             then ok @ [(''check_update_now'', Bool_v True)]
                  @ (if str_of (get state ''agent_target_version'') \<noteq> []
                     then [(''target_version'', get state ''agent_target_version'')] else [])
             else ok
         | _ \<Rightarrow> ok)))"

subsection \<open>The handler\<close>

text \<open>From the insertion of the event on.\<close>

definition ingest_commit ::
  "('d, 't, 'a, 'v, 'w) ingest_env \<Rightarrow> string \<Rightarrow> obj \<Rightarrow> obj option \<Rightarrow> obj option \<Rightarrow> ('d, 't, 'a, 'v, 'w) ingest_world
     \<Rightarrow> response \<times> ('d, 't, 'a, 'v, 'w) ingest_world" where
  "ingest_commit env dev payload day archived world =
     (case telemetryDocForStorage (ie_store_full env) (ie_snapshot_minutes env) (ie_sprint env) (ie_clock env 0) (ie_clock env 5)
             payload archived (iw_snapshots world) of (doc, tracker) \<Rightarrow>
        let world1 = world\<lparr>iw_snapshots := tracker\<rparr>
        in (case insert_one (ie_telemetry env) (iw_telemetry world) (stored doc) of
              (telemetry, False) \<Rightarrow>
                (if ie_dup env (iw_telemetry world) (stored doc) \<and> trim_space (sprint (ie_sprint env) (get payload ''event_id'')) \<noteq> []
                 then accepted_duplicate (get payload ''event_id'') else HttpError 500 ''Database error'',
                 world1\<lparr>iw_telemetry := telemetry\<rparr>)
            | (telemetry, True) \<Rightarrow>
                let devices = update_state env dev payload (iw_devices world);
                    activity = update_day_row (ie_activity env) (ie_clock env 0) dev day (iw_activity world);
                    focus = update_focus (ie_clock env 6) dev payload (iw_focus world)
                in (ingest_reply (ie_devices env) dev devices,
                    world1\<lparr>iw_telemetry := telemetry, iw_devices := devices, iw_activity := activity, iw_focus := focus\<rparr>)))"

text \<open>The archives, one after the other.\<close>

definition ingest_archive ::
  "('d, 't, 'a, 'v, 'w) ingest_env \<Rightarrow> string \<Rightarrow> obj \<Rightarrow> ('d, 't, 'a, 'v, 'w) ingest_world
     \<Rightarrow> response \<times> ('d, 't, 'a, 'v, 'w) ingest_world" where
  "ingest_archive env dev payload world =
     (case archive_browser env dev payload (iw_bucket world) of
        (None, w1) \<Rightarrow> (HttpError 500 ''Browser history archive error'', world\<lparr>iw_bucket := w1\<rparr>)
      | (Some payload1, w1) \<Rightarrow> (case archive_day env dev payload1 w1 of
          (None, w2) \<Rightarrow> (HttpError 500 ''Daily app usage archive error'', world\<lparr>iw_bucket := w2\<rparr>)
        | (Some (payload2, day), w2) \<Rightarrow> (case archive_payload env dev payload2 w2 of
            (None, w3) \<Rightarrow> (HttpError 500 ''Telemetry archive error'', world\<lparr>iw_bucket := w3\<rparr>)
          | (Some (payload3, archived), w3) \<Rightarrow> ingest_commit env dev payload3 day archived (world\<lparr>iw_bucket := w3\<rparr>))))"

text \<open>The lease: only for the payload of a live active-window collector.\<close>

definition ingest_claim ::
  "('d, 't, 'a, 'v, 'w) ingest_env \<Rightarrow> string \<Rightarrow> obj \<Rightarrow> ('d, 't, 'a, 'v, 'w) ingest_world
     \<Rightarrow> bool \<times> ('d, 't, 'a, 'v, 'w) ingest_world" where
  "ingest_claim env dev payload world =
     (if str_of (get payload ''collector_role'') = ''active_window'' \<and> isLiveCollectorPayload payload (ie_clock env 0)
      then (case claimActiveWindowLease (ie_devices env) dev payload (ie_clock env 1) (iw_devices world) of
              (ok, devices) \<Rightarrow> (ok, world\<lparr>iw_devices := devices\<rparr>))
      else (True, world))"

definition ingest_payload ::
  "('d, 't, 'a, 'v, 'w) ingest_env \<Rightarrow> string \<Rightarrow> obj \<Rightarrow> ('d, 't, 'a, 'v, 'w) ingest_world
     \<Rightarrow> response \<times> ('d, 't, 'a, 'v, 'w) ingest_world" where
  "ingest_payload env dev payload world =
     (let go = (case ingest_claim env dev payload world of
            (False, world1) \<Rightarrow> (Json 200 (Obj [(''accepted'', Bool_v True), (''collector_rejected'', Bool_v True),
                                 (''reason'', Str ''another active-window collector is live'')]), world1)
          | (True, world1) \<Rightarrow> ingest_archive env dev payload world1)
      in (case event_id payload of None \<Rightarrow> go
          | Some e \<Rightarrow> (case find_docs (ie_telemetry env) (iw_telemetry world) (event_of dev e) of
              None \<Rightarrow> (HttpError 500 ''Database error'', world)
            | Some [] \<Rightarrow> go
            | Some (_ # _) \<Rightarrow> (accepted_duplicate (Str e), world))))"

text \<open>\<open>None\<close> is a panic: the JSON text \<^verbatim>\<open>null\<close> decodes into a nil map, and the first assignment to it panics.\<close>

definition ingestHandler ::
  "('d, 't, 'a, 'v, 'w) ingest_env \<Rightarrow> string \<Rightarrow> string \<Rightarrow> ingest_body \<Rightarrow> ('d, 't, 'a, 'v, 'w) ingest_world
     \<Rightarrow> response option \<times> ('d, 't, 'a, 'v, 'w) ingest_world" where
  "ingestHandler env meth apiKey body world =
     (if meth \<noteq> ''POST'' then (Some (HttpError 405 ''Method not allowed''), world)
      else case resolveAPIKey (ie_hash env) (ie_devices env) (iw_devices world) apiKey of
        (None, devices) \<Rightarrow> (Some (HttpError 401 ''Unauthorized''), world\<lparr>iw_devices := devices\<rparr>)
      | (Some dev, devices) \<Rightarrow>
          let world1 = world\<lparr>iw_devices := devices\<rparr>
          in if isDeviceRevoked (ie_revocations env) (iw_revocations world) dev [] [] then (Some (HttpError 403 ''Device is revoked''), world1)
             else (case body of
                 Unreadable \<Rightarrow> (Some (HttpError 500 ''Error reading body''), world1)
               | No_json \<Rightarrow> (Some (HttpError 400 ''Error parsing JSON''), world1)
               | Json_body Nil_v \<Rightarrow> (None, world1)
               | Json_body (Obj m) \<Rightarrow>
                   (case ingest_payload env dev (prepare_payload (iw_policy world) dev (ie_clock env 0) m) world1 of
                      (r, world2) \<Rightarrow> (Some r, world2))
               | Json_body _ \<Rightarrow> (Some (HttpError 400 ''Error parsing JSON''), world1)))"

subsection \<open>What the stages keep of a payload\<close>

lemma get_stored [ingest]: "get (stored d) k = bson_val (get d k)"
  by (induction d) (auto simp: stored_def)

lemma map_of_stored [ingest]: "map_of (stored d) k = map_option bson_val (map_of d k)"
  by (induction d) (auto simp: stored_def)

lemma get_fields: "get (map (\<lambda>k. (k, f k)) ks @ rest) k = (if k \<in> set ks then f k else get rest k)"
  by (induction ks) auto

lemma get_with_data: "k \<noteq> ''data'' \<Longrightarrow> get (with_data doc data) k = get doc k"
  by (simp add: with_data_def)

lemma get_sanitized: "k \<noteq> ''data'' \<Longrightarrow> get (sanitizeActiveWindowPayload p) k = get p k"
  by (auto simp: sanitizeActiveWindowPayload_def split: option.split)

lemma get_enforced: "k \<noteq> ''data'' \<Longrightarrow> get (enforceBrowserHistoryPolicy p mode collect) k = get p k"
  by (auto simp: enforceBrowserHistoryPolicy_def split: option.split)

lemma get_prepared:
  "get (prepare_payload gp dev now m) ''device_id'' = Str dev"
  "get (prepare_payload gp dev now m) ''event_id'' = get m ''event_id''"
  by (simp_all add: prepare_payload_def Let_def get_sanitized get_enforced)

definition server_fields :: "string set" where
  "server_fields = {''data'', ''browser_history_archive'', ''app_usage_archive'', ''telemetry_archive''}"

lemma get_set_browser: "k \<noteq> ''data'' \<Longrightarrow> get (set_browser f p) k = get p k"
  by (auto simp: set_browser_def split: option.split)

lemma archive_browser_keeps:
  "archive_browser env dev p w = (Some p', w') \<Longrightarrow> k \<notin> server_fields \<Longrightarrow> get p' k = get p k"
  by (auto simp: archive_browser_def server_fields_def dropBrowserRecentSnapshot_def pruneArchivedBrowserHistory_def get_set_browser
      split: option.splits archived.splits prod.splits)

lemma archive_day_keeps:
  "archive_day env dev p w = (Some (p', r), w') \<Longrightarrow> k \<notin> server_fields \<Longrightarrow> get p' k = get p k"
  by (auto simp: archive_day_def server_fields_def split: option.splits archived.splits prod.splits)

lemma archive_payload_keeps:
  "archive_payload env dev p w = (Some (p', r), w') \<Longrightarrow> k \<notin> server_fields \<Longrightarrow> get p' k = get p k"
  by (auto simp: archive_payload_def server_fields_def split: option.splits archived.splits prod.splits)

lemma doc_identity:
  assumes "telemetryDocForStorage full minutes other now now5 p r tracker = (doc, tracker')" "k \<in> {''device_id'', ''event_id''}"
  shows "get doc k = get p k"
proof -
  have k: "k \<in> set slimTelemetryFields" "k \<in> set metadata_fields" "k \<noteq> ''data''" "k \<noteq> ''slim''" "k \<noteq> ''snapshot''"
    using assms(2) by (auto simp: slimTelemetryFields_def metadata_fields_def)
  have slim: "get (slimTelemetryDoc now5 p) k = get p k"
    using k get_fields [of "get p" "filter (\<lambda>k. get p k \<noteq> Nil_v) slimTelemetryFields" "[]" k]
    by (cases "get p k = Nil_v") (simp_all add: slimTelemetryDoc_def get_with_data)
  have meta: "get (telemetryMetadata now5 p a) k = get p k" for a
    using k by (simp add: telemetryMetadata_def get_with_data get_fields)
  show ?thesis
  proof (cases r)
    case (Some a)
    then show ?thesis using assms(1) meta by (auto simp: telemetryDocForStorage_def)
  next
    case None
    then show ?thesis using assms(1) slim k(5) by (auto simp: telemetryDocForStorage_def split: if_splits prod.splits bool.splits)
  qed
qed

subsection \<open>An event is taken in once\<close>

lemma ingest_archive_ok:
  assumes "ingest_archive env dev p world = (r, world')"
  obtains (failed) code msg w where "r = HttpError code msg" "world' = world\<lparr>iw_bucket := w\<rparr>"
  | (commit) p' day archived w where "\<And>k. k \<notin> server_fields \<Longrightarrow> get p' k = get p k"
      "ingest_commit env dev p' day archived (world\<lparr>iw_bucket := w\<rparr>) = (r, world')"
proof -
  obtain x1 w1 where 1: "archive_browser env dev p (iw_bucket world) = (x1, w1)" by (meson surj_pair)
  show ?thesis
  proof (cases x1)
    case None
    then show ?thesis using 1 assms failed by (auto simp: ingest_archive_def)
  next
    case (Some p1)
    obtain x2 w2 where 2: "archive_day env dev p1 w1 = (x2, w2)" by (meson surj_pair)
    show ?thesis
    proof (cases x2)
      case None
      then show ?thesis using 1 2 Some assms failed by (auto simp: ingest_archive_def)
    next
      case (Some pd)
      obtain p2 day where pd: "x2 = Some (p2, day)" using Some by (cases pd) auto
      obtain x3 w3 where 3: "archive_payload env dev p2 w2 = (x3, w3)" by (meson surj_pair)
      show ?thesis
      proof (cases x3)
        case None
        then show ?thesis using 1 2 3 \<open>x1 = Some p1\<close> pd assms failed by (auto simp: ingest_archive_def)
      next
        case (Some pa)
        obtain p3 archived where pa: "x3 = Some (p3, archived)" using Some by (cases pa) auto
        have "get p3 k = get p k" if "k \<notin> server_fields" for k
          using archive_browser_keeps [of env dev p _ p1 w1 k] archive_day_keeps [of env dev p1 w1 p2 day w2 k]
            archive_payload_keeps [of env dev p2 w2 p3 archived w3 k] 1 2 3 \<open>x1 = Some p1\<close> pd pa that by simp
        moreover have "ingest_commit env dev p3 day archived (world\<lparr>iw_bucket := w3\<rparr>) = (r, world')"
          using 1 2 3 \<open>x1 = Some p1\<close> pd pa assms by (simp add: ingest_archive_def)
        ultimately show ?thesis by (rule commit)
      qed
    qed
  qed
qed

lemma commit_ok:
  assumes "driver_laws (ie_telemetry env)" "ingest_commit env dev p day archived world = (Json 200 (BObj fs), world')"
  obtains doc where "held (ie_telemetry env) (iw_telemetry world') = held (ie_telemetry env) (iw_telemetry world) @ [stored doc]"
    "\<And>k. k \<in> {''device_id'', ''event_id''} \<Longrightarrow> get doc k = get p k"
proof -
  obtain doc tracker where d: "telemetryDocForStorage (ie_store_full env) (ie_snapshot_minutes env) (ie_sprint env) (ie_clock env 0)
      (ie_clock env 5) p archived (iw_snapshots world) = (doc, tracker)" by (meson surj_pair)
  obtain tel ok where i: "insert_one (ie_telemetry env) (iw_telemetry world) (stored doc) = (tel, ok)" by (meson surj_pair)
  have "ok" using assms(2) d i by (cases ok) (auto simp: ingest_commit_def accepted_duplicate_def Let_def split: if_splits)
  then have "iw_telemetry world' = tel" using assms(2) d i by (auto simp: ingest_commit_def Let_def)
  moreover have "held (ie_telemetry env) tel = held (ie_telemetry env) (iw_telemetry world) @ [stored doc]"
    using driver_insert [OF assms(1) i] \<open>ok\<close> by simp
  ultimately show ?thesis using that [of doc] doc_identity [OF d] by simp
qed

lemma ingest_claim_keeps: "ingest_claim env dev p world = (ok, world') \<Longrightarrow> \<exists>d. world' = world\<lparr>iw_devices := d\<rparr>"
  by (auto simp: ingest_claim_def split: if_splits prod.splits intro: exI [of _ "iw_devices world"])

lemma event_id_Some: "get p ''event_id'' = Str e \<Longrightarrow> trim_space e \<noteq> [] \<Longrightarrow> event_id p = Some e"
  by (simp add: event_id_def)

lemma ingest_ok_held:
  assumes "driver_laws (ie_telemetry env)" "ingest_payload env dev p world = (Json 200 (BObj fs), world')"
    "get p ''device_id'' = Str dev" "get p ''event_id'' = Str e" "trim_space e \<noteq> []"
  shows "\<exists>d \<in> set (held (ie_telemetry env) (iw_telemetry world')). event_of dev e d"
proof -
  obtain ok w1 where c: "ingest_claim env dev p world = (ok, w1)" by (meson surj_pair)
  have "ingest_archive env dev p w1 = (Json 200 (BObj fs), world')"
    using assms(2) c event_id_Some [OF assms(4,5)]
    by (auto simp: ingest_payload_def accepted_duplicate_def Let_def split: option.splits list.splits bool.splits)
  then show ?thesis
  proof (cases rule: ingest_archive_ok)
    case (commit p' day archived w)
    obtain doc where "held (ie_telemetry env) (iw_telemetry world') = held (ie_telemetry env) (iw_telemetry (w1\<lparr>iw_bucket := w\<rparr>)) @ [stored doc]"
      "\<And>k. k \<in> {''device_id'', ''event_id''} \<Longrightarrow> get doc k = get p' k"
      using commit_ok [OF assms(1) commit(2)] by metis
    moreover have "''device_id'' \<notin> server_fields" "''event_id'' \<notin> server_fields" by (auto simp: server_fields_def)
    ultimately show ?thesis using commit(1) assms(3,4) by (auto simp: event_of_def get_stored)
  qed simp
qed

lemma held_event_duplicate:
  assumes "driver_laws (ie_telemetry env)" "d \<in> set (held (ie_telemetry env) (iw_telemetry world))" "event_of dev e d"
    "get p ''event_id'' = Str e" "trim_space e \<noteq> []"
  shows "ingest_payload env dev p world =
    (if find_docs (ie_telemetry env) (iw_telemetry world) (event_of dev e) = None then HttpError 500 ''Database error''
     else accepted_duplicate (Str e), world)"
proof (cases "find_docs (ie_telemetry env) (iw_telemetry world) (event_of dev e)")
  case (Some ds)
  have "d \<in># mset ds" using driver_find [OF assms(1) Some] assms(2,3) by simp
  then show ?thesis using Some event_id_Some [OF assms(4,5)]
    by (cases ds) (simp_all add: ingest_payload_def Let_def)
qed (simp add: ingest_payload_def event_id_Some [OF assms(4,5)] Let_def)

lemma ingest_authenticated:
  assumes "resolveAPIKey (ie_hash env) (ie_devices env) (iw_devices world) key = (Some dev, devices)"
  shows "ingestHandler env ''POST'' key (Json_body (Obj m)) world =
    (if isDeviceRevoked (ie_revocations env) (iw_revocations world) dev [] []
     then (Some (HttpError 403 ''Device is revoked''), world\<lparr>iw_devices := devices\<rparr>)
     else (case ingest_payload env dev (prepare_payload (iw_policy world) dev (ie_clock env 0) m) (world\<lparr>iw_devices := devices\<rparr>) of
             (r, world') \<Rightarrow> (Some r, world')))"
  using assms by (simp add: ingestHandler_def Let_def)

text \<open>C1. An event is taken in once: when a request with an event id was answered as stored, every later request of that
  device with the same event id leaves the telemetry, the devices, the archives, the daily rows and the focus totals as
  they are (but for the migration of the key it carries) and is answered as a duplicate, as long as the event is held.\<close>

theorem ingest_once:
  assumes "driver_laws (ie_telemetry env)"
    and "resolveAPIKey (ie_hash env) (ie_devices env) (iw_devices world) key = (Some dev, devices)"
    and "ingestHandler env ''POST'' key (Json_body (Obj m)) world = (Some (Json 200 (BObj answer)), world1)"
    and "get m ''event_id'' = Str e" "trim_space e \<noteq> []"
    and "ie_telemetry env2 = ie_telemetry env"
    and "set (held (ie_telemetry env) (iw_telemetry world1)) \<subseteq> set (held (ie_telemetry env) (iw_telemetry world2))"
    and "resolveAPIKey (ie_hash env2) (ie_devices env2) (iw_devices world2) key2 = (Some dev, devices2)"
    and "get m2 ''event_id'' = Str e"
  shows "ingestHandler env2 ''POST'' key2 (Json_body (Obj m2)) world2 =
    (Some (if isDeviceRevoked (ie_revocations env2) (iw_revocations world2) dev [] [] then HttpError 403 ''Device is revoked''
           else if find_docs (ie_telemetry env) (iw_telemetry world2) (event_of dev e) = None then HttpError 500 ''Database error''
           else accepted_duplicate (Str e)),
     world2\<lparr>iw_devices := devices2\<rparr>)"
proof -
  let ?p = "prepare_payload (iw_policy world) dev (ie_clock env 0) m"
  have "ingest_payload env dev ?p (world\<lparr>iw_devices := devices\<rparr>) = (Json 200 (BObj answer), world1)"
    using assms(3) ingest_authenticated [OF assms(2), of m] by (auto split: if_splits prod.splits)
  from ingest_ok_held [OF assms(1) this get_prepared(1) _ assms(5)] assms(4)
  obtain d where "d \<in> set (held (ie_telemetry env) (iw_telemetry world1))" "event_of dev e d" by (auto simp: get_prepared)
  then have d: "d \<in> set (held (ie_telemetry env2) (iw_telemetry (world2\<lparr>iw_devices := devices2\<rparr>)))" "event_of dev e d"
    using assms(6,7) by auto
  have "get (prepare_payload (iw_policy world2) dev (ie_clock env2 0) m2) ''event_id'' = Str e" using assms(9) by (simp add: get_prepared)
  from held_event_duplicate [OF _ d this assms(5)] assms(1,6) show ?thesis
    by (simp add: ingest_authenticated [OF assms(8)])
qed

subsection \<open>An agent writes to its own device only\<close>

text \<open>The update operators as documented: a plain field named in \<^verbatim>\<open>$set\<close> has the value given there, and a field at the
  head of no path is left alone.\<close>

definition path_head :: "string \<Rightarrow> string" where "path_head = takeWhile (\<lambda>c. c \<noteq> CHR ''.'')"

definition set_laws :: "(obj \<Rightarrow> string list \<Rightarrow> obj \<Rightarrow> obj option) \<Rightarrow> bool" where
  "set_laws update \<longleftrightarrow> (\<forall>s u d d' k. update s u d = Some d' \<longrightarrow> CHR ''.'' \<notin> set k \<longrightarrow>
     (map_of s k \<noteq> None \<longrightarrow> map_of d' k = map_of s k)
     \<and> (k \<notin> path_head ` (fst ` set s \<union> set u) \<longrightarrow> map_of d' k = map_of d k))"

text \<open>The fields of a device that a report may change. Keys, revocation, quarantine, update requests and
  names are not among them.\<close>

definition report_fields :: "string set" where
  "report_fields = {''device_id'', ''timestamp'', ''last_seen'', ''agent_version'', ''agent_os'', ''agent_arch'', ''username'', ''data'',
     ''active_window_lease_id'', ''active_window_lease_until''}"

definition guarded :: "obj \<Rightarrow> obj \<Rightarrow> bool" where
  "guarded d e \<longleftrightarrow> (\<forall>k. CHR ''.'' \<notin> set k \<longrightarrow> k \<notin> report_fields \<longrightarrow> map_of e k = map_of d k)"

definition own_change :: "string \<Rightarrow> (obj \<Rightarrow> obj \<Rightarrow> bool) \<Rightarrow> obj list \<Rightarrow> obj list \<Rightarrow> bool" where
  "own_change dev keep ds ds' \<longleftrightarrow>
     (\<exists>ds1. list_all2 (\<lambda>d e. e = d \<or> (same_device dev d \<and> same_device dev e \<and> keep d e)) ds ds1
        \<and> (ds' = ds1 \<or> (\<exists>d0. same_device dev d0 \<and> ds' = ds1 @ [d0])))"

lemma own_change_refl [ingest]: "own_change dev keep ds ds"
  by (auto simp: own_change_def intro: list_all2_refl)

lemma own_change_append: "same_device dev d0 \<Longrightarrow> own_change dev keep ds (ds @ [d0])"
  unfolding own_change_def by (intro exI [of _ ds]) (auto intro: list_all2_refl)

lemma one_updated_own:
  assumes "one_updated P f ds ds' d" "same_device dev d" "same_device dev (f d)" "keep d (f d)"
  shows "list_all2 (\<lambda>d e. e = d \<or> (same_device dev d \<and> same_device dev e \<and> keep d e)) ds ds'"
  using assms by (auto simp: one_updated_def intro!: list_all2_appendI list_all2_refl)

lemma own_change_trans:
  assumes "list_all2 (\<lambda>d e. e = d \<or> (same_device dev d \<and> same_device dev e \<and> keep d e)) ds ds1" "own_change dev keep ds1 ds2"
    "\<And>a b c. keep a b \<Longrightarrow> keep b c \<Longrightarrow> keep a c"
  shows "own_change dev keep ds ds2"
proof -
  let ?R = "\<lambda>d e. e = d \<or> (same_device dev d \<and> same_device dev e \<and> keep d e)"
  obtain ds3 where 3: "list_all2 ?R ds1 ds3" "ds2 = ds3 \<or> (\<exists>d0. same_device dev d0 \<and> ds2 = ds3 @ [d0])"
    using assms(2) unfolding own_change_def by blast
  have "list_all2 ?R ds ds3"
    by (rule list_all2_trans [OF _ assms(1) 3(1)]) (use assms(3) in blast)
  then show ?thesis using 3(2) unfolding own_change_def by blast
qed

lemma guarded_trans: "guarded a b \<Longrightarrow> guarded b c \<Longrightarrow> guarded a c"
  by (simp add: guarded_def)

lemma upsert_own:
  assumes "driver_laws D" "upsert_one D c P f d0 = (c', ok)" "\<And>d. P d \<Longrightarrow> same_device dev d"
    "\<And>d. P d \<Longrightarrow> same_device dev (f d) \<and> keep d (f d)" "same_device dev d0"
  shows "own_change dev keep (held D c) (held D c')"
proof -
  consider "held D c' = held D c" | d where "one_updated P f (held D c) (held D c') d" | "held D c' = held D c @ [d0]"
    using driver_upsert [OF assms(1,2)] by blast
  then show ?thesis
  proof cases
    case (2 d)
    then have "P d" by (auto simp: one_updated_def)
    then show ?thesis using one_updated_own [OF 2, of dev keep] assms(3,4) unfolding own_change_def by blast
  qed (simp_all add: own_change_refl own_change_append assms(5))
qed

lemma update_own:
  assumes "driver_laws D" "update_one D c P f = (c', n)" "\<And>d. P d \<Longrightarrow> same_device dev d"
    "\<And>d. P d \<Longrightarrow> same_device dev (f d) \<and> keep d (f d)"
  shows "list_all2 (\<lambda>d e. e = d \<or> (same_device dev d \<and> same_device dev e \<and> keep d e)) (held D c) (held D c')"
proof -
  consider "held D c' = held D c" | d where "one_updated P f (held D c) (held D c') d"
    using driver_update_one [OF assms(1,2)] by blast
  then show ?thesis
  proof cases
    case (2 d)
    then have "P d" by (auto simp: one_updated_def)
    then show ?thesis using one_updated_own [OF 2, of dev keep] assms(3,4) by blast
  qed (auto intro: list_all2_refl)
qed

text \<open>The paths of a report: below \<^verbatim>\<open>data\<close>, whatever names its collectors have.\<close>

definition grows :: "obj \<Rightarrow> obj \<Rightarrow> bool" where
  "grows s s' \<longleftrightarrow> fst ` set s \<subseteq> fst ` set s' \<and> path_head ` fst ` set s' \<subseteq> insert ''data'' (path_head ` fst ` set s)
     \<and> (\<forall>k. CHR ''.'' \<notin> set k \<longrightarrow> map_of s' k = map_of s k)"

lemma grows_refl [simp, ingest]: "grows s s"
  by (auto simp: grows_def)

lemma grows_trans: "grows a b \<Longrightarrow> grows b c \<Longrightarrow> grows a c"
proof -
  assume ab: "grows a b" and bc: "grows b c"
  have "path_head ` fst ` set c \<subseteq> insert ''data'' (path_head ` fst ` set b)" using bc by (simp only: grows_def)
  moreover have "path_head ` fst ` set b \<subseteq> insert ''data'' (path_head ` fst ` set a)" using ab by (simp only: grows_def)
  ultimately have "path_head ` fst ` set c \<subseteq> insert ''data'' (path_head ` fst ` set a)" by blast
  moreover have "fst ` set a \<subseteq> fst ` set c" using ab bc unfolding grows_def by (meson order_trans)
  ultimately show "grows a c" using ab bc by (simp add: grows_def)
qed

lemma grows_upd: "path_head k = ''data'' \<Longrightarrow> CHR ''.'' \<in> set k \<Longrightarrow> grows s (al_upd k v s)"
  by (auto simp: grows_def fst_al_upd)

lemma browser_delta_grows: "grows s (applyBrowserHistoryDelta s v)"
proof (cases "as_obj v")
  case (Some m)
  define s1 where "s1 = (case as_arr (get m ''top_recent_urls'') of
      Some urls \<Rightarrow> if urls \<noteq> [] then al_upd ''data.BrowserHistory.top_recent_urls'' (Arr urls) s else s | None \<Rightarrow> s)"
  define s2 where "s2 = (if str_of (get m ''sync_type'') \<noteq> [] then al_upd ''data.BrowserHistory.sync_type'' (get m ''sync_type'') s1 else s1)"
  have "grows s s1" by (auto simp: s1_def path_head_def intro!: grows_upd split: option.split)
  moreover have "grows s1 s2" by (auto simp: s2_def path_head_def intro!: grows_upd)
  moreover have "applyBrowserHistoryDelta s v
      = (case map_of m ''archive'' of Some r \<Rightarrow> al_upd ''data.BrowserHistory.archive'' r s2 | None \<Rightarrow> s2)"
    unfolding applyBrowserHistoryDelta_def Some s1_def s2_def Let_def by (simp only: option.case)
  then have "grows s2 (applyBrowserHistoryDelta s v)"
    by (auto simp: path_head_def intro!: grows_upd split: option.split)
  ultimately show ?thesis using grows_trans by blast
qed (simp add: applyBrowserHistoryDelta_def)

lemma set_collector_grows: "grows s (set_collector now s kv)"
  by (auto simp: set_collector_def path_head_def browser_delta_grows intro!: grows_upd split: prod.split)

lemma set_collectors_grow: "grows s (foldl (set_collector now) s kvs)"
proof (induction kvs arbitrary: s)
  case (Cons kv kvs)
  show ?case using grows_trans [OF set_collector_grows Cons.IH] by simp
qed simp

lemma set_texts_keys:
  "fst ` set (foldl (set_text p) s ks) \<subseteq> fst ` set s \<union> set ks"
  "k \<notin> set ks \<Longrightarrow> map_of (foldl (set_text p) s ks) k = map_of s k"
proof (induction ks arbitrary: s)
  case (Cons a ks)
  {
    case 1
    show ?case using Cons.IH(1) [of "set_text p s a"] by (auto simp: set_text_def fst_al_upd split: if_splits)
  next
    case 2
    then show ?case using Cons.IH(2) [of "set_text p s a"] by (simp add: set_text_def)
  }
qed simp_all

lemma report_paths:
  "path_head ` fst ` set (device_set order now dev p) \<subseteq> report_fields"
  "map_of (device_set order now dev p) ''device_id'' = Some (Str dev)"
proof -
  define base where "base = device_base now dev p"
  have "fst ` set base \<subseteq> report_fields - {''data''}"
    unfolding base_def device_base_def by (rule order_trans [OF set_texts_keys(1)]) (simp add: report_fields_def)
  moreover have "path_head k = k" if "k \<in> report_fields" for k
    using that by (auto simp: report_fields_def path_head_def)
  ultimately have b: "path_head ` fst ` set base \<subseteq> report_fields" by (auto simp: image_subset_iff)
  have i: "map_of base ''device_id'' = Some (Str dev)" unfolding base_def device_base_def by (subst set_texts_keys(2)) simp_all
  have g: "grows base (foldl (set_collector now) base kvs)" for kvs by (rule set_collectors_grow)
  have "''data'' \<in> report_fields" "path_head ''data'' = ''data''" by (simp_all add: report_fields_def path_head_def)
  then have d: "insert ''data'' (path_head ` fst ` set base) \<subseteq> report_fields" using b by blast
  show "path_head ` fst ` set (device_set order now dev p) \<subseteq> report_fields"
  proof (cases "as_obj (get p ''data'')")
    case None
    then have "path_head ` fst ` set (device_set order now dev p) = insert ''data'' (path_head ` fst ` set base)"
      using \<open>path_head ''data'' = ''data''\<close> by (simp add: device_set_def base_def [symmetric] fst_al_upd)
    then show ?thesis using d by (simp only:)
  next
    case (Some data)
    then have "device_set order now dev p = foldl (set_collector now) base (order data)"
      by (simp add: device_set_def base_def [symmetric])
    moreover have "path_head ` fst ` set (foldl (set_collector now) base (order data)) \<subseteq> insert ''data'' (path_head ` fst ` set base)"
      using g [of "order data"] by (simp only: grows_def)
    ultimately show ?thesis using d by (simp only:)
  qed
  show "map_of (device_set order now dev p) ''device_id'' = Some (Str dev)"
    using g i unfolding device_set_def base_def [symmetric] grows_def
    by (cases "as_obj (get p ''data'')") auto
qed

lemma unset_heads: "path_head ` set (device_unset archiving p) \<subseteq> report_fields"
  by (auto simp: device_unset_def path_head_def report_fields_def)

lemma stored_keys [simp]: "fst ` set (stored d) = fst ` set d"
  by (force simp: stored_def)

lemma device_update_laws:
  assumes "set_laws (ie_set env)" "device_update env dev p d = Some d'"
  shows "same_device dev d'" "guarded d d'"
proof -
  let ?s = "stored (device_set (ie_collectors env) (ie_clock env 0) dev p)"
  let ?u = "device_unset (ie_browser_archive env \<noteq> None) p"
  have u: "ie_set env ?s ?u d = Some d'" using assms(2) by (simp add: device_update_def)
  have law: "CHR ''.'' \<notin> set k \<Longrightarrow> (map_of ?s k \<noteq> None \<longrightarrow> map_of d' k = map_of ?s k)
      \<and> (k \<notin> path_head ` (fst ` set ?s \<union> set ?u) \<longrightarrow> map_of d' k = map_of d k)" for k
    using assms(1) u unfolding set_laws_def by blast
  show "same_device dev d'" using law [of "''device_id''"] report_paths(2)
    by (simp add: same_device_def get_def map_of_stored)
  show "guarded d d'" unfolding guarded_def
  proof (intro allI impI)
    fix k :: string assume k: "CHR ''.'' \<notin> set k" "k \<notin> report_fields"
    then have "k \<notin> path_head ` (fst ` set ?s \<union> set ?u)"
      using report_paths(1) [of "ie_collectors env" "ie_clock env 0" dev p] unset_heads [of "ie_browser_archive env \<noteq> None" p]
      by (simp add: image_Un) blast
    then show "map_of d' k = map_of d k" using law [OF k(1)] by blast
  qed
qed

lemma update_state_own:
  assumes "driver_laws (ie_devices env)" "set_laws (ie_set env)"
  shows "own_change dev guarded (held (ie_devices env) devices) (held (ie_devices env) (update_state env dev p devices))"
proof -
  let ?f = "\<lambda>d. case device_update env dev p d of Some d' \<Rightarrow> d' | None \<Rightarrow> d"
  have f: "same_device dev (?f d) \<and> guarded d (?f d)" if "same_device dev d" for d
    using device_update_laws [OF assms(2)] that by (auto simp: guarded_def split: option.split)
  show ?thesis
  proof (cases "device_update env dev p [(''device_id'', Str dev)]")
    case None
    obtain c n where c: "update_one (ie_devices env) devices (same_device dev) ?f = (c, n)" by (meson surj_pair)
    have "list_all2 (\<lambda>d e. e = d \<or> (same_device dev d \<and> same_device dev e \<and> guarded d e)) (held (ie_devices env) devices) (held (ie_devices env) c)"
      by (rule update_own [OF assms(1) c]; (assumption | rule f))
    then show ?thesis using None c by (auto simp: update_state_def own_change_def)
  next
    case (Some d0)
    obtain c ok where c: "upsert_one (ie_devices env) devices (same_device dev) ?f d0 = (c, ok)" by (meson surj_pair)
    have "own_change dev guarded (held (ie_devices env) devices) (held (ie_devices env) c)"
      by (rule upsert_own [OF assms(1) c]; (assumption | rule f | rule device_update_laws(1) [OF assms(2) Some]))
    then show ?thesis using Some c by (simp add: update_state_def)
  qed
qed

text \<open>What a request changes in the world.\<close>

definition scoped ::
  "('d, 't, 'a, 'v, 'w) ingest_env \<Rightarrow> string \<Rightarrow> ('d, 't, 'a, 'v, 'w) ingest_world \<Rightarrow> ('d, 't, 'a, 'v, 'w) ingest_world \<Rightarrow> bool" where
  "scoped env dev world world' \<longleftrightarrow>
     own_change dev guarded (held (ie_devices env) (iw_devices world)) (held (ie_devices env) (iw_devices world'))
     \<and> own_change dev (\<lambda>d e. e = d) (held (ie_telemetry env) (iw_telemetry world)) (held (ie_telemetry env) (iw_telemetry world'))
     \<and> own_change dev (\<lambda>_ _. True) (held (ie_activity env) (iw_activity world)) (held (ie_activity env) (iw_activity world'))
     \<and> (\<forall>x. x \<noteq> dev \<longrightarrow> map_of (iw_focus world') x = map_of (iw_focus world) x)
     \<and> iw_policy world' = iw_policy world \<and> iw_revocations world' = iw_revocations world"

lemma scoped_refl: "scoped env dev world world" "scoped env dev world (world\<lparr>iw_bucket := w\<rparr>)"
  by (simp_all add: scoped_def own_change_refl)

lemma set_all_same_device:
  "map_of (rev kvs) ''device_id'' = Some (Str dev) \<Longrightarrow> same_device dev (set_all kvs d)"
proof (induction kvs arbitrary: d rule: rev_induct)
  case (snoc kv kvs)
  then show ?case by (cases kv) (auto simp: set_all_def same_device_def split: if_splits)
qed simp

lemma update_day_row_own:
  assumes "driver_laws AD"
  shows "own_change dev (\<lambda>_ _. True) (held AD activity) (held AD (update_day_row AD now dev r activity))"
proof (cases r)
  case (Some res)
  let ?row = "stored (day_row now dev res)"
  have f: "same_device dev (set_all ?row d)" for d
    by (rule set_all_same_device) (simp add: day_row_def stored_def)
  obtain c ok where c: "upsert_one AD activity (is_day_row dev res) (set_all ?row) (?row @ [(''created_at'', Time_v now)]) = (c, ok)"
    by (meson surj_pair)
  have "own_change dev (\<lambda>_ _. True) (held AD activity) (held AD c)"
    by (rule upsert_own [OF assms c]) (use f in \<open>simp_all add: is_day_row_def day_row_def stored_def same_device_def\<close>)
  then show ?thesis using Some c by (simp add: update_day_row_def)
qed (simp add: update_day_row_def own_change_refl)

lemma update_focus_own: "x \<noteq> dev \<Longrightarrow> map_of (update_focus now dev p fc) x = map_of fc x"
  by (auto simp: update_focus_def applyFocusSummaries_def split: option.split)

lemma commit_scoped:
  assumes "driver_laws (ie_devices env)" "driver_laws (ie_telemetry env)" "driver_laws (ie_activity env)" "set_laws (ie_set env)"
    "get p ''device_id'' = Str dev" "ingest_commit env dev p day archived world = (r, world')"
  shows "scoped env dev world world'"
proof -
  obtain doc tracker where d: "telemetryDocForStorage (ie_store_full env) (ie_snapshot_minutes env) (ie_sprint env) (ie_clock env 0)
      (ie_clock env 5) p archived (iw_snapshots world) = (doc, tracker)" by (meson surj_pair)
  obtain tel ok where i: "insert_one (ie_telemetry env) (iw_telemetry world) (stored doc) = (tel, ok)" by (meson surj_pair)
  have "same_device dev (stored doc)" using doc_identity [OF d] assms(5) by (simp add: same_device_def get_stored)
  then have tel: "own_change dev (\<lambda>d e. e = d) (held (ie_telemetry env) (iw_telemetry world)) (held (ie_telemetry env) tel)"
    using driver_insert [OF assms(2) i] own_change_append own_change_refl by metis
  show ?thesis
  proof (cases ok)
    case True
    then show ?thesis using assms(6) d i tel
      by (auto simp: ingest_commit_def scoped_def Let_def update_state_own [OF assms(1,4)] update_day_row_own [OF assms(3)] update_focus_own)
  next
    case False
    then show ?thesis using assms(6) d i tel
      by (auto simp: ingest_commit_def scoped_def Let_def own_change_refl)
  qed
qed

lemma guarded_lease: "guarded d (lease_set c now d)"
  by (auto simp: guarded_def lease_set_def report_fields_def)

lemma claim_scoped:
  assumes "driver_laws (ie_devices env)" "ingest_claim env dev p world = (ok, world1)"
  obtains ds where "world1 = world\<lparr>iw_devices := ds\<rparr>"
    "list_all2 (\<lambda>d e. e = d \<or> (same_device dev d \<and> same_device dev e \<and> guarded d e)) (held (ie_devices env) (iw_devices world)) (held (ie_devices env) ds)"
proof (cases "\<exists>now. claimActiveWindowLease (ie_devices env) dev p now (iw_devices world) = (ok, iw_devices world1) \<and> world1 = world\<lparr>iw_devices := iw_devices world1\<rparr>")
  case True
  then obtain now where c: "claimActiveWindowLease (ie_devices env) dev p now (iw_devices world) = (ok, iw_devices world1)"
    "world1 = world\<lparr>iw_devices := iw_devices world1\<rparr>" by blast
  let ?c = "str_of (get p ''agent_session_id'')"
  have "list_all2 (\<lambda>d e. e = d \<or> (same_device dev d \<and> same_device dev e \<and> guarded d e))
      (held (ie_devices env) (iw_devices world)) (held (ie_devices env) (iw_devices world1))"
  proof (cases "trim_space ?c = []")
    case True
    then show ?thesis using c(1) by (auto simp: claimActiveWindowLease_def Let_def intro: list_all2_refl)
  next
    case False
    then obtain n where "update_one (ie_devices env) (iw_devices world) (lease_free dev ?c now) (lease_set ?c now) = (iw_devices world1, n)"
      using c(1) by (auto simp: claimActiveWindowLease_def Let_def split: prod.splits)
    then show ?thesis
      by (rule update_own [OF assms(1)]) (auto simp: lease_free_def guarded_lease)
  qed
  then show ?thesis using that c(2) by blast
next
  case False
  then have "world1 = world" using assms(2) by (auto simp: ingest_claim_def split: if_splits prod.splits)
  then show ?thesis using that [of "iw_devices world"] by (simp add: list_all2_refl)
qed

lemma archive_scoped:
  assumes "driver_laws (ie_devices env)" "driver_laws (ie_telemetry env)" "driver_laws (ie_activity env)" "set_laws (ie_set env)"
    "get p ''device_id'' = Str dev" "ingest_archive env dev p world = (r, world')"
  shows "scoped env dev world world'"
  using assms(6)
proof (cases rule: ingest_archive_ok)
  case (commit p' day archived w)
  have "get p' ''device_id'' = Str dev" using commit(1) assms(5) by (simp add: server_fields_def)
  from commit_scoped [OF assms(1-4) this commit(2)] show ?thesis by (simp add: scoped_def)
qed (simp add: scoped_refl)

lemma ingest_payload_cases:
  assumes "ingest_payload env dev p world = (r, world')" "ingest_claim env dev p world = (ok, world1)"
  shows "world' = world \<or> world' = world1 \<or> ingest_archive env dev p world1 = (r, world')"
proof -
  let ?go = "if ok then ingest_archive env dev p world1
    else (Json 200 (Obj [(''accepted'', Bool_v True), (''collector_rejected'', Bool_v True),
            (''reason'', Str ''another active-window collector is live'')]), world1)"
  have go: "?go = (r, world') \<Longrightarrow> ?thesis" by (cases ok) auto
  show ?thesis
  proof (cases "event_id p")
    case None
    then show ?thesis using assms go by (cases ok) (simp_all add: ingest_payload_def)
  next
    case (Some e)
    show ?thesis
    proof (cases "find_docs (ie_telemetry env) (iw_telemetry world) (event_of dev e)")
      case None
      then show ?thesis using assms Some by (simp add: ingest_payload_def Let_def)
    next
      case (Some ds)
      then show ?thesis using assms \<open>event_id p = Some e\<close> go
        by (cases ds; cases ok) (simp_all add: ingest_payload_def Let_def)
    qed
  qed
qed

lemma ingest_payload_scoped:
  assumes "driver_laws (ie_devices env)" "driver_laws (ie_telemetry env)" "driver_laws (ie_activity env)" "set_laws (ie_set env)"
    "get p ''device_id'' = Str dev" "ingest_payload env dev p world = (r, world')"
  shows "scoped env dev world world'"
proof (cases "world' = world")
  case False
  obtain ok w1 where c: "ingest_claim env dev p world = (ok, w1)" by (meson surj_pair)
  obtain ds where ds: "w1 = world\<lparr>iw_devices := ds\<rparr>"
    "list_all2 (\<lambda>d e. e = d \<or> (same_device dev d \<and> same_device dev e \<and> guarded d e)) (held (ie_devices env) (iw_devices world)) (held (ie_devices env) ds)"
    by (rule claim_scoped [OF assms(1) c])
  have "scoped env dev w1 world'"
  proof (cases "world' = w1")
    case False
    then have "ingest_archive env dev p w1 = (r, world')"
      using ingest_payload_cases [OF assms(6) c] \<open>world' \<noteq> world\<close> by blast
    then show ?thesis by (rule archive_scoped [OF assms(1-5)])
  qed (simp add: scoped_refl)
  then show ?thesis
  proof -
    assume w1: "scoped env dev w1 world'"
    have "own_change dev guarded (held (ie_devices env) ds) (held (ie_devices env) (iw_devices world'))"
      using w1 by (simp add: scoped_def ds(1))
    then have "own_change dev guarded (held (ie_devices env) (iw_devices world)) (held (ie_devices env) (iw_devices world'))"
      by (rule own_change_trans [OF ds(2)]) (rule guarded_trans)
    then show ?thesis using w1 by (simp add: scoped_def ds(1))
  qed
qed (simp add: scoped_refl)

text \<open>C2. Whatever a report contains, the request of an agent changes documents of its own device only: telemetry is only
  added, under the id its key resolved to; rows, focus totals and states of other devices stay as they are; and of its own
  device no more than the reported state and the collector lease changes, so an agent cannot touch its key, its
  revocation, its quarantine, a requested update or its name.\<close>

theorem ingest_own_device:
  assumes "driver_laws (ie_devices env)" "driver_laws (ie_telemetry env)" "driver_laws (ie_activity env)" "set_laws (ie_set env)"
    and "resolveAPIKey (ie_hash env) (ie_devices env) (iw_devices world) key = (Some dev, devices)"
    and "ingestHandler env ''POST'' key body world = (r, world')"
  shows "scoped env dev (world\<lparr>iw_devices := devices\<rparr>) world'"
proof (cases "\<exists>m. body = Json_body (Obj m) \<and> \<not> isDeviceRevoked (ie_revocations env) (iw_revocations world) dev [] []")
  case True
  then obtain m where m: "body = Json_body (Obj m)" "\<not> isDeviceRevoked (ie_revocations env) (iw_revocations world) dev [] []" by blast
  let ?p = "prepare_payload (iw_policy world) dev (ie_clock env 0) m"
  obtain r' where "ingest_payload env dev ?p (world\<lparr>iw_devices := devices\<rparr>) = (r', world')"
    using assms(6) m(2) unfolding m(1) ingest_authenticated [OF assms(5)] by (auto split: prod.splits)
  from ingest_payload_scoped [OF assms(1-4) get_prepared(1) this] show ?thesis .
next
  case False
  then have "world' = world\<lparr>iw_devices := devices\<rparr>"
    using assms(5,6) by (auto simp: ingestHandler_def Let_def split: if_splits ingest_body.splits val.splits prod.splits)
  then show ?thesis by (simp add: scoped_refl)
qed

subsection \<open>What a report can break\<close>

text \<open>The JSON text \<^verbatim>\<open>null\<close> as a body ends in a panic.\<close>

theorem null_body_panics:
  assumes "resolveAPIKey (ie_hash env) (ie_devices env) (iw_devices world) key = (Some dev, devices)"
    and "\<not> isDeviceRevoked (ie_revocations env) (iw_revocations world) dev [] []"
  shows "fst (ingestHandler env ''POST'' key (Json_body Nil_v) world) = None"
  using assms by (simp add: ingestHandler_def Let_def)

text \<open>The unique index on device and event id also covers documents without an event id: a missing field counts as null.\<close>

definition event_index :: "('t, obj) driver \<Rightarrow> ('t \<Rightarrow> obj \<Rightarrow> bool) \<Rightarrow> bool" where
  "event_index TD dup \<longleftrightarrow> (\<forall>c doc. (\<exists>d \<in> set (held TD c). get d ''device_id'' = get doc ''device_id'' \<and> get d ''event_id'' = get doc ''event_id'')
     \<longrightarrow> dup c doc \<and> insert_one TD c doc = (c, False))"

text \<open>So of an agent that sends no event ids the first report only is stored; every later one is answered as an accepted
  duplicate and changes neither the telemetry nor the state of the device.\<close>

theorem reports_without_id_dropped:
  assumes "event_index (ie_telemetry env) (ie_dup env)"
    and "d \<in> set (held (ie_telemetry env) (iw_telemetry world))" "same_device dev d" "get d ''event_id'' = Nil_v"
    and "get p ''device_id'' = Str dev" "get p ''event_id'' = Nil_v"
  shows "\<exists>tracker. ingest_commit env dev p day archived world = (accepted_duplicate Nil_v, world\<lparr>iw_snapshots := tracker\<rparr>)"
proof -
  obtain doc tracker where doc: "telemetryDocForStorage (ie_store_full env) (ie_snapshot_minutes env) (ie_sprint env) (ie_clock env 0)
      (ie_clock env 5) p archived (iw_snapshots world) = (doc, tracker)" by (meson surj_pair)
  have "get (stored doc) ''device_id'' = get d ''device_id''" "get (stored doc) ''event_id'' = get d ''event_id''"
    using doc_identity [OF doc] assms(3-6) by (simp_all add: get_stored same_device_def)
  then have "ie_dup env (iw_telemetry world) (stored doc)" "insert_one (ie_telemetry env) (iw_telemetry world) (stored doc) = (iw_telemetry world, False)"
    using assms(1,2) unfolding event_index_def by metis+
  moreover have "trim_space ''<nil>'' \<noteq> []" by code_simp
  ultimately show ?thesis using doc assms(6)
    by (intro exI [of _ tracker]) (simp add: ingest_commit_def sprint_def Let_def)
qed

text \<open>The store refuses a path below a field that is null.\<close>

definition null_law :: "(obj \<Rightarrow> string list \<Rightarrow> obj \<Rightarrow> obj option) \<Rightarrow> bool" where
  "null_law update \<longleftrightarrow> (\<forall>s u d k p. p \<in> fst ` set s \<longrightarrow> path_head p = k \<longrightarrow> CHR ''.'' \<in> set p \<longrightarrow> map_of d k = Some Nil_v
     \<longrightarrow> list_all (\<lambda>q. CHR ''.'' \<in> set q) u \<longrightarrow> update s u d = None)"

lemma set_collector_new: "name \<noteq> ''BrowserHistory'' \<Longrightarrow> ''data.'' @ name \<in> fst ` set (set_collector now s (name, v))"
  by (simp add: set_collector_def fst_al_upd)

text \<open>A report without data sets the data of its device to null, and from then on no report with the data of a
  collector changes the device any more: not its data, and not when it was last seen.\<close>

theorem report_without_data_freezes:
  assumes "driver_laws (ie_devices env)" "set_laws (ie_set env)" "null_law (ie_set env)"
  shows "as_obj (get p ''data'') = None \<Longrightarrow> get p ''data'' = Nil_v \<Longrightarrow> device_update env dev p d = Some d'
           \<Longrightarrow> map_of d' ''data'' = Some Nil_v"
    and "\<lbrakk>at_most_one (ie_devices env) devices (same_device dev); d \<in> set (held (ie_devices env) devices); same_device dev d;
          map_of d ''data'' = Some Nil_v; get p2 ''data'' = Obj data; (name, v) \<in> set (ie_collectors env data); name \<noteq> ''BrowserHistory''\<rbrakk>
         \<Longrightarrow> held (ie_devices env) (update_state env dev p2 devices) = held (ie_devices env) devices"
proof -
  assume p: "as_obj (get p ''data'') = None" "get p ''data'' = Nil_v" "device_update env dev p d = Some d'"
  have "map_of (stored (device_set (ie_collectors env) (ie_clock env 0) dev p)) ''data'' = Some Nil_v"
    using p(1,2) by (simp add: device_set_def map_of_stored)
  then show "map_of d' ''data'' = Some Nil_v" using assms(2) p(3) unfolding set_laws_def device_update_def by fastforce
next
  assume d: "at_most_one (ie_devices env) devices (same_device dev)" "d \<in> set (held (ie_devices env) devices)" "same_device dev d"
    "map_of d ''data'' = Some Nil_v" "get p2 ''data'' = Obj data" "(name, v) \<in> set (ie_collectors env data)" "name \<noteq> ''BrowserHistory''"
  let ?s = "device_set (ie_collectors env) (ie_clock env 0) dev p2"
  obtain xs ys where o: "ie_collectors env data = xs @ (name, v) # ys" using split_list [OF d(6)] by blast
  have "''data.'' @ name \<in> fst ` set ?s"
  proof -
    let ?before = "foldl (set_collector (ie_clock env 0)) (device_base (ie_clock env 0) dev p2) xs"
    have "?s = foldl (set_collector (ie_clock env 0)) (set_collector (ie_clock env 0) ?before (name, v)) ys"
      using d(5) by (simp add: device_set_def o)
    moreover have "fst ` set (set_collector (ie_clock env 0) ?before (name, v))
        \<subseteq> fst ` set (foldl (set_collector (ie_clock env 0)) (set_collector (ie_clock env 0) ?before (name, v)) ys)"
      using set_collectors_grow by (simp only: grows_def)
    ultimately show ?thesis using set_collector_new [OF d(7)] by (simp only:) (rule subsetD)
  qed
  moreover have "path_head (''data.'' @ name) = ''data''" "CHR ''.'' \<in> set (''data.'' @ name)" by (simp_all add: path_head_def)
  moreover have "list_all (\<lambda>q. CHR ''.'' \<in> set q) (device_unset (ie_browser_archive env \<noteq> None) p2)" by (simp add: device_unset_def)
  ultimately have none: "device_update env dev p2 d = None"
    using assms(3) d(4) unfolding null_law_def device_update_def by (metis stored_keys)
  let ?f = "\<lambda>d. case device_update env dev p2 d of Some d' \<Rightarrow> d' | None \<Rightarrow> d"
  have same: "?f e = e" if "e \<in> set (held (ie_devices env) devices)" "same_device dev e" for e
    using at_most_one_eq [OF d(1-3) that] none by simp
  have kept: "ds' = held (ie_devices env) devices" if "one_updated (same_device dev) ?f (held (ie_devices env) devices) ds' e" for ds' e
    using that same [of e] by (auto simp: one_updated_def)
  show "held (ie_devices env) (update_state env dev p2 devices) = held (ie_devices env) devices"
  proof (cases "device_update env dev p2 [(''device_id'', Str dev)]")
    case None
    obtain c n where c: "update_one (ie_devices env) devices (same_device dev) ?f = (c, n)" by (meson surj_pair)
    show ?thesis using driver_update_one [OF assms(1) c] kept None c by (auto simp: update_state_def)
  next
    case (Some d0)
    obtain c ok where c: "upsert_one (ie_devices env) devices (same_device dev) ?f d0 = (c, ok)" by (meson surj_pair)
    show ?thesis using driver_upsert [OF assms(1) c] kept Some c d(2,3) by (auto simp: update_state_def)
  qed
qed

subsection \<open>Runs on a small store\<close>

text \<open>The update operators on one document: unsets, then dotted paths, then plain fields.\<close>

fun put_path :: "string list \<Rightarrow> val \<Rightarrow> obj \<Rightarrow> obj option" where
  "put_path [] v d = None"
| "put_path [k] v d = Some (al_upd k v d)"
| "put_path (k # ks) v d =
     (case map_of d k of
        None \<Rightarrow> map_option (\<lambda>m. al_upd k (BObj m) d) (put_path ks v [])
      | Some (BObj m) \<Rightarrow> map_option (\<lambda>m'. al_upd k (BObj m') d) (put_path ks v m)
      | Some _ \<Rightarrow> None)"

fun drop_path :: "string list \<Rightarrow> obj \<Rightarrow> obj" where
  "drop_path [] d = d"
| "drop_path [k] d = al_del k d"
| "drop_path (k # ks) d = (case map_of d k of Some (BObj m) \<Rightarrow> al_upd k (BObj (drop_path ks m)) d | _ \<Rightarrow> d)"

definition dotted :: "string \<Rightarrow> bool" where "dotted p \<longleftrightarrow> CHR ''.'' \<in> set p"

definition path_of :: "string \<Rightarrow> string list" where "path_of = split_on CHR ''.''"

fun put_all :: "(string \<times> val) list \<Rightarrow> obj \<Rightarrow> obj option" where
  "put_all [] d = Some d"
| "put_all ((p, v) # kvs) d = (if dotted p then Option.bind (put_path (path_of p) v d) (put_all kvs) else put_all kvs d)"

definition document_update :: "obj \<Rightarrow> string list \<Rightarrow> obj \<Rightarrow> obj option" where
  "document_update s u d =
     map_option (set_all (rev (filter (\<lambda>kv. \<not> dotted (fst kv)) s))) (put_all s (fold (drop_path \<circ> path_of) u d))"

lemma path_of_head: "\<exists>ks. path_of p = path_head p # ks"
  unfolding path_of_def path_head_def
proof (induction p)
  case (Cons x xs)
  then show ?case by auto
qed simp

lemma path_of_dotted: "dotted p \<Longrightarrow> \<exists>k ks. path_of p = path_head p # k # ks"
proof -
  assume "dotted p"
  then obtain a b where p: "p = a @ CHR ''.'' # b" "CHR ''.'' \<notin> set a"
    unfolding dotted_def using split_list_first [of "CHR ''.''" p] by blast
  then have "path_head p = a" unfolding path_head_def by (subst p(1), subst takeWhile_append2) auto
  moreover have "path_of p = a # split_on CHR ''.'' b" unfolding path_of_def p(1) by (rule split_on_append_sep [OF p(2)])
  ultimately show ?thesis by (cases "split_on CHR ''.'' b") simp_all
qed

lemma put_path_head: "put_path ks v d = Some d' \<Longrightarrow> k \<noteq> hd ks \<Longrightarrow> map_of d' k = map_of d k"
  by (induction ks v d rule: put_path.induct) (auto split: option.splits val.splits)

lemma drop_path_head: "ks \<noteq> [] \<Longrightarrow> k \<noteq> hd ks \<Longrightarrow> map_of (drop_path ks d) k = map_of d k"
  by (induction ks d rule: drop_path.induct) (auto split: option.splits val.splits)

lemma drop_paths_head: "k \<notin> path_head ` set u \<Longrightarrow> map_of (fold (drop_path \<circ> path_of) u d) k = map_of d k"
proof (induction u arbitrary: d)
  case (Cons p u)
  obtain ks where "path_of p = path_head p # ks" using path_of_head by blast
  then show ?case using Cons drop_path_head [of "path_of p" k d] by simp
qed simp

lemma put_all_head: "put_all s d = Some d' \<Longrightarrow> k \<notin> path_head ` fst ` set s \<Longrightarrow> map_of d' k = map_of d k"
proof (induction s arbitrary: d)
  case (Cons kv s)
  obtain p v where kv: "kv = (p, v)" by fastforce
  obtain ks where "path_of p = path_head p # ks" using path_of_head by blast
  then show ?case using Cons kv put_path_head [of "path_of p" v d _ k]
    by (auto simp: bind_eq_Some_conv split: if_splits)
qed simp

lemma map_of_set_all: "map_of (set_all (rev kvs) d) k = (case map_of kvs k of Some v \<Rightarrow> Some v | None \<Rightarrow> map_of d k)"
  by (induction kvs arbitrary: d) (auto simp: set_all_def)

lemma put_all_null:
  "p \<in> fst ` set s \<Longrightarrow> dotted p \<Longrightarrow> map_of d (path_head p) = Some Nil_v \<Longrightarrow> put_all s d = None"
proof (induction s arbitrary: d)
  case (Cons kv s)
  obtain q v where kv: "kv = (q, v)" by fastforce
  obtain ks where q: "path_of q = path_head q # ks" using path_of_head by blast
  show ?case
  proof (cases "dotted q")
    case True
    then have ks: "ks \<noteq> []" using path_of_dotted [of q] q by auto
    show ?thesis
    proof (cases "path_head q = path_head p")
      case True
      then have "put_path (path_of q) v d = None" using q ks Cons.prems(3) by (cases ks) simp_all
      then show ?thesis using kv \<open>dotted q\<close> by simp
    next
      case False
      then have "p \<noteq> q" by auto
      then have p: "p \<in> fst ` set s" using Cons.prems(1) kv by auto
      show ?thesis
      proof (cases "put_path (path_of q) v d")
        case (Some d1)
        then have "map_of d1 (path_head p) = Some Nil_v" using put_path_head [OF Some, of "path_head p"] False q Cons.prems(3) by simp
        then show ?thesis using Cons.IH [OF p Cons.prems(2)] Some kv \<open>dotted q\<close> by simp
      qed (simp add: kv \<open>dotted q\<close>)
    qed
  next
    case False
    then have "p \<in> fst ` set s" using Cons.prems(1,2) kv by auto
    then show ?thesis using Cons.IH [OF _ Cons.prems(2,3)] False kv by simp
  qed
qed simp

lemma document_update_laws: "set_laws document_update"
  unfolding set_laws_def
proof (intro allI impI conjI)
  fix s u d d' k assume u: "document_update s u d = Some d'" and k: "CHR ''.'' \<notin> set k"
  obtain e where e: "put_all s (fold (drop_path \<circ> path_of) u d) = Some e"
    "d' = set_all (rev (filter (\<lambda>kv. \<not> dotted (fst kv)) s)) e" using u by (auto simp: document_update_def)
  have m: "map_of (filter (\<lambda>kv. \<not> dotted (fst kv)) s) k = map_of s k"
    using k by (induction s) (auto simp: dotted_def)
  {
    assume "map_of s k \<noteq> None"
    then show "map_of d' k = map_of s k" using e(2) m by (auto simp: map_of_set_all)
  next
    assume h: "k \<notin> path_head ` (fst ` set s \<union> set u)"
    have "path_head k = k" using k by (auto simp: path_head_def takeWhile_eq_all_conv)
    then have "map_of s k = None" using h by (metis UnI1 imageI map_of_eq_None_iff)
    then show "map_of d' k = map_of d k"
      using e put_all_head [OF e(1), of k] drop_paths_head [of k u d] h m by (simp add: map_of_set_all image_Un)
  }
qed

lemma drop_paths_null:
  "list_all dotted u \<Longrightarrow> map_of d k = Some Nil_v \<Longrightarrow> map_of (fold (drop_path \<circ> path_of) u d) k = Some Nil_v"
proof (induction u arbitrary: d)
  case (Cons p u)
  obtain k' ks where p: "path_of p = path_head p # k' # ks" using path_of_dotted [of p] Cons.prems(1) by auto
  have "map_of (drop_path (path_of p) d) k = Some Nil_v"
  proof (cases "path_head p = k")
    case True
    then show ?thesis using Cons.prems(2) by (simp add: p)
  next
    case False
    then show ?thesis using Cons.prems(2) drop_path_head [of "path_of p" k d] by (simp add: p)
  qed
  then show ?case using Cons by simp
qed simp

lemma document_update_null: "null_law document_update"
  unfolding null_law_def document_update_def
proof (intro allI impI)
  fix s :: obj and u d k p assume a: "p \<in> fst ` set s" "path_head p = k" "CHR ''.'' \<in> set p" "map_of d k = Some Nil_v"
    "list_all (\<lambda>q. CHR ''.'' \<in> set q) u"
  then have "map_of (fold (drop_path \<circ> path_of) u d) (path_head p) = Some Nil_v"
    using drop_paths_null [of u d k] by (simp add: dotted_def [abs_def])
  then have "put_all s (fold (drop_path \<circ> path_of) u d) = None"
    using put_all_null [OF a(1)] a(3) by (simp only: dotted_def)
  then show "map_option (set_all (rev (filter (\<lambda>kv. \<not> dotted (fst kv)) s))) (put_all s (fold (drop_path \<circ> path_of) u d)) = None"
    by simp
qed

definition no_bucket :: "unit s3" where
  "no_bucket = \<lparr>s3_get = (\<lambda>_ w. (No_such_key, w)), s3_put = (\<lambda>_ _ _ w. (None, w)), s3_page = (\<lambda>_ _ _. Some ([], None)), s3_delete = (\<lambda>_ w. (True, w))\<rparr>"

definition small_env :: "(obj list, obj list, obj list, obj list, unit) ingest_env" where
  "small_env = \<lparr>ie_hash = (\<lambda>k. k), ie_devices = list_driver, ie_telemetry = list_driver, ie_activity = list_driver,
     ie_revocations = list_driver, ie_s3 = (\<lambda>_. no_bucket), ie_digest = (\<lambda>_. []), ie_browser_archive = None,
     ie_day_archive = None, ie_payload_archive = None, ie_clock = (\<lambda>_. \<lparr>inst = 0, off = 0\<rparr>), ie_set = document_update,
     ie_dup = (\<lambda>_ _. False), ie_sprint = (\<lambda>_. []), ie_groups = (\<lambda>gs. gs), ie_apps = (\<lambda>vs. vs), ie_collectors = (\<lambda>m. m),
     ie_store_full = False, ie_snapshot_minutes = 60\<rparr>"

definition small_world :: "(obj list, obj list, obj list, obj list, unit) ingest_world" where
  "small_world = \<lparr>iw_devices = [[(''device_id'', Str ''dev''), (''api_key_hash'', Str ''key'')]], iw_telemetry = [], iw_activity = [],
     iw_revocations = [], iw_bucket = (), iw_focus = [], iw_snapshots = Map.empty, iw_policy = globalPolicy\<rparr>"

definition small_report :: obj where
  "small_report = [(''device_id'', Str ''other''), (''event_id'', Str ''e1''), (''timestamp'', Str ''2026-01-02T10:00:00Z''),
     (''data'', Obj [(''SystemInfo'', Obj [(''hostname'', Str ''h'')])])]"

lemma small_laws:
  "driver_laws (ie_devices small_env)" "driver_laws (ie_telemetry small_env)" "driver_laws (ie_activity small_env)" "set_laws (ie_set small_env)"
  by (simp_all add: small_env_def list_driver_laws document_update_laws)

lemma small_key: "resolveAPIKey (ie_hash small_env) (ie_devices small_env) (iw_devices small_world) ''key'' = (Some ''dev'', iw_devices small_world)"
  by code_simp

lemma small_ok:
  "fst (ingestHandler small_env ''POST'' ''key'' (Json_body (Obj small_report)) small_world) = Some (Json 200 (BObj [(''ok'', Bool_v True)]))"
  by code_simp

theorem ingest_once_witness:
  "let again = ingestHandler small_env ''POST'' ''key'' (Json_body (Obj small_report));
       world1 = snd (again small_world)
   in fst (again small_world) = Some (Json 200 (BObj [(''ok'', Bool_v True)]))
      \<and> (\<exists>r. again world1 = (Some r, world1) \<and> r = accepted_duplicate (Str ''e1''))"
proof -
  define world1 where "world1 = snd (ingestHandler small_env ''POST'' ''key'' (Json_body (Obj small_report)) small_world)"
  have first: "ingestHandler small_env ''POST'' ''key'' (Json_body (Obj small_report)) small_world
      = (Some (Json 200 (BObj [(''ok'', Bool_v True)])), world1)"
    using small_ok by (simp add: world1_def prod_eq_iff)
  have key: "resolveAPIKey (ie_hash small_env) (ie_devices small_env) (iw_devices world1) ''key'' = (Some ''dev'', iw_devices world1)"
    unfolding world1_def by code_simp
  have found: "\<not> isDeviceRevoked (ie_revocations small_env) (iw_revocations world1) ''dev'' [] []"
    "find_docs (ie_telemetry small_env) (iw_telemetry world1) (event_of ''dev'' ''e1'') \<noteq> None"
    unfolding world1_def by code_simp+
  have e: "get small_report ''event_id'' = Str ''e1''" "trim_space ''e1'' \<noteq> []" by code_simp+
  have "ingestHandler small_env ''POST'' ''key'' (Json_body (Obj small_report)) world1 = (Some (accepted_duplicate (Str ''e1'')), world1)"
    using ingest_once [OF small_laws(2) small_key first e refl order_refl key e(1)] found by simp
  then show ?thesis using first unfolding Let_def world1_def [symmetric] by simp
qed

theorem ingest_own_device_witness:
  "scoped small_env ''dev'' small_world (snd (ingestHandler small_env ''POST'' ''key'' (Json_body (Obj small_report)) small_world))
   \<and> length (iw_telemetry (snd (ingestHandler small_env ''POST'' ''key'' (Json_body (Obj small_report)) small_world))) = 1"
proof
  have "scoped small_env ''dev'' (small_world\<lparr>iw_devices := iw_devices small_world\<rparr>)
      (snd (ingestHandler small_env ''POST'' ''key'' (Json_body (Obj small_report)) small_world))"
    by (rule ingest_own_device [OF small_laws small_key]) (rule surjective_pairing)
  then show "scoped small_env ''dev'' small_world (snd (ingestHandler small_env ''POST'' ''key'' (Json_body (Obj small_report)) small_world))"
    by simp
  show "length (iw_telemetry (snd (ingestHandler small_env ''POST'' ''key'' (Json_body (Obj small_report)) small_world))) = 1"
    by code_simp
qed

text \<open>The policy looks for the collector by its name; a collector with a dotted name is stored at the same place.\<close>

theorem dotted_collector_bypasses:
  "let off = globalPolicy\<lparr>config := al_upd ''collect_browser_history'' (Bool_v False) defaultPolicy\<rparr>;
       report = [(''data'', Obj [(''BrowserHistory.top_recent_urls'', Arr [Str ''https://private.example/page''])])];
       world = snd (ingestHandler small_env ''POST'' ''key'' (Json_body (Obj report)) (small_world\<lparr>iw_policy := off\<rparr>))
   in map (\<lambda>d. get d ''data'') (iw_devices world)
        = [BObj [(''BrowserHistory'', BObj [(''top_recent_urls'', BArr [Str ''https://private.example/page''])])]]"
  by code_simp

end
