(* ===== verification/FocusTracker.thy ===== *)
theory FocusTracker
  imports RateLimiter
begin

text \<open>
  The agent's focus tracker, \<^verbatim>\<open>agent/collector/active_window.go\<close>: samples of the foreground application are folded
  into sessions, and \<^verbatim>\<open>Collect\<close> hands over what was gathered since the last call. How the foreground
  application is found is platform code and a parameter; so is the order of Go's map iteration.
\<close>

named_theorems tracker \<open>facts on the focus tracker\<close>

subsection \<open>The state\<close>

definition sampleInterval :: int where "sampleInterval = 2 * ns_per_s"
definition foregroundAppTimeout :: int where "foregroundAppTimeout = 10 * ns_per_s"
definition activeWindowSampleStaleAt :: int where "activeWindowSampleStaleAt = 5 * minute_ns"
definition maxSampleGap :: int where "maxSampleGap = 30 * ns_per_s"

definition sourceNone :: string where "sourceNone = ''none''"
definition sourceProcGuess :: string where "sourceProcGuess = ''proc-guess''"

definition focusQuality :: "string \<Rightarrow> string" where
  "focusQuality source =
     (if source = [] \<or> source = sourceNone then ''unavailable''
      else if source = sourceProcGuess then ''estimated'' else ''accurate'')"

record focusSession =
  fs_app :: string
  fs_start :: gotime
  fs_end :: gotime
  fs_duration :: float64
  fs_continuation :: bool

record AppFocusSummary =
  sum_app :: string
  sum_seconds :: float64
  sum_sessions :: int

record ActiveWindowTracker =
  currentApp :: string
  sessionStart :: gotime
  sessionCounted :: bool
  tr_sessions :: "focusSession list"
  cumulative :: "(string \<times> AppFocusSummary) list"
  lastSampleAt :: gotime
  focusSource :: string
  focusNote :: string
  tr_idle :: bool

text \<open>\<^verbatim>\<open>Start\<close>, on a new tracker.\<close>

definition tracker_Start :: "gotime \<Rightarrow> ActiveWindowTracker" where
  "tracker_Start now = \<lparr>currentApp = [], sessionStart = zero_time, sessionCounted = False, tr_sessions = [], cumulative = [],
     lastSampleAt = now, focusSource = [], focusNote = [], tr_idle = False\<rparr>"

subsection \<open>Sampling\<close>

text \<open>The session that is open, closing at \<open>t\<close>.\<close>

definition open_fragment :: "ActiveWindowTracker \<Rightarrow> gotime \<Rightarrow> focusSession" where
  "open_fragment a t = \<lparr>fs_app = currentApp a, fs_start = sessionStart a, fs_end = t,
     fs_duration = seconds (sub t (sessionStart a)), fs_continuation = sessionCounted a\<rparr>"

definition endSession :: "gotime \<Rightarrow> ActiveWindowTracker \<Rightarrow> ActiveWindowTracker" where
  "endSession t a =
     (if currentApp a = [] then a
      else (if 0 < seconds (sub t (sessionStart a)) then a\<lparr>tr_sessions := tr_sessions a @ [open_fragment a t]\<rparr> else a)
             \<lparr>currentApp := [], sessionStart := zero_time, sessionCounted := False\<rparr>)"

definition observe :: "gotime \<Rightarrow> string \<Rightarrow> string \<Rightarrow> bool \<Rightarrow> ActiveWindowTracker \<Rightarrow> ActiveWindowTracker" where
  "observe t app source idle a =
     (let a1 = (if currentApp a \<noteq> [] \<and> \<not> is_zero (lastSampleAt a) \<and> sub t (lastSampleAt a) > maxSampleGap
                then endSession (lastSampleAt a) a else a);
          a2 = a1\<lparr>lastSampleAt := t, focusSource := (if source \<noteq> [] then source else focusSource a1), tr_idle := idle\<rparr>;
          app1 = (if idle then [] else app)
      in if app1 = [] then endSession t a2
         else if app1 \<noteq> currentApp a2 then (endSession t a2)\<lparr>currentApp := app1, sessionStart := t, sessionCounted := False\<rparr>
         else a2)"

text \<open>
  A tick of \<^verbatim>\<open>sample\<close>: \<open>found\<close> is the answer of the platform in time, \<open>None\<close> when it panicked or timed out, and \<open>away\<close>
  what it knows of the user being away, \<open>None\<close> when it cannot tell.
\<close>

definition withSource :: "string \<Rightarrow> string \<Rightarrow> string \<times> string" where
  "withSource app source = (if app = [] then ([], []) else (app, source))"

definition foregroundAppWithTimeout :: "(string \<times> string) option \<Rightarrow> string \<times> string \<times> bool" where
  "foregroundAppWithTimeout found = (case found of Some (app, source) \<Rightarrow> (app, source, True) | None \<Rightarrow> ([], sourceNone, False))"

definition sample_tick :: "gotime \<Rightarrow> (string \<times> string) option \<Rightarrow> bool option \<Rightarrow> ActiveWindowTracker \<Rightarrow> ActiveWindowTracker" where
  "sample_tick t found away a =
     (case foregroundAppWithTimeout found of (app, source, ok) \<Rightarrow>
        if \<not> ok then a
        else observe t app source (app \<noteq> [] \<and> away = Some True) a)"

definition SetFocusNote :: "string \<Rightarrow> ActiveWindowTracker \<Rightarrow> ActiveWindowTracker" where
  "SetFocusNote note a = a\<lparr>focusNote := note\<rparr>"

definition allowProcGuess :: "string \<Rightarrow> bool" where
  "allowProcGuess env = eq_fold (trim_space env) ''true''"

definition idleThreshold :: "string \<Rightarrow> int" where
  "idleThreshold env =
     (case (if trim_space env \<noteq> [] then atoi (trim_space env) else None) of
        Some n \<Rightarrow> if 0 \<le> n then i64 (n * ns_per_s) else 180 * ns_per_s
      | None \<Rightarrow> 180 * ns_per_s)"

subsection \<open>Collecting\<close>

definition add_session :: "focusSession \<Rightarrow> (string \<times> AppFocusSummary) list \<Rightarrow> (string \<times> AppFocusSummary) list" where
  "add_session s totals =
     (let t = (case map_of totals (fs_app s) of Some t \<Rightarrow> t | None \<Rightarrow> \<lparr>sum_app = fs_app s, sum_seconds = 0, sum_sessions = 0\<rparr>)
      in al_upd (fs_app s) (t\<lparr>sum_seconds := fadd (sum_seconds t) (fs_duration s),
           sum_sessions := (if fs_continuation s then sum_sessions t else i64 (sum_sessions t + 1))\<rparr>) totals)"

record focus_report =
  fr_collected_at :: gotime
  fr_last_sample_at :: gotime
  fr_fresh :: bool
  fr_source :: string
  fr_quality :: string
  fr_note :: string
  fr_idle :: bool
  fr_current :: string
  fr_sessions :: "focusSession list"
  fr_summaries :: "AppFocusSummary list"
  fr_cumulative :: "AppFocusSummary list"

definition soft_close :: "bool \<Rightarrow> ActiveWindowTracker \<Rightarrow> ActiveWindowTracker" where
  "soft_close fresh a =
     (if currentApp a \<noteq> [] \<and> fresh \<and> 0 < seconds (sub (lastSampleAt a) (sessionStart a))
      then a\<lparr>tr_sessions := tr_sessions a @ [open_fragment a (lastSampleAt a)], sessionStart := lastSampleAt a, sessionCounted := True\<rparr>
      else a)"

definition Collect ::
  "(AppFocusSummary list \<Rightarrow> AppFocusSummary list) \<Rightarrow> gotime \<Rightarrow> ActiveWindowTracker \<Rightarrow> focus_report \<times> ActiveWindowTracker" where
  "Collect perm now a =
     (let fresh = (\<not> is_zero (lastSampleAt a) \<and> sub now (lastSampleAt a) \<le> activeWindowSampleStaleAt);
          a1 = soft_close fresh a;
          cycle = fold add_session (tr_sessions a1) [];
          cumul = fold add_session (tr_sessions a1) (cumulative a1)
      in (\<lparr>fr_collected_at = now, fr_last_sample_at = lastSampleAt a1, fr_fresh = fresh, fr_source = focusSource a1,
           fr_quality = focusQuality (focusSource a1), fr_note = focusNote a1, fr_idle = tr_idle a1,
           fr_current = (if fresh then currentApp a1 else []), fr_sessions = tr_sessions a1,
           fr_summaries = perm (map snd cycle), fr_cumulative = perm (map snd cumul)\<rparr>,
          a1\<lparr>tr_sessions := [], cumulative := cumul\<rparr>))"

subsection \<open>Runs of the tracker\<close>

datatype tracker_event = Sampled gotime string string bool | Gathered gotime

text \<open>The tracker with the sessions of all reports so far.\<close>

fun tracker_step ::
  "(AppFocusSummary list \<Rightarrow> AppFocusSummary list) \<Rightarrow> tracker_event \<Rightarrow> ActiveWindowTracker \<times> focusSession list
     \<Rightarrow> ActiveWindowTracker \<times> focusSession list" where
  "tracker_step perm (Sampled t app source idle) (a, reported) = (observe t app source idle a, reported)"
| "tracker_step perm (Gathered now) (a, reported) =
     (case Collect perm now a of (report, a1) \<Rightarrow> (a1, reported @ fr_sessions report))"

definition tracker_run ::
  "(AppFocusSummary list \<Rightarrow> AppFocusSummary list) \<Rightarrow> gotime \<Rightarrow> tracker_event list \<Rightarrow> ActiveWindowTracker \<times> focusSession list" where
  "tracker_run perm now es = fold (tracker_step perm) es (tracker_Start now, [])"

text \<open>The samples of a run, with the application they count for.\<close>

fun seen :: "tracker_event \<Rightarrow> (gotime \<times> string) list" where
  "seen (Sampled t app source idle) = [(t, if idle then [] else app)]"
| "seen (Gathered now) = []"

definition samples :: "tracker_event list \<Rightarrow> (gotime \<times> string) list" where
  "samples es = concat (map seen es)"

text \<open>The reference: the time between two samples goes to the application of the first, unless it is longer than the
  largest gap.\<close>

fun credited :: "(gotime \<times> string) list \<Rightarrow> (string \<times> int \<times> int) list" where
  "credited ((t, app) # (u, app') # rest) =
     (if app \<noteq> [] \<and> inst u - inst t \<le> maxSampleGap then [(app, inst t, inst u)] else []) @ credited ((u, app') # rest)"
| "credited _ = []"

definition open_session :: "ActiveWindowTracker \<Rightarrow> focusSession list" where
  "open_session a = (if currentApp a \<noteq> [] then [open_fragment a (lastSampleAt a)] else [])"

definition session_covers :: "focusSession \<Rightarrow> string \<Rightarrow> int \<Rightarrow> bool" where
  "session_covers s app x \<longleftrightarrow> fs_app s = app \<and> inst (fs_start s) \<le> x \<and> x < inst (fs_end s)"

definition well_timed :: "focusSession \<Rightarrow> bool" where
  "well_timed s \<longleftrightarrow> inst (fs_start s) < inst (fs_end s) \<and> fs_app s \<noteq> [] \<and> fs_duration s = seconds (sub (fs_end s) (fs_start s))"

definition in_turn :: "focusSession list \<Rightarrow> bool" where
  "in_turn = sorted_wrt (\<lambda>s s'. inst (fs_end s) \<le> inst (fs_start s'))"

lemma seconds_pos: "0 \<le> d \<Longrightarrow> 0 < seconds d \<longleftrightarrow> 0 < d"
proof (cases "d = 0")
  case False
  assume "0 \<le> d"
  with False have d: "0 < d" by simp
  have q: "0 \<le> i2f (d div ns_per_s)" "0 \<le> fdiv (i2f (d mod ns_per_s)) (of_int ns_per_s)"
    using d by (simp_all add: i2f_def fdiv_def fl_nonneg ns_per_s_def)
  have pos: "0 < fl x" if "0 < x" for x using fl_pos_bounds(1) [OF that] pow2_pos less_le_trans by blast
  have "0 < i2f (d div ns_per_s) \<or> 0 < fdiv (i2f (d mod ns_per_s)) (of_int ns_per_s)"
  proof (cases "d div ns_per_s = 0")
    case True
    then have "0 < d mod ns_per_s" using d by (metis mult_zero_left mult_div_mod_eq add_0 mult.commute)
    then have "0 < i2f (d mod ns_per_s)" by (simp add: i2f_def pos)
    then show ?thesis by (simp add: fdiv_def pos ns_per_s_def)
  next
    case False
    then have "0 < d div ns_per_s" using d by (simp add: ns_per_s_def pos_imp_zdiv_nonneg_iff order_less_le)
    then show ?thesis by (simp add: i2f_def pos)
  qed
  then have "0 < i2f (d div ns_per_s) + fdiv (i2f (d mod ns_per_s)) (of_int ns_per_s)" using q by linarith
  then show ?thesis using d by (simp add: seconds_def fadd_def pos ns_per_s_def)
qed (simp add: seconds_def fadd_def i2f_def fdiv_def go_quot_def go_rem_def)

lemma longer_than: "0 \<le> c \<Longrightarrow> c < i64_max \<Longrightarrow> sub t u > c \<longleftrightarrow> inst t - inst u > c"
  using sat64_le_small [of c "inst t - inst u"] by (simp add: sub_def in_i64_def i64_min_def not_le [symmetric])

lemma lasting: "inst u \<le> inst t \<Longrightarrow> 0 < seconds (sub t u) \<longleftrightarrow> inst u < inst t"
  using seconds_pos [of "sub t u"] longer_than [of 0 t u] by (simp add: sub_def sat64_def i64_min_def i64_max_def split: if_splits)

subsection \<open>What a step does\<close>

definition closing :: "ActiveWindowTracker \<Rightarrow> gotime \<Rightarrow> focusSession list" where
  "closing a t = (if currentApp a \<noteq> [] \<and> inst (sessionStart a) < inst t then [open_fragment a t] else [])"

definition gap_over :: "ActiveWindowTracker \<Rightarrow> gotime \<Rightarrow> bool" where
  "gap_over a t \<longleftrightarrow> inst t - inst (lastSampleAt a) > maxSampleGap"

lemma endSession_effect:
  assumes "currentApp a \<noteq> [] \<longrightarrow> inst (sessionStart a) \<le> inst t"
  shows "tr_sessions (endSession t a) = tr_sessions a @ closing a t" "currentApp (endSession t a) = []"
    "lastSampleAt (endSession t a) = lastSampleAt a" "cumulative (endSession t a) = cumulative a"
  using lasting [of "sessionStart a" t] assms by (auto simp: endSession_def closing_def)

lemma observe_effect:
  fixes app idle
  defines "app1 \<equiv> (if idle then [] else app)"
  assumes "currentApp a \<noteq> [] \<longrightarrow> inst (sessionStart a) \<le> inst (lastSampleAt a)" "inst (lastSampleAt a) \<le> inst t"
    "\<not> is_zero (lastSampleAt a)"
  shows "tr_sessions (observe t app source idle a) = tr_sessions a
      @ (if gap_over a t then closing a (lastSampleAt a) else if app1 \<noteq> currentApp a then closing a t else [])"
    "currentApp (observe t app source idle a) = app1" "lastSampleAt (observe t app source idle a) = t"
    "cumulative (observe t app source idle a) = cumulative a"
    "app1 \<noteq> [] \<Longrightarrow> sessionStart (observe t app source idle a)
       = (if app1 = currentApp a \<and> \<not> gap_over a t then sessionStart a else t)"
    "app1 \<noteq> [] \<Longrightarrow> sessionCounted (observe t app source idle a)
       = (app1 = currentApp a \<and> \<not> gap_over a t \<and> sessionCounted a)"
proof -
  define a1 where "a1 = (if currentApp a \<noteq> [] \<and> gap_over a t then endSession (lastSampleAt a) a else a)"
  define a2 where "a2 = a1\<lparr>lastSampleAt := t, focusSource := (if source \<noteq> [] then source else focusSource a1), tr_idle := idle\<rparr>"
  have gap: "sub t (lastSampleAt a) > maxSampleGap \<longleftrightarrow> gap_over a t"
    using longer_than [of maxSampleGap t "lastSampleAt a"] by (simp add: gap_over_def maxSampleGap_def ns_per_s_def i64_max_def)
  have o: "observe t app source idle a
      = (if app1 = [] then endSession t a2
         else if app1 \<noteq> currentApp a2 then (endSession t a2)\<lparr>currentApp := app1, sessionStart := t, sessionCounted := False\<rparr> else a2)"
    using assms(4) by (simp add: observe_def Let_def gap a1_def a2_def app1_def)
  have 1: "tr_sessions a1 = tr_sessions a @ (if gap_over a t then closing a (lastSampleAt a) else [])"
    "currentApp a1 = (if gap_over a t then [] else currentApp a)" "cumulative a1 = cumulative a"
    "\<not> gap_over a t \<Longrightarrow> a1 = a"
    using endSession_effect [of a "lastSampleAt a"] assms(2) by (auto simp: a1_def closing_def)
  have 2: "tr_sessions a2 = tr_sessions a1" "currentApp a2 = currentApp a1" "cumulative a2 = cumulative a1"
    "sessionStart a2 = sessionStart a1" "sessionCounted a2 = sessionCounted a1" "lastSampleAt a2 = t"
    by (simp_all add: a2_def)
  have late: "currentApp a2 \<noteq> [] \<longrightarrow> inst (sessionStart a2) \<le> inst t"
    using 1 2 assms(2,3) by (cases "gap_over a t") auto
  have c: "closing a2 t = (if gap_over a t then [] else closing a t)"
    using 1 2 by (cases "gap_over a t") (simp_all add: closing_def open_fragment_def)
  note e = endSession_effect [OF late]
  show "tr_sessions (observe t app source idle a) = tr_sessions a
      @ (if gap_over a t then closing a (lastSampleAt a) else if app1 \<noteq> currentApp a then closing a t else [])"
    using e 1 2 c by (cases "gap_over a t") (auto simp: o closing_def)
  show "currentApp (observe t app source idle a) = app1" using e 1 2 by (auto simp: o)
  show "lastSampleAt (observe t app source idle a) = t" using e 1 2 by (auto simp: o)
  show "cumulative (observe t app source idle a) = cumulative a" using e 1 2 by (auto simp: o)
  show "app1 \<noteq> [] \<Longrightarrow> sessionStart (observe t app source idle a)
       = (if app1 = currentApp a \<and> \<not> gap_over a t then sessionStart a else t)"
    using e 1 2 by (auto simp: o)
  show "app1 \<noteq> [] \<Longrightarrow> sessionCounted (observe t app source idle a)
       = (app1 = currentApp a \<and> \<not> gap_over a t \<and> sessionCounted a)"
    using e 1 2 by (auto simp: o)
qed

lemma soft_close_effect:
  assumes "currentApp a \<noteq> [] \<longrightarrow> inst (sessionStart a) \<le> inst (lastSampleAt a)"
  shows "soft_close fresh a =
    (if fresh \<and> closing a (lastSampleAt a) \<noteq> []
     then a\<lparr>tr_sessions := tr_sessions a @ closing a (lastSampleAt a), sessionStart := lastSampleAt a, sessionCounted := True\<rparr> else a)"
  using lasting [of "sessionStart a" "lastSampleAt a"] assms by (auto simp: soft_close_def closing_def)

lemma Collect_effect:
  assumes "Collect perm now a = (report, a')"
  obtains fresh where "fr_sessions report = tr_sessions (soft_close fresh a)"
    "a' = (soft_close fresh a)\<lparr>tr_sessions := [], cumulative := fold add_session (tr_sessions (soft_close fresh a)) (cumulative a)\<rparr>"
  using that [of "\<not> is_zero (lastSampleAt a) \<and> sub now (lastSampleAt a) \<le> activeWindowSampleStaleAt"] assms
  by (auto simp: Collect_def Let_def soft_close_def)

lemma credited_snoc:
  "credited (ss @ [(t, app)]) = credited ss
     @ (if ss \<noteq> [] \<and> snd (last ss) \<noteq> [] \<and> inst t - inst (fst (last ss)) \<le> maxSampleGap
        then [(snd (last ss), inst (fst (last ss)), inst t)] else [])"
  by (induction ss rule: credited.induct) auto

subsection \<open>The credited time\<close>

definition covered :: "focusSession list \<Rightarrow> string \<Rightarrow> int \<Rightarrow> bool" where
  "covered ss app x \<longleftrightarrow> (\<exists>s \<in> set ss. session_covers s app x)"

definition due :: "(gotime \<times> string) list \<Rightarrow> string \<Rightarrow> int \<Rightarrow> bool" where
  "due ss app x \<longleftrightarrow> (\<exists>lo hi. (app, lo, hi) \<in> set (credited ss) \<and> lo \<le> x \<and> x < hi)"

lemma span_covered_simps [simp]:
  "covered [] app x = False"
  "covered (ss @ ss') app x \<longleftrightarrow> covered ss app x \<or> covered ss' app x"
  by (auto simp: covered_def)

lemma covered_closing: "covered (closing a t) app x \<longleftrightarrow> app = currentApp a \<and> app \<noteq> [] \<and> inst (sessionStart a) \<le> x \<and> x < inst t"
  by (auto simp: covered_def closing_def session_covers_def open_fragment_def)

lemma covered_open: "covered (open_session a) app x
    \<longleftrightarrow> app = currentApp a \<and> app \<noteq> [] \<and> inst (sessionStart a) \<le> x \<and> x < inst (lastSampleAt a)"
  by (auto simp: covered_def open_session_def session_covers_def open_fragment_def)

lemma due_snoc: "due (ss @ [(t, app)]) app' x \<longleftrightarrow> due ss app' x
    \<or> (ss \<noteq> [] \<and> snd (last ss) = app' \<and> app' \<noteq> [] \<and> inst t - inst (fst (last ss)) \<le> maxSampleGap \<and> inst (fst (last ss)) \<le> x \<and> x < inst t)"
  by (auto simp: due_def credited_snoc)

definition tracked :: "(gotime \<times> string) list \<Rightarrow> ActiveWindowTracker \<Rightarrow> focusSession list \<Rightarrow> bool" where
  "tracked ss a got \<longleftrightarrow>
     list_all well_timed got \<and> in_turn got
     \<and> (currentApp a \<noteq> [] \<longrightarrow> inst (sessionStart a) \<le> inst (lastSampleAt a))
     \<and> list_all (\<lambda>s. inst (fs_end s) \<le> inst (if currentApp a \<noteq> [] then sessionStart a else lastSampleAt a)) got
     \<and> \<not> is_zero (lastSampleAt a)
     \<and> (ss = [] \<longrightarrow> currentApp a = []) \<and> (ss \<noteq> [] \<longrightarrow> last ss = (lastSampleAt a, currentApp a))
     \<and> (\<forall>app x. app \<noteq> [] \<longrightarrow> (covered got app x \<or> covered (open_session a) app x \<longleftrightarrow> due ss app x))"

lemma closing_well_timed: "list_all well_timed (closing a t)"
  by (simp add: closing_def well_timed_def open_fragment_def)

lemma in_turn_closed:
  assumes "in_turn got" "list_all (\<lambda>s. inst (fs_end s) \<le> inst (if currentApp a \<noteq> [] then sessionStart a else lastSampleAt a)) got"
  shows "in_turn (got @ closing a t)"
  using assms by (auto simp: in_turn_def closing_def sorted_wrt_append open_fragment_def list_all_iff)

lemma closing_ends: "list_all (\<lambda>s. inst (fs_end s) \<le> inst t) (closing a t)"
  by (simp add: closing_def open_fragment_def)

lemma list_all_le: "list_all (\<lambda>s. f s \<le> (x :: int)) ss \<Longrightarrow> x \<le> y \<Longrightarrow> list_all (\<lambda>s. f s \<le> y) ss"
  by (induction ss) auto

lemma tracked_observe:
  assumes "tracked ss a got" "inst (lastSampleAt a) \<le> inst t" "\<not> is_zero t" "got = reported @ tr_sessions a"
  shows "tracked (ss @ [(t, if idle then [] else app)]) (observe t app source idle a) (reported @ tr_sessions (observe t app source idle a))"
proof -
  let ?app = "if idle then [] else app" and ?b = "observe t app source idle a"
  define stop where "stop = (if gap_over a t then lastSampleAt a else t)"
  define new where "new = (if gap_over a t \<or> ?app \<noteq> currentApp a then closing a stop else [])"
  have T: "list_all well_timed got" "in_turn got" "currentApp a \<noteq> [] \<longrightarrow> inst (sessionStart a) \<le> inst (lastSampleAt a)"
    "list_all (\<lambda>s. inst (fs_end s) \<le> inst (if currentApp a \<noteq> [] then sessionStart a else lastSampleAt a)) got"
    "\<not> is_zero (lastSampleAt a)" "ss = [] \<longrightarrow> currentApp a = []" "ss \<noteq> [] \<longrightarrow> last ss = (lastSampleAt a, currentApp a)"
    "\<And>app x. app \<noteq> [] \<Longrightarrow> covered got app x \<or> covered (open_session a) app x \<longleftrightarrow> due ss app x"
    using assms(1) unfolding tracked_def by blast+
  note e = observe_effect [OF T(3) assms(2) T(5), where app = app and idle = idle and source = source]
  have sessions: "reported @ tr_sessions ?b = got @ new" unfolding e(1) new_def stop_def assms(4) by simp
  have ends: "list_all (\<lambda>s. inst (fs_end s) \<le> inst t) (got @ closing a stop)"
    using list_all_le [OF T(4), of "inst t"] list_all_le [OF closing_ends [of stop a], of "inst t"] T(3) assms(2) by (auto simp: stop_def)
  have "list_all well_timed (got @ new)" using T(1) closing_well_timed [of a stop] by (simp add: new_def)
  moreover have "in_turn (got @ new)" using in_turn_closed [OF T(2,4), of stop] T(2) by (simp add: new_def)
  moreover have "currentApp ?b \<noteq> [] \<longrightarrow> inst (sessionStart ?b) \<le> inst (lastSampleAt ?b)"
    using e T(3) assms(2) by auto
  moreover have "list_all (\<lambda>s. inst (fs_end s) \<le> inst (if currentApp ?b \<noteq> [] then sessionStart ?b else lastSampleAt ?b)) (got @ new)"
  proof (cases "?app \<noteq> [] \<and> ?app = currentApp a \<and> \<not> gap_over a t")
    case True
    then show ?thesis using e T(4) by (auto simp: new_def)
  next
    case False
    then have "inst (if currentApp ?b \<noteq> [] then sessionStart ?b else lastSampleAt ?b) = inst t" using e by auto
    then show ?thesis using ends by (auto simp: new_def)
  qed
  moreover have "covered (got @ new) app' x \<or> covered (open_session ?b) app' x \<longleftrightarrow> due (ss @ [(t, ?app)]) app' x" if "app' \<noteq> []" for app' x
  proof -
    have old: "covered got app' x \<or> (app' = currentApp a \<and> inst (sessionStart a) \<le> x \<and> x < inst (lastSampleAt a)) \<longleftrightarrow> due ss app' x"
      using T(8) [OF that, of x] that by (simp add: covered_open)
    have last: "ss \<noteq> [] \<and> snd (last ss) = app' \<longleftrightarrow> currentApp a = app'" "ss \<noteq> [] \<Longrightarrow> fst (last ss) = lastSampleAt a"
      using T(6,7) that by auto
    have due: "due (ss @ [(t, ?app)]) app' x \<longleftrightarrow> due ss app' x
        \<or> (currentApp a = app' \<and> \<not> gap_over a t \<and> inst (lastSampleAt a) \<le> x \<and> x < inst t)"
      using last that unfolding due_snoc gap_over_def by (cases "ss = []") auto
    show ?thesis
    proof (cases "gap_over a t \<or> ?app \<noteq> currentApp a")
      case True
      have "covered (open_session ?b) app' x \<longleftrightarrow> False" using e True by (auto simp: covered_open)
      moreover have "covered new app' x \<longleftrightarrow> app' = currentApp a \<and> inst (sessionStart a) \<le> x \<and> x < inst stop"
        using True that by (simp add: new_def covered_closing)
      ultimately show ?thesis using old due T(3) that assms(2) by (auto simp: stop_def)
    next
      case False
      then have "covered (open_session ?b) app' x \<longleftrightarrow> app' = currentApp a \<and> inst (sessionStart a) \<le> x \<and> x < inst t"
        using e that by (auto simp: covered_open)
      then show ?thesis using False old due T(3) that assms(2) by (auto simp: new_def)
    qed
  qed
  ultimately show ?thesis using e assms(3) sessions unfolding tracked_def by simp
qed

lemma tracked_same:
  "currentApp a' = currentApp a \<Longrightarrow> sessionStart a' = sessionStart a \<Longrightarrow> lastSampleAt a' = lastSampleAt a
     \<Longrightarrow> tracked ss a' got = tracked ss a got"
  by (simp only: tracked_def covered_open)

lemma tracked_Collect:
  assumes "tracked ss a got" "got = reported @ tr_sessions a" "Collect perm now a = (report, a')"
  shows "tracked ss a' (reported @ fr_sessions report)" "tr_sessions a' = []" "lastSampleAt a' = lastSampleAt a"
proof -
  obtain fresh where c: "fr_sessions report = tr_sessions (soft_close fresh a)"
    "a' = (soft_close fresh a)\<lparr>tr_sessions := [], cumulative := fold add_session (tr_sessions (soft_close fresh a)) (cumulative a)\<rparr>"
    using Collect_effect [OF assms(3)] by blast
  have T: "list_all well_timed got" "in_turn got" "currentApp a \<noteq> [] \<longrightarrow> inst (sessionStart a) \<le> inst (lastSampleAt a)"
    "list_all (\<lambda>s. inst (fs_end s) \<le> inst (if currentApp a \<noteq> [] then sessionStart a else lastSampleAt a)) got"
    "\<not> is_zero (lastSampleAt a)" "ss = [] \<longrightarrow> currentApp a = []" "ss \<noteq> [] \<longrightarrow> last ss = (lastSampleAt a, currentApp a)"
    "\<And>app x. app \<noteq> [] \<Longrightarrow> covered got app x \<or> covered (open_session a) app x \<longleftrightarrow> due ss app x"
    using assms(1) unfolding tracked_def by blast+
  note s = soft_close_effect [OF T(3), of fresh]
  show "tr_sessions a' = []" "lastSampleAt a' = lastSampleAt a" using c(2) s by auto
  show "tracked ss a' (reported @ fr_sessions report)"
  proof (cases "fresh \<and> closing a (lastSampleAt a) \<noteq> []")
    case False
    then have "soft_close fresh a = a" by (subst s, subst if_not_P) (assumption | rule refl)+
    then show ?thesis using assms(1,2) c tracked_same [of a' a ss got] by simp
  next
    case True
    let ?new = "closing a (lastSampleAt a)"
    have r: "reported @ fr_sessions report = got @ ?new" using True c(1) s assms(2) by simp
    have cur: "currentApp a' = currentApp a" "sessionStart a' = lastSampleAt a" "lastSampleAt a' = lastSampleAt a" "currentApp a \<noteq> []"
      using True c(2) s by (auto simp: closing_def split: if_splits)
    have "list_all (\<lambda>s. inst (fs_end s) \<le> inst (lastSampleAt a)) (got @ ?new)"
      using list_all_le [OF T(4), of "inst (lastSampleAt a)"] closing_ends [of "lastSampleAt a" a] T(3) cur(4) by simp
    moreover have "covered (got @ ?new) app x \<or> covered (open_session a') app x \<longleftrightarrow> due ss app x" if "app \<noteq> []" for app x
      using T(8) [OF that, of x] that cur by (auto simp: covered_open covered_closing)
    ultimately show ?thesis
      unfolding tracked_def r using T(1,2,5,6,7) closing_well_timed [of a "lastSampleAt a"] in_turn_closed [OF T(2,4), of "lastSampleAt a"] cur
      by simp
  qed
qed

text \<open>The times of the samples do not go back; a tick of Go's clock is never the zero time.\<close>

definition in_order :: "gotime \<Rightarrow> tracker_event list \<Rightarrow> bool" where
  "in_order now es \<longleftrightarrow> zero_inst < inst now \<and> sorted (inst now # map (\<lambda>s. inst (fst s)) (samples es))"

lemma samples_snoc: "samples (es @ [e]) = samples es @ seen e"
  by (simp add: samples_def)

lemma in_order_snoc: "in_order now (es @ [e]) \<Longrightarrow> in_order now es"
  by (auto simp: in_order_def samples_snoc sorted_append)

lemma tracker_run_snoc: "tracker_run perm now (es @ [e]) = tracker_step perm e (tracker_run perm now es)"
  by (simp add: tracker_run_def)

lemma sorted_last: "sorted (map inst xs @ [y]) \<Longrightarrow> xs \<noteq> [] \<Longrightarrow> inst (last xs) \<le> y"
  by (simp add: sorted_append)

lemma tracker_run_tracked:
  assumes "in_order now es" "tracker_run perm now es = (a, reported)"
  shows "tracked (samples es) a (reported @ tr_sessions a) \<and> lastSampleAt a = last (now # map fst (samples es))"
  using assms
proof (induction es arbitrary: a reported rule: rev_induct)
  case Nil
  then show ?case
    by (auto simp: tracker_run_def tracker_Start_def samples_def tracked_def in_turn_def covered_open due_def in_order_def is_zero_def)
next
  case (snoc e es)
  obtain a0 r0 where 0: "tracker_run perm now es = (a0, r0)" by fastforce
  have IH: "tracked (samples es) a0 (r0 @ tr_sessions a0)" "lastSampleAt a0 = last (now # map fst (samples es))"
    using snoc.IH [OF in_order_snoc [OF snoc.prems(1)] 0] by blast+
  show ?case
  proof (cases e)
    case (Sampled t app source idle)
    have "sorted (map inst (now # map fst (samples es)) @ [inst t])" "zero_inst < inst now"
      using snoc.prems(1) Sampled by (simp_all add: in_order_def samples_snoc comp_def)
    then have "inst (lastSampleAt a0) \<le> inst t" "zero_inst < inst t"
      unfolding IH(2) using sorted_last [of "now # map fst (samples es)"] by (simp_all add: sorted_append)
    then have "tracked (samples es @ [(t, if idle then [] else app)]) (observe t app source idle a0) (r0 @ tr_sessions (observe t app source idle a0))"
      by (intro tracked_observe [OF IH(1)]) (simp_all add: is_zero_def)
    moreover have "a = observe t app source idle a0" "reported = r0" using snoc.prems(2) 0 Sampled by (simp_all add: tracker_run_snoc)
    moreover from this have "lastSampleAt a = t" by (auto simp: observe_def Let_def endSession_def)
    ultimately show ?thesis using Sampled by (simp add: samples_snoc)
  next
    case (Gathered u)
    obtain report a1 where c: "Collect perm u a0 = (report, a1)" by fastforce
    then have "a = a1" "reported = r0 @ fr_sessions report" using snoc.prems(2) 0 Gathered by (simp_all add: tracker_run_snoc)
    then show ?thesis using tracked_Collect [OF IH(1) refl c] IH(2) Gathered by (simp add: samples_snoc)
  qed
qed

text \<open>C27. The tracker accounts for the observed time exactly: in every run of samples and collections the reported, pending
  and open sessions follow one another without overlap, none is empty, and an instant lies in a session of an
  application if and only if it lies between two samples at most thirty seconds apart of which the first saw that
  application in use. Nothing is counted twice over any number of collections, nothing is lost, and a
  suspended or idle machine credits nobody.\<close>

theorem focus_time_exact:
  assumes "in_order now es" "tracker_run perm now es = (a, reported)"
  shows "in_turn (reported @ tr_sessions a @ open_session a)
    \<and> list_all well_timed (reported @ tr_sessions a)
    \<and> (\<forall>app x. app \<noteq> [] \<longrightarrow> covered (reported @ tr_sessions a @ open_session a) app x = due (samples es) app x)"
proof -
  have t: "tracked (samples es) a (reported @ tr_sessions a)" using tracker_run_tracked [OF assms] by blast
  then have "in_turn (reported @ tr_sessions a)"
    "list_all (\<lambda>s. inst (fs_end s) \<le> inst (if currentApp a \<noteq> [] then sessionStart a else lastSampleAt a)) (reported @ tr_sessions a)"
    unfolding tracked_def by blast+
  then have "in_turn ((reported @ tr_sessions a) @ open_session a)"
    by (auto simp: in_turn_def sorted_wrt_append open_session_def open_fragment_def list_all_iff)
  then show ?thesis using t unfolding tracked_def by simp
qed

subsection \<open>Collections do not matter\<close>

definition counted :: "string \<Rightarrow> focusSession list \<Rightarrow> nat" where
  "counted app ss = length (filter (\<lambda>s. fs_app s = app \<and> \<not> fs_continuation s) ss)"

text \<open>The focus periods of an application that lasted: those counted and the open one, when it is not counted yet.\<close>

definition periods :: "ActiveWindowTracker \<times> focusSession list \<Rightarrow> string \<Rightarrow> nat" where
  "periods s app = (case s of (a, reported) \<Rightarrow>
     counted app (reported @ tr_sessions a)
     + (if currentApp a = app \<and> \<not> sessionCounted a \<and> inst (sessionStart a) < inst (lastSampleAt a) then 1 else 0))"

fun is_sample :: "tracker_event \<Rightarrow> bool" where
  "is_sample (Sampled _ _ _ _) = True" | "is_sample (Gathered _) = False"

definition alike :: "ActiveWindowTracker \<times> focusSession list \<Rightarrow> ActiveWindowTracker \<times> focusSession list \<Rightarrow> bool" where
  "alike s s' \<longleftrightarrow> (case s of (a, r) \<Rightarrow> case s' of (b, q) \<Rightarrow>
     currentApp a = currentApp b \<and> lastSampleAt a = lastSampleAt b
     \<and> (currentApp a \<noteq> [] \<longrightarrow> inst (sessionStart a) \<le> inst (lastSampleAt a) \<and> \<not> sessionCounted b
          \<and> (if sessionCounted a then inst (sessionStart b) < inst (sessionStart a) else sessionStart b = sessionStart a))
     \<and> (\<forall>app. app \<noteq> [] \<longrightarrow> periods s app = periods s' app))"

lemma counted_simps [simp]: "counted app [] = 0" "counted app (ss @ ss') = counted app ss + counted app ss'"
  by (simp_all add: counted_def)

lemma counted_closing: "counted app (closing a t)
    = (if currentApp a = app \<and> app \<noteq> [] \<and> \<not> sessionCounted a \<and> inst (sessionStart a) < inst t then 1 else 0)"
  by (auto simp: counted_def closing_def open_fragment_def)

lemma samples_only: "samples (filter is_sample es) = samples es"
proof (induction es)
  case (Cons e es)
  then show ?case by (cases e) (simp_all add: samples_def)
qed simp

lemma alike_observe:
  assumes "alike (a, r) (b, q)" "inst (lastSampleAt a) \<le> inst t" "\<not> is_zero (lastSampleAt a)"
  shows "alike (observe t app source idle a, r) (observe t app source idle b, q)"
proof -
  have A: "currentApp b = currentApp a" "lastSampleAt b = lastSampleAt a"
    "currentApp a \<noteq> [] \<Longrightarrow> inst (sessionStart a) \<le> inst (lastSampleAt a) \<and> \<not> sessionCounted b
          \<and> (if sessionCounted a then inst (sessionStart b) < inst (sessionStart a) else sessionStart b = sessionStart a)"
    "\<And>app. app \<noteq> [] \<Longrightarrow> periods (a, r) app = periods (b, q) app"
    using assms(1) by (auto simp: alike_def)
  have pa: "currentApp a \<noteq> [] \<longrightarrow> inst (sessionStart a) \<le> inst (lastSampleAt a)" using A(3) by blast
  have pb: "currentApp b \<noteq> [] \<longrightarrow> inst (sessionStart b) \<le> inst (lastSampleAt b)" using A by (fastforce split: if_splits)
  note ea = observe_effect [OF pa assms(2,3), where app = app and idle = idle and source = source]
  have gap: "gap_over b t = gap_over a t" by (simp add: gap_over_def A(2))
  note eb = observe_effect [OF pb, where app = app and idle = idle and source = source and t = t, unfolded A(2), OF assms(2,3)]
  have "periods (observe t app source idle a, r) app' = periods (observe t app source idle b, q) app'" if "app' \<noteq> []" for app'
    using A(4) [OF that] A(1,2,3) that assms(2) ea eb
    by (cases "gap_over a t"; cases "(if idle then [] else app) = currentApp a"; cases "currentApp a = app'"; cases "sessionCounted a")
      (auto simp: periods_def counted_closing gap split: if_splits)
  then show ?thesis using A(1,2,3) ea eb assms(2) gap unfolding alike_def by (auto split: if_splits)
qed

lemma alike_Collect:
  assumes "alike (a, r) s" "Collect perm now a = (report, a')"
  shows "alike (a', r @ fr_sessions report) s"
proof -
  obtain b q where s: "s = (b, q)" by fastforce
  obtain fresh where c: "fr_sessions report = tr_sessions (soft_close fresh a)"
    "a' = (soft_close fresh a)\<lparr>tr_sessions := [], cumulative := fold add_session (tr_sessions (soft_close fresh a)) (cumulative a)\<rparr>"
    using Collect_effect [OF assms(2)] by blast
  have p: "currentApp a \<noteq> [] \<longrightarrow> inst (sessionStart a) \<le> inst (lastSampleAt a)" using assms(1) s by (auto simp: alike_def)
  show ?thesis
  proof (cases "fresh \<and> closing a (lastSampleAt a) \<noteq> []")
    case False
    then have "soft_close fresh a = a" by (subst soft_close_effect [OF p], subst if_not_P) (assumption | rule refl)+
    then have "\<And>app. periods (a', r @ fr_sessions report) app = periods (a, r) app" using c by (simp add: periods_def)
    moreover have "currentApp a' = currentApp a" "lastSampleAt a' = lastSampleAt a" "sessionStart a' = sessionStart a"
      "sessionCounted a' = sessionCounted a" using c \<open>soft_close fresh a = a\<close> by simp_all
    ultimately show ?thesis using assms(1) s p by (simp add: alike_def)
  next
    case True
    then have sc: "soft_close fresh a = a\<lparr>tr_sessions := tr_sessions a @ closing a (lastSampleAt a), sessionStart := lastSampleAt a, sessionCounted := True\<rparr>"
      using soft_close_effect [OF p, of fresh] by simp
    have cur: "currentApp a \<noteq> []" "inst (sessionStart a) < inst (lastSampleAt a)" using True by (auto simp: closing_def split: if_splits)
    have "periods (a', r @ fr_sessions report) app = periods (a, r) app" if "app \<noteq> []" for app
      using c sc cur that by (auto simp: periods_def counted_closing)
    then show ?thesis using assms(1) s c sc cur by (auto simp: alike_def split: if_splits)
  qed
qed

lemma tracker_run_alike:
  "in_order now es \<Longrightarrow> alike (tracker_run perm now es) (tracker_run perm now (filter is_sample es))"
proof (induction es rule: rev_induct)
  case Nil
  then show ?case by (simp add: tracker_run_def tracker_Start_def alike_def)
next
  case (snoc e es)
  obtain a r where a: "tracker_run perm now es = (a, r)" by fastforce
  obtain b q where b: "tracker_run perm now (filter is_sample es) = (b, q)" by fastforce
  have IH: "alike (a, r) (b, q)" using snoc.IH [OF in_order_snoc [OF snoc.prems]] a b by simp
  note t = tracker_run_tracked [OF in_order_snoc [OF snoc.prems] a]
  show ?case
  proof (cases e)
    case (Sampled t app source idle)
    have "sorted (map inst (now # map fst (samples es)) @ [inst t])"
      using snoc.prems Sampled by (simp add: in_order_def samples_snoc comp_def)
    then have "inst (lastSampleAt a) \<le> inst t" using sorted_last [of "now # map fst (samples es)" "inst t"] t by simp
    moreover have "\<not> is_zero (lastSampleAt a)" using t unfolding tracked_def by blast
    ultimately show ?thesis using alike_observe [OF IH] a b Sampled by (simp add: tracker_run_snoc)
  next
    case (Gathered u)
    obtain report a1 where c: "Collect perm u a = (report, a1)" by fastforce
    then show ?thesis using alike_Collect [OF IH c] a b Gathered by (simp add: tracker_run_snoc)
  qed
qed

text \<open>How often the tracker is collected from does not matter: leaving every collection out of a run changes neither the
  focused application nor the number of focus periods of any application, so the soft close of each cycle
  does not inflate session counts.\<close>

theorem collect_transparent:
  assumes "in_order now es" "app \<noteq> []"
  shows "periods (tracker_run perm now es) app = periods (tracker_run perm now (filter is_sample es)) app
    \<and> currentApp (fst (tracker_run perm now es)) = currentApp (fst (tracker_run perm now (filter is_sample es)))"
  using tracker_run_alike [OF assms(1), of perm] assms(2) by (auto simp: alike_def split: prod.splits)

subsection \<open>An example\<close>

definition tick :: "int \<Rightarrow> gotime" where "tick n = \<lparr>inst = n * ns_per_s, off = 0\<rparr>"

text \<open>Two applications, a collection in the middle, a suspended machine.\<close>

definition sample_run :: "tracker_event list" where
  "sample_run = [Sampled (tick 2) ''vim'' ''x11'' False, Sampled (tick 4) ''vim'' ''x11'' False, Gathered (tick 5),
     Sampled (tick 6) ''vim'' ''x11'' False, Sampled (tick 600) ''vim'' ''x11'' False, Sampled (tick 602) ''web'' ''x11'' False]"

lemma sample_run_in_order: "in_order (tick 0) sample_run"
  by code_simp

theorem focus_time_exact_witness:
  "case tracker_run (\<lambda>ss. ss) (tick 0) sample_run of (a, reported) \<Rightarrow>
     in_turn (reported @ tr_sessions a @ open_session a)
     \<and> map (\<lambda>s. (inst (fs_start s) div ns_per_s, inst (fs_end s) div ns_per_s, fs_continuation s)) (reported @ tr_sessions a)
         = [(2, 4, False), (4, 6, True), (600, 602, False)]"
proof -
  obtain a reported where r: "tracker_run (\<lambda>ss. ss) (tick 0) sample_run = (a, reported)" by fastforce
  have "map (\<lambda>s. (inst (fs_start s) div ns_per_s, inst (fs_end s) div ns_per_s, fs_continuation s))
      (snd (tracker_run (\<lambda>ss. ss) (tick 0) sample_run) @ tr_sessions (fst (tracker_run (\<lambda>ss. ss) (tick 0) sample_run)))
         = [(2, 4, False), (4, 6, True), (600, 602, False)]" by code_simp
  then show ?thesis using focus_time_exact [OF sample_run_in_order r] by (simp add: r)
qed

theorem collect_transparent_witness:
  "periods (tracker_run (\<lambda>ss. ss) (tick 0) sample_run) ''vim''
     = periods (tracker_run (\<lambda>ss. ss) (tick 0) (filter is_sample sample_run)) ''vim''
   \<and> periods (tracker_run (\<lambda>ss. ss) (tick 0) (filter is_sample sample_run)) ''vim'' = 2"
proof
  show "periods (tracker_run (\<lambda>ss. ss) (tick 0) sample_run) ''vim''
     = periods (tracker_run (\<lambda>ss. ss) (tick 0) (filter is_sample sample_run)) ''vim''"
    using collect_transparent [OF sample_run_in_order, of "''vim''" "\<lambda>ss. ss"] by simp
  show "periods (tracker_run (\<lambda>ss. ss) (tick 0) (filter is_sample sample_run)) ''vim'' = 2" by code_simp
qed

end
