(* ===== verification/Updater.thy ===== *)
theory Updater
  imports Releases
begin

text \<open>
  The agent's self-update, \<^verbatim>\<open>agent/updater\<close>, and the tool that signs a release,
  \<^verbatim>\<open>api/cmd/sign_release\<close>: the check with the API, the verification of the signature, the download
  with its checksum, and the replacement of the executable on Unix and on Windows. The network, the file
  operations of the system and the cryptography are parameters.
\<close>

subsection \<open>Signatures\<close>

record CheckResponse =
  cr_available :: bool
  cr_version :: string
  cr_url :: string
  cr_checksum :: string
  cr_signature :: string

definition ReleaseMessage :: "string \<Rightarrow> string \<Rightarrow> string \<Rightarrow> string \<Rightarrow> string" where
  "ReleaseMessage version goos goarch checksum =
     ''devicepulse-release-v1'' @ [CHR 0x0A] @ version @ [CHR 0x0A] @ goos @ ''/'' @ goarch @ [CHR 0x0A] @ to_lower checksum"

text \<open>\<open>pubB64\<close> is the key built into the agent; \<open>None\<close> stands for no error.\<close>

definition verifyRelease :: "release_crypto \<Rightarrow> string \<Rightarrow> CheckResponse \<Rightarrow> string \<Rightarrow> string \<Rightarrow> string option" where
  "verifyRelease C pubB64 cr goos goarch =
     (if pubB64 = [] then None
      else case b64_decode C pubB64 of
        None \<Rightarrow> Some ''embedded update public key is invalid''
      | Some pub \<Rightarrow>
          if length pub \<noteq> 32 then Some ''embedded update public key is invalid''
          else if cr_signature cr = [] then Some (''update '' @ cr_version cr @ '' is not signed'')
          else (case b64_decode C (cr_signature cr) of
                  None \<Rightarrow> Some (''update '' @ cr_version cr @ '' has a malformed signature'')
                | Some sig \<Rightarrow>
                    if length sig \<noteq> 64 then Some (''update '' @ cr_version cr @ '' has a malformed signature'')
                    else if \<not> ed_verify C pub (ReleaseMessage (cr_version cr) goos goarch (cr_checksum cr)) sig
                    then Some (''update '' @ cr_version cr @ '' signature does not verify'')
                    else None))"

text \<open>The signing tool: \<^verbatim>\<open>releaseMessage\<close> and \<^verbatim>\<open>sign\<close>.\<close>

definition tool_releaseMessage :: "string \<Rightarrow> string \<Rightarrow> string \<Rightarrow> string \<Rightarrow> string" where
  "tool_releaseMessage version goos goarch checksum =
     ''devicepulse-release-v1'' @ [CHR 0x0A] @ version @ [CHR 0x0A] @ goos @ ''/'' @ goarch @ [CHR 0x0A] @ to_lower checksum"

definition tool_sign :: "release_crypto \<Rightarrow> string \<Rightarrow> string \<Rightarrow> string \<Rightarrow> string \<Rightarrow> string \<Rightarrow> string + string" where
  "tool_sign C privB64 version goos goarch checksum =
     (case b64_decode C (trim_space privB64) of
        None \<Rightarrow> Inl ''signing key is not valid base64''
      | Some raw \<Rightarrow>
          if length raw \<noteq> 32 \<and> length raw \<noteq> 64 then Inl ''signing key must be a 32-byte seed or 64-byte private key''
          else let priv = (if length raw = 32 then ed_from_seed C raw else raw)
               in if version = [] \<or> goos = [] \<or> goarch = [] \<or> length checksum \<noteq> 64
                  then Inl ''version, os, arch and a 64-character sha256 checksum are required''
                  else Inr (b64_encode C (ed_sign C priv (tool_releaseMessage version goos goarch checksum))))"

subsection \<open>The system\<close>

text \<open>
  \<open>up_check\<close> asks the API: \<open>None\<close> when the request fails, else the status and the decoded answer. \<open>up_fetch\<close> downloads:
  the status, the bytes that arrived and whether the stream ended without an error. \<open>up_hash\<close> is the SHA-256 in hexadecimal.
\<close>

record 'w update_io =
  up_check :: "string \<Rightarrow> string \<Rightarrow> 'w \<Rightarrow> (nat \<times> CheckResponse option) option \<times> 'w"
  up_exe :: "'w \<Rightarrow> string option"
  up_resolve :: "string \<Rightarrow> 'w \<Rightarrow> string option"
  up_temp :: "string \<Rightarrow> 'w \<Rightarrow> string option \<times> 'w"
  up_fetch :: "string \<Rightarrow> 'w \<Rightarrow> (nat \<times> string \<times> bool) option \<times> 'w"
  up_write :: "string \<Rightarrow> string \<Rightarrow> 'w \<Rightarrow> bool \<times> 'w"
  up_chmod :: "string \<Rightarrow> 'w \<Rightarrow> bool \<times> 'w"
  up_rename :: "string \<Rightarrow> string \<Rightarrow> 'w \<Rightarrow> bool \<times> 'w"
  up_remove :: "string \<Rightarrow> 'w \<Rightarrow> 'w"
  up_exec :: "string \<Rightarrow> 'w \<Rightarrow> bool \<times> 'w"
  up_hash :: "string \<Rightarrow> string"

datatype update_outcome = Up_to_date | Update_failed string | Relaunched

text \<open>\<^verbatim>\<open>swapBinary\<close> of \<^verbatim>\<open>swap_unix.go\<close> and of \<^verbatim>\<open>swap_windows.go\<close>.\<close>

definition swapBinary_unix :: "'w update_io \<Rightarrow> string \<Rightarrow> string \<Rightarrow> 'w \<Rightarrow> bool \<times> 'w" where
  "swapBinary_unix io tmp exe w = up_rename io tmp exe w"

definition swapBinary_windows :: "'w update_io \<Rightarrow> string \<Rightarrow> string \<Rightarrow> 'w \<Rightarrow> bool \<times> 'w" where
  "swapBinary_windows io tmp exe w =
     (let old = exe @ ''.old''; w1 = up_remove io old w
      in (case up_rename io exe old w1 of
            (False, w2) \<Rightarrow> (False, w2)
          | (True, w2) \<Rightarrow> (case up_rename io tmp exe w2 of
                (True, w3) \<Rightarrow> (True, w3)
              | (False, w3) \<Rightarrow> (False, snd (up_rename io old exe w3)))))"

definition dir_of :: "string \<Rightarrow> string" where
  "dir_of path = (let d = rev (drop 1 (dropWhile (\<lambda>c. c \<noteq> CHR ''/'') (rev path))) in if d = [] then ''/'' else d)"

text \<open>The part of \<^verbatim>\<open>applyUpdate\<close> under the deferred removal of the temporary file.\<close>

definition install ::
  "'w update_io \<Rightarrow> ('w update_io \<Rightarrow> string \<Rightarrow> string \<Rightarrow> 'w \<Rightarrow> bool \<times> 'w) \<Rightarrow> CheckResponse \<Rightarrow> string \<Rightarrow> string \<Rightarrow> 'w \<Rightarrow> update_outcome \<times> 'w" where
  "install io swapBinary cr exe tmp w =
     (case up_fetch io (cr_url cr) w of
        (None, w1) \<Rightarrow> (Update_failed ''download binary'', w1)
      | (Some (status, bytes, whole), w1) \<Rightarrow>
          if status \<noteq> 200 then (Update_failed ''download returned status'', w1)
          else (case up_write io tmp bytes w1 of (written, w2) \<Rightarrow>
            if \<not> whole \<or> \<not> written then (Update_failed ''write binary'', w2)
            else if up_hash io bytes \<noteq> cr_checksum cr then (Update_failed ''checksum mismatch'', w2)
            else (case up_chmod io tmp w2 of
                    (False, w3) \<Rightarrow> (Update_failed ''chmod'', w3)
                  | (True, w3) \<Rightarrow> (case swapBinary io tmp exe w3 of
                        (False, w4) \<Rightarrow> (Update_failed ''install binary'', w4)
                      | (True, w4) \<Rightarrow> (case up_exec io exe w4 of
                            (True, w5) \<Rightarrow> (Relaunched, w5)
                          | (False, w5) \<Rightarrow> (Update_failed ''exec'', w5))))))"

definition applyUpdate ::
  "'w update_io \<Rightarrow> ('w update_io \<Rightarrow> string \<Rightarrow> string \<Rightarrow> 'w \<Rightarrow> bool \<times> 'w) \<Rightarrow> CheckResponse \<Rightarrow> 'w \<Rightarrow> update_outcome \<times> 'w" where
  "applyUpdate io swapBinary cr w =
     (case Option.bind (up_exe io w) (\<lambda>exe. up_resolve io exe w) of
        None \<Rightarrow> (Update_failed ''resolve executable path'', w)
      | Some exe \<Rightarrow> (case up_temp io (dir_of exe) w of
          (None, w1) \<Rightarrow> (Update_failed ''create temp file'', w1)
        | (Some tmp, w1) \<Rightarrow> (case install io swapBinary cr exe tmp w1 of
            (Relaunched, w2) \<Rightarrow> (Relaunched, w2)
          | (r, w2) \<Rightarrow> (r, up_remove io tmp w2))))"

definition CheckAndUpdate ::
  "release_crypto \<Rightarrow> string \<Rightarrow> 'w update_io \<Rightarrow> ('w update_io \<Rightarrow> string \<Rightarrow> string \<Rightarrow> 'w \<Rightarrow> bool \<times> 'w) \<Rightarrow> string \<Rightarrow> string
     \<Rightarrow> string \<Rightarrow> string \<Rightarrow> string \<Rightarrow> 'w \<Rightarrow> update_outcome \<times> 'w" where
  "CheckAndUpdate C pubB64 io swapBinary goos goarch apiURL apiKey version w =
     (case up_check io (apiURL @ ''/update/check?version='' @ version @ ''&os='' @ goos @ ''&arch='' @ goarch) apiKey w of
        (None, w1) \<Rightarrow> (Update_failed ''check request'', w1)
      | (Some (status, answer), w1) \<Rightarrow>
          if status \<noteq> 200 then (Update_failed ''check returned status'', w1)
          else (case answer of
              None \<Rightarrow> (Update_failed ''decode response'', w1)
            | Some cr \<Rightarrow>
                if \<not> cr_available cr then (Up_to_date, w1)
                else if cr_url cr = [] then (Update_failed ''update available but download_url is empty'', w1)
                else if cr_checksum cr = [] then (Update_failed ''update available but checksum_sha256 is empty'', w1)
                else (case verifyRelease C pubB64 cr goos goarch of
                        Some e \<Rightarrow> (Update_failed e, w1)
                      | None \<Rightarrow> applyUpdate io swapBinary cr w1)))"

text \<open>\<^verbatim>\<open>cleanupOldBinary\<close> of Windows, at the start of the poller.\<close>

definition cleanupOldBinary_windows :: "'w update_io \<Rightarrow> string \<Rightarrow> 'w \<Rightarrow> 'w" where
  "cleanupOldBinary_windows io exe w = up_remove io (exe @ ''.old'') w"

subsection \<open>Files\<close>

definition file_laws :: "'w update_io \<Rightarrow> ('w \<Rightarrow> string \<Rightarrow> string option) \<Rightarrow> bool" where
  "file_laws io file \<longleftrightarrow>
     (\<forall>url key w. file (snd (up_check io url key w)) = file w)
     \<and> (\<forall>url w. file (snd (up_fetch io url w)) = file w)
     \<and> (\<forall>dir w p w1. up_temp io dir w = (Some p, w1) \<longrightarrow>
           file w p = None \<and> p \<noteq> [] \<and> is_num (last p) \<and> (\<forall>q. q \<noteq> p \<longrightarrow> file w1 q = file w q))
     \<and> (\<forall>dir w w1. up_temp io dir w = (None, w1) \<longrightarrow> file w1 = file w)
     \<and> (\<forall>p b w ok w1. up_write io p b w = (ok, w1) \<longrightarrow> (ok \<longrightarrow> file w1 p = Some b) \<and> (\<forall>q. q \<noteq> p \<longrightarrow> file w1 q = file w q))
     \<and> (\<forall>p w. file (snd (up_chmod io p w)) = file w)
     \<and> (\<forall>a b w ok w1. up_rename io a b w = (ok, w1) \<longrightarrow> file w1 = (if ok then (file w)(b := file w a, a := None) else file w))
     \<and> (\<forall>p w q. q \<noteq> p \<longrightarrow> file (up_remove io p w) q = file w q)
     \<and> (\<forall>p w. file (snd (up_exec io p w)) = file w)"

lemma file_lawsD:
  assumes "file_laws io file"
  shows "file (snd (up_check io url key w)) = file w" "file (snd (up_fetch io url w)) = file w"
    "up_temp io dir w = (Some p, w1) \<Longrightarrow> file w p = None \<and> p \<noteq> [] \<and> is_num (last p) \<and> (\<forall>q. q \<noteq> p \<longrightarrow> file w1 q = file w q)"
    "up_temp io dir w = (None, w1) \<Longrightarrow> file w1 = file w"
    "up_write io p b w = (ok, w1) \<Longrightarrow> (ok \<longrightarrow> file w1 p = Some b) \<and> (\<forall>q. q \<noteq> p \<longrightarrow> file w1 q = file w q)"
    "file (snd (up_chmod io p w)) = file w"
    "up_rename io a c w = (ok, w1) \<Longrightarrow> file w1 = (if ok then (file w)(c := file w a, a := None) else file w)"
    "q \<noteq> p \<Longrightarrow> file (up_remove io p w) q = file w q"
    "file (snd (up_exec io p w)) = file w"
proof -
  note L = assms [unfolded file_laws_def]
  show "file (snd (up_check io url key w)) = file w" "file (snd (up_fetch io url w)) = file w"
    "file (snd (up_chmod io p w)) = file w" "file (snd (up_exec io p w)) = file w" using L by (elim conjE, simp only:)+
  show "up_temp io dir w = (Some p, w1) \<Longrightarrow> file w p = None \<and> p \<noteq> [] \<and> is_num (last p) \<and> (\<forall>q. q \<noteq> p \<longrightarrow> file w1 q = file w q)"
    using L by (elim conjE) blast
  show "up_temp io dir w = (None, w1) \<Longrightarrow> file w1 = file w" using L by (elim conjE) (simp only:)
  show "up_write io p b w = (ok, w1) \<Longrightarrow> (ok \<longrightarrow> file w1 p = Some b) \<and> (\<forall>q. q \<noteq> p \<longrightarrow> file w1 q = file w q)"
    using L by (elim conjE) blast
  show "up_rename io a c w = (ok, w1) \<Longrightarrow> file w1 = (if ok then (file w)(c := file w a, a := None) else file w)"
    using L by (elim conjE) (simp only:)
  have "\<forall>p w q. q \<noteq> p \<longrightarrow> file (up_remove io p w) q = file w q" using L by (elim conjE) assumption
  then show "q \<noteq> p \<Longrightarrow> file (up_remove io p w) q = file w q" by simp
qed

text \<open>What a swap may leave at the place of the executable.\<close>

definition swap_law ::
  "('w update_io \<Rightarrow> string \<Rightarrow> string \<Rightarrow> 'w \<Rightarrow> bool \<times> 'w) \<Rightarrow> 'w update_io \<Rightarrow> ('w \<Rightarrow> string \<Rightarrow> string option) \<Rightarrow> bool \<Rightarrow> bool" where
  "swap_law swapBinary io file windows \<longleftrightarrow> (\<forall>tmp exe old w ok w1. swapBinary io tmp exe w = (ok, w1) \<longrightarrow> tmp \<noteq> exe \<longrightarrow>
     tmp \<noteq> exe @ ''.old'' \<longrightarrow> file w exe = Some old \<longrightarrow>
     (if ok then file w1 exe = file w tmp
      else file w1 exe = Some old \<or> (windows \<and> file w1 exe = None \<and> file w1 (exe @ ''.old'') = Some old)))"

lemma swap_unix_law: "file_laws io file \<Longrightarrow> swap_law swapBinary_unix io file False"
  unfolding swap_law_def swapBinary_unix_def using file_lawsD(7) by (fastforce split: if_splits)

lemma swap_windows_law:
  assumes "file_laws io file"
  shows "swap_law swapBinary_windows io file True"
  unfolding swap_law_def
proof (intro allI impI)
  fix tmp exe old w ok w1
  let ?old = "exe @ ''.old''"
  assume s: "swapBinary_windows io tmp exe w = (ok, w1)" and ne: "tmp \<noteq> exe" "tmp \<noteq> ?old" and f: "file w exe = Some old"
  define wr where "wr = up_remove io ?old w"
  have fr: "file wr exe = Some old" "file wr tmp = file w tmp"
    using file_lawsD(8) [OF assms, of exe ?old w] file_lawsD(8) [OF assms, of tmp ?old w] ne f by (simp_all add: wr_def)
  obtain ok2 w2 where 2: "up_rename io exe ?old wr = (ok2, w2)" by fastforce
  note f2 = file_lawsD(7) [OF assms 2]
  obtain ok3 w3 where 3: "up_rename io tmp exe w2 = (ok3, w3)" by fastforce
  note f3 = file_lawsD(7) [OF assms 3]
  obtain ok4 w4 where 4: "up_rename io ?old exe w3 = (ok4, w4)" by fastforce
  note f4 = file_lawsD(7) [OF assms 4]
  have "(ok, w1) = (if \<not> ok2 then (False, w2) else if ok3 then (True, w3) else (False, w4))"
    using s 2 3 4 by (simp add: swapBinary_windows_def Let_def wr_def [symmetric] split: bool.splits)
  then show "if ok then file w1 exe = file w tmp
      else file w1 exe = Some old \<or> (True \<and> file w1 exe = None \<and> file w1 ?old = Some old)"
    using fr f2 f3 f4 ne by (cases ok2; cases ok3; cases ok4) auto
qed

lemma install_effect:
  assumes laws: "file_laws io file" and swap: "swap_law swapBinary io file windows"
    and i: "install io swapBinary cr exe tmp w = (r, w')"
    and ne: "tmp \<noteq> exe" "tmp \<noteq> exe @ ''.old''" and f: "file w exe = Some old"
  shows "(r \<noteq> Relaunched \<and> file w' exe = Some old)
    \<or> (\<exists>bytes. file w' exe = Some bytes \<and> up_hash io bytes = cr_checksum cr)
    \<or> (r \<noteq> Relaunched \<and> windows \<and> file w' exe = None \<and> file w' (exe @ ''.old'') = Some old)"
proof -
  obtain x w1 where 1: "up_fetch io (cr_url cr) w = (x, w1)" by fastforce
  have f1: "file w1 = file w" using file_lawsD(2) [OF laws, of "cr_url cr" w] 1 by simp
  show ?thesis
  proof (cases "\<exists>bytes. x = Some (200, bytes, True)")
    case False
    have "r \<noteq> Relaunched \<and> file w' exe = Some old"
    proof (cases x)
      case None
      then show ?thesis using i 1 f1 f by (auto simp: install_def)
    next
      case (Some y)
      obtain st bytes whole where y: "y = (st, bytes, whole)" by (cases y) auto
      obtain ok w2 where 2: "up_write io tmp bytes w1 = (ok, w2)" by fastforce
      have "file w2 exe = Some old" using file_lawsD(5) [OF laws 2] f1 f ne by simp
      then show ?thesis using i 1 2 f1 f Some y False by (auto simp: install_def split: if_splits)
    qed
    then show ?thesis by blast
  next
    case True
    then obtain bytes where x: "x = Some (200, bytes, True)" by blast
    obtain ok2 w2 where 2: "up_write io tmp bytes w1 = (ok2, w2)" by fastforce
    have f2: "file w2 exe = Some old" "ok2 \<Longrightarrow> file w2 tmp = Some bytes" using file_lawsD(5) [OF laws 2] f1 f ne by simp_all
    obtain ok3 w3 where 3: "up_chmod io tmp w2 = (ok3, w3)" by fastforce
    have f3: "file w3 = file w2" using file_lawsD(6) [OF laws, of tmp w2] 3 by simp
    obtain ok4 w4 where 4: "swapBinary io tmp exe w3 = (ok4, w4)" by fastforce
    have f4: "if ok4 then file w4 exe = file w3 tmp
        else file w4 exe = Some old \<or> (windows \<and> file w4 exe = None \<and> file w4 (exe @ ''.old'') = Some old)"
      using swap 4 ne f2(1) unfolding swap_law_def f3 [symmetric] by blast
    obtain ok5 w5 where 5: "up_exec io exe w4 = (ok5, w5)" by fastforce
    have f5: "file w5 = file w4" using file_lawsD(9) [OF laws, of exe w4] 5 by simp
    have r: "(r, w') = (if \<not> ok2 then (Update_failed ''write binary'', w2)
        else if up_hash io bytes \<noteq> cr_checksum cr then (Update_failed ''checksum mismatch'', w2)
        else if \<not> ok3 then (Update_failed ''chmod'', w3) else if \<not> ok4 then (Update_failed ''install binary'', w4)
        else if ok5 then (Relaunched, w5) else (Update_failed ''exec'', w5))"
      using i 1 2 3 4 5 x by (cases ok2; cases ok3; cases ok4; cases ok5; cases "up_hash io bytes = cr_checksum cr") (simp_all add: install_def)
    show ?thesis using r f2 f3 f4 f5 by (auto split: if_splits)
  qed
qed

lemma temp_apart:
  assumes "file_laws io file" "up_temp io dir w = (Some tmp, w1)" "file w exe = Some old"
  shows "tmp \<noteq> exe" "tmp \<noteq> exe @ ''.old''" "file w1 exe = Some old"
proof -
  note t = file_lawsD(3) [OF assms(1,2)]
  show "tmp \<noteq> exe" using t assms(3) by auto
  then show "file w1 exe = Some old" using t assms(3) by auto
  have "last (exe @ ''.old'') = CHR ''d''" by simp
  moreover have "\<not> is_num (CHR ''d'')" by code_simp
  ultimately show "tmp \<noteq> exe @ ''.old''" using t by metis
qed


subsection \<open>The three programs agree on what is signed\<close>

text \<open>Ed25519 and Base64 as documented: a signature verifies under the public key of its private key and has 64 bytes, and
  decoding inverts encoding; the text of a signature contains no white space.\<close>

definition signature_laws :: "release_crypto \<Rightarrow> (string \<Rightarrow> string) \<Rightarrow> bool" where
  "signature_laws C public_of \<longleftrightarrow>
     (\<forall>priv msg. ed_verify C (public_of priv) msg (ed_sign C priv msg) \<and> length (ed_sign C priv msg) = 64 \<and> length (public_of priv) = 32)
     \<and> (\<forall>b. b64_decode C (b64_encode C b) = Some b \<and> trim_space (b64_encode C b) = b64_encode C b \<and> (b \<noteq> [] \<longrightarrow> b64_encode C b \<noteq> []))"

text \<open>C29. A signature made with the offline tool is accepted by the API for the release row and by every agent of that platform
  with the public key built in, whatever the case of the checksum: the message of the tool, of the API and of the agent
  is the same.\<close>

theorem tool_signature_accepted:
  assumes "signature_laws C public_of"
    and "tool_sign C privB64 (rel_version rel) (rel_os rel) (rel_arch rel) (rel_checksum rel) = Inr sig"
    and "b64_decode C (trim_space privB64) = Some raw"
    and "pub = public_of (if length raw = 32 then ed_from_seed C raw else raw)"
    and "trim_space (env ''UPDATE_PUBLIC_KEY'') = b64_encode C pub"
    and "cr_version cr = rel_version rel" "to_lower (cr_checksum cr) = to_lower (rel_checksum rel)" "cr_signature cr = sig"
  shows "verifyReleaseSignature C env rel sig = None \<and> verifyRelease C (b64_encode C pub) cr (rel_os rel) (rel_arch rel) = None"
proof -
  let ?priv = "if length raw = 32 then ed_from_seed C raw else raw"
  have sig: "sig = b64_encode C (ed_sign C ?priv (tool_releaseMessage (rel_version rel) (rel_os rel) (rel_arch rel) (rel_checksum rel)))"
    using assms(2,3) by (auto simp: tool_sign_def Let_def split: if_splits)
  let ?s = "ed_sign C ?priv (tool_releaseMessage (rel_version rel) (rel_os rel) (rel_arch rel) (rel_checksum rel))"
  have s: "b64_decode C sig = Some ?s" "trim_space sig = sig" "length ?s = 64" "length pub = 32" "b64_decode C (b64_encode C pub) = Some pub"
    using assms(1,4) unfolding sig signature_laws_def by simp_all
  have "?s \<noteq> []" "pub \<noteq> []" using s(3,4) by force+
  then have ne: "sig \<noteq> []" "b64_encode C pub \<noteq> []" using assms(1) unfolding sig signature_laws_def by blast+
  have v: "ed_verify C pub (tool_releaseMessage (rel_version rel) (rel_os rel) (rel_arch rel) (rel_checksum rel)) ?s"
    using assms(1,4) unfolding signature_laws_def by blast
  have "verifyReleaseSignature C env rel sig = None"
    using s v ne assms(5) by (simp add: verifyReleaseSignature_def Let_def releaseSigningMessage_def tool_releaseMessage_def)
  moreover have "verifyRelease C (b64_encode C pub) cr (rel_os rel) (rel_arch rel) = None"
    using s v ne assms(6,7,8) by (simp add: verifyRelease_def ReleaseMessage_def tool_releaseMessage_def)
  ultimately show ?thesis ..
qed

text \<open>The digest of the download is in lower case and is compared as it stands, so a checksum announced with a capital letter never
  installs, although its signature verifies.\<close>

theorem upper_case_checksum_refused:
  assumes "\<And>b. to_lower (up_hash io b) = up_hash io b" "to_lower (cr_checksum cr) \<noteq> cr_checksum cr"
  shows "fst (install io swapBinary cr exe tmp w) \<noteq> Relaunched"
proof -
  have "up_hash io b \<noteq> cr_checksum cr" for b using assms by metis
  then show ?thesis by (auto simp: install_def split: option.split prod.split)
qed

subsection \<open>A small machine\<close>

text \<open>Files as an association list; the API offers one release and the host serves its bytes.\<close>

type_synonym disk = "(string \<times> string) list"

definition offer :: CheckResponse where
  "offer = \<lparr>cr_available = True, cr_version = ''2'', cr_url = ''u'', cr_checksum = ''new'', cr_signature = []\<rparr>"

fun fresh_name :: "nat \<Rightarrow> string" where
  "fresh_name n = CHR ''t'' # replicate (Suc n) CHR ''0''"

definition free_number :: "disk \<Rightarrow> nat" where
  "free_number d = Suc (Max (insert 0 (length ` fst ` set d)))"

definition small_io :: "disk update_io" where
  "small_io = \<lparr>up_check = (\<lambda>_ _ d. (Some (200, Some offer), d)), up_exe = (\<lambda>_. Some ''agent''), up_resolve = (\<lambda>p _. Some p),
     up_temp = (\<lambda>_ d. (Some (fresh_name (free_number d)), al_upd (fresh_name (free_number d)) [] d)),
     up_fetch = (\<lambda>_ d. (Some (200, ''new'', True), d)), up_write = (\<lambda>p b d. (True, al_upd p b d)), up_chmod = (\<lambda>_ d. (True, d)),
     up_rename = (\<lambda>a b d. case map_of d a of None \<Rightarrow> (False, d) | Some v \<Rightarrow> (True, al_del a (al_upd b v d))),
     up_remove = al_del, up_exec = (\<lambda>_ d. (True, d)), up_hash = (\<lambda>b. b)\<rparr>"

lemma fresh_unused: "map_of d (fresh_name (free_number d)) = None"
proof (rule ccontr)
  assume "map_of d (fresh_name (free_number d)) \<noteq> None"
  then have "fresh_name (free_number d) \<in> fst ` set d" by (metis map_of_eq_None_iff)
  then have "length (fresh_name (free_number d)) \<in> insert 0 (length ` fst ` set d)" by blast
  then have "length (fresh_name (free_number d)) \<le> Max (insert 0 (length ` fst ` set d))" by (intro Max_ge) simp_all
  then show False by (simp add: free_number_def)
qed

lemma small_io_laws: "file_laws small_io map_of"
  unfolding file_laws_def
proof (intro conjI allI impI)
  fix dir w p w1 assume t: "up_temp small_io dir w = (Some p, w1)"
  then have p: "p = fresh_name (free_number w)" "w1 = al_upd p [] w" by (auto simp: small_io_def)
  show "map_of w p = None" using fresh_unused p(1) by simp
  show "p \<noteq> []" using p(1) by simp
  show "is_num (last p)" using p(1) by (simp add: is_num_def code_of_def)
  fix q assume "q \<noteq> p" then show "map_of w1 q = map_of w q" using p(2) by simp
next
  fix a b w ok w1 assume "up_rename small_io a b w = (ok, w1)"
  then show "map_of w1 = (if ok then (map_of w)(b := map_of w a, a := None) else map_of w)"
    by (auto simp: small_io_def split: option.splits)
qed (auto simp: small_io_def)


definition wrapped_crypto :: release_crypto where
  "wrapped_crypto = \<lparr>b64_decode = (\<lambda>s. Some (butlast (tl s))), b64_encode = (\<lambda>s. CHR ''x'' # s @ ''x''),
     ed_verify = (\<lambda>pub msg sig. sig = take 64 (pub @ pub)), ed_sign = (\<lambda>_ _. replicate 64 CHR ''p''), ed_from_seed = (\<lambda>s. s)\<rparr>"

lemma wrapped_laws: "signature_laws wrapped_crypto (\<lambda>_. replicate 32 CHR ''p'')"
proof -
  have "trim_space (CHR ''x'' # b @ ''x'') = CHR ''x'' # b @ ''x''" for b
    by (simp add: trim_space_def is_space_def)
  moreover have "replicate 64 CHR ''p'' = take 64 (replicate 32 CHR ''p'' @ replicate 32 CHR ''p'')"
    by (simp add: replicate_add [symmetric])
  ultimately show ?thesis by (simp add: signature_laws_def wrapped_crypto_def)
qed

definition signed_release :: AgentRelease where
  "signed_release = \<lparr>rel_version = ''2.0'', rel_os = ''linux'', rel_arch = ''amd64'', rel_url = ''u'', rel_s3 = [],
     rel_checksum = replicate 64 CHR ''A'', rel_published = \<lparr>inst = 0, off = 0\<rparr>, rel_pending = False, rel_signature = []\<rparr>"

theorem tool_signature_accepted_witness:
  "\<exists>sig. tool_sign wrapped_crypto (CHR ''x'' # replicate 32 CHR ''k'' @ ''x'') ''2.0'' ''linux'' ''amd64'' (replicate 64 CHR ''A'') = Inr sig
     \<and> verifyRelease wrapped_crypto (b64_encode wrapped_crypto (replicate 32 CHR ''p''))
         \<lparr>cr_available = True, cr_version = ''2.0'', cr_url = ''u'', cr_checksum = replicate 64 CHR ''a'', cr_signature = sig\<rparr> ''linux'' ''amd64'' = None"
proof -
  let ?key = "CHR ''x'' # replicate 32 CHR ''k'' @ ''x''"
  let ?sig = "b64_encode wrapped_crypto (replicate 64 CHR ''p'')"
  have trim: "trim_space ?key = ?key" by (simp add: trim_space_def is_space_def)
  have raw: "b64_decode wrapped_crypto (trim_space ?key) = Some (replicate 32 CHR ''k'')" unfolding trim by (simp add: wrapped_crypto_def)
  have t: "tool_sign wrapped_crypto ?key (rel_version signed_release) (rel_os signed_release) (rel_arch signed_release) (rel_checksum signed_release) = Inr ?sig"
    using raw by (simp add: tool_sign_def signed_release_def wrapped_crypto_def Let_def)
  have "lower_char (CHR ''A'') = CHR ''a''" "lower_char (CHR ''a'') = CHR ''a''" by code_simp+
  then have low: "to_lower (replicate 64 CHR ''a'') = to_lower (replicate 64 CHR ''A'')" by (simp add: to_lower_def)
  have "verifyRelease wrapped_crypto (b64_encode wrapped_crypto (replicate 32 CHR ''p''))
      \<lparr>cr_available = True, cr_version = ''2.0'', cr_url = ''u'', cr_checksum = replicate 64 CHR ''a'', cr_signature = ?sig\<rparr> ''linux'' ''amd64'' = None"
    using tool_signature_accepted [OF wrapped_laws t raw refl, of "\<lambda>_. b64_encode wrapped_crypto (replicate 32 CHR ''p'')"
        "\<lparr>cr_available = True, cr_version = ''2.0'', cr_url = ''u'', cr_checksum = replicate 64 CHR ''a'', cr_signature = ?sig\<rparr>"] low
    by (simp add: signed_release_def wrapped_crypto_def trim_space_def is_space_def)
  moreover have "tool_sign wrapped_crypto ?key ''2.0'' ''linux'' ''amd64'' (replicate 64 CHR ''A'') = Inr ?sig" using t by (simp add: signed_release_def)
  ultimately show ?thesis by blast
qed

end
