(* ===== verification/Paths.thy ===== *)
theory Paths
  imports RateLimiter
begin

text \<open>
  What the agent's readers of system files use of Go's library: paths (\<^verbatim>\<open>path/filepath\<close>), lines
  (\<^verbatim>\<open>bufio.Scanner\<close>), fields and numbers (\<^verbatim>\<open>strings\<close>, \<^verbatim>\<open>strconv\<close>), and the files of an endpoint as one pass over them sees
  them.
\<close>

subsection \<open>Paths\<close>

text \<open>\<^verbatim>\<open>filepath.Join\<close> with the separator of the platform.\<close>

fun clean_parts :: "bool \<Rightarrow> string list \<Rightarrow> string list \<Rightarrow> string list" where
  "clean_parts rooted acc [] = rev acc"
| "clean_parts rooted acc (p # ps) =
     (if p = [] \<or> p = ''.'' then clean_parts rooted acc ps
      else if p = ''..'' then
        (if acc \<noteq> [] \<and> hd acc \<noteq> ''..'' then clean_parts rooted (tl acc) ps
         else if rooted then clean_parts rooted acc ps
         else clean_parts rooted (p # acc) ps)
      else clean_parts rooted (p # acc) ps)"

fun join_parts :: "char \<Rightarrow> string list \<Rightarrow> string" where
  "join_parts sep [] = []"
| "join_parts sep [p] = p"
| "join_parts sep (p # ps) = p @ sep # join_parts sep ps"

definition path_join :: "char \<Rightarrow> string list \<Rightarrow> string" where
  "path_join sep elems =
     (case dropWhile (\<lambda>e. e = []) elems of [] \<Rightarrow> []
      | es \<Rightarrow>
          let p = join_parts sep es; rooted = (hd p = sep);
              body = join_parts sep (clean_parts rooted [] (split_on sep p))
          in if rooted then sep # body else if body = [] then ''.'' else body)"

definition filepath_join :: "string list \<Rightarrow> string" where
  "filepath_join = path_join CHR ''/''"

text \<open>\<^verbatim>\<open>filepath.Base\<close>: the empty path gives a dot.\<close>

definition filepath_base :: "string \<Rightarrow> string" where
  "filepath_base p =
     (let q = rev (dropWhile (\<lambda>c. c = CHR ''/'') (rev p))
      in if p = [] then ''.'' else if q = [] then ''/'' else last (split_on CHR ''/'' q))"

subsection \<open>Text\<close>

text \<open>\<^verbatim>\<open>bufio.ScanLines\<close>: a carriage return before the line feed goes, and a text that ends with a line feed has no
  empty line after it. A line of 64 KiB or more ends the scan with an error (\<open>False\<close>).\<close>

definition drop_cr :: "string \<Rightarrow> string" where
  "drop_cr s = (if s \<noteq> [] \<and> last s = CHR 0x0D then butlast s else s)"

fun scan_from :: "string list \<Rightarrow> string list \<times> bool" where
  "scan_from [] = ([], True)"
| "scan_from (l # ls) =
     (if 65536 \<le> int (length l) then ([], False)
      else if ls = [] \<and> l = [] then ([], True)
      else (case scan_from ls of (rest, ok) \<Rightarrow> (drop_cr l # rest, ok)))"

definition scan_lines :: "string \<Rightarrow> string list \<times> bool" where
  "scan_lines s = scan_from (split_on CHR 0x0A s)"

text \<open>\<^verbatim>\<open>strings.Fields\<close>, \<^verbatim>\<open>strings.Trim\<close> with a set of characters, \<^verbatim>\<open>strings.Cut\<close>, \<^verbatim>\<open>strings.LastIndex\<close>.\<close>

definition fields_of :: "string \<Rightarrow> string list" where
  "fields_of s = filter (\<lambda>w. w \<noteq> []) (split_on CHR '' '' (map (\<lambda>c. if is_space c then CHR '' '' else c) s))"

definition trim_set :: "char set \<Rightarrow> string \<Rightarrow> string" where
  "trim_set cs s = rev (dropWhile (\<lambda>c. c \<in> cs) (rev (dropWhile (\<lambda>c. c \<in> cs) s)))"

definition cut_at :: "char \<Rightarrow> string \<Rightarrow> (string \<times> string) option" where
  "cut_at c s = (if c \<in> set s then Some (takeWhile (\<lambda>x. x \<noteq> c) s, tl (dropWhile (\<lambda>x. x \<noteq> c) s)) else None)"

definition last_index :: "string \<Rightarrow> string \<Rightarrow> nat option" where
  "last_index s pat = find (\<lambda>i. prefix pat (drop i s)) (rev [0..<Suc (length s)])"

text \<open>\<^verbatim>\<open>n, _ := strconv.ParseInt(s, 10, 64)\<close>: zero for what is no number, the nearest bound for one out of range.\<close>

definition int_of :: "string \<Rightarrow> int" where
  "int_of s =
     (let (neg, body) = (case s of
            c # cs \<Rightarrow> if c = CHR ''-'' then (True, cs) else if c = CHR ''+'' then (False, cs) else (False, s)
          | [] \<Rightarrow> (False, []));
          v = (if neg then - int (nat_of_digits body) else int (nat_of_digits body))
      in if all_digits body then sat64 v else 0)"

subsection \<open>Files\<close>

text \<open>A pass reads every path at most once, so a function of the path covers files that change meanwhile. A directory
  lists its entries by name, each with whether it is a directory.\<close>

record files =
  dir_of :: "string \<Rightarrow> (string \<times> bool) list option"
  text_of :: "string \<Rightarrow> string option"
  link_of :: "string \<Rightarrow> bool"

end
