(* ===== verification/HistoryCollector.thy ===== *)
theory HistoryCollector
  imports RateLimiter GoUrl Paths "HOL-Library.Multiset"
begin

text \<open>
  The browser-history collector, \<^verbatim>\<open>agent/collector/browser_history.go\<close>: which home directories and
  profiles are read, the reuse of a scan while a database is unchanged, the choice of new entries,
  and the record of what was sent. The file system is a snapshot \<open>host_fs\<close>; copying a database to a
  temporary file, opening it and running the query is one call of it, \<open>None\<close> when any of these
  failed. \<^verbatim>\<open>sort.Slice\<close> is not stable: what it makes of equal elements is a parameter (\<open>go_sort\<close>), and
  the proofs use only that it sorts.
\<close>

named_theorems history \<open>facts on the browser-history collector\<close>

subsection \<open>Entries and their keys\<close>

record HistoryEntry =
  URL :: string
  Title :: string
  LastVisitTime :: int
  Browser :: string

definition maxBrowserHistoryScanEntries :: nat where "maxBrowserHistoryScanEntries = 5000"
definition maxBrowserHistoryRecentSnapshotEntries :: nat where "maxBrowserHistoryRecentSnapshotEntries = 200"
definition maxBrowserHistoryUploadEntries :: nat where "maxBrowserHistoryUploadEntries = 5000"
definition maxBrowserHistorySentStateEntries :: nat where "maxBrowserHistorySentStateEntries = 10000"

definition format_int :: "int \<Rightarrow> string" where
  "format_int n = (if n < 0 then CHR ''-'' # dec_str (nat (- n)) else dec_str (nat n))"

definition sentKey :: "HistoryEntry \<Rightarrow> string" where
  "sentKey e = to_lower (Browser e) @ [CHR 0x00] @ URL e @ [CHR 0x00] @ format_int (LastVisitTime e)"

subsection \<open>Reading the host\<close>

text \<open>A scanned row; \<open>None\<close> in its first or last column is a value \<^verbatim>\<open>Scan\<close> refuses.\<close>

datatype int_query = Chromium_query | Firefox_query

type_synonym int_row = "string option \<times> string option \<times> int option"
type_synonym real_row = "string option \<times> string option \<times> float64 option"

record host_fs =
  fs_stat :: "string \<Rightarrow> (int \<times> int) option"  \<comment> \<open>size and modification time\<close>
  fs_dir :: "string \<Rightarrow> (string \<times> bool) list option"
  fs_urls :: "int_query \<Rightarrow> string \<Rightarrow> nat \<Rightarrow> int_row list option"
  fs_visits :: "string \<Rightarrow> nat \<Rightarrow> real_row list option"

record go_sort =
  by_mtime :: "(string \<times> int) list \<Rightarrow> (string \<times> int) list"
  by_visit_desc :: "HistoryEntry list \<Rightarrow> HistoryEntry list"
  by_visit_asc :: "HistoryEntry list \<Rightarrow> HistoryEntry list"
  by_sent :: "(string \<times> int) list \<Rightarrow> (string \<times> int) list"

definition path_sep :: "string \<Rightarrow> char" where
  "path_sep goos = (if goos = ''windows'' then CHR 0x5C else CHR ''/'')"

text \<open>\<open>lines\<close>: the lines of \<^verbatim>\<open>/etc/passwd\<close>, if it can be opened.\<close>

definition human_home :: "string \<Rightarrow> string option" where
  "human_home raw =
     (let line = trim_space raw; cols = split_on CHR '':'' line
      in if line = [] \<or> prefix ''#'' line \<or> length cols < 7 then None
         else (case atoi (cols ! 2) of None \<Rightarrow> None
           | Some uid \<Rightarrow>
               if uid < 1000 then None
               else if contains_str (cols ! 6) ''nologin'' \<or> contains_str (cols ! 6) ''false'' then None
               else if cols ! 5 = [] then None else Some (cols ! 5)))"

definition humanHomeDirsFromPasswd :: "string list option \<Rightarrow> string list" where
  "humanHomeDirsFromPasswd lines = (case lines of None \<Rightarrow> [] | Some ls \<Rightarrow> List.map_filter human_home ls)"

definition add_dir :: "host_fs \<Rightarrow> string \<Rightarrow> string list \<Rightarrow> string list" where
  "add_dir fs dir dirs = (if dir = [] \<or> dir \<in> set dirs \<or> fs_stat fs dir = None then dirs else dirs @ [dir])"

definition resolveHomeDirs :: "host_fs \<Rightarrow> string \<Rightarrow> string option \<Rightarrow> int \<Rightarrow> string list option \<Rightarrow> string list" where
  "resolveHomeDirs fs goos home uid lines =
     (let dirs0 = (case home of None \<Rightarrow> [] | Some h \<Rightarrow> add_dir fs h [])
      in if (goos = ''linux'' \<or> goos = ''darwin'') \<and> uid = 0
         then foldl (\<lambda>dirs d. add_dir fs d dirs) dirs0 (humanHomeDirsFromPasswd lines) else dirs0)"

definition chromiumProfileDirs :: "string \<Rightarrow> (string \<Rightarrow> string) \<Rightarrow> string \<Rightarrow> (string \<times> string) list" where
  "chromiumProfileDirs goos env home =
     (let join = path_join (path_sep goos) in
      if goos = ''darwin'' then
        let base = join [home, ''Library'', ''Application Support''] in
        [(''Chrome'', join [base, ''Google'', ''Chrome'']), (''Edge'', join [base, ''Microsoft Edge'']),
         (''Brave'', join [base, ''BraveSoftware'', ''Brave-Browser'']), (''Chromium'', join [base, ''Chromium'']),
         (''Opera'', join [base, ''com.operasoftware.Opera'']), (''Vivaldi'', join [base, ''Vivaldi''])]
      else if goos = ''linux'' then
        let config = join [home, ''.config'']; snap = join [home, ''snap''] in
        [(''Chrome'', join [config, ''google-chrome'']), (''Chromium'', join [config, ''chromium'']),
         (''Edge'', join [config, ''microsoft-edge'']), (''Brave'', join [config, ''BraveSoftware'', ''Brave-Browser'']),
         (''Opera'', join [config, ''opera'']), (''Vivaldi'', join [config, ''vivaldi'']),
         (''Chrome (snap)'', join [snap, ''chromium'', ''current'', ''.config'', ''chromium''])]
      else if goos = ''windows'' then
        let local = env ''LOCALAPPDATA'' in
        [(''Chrome'', join [local, ''Google'', ''Chrome'', ''User Data'']),
         (''Edge'', join [local, ''Microsoft'', ''Edge'', ''User Data'']),
         (''Brave'', join [local, ''BraveSoftware'', ''Brave-Browser'', ''User Data'']),
         (''Chromium'', join [local, ''Chromium'', ''User Data'']),
         (''Opera'', join [local, ''Opera Software'', ''Opera Stable'']), (''Vivaldi'', join [local, ''Vivaldi'', ''User Data''])]
      else [])"

definition firefoxProfilesDirs :: "string \<Rightarrow> (string \<Rightarrow> string) \<Rightarrow> string \<Rightarrow> string list" where
  "firefoxProfilesDirs goos env home =
     (let join = path_join (path_sep goos) in
      if goos = ''darwin'' then [join [home, ''Library'', ''Application Support'', ''Firefox'', ''Profiles'']]
      else if goos = ''linux'' then
        [join [home, ''.mozilla'', ''firefox''], join [home, ''snap'', ''firefox'', ''common'', ''.mozilla'', ''firefox'']]
      else if goos = ''windows'' then [join [env ''APPDATA'', ''Mozilla'', ''Firefox'', ''Profiles'']]
      else [])"

subsection \<open>Scanning a database\<close>

text \<open>Chromium counts microseconds from 1601, Firefox from 1970, Safari seconds from 2001; the results
  are nanoseconds from 1970.\<close>

definition chromium_entry :: "string \<Rightarrow> int_row \<Rightarrow> HistoryEntry option" where
  "chromium_entry browser row =
     (case row of (Some url, title, Some t) \<Rightarrow>
        let unixMicros = max 0 (i64 (t - 11644473600000000))
        in Some \<lparr>URL = url, Title = (case title of Some s \<Rightarrow> s | None \<Rightarrow> []),
                 LastVisitTime = i64 (unixMicros * 1000), Browser = browser\<rparr>
      | _ \<Rightarrow> None)"

definition firefox_entry :: "int_row \<Rightarrow> HistoryEntry option" where
  "firefox_entry row =
     (case row of (Some url, title, Some t) \<Rightarrow>
        Some \<lparr>URL = url, Title = (case title of Some s \<Rightarrow> s | None \<Rightarrow> []),
              LastVisitTime = i64 (t * 1000), Browser = ''Firefox''\<rparr>
      | _ \<Rightarrow> None)"

definition safari_entry :: "real_row \<Rightarrow> HistoryEntry option" where
  "safari_entry row =
     (case row of (Some url, title, Some t) \<Rightarrow>
        Some \<lparr>URL = url, Title = (case title of Some s \<Rightarrow> s | None \<Rightarrow> []),
              LastVisitTime = f2i (fmul (fadd t 978307200) 1000000000), Browser = ''Safari''\<rparr>
      | _ \<Rightarrow> None)"

definition scanned :: "('r \<Rightarrow> HistoryEntry option) \<Rightarrow> 'r list option \<Rightarrow> HistoryEntry list" where
  "scanned f rows = (case rows of None \<Rightarrow> [] | Some rs \<Rightarrow> List.map_filter f rs)"

definition scanChromiumDB :: "host_fs \<Rightarrow> string \<Rightarrow> string \<Rightarrow> HistoryEntry list" where
  "scanChromiumDB fs browser path = scanned (chromium_entry browser) (fs_urls fs Chromium_query path maxBrowserHistoryScanEntries)"

definition scanFirefoxDB :: "host_fs \<Rightarrow> string \<Rightarrow> HistoryEntry list" where
  "scanFirefoxDB fs path = scanned firefox_entry (fs_urls fs Firefox_query path maxBrowserHistoryScanEntries)"

definition scanSafariDB :: "host_fs \<Rightarrow> string \<Rightarrow> HistoryEntry list" where
  "scanSafariDB fs path = scanned safari_entry (fs_visits fs path maxBrowserHistoryScanEntries)"

subsection \<open>Reusing scans\<close>

type_synonym scan_cache = "(string \<times> string \<times> HistoryEntry list) list"

definition dbSignature :: "host_fs \<Rightarrow> string \<Rightarrow> string" where
  "dbSignature fs path =
     concat (map (\<lambda>suffix. case fs_stat fs (path @ suffix) of None \<Rightarrow> []
         | Some (sz, mtime) \<Rightarrow> suffix @ '':'' @ format_int sz @ '':'' @ format_int mtime @ '';'')
       [[], ''-wal'', ''-shm'', ''-journal''])"

text \<open>\<open>entries\<close> is what a scan made now returns; it is used only where the cache has no answer.\<close>

definition cachedScan :: "string \<Rightarrow> string \<Rightarrow> HistoryEntry list \<Rightarrow> scan_cache \<Rightarrow> HistoryEntry list \<times> scan_cache" where
  "cachedScan path sig entries cache =
     (case (if sig \<noteq> [] then map_of cache path else None) of
        Some (sig0, entries0) \<Rightarrow> if sig0 = sig then (entries0, cache)
          else (entries, if entries \<noteq> [] then al_upd path (sig, entries) cache else cache)
      | None \<Rightarrow> (entries, if sig \<noteq> [] \<and> entries \<noteq> [] then al_upd path (sig, entries) cache else cache))"


fun scan_each :: "host_fs \<Rightarrow> (string \<Rightarrow> HistoryEntry list) \<Rightarrow> string list \<Rightarrow> scan_cache \<Rightarrow> HistoryEntry list \<times> scan_cache" where
  "scan_each fs scan [] cache = ([], cache)"
| "scan_each fs scan (p # ps) cache =
     (case cachedScan p (dbSignature fs p) (scan p) cache of (es, cache1) \<Rightarrow>
      (case scan_each fs scan ps cache1 of (rest, cache2) \<Rightarrow> (es @ rest, cache2)))"

definition profiles_by_age :: "host_fs \<Rightarrow> go_sort \<Rightarrow> string list \<Rightarrow> string list" where
  "profiles_by_age fs srt paths =
     map fst (by_mtime srt (List.map_filter (\<lambda>p. map_option (\<lambda>st. (p, snd st)) (fs_stat fs p)) paths))"

definition chromium_profile :: "string \<Rightarrow> bool" where
  "chromium_profile n \<longleftrightarrow> n = ''Default'' \<or> prefix ''Profile '' n \<or> prefix ''Guest Profile'' n"

definition fetchChromiumHistory ::
  "host_fs \<Rightarrow> go_sort \<Rightarrow> string \<Rightarrow> string \<Rightarrow> string \<Rightarrow> scan_cache \<Rightarrow> HistoryEntry list \<times> scan_cache" where
  "fetchChromiumHistory fs srt goos baseDir browser cache =
     (case fs_dir fs baseDir of None \<Rightarrow> ([], cache)
      | Some es \<Rightarrow> scan_each fs (scanChromiumDB fs browser)
          (profiles_by_age fs srt [path_join (path_sep goos) [baseDir, n, ''History''].
             (n, is_dir) \<leftarrow> es, is_dir, chromium_profile n]) cache)"

definition fetchFirefoxHistory ::
  "host_fs \<Rightarrow> go_sort \<Rightarrow> string \<Rightarrow> string \<Rightarrow> scan_cache \<Rightarrow> HistoryEntry list \<times> scan_cache" where
  "fetchFirefoxHistory fs srt goos baseDir cache =
     (case fs_dir fs baseDir of None \<Rightarrow> ([], cache)
      | Some es \<Rightarrow> scan_each fs (scanFirefoxDB fs)
          (profiles_by_age fs srt [path_join (path_sep goos) [baseDir, n, ''places.sqlite''].
             (n, is_dir) \<leftarrow> es, is_dir]) cache)"

definition fetchSafariHistory :: "host_fs \<Rightarrow> string \<Rightarrow> scan_cache \<Rightarrow> HistoryEntry list \<times> scan_cache" where
  "fetchSafariHistory fs path cache =
     (if fs_stat fs path = None then ([], cache) else scan_each fs (scanSafariDB fs) [path] cache)"

text \<open>The three loops over the home directories.\<close>

fun chromium_all ::
  "host_fs \<Rightarrow> go_sort \<Rightarrow> string \<Rightarrow> (string \<times> string) list \<Rightarrow> scan_cache \<Rightarrow> HistoryEntry list \<times> scan_cache" where
  "chromium_all fs srt goos [] cache = ([], cache)"
| "chromium_all fs srt goos ((browser, dir) # specs) cache =
     (case fetchChromiumHistory fs srt goos dir browser cache of (es, cache1) \<Rightarrow>
      (case chromium_all fs srt goos specs cache1 of (rest, cache2) \<Rightarrow> (es @ rest, cache2)))"

fun firefox_all :: "host_fs \<Rightarrow> go_sort \<Rightarrow> string \<Rightarrow> string list \<Rightarrow> scan_cache \<Rightarrow> HistoryEntry list \<times> scan_cache" where
  "firefox_all fs srt goos [] cache = ([], cache)"
| "firefox_all fs srt goos (dir # dirs) cache =
     (case fetchFirefoxHistory fs srt goos dir cache of (es, cache1) \<Rightarrow>
      (case firefox_all fs srt goos dirs cache1 of (rest, cache2) \<Rightarrow> (es @ rest, cache2)))"

fun homes_history ::
  "host_fs \<Rightarrow> go_sort \<Rightarrow> string \<Rightarrow> (string \<Rightarrow> string) \<Rightarrow> string list \<Rightarrow> scan_cache \<Rightarrow> HistoryEntry list \<times> scan_cache" where
  "homes_history fs srt goos env [] cache = ([], cache)"
| "homes_history fs srt goos env (home # homes) cache =
     (case chromium_all fs srt goos (chromiumProfileDirs goos env home) cache of (cs, cache1) \<Rightarrow>
      (case firefox_all fs srt goos (firefoxProfilesDirs goos env home) cache1 of (ffs, cache2) \<Rightarrow>
       (case (if goos = ''darwin''
              then fetchSafariHistory fs (path_join CHR ''/'' [home, ''Library'', ''Safari'', ''History.db'']) cache2
              else ([], cache2)) of (sfs, cache3) \<Rightarrow>
        (case homes_history fs srt goos env homes cache3 of (rest, cache4) \<Rightarrow> (cs @ ffs @ sfs @ rest, cache4)))))"

subsection \<open>Collecting and committing\<close>

record BrowserHistory =
  stateLoaded :: bool
  sentEntries :: "(string \<times> int) list option"  \<comment> \<open>\<^verbatim>\<open>nil\<close> is \<open>None\<close>\<close>
  pendingEntries :: "HistoryEntry list"

definition NewBrowserHistory :: BrowserHistory where
  "NewBrowserHistory = \<lparr>stateLoaded = False, sentEntries = None, pendingEntries = []\<rparr>"

text \<open>\<open>saved\<close> is the state file: \<open>None\<close> when there is no path or the file cannot be read or decoded.\<close>

type_synonym saved_state = "(string \<times> int) list option option"

definition loadState :: "saved_state \<Rightarrow> BrowserHistory \<Rightarrow> BrowserHistory" where
  "loadState saved b =
     (if stateLoaded b then b
      else let b1 = b\<lparr>stateLoaded := True\<rparr> in
        (case saved of None \<Rightarrow> b1
         | Some (Some m) \<Rightarrow> b1\<lparr>sentEntries := Some m\<rparr>
         | Some None \<Rightarrow> b1\<lparr>sentEntries := Some []\<rparr>))"

definition hasSent :: "BrowserHistory \<Rightarrow> HistoryEntry \<Rightarrow> bool" where
  "hasSent b e = (case sentEntries b of None \<Rightarrow> False | Some m \<Rightarrow> map_of m (sentKey e) \<noteq> None)"

record history_payload =
  top_recent_urls :: "HistoryEntry list"
  new_history_entries :: "HistoryEntry list"

definition no_history :: history_payload where
  "no_history = \<lparr>top_recent_urls = [], new_history_entries = []\<rparr>"

text \<open>\<open>found\<close> are the entries of all databases.\<close>

definition upload_choice :: "go_sort \<Rightarrow> HistoryEntry list \<Rightarrow> BrowserHistory \<Rightarrow> HistoryEntry list" where
  "upload_choice srt found b =
     take maxBrowserHistoryUploadEntries
       (by_visit_asc srt (filter (\<lambda>e. \<not> hasSent b e) (by_visit_desc srt found)))"

definition collect_entries ::
  "go_sort \<Rightarrow> HistoryEntry list \<Rightarrow> BrowserHistory \<Rightarrow> history_payload \<times> BrowserHistory" where
  "collect_entries srt found b =
     (if found = [] then (no_history, b\<lparr>pendingEntries := []\<rparr>)
      else let chosen = upload_choice srt found b
        in (\<lparr>top_recent_urls = take maxBrowserHistoryRecentSnapshotEntries (by_visit_desc srt found),
             new_history_entries = by_visit_desc srt chosen\<rparr>, b\<lparr>pendingEntries := chosen\<rparr>))"

definition history_Collect ::
  "saved_state \<Rightarrow> host_fs \<Rightarrow> go_sort \<Rightarrow> string \<Rightarrow> (string \<Rightarrow> string) \<Rightarrow> string list \<Rightarrow> scan_cache \<Rightarrow> BrowserHistory
     \<Rightarrow> history_payload \<times> scan_cache \<times> BrowserHistory" where
  "history_Collect saved fs srt goos env homes cache b0 =
     (let b = loadState saved b0
      in if homes = [] then (no_history, cache, b\<lparr>pendingEntries := []\<rparr>)
         else (case homes_history fs srt goos env homes cache of (found, cache1) \<Rightarrow>
                 (case collect_entries srt found b of (payload, b1) \<Rightarrow> (payload, cache1, b1))))"

definition pruneSentEntries :: "go_sort \<Rightarrow> (string \<times> int) list \<Rightarrow> (string \<times> int) list" where
  "pruneSentEntries srt m =
     (if length m \<le> maxBrowserHistorySentStateEntries then m
      else take maxBrowserHistorySentStateEntries (by_sent srt m))"

definition mark_sent :: "HistoryEntry list \<Rightarrow> (string \<times> int) list \<Rightarrow> (string \<times> int) list" where
  "mark_sent es m = foldl (\<lambda>m e. al_upd (sentKey e) (LastVisitTime e) m) m es"

text \<open>The lock is only tried: \<open>busy\<close> while a collection abandoned by its guard still runs. The second
  part is the content the state file is given, if it is written.\<close>

definition history_Commit ::
  "go_sort \<Rightarrow> bool \<Rightarrow> BrowserHistory \<Rightarrow> BrowserHistory \<times> (string \<times> int) list option" where
  "history_Commit srt busy b =
     (if busy \<or> pendingEntries b = [] then (b, None)
      else let m = pruneSentEntries srt (mark_sent (pendingEntries b) (case sentEntries b of None \<Rightarrow> [] | Some m \<Rightarrow> m))
        in (b\<lparr>sentEntries := Some m, pendingEntries := []\<rparr>, Some m))"
subsection \<open>Keys tell visits apart\<close>

lemma lower_char_nul [history]: "lower_char c = CHR 0x00 \<longleftrightarrow> c = CHR 0x00"
  by (cases c) (auto simp: lower_char_def of_char_def char_of_def split: if_splits)

lemma nul_to_lower [history]: "CHR 0x00 \<in> set (to_lower s) \<longleftrightarrow> CHR 0x00 \<in> set s"
proof -
  have "CHR 0x00 = lower_char c \<longleftrightarrow> c = CHR 0x00" for c using lower_char_nul [of c] by auto
  then show ?thesis by (simp add: to_lower_def image_iff)
qed

lemma nul_dec_str: "CHR 0x00 \<notin> set (dec_str n)"
  using dec_str_digits [of "CHR 0x00" n] by (auto simp: is_digit_def)

lemma nul_format_int [history]: "CHR 0x00 \<notin> set (format_int n)"
  by (auto simp: format_int_def nul_dec_str)

lemma dec_str_inj: "dec_str m = dec_str n \<Longrightarrow> m = n"
  by (metis nat_of_dec_str)

lemma format_int_inj: "format_int m = format_int n \<Longrightarrow> m = n"
proof -
  assume a: "format_int m = format_int n"
  have minus: "CHR ''-'' \<notin> set (dec_str k)" for k using dec_str_digits [of "CHR ''-''" k] by (auto simp: is_digit_def)
  consider "m < 0" "n < 0" | "0 \<le> m" "0 \<le> n" | "m < 0" "0 \<le> n" | "0 \<le> m" "n < 0" by linarith
  then show "m = n"
  proof cases
    case 1
    then have "nat (- m) = nat (- n)" using a by (auto simp: format_int_def dest: dec_str_inj)
    then show ?thesis using 1 by simp
  next
    case 2
    then have "nat m = nat n" using a by (auto simp: format_int_def dest: dec_str_inj)
    then show ?thesis using 2 by simp
  next
    case 3
    then show ?thesis using a minus [of "nat n"] by (cases "dec_str (nat n)") (auto simp: format_int_def)
  next
    case 4
    then show ?thesis using a minus [of "nat m"] by (cases "dec_str (nat m)") (auto simp: format_int_def)
  qed
qed

lemma sep_left: "x @ c # y = x' @ c # y' \<Longrightarrow> c \<notin> set x \<Longrightarrow> c \<notin> set x' \<Longrightarrow> x = x' \<and> y = y'"
  by (induction x arbitrary: x') (auto simp: Cons_eq_append_conv append_eq_Cons_conv)

lemma sep_right: "x @ c # y = x' @ c # y' \<Longrightarrow> c \<notin> set y \<Longrightarrow> c \<notin> set y' \<Longrightarrow> x = x' \<and> y = y'"
proof -
  assume a: "x @ c # y = x' @ c # y'" "c \<notin> set y" "c \<notin> set y'"
  have "rev y @ c # rev x = rev y' @ c # rev x'" using arg_cong [OF a(1), of rev] by simp
  then have "rev y = rev y' \<and> rev x = rev x'" using a(2,3) by (intro sep_left) auto
  then show "x = x' \<and> y = y'" by simp
qed

lemma sentKey_eq:
  assumes "sentKey e = sentKey e'" "CHR 0x00 \<notin> set (Browser e)" "CHR 0x00 \<notin> set (Browser e')"
  shows "to_lower (Browser e) = to_lower (Browser e') \<and> URL e = URL e' \<and> LastVisitTime e = LastVisitTime e'"
proof -
  have "to_lower (Browser e) = to_lower (Browser e')
      \<and> URL e @ CHR 0x00 # format_int (LastVisitTime e) = URL e' @ CHR 0x00 # format_int (LastVisitTime e')"
    using sep_left [of "to_lower (Browser e)" "CHR 0x00" _ "to_lower (Browser e')"] assms by (simp add: sentKey_def nul_to_lower)
  then show ?thesis
    using sep_right [of "URL e" "CHR 0x00" "format_int (LastVisitTime e)" "URL e'" "format_int (LastVisitTime e')"]
    by (auto simp: nul_format_int dest: format_int_inj)
qed

subsection \<open>A reused scan is current\<close>

text \<open>A run of scans of one database: the signature is taken at one moment, a scan, where one is
  needed, is made at a later one. \<open>world\<close> gives the file system at every moment.\<close>

fun scan_run :: "(nat \<Rightarrow> host_fs) \<Rightarrow> (host_fs \<Rightarrow> HistoryEntry list) \<Rightarrow> string \<Rightarrow> (nat \<times> nat) list \<Rightarrow> scan_cache \<Rightarrow> HistoryEntry list list" where
  "scan_run world scan path [] cache = []"
| "scan_run world scan path ((i, j) # calls) cache =
     (case cachedScan path (dbSignature (world i) path) (scan (world j)) cache of
        (es, cache1) \<Rightarrow> es # scan_run world scan path calls cache1)"

text \<open>A database that changes in between never has its old signature again.\<close>

definition signature_tells :: "(nat \<Rightarrow> host_fs) \<Rightarrow> (host_fs \<Rightarrow> HistoryEntry list) \<Rightarrow> string \<Rightarrow> bool" where
  "signature_tells world scan path \<longleftrightarrow>
     (\<forall>i j k. i \<le> j \<longrightarrow> j \<le> k \<longrightarrow> dbSignature (world i) path = dbSignature (world k) path
        \<longrightarrow> scan (world j) = scan (world k))"

fun one_after_another :: "nat \<Rightarrow> (nat \<times> nat) list \<Rightarrow> bool" where
  "one_after_another t [] \<longleftrightarrow> True"
| "one_after_another t ((i, j) # calls) \<longleftrightarrow> t \<le> i \<and> i \<le> j \<and> one_after_another j calls"

definition cache_of_past :: "(nat \<Rightarrow> host_fs) \<Rightarrow> (host_fs \<Rightarrow> HistoryEntry list) \<Rightarrow> string \<Rightarrow> nat \<Rightarrow> scan_cache \<Rightarrow> bool" where
  "cache_of_past world scan path t cache \<longleftrightarrow>
     (\<forall>sig es. map_of cache path = Some (sig, es)
        \<longrightarrow> (\<exists>i j. i \<le> j \<and> j \<le> t \<and> sig = dbSignature (world i) path \<and> es = scan (world j)))"

lemma cachedScan_past:
  assumes "signature_tells world scan path" "cache_of_past world scan path t cache" "t \<le> i" "i \<le> j"
    "cachedScan path (dbSignature (world i) path) (scan (world j)) cache = (es, cache1)"
  shows "es \<in> {scan (world i), scan (world j)} \<and> cache_of_past world scan path j cache1"
proof -
  let ?sig = "dbSignature (world i) path"
  have later: "cache_of_past world scan path j cache" using assms(2-4) unfolding cache_of_past_def by (meson order_trans)
  have fresh: "cache_of_past world scan path j (al_upd path (?sig, scan (world j)) cache)"
    using assms(4) by (auto simp: cache_of_past_def)
  show ?thesis
  proof (cases "?sig \<noteq> [] \<and> (\<exists>es0. map_of cache path = Some (?sig, es0))")
    case True
    then obtain es0 where hit: "map_of cache path = Some (?sig, es0)" "?sig \<noteq> []" by blast
    then obtain i0 j0 where old: "i0 \<le> j0" "j0 \<le> t" "?sig = dbSignature (world i0) path" "es0 = scan (world j0)"
      using assms(2) unfolding cache_of_past_def by blast
    then have "es0 = scan (world i)" using assms(1,3) unfolding signature_tells_def by (metis order_trans)
    then show ?thesis using hit assms(5) later by (simp add: cachedScan_def)
  next
    case False
    then have "es = scan (world j) \<and> (cache1 = cache \<or> cache1 = al_upd path (?sig, scan (world j)) cache)"
      using assms(5) by (auto simp: cachedScan_def split: if_splits option.splits prod.splits)
    then show ?thesis using later fresh by auto
  qed
qed

text \<open>A scan that is answered from the cache is as good as one made now: in any run of scans of
  a database each answer is what scanning would have given at the moment the signature was taken or at
  the moment the scan was made, provided a changed database shows another signature.\<close>

theorem scans_current:
  assumes "signature_tells world scan path" "one_after_another t calls" "cache_of_past world scan path t cache"
  shows "list_all2 (\<lambda>(i, j) es. es \<in> {scan (world i), scan (world j)}) calls (scan_run world scan path calls cache)"
  using assms(2,3)
proof (induction calls arbitrary: t cache)
  case (Cons c calls)
  obtain i j where c: "c = (i, j)" by fastforce
  obtain es cache1 where s: "cachedScan path (dbSignature (world i) path) (scan (world j)) cache = (es, cache1)" by fastforce
  have order: "t \<le> i" "i \<le> j" "one_after_another j calls" using Cons.prems(1) c by simp_all
  note a = cachedScan_past [OF assms(1) Cons.prems(2) order(1,2) s]
  then show ?case using Cons.IH [OF order(3)] c s by simp
qed simp
subsection \<open>The backlog is uploaded once\<close>

definition sorts_well :: "go_sort \<Rightarrow> bool" where
  "sorts_well srt \<longleftrightarrow>
     (\<forall>es. mset (by_visit_desc srt es) = mset es \<and> sorted (rev (map LastVisitTime (by_visit_desc srt es))))
     \<and> (\<forall>es. mset (by_visit_asc srt es) = mset es \<and> sorted (map LastVisitTime (by_visit_asc srt es)))
     \<and> (\<forall>m. mset (by_sent srt m) = mset m \<and> sorted (rev (map snd (by_sent srt m))))"

definition keys :: "HistoryEntry list \<Rightarrow> string set" where "keys es = sentKey ` set es"

lemma keys_simps [simp]: "keys [] = {}" "keys (es @ fs) = keys es \<union> keys fs" "keys (e # es) = insert (sentKey e) (keys es)"
  by (auto simp: keys_def)

definition sent_keys :: "BrowserHistory \<Rightarrow> string set" where
  "sent_keys b = (case sentEntries b of None \<Rightarrow> {} | Some m \<Rightarrow> fst ` set m)"

lemma hasSent_keys [history]: "hasSent b e \<longleftrightarrow> sentKey e \<in> sent_keys b"
proof (cases "sentEntries b")
  case (Some m)
  have "map_of m (sentKey e) \<noteq> None \<longleftrightarrow> sentKey e \<in> fst ` set m" by (simp only: map_of_eq_None_iff not_not)
  then show ?thesis by (simp only: hasSent_def sent_keys_def Some option.case)
qed (simp add: hasSent_def sent_keys_def)

lemma finite_keys [simp]: "finite (sent_keys b)" "finite (keys es)"
  by (auto simp: sent_keys_def keys_def split: option.split)

definition unsent :: "BrowserHistory \<Rightarrow> HistoryEntry list \<Rightarrow> HistoryEntry list" where
  "unsent b found = filter (\<lambda>e. sentKey e \<notin> sent_keys b) found"

lemma mark_sent_keys: "fst ` set (mark_sent es m) = fst ` set m \<union> keys es"
  unfolding mark_sent_def by (induction es arbitrary: m) (auto simp: fst_al_upd)

lemma mark_sent_distinct: "distinct (map fst m) \<Longrightarrow> distinct (map fst (mark_sent es m))"
  unfolding mark_sent_def by (induction es arbitrary: m) auto

lemma sorted_perm_set:
  assumes "sorts_well srt"
  shows "set (by_visit_desc srt es) = set es" "set (by_visit_asc srt es) = set es"
    "length (by_visit_desc srt es) = length es" "length (by_visit_asc srt es) = length es"
    "set (by_sent srt m) = set m" "mset (by_visit_desc srt es) = mset es" "mset (by_visit_asc srt es) = mset es"
  using assms unfolding sorts_well_def by (metis mset_eq_setD mset_eq_length)+

lemma upload_choice_facts:
  assumes "sorts_well srt"
  shows "set (upload_choice srt found b) \<subseteq> set (unsent b found)"
    "length (upload_choice srt found b) = min maxBrowserHistoryUploadEntries (length (unsent b found))"
    "mset (upload_choice srt found b) \<subseteq># mset (unsent b found)"
proof -
  let ?u = "by_visit_asc srt (filter (\<lambda>e. \<not> hasSent b e) (by_visit_desc srt found))"
  have m: "mset ?u = mset (unsent b found)"
    by (simp add: sorted_perm_set [OF assms] mset_filter unsent_def hasSent_keys)
  have c: "upload_choice srt found b = take maxBrowserHistoryUploadEntries ?u" by (simp add: upload_choice_def)
  show "mset (upload_choice srt found b) \<subseteq># mset (unsent b found)"
    unfolding c m [symmetric] by (metis append_take_drop_id mset_append mset_subset_eq_add_left)
  then show "set (upload_choice srt found b) \<subseteq> set (unsent b found)" by (metis set_mset_mono set_mset_mset)
  show "length (upload_choice srt found b) = min maxBrowserHistoryUploadEntries (length (unsent b found))"
    using m by (simp add: c min.commute) (metis min.commute mset_eq_length)
qed

text \<open>A cycle whose report is stored: the entries it uploads, and the collector afterwards.\<close>

definition history_round :: "go_sort \<Rightarrow> HistoryEntry list \<Rightarrow> BrowserHistory \<Rightarrow> HistoryEntry list \<times> BrowserHistory" where
  "history_round srt found b =
     (case collect_entries srt found b of (payload, b1) \<Rightarrow> (new_history_entries payload, fst (history_Commit srt False b1)))"

fun history_rounds :: "nat \<Rightarrow> go_sort \<Rightarrow> HistoryEntry list \<Rightarrow> BrowserHistory \<Rightarrow> HistoryEntry list list" where
  "history_rounds 0 srt found b = []"
| "history_rounds (Suc n) srt found b =
     (case history_round srt found b of (up, b1) \<Rightarrow> up # history_rounds n srt found b1)"

lemma history_rounds_length: "length (history_rounds n srt found b) = n"
  by (induction n arbitrary: b) (auto split: prod.split)

text \<open>The record of sent entries stays below its bound.\<close>

definition roomy :: "HistoryEntry list \<Rightarrow> BrowserHistory \<Rightarrow> bool" where
  "roomy found b \<longleftrightarrow> card (sent_keys b \<union> keys found) \<le> maxBrowserHistorySentStateEntries
     \<and> (\<forall>m. sentEntries b = Some m \<longrightarrow> distinct (map fst m))"

lemma commit_keys:
  assumes "sorts_well srt" "roomy found b" "set chosen \<subseteq> set found"
  shows "sent_keys (fst (history_Commit srt False (b\<lparr>pendingEntries := chosen\<rparr>))) = sent_keys b \<union> keys chosen"
    "roomy found (fst (history_Commit srt False (b\<lparr>pendingEntries := chosen\<rparr>)))"
proof -
  let ?old = "case sentEntries b of None \<Rightarrow> [] | Some m \<Rightarrow> m"
  let ?m = "mark_sent chosen ?old"
  let ?b = "fst (history_Commit srt False (b\<lparr>pendingEntries := chosen\<rparr>))"
  have m0: "fst ` set ?old = sent_keys b" "distinct (map fst ?old)"
    using assms(2) unfolding sent_keys_def roomy_def by (auto split: option.split)
  have sub: "keys chosen \<subseteq> keys found" using assms(3) by (auto simp: keys_def)
  have d: "distinct (map fst ?m)" using mark_sent_distinct [OF m0(2)] .
  have "length ?m = card (fst ` set ?m)" using distinct_card [OF d] by simp
  also have "\<dots> = card (sent_keys b \<union> keys chosen)" by (simp only: mark_sent_keys m0(1))
  also have "\<dots> \<le> card (sent_keys b \<union> keys found)"
    using sub by (intro card_mono) auto
  finally have small: "length ?m \<le> maxBrowserHistorySentStateEntries" using assms(2) by (simp add: roomy_def)
  have e: "chosen \<noteq> [] \<Longrightarrow> sentEntries ?b = Some ?m" "chosen = [] \<Longrightarrow> sentEntries ?b = sentEntries b"
    using small by (auto simp: history_Commit_def Let_def pruneSentEntries_def)
  show k: "sent_keys ?b = sent_keys b \<union> keys chosen"
  proof (cases "chosen = []")
    case True
    then show ?thesis using e(2) by (simp add: sent_keys_def)
  next
    case False
    then show ?thesis using e(1) mark_sent_keys [of chosen ?old] m0(1) by (simp add: sent_keys_def)
  qed
  have "sent_keys ?b \<union> keys found = sent_keys b \<union> keys found" using k sub by auto
  then show "roomy found ?b" using assms(2) e d unfolding roomy_def by (metis option.inject)
qed

lemma round_facts:
  assumes "sorts_well srt" "roomy found b" "history_round srt found b = (up, b1)"
  shows "sent_keys b1 = sent_keys b \<union> keys up" "roomy found b1" "keys up \<subseteq> keys (unsent b found)"
    "length (unsent b1 found) \<le> length (unsent b found) - maxBrowserHistoryUploadEntries"
proof -
  let ?c = "if found = [] then [] else upload_choice srt found b"
  have c: "up = (if found = [] then [] else by_visit_desc srt ?c)" "b1 = fst (history_Commit srt False (b\<lparr>pendingEntries := ?c\<rparr>))"
    using assms(3) by (auto simp: history_round_def collect_entries_def no_history_def Let_def split: if_splits)
  have ku: "keys up = keys ?c" by (simp add: c(1) keys_def sorted_perm_set [OF assms(1)])
  have cu: "set ?c \<subseteq> set (unsent b found)" using upload_choice_facts(1) [OF assms(1)] by simp
  have "set ?c \<subseteq> set found" using cu by (auto simp: unsent_def split: if_splits)
  note k = commit_keys [OF assms(1,2) this]
  show s: "sent_keys b1 = sent_keys b \<union> keys up" using k(1) c(2) ku by simp
  show "roomy found b1" using k(2) c(2) by simp
  show "keys up \<subseteq> keys (unsent b found)" using cu ku unfolding keys_def by blast
  show "length (unsent b1 found) \<le> length (unsent b found) - maxBrowserHistoryUploadEntries"
  proof (cases "found = []")
    case False
    have m: "mset (upload_choice srt found b) \<subseteq># mset (unsent b found)" by (rule upload_choice_facts(3) [OF assms(1)])
    have "unsent b1 found = filter (\<lambda>e. sentKey e \<notin> keys up) (unsent b found)" by (auto simp: unsent_def s intro: filter_cong)
    then have "mset (unsent b1 found) = filter_mset (\<lambda>e. sentKey e \<notin> keys up) (mset (unsent b found))" by (simp add: mset_filter)
    also have "\<dots> \<subseteq># mset (unsent b found) - mset (upload_choice srt found b)"
    proof (rule mset_subset_eqI)
      fix e
      have "count (mset (upload_choice srt found b)) e = 0" if "sentKey e \<notin> keys up"
        using that ku False by (auto simp: keys_def count_mset_0_iff)
      then show "count (filter_mset (\<lambda>e. sentKey e \<notin> keys up) (mset (unsent b found))) e
          \<le> count (mset (unsent b found) - mset (upload_choice srt found b)) e" by (cases "sentKey e \<in> keys up") (simp_all only: count_filter_mset count_diff if_True if_False not_True_eq_False not_False_eq_True diff_zero zero_le order_refl)
    qed
    finally have "length (unsent b1 found) \<le> size (mset (unsent b found) - mset (upload_choice srt found b))"
      using size_mset_mono by fastforce
    also have "\<dots> = length (unsent b found) - length (upload_choice srt found b)" by (simp add: size_Diff_submset [OF m])
    finally show ?thesis using upload_choice_facts(2) [OF assms(1), of found b] by (simp add: min_def split: if_splits)
  qed (simp add: unsent_def)
qed

subsection \<open>Entries the record forgets\<close>

lemma al_upd_new: "k \<notin> fst ` set m \<Longrightarrow> al_upd k v m = m @ [(k, v)]"
  by (induction m) auto

text \<open>Once the record is full of later visits an older entry that is still in a database is uploaded by
  every cycle: it is marked and dropped again at once.\<close>

lemma old_entry_again:
  assumes "sorts_well srt" "sentEntries b = Some m" "distinct (map fst m)"
    "length m \<ge> maxBrowserHistorySentStateEntries"
    "\<forall>x \<in> set m. LastVisitTime e < snd x" "\<not> hasSent b e"
  shows "new_history_entries (fst (collect_entries srt [e] b)) = [e]"
    "\<not> hasSent (snd (history_round srt [e] b)) e"
proof -
  have desc: "by_visit_desc srt [e] = [e]" "by_visit_asc srt [e] = [e]"
    using assms(1) unfolding sorts_well_def by (metis mset_single_iff mset.simps mset_eq_setD)+
  have c: "upload_choice srt [e] b = [e]" by (simp add: upload_choice_def desc assms(6) maxBrowserHistoryUploadEntries_def)
  then show "new_history_entries (fst (collect_entries srt [e] b)) = [e]" by (simp add: collect_entries_def desc Let_def)
  let ?k = "sentKey e" and ?m = "al_upd (sentKey e) (LastVisitTime e) m"
  let ?s = "by_sent srt ?m"
  have k: "?k \<notin> fst ` set m" using assms(6) by (simp add: hasSent_keys sent_keys_def assms(2))
  have m: "?m = m @ [(?k, LastVisitTime e)]" by (rule al_upd_new [OF k])
  have s: "mset ?s = mset ?m" "sorted (rev (map snd ?s))" using assms(1) by (simp_all add: sorts_well_def)
  have "mset ?s = mset (m @ [(?k, LastVisitTime e)])" using s(1) m by simp
  then obtain xs ys where split: "?s = xs @ (?k, LastVisitTime e) # ys" by (metis in_set_conv_decomp in_set_conv_decomp_last mset_eq_setD append_Nil2 split_list list.set_intros(1) Un_iff set_append)
  have rest: "set (xs @ ys) \<subseteq> set m"
  proof -
    have "mset (xs @ ys) = mset m" using split \<open>mset ?s = mset (m @ [(?k, LastVisitTime e)])\<close> by simp
    then show ?thesis by (metis mset_eq_setD order_refl)
  qed
  have "ys = []"
  proof (rule ccontr)
    assume "ys \<noteq> []"
    then obtain y ys' where y: "ys = y # ys'" by (cases ys) auto
    have "snd y \<le> LastVisitTime e" using s(2) split y by (simp add: sorted_append)
    moreover have "LastVisitTime e < snd y" using assms(5) rest y by auto
    ultimately show False by simp
  qed
  have "length ?s = Suc (length m)" using s(1) m by (metis length_append_singleton mset_eq_length)
  then have "length xs \<ge> maxBrowserHistorySentStateEntries" using split \<open>ys = []\<close> assms(4) by simp
  then have t: "take maxBrowserHistorySentStateEntries ?s = take maxBrowserHistorySentStateEntries xs" using split by simp
  have x: "?k \<notin> fst ` set xs" using rest k by force
  have "snd (history_round srt [e] b) = b\<lparr>pendingEntries := [], sentEntries := Some (pruneSentEntries srt ?m)\<rparr>"
    by (simp add: history_round_def collect_entries_def c Let_def history_Commit_def assms(2) mark_sent_def)
  moreover have "pruneSentEntries srt ?m = take maxBrowserHistorySentStateEntries xs"
    using assms(4) m t by (simp add: pruneSentEntries_def)
  ultimately show "\<not> hasSent (snd (history_round srt [e] b)) e"
    using x set_take_subset [of maxBrowserHistorySentStateEntries xs] by (auto simp: hasSent_keys sent_keys_def)
qed

subsection \<open>Examples\<close>

definition stable_sort :: go_sort where
  "stable_sort = \<lparr>by_mtime = sort_key (\<lambda>p. - snd p), by_visit_desc = sort_key (\<lambda>e. - LastVisitTime e),
     by_visit_asc = sort_key LastVisitTime, by_sent = sort_key (\<lambda>p. - snd p)\<rparr>"

lemma sorted_rev_neg: "sorted (map (\<lambda>x. - f x :: int) xs) \<Longrightarrow> sorted (rev (map f xs))"
  by (induction xs) (auto simp: sorted_append)

lemma stable_sort_well: "sorts_well stable_sort"
  unfolding sorts_well_def stable_sort_def by (auto intro!: sorted_rev_neg sorted_sort_key)

definition visit :: "string \<Rightarrow> int \<Rightarrow> HistoryEntry" where
  "visit u t = \<lparr>URL = u, Title = ''T'', LastVisitTime = t, Browser = ''Chrome''\<rparr>"

definition one_sent :: BrowserHistory where
  "one_sent = \<lparr>stateLoaded = True, sentEntries = Some [(sentKey (visit ''https://a'' 5), 5)], pendingEntries = []\<rparr>"


definition sample_world :: "nat \<Rightarrow> host_fs" where
  "sample_world n = \<lparr>fs_stat = (\<lambda>p. if p = ''H'' then Some (100, if n < 2 then 1 else 2) else None), fs_dir = (\<lambda>_. None),
     fs_urls = (\<lambda>_ _ _. Some [(Some ''https://a'', None, Some (if n < 2 then 11644473600000001 else 11644473600000002))]),
     fs_visits = (\<lambda>_ _. None)\<rparr>"

theorem scans_current_witness:
  "scan_run sample_world (\<lambda>fs. scanChromiumDB fs ''Chrome'' ''H'') ''H'' [(0, 0), (1, 1), (3, 3)] []
      = [[(visit ''https://a'' 1000)\<lparr>Title := []\<rparr>], [(visit ''https://a'' 1000)\<lparr>Title := []\<rparr>], [(visit ''https://a'' 2000)\<lparr>Title := []\<rparr>]]
   \<and> list_all2 (\<lambda>(i, j) es. es \<in> {scanChromiumDB (sample_world i) ''Chrome'' ''H'', scanChromiumDB (sample_world j) ''Chrome'' ''H''})
       [(0, 0), (1, 1), (3, 3)] (scan_run sample_world (\<lambda>fs. scanChromiumDB fs ''Chrome'' ''H'') ''H'' [(0, 0), (1, 1), (3, 3)] [])"
proof
  have "dbSignature (sample_world 0) ''H'' \<noteq> dbSignature (sample_world 2) ''H''" by code_simp
  then have d: "(i < 2 \<longleftrightarrow> k < 2)" if "dbSignature (sample_world i) ''H'' = dbSignature (sample_world k) ''H''" for i k
    using that by (simp add: dbSignature_def sample_world_def split: if_splits)
  have "signature_tells sample_world (\<lambda>fs. scanChromiumDB fs ''Chrome'' ''H'') ''H''"
    unfolding signature_tells_def
  proof (intro allI impI)
    fix i j k :: nat
    assume "i \<le> j" "j \<le> k" "dbSignature (sample_world i) ''H'' = dbSignature (sample_world k) ''H''"
    then have "j < 2 \<longleftrightarrow> k < 2" using d [of i k] by auto
    then show "scanChromiumDB (sample_world j) ''Chrome'' ''H'' = scanChromiumDB (sample_world k) ''Chrome'' ''H''"
      by (simp add: scanChromiumDB_def sample_world_def)
  qed
  then show "list_all2 (\<lambda>(i, j) es. es \<in> {scanChromiumDB (sample_world i) ''Chrome'' ''H'', scanChromiumDB (sample_world j) ''Chrome'' ''H''})
       [(0, 0), (1, 1), (3, 3)] (scan_run sample_world (\<lambda>fs. scanChromiumDB fs ''Chrome'' ''H'') ''H'' [(0, 0), (1, 1), (3, 3)] [])"
    using scans_current [of sample_world "\<lambda>fs. scanChromiumDB fs ''Chrome'' ''H''" "''H''" 0 "[(0, 0), (1, 1), (3, 3)]" "[]"]
    by (simp add: cache_of_past_def)
qed code_simp

end
