(* ===== verification/AgentLoop.thy ===== *)
theory AgentLoop
  imports HistoryCollector AgentQueue Policy Runs "HOL-Library.Word"
begin

text \<open>
  The loops of the agent, \<^verbatim>\<open>agent/main.go\<close> and \<^verbatim>\<open>agent/guard.go\<close>: the policy in force and how a poll
  changes it, the guard every collector runs under, the policy applied to browser history, one cycle of
  the collection loop with the report it queues, the background pass of the slow collectors, and the
  loop of the per-user service. The values the collectors return, the clock, the user name and the
  JSON encoding of a report are inputs of a cycle.
\<close>

named_theorems agent \<open>facts on the agent's loops\<close>

subsection \<open>The policy in force\<close>

record agent_policy =
  syncInterval :: int  \<comment> \<open>nanoseconds\<close>
  collectSystemInfo :: bool
  collectHardwareStats :: bool
  collectProcesses :: bool
  collectBrowserHistory :: bool
  collectActiveWindow :: bool
  collectServices :: bool
  collectNetworkPorts :: bool
  collectInstalledApps :: bool
  collectOSUpdates :: bool
  collectUSBDevices :: bool
  browserHistoryMode :: string
  browserHistoryLimit :: int

definition initial_policy :: agent_policy where
  "initial_policy = \<lparr>syncInterval = 10 * ns_per_s, collectSystemInfo = True, collectHardwareStats = True,
     collectProcesses = True, collectBrowserHistory = True, collectActiveWindow = True, collectServices = True,
     collectNetworkPorts = True, collectInstalledApps = True, collectOSUpdates = True, collectUSBDevices = True,
     browserHistoryMode = ''full_url'', browserHistoryLimit = 200\<rparr>"

definition flag :: "obj \<Rightarrow> string \<Rightarrow> bool \<Rightarrow> bool" where
  "flag pol k old = (case as_bool (get pol k) of Some v \<Rightarrow> v | None \<Rightarrow> old)"

fun as_number :: "val \<Rightarrow> float64 option" where
  "as_number (F64 x) = Some x"
| "as_number _ = None"

text \<open>What a poll makes of the decoded answer.\<close>

definition apply_policy :: "obj \<Rightarrow> agent_policy \<Rightarrow> agent_policy" where
  "apply_policy pol p =
     (let mode = (case as_str (get pol ''browser_history_mode'') of Some v \<Rightarrow> v | None \<Rightarrow> browserHistoryMode p)
      in \<lparr>syncInterval = (case as_number (get pol ''sync_interval_seconds'') of
            Some v \<Rightarrow> i64 (f2i v * ns_per_s) | None \<Rightarrow> syncInterval p),
          collectSystemInfo = flag pol ''collect_system_info'' (collectSystemInfo p),
          collectHardwareStats = flag pol ''collect_hardware_stats'' (collectHardwareStats p),
          collectProcesses = flag pol ''collect_processes'' (collectProcesses p),
          collectBrowserHistory = (mode \<noteq> ''disabled'' \<and> flag pol ''collect_browser_history'' (collectBrowserHistory p)),
          collectActiveWindow = flag pol ''collect_active_window'' (collectActiveWindow p),
          collectServices = flag pol ''collect_services'' (collectServices p),
          collectNetworkPorts = flag pol ''collect_network_ports'' (collectNetworkPorts p),
          collectInstalledApps = flag pol ''collect_installed_apps'' (collectInstalledApps p),
          collectOSUpdates = flag pol ''collect_os_updates'' (collectOSUpdates p),
          collectUSBDevices = flag pol ''collect_usb_devices'' (collectUSBDevices p),
          browserHistoryMode = mode,
          browserHistoryLimit = (case as_number (get pol ''browser_history_limit'') of
            Some v \<Rightarrow> f2i v | None \<Rightarrow> browserHistoryLimit p)\<rparr>)"

text \<open>\<open>resp\<close>: no answer, or its status and the decoded body.\<close>

definition policyPoller_round :: "(nat \<times> obj option) option \<Rightarrow> agent_policy \<Rightarrow> agent_policy" where
  "policyPoller_round resp p =
     (case resp of Some (status, Some pol) \<Rightarrow> if status = 200 then apply_policy pol p else p | _ \<Rightarrow> p)"

subsection \<open>Browser history under the policy\<close>

definition domainOnlyURL :: "string \<Rightarrow> string" where
  "domainOnlyURL raw =
     (case url_parse raw of None \<Rightarrow> raw
      | Some u \<Rightarrow> if u_host u = [] then raw else u_scheme u @ ''://'' @ u_host u)"

definition reduce_visit :: "string \<Rightarrow> HistoryEntry \<Rightarrow> HistoryEntry" where
  "reduce_visit mode e = (if mode = ''domain_only'' then e\<lparr>URL := domainOnlyURL (URL e), Title := []\<rparr> else e)"

definition limit_visits :: "string \<Rightarrow> int \<Rightarrow> HistoryEntry list \<Rightarrow> HistoryEntry list" where
  "limit_visits mode limit es =
     (let es1 = map (reduce_visit mode) es
      in if limit > 0 \<and> int (length es1) > limit then take (nat limit) es1 else es1)"

definition applyBrowserHistoryPolicy :: "string \<Rightarrow> int \<Rightarrow> history_payload \<Rightarrow> history_payload" where
  "applyBrowserHistoryPolicy mode limit payload =
     \<lparr>top_recent_urls = limit_visits mode limit (top_recent_urls payload),
      new_history_entries = limit_visits mode limit (new_history_entries payload)\<rparr>"

subsection \<open>Guards\<close>

text \<open>How a call of a collector goes: it returns in time (\<open>None\<close>: with an error), it panics, or it is
  still running at its deadline. The guards are the names whose call is still running; the moment
  between handing over a result and clearing the flag is not modelled.\<close>

datatype 'v outcome = Returns "'v option" | Panics | Overruns

definition guard_run :: "string \<Rightarrow> 'v outcome \<Rightarrow> string list \<Rightarrow> 'v option \<times> string list" where
  "guard_run name outcome running =
     (if name \<in> set running then (None, running)
      else (case outcome of Returns r \<Rightarrow> (r, running) | Panics \<Rightarrow> (None, running) | Overruns \<Rightarrow> (None, name # running)))"

text \<open>An abandoned call comes to its end.\<close>

definition call_ends :: "string \<Rightarrow> string list \<Rightarrow> string list" where
  "call_ends name running = remove1 name running"

subsection \<open>The agent's state\<close>

record agent =
  ag_policy :: agent_policy
  ag_running :: "string list"
  ag_apps :: "val option"
  ag_updates :: "val option"
  ag_sequence :: "64 word"
  ag_history :: BrowserHistory
  ag_scans :: scan_cache
  ag_token :: bool  \<comment> \<open>a pending \<^verbatim>\<open>collect_now\<close>\<close>

text \<open>What a process keeps from its start to its end.\<close>

record agent_config =
  ac_session :: string
  ac_boot :: string
  ac_version :: string
  ac_os :: string
  ac_arch :: string
  ac_window :: bool  \<comment> \<open>there is an active-window tracker\<close>
  ac_sort :: go_sort
  ac_env :: "string \<Rightarrow> string"
  ac_saved :: saved_state

text \<open>What a cycle meets. \<open>ci_late\<close>: a history collection abandoned at its deadline ends before the
  report is queued, having read this file system.\<close>

record cycle_input =
  ci_outcome :: "string \<Rightarrow> val outcome"
  ci_history :: "unit outcome"
  ci_fs :: host_fs
  ci_homes :: "string list"
  ci_late :: "(host_fs \<times> string list) option"
  ci_device :: string
  ci_time :: string
  ci_user :: string
  ci_push_ok :: bool
  ci_prune_ok :: "bool \<times> bool \<times> bool"
  ci_clock :: int

definition entry_val :: "HistoryEntry \<Rightarrow> val" where
  "entry_val e = Obj [(''url'', Str (URL e)), (''title'', Str (Title e)), (''last_visit_time'', Int_v (LastVisitTime e)),
     (''browser'', Str (Browser e))]"

definition history_val :: "history_payload \<Rightarrow> val" where
  "history_val p = Obj [(''top_recent_urls'', Arr (map entry_val (top_recent_urls p))),
     (''new_history_entries'', Arr (map entry_val (new_history_entries p))), (''sync_type'', Str ''incremental'')]"

text \<open>One guarded collector of the loop: skipped when the policy turns it off.\<close>

definition collect_one ::
  "bool \<Rightarrow> string \<Rightarrow> val outcome \<Rightarrow> string list \<times> obj \<Rightarrow> string list \<times> obj" where
  "collect_one wanted name outcome st =
     (if \<not> wanted then st
      else (case guard_run name outcome (fst st) of
              (Some v, running) \<Rightarrow> (running, al_upd name v (snd st))
            | (None, running) \<Rightarrow> (running, snd st)))"

text \<open>The history collector keeps its state when its call returns; the state of an abandoned call
  changes when it ends.\<close>

definition run_history ::
  "agent_config \<Rightarrow> host_fs \<Rightarrow> string list \<Rightarrow> agent \<Rightarrow> history_payload \<times> agent" where
  "run_history cf fs homes a =
     (case history_Collect (ac_saved cf) fs (ac_sort cf) (ac_os cf) (ac_env cf) homes (ag_scans a) (ag_history a) of
        (payload, scans, b) \<Rightarrow> (payload, a\<lparr>ag_scans := scans, ag_history := b\<rparr>))"

definition history_name :: string where "history_name = ''BrowserHistory''"

definition collect_history :: "agent_config \<Rightarrow> cycle_input \<Rightarrow> agent \<times> obj \<Rightarrow> agent \<times> obj" where
  "collect_history cf ci st =
     (case st of (a, data) \<Rightarrow>
        if \<not> collectBrowserHistory (ag_policy a) then (a, data)
        else (case guard_run history_name (ci_history ci) (ag_running a) of
                (Some _, running) \<Rightarrow>
                  (case run_history cf (ci_fs ci) (ci_homes ci) a of
                     (payload, a1) \<Rightarrow>
                       (a1\<lparr>ag_running := running\<rparr>,
                        al_upd history_name (history_val (applyBrowserHistoryPolicy (browserHistoryMode (ag_policy a))
                          (browserHistoryLimit (ag_policy a)) payload)) data))
              | (None, running) \<Rightarrow> (a\<lparr>ag_running := running\<rparr>, data)))"

definition history_ends :: "agent_config \<Rightarrow> host_fs \<Rightarrow> string list \<Rightarrow> agent \<Rightarrow> agent" where
  "history_ends cf fs homes a =
     (if history_name \<in> set (ag_running a)
      then (snd (run_history cf fs homes a))\<lparr>ag_running := call_ends history_name (ag_running a)\<rparr> else a)"

definition collect_named :: "(string \<Rightarrow> val outcome) \<Rightarrow> string list \<times> obj \<Rightarrow> bool \<times> string \<Rightarrow> string list \<times> obj" where
  "collect_named oc st wn = collect_one (fst wn) (snd wn) (oc (snd wn)) st"

definition collect_plain :: "cycle_input \<Rightarrow> (bool \<times> string) list \<Rightarrow> agent \<times> obj \<Rightarrow> agent \<times> obj" where
  "collect_plain ci wanted st =
     (case foldl (collect_named (ci_outcome ci)) (ag_running (fst st), snd st) wanted of
        (running, data) \<Rightarrow> ((fst st)\<lparr>ag_running := running\<rparr>, data))"

definition before_history :: "agent_policy \<Rightarrow> (bool \<times> string) list" where
  "before_history p = [(collectSystemInfo p, ''SystemInfo''), (collectProcesses p, ''ProcessMonitor'')]"

definition after_history :: "agent_config \<Rightarrow> agent_policy \<Rightarrow> (bool \<times> string) list" where
  "after_history cf p =
     [(collectHardwareStats p, ''HardwareStats''), (collectServices p, ''Services''), (collectNetworkPorts p, ''NetworkPorts''),
      (collectUSBDevices p, ''USBEvents''), (collectActiveWindow p \<and> ac_window cf, ''ActiveWindowTracker'')]"

definition add_slow :: "agent \<Rightarrow> obj \<Rightarrow> obj" where
  "add_slow a data =
     (let data1 = (case ag_apps a of None \<Rightarrow> data | Some v \<Rightarrow> al_upd ''InstalledApps'' v data)
      in (case ag_updates a of None \<Rightarrow> data1 | Some v \<Rightarrow> al_upd ''OSUpdates'' v data1))"

definition report_id :: "string \<Rightarrow> 64 word \<Rightarrow> string" where
  "report_id session n = session @ ''-'' @ dec_str (unat n)"

definition finalPayload :: "agent_config \<Rightarrow> string \<Rightarrow> cycle_input \<Rightarrow> 64 word \<Rightarrow> obj \<Rightarrow> obj" where
  "finalPayload cf role ci n data =
     [(''device_id'', Str (ci_device ci)), (''event_id'', Str (report_id (ac_session cf) n)),
      (''agent_session_id'', Str (ac_session cf)), (''boot_id'', Str (ac_boot cf)), (''sequence'', Int_v (uint n)),
      (''timestamp'', Str (ci_time ci)), (''username'', Str (ci_user ci)), (''agent_version'', Str (ac_version cf)),
      (''agent_os'', Str (ac_os cf)), (''agent_arch'', Str (ac_arch cf)), (''collector_role'', Str role), (''data'', Obj data)]"

definition gather :: "agent_config \<Rightarrow> cycle_input \<Rightarrow> agent \<Rightarrow> agent \<times> obj" where
  "gather cf ci a =
     collect_plain ci (after_history cf (ag_policy a))
       (collect_history cf ci (collect_plain ci (before_history (ag_policy a)) (a, [])))"

definition ends_late :: "agent_config \<Rightarrow> cycle_input \<Rightarrow> agent \<Rightarrow> agent" where
  "ends_late cf ci a = (case ci_late ci of None \<Rightarrow> a | Some (fs, homes) \<Rightarrow> history_ends cf fs homes a)"

text \<open>The end of a cycle: the report is queued, and only then the collected history counts as sent.\<close>

definition commit_history :: "agent_config \<Rightarrow> agent \<Rightarrow> agent" where
  "commit_history cf a =
     a\<lparr>ag_history := fst (history_Commit (ac_sort cf) (history_name \<in> set (ag_running a)) (ag_history a))\<rparr>"

definition main_cycle ::
  "agent_config \<Rightarrow> (obj \<Rightarrow> string option) \<Rightarrow> cycle_input \<Rightarrow> agent \<times> queue_db \<Rightarrow> (agent \<times> queue_db) \<times> obj option" where
  "main_cycle cf encode ci st =
     (case st of (a, q) \<Rightarrow>
      (case gather cf ci a of (a1, data) \<Rightarrow>
        let a2 = ends_late cf ci a1;
            report = finalPayload cf (if ac_window cf then ''active_window'' else ''system'') ci (ag_sequence a2) (add_slow a2 data);
            a3 = a2\<lparr>ag_sequence := ag_sequence a2 + 1\<rparr>
        in (case Push (ac_env cf) (ci_push_ok ci) (ci_prune_ok ci) (ci_clock ci) (encode report) q of
              (False, q1) \<Rightarrow> ((a3, q1), None)
            | (True, q1) \<Rightarrow> ((commit_history cf a3, q1), Some report))))"

text \<open>The wait between cycles ends at once when a token is there; otherwise it lasts the interval. The
  channel holds one token, further notifications are dropped.\<close>

definition NotifyCollectNow :: "agent \<Rightarrow> agent" where
  "NotifyCollectNow a = a\<lparr>ag_token := True\<rparr>"

definition next_wait :: "agent \<Rightarrow> int \<times> agent" where
  "next_wait a = (if ag_token a then (0, a\<lparr>ag_token := False\<rparr>) else (syncInterval (ag_policy a), a))"

subsection \<open>The slow collectors and the window-only loop\<close>

definition slow_one ::
  "bool \<Rightarrow> string \<Rightarrow> val outcome \<Rightarrow> string list \<Rightarrow> val option \<Rightarrow> string list \<times> val option" where
  "slow_one wanted name outcome running cached =
     (if wanted then (case guard_run name outcome running of (Some v, r) \<Rightarrow> (r, Some v) | (None, r) \<Rightarrow> (r, cached))
      else (running, None))"

text \<open>Its guards are its own (\<open>running\<close>).\<close>

definition slow_pass :: "(string \<Rightarrow> val outcome) \<Rightarrow> string list \<times> agent \<Rightarrow> string list \<times> agent" where
  "slow_pass outcome st =
     (case st of (running, a) \<Rightarrow>
      (case slow_one (collectInstalledApps (ag_policy a)) ''InstalledApps'' (outcome ''InstalledApps'') running (ag_apps a) of
         (running1, apps) \<Rightarrow>
      (case slow_one (collectOSUpdates (ag_policy a)) ''OSUpdates'' (outcome ''OSUpdates'') running1 (ag_updates a) of
         (running2, upd) \<Rightarrow> (running2, a\<lparr>ag_apps := apps, ag_updates := upd\<rparr>))))"

text \<open>\<open>tracked\<close>: what the tracker's \<^verbatim>\<open>Collect\<close> returned.\<close>

definition window_cycle ::
  "agent_config \<Rightarrow> (obj \<Rightarrow> string option) \<Rightarrow> cycle_input \<Rightarrow> val option \<Rightarrow> 64 word \<times> queue_db \<Rightarrow> (64 word \<times> queue_db) \<times> obj option" where
  "window_cycle cf encode ci focus st =
     (case focus of None \<Rightarrow> (st, None)
      | Some v \<Rightarrow>
          let report = finalPayload cf ''active_window'' ci (fst st) [(''ActiveWindowTracker'', v)]
          in (case Push (ac_env cf) (ci_push_ok ci) (ci_prune_ok ci) (ci_clock ci) (encode report) (snd st) of
                (ok, q1) \<Rightarrow> ((fst st + 1, q1), if ok then Some report else None)))"

subsection \<open>Names an agent reports under\<close>

text \<open>\<^verbatim>\<open>strings.FieldsFunc\<close> on the separators of account names, then the last part; without an account
  the environment decides.\<close>

definition account_parts :: "string \<Rightarrow> string list" where
  "account_parts u = filter (\<lambda>p. p \<noteq> []) (split_on CHR ''/'' (map (\<lambda>c. if c = CHR 0x5C then CHR ''/'' else c) u))"

definition currentUsername :: "string option \<Rightarrow> (string \<Rightarrow> string) \<Rightarrow> string" where
  "currentUsername account env =
     (case account of
        Some u \<Rightarrow> if u \<noteq> [] then (case account_parts u of [] \<Rightarrow> u | p # ps \<Rightarrow> last (p # ps)) else
          (case filter (\<lambda>v. v \<noteq> []) (map (\<lambda>k. trim_space (env k)) [''USER'', ''USERNAME'', ''LOGNAME'']) of
             [] \<Rightarrow> ''unknown'' | v # _ \<Rightarrow> v)
      | None \<Rightarrow>
          (case filter (\<lambda>v. v \<noteq> []) (map (\<lambda>k. trim_space (env k)) [''USER'', ''USERNAME'', ''LOGNAME'']) of
             [] \<Rightarrow> ''unknown'' | v # _ \<Rightarrow> v))"

definition readBootID :: "string option \<Rightarrow> string" where
  "readBootID content =
     (case content of Some s \<Rightarrow> if trim_space s \<noteq> [] then trim_space s else ''unknown'' | None \<Rightarrow> ''unknown'')"

text \<open>\<open>random\<close>: sixteen random bytes in hexadecimal, if the system has them; \<open>ns\<close> the clock.\<close>

definition newAgentSessionID :: "string option \<Rightarrow> int \<Rightarrow> string" where
  "newAgentSessionID random ns = (case random of Some h \<Rightarrow> h | None \<Rightarrow> ''session-'' @ format_int ns)"

definition resolveDataDir :: "string \<Rightarrow> (string \<Rightarrow> string) \<Rightarrow> string" where
  "resolveDataDir goos env =
     (if env ''DEVICEPULSE_DATA_DIR'' \<noteq> [] then env ''DEVICEPULSE_DATA_DIR''
      else if goos = ''windows'' then
        path_join CHR 0x5C [if env ''ProgramData'' = [] then ''C:'' @ [CHR 0x5C] @ ''ProgramData'' else env ''ProgramData'', ''DevicePulse'', ''Agent'']
      else ''/var/lib/devicepulse'')"

lemma last_account_part: "currentUsername (Some ''ACME/bob'') (\<lambda>_. []) = ''bob'' \<and> currentUsername None (\<lambda>_. []) = ''unknown''"
  by code_simp

subsection \<open>The server's policy governs the agent\<close>

text \<open>The answer of the policy endpoint on its way: JSON turns every number into a \<^verbatim>\<open>float64\<close>.\<close>

fun over_json :: "val \<Rightarrow> val" where
  "over_json (Int_v n) = F64 (i2f n)"
| "over_json (I64 n) = F64 (i2f n)"
| "over_json (I32 n) = F64 (i2f n)"
| "over_json v = v"

definition wire :: "obj \<Rightarrow> obj" where
  "wire m = map (\<lambda>(k, v). (k, over_json v)) m"

lemma get_wire [agent]: "get (wire m) k = over_json (get m k)"
  by (induction m) (auto simp: wire_def get_def)

lemma wire_flag [agent]: "get m k = Bool_v b \<Longrightarrow> flag (wire m) k old = b"
  by (simp add: flag_def get_wire)

lemma wire_number [agent]: "toFloat (get m k) = Some x \<Longrightarrow> as_number (get (wire m) k) = Some x"
  by (cases "get m k") (simp_all add: get_wire)

text \<open>The settings a policy document stands for.\<close>

definition settings_of :: "obj \<Rightarrow> agent_policy" where
  "settings_of m =
     \<lparr>syncInterval = floor (float_of (get m ''sync_interval_seconds'')) * ns_per_s,
      collectSystemInfo = bool_of (get m ''collect_system_info''),
      collectHardwareStats = bool_of (get m ''collect_hardware_stats''),
      collectProcesses = bool_of (get m ''collect_processes''),
      collectBrowserHistory = (bool_of (get m ''collect_browser_history'') \<and> get m ''browser_history_mode'' \<noteq> Str ''disabled''),
      collectActiveWindow = bool_of (get m ''collect_active_window''),
      collectServices = bool_of (get m ''collect_services''),
      collectNetworkPorts = bool_of (get m ''collect_network_ports''),
      collectInstalledApps = bool_of (get m ''collect_installed_apps''),
      collectOSUpdates = bool_of (get m ''collect_os_updates''),
      collectUSBDevices = bool_of (get m ''collect_usb_devices''),
      browserHistoryMode = str_of (get m ''browser_history_mode''),
      browserHistoryLimit = floor (float_of (get m ''browser_history_limit''))\<rparr>"

lemma small_f2i: "0 \<le> x \<Longrightarrow> x \<le> 5000 \<Longrightarrow> f2i x = floor x"
proof -
  assume x: "0 \<le> x" "x \<le> 5000"
  then have "0 \<le> floor x" "floor x \<le> 5000" by (simp_all add: floor_le_iff)
  then show "f2i x = floor x" using x by (simp add: f2i_def trunc_rat_def in_i64_def i64_min_def i64_max_def)
qed

lemma valid_applied:
  assumes "valid_policy m"
  shows "apply_policy (wire m) p = settings_of m"
proof -
  obtain x where x: "toFloat (get m ''sync_interval_seconds'') = Some x" "10 \<le> x" "x \<le> 3600"
    using assms by (auto simp: valid_policy_def num_in_def)
  obtain y where y: "toFloat (get m ''browser_history_limit'') = Some y" "0 \<le> y" "y \<le> 5000"
    using assms by (auto simp: valid_policy_def num_in_def)
  have flags: "flag (wire m) k old = bool_of (get m k)" if flag: "k \<in> set policy_flags" for k old
  proof -
    have all: "\<forall>k \<in> set policy_flags. \<exists>b. get m k = Bool_v b" using assms unfolding valid_policy_def by (elim conjE)
    obtain b where "get m k = Bool_v b" using bspec [OF all flag] by (elim exE)
    then show ?thesis by (simp add: wire_flag)
  qed
  have fs: "flag (wire m) ''collect_system_info'' old = bool_of (get m ''collect_system_info'')"
    "flag (wire m) ''collect_hardware_stats'' old = bool_of (get m ''collect_hardware_stats'')"
    "flag (wire m) ''collect_processes'' old = bool_of (get m ''collect_processes'')"
    "flag (wire m) ''collect_browser_history'' old = bool_of (get m ''collect_browser_history'')"
    "flag (wire m) ''collect_active_window'' old = bool_of (get m ''collect_active_window'')"
    "flag (wire m) ''collect_services'' old = bool_of (get m ''collect_services'')"
    "flag (wire m) ''collect_network_ports'' old = bool_of (get m ''collect_network_ports'')"
    "flag (wire m) ''collect_installed_apps'' old = bool_of (get m ''collect_installed_apps'')"
    "flag (wire m) ''collect_os_updates'' old = bool_of (get m ''collect_os_updates'')"
    "flag (wire m) ''collect_usb_devices'' old = bool_of (get m ''collect_usb_devices'')" for old
    by (rule flags, simp add: policy_flags_def)+
  obtain s where mode: "get m ''browser_history_mode'' = Str s" using assms by (auto simp: valid_policy_def)
  have "0 \<le> floor x" "floor x \<le> 3600" using x by (simp_all add: floor_le_iff)
  moreover have "in_i64 (n * ns_per_s)" if "0 \<le> n" "n \<le> 3600" for n
    using that by (simp add: in_i64_def i64_min_def i64_max_def ns_per_s_def)
  ultimately have "in_i64 (floor x * ns_per_s)" by blast
  then have i: "i64 (f2i x * ns_per_s) = floor x * ns_per_s" using x small_f2i [of x] by (simp add: i64_id)
  have wm: "get (wire m) ''browser_history_mode'' = Str s" by (simp add: get_wire mode)
  show ?thesis
    unfolding apply_policy_def settings_of_def Let_def
    by (simp add: wire_number [OF x(1)] wire_number [OF y(1)] i small_f2i [OF y(2,3)] fs float_of_def x(1) y(1) wm mode conj_commute)
qed

text \<open>C33. A poll puts the server's policy in force: whatever the agent's settings were, after an
  answer of the policy endpoint they are those of the server's document, with browser history off in
  the mode \<^verbatim>\<open>disabled\<close>, an interval between ten seconds and an hour, and at most 5000 visits.\<close>

theorem policy_in_force:
  assumes "policy_reachable st" "key \<noteq> []" "fst (policyHandler ''GET'' key body user now st) = Json 200 (Obj m)"
  shows "policyPoller_round (Some (200, Some (wire m))) p = settings_of m
    \<and> settings_of m = settings_of (config st)
    \<and> 10 * ns_per_s \<le> syncInterval (settings_of m) \<and> syncInterval (settings_of m) \<le> 3600 * ns_per_s
    \<and> 0 \<le> browserHistoryLimit (settings_of m) \<and> browserHistoryLimit (settings_of m) \<le> 5000"
proof -
  have m: "m = config st" using assms(2,3) by (simp add: policyHandler_def)
  have v: "valid_policy m" using policy_reachable_valid [OF assms(1)] m by simp
  obtain x where x: "toFloat (get m ''sync_interval_seconds'') = Some x" "10 \<le> x" "x \<le> 3600"
    using v by (auto simp: valid_policy_def num_in_def)
  obtain y where y: "toFloat (get m ''browser_history_limit'') = Some y" "0 \<le> y" "y \<le> 5000"
    using v by (auto simp: valid_policy_def num_in_def)
  have "10 * ns_per_s \<le> syncInterval (settings_of m)" "syncInterval (settings_of m) \<le> 3600 * ns_per_s"
    using x by (simp_all add: settings_of_def float_of_def ns_per_s_def floor_le_iff le_floor_iff)
  moreover have "0 \<le> browserHistoryLimit (settings_of m)" "browserHistoryLimit (settings_of m) \<le> 5000"
    using y by (simp_all add: settings_of_def float_of_def floor_le_iff)
  ultimately show ?thesis using m valid_applied [OF v] by (simp add: policyPoller_round_def)
qed

theorem policy_in_force_witness:
  "policyPoller_round (Some (200, Some (wire defaultPolicy))) (initial_policy\<lparr>collectUSBDevices := False\<rparr>) = settings_of defaultPolicy"
  using policy_in_force [OF policy_reachable.start, of "''k''" None None undefined defaultPolicy "initial_policy\<lparr>collectUSBDevices := False\<rparr>"]
  by (simp add: policyHandler_def globalPolicy_def)

subsection \<open>What a report holds\<close>

definition delivers :: "(string \<Rightarrow> val outcome) \<Rightarrow> string list \<Rightarrow> (bool \<times> string) list \<Rightarrow> string \<Rightarrow> val \<Rightarrow> bool" where
  "delivers oc running wanted n v \<longleftrightarrow> (True, n) \<in> set wanted \<and> n \<notin> set running \<and> oc n = Returns (Some v)"

definition overrun :: "(string \<Rightarrow> val outcome) \<Rightarrow> string list \<Rightarrow> (bool \<times> string) list \<Rightarrow> string set" where
  "overrun oc running wanted = {n. (True, n) \<in> set wanted \<and> n \<notin> set running \<and> oc n = Overruns}"

lemma guard_run_facts:
  assumes "guard_run n oc running = (r, running')"
  shows "set running' = set running \<union> (if n \<notin> set running \<and> oc = Overruns then {n} else {})"
    "distinct running \<Longrightarrow> distinct running'"
    "r = Some v \<longleftrightarrow> n \<notin> set running \<and> oc = Returns (Some v)"
  using assms by (auto simp: guard_run_def split: if_splits outcome.splits)

lemma collect_one_facts:
  assumes "collect_one w n oc (running, data) = (running', data')"
  shows "set running' = set running \<union> (if w \<and> n \<notin> set running \<and> oc = Overruns then {n} else {})"
    "distinct running \<Longrightarrow> distinct running'"
    "map_of data' k = (case (if k = n \<and> w \<and> n \<notin> set running then Some oc else None) of
        Some (Returns (Some v)) \<Rightarrow> Some v | _ \<Rightarrow> map_of data k)"
proof -
  obtain r run2 where g: "guard_run n oc running = (r, run2)" by fastforce
  note f = guard_run_facts [OF g]
  have s: "running' = (if w then run2 else running)" "data' = (case r of Some v \<Rightarrow> if w then al_upd n v data else data | None \<Rightarrow> data)"
    using assms g by (auto simp: collect_one_def split: if_splits option.splits)
  show "set running' = set running \<union> (if w \<and> n \<notin> set running \<and> oc = Overruns then {n} else {})" using s(1) f(1) by auto
  show "distinct running \<Longrightarrow> distinct running'" using s(1) f(2) by simp
  show "map_of data' k = (case (if k = n \<and> w \<and> n \<notin> set running then Some oc else None) of
        Some (Returns (Some v)) \<Rightarrow> Some v | _ \<Rightarrow> map_of data k)"
    using s(2) f(3) by (cases r) (auto split: outcome.splits option.splits)
qed

lemma collect_fold:
  assumes "distinct (map snd wanted)" "foldl (collect_named oc) (running, data) wanted = (running', data')"
  shows "set running' = set running \<union> overrun oc running wanted \<and> (distinct running \<longrightarrow> distinct running')
    \<and> (\<forall>k v. map_of data' k = Some v \<longleftrightarrow> delivers oc running wanted k v
         \<or> (\<not> (\<exists>u. delivers oc running wanted k u)) \<and> map_of data k = Some v)"
  using assms
proof (induction wanted arbitrary: running data)
  case Nil
  then show ?case by (simp add: overrun_def delivers_def)
next
  case (Cons x wanted)
  obtain w n where x: "x = (w, n)" by fastforce
  obtain run1 data1 where c: "collect_one w n (oc n) (running, data) = (run1, data1)" by fastforce
  note f = collect_one_facts [OF c]
  have d: "distinct (map snd wanted)" "\<forall>b. (b, n) \<notin> set wanted" using Cons.prems(1) x by force+
  have "foldl (collect_named oc) (run1, data1) wanted = (running', data')" using Cons.prems(2) x c by (simp add: collect_named_def [of oc "(running, data)"])
  note ih = Cons.IH [OF d(1) this]
  have "map_of data' k = Some v \<longleftrightarrow> delivers oc running (x # wanted) k v
      \<or> (\<not> (\<exists>u. delivers oc running (x # wanted) k u)) \<and> map_of data k = Some v" for k v
  proof (cases "k = n")
    case True
    have "\<not> delivers oc run1 wanted k u" for u using d(2) True by (auto simp: delivers_def)
    moreover have "delivers oc running (x # wanted) k u \<longleftrightarrow> w \<and> n \<notin> set running \<and> oc n = Returns (Some u)" for u
      using d(2) True x by (auto simp: delivers_def)
    ultimately show ?thesis using ih f(3) [of k] True by (auto split: outcome.splits option.splits if_splits)
  next
    case False
    have "delivers oc running (x # wanted) k u \<longleftrightarrow> delivers oc run1 wanted k u" for u
      using False f(1) x by (auto simp: delivers_def split: if_splits)
    then show ?thesis using ih f(3) [of k] False by simp
  qed
  moreover have "set running' = set running \<union> overrun oc running (x # wanted)"
    using ih f(1) d(2) x by (auto simp: overrun_def split: if_splits)
  ultimately show ?case using ih f(2) by blast
qed
lemma plain_facts:
  assumes "distinct (map snd wanted)" "collect_plain ci wanted (a, data) = (a', data')"
  shows "a' = a\<lparr>ag_running := ag_running a'\<rparr>"
    "set (ag_running a') = set (ag_running a) \<union> overrun (ci_outcome ci) (ag_running a) wanted"
    "distinct (ag_running a) \<Longrightarrow> distinct (ag_running a')"
    "map_of data' k = Some v \<longleftrightarrow> delivers (ci_outcome ci) (ag_running a) wanted k v
       \<or> (\<not> (\<exists>u. delivers (ci_outcome ci) (ag_running a) wanted k u)) \<and> map_of data k = Some v"
proof -
  obtain running' where f: "foldl (collect_named (ci_outcome ci)) (ag_running a, data) wanted = (running', data')" and r: "a' = a\<lparr>ag_running := running'\<rparr>"
    using assms(2) by (auto simp: collect_plain_def split: prod.splits)
  note c = collect_fold [OF assms(1) f]
  show "a' = a\<lparr>ag_running := ag_running a'\<rparr>" using r by simp
  show "set (ag_running a') = set (ag_running a) \<union> overrun (ci_outcome ci) (ag_running a) wanted" using c r by simp
  show "distinct (ag_running a) \<Longrightarrow> distinct (ag_running a')" using c r by simp
  show "map_of data' k = Some v \<longleftrightarrow> delivers (ci_outcome ci) (ag_running a) wanted k v
       \<or> (\<not> (\<exists>u. delivers (ci_outcome ci) (ag_running a) wanted k u)) \<and> map_of data k = Some v" using c by blast
qed

lemma plan_distinct: "distinct (map snd (before_history p))" "distinct (map snd (after_history cf p))"
  by (simp_all add: before_history_def after_history_def)

lemma plan_names:
  "snd ` set (before_history p) = {''SystemInfo'', ''ProcessMonitor''}"
  "snd ` set (after_history cf p) = {''HardwareStats'', ''Services'', ''NetworkPorts'', ''USBEvents'', ''ActiveWindowTracker''}"
  by (auto simp: before_history_def after_history_def)

lemma history_apart: "history_name \<notin> snd ` set (before_history p)" "history_name \<notin> snd ` set (after_history cf p)"
  by (simp_all add: plan_names history_name_def)

lemma plans_apart: "n \<in> snd ` set (before_history p) \<Longrightarrow> n \<notin> snd ` set (after_history cf p')"
  by (auto simp: plan_names)

lemma overrun_names: "overrun oc running wanted \<subseteq> snd ` set wanted"
  by (force simp: overrun_def)

lemma delivers_names: "delivers oc running wanted n v \<Longrightarrow> n \<in> snd ` set wanted"
  by (force simp: delivers_def)

lemma run_history_facts:
  "ag_policy (snd (run_history cf fs homes a)) = ag_policy a" "ag_running (snd (run_history cf fs homes a)) = ag_running a"
  "ag_apps (snd (run_history cf fs homes a)) = ag_apps a" "ag_updates (snd (run_history cf fs homes a)) = ag_updates a"
  "ag_sequence (snd (run_history cf fs homes a)) = ag_sequence a" "ag_token (snd (run_history cf fs homes a)) = ag_token a"
  by (simp_all add: run_history_def split: prod.split)

text \<open>Whether the history of a cycle reaches its report.\<close>

definition history_collected :: "cycle_input \<Rightarrow> agent \<Rightarrow> bool" where
  "history_collected ci a \<longleftrightarrow> collectBrowserHistory (ag_policy a) \<and> history_name \<notin> set (ag_running a)
     \<and> ci_history ci = Returns (Some ())"

definition reported_history :: "agent_config \<Rightarrow> cycle_input \<Rightarrow> agent \<Rightarrow> history_payload" where
  "reported_history cf ci a =
     applyBrowserHistoryPolicy (browserHistoryMode (ag_policy a)) (browserHistoryLimit (ag_policy a))
       (fst (run_history cf (ci_fs ci) (ci_homes ci) a))"

lemma collect_history_facts:
  assumes "collect_history cf ci (a, data) = (a', data')"
  shows "ag_policy a' = ag_policy a" "ag_sequence a' = ag_sequence a" "ag_apps a' = ag_apps a" "ag_updates a' = ag_updates a"
    "set (ag_running a') = set (ag_running a)
       \<union> (if collectBrowserHistory (ag_policy a) \<and> history_name \<notin> set (ag_running a) \<and> ci_history ci = Overruns then {history_name} else {})"
    "distinct (ag_running a) \<Longrightarrow> distinct (ag_running a')"
    "data' = (if history_collected ci a then al_upd history_name (history_val (reported_history cf ci a)) data else data)"
    "ag_history a' = (if history_collected ci a then ag_history (snd (run_history cf (ci_fs ci) (ci_homes ci) a)) else ag_history a)"
proof -
  obtain r running where g: "guard_run history_name (ci_history ci) (ag_running a) = (r, running)" by fastforce
  obtain payload a1 where h: "run_history cf (ci_fs ci) (ci_homes ci) a = (payload, a1)" by fastforce
  note gf = guard_run_facts [OF g]
  note rh = run_history_facts [of cf "ci_fs ci" "ci_homes ci" a, unfolded h snd_conv]
  show "ag_policy a' = ag_policy a" "ag_sequence a' = ag_sequence a" "ag_apps a' = ag_apps a" "ag_updates a' = ag_updates a"
    using assms g h rh by (auto simp: collect_history_def split: if_splits option.splits)
  have run: "ag_running a' = (if collectBrowserHistory (ag_policy a) then running else ag_running a)"
    using assms g h by (cases r) (auto simp: collect_history_def split: if_splits)
  show "set (ag_running a') = set (ag_running a)
       \<union> (if collectBrowserHistory (ag_policy a) \<and> history_name \<notin> set (ag_running a) \<and> ci_history ci = Overruns then {history_name} else {})"
    unfolding run using gf(1) by simp
  show "distinct (ag_running a) \<Longrightarrow> distinct (ag_running a')" unfolding run using gf(2) by simp
  have hc: "history_collected ci a \<longleftrightarrow> collectBrowserHistory (ag_policy a) \<and> r = Some ()"
    using gf(3) by (auto simp: history_collected_def)
  show "data' = (if history_collected ci a then al_upd history_name (history_val (reported_history cf ci a)) data else data)"
    using assms g h by (cases r) (auto simp: collect_history_def hc reported_history_def split: if_splits)
  show "ag_history a' = (if history_collected ci a then ag_history (snd (run_history cf (ci_fs ci) (ci_homes ci) a)) else ag_history a)"
    using assms g h by (cases r) (auto simp: collect_history_def hc split: if_splits)
qed
lemma al_upd_other: "k \<noteq> k' \<Longrightarrow> map_of (al_upd k' v m) k = map_of m k"
  by simp

lemma gather_facts:
  assumes "gather cf ci a = (a', data)"
  shows "ag_policy a' = ag_policy a" "ag_sequence a' = ag_sequence a" "ag_apps a' = ag_apps a" "ag_updates a' = ag_updates a"
    "distinct (ag_running a) \<Longrightarrow> distinct (ag_running a')"
    "set (ag_running a') = set (ag_running a) \<union> overrun (ci_outcome ci) (ag_running a) (before_history (ag_policy a) @ after_history cf (ag_policy a))
       \<union> (if collectBrowserHistory (ag_policy a) \<and> history_name \<notin> set (ag_running a) \<and> ci_history ci = Overruns then {history_name} else {})"
    "map_of data k = Some v \<longleftrightarrow> delivers (ci_outcome ci) (ag_running a) (before_history (ag_policy a) @ after_history cf (ag_policy a)) k v
       \<or> k = history_name \<and> history_collected ci a \<and> v = history_val (reported_history cf ci a)"
    "ag_history a' = (if history_collected ci a then ag_history (snd (run_history cf (ci_fs ci) (ci_homes ci) a)) else ag_history a)"
proof -
  let ?p = "ag_policy a"
  obtain a1 d1 where s1: "collect_plain ci (before_history ?p) (a, []) = (a1, d1)" by fastforce
  obtain a2 d2 where s2: "collect_history cf ci (a1, d1) = (a2, d2)" by fastforce
  have s3: "collect_plain ci (after_history cf ?p) (a2, d2) = (a', data)" using assms s1 s2 by (simp add: gather_def)
  note f1 = plain_facts [OF plan_distinct(1) s1] and f2 = collect_history_facts [OF s2] and f3 = plain_facts [OF plan_distinct(2) s3]
  have e1: "ag_policy a1 = ?p" "ag_sequence a1 = ag_sequence a" "ag_apps a1 = ag_apps a" "ag_updates a1 = ag_updates a"
      "ag_history a1 = ag_history a" "ag_scans a1 = ag_scans a"
    by (subst f1(1), simp)+
  have e3: "ag_policy a' = ag_policy a2" "ag_sequence a' = ag_sequence a2" "ag_apps a' = ag_apps a2" "ag_updates a' = ag_updates a2"
      "ag_history a' = ag_history a2"
    by (subst f3(1), simp)+
  show "ag_policy a' = ag_policy a" "ag_sequence a' = ag_sequence a" "ag_apps a' = ag_apps a" "ag_updates a' = ag_updates a"
    using e1 e3 f2(1-4) by simp_all
  show "distinct (ag_running a) \<Longrightarrow> distinct (ag_running a')" using f1(3) f2(6) f3(3) by blast
  have before: "n \<in> set (ag_running a1) \<longleftrightarrow> n \<in> set (ag_running a)" if "n \<notin> snd ` set (before_history ?p)" for n
    using f1(2) overrun_names [of "ci_outcome ci" "ag_running a" "before_history ?p"] that by blast
  have hist: "n \<in> set (ag_running a2) \<longleftrightarrow> n \<in> set (ag_running a1)" if "n \<noteq> history_name" for n using f2(5) that by (auto split: if_splits)
  have same: "n \<in> set (ag_running a2) \<longleftrightarrow> n \<in> set (ag_running a)" if "n \<in> snd ` set (after_history cf ?p)" for n
  proof -
    have "n \<noteq> history_name" "n \<notin> snd ` set (before_history ?p)" using that history_apart(2) plans_apart by blast+
    then show ?thesis using before hist by blast
  qed
  have hname: "history_name \<in> set (ag_running a1) \<longleftrightarrow> history_name \<in> set (ag_running a)" using before [OF history_apart(1)] .
  have hc: "history_collected ci a1 = history_collected ci a" using hname e1(1) by (simp add: history_collected_def)
  have ov: "overrun (ci_outcome ci) (ag_running a2) (after_history cf ?p) = overrun (ci_outcome ci) (ag_running a) (after_history cf ?p)"
  proof -
    have "n \<in> snd ` set (after_history cf ?p)" if "(True, n) \<in> set (after_history cf ?p)" for n using that by force
    then show ?thesis using same unfolding overrun_def by blast
  qed
  have app: "overrun (ci_outcome ci) (ag_running a) (before_history ?p @ after_history cf ?p)
      = overrun (ci_outcome ci) (ag_running a) (before_history ?p) \<union> overrun (ci_outcome ci) (ag_running a) (after_history cf ?p)"
    by (auto simp: overrun_def)
  show "set (ag_running a') = set (ag_running a) \<union> overrun (ci_outcome ci) (ag_running a) (before_history ?p @ after_history cf ?p)
       \<union> (if collectBrowserHistory ?p \<and> history_name \<notin> set (ag_running a) \<and> ci_history ci = Overruns then {history_name} else {})"
    unfolding app f3(2) ov f2(5) f1(2) e1(1) using hname f1(2) by auto
  have rh: "ag_history (snd (run_history cf (ci_fs ci) (ci_homes ci) a1)) = ag_history (snd (run_history cf (ci_fs ci) (ci_homes ci) a))"
      "reported_history cf ci a1 = reported_history cf ci a"
    by (simp_all add: reported_history_def run_history_def e1 split: prod.split)
  show "ag_history a' = (if history_collected ci a then ag_history (snd (run_history cf (ci_fs ci) (ci_homes ci) a)) else ag_history a)"
    using e3(5) f2(8) hc rh(1) e1(5) by simp
  have del: "delivers (ci_outcome ci) (ag_running a2) (after_history cf ?p) k u = delivers (ci_outcome ci) (ag_running a) (after_history cf ?p) k u" for u
  proof (cases "k \<in> snd ` set (after_history cf ?p)")
    case True
    then show ?thesis using same [of k] by (simp add: delivers_def)
  next
    case False
    then show ?thesis using delivers_names by blast
  qed
  have dapp: "delivers (ci_outcome ci) (ag_running a) (before_history ?p @ after_history cf ?p) k u
      \<longleftrightarrow> delivers (ci_outcome ci) (ag_running a) (before_history ?p) k u \<or> delivers (ci_outcome ci) (ag_running a) (after_history cf ?p) k u" for u
    by (auto simp: delivers_def)
  have excl: "\<not> (delivers (ci_outcome ci) (ag_running a) (before_history ?p) k u \<and> delivers (ci_outcome ci) (ag_running a) (after_history cf ?p) k u')" for u u'
    using delivers_names [of "ci_outcome ci" "ag_running a" "before_history ?p" k u]
      delivers_names [of "ci_outcome ci" "ag_running a" "after_history cf ?p" k u'] plans_apart by blast
  have nh: "\<not> delivers (ci_outcome ci) (ag_running a) (before_history ?p) history_name u"
      "\<not> delivers (ci_outcome ci) (ag_running a) (after_history cf ?p) history_name u" for u
    using delivers_names history_apart by blast+
  have m2: "map_of d2 k = (if k = history_name \<and> history_collected ci a then Some (history_val (reported_history cf ci a)) else map_of d1 k)"
    using f2(7) hc rh(2) by auto
  have m1: "map_of d1 k = Some v \<longleftrightarrow> delivers (ci_outcome ci) (ag_running a) (before_history ?p) k v" using f1(4) by simp
  show "map_of data k = Some v \<longleftrightarrow> delivers (ci_outcome ci) (ag_running a) (before_history ?p @ after_history cf ?p) k v
       \<or> k = history_name \<and> history_collected ci a \<and> v = history_val (reported_history cf ci a)"
    unfolding f3(4) del dapp m2 using m1 excl nh by (cases "k = history_name") (auto split: if_splits)
qed
lemma history_ends_facts:
  "ag_policy (history_ends cf fs homes a) = ag_policy a" "ag_sequence (history_ends cf fs homes a) = ag_sequence a"
  "ag_apps (history_ends cf fs homes a) = ag_apps a" "ag_updates (history_ends cf fs homes a) = ag_updates a"
  "distinct (ag_running a) \<Longrightarrow> distinct (ag_running (history_ends cf fs homes a))"
  by (simp_all add: history_ends_def run_history_facts call_ends_def)

lemma ends_late_facts:
  "ag_policy (ends_late cf ci a) = ag_policy a" "ag_sequence (ends_late cf ci a) = ag_sequence a"
  "ag_apps (ends_late cf ci a) = ag_apps a" "ag_updates (ends_late cf ci a) = ag_updates a"
  "distinct (ag_running a) \<Longrightarrow> distinct (ag_running (ends_late cf ci a))"
  by (auto simp: ends_late_def history_ends_facts split: option.split)

lemma add_slow_other: "k \<noteq> ''InstalledApps'' \<Longrightarrow> k \<noteq> ''OSUpdates'' \<Longrightarrow> map_of (add_slow a data) k = map_of data k"
  by (simp add: add_slow_def Let_def split: option.split)

lemma payload_get:
  "get (finalPayload cf role ci n data) ''data'' = Obj data"
  "get (finalPayload cf role ci n data) ''event_id'' = Str (report_id (ac_session cf) n)"
  "get (finalPayload cf role ci n data) ''device_id'' = Str (ci_device ci)"
  by (simp_all add: finalPayload_def)

definition plan :: "agent_config \<Rightarrow> agent_policy \<Rightarrow> (bool \<times> string) list" where
  "plan cf p = before_history p @ after_history cf p"

lemma main_cycle_facts:
  assumes "main_cycle cf encode ci (a, q) = ((a', q'), r)"
  obtains a1 data a2 report where "gather cf ci a = (a1, data)" "a2 = ends_late cf ci a1"
    "report = finalPayload cf (if ac_window cf then ''active_window'' else ''system'') ci (ag_sequence a) (add_slow a2 data)"
    "ag_sequence a' = ag_sequence a + 1" "ag_policy a' = ag_policy a" "ag_running a' = ag_running a2"
    "ag_apps a2 = ag_apps a" "ag_updates a2 = ag_updates a" "ag_policy a2 = ag_policy a"
    "r = (if fst (Push (ac_env cf) (ci_push_ok ci) (ci_prune_ok ci) (ci_clock ci) (encode report) q) then Some report else None)"
    "ag_history a' = (if r = None then ag_history a2
       else fst (history_Commit (ac_sort cf) (history_name \<in> set (ag_running a2)) (ag_history a2)))"
    "q' = snd (Push (ac_env cf) (ci_push_ok ci) (ci_prune_ok ci) (ci_clock ci) (encode report) q)"
proof -
  obtain a1 data where g: "gather cf ci a = (a1, data)" by fastforce
  let ?a2 = "ends_late cf ci a1"
  let ?r = "finalPayload cf (if ac_window cf then ''active_window'' else ''system'') ci (ag_sequence a) (add_slow ?a2 data)"
  obtain ok q1 where p: "Push (ac_env cf) (ci_push_ok ci) (ci_prune_ok ci) (ci_clock ci) (encode ?r) q = (ok, q1)" by fastforce
  note gf = gather_facts(1-4) [OF g] and lf = ends_late_facts(1-4) [of cf ci a1]
  have "main_cycle cf encode ci (a, q) = (let a3 = ?a2\<lparr>ag_sequence := ag_sequence a + 1\<rparr>
      in if ok then ((commit_history cf a3, q1), Some ?r) else ((a3, q1), None))"
    using g p gf lf by (simp add: main_cycle_def Let_def)
  then show ?thesis using assms p gf lf
    by (intro that [OF g refl refl]) (auto simp: Let_def commit_history_def split: if_splits)
qed

subsection \<open>Examples\<close>

definition sample_config :: agent_config where
  "sample_config = \<lparr>ac_session = ''s'', ac_boot = ''b'', ac_version = ''1.0'', ac_os = ''linux'', ac_arch = ''amd64'',
     ac_window = False, ac_sort = stable_sort, ac_env = (\<lambda>_. []), ac_saved = None\<rparr>"

definition sample_agent :: agent where
  "sample_agent = \<lparr>ag_policy = initial_policy\<lparr>collectServices := False\<rparr>, ag_running = [], ag_apps = None, ag_updates = None,
     ag_sequence = 0, ag_history = NewBrowserHistory, ag_scans = [], ag_token = False\<rparr>"

definition empty_fs :: host_fs where
  "empty_fs = \<lparr>fs_stat = (\<lambda>_. None), fs_dir = (\<lambda>_. None), fs_urls = (\<lambda>_ _ _. None), fs_visits = (\<lambda>_ _. None)\<rparr>"

text \<open>The hardware statistics hang.\<close>

definition sample_cycle :: cycle_input where
  "sample_cycle = \<lparr>ci_outcome = (\<lambda>n. if n = ''SystemInfo'' then Returns (Some (Str ''up'')) else if n = ''HardwareStats'' then Overruns
       else if n = ''ProcessMonitor'' then Panics else Returns None),
     ci_history = Returns (Some ()), ci_fs = empty_fs, ci_homes = [], ci_late = None, ci_device = ''d'', ci_time = ''t'',
     ci_user = ''u'', ci_push_ok = True, ci_prune_ok = (True, True, True), ci_clock = 0\<rparr>"

definition sample_queue :: queue_db where
  "sample_queue = \<lparr>q_rows = [], q_last = 0, q_pushes = 0\<rparr>"

definition sample_encode :: "obj \<Rightarrow> string option" where
  "sample_encode m = Some (str_of (get m ''event_id''))"
subsection \<open>Runs\<close>

text \<open>A run: the agent, its queue, the reports queued so far and the number of cycles. Between the
  cycles the other loops run: polls of the policy, passes of the slow collectors, the engine that drains
  the queue, and the end of abandoned calls. \<open>P\<close> restricts the cycles.\<close>

type_synonym agent_run = "agent \<times> queue_db \<times> obj list \<times> nat"

inductive agent_step ::
  "agent_config \<Rightarrow> (obj \<Rightarrow> string option) \<Rightarrow> (cycle_input \<Rightarrow> agent \<Rightarrow> bool) \<Rightarrow> agent_run \<Rightarrow> agent_run \<Rightarrow> bool"
  for cf encode P where
  cycle: "main_cycle cf encode ci (a, q) = ((a', q'), r) \<Longrightarrow> P ci a \<Longrightarrow>
    agent_step cf encode P (a, q, sent, n) (a', q', sent @ (case r of None \<Rightarrow> [] | Some m \<Rightarrow> [m]), Suc n)"
| polled: "agent_step cf encode P (a, q, sent, n) (a\<lparr>ag_policy := policyPoller_round resp (ag_policy a)\<rparr>, q, sent, n)"
| slow: "agent_step cf encode P (a, q, sent, n) (snd (slow_pass oc (running, a)), q, sent, n)"
| call_ended: "agent_step cf encode P (a, q, sent, n) (history_ends cf fs homes a, q, sent, n)"
| other_call_ended: "name \<noteq> history_name \<Longrightarrow>
    agent_step cf encode P (a, q, sent, n) (a\<lparr>ag_running := call_ends name (ag_running a)\<rparr>, q, sent, n)"
| notified: "agent_step cf encode P (a, q, sent, n) (NotifyCollectNow a, q, sent, n)"
| waited: "agent_step cf encode P (a, q, sent, n) (snd (next_wait a), q, sent, n)"
| queue_used: "agent_step cf encode P (a, q, sent, n) (a, q', sent, n)"

inductive_cases agent_stepE: "agent_step cf encode P (a, q, sent, n) s'"

lemma slow_pass_facts:
  "ag_policy (snd (slow_pass oc (running, a))) = ag_policy a" "ag_sequence (snd (slow_pass oc (running, a))) = ag_sequence a"
  "ag_history (snd (slow_pass oc (running, a))) = ag_history a" "ag_running (snd (slow_pass oc (running, a))) = ag_running a"
  by (simp_all add: slow_pass_def split: prod.split)

lemma next_wait_facts:
  "ag_policy (snd (next_wait a)) = ag_policy a" "ag_sequence (snd (next_wait a)) = ag_sequence a"
  "ag_history (snd (next_wait a)) = ag_history a" "ag_running (snd (next_wait a)) = ag_running a"
  by (simp_all add: next_wait_def)

text \<open>Every report carries the session's name and the number of its cycle.\<close>

definition event_ids :: "obj list \<Rightarrow> val list" where "event_ids sent = map (\<lambda>r. get r ''event_id'') sent"

definition numbered :: "agent_config \<Rightarrow> 64 word \<Rightarrow> agent_run \<Rightarrow> bool" where
  "numbered cf s0 st \<longleftrightarrow> (case st of (a, q, sent, n) \<Rightarrow> ag_sequence a = s0 + of_nat n
     \<and> (\<exists>ns. sorted_wrt (<) ns \<and> (\<forall>i \<in> set ns. i < n)
          \<and> event_ids sent = map (\<lambda>i. Str (report_id (ac_session cf) (s0 + of_nat i))) ns))"

lemma numbered_step: "agent_step cf encode P st st' \<Longrightarrow> numbered cf s0 st \<Longrightarrow> numbered cf s0 st'"
proof (induction rule: agent_step.induct)
  case (cycle ci a q a' q' r sent n)
  obtain report where f: "ag_sequence a' = ag_sequence a + 1" "r = None \<or> r = Some report"
      "get report ''event_id'' = Str (report_id (ac_session cf) (ag_sequence a))"
    by (rule main_cycle_facts [OF cycle(1)]) (metis payload_get(2))
  obtain ns where ns: "sorted_wrt (<) ns" "\<forall>i \<in> set ns. i < n"
      "event_ids sent = map (\<lambda>i. Str (report_id (ac_session cf) (s0 + of_nat i))) ns" and s: "ag_sequence a = s0 + of_nat n"
    using cycle(3) by (auto simp: numbered_def)
  have s': "ag_sequence a' = s0 + of_nat (Suc n)" using f(1) s by simp
  show ?case
  proof (cases r)
    case None
    then show ?thesis using ns s' by (auto simp: numbered_def intro!: exI [of _ ns])
  next
    case (Some m)
    then have "event_ids (sent @ [m]) = map (\<lambda>i. Str (report_id (ac_session cf) (s0 + of_nat i))) (ns @ [n])"
      using f ns(3) s by (simp add: event_ids_def)
    moreover have "sorted_wrt (<) (ns @ [n])" "\<forall>i \<in> set (ns @ [n]). i < Suc n" using ns by (auto simp: sorted_wrt_append)
    ultimately show ?thesis using Some s' by (simp only: numbered_def prod.case option.case) blast
  qed
qed (auto simp: numbered_def slow_pass_facts next_wait_facts history_ends_facts NotifyCollectNow_def)

interpretation numbering: preserving "agent_step cf encode P" "numbered cf s0" for cf encode P s0
  by unfold_locales (rule numbered_step)

lemma report_id_inj: "report_id s m = report_id s n \<Longrightarrow> m = n"
  by (auto simp: report_id_def dest: dec_str_inj intro: unsigned_word_eqI)

text \<open>C34. No two reports of a session have the same event id, so the server, which takes an event in
  once, drops only repetitions: in every run of the agent of less than \<open>2 ^ 64\<close> cycles the reports it
  queued have distinct ids, whether or not queueing failed in between.\<close>

theorem event_ids_distinct:
  assumes "(agent_step cf encode P)\<^sup>*\<^sup>* (a, q, [], 0) (a', q', sent, n)" "n < 2 ^ 64"
  shows "distinct (event_ids sent)"
proof -
  have "numbered cf (ag_sequence a) (a', q', sent, n)"
    by (rule numbering.run_inv [OF assms(1)]) (simp add: numbered_def event_ids_def)
  then obtain ns where ns: "sorted_wrt (<) ns" "\<forall>i \<in> set ns. i < n"
      "event_ids sent = map (\<lambda>i. Str (report_id (ac_session cf) (ag_sequence a + of_nat i))) ns"
    by (auto simp: numbered_def)
  have "inj_on (\<lambda>i. Str (report_id (ac_session cf) (ag_sequence a + of_nat i))) (set ns)"
  proof (rule inj_onI)
    fix i j
    assume ij: "i \<in> set ns" "j \<in> set ns"
      "Str (report_id (ac_session cf) (ag_sequence a + of_nat i)) = Str (report_id (ac_session cf) (ag_sequence a + of_nat j))"
    then have "(of_nat i :: 64 word) = of_nat j" using report_id_inj by fastforce
    moreover have "i < 2 ^ 64" "j < 2 ^ 64" using ij(1,2) ns(2) assms(2) by force+
    ultimately show "i = j" by (simp add: word_of_nat_eq_iff take_bit_nat_eq_self)
  qed
  moreover have "distinct ns" using ns(1) by (simp add: strict_sorted_iff)
  ultimately show ?thesis using ns(3) by (simp add: distinct_map)
qed
theorem event_ids_distinct_witness:
  "\<exists>a1 q1 a2 q2 r1 r2. main_cycle sample_config sample_encode sample_cycle (sample_agent, sample_queue) = ((a1, q1), r1)
     \<and> main_cycle sample_config sample_encode sample_cycle (a1, q1) = ((a2, q2), r2)
     \<and> distinct (event_ids ((case r1 of None \<Rightarrow> [] | Some m \<Rightarrow> [m]) @ (case r2 of None \<Rightarrow> [] | Some m \<Rightarrow> [m])))"
proof -
  obtain a1 q1 r1 where m1: "main_cycle sample_config sample_encode sample_cycle (sample_agent, sample_queue) = ((a1, q1), r1)"
    by (metis surj_pair)
  obtain a2 q2 r2 where m2: "main_cycle sample_config sample_encode sample_cycle (a1, q1) = ((a2, q2), r2)" by (metis surj_pair)
  have "agent_step sample_config sample_encode (\<lambda>_ _. True) (sample_agent, sample_queue, [], 0)
      (a1, q1, [] @ (case r1 of None \<Rightarrow> [] | Some m \<Rightarrow> [m]), Suc 0)" by (rule agent_step.cycle [OF m1]) simp
  moreover have "agent_step sample_config sample_encode (\<lambda>_ _. True) (a1, q1, [] @ (case r1 of None \<Rightarrow> [] | Some m \<Rightarrow> [m]), Suc 0)
      (a2, q2, ([] @ (case r1 of None \<Rightarrow> [] | Some m \<Rightarrow> [m])) @ (case r2 of None \<Rightarrow> [] | Some m \<Rightarrow> [m]), Suc (Suc 0))"
    by (rule agent_step.cycle [OF m2]) simp
  ultimately have "(agent_step sample_config sample_encode (\<lambda>_ _. True))\<^sup>*\<^sup>* (sample_agent, sample_queue, [], 0)
      (a2, q2, ([] @ (case r1 of None \<Rightarrow> [] | Some m \<Rightarrow> [m])) @ (case r2 of None \<Rightarrow> [] | Some m \<Rightarrow> [m]), Suc (Suc 0))"
    by (meson converse_rtranclp_into_rtranclp r_into_rtranclp)
  from event_ids_distinct [OF this] m1 m2 show ?thesis by auto
qed

subsection \<open>What counts as sent was reported\<close>

text \<open>A visit is reported when its entry, as the policy's mode leaves it, is among the new ones of a
  report.\<close>

definition reported_in :: "obj \<Rightarrow> HistoryEntry \<Rightarrow> bool" where
  "reported_in r e \<longleftrightarrow> (\<exists>data h vs mode. get r ''data'' = Obj data \<and> map_of data history_name = Some (Obj h)
     \<and> get h ''new_history_entries'' = Arr vs \<and> entry_val (reduce_visit mode e) \<in> set vs)"

text \<open>A cycle in which the history is collected in time and no limit cuts it.\<close>

definition whole_history :: "cycle_input \<Rightarrow> agent \<Rightarrow> bool" where
  "whole_history ci a \<longleftrightarrow> collectBrowserHistory (ag_policy a) \<and> ci_history ci = Returns (Some ()) \<and> ci_late ci = None
     \<and> (browserHistoryLimit (ag_policy a) \<le> 0 \<or> int maxBrowserHistoryUploadEntries \<le> browserHistoryLimit (ag_policy a))"

definition saved_keys :: "saved_state \<Rightarrow> string set" where
  "saved_keys saved = (case saved of Some (Some m) \<Rightarrow> fst ` set m | _ \<Rightarrow> {})"

definition marked_reported :: "agent_config \<Rightarrow> string set \<Rightarrow> agent_run \<Rightarrow> bool" where
  "marked_reported cf old st \<longleftrightarrow> (case st of (a, q, sent, n) \<Rightarrow> history_name \<notin> set (ag_running a)
     \<and> (\<forall>k \<in> sent_keys (ag_history a). k \<in> old \<or> (\<exists>r \<in> set sent. \<exists>e. sentKey e = k \<and> reported_in r e)))"

lemma commit_only:
  assumes "sorts_well srt"
  shows "sent_keys (fst (history_Commit srt busy b)) \<subseteq> sent_keys b \<union> (if busy then {} else keys (pendingEntries b))"
proof (cases "busy \<or> pendingEntries b = []")
  case False
  let ?old = "case sentEntries b of None \<Rightarrow> [] | Some m \<Rightarrow> m"
  have prune: "fst ` set (pruneSentEntries srt m) \<subseteq> fst ` set m" for m
    using set_take_subset [of maxBrowserHistorySentStateEntries "by_sent srt m"] sorted_perm_set(5) [OF assms, of m]
    by (auto simp: pruneSentEntries_def)
  have old: "fst ` set ?old = sent_keys b" by (cases "sentEntries b") (simp_all add: sent_keys_def)
  have "sent_keys (fst (history_Commit srt busy b)) = fst ` set (pruneSentEntries srt (mark_sent (pendingEntries b) ?old))"
    using False by (simp add: history_Commit_def Let_def sent_keys_def)
  also have "\<dots> \<subseteq> fst ` set (mark_sent (pendingEntries b) ?old)" by (rule prune)
  also have "\<dots> = sent_keys b \<union> keys (pendingEntries b)" by (simp only: mark_sent_keys old)
  finally show ?thesis using False by simp
qed (auto simp: history_Commit_def)

lemma run_history_sent:
  assumes "run_history cf fs homes a = (payload, a')" "sorts_well (ac_sort cf)"
  shows "sent_keys (ag_history a') \<subseteq> sent_keys (ag_history a) \<union> saved_keys (ac_saved cf)"
    "set (new_history_entries payload) = set (pendingEntries (ag_history a'))"
    "length (new_history_entries payload) \<le> maxBrowserHistoryUploadEntries"
proof -
  let ?b = "loadState (ac_saved cf) (ag_history a)"
  have l: "sent_keys ?b \<subseteq> sent_keys (ag_history a) \<union> saved_keys (ac_saved cf)"
    by (auto simp: loadState_def Let_def sent_keys_def saved_keys_def split: option.split)
  obtain found scans payload1 b1 where c: "collect_entries (ac_sort cf) found ?b = (payload1, b1)"
      "(payload = no_history \<and> ag_history a' = ?b\<lparr>pendingEntries := []\<rparr>) \<or> (payload = payload1 \<and> ag_history a' = b1)"
    using assms(1) by (auto simp: run_history_def history_Collect_def Let_def split: prod.splits if_splits)
  have b: "sent_keys b1 = sent_keys ?b" "sent_keys (?b\<lparr>pendingEntries := []\<rparr>) = sent_keys ?b"
    using c(1) by (auto simp: collect_entries_def Let_def sent_keys_def split: if_splits)
  show "sent_keys (ag_history a') \<subseteq> sent_keys (ag_history a) \<union> saved_keys (ac_saved cf)" using l b c(2) by metis
  have p: "set (new_history_entries payload1) = set (pendingEntries b1)" "length (new_history_entries payload1) \<le> maxBrowserHistoryUploadEntries"
    using c(1) sorted_perm_set [OF assms(2)] upload_choice_facts(2) [OF assms(2)]
    by (auto simp: collect_entries_def Let_def no_history_def split: if_splits)
  show "set (new_history_entries payload) = set (pendingEntries (ag_history a'))"
    "length (new_history_entries payload) \<le> maxBrowserHistoryUploadEntries"
    using p c(2) by (auto simp: no_history_def)
qed

lemma reported_inI:
  assumes "get r ''data'' = Obj data" "map_of data history_name = Some (history_val p)"
    "entry_val (reduce_visit mode e) \<in> set (map entry_val (new_history_entries p))"
  shows "reported_in r e"
proof -
  obtain h where h: "history_val p = Obj h" "get h ''new_history_entries'' = Arr (map entry_val (new_history_entries p))"
    by (simp add: history_val_def)
  show ?thesis unfolding reported_in_def using assms h by metis
qed

lemma unlimited_visits:
  assumes "limit \<le> 0 \<or> int maxBrowserHistoryUploadEntries \<le> limit" "length es \<le> maxBrowserHistoryUploadEntries"
  shows "limit_visits mode limit es = map (reduce_visit mode) es"
  using assms by (auto simp: limit_visits_def Let_def)
lemma marked_step:
  assumes "sorts_well (ac_sort cf)" "agent_step cf encode whole_history st st'" "saved_keys (ac_saved cf) \<subseteq> old" "marked_reported cf old st"
  shows "marked_reported cf old st'"
  using assms(2,4)
proof (induction rule: agent_step.induct)
  case (cycle ci a q a' q' r sent n)
  let ?p = "ag_policy a"
  have idle: "history_name \<notin> set (ag_running a)"
    and old: "\<forall>k \<in> sent_keys (ag_history a). k \<in> old \<or> (\<exists>r \<in> set sent. \<exists>e. sentKey e = k \<and> reported_in r e)"
    using cycle(3) by (simp_all add: marked_reported_def)
  have w: "collectBrowserHistory ?p" "ci_history ci = Returns (Some ())" "ci_late ci = None"
      "browserHistoryLimit ?p \<le> 0 \<or> int maxBrowserHistoryUploadEntries \<le> browserHistoryLimit ?p"
    using cycle(2) by (simp_all add: whole_history_def)
  have hc: "history_collected ci a" using w idle by (simp add: history_collected_def)
  obtain a1 data a2 report where f: "gather cf ci a = (a1, data)" "a2 = ends_late cf ci a1"
      "report = finalPayload cf (if ac_window cf then ''active_window'' else ''system'') ci (ag_sequence a) (add_slow a2 data)"
      "ag_running a' = ag_running a2" "r = None \<or> r = Some report"
      "ag_history a' = (if r = None then ag_history a2
         else fst (history_Commit (ac_sort cf) (history_name \<in> set (ag_running a2)) (ag_history a2)))"
    by (rule main_cycle_facts [OF cycle(1)]) metis
  have a2: "a2 = a1" using f(2) w(3) by (simp add: ends_late_def)
  have "history_name \<notin> overrun (ci_outcome ci) (ag_running a) (before_history ?p @ after_history cf ?p)"
    using overrun_names [of "ci_outcome ci" "ag_running a" "before_history ?p @ after_history cf ?p"]
      history_apart(1) [of ?p] history_apart(2) [of cf ?p] by (auto simp: image_Un)
  then have run: "history_name \<notin> set (ag_running a2)" using gather_facts(6) [OF f(1)] idle w(2) a2 by simp
  obtain payload b where h: "run_history cf (ci_fs ci) (ci_homes ci) a = (payload, b)" by fastforce
  note rh = run_history_sent [OF h assms(1)]
  have hist: "ag_history a2 = ag_history b" using gather_facts(8) [OF f(1)] hc a2 h by simp
  have base: "k \<in> old \<or> (\<exists>r \<in> set sent. \<exists>e. sentKey e = k \<and> reported_in r e)" if "k \<in> sent_keys (ag_history b)" for k
    using that rh(1) old assms(3) by blast
  have rep: "reported_in report e" if "e \<in> set (pendingEntries (ag_history b))" for e
  proof -
    have "map_of data history_name = Some (history_val (reported_history cf ci a))" using gather_facts(7) [OF f(1)] hc by blast
    then have d: "map_of (add_slow a2 data) history_name = Some (history_val (reported_history cf ci a))"
      by (simp add: add_slow_other history_name_def)
    have "new_history_entries (reported_history cf ci a) = map (reduce_visit (browserHistoryMode ?p)) (new_history_entries payload)"
      using unlimited_visits [OF w(4) rh(3)] by (simp add: reported_history_def h applyBrowserHistoryPolicy_def)
    moreover have "e \<in> set (new_history_entries payload)" using that rh(2) by simp
    ultimately have "entry_val (reduce_visit (browserHistoryMode ?p) e) \<in> set (map entry_val (new_history_entries (reported_history cf ci a)))"
      by simp
    then show ?thesis using reported_inI [OF _ d] f(3) payload_get(1) by simp
  qed
  show ?case
  proof (cases r)
    case None
    then show ?thesis using f(4,6) run base hist by (simp add: marked_reported_def)
  next
    case (Some m)
    then have m: "m = report" using f(5) by simp
    have "sent_keys (ag_history a') \<subseteq> sent_keys (ag_history b) \<union> keys (pendingEntries (ag_history b))"
      using commit_only [OF assms(1), of "history_name \<in> set (ag_running a2)" "ag_history a2"] f(6) Some hist run by simp
    then have "k \<in> sent_keys (ag_history b) \<or> (\<exists>e \<in> set (pendingEntries (ag_history b)). sentKey e = k)" if "k \<in> sent_keys (ag_history a')" for k
      using that unfolding keys_def by auto
    then have "k \<in> old \<or> (\<exists>r \<in> set (sent @ [report]). \<exists>e. sentKey e = k \<and> reported_in r e)" if "k \<in> sent_keys (ag_history a')" for k
      using that base [of k] rep by (metis Un_iff list.set_intros(1) set_append)
    then show ?thesis using Some m f(4) run by (simp add: marked_reported_def)
  qed
qed (auto simp: marked_reported_def slow_pass_facts next_wait_facts history_ends_def NotifyCollectNow_def call_ends_def
    dest: notin_set_remove1)

interpretation marking: preserving "agent_step cf encode whole_history"
    "\<lambda>st. sorts_well (ac_sort cf) \<and> saved_keys (ac_saved cf) \<subseteq> old \<and> marked_reported cf old st" for cf encode old
  by unfold_locales (blast intro: marked_step)

text \<open>C31. A visit counts as sent only when it was reported: in every run of the agent whose cycles collect
  the history in time and without a cutting limit, whatever else happens between them and whether or not
  queueing a report fails, each visit marked as sent was marked before the run, or is in a report that
  was queued.\<close>

theorem marked_visits_reported:
  assumes "sorts_well (ac_sort cf)" "(agent_step cf encode whole_history)\<^sup>*\<^sup>* (a, q, [], 0) (a', q', sent, n)"
    "history_name \<notin> set (ag_running a)" "k \<in> sent_keys (ag_history a')"
  shows "k \<in> sent_keys (ag_history a) \<union> saved_keys (ac_saved cf)
    \<or> (\<exists>r \<in> set sent. \<exists>e. sentKey e = k \<and> reported_in r e)"
proof -
  let ?old = "sent_keys (ag_history a) \<union> saved_keys (ac_saved cf)"
  have inv: "sorts_well (ac_sort cf) \<and> saved_keys (ac_saved cf) \<subseteq> ?old \<and> marked_reported cf ?old (a, q, [], 0)"
    using assms(1,3) by (auto simp: marked_reported_def)
  have "marked_reported cf ?old (a', q', sent, n)"
    using marking.run_inv [OF assms(2) inv] by simp
  then show ?thesis using assms(4) by (auto simp: marked_reported_def)
qed
text \<open>Outside these conditions visits get lost: they count as sent although no report holds them. A limit
  cuts the newest ones out of what was collected, but all of it is marked.\<close>

lemma limit_loses_visits:
  "let found = [visit ''https://a'' 1, visit ''https://b'' 2]; (payload, b) = collect_entries stable_sort found NewBrowserHistory;
       reported = new_history_entries (applyBrowserHistoryPolicy ''full_url'' 1 payload);
       b' = fst (history_Commit stable_sort False b)
   in reported = [visit ''https://b'' 2] \<and> hasSent b' (visit ''https://a'' 1)
     \<and> new_history_entries (fst (collect_entries stable_sort found b')) = []"
  by code_simp

text \<open>What is still pending when a report without history is queued is marked as well: visits of a cycle
  whose report could not be queued, when the policy then turns the history off.\<close>

lemma turned_off_loses_visits:
  assumes "ag_policy a = p" "\<not> collectBrowserHistory p" "history_name \<notin> set (ag_running a)" "sorts_well (ac_sort cf)"
    "pendingEntries (ag_history a) = [e]" "sentEntries (ag_history a) = None" "ci_late ci = None"
    "main_cycle cf encode ci (a, q) = ((a', q'), Some r)"
  shows "hasSent (ag_history a') e \<and> (\<exists>data. get r ''data'' = Obj data \<and> map_of data history_name = None)"
proof -
  obtain a1 data a2 report where f: "gather cf ci a = (a1, data)" "a2 = ends_late cf ci a1"
      "report = finalPayload cf (if ac_window cf then ''active_window'' else ''system'') ci (ag_sequence a) (add_slow a2 data)"
      "Some r = Some report"
      "ag_history a' = fst (history_Commit (ac_sort cf) (history_name \<in> set (ag_running a2)) (ag_history a2))"
    by (rule main_cycle_facts [OF assms(8)]) (metis option.distinct(1))
  have a2: "a2 = a1" using f(2) assms(7) by (simp add: ends_late_def)
  have off: "\<not> history_collected ci a" using assms(1,2) by (simp add: history_collected_def)
  have h: "ag_history a2 = ag_history a" using gather_facts(8) [OF f(1)] off a2 by simp
  have "history_name \<notin> overrun (ci_outcome ci) (ag_running a) (before_history p @ after_history cf p)"
    using overrun_names [of "ci_outcome ci" "ag_running a" "before_history p @ after_history cf p"]
      history_apart(1) [of p] history_apart(2) [of cf p] by (auto simp: image_Un)
  then have "history_name \<notin> set (ag_running a2)" using gather_facts(6) [OF f(1)] a2 assms(1-3) by simp
  then have "hasSent (ag_history a') e"
    using f(5) assms(5,6) h by (simp add: history_Commit_def Let_def hasSent_def mark_sent_def pruneSentEntries_def
        maxBrowserHistorySentStateEntries_def)
  moreover have "map_of data history_name \<noteq> Some v" for v
  proof -
    have "\<not> delivers (ci_outcome ci) (ag_running a) (before_history p @ after_history cf p) history_name v"
      using delivers_names [of "ci_outcome ci" "ag_running a" "before_history p @ after_history cf p" history_name v]
        history_apart(1) [of p] history_apart(2) [of cf p] by (auto simp: image_Un)
    then show ?thesis using gather_facts(7) [OF f(1), of history_name v] assms(1) off by blast
  qed
  then have "map_of (add_slow a2 data) history_name = None"
    by (simp add: add_slow_other history_name_def) (metis not_None_eq)
  ultimately show ?thesis using f(3,4) payload_get(1) by (metis option.inject)
qed

text \<open>The URL of a local file keeps its path in the mode \<^verbatim>\<open>domain_only\<close>, where the server's own reduction
  drops it.\<close>

lemma local_paths_stay:
  "domainOnlyURL ''file:///home/u/x'' = ''file:///home/u/x'' \<and> originOnly ''file:///home/u/x'' = None"
  by code_simp

definition history_fs :: host_fs where
  "history_fs = \<lparr>fs_stat = (\<lambda>p. if p = ''/h/.config/google-chrome/Default/History'' then Some (1, 1) else None),
     fs_dir = (\<lambda>p. if p = ''/h/.config/google-chrome'' then Some [(''Default'', True)] else None),
     fs_urls = (\<lambda>_ _ _. Some [(Some ''https://a'', None, Some 11644473600000001)]), fs_visits = (\<lambda>_ _. None)\<rparr>"

theorem marked_visits_reported_witness:
  "\<exists>a' q' r. main_cycle sample_config sample_encode (sample_cycle\<lparr>ci_homes := [''/h''], ci_fs := history_fs\<rparr>)
        (sample_agent\<lparr>ag_policy := initial_policy\<lparr>browserHistoryLimit := 0\<rparr>\<rparr>, sample_queue) = ((a', q'), r)
     \<and> (\<forall>k \<in> sent_keys (ag_history a'). \<exists>m e. r = Some m \<and> sentKey e = k \<and> reported_in m e)"
proof -
  let ?ci = "sample_cycle\<lparr>ci_homes := [''/h''], ci_fs := history_fs\<rparr>"
  let ?a = "sample_agent\<lparr>ag_policy := initial_policy\<lparr>browserHistoryLimit := 0\<rparr>\<rparr>"
  obtain a' q' r where m: "main_cycle sample_config sample_encode ?ci (?a, sample_queue) = ((a', q'), r)" by (metis surj_pair)
  have "whole_history ?ci ?a" by (simp add: whole_history_def sample_agent_def sample_cycle_def initial_policy_def)
  then have "agent_step sample_config sample_encode whole_history (?a, sample_queue, [], 0)
      (a', q', [] @ (case r of None \<Rightarrow> [] | Some m \<Rightarrow> [m]), Suc 0)" by (rule agent_step.cycle [OF m])
  then have run: "(agent_step sample_config sample_encode whole_history)\<^sup>*\<^sup>* (?a, sample_queue, [], 0)
      (a', q', [] @ (case r of None \<Rightarrow> [] | Some m \<Rightarrow> [m]), Suc 0)" by (rule r_into_rtranclp)
  have srt: "sorts_well (ac_sort sample_config)" by (simp add: sample_config_def stable_sort_well)
  have idle: "history_name \<notin> set (ag_running ?a)" by (simp add: sample_agent_def)
  have none: "sent_keys (ag_history ?a) \<union> saved_keys (ac_saved sample_config) = {}"
    by (simp add: sent_keys_def sample_agent_def NewBrowserHistory_def saved_keys_def sample_config_def)
  have "\<exists>m e. r = Some m \<and> sentKey e = k \<and> reported_in m e" if "k \<in> sent_keys (ag_history a')" for k
  proof -
    have "\<exists>m \<in> set (case r of None \<Rightarrow> [] | Some m \<Rightarrow> [m]). \<exists>e. sentKey e = k \<and> reported_in m e"
      using marked_visits_reported [OF srt run idle that] none by simp
    then show ?thesis by (cases r) auto
  qed
  then show ?thesis using m by blast
qed

end
