(* ===== verification/Builds.thy ===== *)
theory Builds
  imports Releases HistoryCollector
begin

text \<open>
  Builds of the agent on the server (\<^verbatim>\<open>api/main.go\<close>): validation of a request, the queued job, and the run of
  a job, which calls the packaging scripts for every platform, uploads what they produced to the release
  bucket and publishes the releases. The scripts, the file system and S3 are the world \<open>'w\<close>, reached
  through \<open>build_host\<close>; jobs and releases are in the document store. The mutex that lets one job run at a
  time makes a run one function here.
\<close>

named_theorems builds \<open>facts on agent builds\<close>

subsection \<open>Jobs\<close>

record AgentBuildArtifact =
  art_os :: string
  art_arch :: string
  art_kind :: string
  art_file :: string
  art_key :: string
  art_url :: string
  art_checksum :: string
  art_size :: int

record AgentBuildJob =
  job_id :: nat
  job_version :: string
  job_api_url :: string
  job_platforms :: "string list"
  job_archs :: "string list"
  job_status :: string
  job_error :: string
  job_logs :: "string list"
  job_artifacts :: "AgentBuildArtifact list"
  job_created :: gotime
  job_updated :: gotime
  job_started :: "gotime option"
  job_finished :: "gotime option"

record AgentBuildRequest =
  req_version :: string
  req_api_url :: string
  req_platforms :: "string list"
  req_archs :: "string list"

definition artifact_json :: "AgentBuildArtifact \<Rightarrow> val" where
  "artifact_json a = Obj [(''os'', Str (art_os a)), (''arch'', Str (art_arch a)), (''kind'', Str (art_kind a)),
     (''file_name'', Str (art_file a)), (''s3_key'', Str (art_key a)), (''download_url'', Str (art_url a)),
     (''checksum_sha256'', Str (art_checksum a)), (''size_bytes'', Int_v (art_size a))]"

text \<open>\<open>hex\<close> is the hexadecimal form of an object id.\<close>

definition job_json :: "(nat \<Rightarrow> string) \<Rightarrow> AgentBuildJob \<Rightarrow> val" where
  "job_json hex j = Obj
     ([(''id'', Str (hex (job_id j))), (''version'', Str (job_version j)), (''api_url'', Str (job_api_url j)),
       (''platforms'', Arr (map Str (job_platforms j))), (''archs'', Arr (map Str (job_archs j))), (''status'', Str (job_status j))]
      @ (if job_error j = [] then [] else [(''error'', Str (job_error j))])
      @ [(''logs'', Arr (map Str (job_logs j))), (''artifacts'', Arr (map artifact_json (job_artifacts j))),
         (''created_at'', Time_v (job_created j)), (''updated_at'', Time_v (job_updated j))]
      @ (case job_started j of None \<Rightarrow> [] | Some t \<Rightarrow> [(''started_at'', Time_v t)])
      @ (case job_finished j of None \<Rightarrow> [] | Some t \<Rightarrow> [(''finished_at'', Time_v t)]))"

subsection \<open>Validation\<close>

text \<open>The regular expression \<^verbatim>\<open>^[0-9]+(\.[0-9]+){1,3}([\-+][0-9A-Za-z.-]+)?$\<close>: its numeric part is the longest
  prefix of digits and dots, for what follows starts with another character.\<close>

definition version_char :: "char \<Rightarrow> bool" where
  "version_char c \<longleftrightarrow> is_digit c \<or> is_alpha c \<or> c = CHR ''.'' \<or> c = CHR ''-''"

definition agentVersionRegex :: "string \<Rightarrow> bool" where
  "agentVersionRegex s \<longleftrightarrow>
     (let numeric = takeWhile (\<lambda>c. is_digit c \<or> c = CHR ''.'') s; rest = dropWhile (\<lambda>c. is_digit c \<or> c = CHR ''.'') s;
          parts = split_on CHR ''.'' numeric
      in list_all (\<lambda>p. p \<noteq> []) parts \<and> 2 \<le> length parts \<and> length parts \<le> 4
         \<and> (rest = [] \<or> (hd rest = CHR ''-'' \<or> hd rest = CHR ''+'') \<and> tl rest \<noteq> [] \<and> list_all version_char (tl rest)))"

fun unique_from :: "string list \<Rightarrow> string list \<Rightarrow> string list" where
  "unique_from seen [] = []"
| "unique_from seen (v # vs) =
     (let value = trim_space v
      in if value = [] \<or> value \<in> set seen then unique_from seen vs else value # unique_from (value # seen) vs)"

definition uniqueStrings :: "string list \<Rightarrow> string list" where "uniqueStrings vs = unique_from [] vs"

definition artifactSuffix :: "string \<Rightarrow> string \<Rightarrow> string" where
  "artifactSuffix platform arch =
     (if (platform, arch) \<in> {(''darwin'', ''amd64''), (''darwin'', ''arm64''), (''linux'', ''amd64''), (''linux'', ''arm64'')}
      then platform @ ''-'' @ arch
      else if platform = ''windows'' \<and> (arch = ''amd64'' \<or> arch = ''arm64'') then ''windows-'' @ arch @ ''.exe''
      else [])"

text \<open>\<open>Inl\<close> is the error text, \<open>Inr\<close> the request as the checks leave it.\<close>

definition validateAgentBuildRequest :: "AgentBuildRequest \<Rightarrow> string + AgentBuildRequest" where
  "validateAgentBuildRequest req =
     (let version = trim_space (req_version req); api = trim_space (req_api_url req)
      in if \<not> agentVersionRegex version then Inl ''version must look like 1.2.3''
         else (case url_parse api of
             None \<Rightarrow> Inl ''api_url must be a valid http(s) URL''
           | Some u \<Rightarrow>
             if u_scheme u = [] \<or> u_host u = [] \<or> (u_scheme u \<noteq> ''https'' \<and> u_scheme u \<noteq> ''http'')
             then Inl ''api_url must be a valid http(s) URL''
             else let platforms = uniqueStrings (req_platforms req); archs = uniqueStrings (req_archs req)
               in if platforms = [] then Inl ''choose at least one platform''
                  else if archs = [] then Inl ''choose at least one architecture''
                  else (case find (\<lambda>p. \<not> validAgentOS p) platforms of Some p \<Rightarrow> Inl (''unsupported platform: '' @ p)
                  | None \<Rightarrow> (case find (\<lambda>a. \<not> validAgentArch a) archs of Some a \<Rightarrow> Inl (''unsupported architecture: '' @ a)
                  | None \<Rightarrow> (case find (\<lambda>(p, a). artifactSuffix p a = []) (List.product platforms archs) of
                        Some (p, a) \<Rightarrow> Inl (''unsupported build target: '' @ p @ ''/'' @ a)
                      | None \<Rightarrow> Inr \<lparr>req_version = version, req_api_url = trim_right_char CHR ''/'' api,
                                    req_platforms = platforms, req_archs = archs\<rparr>)))))"

text \<open>\<open>https\<close>: the request came over TLS.\<close>

definition publicAPIURLFromRequest :: "(string \<Rightarrow> string) \<Rightarrow> (string \<Rightarrow> string) \<Rightarrow> bool \<Rightarrow> string \<Rightarrow> string" where
  "publicAPIURLFromRequest env header https host =
     (let configured = trim_right_char CHR ''/'' (trim_space (env ''PUBLIC_API_URL''))
      in if configured \<noteq> [] then configured
         else let proto = (if header ''X-Forwarded-Proto'' \<noteq> [] then header ''X-Forwarded-Proto'' else if https then ''https'' else ''http'');
                  h = (if header ''X-Forwarded-Host'' \<noteq> [] then header ''X-Forwarded-Host'' else host)
              in trim_right_char CHR ''/'' (proto @ ''://'' @ h))"

definition validateAgentReleaseS3Config :: "(string \<Rightarrow> string) \<Rightarrow> string option" where
  "validateAgentReleaseS3Config env =
     (if agentReleaseBucketName env = [] then Some ''agent release S3 bucket is not configured'' else None)"

subsection \<open>The handlers\<close>

text \<open>\<open>fresh\<close> is the new object id, \<open>public\<close> the URL for a request that names none. The job that is started,
  if any, is part of the result.\<close>

definition createAgentBuildJob ::
  "(string \<Rightarrow> string) \<Rightarrow> (nat \<Rightarrow> string) \<Rightarrow> ('j, AgentBuildJob) driver \<Rightarrow> string \<Rightarrow> AgentBuildRequest option \<Rightarrow> nat \<Rightarrow> gotime \<Rightarrow> 'j
     \<Rightarrow> (response \<times> nat option \<times> audit list) \<times> 'j" where
  "createAgentBuildJob env hex JD public body fresh now jobs =
     (case body of None \<Rightarrow> ((HttpError 400 ''Bad JSON'', None, []), jobs)
      | Some req0 \<Rightarrow>
        (case validateAgentBuildRequest (if req_api_url req0 = [] then req0\<lparr>req_api_url := public\<rparr> else req0) of
           Inl err \<Rightarrow> ((HttpError 400 err, None, []), jobs)
         | Inr req \<Rightarrow>
           (case validateAgentReleaseS3Config env of
              Some err \<Rightarrow> ((HttpError 503 err, None, []), jobs)
            | None \<Rightarrow>
              let job = \<lparr>job_id = fresh, job_version = req_version req, job_api_url = req_api_url req,
                    job_platforms = req_platforms req, job_archs = req_archs req, job_status = ''queued'', job_error = [],
                    job_logs = [''Queued build''], job_artifacts = [], job_created = now, job_updated = now,
                    job_started = None, job_finished = None\<rparr>
              in (case insert_one JD jobs job of (jobs', ok) \<Rightarrow>
                    if \<not> ok then ((HttpError 500 ''Database error'', None, []), jobs')
                    else ((Json 202 (job_json hex job), Some fresh,
                           [(''release.build_started'', job_version job, join_parts CHR '','' (job_platforms job))]), jobs')))))"

definition listAgentBuildJobs :: "(nat \<Rightarrow> string) \<Rightarrow> ('j, AgentBuildJob) driver \<Rightarrow> 'j \<Rightarrow> response" where
  "listAgentBuildJobs hex JD jobs =
     (case find_docs JD jobs (\<lambda>_. True) of
        None \<Rightarrow> HttpError 500 ''Database error''
      | Some js \<Rightarrow> Json 200 (Obj [(''jobs'', Arr (map (job_json hex) (take 20 (sort_key (\<lambda>j. - inst (job_created j)) js))))]))"

definition agentBuildsHandler ::
  "(string \<Rightarrow> string) \<Rightarrow> (nat \<Rightarrow> string) \<Rightarrow> ('j, AgentBuildJob) driver \<Rightarrow> string \<Rightarrow> string \<Rightarrow> AgentBuildRequest option \<Rightarrow> nat \<Rightarrow> gotime \<Rightarrow> 'j
     \<Rightarrow> (response \<times> nat option \<times> audit list) \<times> 'j" where
  "agentBuildsHandler env hex JD meth public body fresh now jobs =
     (if meth = ''GET'' then ((listAgentBuildJobs hex JD jobs, None, []), jobs)
      else if meth = ''POST'' then createAgentBuildJob env hex JD public body fresh now jobs
      else ((HttpError 405 ''Method not allowed'', None, []), jobs))"

subsection \<open>The world of a run\<close>

text \<open>Running a command gives its output and, when it failed, the error text; a put gives the error text.
  \<open>bh_insert\<close> is \<^verbatim>\<open>InsertMany\<close> on the releases.\<close>

record ('w, 'r) build_host =
  bh_now :: "'w \<Rightarrow> gotime"
  bh_tempdir :: "'w \<Rightarrow> (string + string) \<times> 'w"
  bh_stat :: "string \<Rightarrow> 'w \<Rightarrow> int option"
  bh_read :: "string \<Rightarrow> 'w \<Rightarrow> string option"
  bh_sha256 :: "string \<Rightarrow> string"
  bh_run :: "string list \<Rightarrow> 'w \<Rightarrow> (string \<times> string option) \<times> 'w"
  bh_aws :: "'w \<Rightarrow> string option"
  bh_put :: "string \<Rightarrow> string \<Rightarrow> string \<Rightarrow> string \<Rightarrow> 'w \<Rightarrow> string option \<times> 'w"  \<comment> \<open>bucket, key, body, type\<close>
  bh_escape :: "string \<Rightarrow> string"  \<comment> \<open>\<^verbatim>\<open>url.PathEscape\<close> with the slashes kept\<close>
  bh_insert :: "'r \<Rightarrow> AgentRelease list \<Rightarrow> 'r \<times> string option"

definition trimBuildOutput :: "string \<Rightarrow> string" where
  "trimBuildOutput out =
     (let o1 = trim_space out in if length o1 \<le> 4000 then o1 else drop (length o1 - 4000) o1)"

definition setAgentBuildJob :: "('j, AgentBuildJob) driver \<Rightarrow> nat \<Rightarrow> (AgentBuildJob \<Rightarrow> AgentBuildJob) \<Rightarrow> 'j \<Rightarrow> 'j" where
  "setAgentBuildJob JD jid f jobs = fst (update_one JD jobs (\<lambda>j. job_id j = jid) f)"

definition appendAgentBuildLog :: "('j, AgentBuildJob) driver \<Rightarrow> nat \<Rightarrow> gotime \<Rightarrow> string \<Rightarrow> 'j \<Rightarrow> 'j" where
  "appendAgentBuildLog JD jid now msg0 jobs =
     (let msg = trim_space msg0
      in if msg = [] then jobs
         else fst (update_one JD jobs (\<lambda>j. job_id j = jid) (\<lambda>j. j\<lparr>job_updated := now, job_logs := job_logs j @ [msg]\<rparr>)))"

definition failAgentBuildJob :: "('j, AgentBuildJob) driver \<Rightarrow> nat \<Rightarrow> gotime \<Rightarrow> string \<Rightarrow> 'j \<Rightarrow> 'j" where
  "failAgentBuildJob JD jid now msg jobs =
     appendAgentBuildLog JD jid now (''Failed: '' @ msg)
       (setAgentBuildJob JD jid (\<lambda>j. j\<lparr>job_status := ''failed'', job_error := msg, job_finished := Some now, job_updated := now\<rparr>) jobs)"

subsection \<open>Building\<close>

definition buildLinuxDebPackage :: "('w, 'r) build_host \<Rightarrow> string \<Rightarrow> string \<Rightarrow> string \<Rightarrow> string \<Rightarrow> 'w \<Rightarrow> string option \<times> 'w" where
  "buildLinuxDebPackage H buildRoot distDir version arch w =
     (let script = path_join CHR ''/'' [buildRoot, ''packaging'', ''linux'', ''build_deb.sh'']
      in if bh_stat H script w = None then (Some (''deb package script not found at '' @ script), w)
         else (case bh_run H [''bash'', script, version, distDir, arch] w of
                 ((out, None), w1) \<Rightarrow> (None, w1)
               | ((out, Some err), w1) \<Rightarrow>
                   (Some (''deb package '' @ arch @ '' failed: '' @ err @ '': '' @ trimBuildOutput out), w1)))"

fun build_debs ::
  "('j, AgentBuildJob) driver \<Rightarrow> ('w, 'r) build_host \<Rightarrow> nat \<Rightarrow> string \<Rightarrow> string \<Rightarrow> string \<Rightarrow> string list \<Rightarrow> 'j \<times> 'w
     \<Rightarrow> string option \<times> 'j \<times> 'w" where
  "build_debs JD H jid broot out_dir version [] st = (None, st)"
| "build_debs JD H jid broot out_dir version (arch # archs) st =
     (case st of (jobs, w) \<Rightarrow>
      (case buildLinuxDebPackage H broot out_dir version arch w of
         (Some err, w1) \<Rightarrow> (Some err, jobs, w1)
       | (None, w1) \<Rightarrow>
           build_debs JD H jid broot out_dir version archs
             (appendAgentBuildLog JD jid (bh_now H w1) (''Built Linux .deb package for '' @ arch) jobs, w1)))"

fun build_platforms ::
  "('j, AgentBuildJob) driver \<Rightarrow> ('w, 'r) build_host \<Rightarrow> AgentBuildJob \<Rightarrow> string \<Rightarrow> string \<Rightarrow> string \<Rightarrow> string list \<Rightarrow> 'j \<times> 'w
     \<Rightarrow> string option \<times> 'j \<times> 'w" where
  "build_platforms JD H job broot script out_dir [] st = (None, st)"
| "build_platforms JD H job broot script out_dir (platform # platforms) st =
     (case st of (jobs, w) \<Rightarrow>
      let jid = job_id job;
          jobs1 = appendAgentBuildLog JD jid (bh_now H w) (''Building '' @ platform @ '' targets'') jobs
      in (case bh_run H [''bash'', script, ''--version'', job_version job, ''--api-url'', job_api_url job, ''--platform'', platform] w of
            ((out, err), w1) \<Rightarrow>
              let jobs2 = (if out \<noteq> [] then appendAgentBuildLog JD jid (bh_now H w1) (trimBuildOutput out) jobs1 else jobs1)
              in (case err of
                    Some e \<Rightarrow> (Some (''build '' @ platform @ '' failed: '' @ e), jobs2, w1)
                  | None \<Rightarrow>
                    if platform = ''linux'' then
                      (case build_debs JD H jid broot out_dir (job_version job) (job_archs job) (jobs2, w1) of
                         (Some e, st2) \<Rightarrow> (Some e, st2)
                       | (None, st2) \<Rightarrow> build_platforms JD H job broot script out_dir platforms st2)
                    else build_platforms JD H job broot script out_dir platforms (jobs2, w1))))"

subsection \<open>Uploading\<close>

definition agentReleasePublicURL :: "(string \<Rightarrow> string) \<Rightarrow> string \<Rightarrow> string \<Rightarrow> string \<Rightarrow> string" where
  "agentReleasePublicURL esc publicBase bucket key =
     (if publicBase \<noteq> [] then publicBase @ ''/'' @ esc key else ''https://'' @ bucket @ ''.s3.amazonaws.com/'' @ esc key)"

definition agentArtifactContentType :: "string \<Rightarrow> string" where
  "agentArtifactContentType f =
     (if has_suffix f ''.deb'' then ''application/vnd.debian.binary-package''
      else if has_suffix f ''.rpm'' then ''application/x-rpm'' else ''application/octet-stream'')"

definition packageArtifactNames :: "string \<Rightarrow> string \<Rightarrow> string \<Rightarrow> string list" where
  "packageArtifactNames version platform arch =
     (if platform \<noteq> ''linux'' then [] else [''devicepulse-agent_'' @ version @ ''_'' @ arch @ ''.deb''])"

text \<open>The bucket, the prefix and the public base, or why there is no client.\<close>

definition agentReleaseS3Client :: "(string \<Rightarrow> string) \<Rightarrow> ('w, 'r) build_host \<Rightarrow> 'w \<Rightarrow> string + string \<times> string \<times> string" where
  "agentReleaseS3Client env H w =
     (if agentReleaseBucketName env = [] then Inl ''agent release S3 bucket is not configured''
      else (case bh_aws H w of Some err \<Rightarrow> Inl (''AWS config error: '' @ err)
            | None \<Rightarrow> Inr (agentReleaseBucketName env, release_prefix env,
                trim_right_char CHR ''/'' (trim_space (env ''AGENT_RELEASE_PUBLIC_BASE_URL'')))))"

definition artifact_key :: "string \<Rightarrow> string \<Rightarrow> string \<Rightarrow> string \<Rightarrow> string \<Rightarrow> string" where
  "artifact_key pre version platform arch file =
     (let p = trim_char CHR ''/'' (trim_space pre)
      in (if p = [] then [] else p @ ''/'') @ version @ ''/'' @ platform @ ''/'' @ arch @ ''/'' @ file)"

text \<open>\<open>Inr None\<close>: an optional file that is not there. The file is read twice, for its checksum and for the
  upload; nothing writes it in between.\<close>

definition uploadAgentArtifactFile ::
  "('w, 'r) build_host \<Rightarrow> string \<times> string \<times> string \<Rightarrow> string \<Rightarrow> string \<Rightarrow> string \<times> string \<Rightarrow> string \<Rightarrow> string \<Rightarrow> bool \<Rightarrow> 'w
     \<Rightarrow> (string + AgentBuildArtifact option) \<times> 'w" where
  "uploadAgentArtifactFile H client distDir version target kind fileName required w =
     (case client of (bucket, pre, publicBase) \<Rightarrow>
      (case target of (platform, arch) \<Rightarrow>
        let path = path_join CHR ''/'' [distDir, fileName]; key = artifact_key pre version platform arch fileName
        in (case bh_stat H path w of
              None \<Rightarrow> (if required then Inl (''expected artifact missing: '' @ fileName) else Inr None, w)
            | Some sz \<Rightarrow>
              (case bh_read H path w of
                 None \<Rightarrow> (Inl (''checksum '' @ fileName), w)
               | Some content \<Rightarrow>
                 (case bh_put H bucket key content (agentArtifactContentType fileName) w of
                    (Some err, w1) \<Rightarrow> (Inl (''upload '' @ fileName @ '': '' @ err), w1)
                  | (None, w1) \<Rightarrow>
                      (Inr (Some \<lparr>art_os = platform, art_arch = arch, art_kind = kind, art_file = fileName, art_key = key,
                         art_url = agentReleasePublicURL (bh_escape H) publicBase bucket key,
                         art_checksum = bh_sha256 H content, art_size = sz\<rparr>), w1))))))"

fun upload_packages ::
  "('w, 'r) build_host \<Rightarrow> string \<times> string \<times> string \<Rightarrow> string \<Rightarrow> string \<Rightarrow> string \<times> string \<Rightarrow> string list \<Rightarrow> 'w
     \<Rightarrow> (string + AgentBuildArtifact list) \<times> 'w" where
  "upload_packages H client out_dir version target [] w = (Inr [], w)"
| "upload_packages H client out_dir version target (f # fs) w =
     (case uploadAgentArtifactFile H client out_dir version target ''package'' f False w of
        (Inl err, w1) \<Rightarrow> (Inl err, w1)
      | (Inr a, w1) \<Rightarrow>
          (case upload_packages H client out_dir version target fs w1 of
             (Inl err, w2) \<Rightarrow> (Inl err, w2)
           | (Inr as, w2) \<Rightarrow> (Inr ((case a of Some x \<Rightarrow> if art_file x \<noteq> [] then [x] else [] | None \<Rightarrow> []) @ as), w2)))"

fun upload_targets ::
  "('w, 'r) build_host \<Rightarrow> string \<times> string \<times> string \<Rightarrow> string \<Rightarrow> string \<Rightarrow> (string \<times> string) list \<Rightarrow> 'w
     \<Rightarrow> (string + AgentBuildArtifact list) \<times> 'w" where
  "upload_targets H client out_dir version [] w = (Inr [], w)"
| "upload_targets H client out_dir version ((p, a) # targets) w =
     (let suf = artifactSuffix p a in
      if suf = [] then upload_targets H client out_dir version targets w
      else (case uploadAgentArtifactFile H client out_dir version (p, a) ''binary'' (''devicepulse-agent-'' @ version @ ''-'' @ suf) True w of
              (Inl err, w1) \<Rightarrow> (Inl err, w1)
            | (Inr b, w1) \<Rightarrow>
              (case upload_packages H client out_dir version (p, a) (packageArtifactNames version p a) w1 of
                 (Inl err, w2) \<Rightarrow> (Inl err, w2)
               | (Inr ps, w2) \<Rightarrow>
                 (case upload_targets H client out_dir version targets w2 of
                    (Inl err, w3) \<Rightarrow> (Inl err, w3)
                  | (Inr rest, w3) \<Rightarrow> (Inr ((case b of Some x \<Rightarrow> [x] | None \<Rightarrow> []) @ ps @ rest), w3)))))"

definition uploadAgentBuildArtifacts ::
  "(string \<Rightarrow> string) \<Rightarrow> ('w, 'r) build_host \<Rightarrow> AgentBuildJob \<Rightarrow> string \<Rightarrow> 'w \<Rightarrow> (string + AgentBuildArtifact list) \<times> 'w" where
  "uploadAgentBuildArtifacts env H job out_dir w =
     (case agentReleaseS3Client env H w of
        Inl err \<Rightarrow> (Inl err, w)
      | Inr client \<Rightarrow>
        (case upload_targets H client out_dir (job_version job) (List.product (job_platforms job) (job_archs job)) w of
           (Inl err, w1) \<Rightarrow> (Inl err, w1)
         | (Inr as, w1) \<Rightarrow> (if as = [] then Inl ''no artifacts were produced'' else Inr as, w1)))"

subsection \<open>Publishing\<close>

definition artifact_release ::
  "(string \<Rightarrow> string) \<Rightarrow> release_crypto \<Rightarrow> string \<Rightarrow> gotime \<Rightarrow> AgentBuildArtifact \<Rightarrow> AgentRelease" where
  "artifact_release env C version now a =
     \<lparr>rel_version = version, rel_os = art_os a, rel_arch = art_arch a, rel_url = art_url a, rel_s3 = art_key a,
      rel_checksum = art_checksum a, rel_published = now, rel_pending = releasesRequireActivation env,
      rel_signature = (case signingKeyFromEnv C env of None \<Rightarrow> []
        | Some key \<Rightarrow> b64_encode C (ed_sign C key (releaseSigningMessage version (art_os a) (art_arch a) (art_checksum a))))\<rparr>"

definition publishAgentArtifacts ::
  "(string \<Rightarrow> string) \<Rightarrow> release_crypto \<Rightarrow> ('w, 'r) build_host \<Rightarrow> string \<Rightarrow> AgentBuildArtifact list \<Rightarrow> gotime \<Rightarrow> 'r
     \<Rightarrow> string option \<times> 'r" where
  "publishAgentArtifacts env C H version artifacts now releases =
     (let docs = map (artifact_release env C version now) (filter (\<lambda>a. art_kind a = [] \<or> art_kind a = ''binary'') artifacts)
      in if docs = [] then (Some ''no binary artifacts were produced'', releases)
         else (case bh_insert H releases docs of
                 (rs, None) \<Rightarrow> (None, rs)
               | (rs, Some err) \<Rightarrow> (Some (''publish release metadata: '' @ err), rs)))"

subsection \<open>A run\<close>

text \<open>What comes after the build scripts; the flag says whether the job was published.\<close>

definition upload_and_publish ::
  "(string \<Rightarrow> string) \<Rightarrow> release_crypto \<Rightarrow> ('j, AgentBuildJob) driver \<Rightarrow> ('w, 'r) build_host \<Rightarrow> AgentBuildJob \<Rightarrow> string
     \<Rightarrow> 'j \<times> 'r \<times> 'w \<Rightarrow> bool \<times> 'j \<times> 'r \<times> 'w" where
  "upload_and_publish env C JD H job out_dir st =
     (case st of (jobs0, releases, w) \<Rightarrow>
      let jid = job_id job; t = bh_now H w;
          jobs1 = setAgentBuildJob JD jid (\<lambda>j. j\<lparr>job_status := ''uploading'', job_updated := t\<rparr>) jobs0;
          jobs2 = appendAgentBuildLog JD jid t ''Uploading artifacts to S3'' jobs1
      in (case uploadAgentBuildArtifacts env H job out_dir w of
            (Inl err, w1) \<Rightarrow> (False, failAgentBuildJob JD jid (bh_now H w1) err jobs2, releases, w1)
          | (Inr artifacts, w1) \<Rightarrow>
            let t1 = bh_now H w1;
                jobs3 = setAgentBuildJob JD jid (\<lambda>j. j\<lparr>job_status := ''publishing'', job_artifacts := artifacts, job_updated := t1\<rparr>) jobs2
            in (case publishAgentArtifacts env C H (job_version job) artifacts t1 releases of
                  (Some err, releases1) \<Rightarrow> (False, failAgentBuildJob JD jid t1 err jobs3, releases1, w1)
                | (None, releases1) \<Rightarrow>
                    (True, appendAgentBuildLog JD jid t1 ''Published release metadata''
                       (setAgentBuildJob JD jid (\<lambda>j. j\<lparr>job_status := ''published'', job_finished := Some t1, job_updated := t1\<rparr>) jobs3),
                     releases1, w1))))"

definition runAgentBuildJob ::
  "(string \<Rightarrow> string) \<Rightarrow> release_crypto \<Rightarrow> ('j, AgentBuildJob) driver \<Rightarrow> ('w, 'r) build_host \<Rightarrow> nat
     \<Rightarrow> 'j \<times> 'r \<times> 'w \<Rightarrow> bool \<times> 'j \<times> 'r \<times> 'w" where
  "runAgentBuildJob env C JD H jid st =
     (case st of (jobs0, releases, w) \<Rightarrow>
      (case find_one JD jobs0 (\<lambda>j. job_id j = jid) (\<lambda>_. 0) of
         None \<Rightarrow> (False, jobs0, releases, w)
       | Some job \<Rightarrow>
         let started = bh_now H w;
             jobs1 = setAgentBuildJob JD jid (\<lambda>j. j\<lparr>job_status := ''building'', job_started := Some started, job_updated := started\<rparr>) jobs0;
             jobs2 = appendAgentBuildLog JD jid started ''Build started'' jobs1
         in (case bh_tempdir H w of
               (Inl err, w1) \<Rightarrow> (False, failAgentBuildJob JD jid (bh_now H w1) (''create temp dir: '' @ err) jobs2, releases, w1)
             | (Inr out_dir, w1) \<Rightarrow>
               let broot = (if trim_space (env ''AGENT_BUILD_ROOT'') = [] then ''.'' else trim_space (env ''AGENT_BUILD_ROOT''));
                   script = path_join CHR ''/'' [broot, ''packaging'', ''build.sh'']
               in if bh_stat H script w1 = None
                  then (False, failAgentBuildJob JD jid (bh_now H w1) (''build script not found at '' @ script) jobs2, releases, w1)
                  else (case build_platforms JD H job broot script out_dir (job_platforms job) (jobs2, w1) of
                          (Some err, jobs3, w2) \<Rightarrow> (False, failAgentBuildJob JD jid (bh_now H w2) err jobs3, releases, w2)
                        | (None, jobs3, w2) \<Rightarrow> upload_and_publish env C JD H job out_dir (jobs3, releases, w2)))))"
subsection \<open>What a run publishes\<close>

text \<open>\<open>objects\<close> is the content of the buckets, \<open>published\<close> the releases a collection holds. The scripts do
  not write to the bucket; a put that succeeds stores the body under its key and touches nothing else;
  \<^verbatim>\<open>InsertMany\<close> inserts in order, all of it when it succeeds.\<close>

definition build_laws ::
  "('w, 'r) build_host \<Rightarrow> ('w \<Rightarrow> string \<times> string \<Rightarrow> string option) \<Rightarrow> ('r \<Rightarrow> AgentRelease list) \<Rightarrow> bool" where
  "build_laws H objects published \<longleftrightarrow>
     (\<forall>argv w. objects (snd (bh_run H argv w)) = objects w)
     \<and> (\<forall>w. objects (snd (bh_tempdir H w)) = objects w)
     \<and> (\<forall>b k c t w. fst (bh_put H b k c t w) = None \<longrightarrow> objects (snd (bh_put H b k c t w)) (b, k) = Some c)
     \<and> (\<forall>b k c t w x. x \<noteq> (b, k) \<longrightarrow> objects (snd (bh_put H b k c t w)) x = objects w x)
     \<and> (\<forall>rs docs. \<exists>n. published (fst (bh_insert H rs docs)) = published rs @ take n docs
          \<and> (snd (bh_insert H rs docs) = None \<longrightarrow> length docs \<le> n))"

lemma build_lawsD:
  assumes "build_laws H objects published"
  shows "objects (snd (bh_run H argv w)) = objects w" "objects (snd (bh_tempdir H w)) = objects w"
    "fst (bh_put H b k c t w) = None \<Longrightarrow> objects (snd (bh_put H b k c t w)) (b, k) = Some c"
    "x \<noteq> (b, k) \<Longrightarrow> objects (snd (bh_put H b k c t w)) x = objects w x"
    "\<exists>n. published (fst (bh_insert H rs docs)) = published rs @ take n docs
       \<and> (snd (bh_insert H rs docs) = None \<longrightarrow> length docs \<le> n)"
  using assms by (cases x; simp_all add: build_laws_def)+

definition stored ::
  "('w, 'r) build_host \<Rightarrow> ('w \<Rightarrow> string \<times> string \<Rightarrow> string option) \<Rightarrow> string \<Rightarrow> 'w \<Rightarrow> AgentBuildArtifact \<Rightarrow> bool" where
  "stored H objects bucket w a \<longleftrightarrow> (\<exists>c. objects w (bucket, art_key a) = Some c \<and> art_checksum a = bh_sha256 H c)"

definition changed_only ::
  "('w \<Rightarrow> string \<times> string \<Rightarrow> string option) \<Rightarrow> string \<Rightarrow> string set \<Rightarrow> 'w \<Rightarrow> 'w \<Rightarrow> bool" where
  "changed_only objects bucket K w w' \<longleftrightarrow> (\<forall>b k. b \<noteq> bucket \<or> k \<notin> K \<longrightarrow> objects w' (b, k) = objects w (b, k))"

lemma changed_refl: "changed_only objects bucket K w w"
  by (simp add: changed_only_def)

lemma changed_trans:
  "changed_only objects bucket K w w1 \<Longrightarrow> changed_only objects bucket L w1 w2 \<Longrightarrow> K \<union> L \<subseteq> M \<Longrightarrow> changed_only objects bucket M w w2"
  unfolding changed_only_def by (metis Un_subset_iff subsetD)

lemma changed_mono: "changed_only objects bucket K w w1 \<Longrightarrow> K \<subseteq> M \<Longrightarrow> changed_only objects bucket M w w1"
  unfolding changed_only_def by (metis subsetD)

lemma stored_kept: "stored H objects bucket w a \<Longrightarrow> changed_only objects bucket K w w' \<Longrightarrow> art_key a \<notin> K \<Longrightarrow> stored H objects bucket w' a"
  by (simp add: stored_def changed_only_def)

definition plain_name :: "string \<Rightarrow> bool" where "plain_name s \<longleftrightarrow> CHR ''/'' \<notin> set s"

lemma artifact_key_inj:
  assumes "artifact_key pre v p a f = artifact_key pre v p' a' f'" "plain_name p" "plain_name a" "plain_name p'" "plain_name a'"
  shows "p = p' \<and> a = a' \<and> f = f'"
proof -
  have "p @ CHR ''/'' # a @ CHR ''/'' # f = p' @ CHR ''/'' # a' @ CHR ''/'' # f'"
    using assms(1) by (simp add: artifact_key_def Let_def split: if_splits)
  then have "p = p' \<and> a @ CHR ''/'' # f = a' @ CHR ''/'' # f'"
    by (rule sep_left) (use assms(2,4) in \<open>simp_all add: plain_name_def\<close>)
  moreover have "a = a' \<and> f = f'" if "a @ CHR ''/'' # f = a' @ CHR ''/'' # f'"
    by (rule sep_left [OF that]) (use assms(3,5) in \<open>simp_all add: plain_name_def\<close>)
  ultimately show ?thesis by blast
qed

definition target_keys :: "string \<Rightarrow> string \<Rightarrow> (string \<times> string) \<Rightarrow> string set" where
  "target_keys pre v t = range (artifact_key pre v (fst t) (snd t))"

lemma target_keys_apart:
  "t \<noteq> t' \<Longrightarrow> plain_name (fst t) \<Longrightarrow> plain_name (snd t) \<Longrightarrow> plain_name (fst t') \<Longrightarrow> plain_name (snd t')
    \<Longrightarrow> target_keys pre v t \<inter> target_keys pre v t' = {}"
  unfolding target_keys_def by (auto dest!: artifact_key_inj simp: prod_eq_iff)

lemma upload_file_facts:
  assumes "build_laws H objects published"
    "uploadAgentArtifactFile H (bucket, pre, base) out_dir v (p, a) kind f req w = (r, w1)"
  shows "changed_only objects bucket {artifact_key pre v p a f} w w1"
    "r = Inr (Some x) \<Longrightarrow> art_os x = p \<and> art_arch x = a \<and> art_kind x = kind \<and> art_file x = f
       \<and> art_key x = artifact_key pre v p a f \<and> stored H objects bucket w1 x"
    "req \<Longrightarrow> r \<noteq> Inr None"
proof -
  have put: "fst (bh_put H bucket k c t w) = None \<Longrightarrow> objects (snd (bh_put H bucket k c t w)) (bucket, k) = Some c"
      "y \<noteq> (bucket, k) \<Longrightarrow> objects (snd (bh_put H bucket k c t w)) y = objects w y" for k c t y
    by (rule build_lawsD [OF assms(1)], assumption)+
  have "w1 = w \<or> (\<exists>c. w1 = snd (bh_put H bucket (artifact_key pre v p a f) c (agentArtifactContentType f) w))"
    using assms(2) by (auto simp: uploadAgentArtifactFile_def Let_def split: option.splits prod.splits if_splits) (metis snd_conv)+
  then show "changed_only objects bucket {artifact_key pre v p a f} w w1"
    using put(2) by (auto simp: changed_only_def)
  show "r = Inr (Some x) \<Longrightarrow> art_os x = p \<and> art_arch x = a \<and> art_kind x = kind \<and> art_file x = f
       \<and> art_key x = artifact_key pre v p a f \<and> stored H objects bucket w1 x"
    using assms(2) put(1) unfolding uploadAgentArtifactFile_def Let_def stored_def
    by (auto split: option.splits prod.splits if_splits) (metis fst_conv snd_conv)
  show "req \<Longrightarrow> r \<noteq> Inr None"
    using assms(2) by (auto simp: uploadAgentArtifactFile_def Let_def split: option.splits prod.splits if_splits)
qed

lemma upload_packages_facts:
  assumes "build_laws H objects published" "upload_packages H (bucket, pre, base) out_dir v (p, a) fs w = (r, w1)"
  shows "changed_only objects bucket (artifact_key pre v p a ` set fs) w w1
    \<and> (\<forall>as. r = Inr as \<longrightarrow> (\<forall>x \<in> set as. art_kind x = ''package''))"
  using assms(2)
proof (induction fs arbitrary: w r w1)
  case Nil
  then show ?case by (auto simp: changed_refl)
next
  case (Cons f fs)
  obtain r0 w2 where u: "uploadAgentArtifactFile H (bucket, pre, base) out_dir v (p, a) ''package'' f False w = (r0, w2)" by fastforce
  note uf = upload_file_facts [OF assms(1) u]
  obtain r3 w3 where g: "upload_packages H (bucket, pre, base) out_dir v (p, a) fs w2 = (r3, w3)" by fastforce
  note ih = Cons.IH [OF g]
  show ?case
  proof (cases r0)
    case (Inl e)
    then have "w1 = w2 \<and> r = Inl e" using Cons.prems u by simp
    then show ?thesis using changed_mono [OF uf(1), of "artifact_key pre v p a ` set (f # fs)"] by simp
  next
    case (Inr x)
    have "changed_only objects bucket (artifact_key pre v p a ` set (f # fs)) w w3"
      using changed_trans [OF uf(1) conjunct1 [OF ih], of "artifact_key pre v p a ` set (f # fs)"] by auto
    moreover have "w1 = w3 \<and> (\<forall>as. r = Inr as \<longrightarrow> (\<exists>as'. r3 = Inr as' \<and> set as \<subseteq> set as' \<union> (case x of None \<Rightarrow> {} | Some y \<Rightarrow> {y})))"
      using Cons.prems u g Inr by (auto split: sum.splits option.splits if_splits)
    moreover have "art_kind y = ''package''" if "x = Some y" for y using uf(2) [of y] Inr that by simp
    ultimately show ?thesis using ih by (fastforce split: option.splits)
  qed
qed

definition binaries :: "AgentBuildArtifact list \<Rightarrow> AgentBuildArtifact list" where
  "binaries as = filter (\<lambda>a. art_kind a = [] \<or> art_kind a = ''binary'') as"

lemma upload_targets_facts:
  assumes "build_laws H objects published" "upload_targets H (bucket, pre, base) out_dir v ts w = (r, w1)"
    "distinct ts" "\<forall>t \<in> set ts. plain_name (fst t) \<and> plain_name (snd t) \<and> artifactSuffix (fst t) (snd t) \<noteq> []"
  shows "changed_only objects bucket (\<Union>t \<in> set ts. target_keys pre v t) w w1
    \<and> (\<forall>as. r = Inr as \<longrightarrow> map (\<lambda>x. (art_os x, art_arch x)) (binaries as) = ts
        \<and> (\<forall>x \<in> set (binaries as). art_key x \<in> target_keys pre v (art_os x, art_arch x) \<and> stored H objects bucket w1 x))"
  using assms(2-4)
proof (induction ts arbitrary: w r w1)
  case Nil
  then show ?case by (auto simp: changed_refl binaries_def)
next
  case (Cons t ts)
  obtain p a where t: "t = (p, a)" by fastforce
  let ?file = "''devicepulse-agent-'' @ v @ ''-'' @ artifactSuffix p a"
  obtain r0 w2 where u: "uploadAgentArtifactFile H (bucket, pre, base) out_dir v (p, a) ''binary'' ?file True w = (r0, w2)" by fastforce
  note uf = upload_file_facts [OF assms(1) u]
  obtain r3 w3 where g: "upload_packages H (bucket, pre, base) out_dir v (p, a) (packageArtifactNames v p a) w2 = (r3, w3)" by fastforce
  note pf = upload_packages_facts [OF assms(1) g]
  obtain r4 w4 where h: "upload_targets H (bucket, pre, base) out_dir v ts w3 = (r4, w4)" by fastforce
  have suf: "artifactSuffix p a \<noteq> []" using Cons.prems(3) t by simp
  have step: "upload_targets H (bucket, pre, base) out_dir v (t # ts) w = (case r0 of Inl e \<Rightarrow> (Inl e, w2)
      | Inr b \<Rightarrow> (case r3 of Inl e \<Rightarrow> (Inl e, w3) | Inr ps \<Rightarrow> (case r4 of Inl e \<Rightarrow> (Inl e, w4)
        | Inr rest \<Rightarrow> (Inr ((case b of Some x \<Rightarrow> [x] | None \<Rightarrow> []) @ ps @ rest), w4))))"
    using suf u g h t by (simp add: Let_def split: sum.split)
  have ih: "changed_only objects bucket (\<Union>t \<in> set ts. target_keys pre v t) w3 w4
      \<and> (\<forall>as. r4 = Inr as \<longrightarrow> map (\<lambda>x. (art_os x, art_arch x)) (binaries as) = ts
        \<and> (\<forall>x \<in> set (binaries as). art_key x \<in> target_keys pre v (art_os x, art_arch x) \<and> stored H objects bucket w4 x))"
    using Cons.IH [OF h] Cons.prems(2,3) by simp
  have k1: "{artifact_key pre v p a ?file} \<subseteq> target_keys pre v t" "artifact_key pre v p a ` set (packageArtifactNames v p a) \<subseteq> target_keys pre v t"
    by (auto simp: target_keys_def t)
  have c3: "changed_only objects bucket (target_keys pre v t) w w3"
    using changed_trans [OF uf(1) conjunct1 [OF pf]] k1 by simp
  have c2: "changed_only objects bucket (target_keys pre v t) w w2" by (rule changed_mono [OF uf(1) k1(1)])
  have c4: "changed_only objects bucket (\<Union>t \<in> set (t # ts). target_keys pre v t) w w4"
    using changed_trans [OF c3 conjunct1 [OF ih]] by simp
  have w1: "w1 = w2 \<or> w1 = w3 \<or> w1 = w4" using Cons.prems(1) step by (auto split: sum.splits)
  have ch: "changed_only objects bucket (\<Union>t \<in> set (t # ts). target_keys pre v t) w w1"
    using w1 c4 changed_mono [OF c3] changed_mono [OF c2] by (metis UN_upper list.set_intros(1))
  show ?case
  proof (intro conjI allI impI ballI)
    show "changed_only objects bucket (\<Union>t \<in> set (t # ts). target_keys pre v t) w w1" by (rule ch)
    fix as
    assume "r = Inr as"
    then obtain b ps rest where e: "r0 = Inr b" "r3 = Inr ps" "r4 = Inr rest" "w1 = w4"
        "as = (case b of Some x \<Rightarrow> [x] | None \<Rightarrow> []) @ ps @ rest"
      using Cons.prems(1) step by (auto split: sum.splits)
    obtain x where x: "b = Some x" using uf(3) e(1) by auto
    note xf = uf(2) [of x, unfolded e(1) x, OF refl]
    have ps: "filter (\<lambda>a. art_kind a = [] \<or> art_kind a = ''binary'') ps = []"
      using pf e(2) by (auto simp: filter_empty_conv)
    then have bin: "binaries as = x # binaries rest" using e(5) x xf by (simp add: binaries_def)
    have "stored H objects bucket w3 x"
    proof (rule stored_kept [OF _ conjunct1 [OF pf]])
      show "stored H objects bucket w2 x" using xf by blast
      have "?file \<notin> set (packageArtifactNames v p a)" by (simp add: packageArtifactNames_def)
      then show "art_key x \<notin> artifact_key pre v p a ` set (packageArtifactNames v p a)"
        using xf Cons.prems(3) t by (auto dest!: artifact_key_inj)
    qed
    then have sx: "stored H objects bucket w4 x"
    proof (rule stored_kept [OF _ conjunct1 [OF ih]])
      have "target_keys pre v t \<inter> target_keys pre v t' = {}" if "t' \<in> set ts" for t'
        using that Cons.prems(2,3) by (intro target_keys_apart) auto
      moreover have "art_key x \<in> target_keys pre v t" using xf t by (auto simp: target_keys_def)
      ultimately show "art_key x \<notin> (\<Union>t \<in> set ts. target_keys pre v t)" by blast
    qed
    show "map (\<lambda>x. (art_os x, art_arch x)) (binaries as) = t # ts" using bin ih e(3) xf t by simp
    show "\<And>y. y \<in> set (binaries as) \<Longrightarrow> art_key y \<in> target_keys pre v (art_os y, art_arch y)"
      using bin ih e(3) xf by (auto simp: target_keys_def)
    show "\<And>y. y \<in> set (binaries as) \<Longrightarrow> stored H objects bucket w1 y"
      using bin ih e(3,4) sx by auto
  qed
qed
definition job_ok :: "AgentBuildJob \<Rightarrow> bool" where
  "job_ok job \<longleftrightarrow> distinct (job_platforms job) \<and> distinct (job_archs job) \<and> job_platforms job \<noteq> [] \<and> job_archs job \<noteq> []
     \<and> agentVersionRegex (job_version job)
     \<and> (\<forall>p \<in> set (job_platforms job). \<forall>a \<in> set (job_archs job). validAgentOS p \<and> validAgentArch a \<and> artifactSuffix p a \<noteq> [])"

lemma suffix_plain: "artifactSuffix p a \<noteq> [] \<Longrightarrow> plain_name p \<and> plain_name a"
  by (auto simp: artifactSuffix_def plain_name_def split: if_splits)

lemma unique_facts: "distinct (unique_from seen vs) \<and> set (unique_from seen vs) \<inter> set seen = {}"
  by (induction seen vs rule: unique_from.induct) (auto simp: Let_def)

lemma build_debs_objects:
  assumes "build_laws H objects published" "build_debs JD H jid broot out_dir v archs (jobs, w) = (r, jobs', w')"
  shows "objects w' = objects w"
  using assms(2)
proof (induction archs arbitrary: jobs w)
  case (Cons arch archs)
  obtain r0 w1 where b: "buildLinuxDebPackage H broot out_dir v arch w = (r0, w1)" by fastforce
  have run: "objects (snd (bh_run H argv w)) = objects w" for argv by (rule build_lawsD(1) [OF assms(1)])
  have "w1 = w \<or> (\<exists>argv. w1 = snd (bh_run H argv w))"
    using b by (auto simp: buildLinuxDebPackage_def Let_def split: if_splits prod.splits option.splits) (metis snd_conv)+
  then have o: "objects w1 = objects w" using run by auto
  show ?case
  proof (cases r0)
    case None
    then have "build_debs JD H jid broot out_dir v archs
        (appendAgentBuildLog JD jid (bh_now H w1) (''Built Linux .deb package for '' @ arch) jobs, w1) = (r, jobs', w')"
      using Cons.prems b by simp
    then show ?thesis using Cons.IH o by metis
  next
    case (Some e)
    then show ?thesis using Cons.prems b o by simp
  qed
qed simp

lemma build_platforms_objects:
  assumes "build_laws H objects published" "build_platforms JD H job broot script out_dir ps (jobs, w) = (r, jobs', w')"
  shows "objects w' = objects w"
  using assms(2)
proof (induction ps arbitrary: jobs w)
  case (Cons p ps)
  define argv where "argv = [''bash'', script, ''--version'', job_version job, ''--api-url'', job_api_url job, ''--platform'', p]"
  define jobs1 where "jobs1 = appendAgentBuildLog JD (job_id job) (bh_now H w) (''Building '' @ p @ '' targets'') jobs"
  obtain out err w1 where b: "bh_run H argv w = ((out, err), w1)" by (metis surj_pair)
  have "objects (snd (bh_run H argv w)) = objects w" by (rule build_lawsD(1) [OF assms(1)])
  then have o: "objects w1 = objects w" using b by simp
  define jobs2 where "jobs2 = (if out \<noteq> [] then appendAgentBuildLog JD (job_id job) (bh_now H w1) (trimBuildOutput out) jobs1 else jobs1)"
  have step: "build_platforms JD H job broot script out_dir (p # ps) (jobs, w) = (case err of
      Some e \<Rightarrow> (Some (''build '' @ p @ '' failed: '' @ e), jobs2, w1)
    | None \<Rightarrow> if p = ''linux'' then (case build_debs JD H (job_id job) broot out_dir (job_version job) (job_archs job) (jobs2, w1) of
          (Some e, st2) \<Rightarrow> (Some e, st2) | (None, st2) \<Rightarrow> build_platforms JD H job broot script out_dir ps st2)
        else build_platforms JD H job broot script out_dir ps (jobs2, w1))"
    by (simp only: build_platforms.simps(2) prod.case Let_def b [unfolded argv_def] jobs1_def jobs2_def)
  show ?case
  proof (cases "err = None \<and> p = ''linux''")
    case True
    obtain r2 jobs3 w2 where d: "build_debs JD H (job_id job) broot out_dir (job_version job) (job_archs job) (jobs2, w1) = (r2, jobs3, w2)"
      by (metis surj_pair)
    have "objects w2 = objects w" using build_debs_objects [OF assms(1) d] o by simp
    then show ?thesis using Cons.prems Cons.IH [of jobs3 w2] step True d by (cases r2) auto
  next
    case False
    then show ?thesis using Cons.prems Cons.IH [of jobs2 w1] step o by (cases err) auto
  qed
qed simp

definition verified_release ::
  "(string \<Rightarrow> string) \<Rightarrow> release_crypto \<Rightarrow> ('w, 'r) build_host \<Rightarrow> ('w \<Rightarrow> string \<times> string \<Rightarrow> string option) \<Rightarrow> AgentBuildJob \<Rightarrow> 'w
     \<Rightarrow> AgentRelease \<Rightarrow> bool" where
  "verified_release env C H objects job w r \<longleftrightarrow> rel_version r = job_version job
     \<and> (rel_os r, rel_arch r) \<in> set (List.product (job_platforms job) (job_archs job))
     \<and> (\<exists>content. objects w (agentReleaseBucketName env, rel_s3 r) = Some content \<and> rel_checksum r = bh_sha256 H content)
     \<and> rel_pending r = releasesRequireActivation env
     \<and> (\<forall>key. signingKeyFromEnv C env = Some key \<longrightarrow> rel_signature r
          = b64_encode C (ed_sign C key (releaseSigningMessage (rel_version r) (rel_os r) (rel_arch r) (rel_checksum r))))"

lemma upload_and_publish_facts:
  assumes "build_laws H objects published" "job_ok job"
    "upload_and_publish env C JD H job out_dir (jobs0, rs, w) = (ok, jobs', rs', w')"
  shows "\<exists>new. published rs' = published rs @ new \<and> (\<forall>r \<in> set new. verified_release env C H objects job w' r)
    \<and> (ok \<longrightarrow> map (\<lambda>r. (rel_os r, rel_arch r)) new = List.product (job_platforms job) (job_archs job))"
proof -
  let ?ts = "List.product (job_platforms job) (job_archs job)"
  obtain res w1 where u: "uploadAgentBuildArtifacts env H job out_dir w = (res, w1)" by fastforce
  show ?thesis
  proof (cases res)
    case (Inl e)
    then have "rs' = rs" "\<not> ok" using assms(3) u by (auto simp: upload_and_publish_def Let_def)
    then show ?thesis by (intro exI [of _ "[]"]) simp
  next
    case (Inr as)
    obtain base where s3: "agentReleaseS3Client env H w = Inr (agentReleaseBucketName env, release_prefix env, base)"
      using u Inr by (auto simp: uploadAgentBuildArtifacts_def agentReleaseS3Client_def split: sum.splits if_splits option.splits)
    have t: "upload_targets H (agentReleaseBucketName env, release_prefix env, base) out_dir (job_version job) ?ts w = (Inr as, w1)"
      using u Inr s3 by (auto simp: uploadAgentBuildArtifacts_def split: sum.splits prod.splits if_splits)
    have d: "distinct ?ts" using assms(2) by (simp add: job_ok_def distinct_product)
    have n: "\<forall>t \<in> set ?ts. plain_name (fst t) \<and> plain_name (snd t) \<and> artifactSuffix (fst t) (snd t) \<noteq> []"
      using assms(2) suffix_plain by (auto simp: job_ok_def)
    note uf = upload_targets_facts [OF assms(1) t d n]
    let ?t1 = "bh_now H w1"
    let ?docs = "map (artifact_release env C (job_version job) ?t1) (binaries as)"
    obtain err rs1 where p: "publishAgentArtifacts env C H (job_version job) as ?t1 rs = (err, rs1)" by fastforce
    have fin: "rs' = rs1 \<and> ok = (err = None) \<and> w' = w1"
      by (cases err) (use assms(3) u Inr p in \<open>simp_all add: upload_and_publish_def Let_def\<close>)
    obtain k where k: "published (fst (bh_insert H rs ?docs)) = published rs @ take k ?docs"
        "snd (bh_insert H rs ?docs) = None \<longrightarrow> length ?docs \<le> k"
      using build_lawsD(5) [OF assms(1), of rs ?docs] by (elim exE conjE) (rule that)
    have rs1: "\<exists>n. published rs1 = published rs @ take n ?docs \<and> (err = None \<longrightarrow> length ?docs \<le> n)"
    proof (cases "?docs = []")
      case True
      then show ?thesis using p by (auto simp: publishAgentArtifacts_def Let_def binaries_def)
    next
      case False
      obtain rs2 e2 where i: "bh_insert H rs ?docs = (rs2, e2)" by fastforce
      have "rs1 = rs2 \<and> (err = None \<longrightarrow> e2 = None)"
        using p i False by (auto simp: publishAgentArtifacts_def Let_def binaries_def split: option.splits)
      then show ?thesis using k i by (intro exI [of _ k]) simp
    qed
    then obtain n where n: "published rs1 = published rs @ take n ?docs" "err = None \<longrightarrow> length ?docs \<le> n" by blast
    have pairs: "map (\<lambda>r. (rel_os r, rel_arch r)) ?docs = ?ts" using uf by (simp add: artifact_release_def comp_def)
    have good: "verified_release env C H objects job w1 r" if "r \<in> set ?docs" for r
    proof -
      obtain x where x: "x \<in> set (binaries as)" "r = artifact_release env C (job_version job) ?t1 x" using \<open>r \<in> set ?docs\<close> by auto
      have "(rel_os r, rel_arch r) \<in> (\<lambda>r. (rel_os r, rel_arch r)) ` set ?docs" by (rule imageI [OF that])
      then have "(rel_os r, rel_arch r) \<in> set ?ts" by (simp only: pairs [symmetric] list.set_map)
      moreover have "stored H objects (agentReleaseBucketName env) w1 x" using uf x(1) by blast
      ultimately show ?thesis using x(2) by (auto simp: verified_release_def artifact_release_def stored_def)
    qed
    show ?thesis
    proof (intro exI conjI)
      show "published rs' = published rs @ take n ?docs" using n(1) fin by simp
      show "\<forall>r \<in> set (take n ?docs). verified_release env C H objects job w' r" using good set_take_subset fin by fast
      show "ok \<longrightarrow> map (\<lambda>r. (rel_os r, rel_arch r)) (take n ?docs) = ?ts" using n(2) fin pairs by simp
    qed
  qed
qed

text \<open>C35. A build publishes what it uploaded: every release a run adds, whether the job ends as published
  or fails half way, is one of the job's targets, has the checksum of the file that now lies under its key,
  waits for activation where that is required, and, with a signing key, carries the signature of its own
  message; a job that ends as published has added exactly one release per target.\<close>

theorem build_publishes_uploaded:
  assumes "build_laws H objects published" "find_one JD jobs0 (\<lambda>j. job_id j = jid) (\<lambda>_. 0) = Some job" "job_ok job"
    "runAgentBuildJob env C JD H jid (jobs0, rs, w) = (ok, jobs', rs', w')"
  shows "\<exists>new. published rs' = published rs @ new \<and> (\<forall>r \<in> set new. verified_release env C H objects job w' r)
    \<and> (ok \<longrightarrow> map (\<lambda>r. (rel_os r, rel_arch r)) new = List.product (job_platforms job) (job_archs job))"
proof -
  have "(\<not> ok \<and> rs' = rs) \<or> (\<exists>out_dir jobs3 w2. upload_and_publish env C JD H job out_dir (jobs3, rs, w2) = (ok, jobs', rs', w'))"
    using assms(2,4) unfolding runAgentBuildJob_def
    by (auto simp: Let_def split: sum.splits prod.splits if_splits option.splits)
  then show ?thesis
  proof (elim disjE exE conjE)
    assume "\<not> ok" "rs' = rs"
    then show ?thesis by (intro exI [of _ "[]"]) simp
  next
    fix out_dir jobs3 w2
    assume "upload_and_publish env C JD H job out_dir (jobs3, rs, w2) = (ok, jobs', rs', w')"
    then show ?thesis by (rule upload_and_publish_facts [OF assms(1,3)])
  qed
qed

lemma validated_request:
  assumes "validateAgentBuildRequest req0 = Inr req"
  shows "agentVersionRegex (req_version req) \<and> distinct (req_platforms req) \<and> distinct (req_archs req)
    \<and> req_platforms req \<noteq> [] \<and> req_archs req \<noteq> []
    \<and> (\<forall>p \<in> set (req_platforms req). \<forall>a \<in> set (req_archs req). validAgentOS p \<and> validAgentArch a \<and> artifactSuffix p a \<noteq> [])"
proof -
  have "distinct (uniqueStrings vs)" for vs using unique_facts [of "[]" vs] by (simp add: uniqueStrings_def)
  then show ?thesis using assms
    by (auto simp: validateAgentBuildRequest_def Let_def find_None_iff split: if_splits option.splits prod.splits)
qed

text \<open>A build starts only for a request that can be built: a job is queued, and its run started, exactly
  when the request names a version and at least one platform and architecture, all supported and each
  once; every other request is answered with 400 or 503 and changes nothing, or with 500.\<close>

theorem build_request_checked:
  assumes "driver_laws JD" "createAgentBuildJob env hex JD public body fresh now jobs = ((resp, started, aud), jobs')"
  shows "case started of
      Some jid \<Rightarrow> jid = fresh \<and> status_of resp = 202 \<and> (\<exists>job. held JD jobs' = held JD jobs @ [job] \<and> job_id job = fresh
        \<and> job_ok job \<and> job_status job = ''queued'' \<and> job_artifacts job = [])
    | None \<Rightarrow> aud = [] \<and> (status_of resp \<in> {400, 503} \<and> jobs' = jobs \<or> status_of resp = 500)"
proof -
  have ins: "held JD c' = held JD c @ [d] \<or> (\<not> ok \<and> held JD c' = held JD c)" if "insert_one JD c d = (c', ok)" for c c' d ok
    using assms(1) that unfolding driver_laws_def insert_law_def by blast
  show ?thesis
  proof (cases body)
    case None
    then show ?thesis using assms(2) by (auto simp: createAgentBuildJob_def)
  next
    case (Some req0)
    let ?v = "validateAgentBuildRequest (if req_api_url req0 = [] then req0\<lparr>req_api_url := public\<rparr> else req0)"
    show ?thesis
    proof (cases ?v)
      case (Inl err)
      then show ?thesis using assms(2) Some by (auto simp: createAgentBuildJob_def)
    next
      case (Inr req)
      show ?thesis
      proof (cases "validateAgentReleaseS3Config env")
        case None
        let ?job = "\<lparr>job_id = fresh, job_version = req_version req, job_api_url = req_api_url req,
          job_platforms = req_platforms req, job_archs = req_archs req, job_status = ''queued'', job_error = [],
          job_logs = [''Queued build''], job_artifacts = [], job_created = now, job_updated = now,
          job_started = None, job_finished = None\<rparr>"
        obtain c' ok where i: "insert_one JD jobs ?job = (c', ok)" by fastforce
        have c: "createAgentBuildJob env hex JD public body fresh now jobs =
           (if \<not> ok then ((HttpError 500 ''Database error'', None, []), c')
            else ((Json 202 (job_json hex ?job), Some fresh,
                   [(''release.build_started'', req_version req, join_parts CHR '','' (req_platforms req))]), c'))"
          using Some Inr None i by (simp add: createAgentBuildJob_def Let_def)
        show ?thesis using assms(2) ins [OF i] validated_request [OF Inr] unfolding c
          by (cases ok) (auto simp: job_ok_def)
      next
        case e: (Some err)
        then show ?thesis using assms(2) Some Inr e by (auto simp: createAgentBuildJob_def)
      qed
    qed
  qed
qed
subsection \<open>An example\<close>

type_synonym buckets = "string \<times> string \<Rightarrow> string option"

definition example_build_host :: "(buckets, AgentRelease list) build_host" where
  "example_build_host = \<lparr>bh_now = (\<lambda>_. \<lparr>inst = 0, off = 0\<rparr>), bh_tempdir = (\<lambda>w. (Inr ''/tmp/d'', w)), bh_stat = (\<lambda>_ _. Some 3),
     bh_read = (\<lambda>_ _. Some ''bin''), bh_sha256 = (\<lambda>c. ''sha-'' @ c), bh_run = (\<lambda>_ w. (([], None), w)), bh_aws = (\<lambda>_. None),
     bh_put = (\<lambda>b k c t w. (None, w((b, k) \<mapsto> c))), bh_escape = (\<lambda>s. s), bh_insert = (\<lambda>rs docs. (rs @ docs, None))\<rparr>"

definition example_build_env :: "string \<Rightarrow> string" where
  "example_build_env k = (if k = ''S3_BUCKET'' then ''releases'' else [])"

definition example_build_crypto :: release_crypto where
  "example_build_crypto = \<lparr>b64_decode = (\<lambda>s. Some s), b64_encode = (\<lambda>s. s), ed_verify = (\<lambda>_ _ _. True), ed_sign = (\<lambda>_ m. m), ed_from_seed = (\<lambda>s. s)\<rparr>"

definition example_job :: AgentBuildJob where
  "example_job = \<lparr>job_id = 1, job_version = ''1.2.3'', job_api_url = ''https://api'', job_platforms = [''linux''], job_archs = [''amd64''],
     job_status = ''queued'', job_error = [], job_logs = [], job_artifacts = [], job_created = \<lparr>inst = 0, off = 0\<rparr>,
     job_updated = \<lparr>inst = 0, off = 0\<rparr>, job_started = None, job_finished = None\<rparr>"

lemma example_build_laws: "build_laws example_build_host (\<lambda>w. w) (\<lambda>rs. rs)"
proof -
  have "\<exists>n. docs = take n docs \<and> length docs \<le> n" for docs :: "AgentRelease list" by (rule exI [of _ "length docs"]) simp
  then show ?thesis by (auto simp: build_laws_def example_build_host_def)
qed

lemma example_job_ok: "job_ok example_job"
  by code_simp

theorem build_publishes_uploaded_witness:
  "\<exists>jobs' new w'. runAgentBuildJob example_build_env example_build_crypto list_driver example_build_host 1 ([example_job], [], Map.empty) = (True, jobs', new, w')
     \<and> map (\<lambda>r. (rel_os r, rel_arch r)) new = [(''linux'', ''amd64'')]
     \<and> (\<forall>r \<in> set new. \<exists>c. w' (''releases'', rel_s3 r) = Some c \<and> rel_checksum r = ''sha-'' @ c)"
proof -
  let ?run = "runAgentBuildJob example_build_env example_build_crypto list_driver example_build_host 1 ([example_job], [], Map.empty)"
  obtain ok jobs' rs' w' where r: "?run = (ok, jobs', rs', w')" by (metis surj_pair)
  have f: "find_one list_driver [example_job] (\<lambda>j. job_id j = 1) (\<lambda>_. 0) = Some example_job"
    by (simp add: least_def example_job_def)
  have "fst ?run" by code_simp
  then have ok: "ok" using r by simp
  obtain new where n: "rs' = [] @ new" "\<forall>r \<in> set new. verified_release example_build_env example_build_crypto example_build_host (\<lambda>w. w) example_job w' r"
      "map (\<lambda>r. (rel_os r, rel_arch r)) new = List.product (job_platforms example_job) (job_archs example_job)"
    using build_publishes_uploaded [OF example_build_laws f example_job_ok r] ok by blast
  have b: "agentReleaseBucketName example_build_env = ''releases''" by code_simp
  have "\<exists>c. w' (''releases'', rel_s3 x) = Some c \<and> rel_checksum x = ''sha-'' @ c" if "x \<in> set new" for x
    using n(2) that b by (auto simp: verified_release_def example_build_host_def)
  then show ?thesis using r ok n(1,3) by (auto simp: example_job_def)
qed

theorem build_request_checked_witness:
  "\<exists>resp aud jobs'. createAgentBuildJob example_build_env (\<lambda>_. ''id'') list_driver ''https://api''
       (Some \<lparr>req_version = ''1.2.3'', req_api_url = [], req_platforms = ['' linux'', ''linux''], req_archs = [''arm64'']\<rparr>) 7 \<lparr>inst = 0, off = 0\<rparr> []
     = ((resp, Some 7, aud), jobs') \<and> status_of resp = 202 \<and> (\<exists>job. jobs' = [job] \<and> job_ok job)"
proof -
  let ?c = "createAgentBuildJob example_build_env (\<lambda>_. ''id'') list_driver ''https://api''
       (Some \<lparr>req_version = ''1.2.3'', req_api_url = [], req_platforms = ['' linux'', ''linux''], req_archs = [''arm64'']\<rparr>) 7 \<lparr>inst = 0, off = 0\<rparr> []"
  obtain resp started aud jobs' where c: "?c = ((resp, started, aud), jobs')" by (metis surj_pair)
  have "fst (snd (fst ?c)) = Some 7" by code_simp
  then have s: "started = Some 7" using c by simp
  show ?thesis using build_request_checked [OF list_driver_laws c] c s by auto
qed

end
