(* ===== verification/Reports.thy ===== *)
theory Reports
  imports Ingest BrowserArchive
begin

text \<open>
  The two reading views over the whole of what was ingested (\<^verbatim>\<open>api/main.go\<close>): the telemetry history of a device
  (\<^verbatim>\<open>historyHandler\<close>), which puts archived payloads back in place of their metadata, and the weekly report over all devices
  (\<^verbatim>\<open>weeklyReportHandler\<close>). The laws: what a history shows, that an archived report comes back whole, and that the
  totals of the weekly report are the sums of what the store holds.
\<close>

named_theorems reports \<open>facts on the reports\<close>

subsection \<open>The history of a device\<close>

definition maxTelemetryHistoryDocs :: int where "maxTelemetryHistoryDocs = 500"

definition telemetry_limit :: "string \<Rightarrow> int option" where
  "telemetry_limit raw =
     (if raw = [] then Some maxTelemetryHistoryDocs
      else case atoi raw of None \<Rightarrow> None
      | Some l \<Rightarrow> if l < 0 then None else Some (min (if l > 0 then l else maxTelemetryHistoryDocs) maxTelemetryHistoryDocs))"

definition latest_docs :: "('t, obj) driver \<Rightarrow> int \<Rightarrow> string \<Rightarrow> 't \<Rightarrow> obj list option" where
  "latest_docs TD limit dev telemetry =
     map_option (\<lambda>ds. take (nat limit) (rev (sort_key object_id ds))) (find_docs TD telemetry (same_device dev))"

text \<open>The documents whose payload is in the archive, by their position.\<close>

definition archive_of :: "obj \<Rightarrow> obj option" where
  "archive_of doc = as_bobj (get doc ''telemetry_archive'')"

definition hydration_jobs :: "obj list \<Rightarrow> (nat \<times> obj) list" where
  "hydration_jobs docs = List.map_filter (\<lambda>(i, doc). map_option (Pair i) (archive_of doc)) (enumerate 0 docs)"

text \<open>The workers read in some order; every job is read, also after a failure.\<close>

fun read_jobs :: "(string \<Rightarrow> 'w s3) \<Rightarrow> archive \<Rightarrow> (nat \<times> obj) list \<Rightarrow> 'w \<Rightarrow> (nat \<times> obj \<times> val option) list \<times> 'w" where
  "read_jobs buckets a [] w = ([], w)"
| "read_jobs buckets a ((i, ar) # js) w =
     (case telemetry_Read buckets a ar w of (r, w1) \<Rightarrow>
        case read_jobs buckets a js w1 of (rs, w2) \<Rightarrow> ((i, ar, r) # rs, w2))"

definition hydrated :: "obj \<Rightarrow> obj \<Rightarrow> obj \<Rightarrow> obj" where
  "hydrated doc ar payload = al_upd ''telemetry_archive'' (BObj ar) (al_upd ''_id'' (get doc ''_id'') payload)"

definition put_result :: "obj list \<Rightarrow> nat \<times> obj \<times> val option \<Rightarrow> obj list" where
  "put_result docs res =
     (case res of (i, ar, Some (BObj payload)) \<Rightarrow> docs[i := hydrated (docs ! i) ar payload] | _ \<Rightarrow> docs)"

text \<open>\<open>None\<close> is a panic: a body that is the JSON text \<^verbatim>\<open>null\<close> gives a nil map, and assigning to it ends the process.\<close>

definition hydrate ::
  "(string \<Rightarrow> 'w s3) \<Rightarrow> archive option \<Rightarrow> ((nat \<times> obj) list \<Rightarrow> (nat \<times> obj) list) \<Rightarrow> obj list \<Rightarrow> 'w \<Rightarrow> response option \<times> 'w" where
  "hydrate buckets store order docs w =
     (case (hydration_jobs docs, store) of
        ([], _) \<Rightarrow> (Some (Json 200 (Arr (map BObj docs))), w)
      | (_, None) \<Rightarrow> (Some (HttpError 503 ''Telemetry S3 archive is not configured''), w)
      | (jobs, Some a) \<Rightarrow>
          (case read_jobs buckets a (order jobs) w of (rs, w1) \<Rightarrow>
             (if list_ex (\<lambda>(i, ar, r). r = Some Nil_v) rs then None
              else if list_ex (\<lambda>(i, ar, r). r = None) rs then Some (HttpError 500 ''S3 archive read error'')
              else Some (Json 200 (Arr (map BObj (foldl put_result docs rs)))), w1)))"

definition historyHandler ::
  "('t, obj) driver \<Rightarrow> (string \<Rightarrow> 'w s3) \<Rightarrow> archive option \<Rightarrow> ((nat \<times> obj) list \<Rightarrow> (nat \<times> obj) list) \<Rightarrow> string \<Rightarrow> string \<Rightarrow> string
     \<Rightarrow> 't \<Rightarrow> 'w \<Rightarrow> response option \<times> 'w" where
  "historyHandler TD buckets store order meth path raw_limit telemetry w =
     (if meth \<noteq> ''GET'' then (Some (HttpError 405 ''Method not allowed''), w)
      else let parts = split_on CHR ''/'' path
      in if length parts < 4 then (Some (HttpError 400 ''Invalid URL''), w)
      else case telemetry_limit raw_limit of
        None \<Rightarrow> (Some (HttpError 400 ''Invalid limit''), w)
      | Some limit \<Rightarrow> (case latest_docs TD limit (parts ! 2) telemetry of
          None \<Rightarrow> (Some (HttpError 500 ''Database error''), w)
        | Some docs \<Rightarrow> hydrate buckets store order docs w))"

subsection \<open>The devices of the weekly report\<close>

record report_device =
  rd_id :: string
  rd_name :: string
  rd_hostname :: string
  rd_os :: string
  rd_version :: string
  rd_online :: bool
  rd_state :: string
  rd_seen :: val
  rd_cpu :: float64
  rd_ram :: float64
  rd_disk :: float64
  rd_updates :: int
  rd_events :: int
  rd_browser :: int
  rd_days :: int
  rd_seconds :: float64
  rd_sessions :: int
  rd_installed :: int

definition data_part :: "obj \<Rightarrow> string \<Rightarrow> obj option" where
  "data_part device k = Option.bind (as_bobj (get device ''data'')) (\<lambda>data. as_bobj (get data k))"

text \<open>\<^verbatim>\<open>if m, ok := part[k].(bson.M); ok { x, _ = toFloat(m[f]) }\<close>, with zero as the value before.\<close>

definition number_in :: "obj option \<Rightarrow> string \<Rightarrow> string \<Rightarrow> float64" where
  "number_in part k f = (case Option.bind part (\<lambda>p. as_bobj (get p k)) of Some m \<Rightarrow> float_of (get m f) | None \<Rightarrow> 0)"

definition report_row :: "gotime \<Rightarrow> obj \<Rightarrow> report_device" where
  "report_row now device =
     (let sys = data_part device ''SystemInfo''; hw = data_part device ''HardwareStats''; apps = data_part device ''InstalledApps'';
          upd = Option.bind (data_part device ''OSUpdates'') (\<lambda>u. as_bobj (get u ''os_updates''));
          host = str_of (get device ''hostname'');
          cpu = number_in hw ''cpu'' ''usage_percent''; ram = number_in hw ''ram'' ''used_percent'';
          disk = (case hw of Some h \<Rightarrow> reportPrimaryDiskPercent (get h ''disks'') | None \<Rightarrow> 0);
          online = (case bsonTime (get device ''last_seen'') of None \<Rightarrow> False | Some t \<Rightarrow> sub now t < minute_ns);
          risk = maxFloat [cpu, ram, disk]
      in \<lparr>rd_id = str_of (get device ''device_id''), rd_name = reportDeviceName device,
          rd_hostname = (if host = [] then (case sys of Some s \<Rightarrow> str_of (get s ''hostname'') | None \<Rightarrow> []) else host),
          rd_os = (case sys of Some s \<Rightarrow> str_of (get s ''os'') | None \<Rightarrow> []),
          rd_version = str_of (get device ''agent_version''), rd_online = online,
          rd_state = (if online \<and> risk \<ge> 90 then ''critical'' else if online \<and> risk \<ge> 70 then ''warning''
                      else if online then ''online'' else ''offline''),
          rd_seen = get device ''last_seen'', rd_cpu = cpu, rd_ram = ram, rd_disk = disk,
          rd_updates = (case upd of Some u \<Rightarrow> f2i (float_of (get u ''pending_count'')) | None \<Rightarrow> 0),
          rd_events = 0, rd_browser = 0, rd_days = 0, rd_seconds = 0, rd_sessions = 0,
          rd_installed = (case apps of Some a \<Rightarrow> f2i (float_of (get a ''count'')) | None \<Rightarrow> 0)\<rparr>)"

text \<open>The devices by id, and the counters of the loop over them.\<close>

record fleet_counts =
  fl_devices :: "(string \<times> report_device) list"
  fl_online :: int
  fl_warning :: int
  fl_critical :: int
  fl_cpu :: float64
  fl_ram :: float64
  fl_samples :: int

definition no_fleet :: fleet_counts where
  "no_fleet = \<lparr>fl_devices = [], fl_online = 0, fl_warning = 0, fl_critical = 0, fl_cpu = 0, fl_ram = 0, fl_samples = 0\<rparr>"

definition fleet_step :: "gotime \<Rightarrow> fleet_counts \<Rightarrow> obj \<Rightarrow> fleet_counts" where
  "fleet_step now fs device =
     (let item = report_row now device;
          sampled = rd_cpu item > 0 \<or> rd_ram item > 0 \<or> rd_disk item > 0
      in if rd_id item = [] then fs
         else \<lparr>fl_devices = al_upd (rd_id item) item (fl_devices fs),
               fl_online = fl_online fs + (if rd_online item then 1 else 0),
               fl_warning = fl_warning fs + (if rd_state item = ''warning'' then 1 else 0),
               fl_critical = fl_critical fs + (if rd_state item = ''critical'' then 1 else 0),
               fl_cpu = (if sampled then fadd (fl_cpu fs) (rd_cpu item) else fl_cpu fs),
               fl_ram = (if sampled then fadd (fl_ram fs) (rd_ram item) else fl_ram fs),
               fl_samples = fl_samples fs + (if sampled then 1 else 0)\<rparr>)"

definition change_device :: "string \<Rightarrow> (report_device \<Rightarrow> report_device) \<Rightarrow> (string \<times> report_device) list \<Rightarrow> (string \<times> report_device) list" where
  "change_device dev f ds = (case map_of ds dev of Some item \<Rightarrow> al_upd dev (f item) ds | None \<Rightarrow> ds)"

subsection \<open>Telemetry and application usage\<close>

text \<open>The aggregation: the documents ingested in the range, grouped by device. Only dates compare with dates, and
  \<^verbatim>\<open>$sum\<close> leaves out what is no number. The groups come in no fixed order.\<close>

definition ingested_in :: "gotime \<Rightarrow> gotime \<Rightarrow> obj \<Rightarrow> bool" where
  "ingested_in from until d =
     (case (case get d ''ingested_at'' of Time_v t \<Rightarrow> Some t | Date_v t \<Rightarrow> Some t | _ \<Rightarrow> None) of
        None \<Rightarrow> False | Some t \<Rightarrow> \<not> before t from \<and> \<not> after t until)"

definition sub_field :: "val \<Rightarrow> string \<Rightarrow> val" where
  "sub_field v k = (case as_bobj v of Some m \<Rightarrow> get m k | None \<Rightarrow> Nil_v)"

definition entry_count :: "obj \<Rightarrow> val" where
  "entry_count d =
     (let n = sub_field (get d ''browser_history_archive'') ''entry_count'';
          n' = sub_field (sub_field (sub_field (get d ''data'') ''BrowserHistory'') ''archive'') ''entry_count''
      in if n \<noteq> Nil_v then n else if n' \<noteq> Nil_v then n' else I32 0)"

definition number_sum :: "val list \<Rightarrow> val" where
  "number_sum vs = F64 (foldl fadd 0 (List.map_filter toFloat vs))"

definition group_row :: "obj list \<Rightarrow> val \<Rightarrow> obj" where
  "group_row ds dev =
     (let g = filter (\<lambda>d. get d ''device_id'' = dev) ds
      in [(''_id'', dev), (''events'', I64 (int (length g))), (''browser_entries'', number_sum (map entry_count g))])"

definition telemetry_groups :: "('t, obj) driver \<Rightarrow> gotime \<Rightarrow> gotime \<Rightarrow> 't \<Rightarrow> obj list option" where
  "telemetry_groups TD from until telemetry =
     map_option (\<lambda>ds. map (group_row ds) (remdups (map (\<lambda>d. get d ''device_id'') ds)))
       (find_docs TD telemetry (ingested_in from until))"

record telemetry_totals =
  tt_devices :: int
  tt_events :: int
  tt_browser :: int
  tt_rows :: "(string \<times> report_device) list"

definition telemetry_step :: "telemetry_totals \<Rightarrow> obj \<Rightarrow> telemetry_totals" where
  "telemetry_step tt row =
     (let events = float_of (get row ''events''); entries = float_of (get row ''browser_entries'')
      in \<lparr>tt_devices = tt_devices tt + (if events > 0 then 1 else 0),
          tt_events = i64 (tt_events tt + f2i events), tt_browser = i64 (tt_browser tt + f2i entries),
          tt_rows = change_device (str_of (get row ''_id'')) (\<lambda>item. item\<lparr>rd_events := f2i events, rd_browser := f2i entries\<rparr>) (tt_rows tt)\<rparr>)"

definition usage_between :: "string \<Rightarrow> string \<Rightarrow> obj \<Rightarrow> bool" where
  "usage_between fromDate toDate d = (case get d ''date'' of Str s \<Rightarrow> fromDate \<le> s \<and> s \<le> toDate | _ \<Rightarrow> False)"

text \<open>The totals of an application over all devices, by its key.\<close>

record app_sum =
  at_name :: string
  at_seconds :: float64
  at_sessions :: int
  at_devices :: "string list"

record usage =
  us_apps :: "(string \<times> app_sum) list"
  us_dates :: "string list"
  us_device_dates :: "(string \<times> string list) list"
  us_seconds :: float64
  us_sessions :: int
  us_rows :: "(string \<times> report_device) list"

definition app_add :: "string \<Rightarrow> (string \<times> app_sum) list \<Rightarrow> val \<Rightarrow> (string \<times> app_sum) list" where
  "app_add dev totals raw =
     (case appUsageSummaryValues raw of (name, secs, sessions) \<Rightarrow>
        if \<not> isVisibleAppUsageName name \<or> secs \<le> 0 then totals
        else let t = (case map_of totals (appKey name) of Some t \<Rightarrow> t
                      | None \<Rightarrow> \<lparr>at_name = name, at_seconds = 0, at_sessions = 0, at_devices = []\<rparr>)
             in al_upd (appKey name)
                  (t\<lparr>at_seconds := fadd (at_seconds t) secs, at_sessions := i64 (at_sessions t + sessions),
                     at_devices := (if dev = [] then at_devices t else List.insert dev (at_devices t))\<rparr>) totals)"

definition usage_step :: "usage \<Rightarrow> obj \<Rightarrow> usage" where
  "usage_step us row =
     (let dev = str_of (get row ''device_id''); date = str_of (get row ''date'')
      in case weeklyActivityApps row of (apps, secs, sessions) \<Rightarrow>
         if apps = [] then us
         else let known = map_of (us_rows us) dev \<noteq> None;
                  dates = List.insert date (case map_of (us_device_dates us) dev of Some ds \<Rightarrow> ds | None \<Rightarrow> [])
              in \<lparr>us_apps = foldl (app_add dev) (us_apps us) apps,
                  us_dates = List.insert date (us_dates us),
                  us_device_dates = (if known then al_upd dev dates (us_device_dates us) else us_device_dates us),
                  us_seconds = fadd (us_seconds us) secs,
                  us_sessions = i64 (us_sessions us + sessions),
                  us_rows = change_device dev (\<lambda>item. item\<lparr>rd_seconds := fadd (rd_seconds item) secs,
                              rd_sessions := i64 (rd_sessions item + sessions), rd_days := int (length dates)\<rparr>) (us_rows us)\<rparr>)"

text \<open>The devices without entries in the store are counted in the archive; what a failing count had so far is taken.\<close>

fun browser_counts ::
  "'w s3 \<Rightarrow> archive \<Rightarrow> (string \<Rightarrow> string list \<Rightarrow> string list) \<Rightarrow> gotime \<Rightarrow> gotime \<Rightarrow> string list
     \<Rightarrow> ((string \<times> report_device) list \<times> int) \<times> 'w \<Rightarrow> (((string \<times> report_device) list \<times> int) \<times> 'w) option" where
  "browser_counts c a reads from until [] st = Some st"
| "browser_counts c a reads from until (dev # devs) ((rows, n), w) =
     (case map_of rows dev of None \<Rightarrow> browser_counts c a reads from until devs ((rows, n), w)
      | Some item \<Rightarrow>
          if rd_browser item > 0 then browser_counts c a reads from until devs ((rows, n), w)
          else (case CountEntries c a (reads dev) dev from until w of
                  None \<Rightarrow> None
                | Some ((ok, cnt), w1) \<Rightarrow>
                    browser_counts c a reads from until devs ((al_upd dev (item\<lparr>rd_browser := cnt\<rparr>) rows, i64 (n + cnt)), w1)))"

definition count_missing ::
  "'w s3 \<Rightarrow> archive option \<Rightarrow> (string \<Rightarrow> string list \<Rightarrow> string list) \<Rightarrow> gotime \<Rightarrow> gotime \<Rightarrow> string list
     \<Rightarrow> ((string \<times> report_device) list \<times> int) \<times> 'w \<Rightarrow> (((string \<times> report_device) list \<times> int) \<times> 'w) option" where
  "count_missing c store reads from until devs st =
     (case store of None \<Rightarrow> Some st | Some a \<Rightarrow> browser_counts c a reads from until devs st)"

subsection \<open>The weekly report\<close>

text \<open>A field with \<^verbatim>\<open>omitempty\<close> is left out when it is empty.\<close>

definition filled :: "string \<times> val \<Rightarrow> (string \<times> val) list" where
  "filled kv = (if snd kv = Nil_v \<or> snd kv = Str [] \<or> snd kv = F64 0 then [] else [kv])"

definition report_json :: "report_device \<Rightarrow> val" where
  "report_json d =
     Obj ([(''device_id'', Str (rd_id d)), (''name'', Str (rd_name d))]
          @ filled (''hostname'', Str (rd_hostname d)) @ filled (''os'', Str (rd_os d)) @ filled (''agent_version'', Str (rd_version d))
          @ [(''online'', Bool_v (rd_online d)), (''state'', Str (rd_state d))]
          @ (if rd_seen d = Nil_v then [] else [(''last_seen'', rd_seen d)])
          @ filled (''cpu_percent'', F64 (rd_cpu d)) @ filled (''ram_percent'', F64 (rd_ram d)) @ filled (''disk_percent'', F64 (rd_disk d))
          @ [(''pending_updates'', Int_v (rd_updates d)), (''telemetry_events'', Int_v (rd_events d)),
             (''browser_entries'', Int_v (rd_browser d)), (''app_usage_days'', Int_v (rd_days d)),
             (''app_usage_seconds'', F64 (rd_seconds d)), (''app_usage_sessions'', Int_v (rd_sessions d)),
             (''installed_app_count'', Int_v (rd_installed d))])"

definition app_json :: "app_sum \<Rightarrow> val" where
  "app_json t = Obj [(''app_name'', Str (at_name t)), (''total_seconds'', F64 (at_seconds t)),
     (''session_count'', Int_v (at_sessions t)), (''device_count'', Int_v (int (length (at_devices t))))]"

text \<open>The orders in which the maps are walked, and with it what the unstable sorts make of equal rows, are parameters.\<close>

definition top_apps :: "(app_sum list \<Rightarrow> app_sum list) \<Rightarrow> (string \<times> app_sum) list \<Rightarrow> app_sum list" where
  "top_apps perm totals = sort_key (\<lambda>t. - at_seconds t) (perm (map snd totals))"

definition device_rows :: "(report_device list \<Rightarrow> report_device list) \<Rightarrow> (string \<times> report_device) list \<Rightarrow> report_device list" where
  "device_rows perm rows = sort_key (\<lambda>d. - rd_seconds d) (sort_key rd_name (perm (map snd rows)))"

text \<open>\<^verbatim>\<open>Duration.Hours\<close>.\<close>

definition hours :: "int \<Rightarrow> float64" where
  "hours d = fadd (i2f (go_quot d hour_ns)) (fdiv (i2f (go_rem d hour_ns)) (of_int hour_ns))"

definition requested_days :: "gotime \<Rightarrow> gotime \<Rightarrow> int" where
  "requested_days from until = f2i (fdiv (hours (sub (startOfDay until) (startOfDay from))) 24) + 1"

definition weekly_range :: "gotime \<Rightarrow> string \<Rightarrow> string \<Rightarrow> string + gotime \<times> gotime" where
  "weekly_range now rawFrom rawTo =
     (case parseDateQuery rawFrom (startOfDay (add (utc now) (- 6 * day_ns))) False of
        None \<Rightarrow> Inl ''Invalid from date. Use YYYY-MM-DD.''
      | Some from \<Rightarrow> (case parseDateQuery rawTo (default_to (utc now)) True of
          None \<Rightarrow> Inl ''Invalid to date. Use YYYY-MM-DD.''
        | Some until \<Rightarrow>
            if before until from then Inl ''to must be on or after from''
            else if sub until from > 31 * day_ns then Inl ''Date range too large; maximum is 31 days''
            else Inr (from, until)))"

text \<open>What the report is made of: the three loops, in their order.\<close>

definition count_fleet :: "gotime \<Rightarrow> obj list \<Rightarrow> fleet_counts" where
  "count_fleet now devices = foldl (fleet_step now) no_fleet devices"

definition telemetry_of :: "(string \<times> report_device) list \<Rightarrow> obj list \<Rightarrow> telemetry_totals" where
  "telemetry_of rows groups = foldl telemetry_step \<lparr>tt_devices = 0, tt_events = 0, tt_browser = 0, tt_rows = rows\<rparr> groups"

definition usage_of :: "(string \<times> report_device) list \<Rightarrow> obj list \<Rightarrow> usage" where
  "usage_of rows activity =
     foldl usage_step \<lparr>us_apps = [], us_dates = [], us_device_dates = [], us_seconds = 0, us_sessions = 0, us_rows = rows\<rparr> activity"

record weekly_env =
  we_apps :: "app_sum list \<Rightarrow> app_sum list"
  we_rows :: "report_device list \<Rightarrow> report_device list"
  we_devices :: "string list \<Rightarrow> string list"
  we_reads :: "string \<Rightarrow> string list \<Rightarrow> string list"

definition average :: "float64 \<Rightarrow> int \<Rightarrow> float64" where
  "average x n = (if n > 0 then fdiv x (i2f n) else 0)"

definition weekly_reply ::
  "weekly_env \<Rightarrow> policy_store \<Rightarrow> gotime \<Rightarrow> gotime \<Rightarrow> gotime \<Rightarrow> fleet_counts \<Rightarrow> telemetry_totals \<Rightarrow> usage
     \<Rightarrow> (string \<times> report_device) list \<times> int \<Rightarrow> val" where
  "weekly_reply env gp now from until fs tt us rows =
     (let days = requested_days from until; dates = int (length (us_dates us)); cnt = int (length (fl_devices fs)) in
      Obj [(''from'', Str (date_str from)), (''to'', Str (date_str until)), (''requested_days'', Int_v days),
           (''generated_at'', Time_v (utc now)),
           (''coverage'', Obj [(''device_count'', Int_v cnt), (''telemetry_devices'', Int_v (tt_devices tt)),
              (''telemetry_events'', Int_v (tt_events tt)), (''app_usage_days'', Int_v dates), (''browser_entries'', Int_v (snd rows)),
              (''retention_days'', Int_v (currentRetentionDays gp)), (''complete_app_usage_week'', Bool_v (dates \<ge> days))]),
           (''fleet'', Obj [(''online'', Int_v (fl_online fs)), (''offline'', Int_v (cnt - fl_online fs)),
              (''warning'', Int_v (fl_warning fs)), (''critical'', Int_v (fl_critical fs)),
              (''avg_cpu'', F64 (average (fl_cpu fs) (fl_samples fs))), (''avg_ram'', F64 (average (fl_ram fs) (fl_samples fs))),
              (''hardware_count'', Int_v (fl_samples fs))]),
           (''app_usage'', Obj [(''total_seconds'', F64 (us_seconds us)), (''sessions'', Int_v (us_sessions us)),
              (''top_apps'', Arr (map app_json (top_apps (we_apps env) (us_apps us))))]),
           (''devices'', Arr (map report_json (device_rows (we_rows env) (fst rows))))])"

definition weeklyReportHandler ::
  "('d, obj) driver \<Rightarrow> ('t, obj) driver \<Rightarrow> ('a, obj) driver \<Rightarrow> 'w s3 \<Rightarrow> archive option \<Rightarrow> weekly_env \<Rightarrow> policy_store
     \<Rightarrow> string \<Rightarrow> (string \<Rightarrow> string) \<Rightarrow> gotime \<Rightarrow> 'd \<Rightarrow> 't \<Rightarrow> 'a \<Rightarrow> 'w \<Rightarrow> (response \<times> 'w) option" where
  "weeklyReportHandler DD TD AD c store env gp meth query now devices telemetry activity w =
     (if meth \<noteq> ''GET'' then Some (HttpError 405 ''Method not allowed'', w)
      else case weekly_range now (query ''from'') (query ''to'') of
        Inl err \<Rightarrow> Some (HttpError 400 err, w)
      | Inr (from, until) \<Rightarrow> (case find_docs DD devices (\<lambda>_. True) of
          None \<Rightarrow> Some (HttpError 500 ''Database error'', w)
        | Some ds \<Rightarrow> (case telemetry_groups TD from until telemetry of
            None \<Rightarrow> Some (HttpError 500 ''Database error'', w)
          | Some groups \<Rightarrow> (case find_docs AD activity (usage_between (date_str from) (date_str until)) of
              None \<Rightarrow> Some (HttpError 500 ''Database error'', w)
            | Some usage \<Rightarrow>
                let fs = count_fleet now ds; tt = telemetry_of (fl_devices fs) groups; us = usage_of (tt_rows tt) usage
                in map_option (\<lambda>(rows, w1). (Json 200 (weekly_reply env gp now from until fs tt us rows), w1))
                     (count_missing c store (we_reads env) from until (we_devices env (map fst (us_rows us))) ((us_rows us, tt_browser tt), w))))))"


subsection \<open>What a history shows\<close>

definition object_of :: "archive \<Rightarrow> obj \<Rightarrow> string \<times> string" where
  "object_of a ar = (let b = str_of (get ar ''bucket'') in (if b = [] then ar_bucket a else b, str_of (get ar ''key'')))"

text \<open>\<open>content\<close> is what a bucket holds under a key.\<close>

definition displays :: "(string \<Rightarrow> 'w \<Rightarrow> string \<Rightarrow> val option) \<Rightarrow> archive option \<Rightarrow> 'w \<Rightarrow> obj \<Rightarrow> obj \<Rightarrow> bool" where
  "displays content store w doc out \<longleftrightarrow>
     (case archive_of doc of None \<Rightarrow> out = doc
      | Some ar \<Rightarrow> (\<exists>a p. store = Some a \<and> (case object_of a ar of (b, k) \<Rightarrow> content b w k = Some (Obj p)) \<and> out = hydrated doc ar p))"

definition newest :: "int \<Rightarrow> obj multiset \<Rightarrow> obj list \<Rightarrow> bool" where
  "newest limit ds docs \<longleftrightarrow> sorted_wrt (\<lambda>x y. object_id y \<le> object_id x) docs \<and>
     (\<exists>rest. ds = mset docs + rest \<and> (\<forall>d \<in> set docs. \<forall>e \<in># rest. object_id e \<le> object_id d)
        \<and> (rest = {#} \<or> int (length docs) = limit) \<and> int (length docs) \<le> limit)"

definition read_fits :: "(string \<Rightarrow> 'w \<Rightarrow> string \<Rightarrow> val option) \<Rightarrow> archive \<Rightarrow> 'w \<Rightarrow> obj \<Rightarrow> val option \<Rightarrow> bool" where
  "read_fits content a w ar r \<longleftrightarrow>
     r = None \<or> r = Some Nil_v \<or> (\<exists>p. r = Some (BObj p) \<and> (case object_of a ar of (b, k) \<Rightarrow> content b w k = Some (Obj p)))"

lemma telemetry_Read_value:
  assumes "\<And>b. reads_law (buckets b) (content b)" "telemetry_Read buckets a ar w = (r, w')"
  shows "w' = w" "read_fits content a w ar r"
proof -
  define b where "b = fst (object_of a ar)"
  define k where "k = snd (object_of a ar)"
  obtain g w1 where g: "s3_get (buckets b) k w = (g, w1)" by (meson surj_pair)
  have l: "w1 = w" "case g of Found (Some v) e \<Rightarrow> content b w k = Some v | _ \<Rightarrow> True"
    using assms(1) [of b] g unfolding reads_law_def by blast+
  have r: "(r, w') = (if k = [] then (None, w) else
      (case g of Found (Some (Obj m)) _ \<Rightarrow> (Some (BObj m), w1) | Found (Some Nil_v) _ \<Rightarrow> (Some Nil_v, w1) | _ \<Rightarrow> (None, w1)))"
    using assms(2) g by (auto simp: telemetry_Read_def object_of_def b_def k_def Let_def split: if_splits read_result.splits option.splits val.splits)
  show "w' = w" using r l(1) by (auto split: if_splits read_result.splits option.splits val.splits)
  have o: "object_of a ar = (b, k)" by (simp add: b_def k_def)
  show "read_fits content a w ar r"
    using r l(2) by (auto simp: read_fits_def o split: if_splits read_result.splits option.splits val.splits)
qed

lemma read_jobs_values:
  assumes "\<And>b. reads_law (buckets b) (content b)" "read_jobs buckets a js w = (rs, w')"
  shows "w' = w \<and> map (\<lambda>(i, ar, r). (i, ar)) rs = js \<and>
    (\<forall>(i, ar, r) \<in> set rs. read_fits content a w ar r)"
  using assms(2)
proof (induction js arbitrary: rs)
  case (Cons j js)
  obtain i ar where j: "j = (i, ar)" by force
  obtain r w1 where r: "telemetry_Read buckets a ar w = (r, w1)" by force
  obtain rs2 w2 where rest: "read_jobs buckets a js w1 = (rs2, w2)" by force
  note v = telemetry_Read_value [where content = content, OF assms(1) r]
  show ?case using Cons.IH [of rs2] Cons.prems rest v by (auto simp: j r)
qed simp

lemma put_results:
  assumes "distinct (map fst rs)" "\<forall>(i, ar, r) \<in> set rs. i < length docs \<and> (\<exists>p. r = Some (BObj p))"
  shows "length (foldl put_result docs rs) = length docs"
    "i < length docs \<Longrightarrow> foldl put_result docs rs ! i =
       (case map_of rs i of Some (ar, Some (BObj p)) \<Rightarrow> hydrated (docs ! i) ar p | _ \<Rightarrow> docs ! i)"
proof -
  show "length (foldl put_result docs rs) = length docs"
    by (induction rs arbitrary: docs) (auto simp: put_result_def split: option.split val.split)
  show "i < length docs \<Longrightarrow> foldl put_result docs rs ! i =
       (case map_of rs i of Some (ar, Some (BObj p)) \<Rightarrow> hydrated (docs ! i) ar p | _ \<Rightarrow> docs ! i)"
    using assms
  proof (induction rs arbitrary: docs)
    case (Cons x rs)
    obtain j ar p where x: "x = (j, ar, Some (BObj p))" "j < length docs" using Cons.prems(3) by fastforce
    let ?docs = "docs[j := hydrated (docs ! j) ar p]"
    have "foldl put_result ?docs rs ! i = (case map_of rs i of Some (ar, Some (BObj p)) \<Rightarrow> hydrated (?docs ! i) ar p | _ \<Rightarrow> ?docs ! i)"
      using Cons.prems by (intro Cons.IH) auto
    moreover have "map_of rs j = None" using Cons.prems(2) x by (simp add: map_of_eq_None_iff)
    moreover have "foldl put_result docs (x # rs) = foldl put_result ?docs rs" by (simp add: x put_result_def)
    ultimately show ?case using x by (simp split: option.split val.split prod.split)
  qed simp
qed

lemma hydration_jobs_set: "(i, ar) \<in> set (hydration_jobs docs) \<longleftrightarrow> i < length docs \<and> archive_of (docs ! i) = Some ar"
proof -
  have "(i, ar) \<in> set (List.map_filter (\<lambda>(i, doc). map_option (Pair i) (archive_of doc)) xs) \<longleftrightarrow> (\<exists>doc. (i, doc) \<in> set xs \<and> archive_of doc = Some ar)" for xs
    by (induction xs) (auto simp: map_filter_simps split: option.split)
  moreover have "(\<exists>doc. (i, doc) \<in> set (enumerate 0 docs) \<and> archive_of doc = Some ar) \<longleftrightarrow> i < length docs \<and> archive_of (docs ! i) = Some ar"
    by (simp add: in_set_enumerate_eq)
  ultimately show ?thesis unfolding hydration_jobs_def by blast
qed

lemma hydration_jobs_distinct: "distinct (map fst (hydration_jobs docs))"
proof -
  have "map fst (List.map_filter (\<lambda>(i, doc). map_option (Pair i) (archive_of doc)) xs) = map fst (filter (\<lambda>(i, doc). archive_of doc \<noteq> None) xs)" for xs :: "(nat \<times> obj) list"
    by (induction xs) (auto simp: map_filter_simps split: option.split)
  then show ?thesis unfolding hydration_jobs_def by (simp add: distinct_map_filter)
qed

lemma newest_latest:
  assumes "find_law TD" "latest_docs TD limit dev telemetry = Some docs" "0 \<le> limit"
  shows "newest limit (mset (filter (same_device dev) (held TD telemetry))) docs"
proof -
  obtain ds where ds: "find_docs TD telemetry (same_device dev) = Some ds" "docs = take (nat limit) (rev (sort_key object_id ds))"
    using assms(2) by (auto simp: latest_docs_def)
  let ?all = "rev (sort_key object_id ds)"
  have all: "mset ?all = mset (filter (same_device dev) (held TD telemetry))"
    using assms(1) ds(1) by (simp add: find_law_def)
  have s: "sorted_wrt (\<lambda>x y. object_id y \<le> object_id x) ?all"
    using sorted_sort_key [of object_id ds] by (simp add: sorted_wrt_rev sorted_map)
  then have split: "sorted_wrt (\<lambda>x y. object_id y \<le> object_id x) (take (nat limit) ?all @ drop (nat limit) ?all)" by simp
  show ?thesis unfolding newest_def
  proof (intro conjI exI [of _ "mset (drop (nat limit) ?all)"])
    show "sorted_wrt (\<lambda>x y. object_id y \<le> object_id x) docs" using split unfolding sorted_wrt_append ds(2) by blast
    show "mset (filter (same_device dev) (held TD telemetry)) = mset docs + mset (drop (nat limit) ?all)"
      using all ds(2) by (metis append_take_drop_id mset_append)
    show "\<forall>d \<in> set docs. \<forall>e \<in># mset (drop (nat limit) ?all). object_id e \<le> object_id d"
      using split unfolding sorted_wrt_append ds(2) by simp
    show "mset (drop (nat limit) ?all) = {#} \<or> int (length docs) = limit" "int (length docs) \<le> limit"
      using assms(3) ds(2) by (auto simp: min_def)
  qed
qed

lemma hydrate_shows:
  assumes "\<And>b. reads_law (buckets b) (content b)" "\<And>js. mset (order js) = mset js"
    "hydrate buckets store order docs w = (Some (Json code v), w')"
  shows "w' = w \<and> (\<exists>outs. list_all2 (displays content store w) docs outs \<and> v = Arr (map BObj outs))"
proof (cases "hydration_jobs docs = []")
  case True
  then have none: "archive_of (docs ! i) = None" if "i < length docs" for i
    using hydration_jobs_set [of i _ docs] that by (cases "archive_of (docs ! i)") auto
  have "list_all2 (displays content store w) docs docs"
    using none by (auto simp: list_all2_conv_all_nth displays_def)
  then show ?thesis using assms(3) True by (auto simp: hydrate_def)
next
  case False
  let ?js = "hydration_jobs docs"
  obtain a where a: "store = Some a" using assms(3) False by (cases store) (auto simp: hydrate_def neq_Nil_conv)
  obtain rs w1 where rs: "read_jobs buckets a (order ?js) w = (rs, w1)" by force
  have run: "\<not> list_ex (\<lambda>(i, ar, r). r = Some Nil_v) rs" "\<not> list_ex (\<lambda>(i, ar, r). r = None) rs"
    "v = Arr (map BObj (foldl put_result docs rs))" "w' = w1"
    using assms(3) False a rs by (auto simp: hydrate_def neq_Nil_conv split: if_splits prod.splits)
  have vals: "w1 = w" "map (\<lambda>(i, ar, r). (i, ar)) rs = order ?js"
    "\<forall>(i, ar, r) \<in> set rs. \<exists>p. r = Some (BObj p) \<and> (case object_of a ar of (b, k) \<Rightarrow> content b w k = Some (Obj p))"
    using read_jobs_values [where content = content, OF assms(1) rs] run(1,2) by (simp, simp, fastforce simp: read_fits_def list_ex_iff)
  have perm: "set (order ?js) = set ?js" "mset (map fst (order ?js)) = mset (map fst ?js)"
    using assms(2) [of ?js] mset_eq_setD by (auto simp: mset_map)
  have fsts: "map fst rs = map fst (order ?js)" by (simp add: vals(2) [symmetric] comp_def case_prod_unfold)
  have dist: "distinct (map fst rs)" unfolding fsts using perm(2) hydration_jobs_distinct [of docs] mset_eq_imp_distinct_iff by metis
  have "set ?js = (\<lambda>(i, ar, r). (i, ar)) ` set rs" using perm(1) vals(2) by (metis list.set_map)
  then have mem: "(i, ar) \<in> set ?js \<longleftrightarrow> (\<exists>r. (i, ar, r) \<in> set rs)" for i ar by force
  have ok: "\<forall>(i, ar, r) \<in> set rs. i < length docs \<and> (\<exists>p. r = Some (BObj p))"
    using vals(3) mem hydration_jobs_set by fastforce
  note put = put_results [OF dist ok]
  have "displays content store w (docs ! i) (foldl put_result docs rs ! i)" if i: "i < length docs" for i
  proof (cases "archive_of (docs ! i)")
    case None
    then have "(i, ar, r) \<notin> set rs" for ar r using mem [of i ar] hydration_jobs_set [of i ar docs] by auto
    then have "map_of rs i = None" by (auto simp: map_of_eq_None_iff)
    then show ?thesis using put(2) [OF i] None by (simp add: displays_def)
  next
    case (Some ar)
    then obtain r where r: "(i, ar, r) \<in> set rs" using mem [of i ar] hydration_jobs_set i by blast
    then obtain p where p: "r = Some (BObj p)" "case object_of a ar of (b, k) \<Rightarrow> content b w k = Some (Obj p)" using vals(3) by fastforce
    have "map_of rs i = Some (ar, r)" using r dist by simp
    then show ?thesis using put(2) [OF i] Some p a by (auto simp: displays_def)
  qed
  then have "list_all2 (displays content store w) docs (foldl put_result docs rs)" using put(1) by (simp add: list_all2_conv_all_nth)
  then show ?thesis using run vals(1) by blast
qed

text \<open>C36. An answered history lists the newest documents of the device, at most 500 and newest first, and every
  document whose report went to the archive is replaced by that report as the archive holds it; one that cannot be
  read fails the whole request.\<close>

theorem history_shows_reports:
  assumes "find_law TD" "\<And>b. reads_law (buckets b) (content b)" "\<And>js. mset (order js) = mset js"
    "historyHandler TD buckets store order meth path raw telemetry w = (Some (Json code v), w')"
  shows "w' = w \<and> (\<exists>limit docs outs. 0 < limit \<and> limit \<le> 500
    \<and> newest limit (mset (filter (same_device (split_on CHR ''/'' path ! 2)) (held TD telemetry))) docs
    \<and> list_all2 (displays content store w) docs outs \<and> v = Arr (map BObj outs))"
proof -
  let ?dev = "split_on CHR ''/'' path ! 2"
  obtain limit docs where l: "telemetry_limit raw = Some limit" "latest_docs TD limit ?dev telemetry = Some docs"
      "hydrate buckets store order docs w = (Some (Json code v), w')"
    using assms(4) by (auto simp: historyHandler_def Let_def split: if_splits option.splits)
  have "0 < limit \<and> limit \<le> 500"
    using l(1) by (auto simp: telemetry_limit_def maxTelemetryHistoryDocs_def split: if_splits option.splits)
  then show ?thesis using newest_latest [OF assms(1) l(2)] hydrate_shows [where content = content, OF assms(2,3) l(3)] by fastforce
qed

subsection \<open>An archived report comes back\<close>

lemma get_json_obj: "get (map (\<lambda>(k, v). (k, json_val v)) m) k = json_val (get m k)"
  by (induction m) (auto simp: get_def)

lemma bson_archive_result:
  assumes "telemetry_Archive c digest a now dev payload w = (Archived r, w1)"
  shows "r = [(''bucket'', Str (ar_bucket a)), (''key'', Str (telemetry_key digest a now dev payload))]"
    "s3_put c (telemetry_key digest a now dev payload) (json_val (Obj payload)) Always w = (None, w1)"
  using assms by (auto simp: telemetry_Archive_def Let_def split: prod.splits option.splits)

text \<open>C37. A report that was archived comes back in the history with every field as JSON keeps it, under the id of its
  document, as long as nobody overwrote its object.\<close>

theorem archived_report_returns:
  assumes "puts_law (ie_s3 env (ar_bucket a)) stored_objects (content (ar_bucket a))" "ie_payload_archive env = Some a"
    "archive_payload env dev payload w = (Some (payload', Some r), w1)"
    "content (ar_bucket a) w2 (str_of (get r ''key'')) = content (ar_bucket a) w1 (str_of (get r ''key''))"
    "displays content (Some a) w2 (al_upd ''_id'' oid (stored (fst (telemetryDocForStorage full minutes other now now5 payload' (Some r) tracker)))) out"
  shows "get out ''_id'' = oid \<and> (\<forall>k. k \<notin> {''_id'', ''telemetry_archive''} \<longrightarrow> get out k = json_val (get payload k))"
proof -
  let ?key = "telemetry_key (ie_digest env) a (ie_clock env 4) dev payload"
  obtain w3 where arch: "telemetry_Archive (ie_s3 env (ar_bucket a)) (ie_digest env) a (ie_clock env 4) dev payload w = (Archived r, w3)" "w3 = w1"
    using assms(2,3) by (auto simp: archive_payload_def split: prod.splits archived.splits)
  note r = bson_archive_result [OF arch(1)]
  have held: "content (ar_bucket a) w1 ?key = Some (json_val (Obj payload))"
    using assms(1) r(2) arch(2) unfolding puts_law_def by blast
  let ?doc = "stored (fst (telemetryDocForStorage full minutes other now now5 payload' (Some r) tracker))"
  have "get ?doc ''telemetry_archive'' = BObj r"
    using r(1) by (simp add: get_stored telemetryDocForStorage_def telemetryMetadata_def get_with_data get_fields metadata_fields_def)
  then have "archive_of (al_upd ''_id'' oid ?doc) = Some r" by (simp add: archive_of_def)
  moreover have "object_of a r = (ar_bucket a, ?key)" using r(1) by (simp add: object_of_def Let_def)
  ultimately obtain p where p: "content (ar_bucket a) w2 ?key = Some (Obj p)" "out = hydrated (al_upd ''_id'' oid ?doc) r p"
    using assms(5) by (auto simp: displays_def)
  have "content (ar_bucket a) w2 ?key = Some (json_val (Obj payload))" using assms(4) r(1) held by simp
  then have "p = map (\<lambda>(k, v). (k, json_val v)) payload" using p(1) by simp
  then show ?thesis using p(2) by (simp add: hydrated_def get_json_obj)
qed

subsection \<open>The totals of the weekly report\<close>

text \<open>Every use of an application the rows hold: device, name, seconds and sessions.\<close>

definition use_of :: "string \<Rightarrow> val \<Rightarrow> (string \<times> string \<times> float64 \<times> int) option" where
  "use_of dev raw =
     (case appUsageSummaryValues raw of (name, secs, sessions) \<Rightarrow>
        if isVisibleAppUsageName name \<and> 0 < secs then Some (dev, name, secs, sessions) else None)"

definition app_uses :: "obj list \<Rightarrow> (string \<times> string \<times> float64 \<times> int) list" where
  "app_uses rows = concat (map (\<lambda>row. List.map_filter (use_of (str_of (get row ''device_id''))) (fst (weeklyActivityApps row))) rows)"

definition uses_under :: "string \<Rightarrow> (string \<times> string \<times> float64 \<times> int) list \<Rightarrow> (string \<times> string \<times> float64 \<times> int) list" where
  "uses_under k us = filter (\<lambda>(dev, name, s, n). appKey name = k) us"

text \<open>The row of an application, straight from its uses.\<close>

definition app_reference :: "(string \<times> string \<times> float64 \<times> int) list \<Rightarrow> string \<Rightarrow> val" where
  "app_reference us k =
     (let u = uses_under k us
      in Obj [(''app_name'', Str (fst (snd (hd u)))), (''total_seconds'', F64 (foldl fadd 0 (map (\<lambda>(dev, name, s, n). s) u))),
              (''session_count'', Int_v (foldl (\<lambda>m n. i64 (m + n)) 0 (map (\<lambda>(dev, name, s, n). n) u))),
              (''device_count'', Int_v (int (card (fst ` set u - {[]}))))])"

definition add_use :: "(string \<times> app_sum) list \<Rightarrow> string \<times> string \<times> float64 \<times> int \<Rightarrow> (string \<times> app_sum) list" where
  "add_use totals u =
     (case u of (dev, name, secs, sessions) \<Rightarrow>
        let t = (case map_of totals (appKey name) of Some t \<Rightarrow> t | None \<Rightarrow> \<lparr>at_name = name, at_seconds = 0, at_sessions = 0, at_devices = []\<rparr>)
        in al_upd (appKey name)
             (t\<lparr>at_seconds := fadd (at_seconds t) secs, at_sessions := i64 (at_sessions t + sessions),
                at_devices := (if dev = [] then at_devices t else List.insert dev (at_devices t))\<rparr>) totals)"

lemma app_add_uses: "foldl (app_add dev) totals apps = foldl add_use totals (List.map_filter (use_of dev) apps)"
proof (induction apps arbitrary: totals)
  case (Cons raw apps)
  obtain name secs sessions where v: "appUsageSummaryValues raw = (name, secs, sessions)" by (metis prod_cases3)
  have "app_add dev totals raw = (case use_of dev raw of None \<Rightarrow> totals | Some u \<Rightarrow> add_use totals u)"
    by (auto simp: app_add_def use_of_def add_use_def v)
  then show ?case using Cons.IH by (auto simp: map_filter_simps split: option.split)
qed (simp add: map_filter_simps)

definition totals_of :: "(string \<times> string \<times> float64 \<times> int) list \<Rightarrow> (string \<times> app_sum) list \<Rightarrow> bool" where
  "totals_of us totals \<longleftrightarrow> distinct (map fst totals) \<and> fst ` set totals = (\<lambda>(dev, name, s, n). appKey name) ` set us \<and>
     (\<forall>k t. map_of totals k = Some t \<longrightarrow> at_name t = fst (snd (hd (uses_under k us)))
        \<and> at_seconds t = foldl fadd 0 (map (\<lambda>(dev, name, s, n). s) (uses_under k us))
        \<and> at_sessions t = foldl (\<lambda>m n. i64 (m + n)) 0 (map (\<lambda>(dev, name, s, n). n) (uses_under k us))
        \<and> distinct (at_devices t) \<and> set (at_devices t) = fst ` set (uses_under k us) - {[]})"

lemma totals_of_step:
  assumes "totals_of us totals"
  shows "totals_of (us @ [u]) (add_use totals u)"
proof -
  obtain dev name secs sessions where u: "u = (dev, name, secs, sessions)" by (metis prod_cases4)
  let ?k = "appKey name"
  define t0 where "t0 = (case map_of totals ?k of Some t \<Rightarrow> t | None \<Rightarrow> \<lparr>at_name = name, at_seconds = 0, at_sessions = 0, at_devices = []\<rparr>)"
  define t1 where "t1 = t0\<lparr>at_seconds := fadd (at_seconds t0) secs, at_sessions := i64 (at_sessions t0 + sessions),
                at_devices := (if dev = [] then at_devices t0 else List.insert dev (at_devices t0))\<rparr>"
  have new: "add_use totals u = al_upd ?k t1 totals" by (simp add: add_use_def u t0_def t1_def Let_def)
  have under: "uses_under k (us @ [u]) = uses_under k us @ (if k = ?k then [u] else [])" for k
    by (auto simp: uses_under_def u)
  have keys: "fst ` set totals = (\<lambda>(dev, name, s, n). appKey name) ` set us" using assms by (simp add: totals_of_def)
  have known: "map_of totals ?k = None \<longleftrightarrow> uses_under ?k us = []"
    unfolding map_of_eq_None_iff keys by (force simp: uses_under_def filter_empty_conv)
  have old: "map_of totals k = Some t \<Longrightarrow> at_name t = fst (snd (hd (uses_under k us)))
        \<and> at_seconds t = foldl fadd 0 (map (\<lambda>(dev, name, s, n). s) (uses_under k us))
        \<and> at_sessions t = foldl (\<lambda>m n. i64 (m + n)) 0 (map (\<lambda>(dev, name, s, n). n) (uses_under k us))
        \<and> distinct (at_devices t) \<and> set (at_devices t) = fst ` set (uses_under k us) - {[]}" for k t
    using assms unfolding totals_of_def by blast
  have t1: "at_name t1 = fst (snd (hd (uses_under ?k us @ [u])))"
      "at_seconds t1 = foldl fadd 0 (map (\<lambda>(dev, name, s, n). s) (uses_under ?k us @ [u]))"
      "at_sessions t1 = foldl (\<lambda>m n. i64 (m + n)) 0 (map (\<lambda>(dev, name, s, n). n) (uses_under ?k us @ [u]))"
      "distinct (at_devices t1)" "set (at_devices t1) = fst ` set (uses_under ?k us @ [u]) - {[]}"
    using known old [of ?k] by (cases "map_of totals ?k"; auto simp: t1_def t0_def u hd_append)+
  show ?thesis unfolding totals_of_def new
  proof (intro conjI allI impI)
    show "distinct (map fst (al_upd ?k t1 totals))" using assms by (simp add: totals_of_def)
    show "fst ` set (al_upd ?k t1 totals) = (\<lambda>(dev, name, s, n). appKey name) ` set (us @ [u])"
      by (simp add: fst_al_upd keys u)
  qed (use old t1 in \<open>auto simp: under split: if_splits\<close>)
qed

lemma totals_of_fold: "totals_of us (foldl add_use [] us)"
  by (induction us rule: rev_induct) (simp_all add: totals_of_step, simp add: totals_of_def)

lemma usage_apps: "us_apps (foldl usage_step us rows) = foldl add_use (us_apps us) (app_uses rows)"
proof (induction rows arbitrary: us)
  case (Cons row rows)
  have "us_apps (usage_step us row) = foldl add_use (us_apps us) (List.map_filter (use_of (str_of (get row ''device_id''))) (fst (weeklyActivityApps row)))"
    by (auto simp: usage_step_def app_add_uses Let_def map_filter_simps split: prod.split)
  then show ?case using Cons.IH by (simp add: app_uses_def)
qed (simp add: app_uses_def)

lemma app_reference_row:
  assumes "totals_of us totals" "map_of totals k = Some t"
  shows "app_json t = app_reference us k"
  using assms by (simp add: totals_of_def app_json_def app_reference_def Let_def distinct_card [symmetric])

text \<open>The events of each device.\<close>

definition events_of :: "string \<Rightarrow> obj list \<Rightarrow> int" where
  "events_of dev ds = int (length (filter (\<lambda>d. get d ''device_id'' = Str dev) ds))"

lemma change_device_lookup:
  "map_of (change_device dev f rows) dev' = (if dev' = dev then map_option f (map_of rows dev') else map_of rows dev')"
  by (auto simp: change_device_def split: option.split)

lemma change_device_fst: "map fst (change_device dev f rows) = map fst rows"
proof -
  have "map_of rows dev = Some item \<Longrightarrow> map fst (al_upd dev x rows) = map fst rows" for x item
    by (induction rows) auto
  then show ?thesis by (simp add: change_device_def split: option.split)
qed

lemma group_counts: "(\<Sum>k \<leftarrow> remdups (map f ds). length (filter (\<lambda>d. f d = k) ds)) = length ds"
proof -
  have len: "length (filter (\<lambda>d. f d = k) ds) = (\<Sum>d \<in># mset ds. if f d = k then 1 else 0)" for k
    by (induction ds) simp_all
  have swap: "(\<Sum>k \<in> K. \<Sum>d \<in># mset ds. if f d = k then 1 else 0) = (\<Sum>d \<in># mset ds. \<Sum>k \<in> K. if f d = k then 1 else (0::nat))" for K
    by (induction ds) (simp_all add: sum.distrib)
  have "(\<Sum>k \<leftarrow> remdups (map f ds). length (filter (\<lambda>d. f d = k) ds)) = (\<Sum>k \<in> f ` set ds. length (filter (\<lambda>d. f d = k) ds))"
    by (subst sum_list_distinct_conv_sum_set) simp_all
  also have "\<dots> = (\<Sum>k \<in> f ` set ds. \<Sum>d \<in># mset ds. if f d = k then 1 else 0)"
    by (simp add: len)
  also have "\<dots> = (\<Sum>d \<in># mset ds. \<Sum>k \<in> f ` set ds. if f d = k then 1 else 0)"
    by (rule swap)
  also have "\<dots> = (\<Sum>d \<in># mset ds. 1)"
    by (intro arg_cong [where f = sum_mset] image_mset_cong) (simp add: sum.delta)
  finally show ?thesis by (simp add: size_mset)
qed

lemma f2i_count: "n < 2 ^ 53 \<Longrightarrow> f2i (i2f (int n)) = int n"
  by (simp add: i2f_exact f2i_def trunc_rat_def in_i64_def i64_min_def i64_max_def)

text \<open>The groups have distinct ids; reading them one after the other sets the events of each device once.\<close>

definition group_events :: "obj list \<Rightarrow> string \<Rightarrow> int option" where
  "group_events groups dev = map_option (\<lambda>g. f2i (float_of (get g ''events''))) (find (\<lambda>g. get g ''_id'' = Str dev) groups)"

lemma telemetry_fold_events:
  assumes "\<forall>g \<in> set gs. 0 \<le> f2i (float_of (get g ''events''))"
    "tt_events tt \<ge> 0" "tt_events tt + (\<Sum>g \<leftarrow> gs. f2i (float_of (get g ''events''))) < 2 ^ 53"
  shows "tt_events (foldl telemetry_step tt gs) = tt_events tt + (\<Sum>g \<leftarrow> gs. f2i (float_of (get g ''events'')))"
  using assms
proof (induction gs arbitrary: tt)
  case (Cons g gs)
  have nonneg: "0 \<le> (\<Sum>g \<leftarrow> gs. f2i (float_of (get g ''events'')))" using Cons.prems(1) by (intro sum_list_nonneg) auto
  have "tt_events (telemetry_step tt g) = tt_events tt + f2i (float_of (get g ''events''))"
    using Cons.prems nonneg by (simp add: telemetry_step_def Let_def i64_id in_i64_def i64_min_def i64_max_def)
  then show ?case using Cons.IH [of "telemetry_step tt g"] Cons.prems by (simp add: add.assoc)
qed simp

lemma telemetry_fold_rows:
  assumes "distinct (map (\<lambda>g. get g ''_id'') gs)" "dev \<noteq> []" "map_of (tt_rows tt) dev = Some item"
  shows "\<exists>item'. map_of (tt_rows (foldl telemetry_step tt gs)) dev = Some item' \<and> rd_id item' = rd_id item
    \<and> rd_events item' = (case group_events gs dev of Some n \<Rightarrow> n | None \<Rightarrow> rd_events item)"
  using assms
proof (induction gs arbitrary: tt item)
  case (Cons g gs)
  let ?here = "get g ''_id'' = Str dev"
  have here: "str_of (get g ''_id'') = dev \<longleftrightarrow> ?here" using Cons.prems(2) by (cases "get g ''_id''") (auto simp: str_of_def)
  define item1 where "item1 = (if ?here then item\<lparr>rd_events := f2i (float_of (get g ''events'')), rd_browser := f2i (float_of (get g ''browser_entries''))\<rparr> else item)"
  have item1: "map_of (tt_rows (telemetry_step tt g)) dev = Some item1" "rd_id item1 = rd_id item"
      "\<not> ?here \<Longrightarrow> rd_events item1 = rd_events item" "?here \<Longrightarrow> rd_events item1 = f2i (float_of (get g ''events''))"
    using Cons.prems(3) here by (auto simp: item1_def telemetry_step_def Let_def change_device_lookup)
  have later: "?here \<Longrightarrow> group_events gs dev = None" using Cons.prems(1) by (force simp: group_events_def find_None_iff)
  show ?case using Cons.IH [of "telemetry_step tt g" item1] Cons.prems item1 later by (auto simp: group_events_def split: option.splits)
qed (simp add: group_events_def)

lemma telemetry_fold_fst: "map fst (tt_rows (foldl telemetry_step tt gs)) = map fst (tt_rows tt)"
  by (induction gs arbitrary: tt) (simp_all add: telemetry_step_def Let_def change_device_fst)

text \<open>The later loops keep who a row is and its events.\<close>

definition same_events :: "(string \<times> report_device) list \<Rightarrow> (string \<times> report_device) list \<Rightarrow> bool" where
  "same_events rows rows' \<longleftrightarrow> map fst rows' = map fst rows \<and>
     (\<forall>dev. map_option (\<lambda>d. (rd_id d, rd_events d)) (map_of rows' dev) = map_option (\<lambda>d. (rd_id d, rd_events d)) (map_of rows dev))"

lemma same_events_refl [reports]: "same_events rows rows"
  by (simp add: same_events_def)

lemma same_events_trans: "same_events a b \<Longrightarrow> same_events b c \<Longrightarrow> same_events a c"
  by (simp add: same_events_def)

lemma same_events_row:
  assumes "same_events rows rows'" "map_of rows' dev = Some item"
  obtains item0 where "map_of rows dev = Some item0" "rd_id item = rd_id item0" "rd_events item = rd_events item0"
proof -
  have "map_option (\<lambda>d. (rd_id d, rd_events d)) (map_of rows' dev) = map_option (\<lambda>d. (rd_id d, rd_events d)) (map_of rows dev)"
    using assms(1) by (simp add: same_events_def)
  then show ?thesis using that assms(2) by (cases "map_of rows dev") auto
qed

lemma same_events_change:
  "(\<And>d. rd_id (f d) = rd_id d \<and> rd_events (f d) = rd_events d) \<Longrightarrow> same_events rows (change_device dev f rows)"
  by (simp add: same_events_def change_device_fst change_device_lookup option.map_comp comp_def)

lemma usage_keeps_events: "same_events (us_rows us) (us_rows (foldl usage_step us rows))"
proof (induction rows arbitrary: us)
  case (Cons row rows)
  have "same_events (us_rows us) (us_rows (usage_step us row))"
    by (auto simp: usage_step_def Let_def same_events_refl intro!: same_events_change split: prod.split)
  then show ?case using Cons.IH same_events_trans by fastforce
qed (simp add: same_events_refl)

lemma browser_keeps_events:
  "browser_counts c a reads from until devs ((rows, n), w) = Some ((rows', n'), w') \<Longrightarrow> same_events rows rows'"
proof (induction devs arbitrary: rows n w)
  case (Cons dev devs)
  show ?case
  proof (cases "map_of rows dev")
    case None
    then show ?thesis using Cons by simp
  next
    case (Some item)
    have "same_events rows (al_upd dev (item\<lparr>rd_browser := cnt\<rparr>) rows)" for cnt
      using same_events_change [of "\<lambda>d. d\<lparr>rd_browser := cnt\<rparr>" rows dev] Some by (simp add: change_device_def)
    then show ?thesis using Cons Some same_events_trans by (fastforce split: if_splits option.splits prod.splits)
  qed
qed (simp add: same_events_refl)

definition fresh_rows :: "(string \<times> report_device) list \<Rightarrow> bool" where
  "fresh_rows rows \<longleftrightarrow> (\<forall>dev item. map_of rows dev = Some item \<longrightarrow> dev \<noteq> [] \<and> rd_id item = dev \<and> rd_events item = 0)"

lemma fleet_step_devices:
  "fl_devices (fleet_step now fs d) =
     (if rd_id (report_row now d) = [] then fl_devices fs else al_upd (rd_id (report_row now d)) (report_row now d) (fl_devices fs))"
  by (simp add: fleet_step_def Let_def)

lemma report_row_fresh: "rd_events (report_row now d) = 0"
  unfolding report_row_def by (simp only: Let_def report_device.simps)

lemma fleet_rows: "fresh_rows (fl_devices (count_fleet now ds))"
proof -
  have "fresh_rows (fl_devices (fleet_step now fs d))" if old: "fresh_rows (fl_devices fs)" for fs d
    unfolding fresh_rows_def
  proof (intro allI impI)
    fix dev item
    assume "map_of (fl_devices (fleet_step now fs d)) dev = Some item"
    then have "map_of (fl_devices fs) dev = Some item \<or> (dev = rd_id (report_row now d) \<and> dev \<noteq> [] \<and> item = report_row now d)"
      by (auto simp: fleet_step_devices split: if_splits)
    then show "dev \<noteq> [] \<and> rd_id item = dev \<and> rd_events item = 0"
      using old report_row_fresh unfolding fresh_rows_def by blast
  qed
  then have "fresh_rows (fl_devices fs) \<Longrightarrow> fresh_rows (fl_devices (foldl (fleet_step now) fs ds))" for fs
    by (induction ds arbitrary: fs) simp_all
  moreover have "fresh_rows (fl_devices no_fleet)" by (simp add: no_fleet_def fresh_rows_def)
  ultimately show ?thesis unfolding count_fleet_def by blast
qed

lemma fleet_distinct: "distinct (map fst (fl_devices (count_fleet now ds)))"
proof -
  have "distinct (map fst (fl_devices fs)) \<Longrightarrow> distinct (map fst (fl_devices (foldl (fleet_step now) fs ds)))" for fs
    by (induction ds arbitrary: fs) (simp_all add: fleet_step_devices)
  then show ?thesis by (simp add: count_fleet_def no_fleet_def)
qed

lemma group_row_get [simp]:
  "get (group_row ds k) ''_id'' = k" "get (group_row ds k) ''events'' = I64 (int (length (filter (\<lambda>d. get d ''device_id'' = k) ds)))"
  by (simp_all add: group_row_def Let_def)

lemma find_group: "find (\<lambda>g. get g ''_id'' = v) (map (group_row ds) ks) = (if v \<in> set ks then Some (group_row ds v) else None)"
  by (induction ks) auto

lemma group_reads:
  assumes "length ds < 2 ^ 53"
  shows "f2i (float_of (get (group_row ds k) ''events'')) = int (length (filter (\<lambda>d. get d ''device_id'' = k) ds))"
proof -
  have "length (filter (\<lambda>d. get d ''device_id'' = k) ds) < 2 ^ 53" using assms length_filter_le [of _ ds] le_less_trans by blast
  from f2i_count [OF this] show ?thesis by (simp add: float_of_def)
qed

lemma telemetry_counted:
  assumes "length ds < 2 ^ 53" "fresh_rows rows"
  defines "tt \<equiv> telemetry_of rows (map (group_row ds) (remdups (map (\<lambda>d. get d ''device_id'') ds)))"
  shows "tt_events tt = int (length ds)"
    "map fst (tt_rows tt) = map fst rows"
    "map_of (tt_rows tt) dev = Some item \<Longrightarrow> rd_id item = dev \<and> rd_events item = events_of dev ds"
proof -
  let ?ks = "remdups (map (\<lambda>d. get d ''device_id'') ds)"
  let ?gs = "map (group_row ds) ?ks"
  let ?start = "\<lparr>tt_devices = 0, tt_events = 0, tt_browser = 0, tt_rows = rows\<rparr>"
  have ints: "(\<Sum>k \<leftarrow> ks. int (h k)) = int (\<Sum>k \<leftarrow> ks. h k)" for ks :: "val list" and h
    by (induction ks) simp_all
  have "(\<Sum>g \<leftarrow> ?gs. f2i (float_of (get g ''events''))) = (\<Sum>k \<leftarrow> ?ks. int (length (filter (\<lambda>d. get d ''device_id'' = k) ds)))"
    by (simp add: comp_def group_reads [OF assms(1)] del: group_row_get)
  also have "\<dots> = int (\<Sum>k \<leftarrow> ?ks. length (filter (\<lambda>d. get d ''device_id'' = k) ds))" by (rule ints)
  finally have sum: "(\<Sum>g \<leftarrow> ?gs. f2i (float_of (get g ''events''))) = int (length ds)" by (simp only: group_counts)
  have "tt_events tt = tt_events ?start + (\<Sum>g \<leftarrow> ?gs. f2i (float_of (get g ''events'')))"
    unfolding tt_def telemetry_of_def
  proof (rule telemetry_fold_events)
    show "\<forall>g \<in> set ?gs. 0 \<le> f2i (float_of (get g ''events''))" using group_reads [OF assms(1)] by auto
    show "tt_events ?start + (\<Sum>g \<leftarrow> ?gs. f2i (float_of (get g ''events''))) < 2 ^ 53" unfolding sum using assms(1) by simp
  qed simp
  then show "tt_events tt = int (length ds)" unfolding sum by simp
  show fsts: "map fst (tt_rows tt) = map fst rows" by (simp add: tt_def telemetry_of_def telemetry_fold_fst)
  show "rd_id item = dev \<and> rd_events item = events_of dev ds" if found: "map_of (tt_rows tt) dev = Some item"
  proof -
    have "dev \<in> set (map fst rows)" using found fsts by (metis map_of_eq_None_iff option.distinct(1) set_map)
    then obtain item0 where item0: "map_of rows dev = Some item0" by (metis map_of_eq_None_iff not_None_eq set_map)
    then have fresh: "dev \<noteq> []" "rd_id item0 = dev" "rd_events item0 = 0" using assms(2) unfolding fresh_rows_def by blast+
    have dist: "distinct (map (\<lambda>g. get g ''_id'') ?gs)" by (simp add: comp_def)
    have start: "map_of (tt_rows ?start) dev = Some item0" using item0 by simp
    have ev: "group_events ?gs dev = (if Str dev \<in> set ?ks then Some (events_of dev ds) else None)"
      unfolding group_events_def find_group by (simp add: group_reads [OF assms(1)] events_of_def del: group_row_get)
    have "Str dev \<notin> set ?ks \<Longrightarrow> events_of dev ds = 0" by (force simp: events_of_def filter_empty_conv)
    then show ?thesis using telemetry_fold_rows [OF dist fresh(1) start] found fresh ev
      by (auto simp: tt_def telemetry_of_def split: if_splits)
  qed
qed

lemma mset_of_map: "mset ys = mset (map f xs) \<Longrightarrow> \<exists>zs. mset zs = mset xs \<and> map f zs = ys"
proof (induction ys arbitrary: xs)
  case (Cons y ys)
  then have "y \<in> set (map f xs)" by (metis list.set_intros(1) mset_eq_setD)
  then obtain x where x: "x \<in> set xs" "y = f x" by auto
  then have split: "mset xs = add_mset x (mset (remove1 x xs))" by simp
  have "add_mset y (mset ys) = add_mset (f x) (mset (map f (remove1 x xs)))"
    using Cons.prems by (metis image_mset_add_mset mset.simps(2) mset_map split)
  then have "mset ys = mset (map f (remove1 x xs))" unfolding x(2) by (rule add_mset_add_mset_same_iff [THEN iffD1])
  then obtain zs where zs: "mset zs = mset (remove1 x xs)" "map f zs = ys" using Cons.IH by blast
  have "mset (x # zs) = mset xs" using split zs(1) by (metis mset.simps(2))
  then show ?case using zs(2) x(2) by (intro exI [of _ "x # zs"]) simp
qed simp

lemma app_seconds: "row_seconds (app_json t) = at_seconds t"
  by (simp add: row_seconds_def app_json_def)

lemma top_apps_rows:
  assumes "totals_of us totals" "\<And>xs. mset (perm xs) = mset xs"
  shows "\<exists>ks. distinct ks \<and> set ks = (\<lambda>(dev, name, s, n). appKey name) ` set us \<and>
    map app_json (top_apps perm totals) = map (app_reference us) ks \<and>
    sorted_wrt (\<lambda>x y. row_seconds y \<le> row_seconds x) (map app_json (top_apps perm totals))"
proof -
  let ?top = "top_apps perm totals"
  have "mset ?top = mset (map snd totals)" by (simp add: top_apps_def assms(2))
  then obtain ps where ps: "mset ps = mset totals" "map snd ps = ?top" using mset_of_map by blast
  let ?ks = "map fst ps"
  have mem: "set ps = set totals" using ps(1) mset_eq_setD by blast
  have tot: "distinct (map fst totals)" "fst ` set totals = (\<lambda>(dev, name, s, n). appKey name) ` set us"
    using assms(1) by (simp_all add: totals_of_def)
  have "distinct ?ks" using tot(1) ps(1) by (metis mset_eq_imp_distinct_iff mset_map)
  moreover have "set ?ks = (\<lambda>(dev, name, s, n). appKey name) ` set us" using tot(2) mem by simp
  moreover have "app_json (snd p) = app_reference us (fst p)" if "p \<in> set ps" for p
    using app_reference_row [OF assms(1)] that mem tot(1) by simp
  then have "map app_json ?top = map (app_reference us) ?ks" by (simp add: ps(2) [symmetric])
  moreover have "sorted_wrt (\<lambda>x y. row_seconds y \<le> row_seconds x) (map app_json ?top)"
    using sorted_sort_key [of "\<lambda>t. - at_seconds t" "perm (map snd totals)"]
    by (simp add: top_apps_def sorted_wrt_map app_seconds sorted_map)
  ultimately show ?thesis by blast
qed

text \<open>C38. The weekly report adds up: its events are the documents ingested in the range, those of a device the
  documents of that device, and the list of applications has one row for every application used, with its name, seconds,
  sessions and devices straight from the rows of the range, by falling seconds.\<close>

theorem weekly_totals:
  assumes "find_law TD" "find_law AD" "\<And>xs. mset (we_apps env xs) = mset xs" "\<And>xs. mset (we_rows env xs) = mset xs"
    "weekly_range now (query ''from'') (query ''to'') = Inr (from, until)"
    "length (filter (ingested_in from until) (held TD telemetry)) < 2 ^ 53"
    "weeklyReportHandler DD TD AD c store env gp meth query now devices telemetry activity w = Some (Json 200 (Obj reply), w')"
  shows "(\<exists>cov. get reply ''coverage'' = Obj cov \<and>
        get cov ''telemetry_events'' = Int_v (int (length (filter (ingested_in from until) (held TD telemetry)))))
    \<and> (\<exists>rows. get reply ''devices'' = Arr rows \<and> (\<forall>x \<in> set rows. \<exists>m. x = Obj m \<and>
        get m ''telemetry_events'' = Int_v (events_of (str_of (get m ''device_id'')) (filter (ingested_in from until) (held TD telemetry)))))
    \<and> (\<exists>use usage ks. get reply ''app_usage'' = Obj use \<and>
        mset usage = mset (filter (usage_between (date_str from) (date_str until)) (held AD activity)) \<and>
        distinct ks \<and> set ks = (\<lambda>(dev, name, s, n). appKey name) ` set (app_uses usage) \<and>
        get use ''top_apps'' = Arr (map (app_reference (app_uses usage)) ks) \<and>
        sorted_wrt (\<lambda>x y. row_seconds y \<le> row_seconds x) (map (app_reference (app_uses usage)) ks))"
proof -
  obtain ds docs usage where run: "find_docs DD devices (\<lambda>_. True) = Some ds"
      "find_docs TD telemetry (ingested_in from until) = Some docs"
      "find_docs AD activity (usage_between (date_str from) (date_str until)) = Some usage"
    using assms(5,7) by (auto simp: weeklyReportHandler_def telemetry_groups_def split: if_splits option.splits)
  let ?held = "filter (ingested_in from until) (held TD telemetry)"
  have docs: "mset docs = mset ?held" "mset usage = mset (filter (usage_between (date_str from) (date_str until)) (held AD activity))"
    using assms(1,2) run(2,3) unfolding find_law_def by blast+
  have len: "length docs = length ?held" using docs(1) by (metis size_mset)
  have ev: "events_of dev docs = events_of dev ?held" for dev
    unfolding events_of_def using docs(1) by (metis mset_filter size_mset)
  define fs where "fs = count_fleet now ds"
  define tt where "tt = telemetry_of (fl_devices fs) (map (group_row docs) (remdups (map (\<lambda>d. get d ''device_id'') docs)))"
  define us where "us = usage_of (tt_rows tt) usage"
  obtain rows n where counts: "count_missing c store (we_reads env) from until (we_devices env (map fst (us_rows us))) ((us_rows us, tt_browser tt), w) = Some ((rows, n), w')"
    and reply0: "weekly_reply env gp now from until fs tt us (rows, n) = Obj reply"
    using assms(5,7) run
    by (auto simp: weeklyReportHandler_def telemetry_groups_def Let_def fs_def tt_def us_def split: if_splits)
  have final: "same_events (us_rows us) rows"
    using counts by (auto simp: count_missing_def same_events_refl split: option.splits dest: browser_keeps_events)
  have few: "length docs < 2 ^ 53" using assms(6) len by simp
  note counted = telemetry_counted [OF few fleet_rows [of now ds], folded fs_def, folded tt_def]
  have "same_events (tt_rows tt) rows"
    using usage_keeps_events [of "\<lparr>us_apps = [], us_dates = [], us_device_dates = [], us_seconds = 0, us_sessions = 0, us_rows = tt_rows tt\<rparr>" usage] final
    same_events_trans by (fastforce simp: us_def usage_of_def)
  note same = this
  have rows: "rd_id item = dev \<and> rd_events item = events_of dev ?held" if found: "map_of rows dev = Some item" for dev item
  proof -
    obtain item0 where "map_of (tt_rows tt) dev = Some item0" "rd_id item = rd_id item0" "rd_events item = rd_events item0"
      by (rule same_events_row [OF same found])
    then show ?thesis using counted(3) ev by simp
  qed
  let ?top = "top_apps (we_apps env) (us_apps us)"
  have apps: "us_apps us = foldl add_use [] (app_uses usage)" by (simp add: us_def usage_of_def usage_apps)
  obtain ks where ks: "distinct ks" "set ks = (\<lambda>(dev, name, s, n). appKey name) ` set (app_uses usage)"
      "map app_json ?top = map (app_reference (app_uses usage)) ks"
      "sorted_wrt (\<lambda>x y. row_seconds y \<le> row_seconds x) (map app_json ?top)"
    using top_apps_rows [OF totals_of_fold [of "app_uses usage"] assms(3)] unfolding apps by blast
  have "distinct (map fst rows)"
    using same counted(2) fleet_distinct [of now ds] by (simp add: same_events_def fs_def)
  then have shown: "\<exists>m. report_json d = Obj m \<and> get m ''telemetry_events'' = Int_v (events_of (str_of (get m ''device_id'')) ?held)"
    if "d \<in> set (device_rows (we_rows env) rows)" for d
  proof -
    have "set (we_rows env (map snd rows)) = set (map snd rows)" using assms(4) mset_eq_setD by blast
    then have "d \<in> snd ` set rows" using that by (simp add: device_rows_def)
    then obtain dev where "(dev, d) \<in> set rows" by force
    then have "rd_id d = dev \<and> rd_events d = events_of dev ?held" using \<open>distinct (map fst rows)\<close> rows by simp
    then show ?thesis by (simp add: report_json_def filled_def get_def)
  qed
  have reply: "get reply ''devices'' = Arr (map report_json (device_rows (we_rows env) rows))"
      "\<exists>cov. get reply ''coverage'' = Obj cov \<and> get cov ''telemetry_events'' = Int_v (tt_events tt)"
      "\<exists>use. get reply ''app_usage'' = Obj use \<and> get use ''top_apps'' = Arr (map app_json ?top)"
    using reply0 by (auto simp: weekly_reply_def Let_def)
  have "\<exists>out. get reply ''devices'' = Arr out \<and> (\<forall>x \<in> set out. \<exists>m. x = Obj m \<and>
        get m ''telemetry_events'' = Int_v (events_of (str_of (get m ''device_id'')) ?held))"
    unfolding reply(1) using shown by auto
  moreover have "\<exists>cov. get reply ''coverage'' = Obj cov \<and> get cov ''telemetry_events'' = Int_v (int (length ?held))"
    using reply(2) counted(1) len by simp
  ultimately show ?thesis using reply(3) docs(2) ks by metis
qed

subsection \<open>Applied\<close>

definition history_docs :: "obj list" where
  "history_docs = [[(''_id'', Str ''1''), (''device_id'', Str ''d1''), (''slim'', Bool_v True)],
                   [(''_id'', Str ''2''), (''device_id'', Str ''d1''), (''telemetry_archive'', BObj [(''bucket'', Str ''b''), (''key'', Str ''k'')])],
                   [(''_id'', Str ''3''), (''device_id'', Str ''d2'')]]"

definition history_world :: bodies where
  "history_world = ([], [(''k'', Obj [(''device_id'', Str ''d1''), (''event_id'', Str ''e'')])])"

definition history_body :: val where
  "history_body = Arr [BObj [(''device_id'', Str ''d1''), (''event_id'', Str ''e''), (''_id'', Str ''2''),
      (''telemetry_archive'', BObj [(''bucket'', Str ''b''), (''key'', Str ''k'')])], BObj (history_docs ! 0)]"

lemma list_finds: "find_law list_driver"
  by (rule list_driver_laws [unfolded driver_laws_def, THEN conjunct1])

theorem history_shows_reports_witness:
  "\<exists>limit docs outs. newest limit (mset (filter (same_device ''d1'') history_docs)) docs
    \<and> list_all2 (displays (\<lambda>_. body_content) (Some browser_store) history_world) docs outs \<and> history_body = Arr (map BObj outs)"
proof -
  have run: "historyHandler list_driver (\<lambda>_. body_s3) (Some browser_store) (\<lambda>js. js) ''GET'' ''/devices/d1/history'' [] history_docs history_world
      = (Some (Json 200 history_body), history_world)"
    by code_simp
  have parts: "split_on CHR ''/'' ''/devices/d1/history'' ! 2 = ''d1''" by code_simp
  have held: "held list_driver history_docs = history_docs" by (simp add: list_driver_def)
  show ?thesis
    using history_shows_reports [where content = "\<lambda>_. body_content", OF list_finds body_reads refl run] unfolding parts held by blast
qed

definition archiving_env :: "(obj list, obj list, obj list, obj list, bodies) ingest_env" where
  "archiving_env = \<lparr>ie_hash = (\<lambda>k. k), ie_devices = list_driver, ie_telemetry = list_driver, ie_activity = list_driver,
     ie_revocations = list_driver, ie_s3 = (\<lambda>_. body_s3), ie_digest = (\<lambda>_. ''00''), ie_browser_archive = None,
     ie_day_archive = None, ie_payload_archive = Some browser_store, ie_clock = (\<lambda>_. \<lparr>inst = 0, off = 0\<rparr>), ie_set = document_update,
     ie_dup = (\<lambda>_ _. False), ie_sprint = (\<lambda>_. []), ie_groups = (\<lambda>gs. gs), ie_apps = (\<lambda>vs. vs), ie_collectors = (\<lambda>m. m),
     ie_store_full = False, ie_snapshot_minutes = 60\<rparr>"

theorem archived_report_returns_witness:
  "\<exists>out. get out ''_id'' = Str ''1'' \<and> get out ''event_id'' = Str ''e1''"
proof -
  obtain payload' r w1 where run: "archive_payload archiving_env ''dev'' small_report ([], []) = (Some (payload', Some r), w1)"
    by (auto simp: archive_payload_def archiving_env_def telemetry_Archive_def body_s3_def Let_def)
  let ?doc = "al_upd ''_id'' (Str ''1'') (stored (fst (telemetryDocForStorage False 60 (\<lambda>_. []) zero_time zero_time payload' (Some r) Map.empty)))"
  have env: "ie_payload_archive archiving_env = Some browser_store" "ie_s3 archiving_env (ar_bucket browser_store) = body_s3"
    by (simp_all add: archiving_env_def)
  have puts: "puts_law (ie_s3 archiving_env (ar_bucket browser_store)) body_stored body_content" using body_puts env(2) by simp
  have r: "r = [(''bucket'', Str ''b''), (''key'', Str (telemetry_key (\<lambda>_. ''00'') browser_store \<lparr>inst = 0, off = 0\<rparr> ''dev'' small_report))]"
      "w1 = snd (s3_put body_s3 (telemetry_key (\<lambda>_. ''00'') browser_store \<lparr>inst = 0, off = 0\<rparr> ''dev'' small_report) (json_val (Obj small_report)) Always ([], []))"
    using run by (auto simp: archive_payload_def archiving_env_def telemetry_Archive_def body_s3_def browser_store_def Let_def)
  have arch: "archive_of ?doc = Some r"
    using r(1) by (simp add: archive_of_def get_stored telemetryDocForStorage_def telemetryMetadata_def get_with_data get_fields metadata_fields_def)
  have "\<exists>p. body_content w1 (snd (object_of browser_store r)) = Some (Obj p)"
    using r by (simp add: object_of_def Let_def body_s3_def body_content_def)
  then obtain p where "body_content w1 (snd (object_of browser_store r)) = Some (Obj p)" by blast
  then have "displays (\<lambda>_. body_content) (Some browser_store) w1 ?doc (hydrated ?doc r p)"
    using arch by (auto simp: displays_def case_prod_beta simp del: get_upd)
  from archived_report_returns [where content = "\<lambda>_. body_content", OF puts env(1) run refl this]
  have "get (hydrated ?doc r p) ''_id'' = Str ''1''" "get (hydrated ?doc r p) ''event_id'' = json_val (get small_report ''event_id'')" by simp_all
  then show ?thesis by (intro exI [of _ "hydrated ?doc r p"]) (simp add: small_report_def)
qed

definition weekly_sample :: weekly_env where
  "weekly_sample = \<lparr>we_apps = (\<lambda>xs. xs), we_rows = (\<lambda>xs. xs), we_devices = (\<lambda>xs. xs), we_reads = (\<lambda>_ ks. ks)\<rparr>"

definition sample_ingested :: "obj list" where
  "sample_ingested = [[(''device_id'', Str ''d1''), (''ingested_at'', Date_v \<lparr>inst = 5 * day_ns, off = 0\<rparr>)],
                      [(''device_id'', Str ''d1''), (''ingested_at'', Date_v \<lparr>inst = 50 * day_ns, off = 0\<rparr>)]]"

theorem weekly_totals_witness:
  "\<exists>reply cov. get reply ''coverage'' = Obj cov \<and> get cov ''telemetry_events'' = Int_v 1"
proof -
  let ?now = "\<lparr>inst = 8 * day_ns, off = 0\<rparr>"
  have range: "weekly_range ?now [] [] = Inr (\<lparr>inst = 2 * day_ns, off = 0\<rparr>, \<lparr>inst = 9 * day_ns - 1, off = 0\<rparr>)" by code_simp
  have reply: "\<exists>reply. weekly_reply env gp t a b fs tt us rows = Obj reply" for env gp t a b fs tt us rows
    by (simp add: weekly_reply_def Let_def)
  have "\<exists>env gp t from until fs tt us rows w'.
      weeklyReportHandler list_driver list_driver list_driver body_s3 None weekly_sample globalPolicy ''GET'' (\<lambda>_. []) ?now
        [[(''device_id'', Str ''d1'')]] sample_ingested [] ([], []) = Some (Json 200 (weekly_reply env gp t from until fs tt us rows), w')"
    unfolding weeklyReportHandler_def range count_missing_def telemetry_groups_def Let_def
    by (simp add: list_driver_def) blast
  then obtain reply w' where run: "weeklyReportHandler list_driver list_driver list_driver body_s3 None weekly_sample globalPolicy ''GET'' (\<lambda>_. []) ?now
      [[(''device_id'', Str ''d1'')]] sample_ingested [] ([], []) = Some (Json 200 (Obj reply), w')"
    using reply by metis
  have one: "length (filter (ingested_in \<lparr>inst = 2 * day_ns, off = 0\<rparr> \<lparr>inst = 9 * day_ns - 1, off = 0\<rparr>) (held list_driver sample_ingested)) = 1"
    by code_simp
  have few: "length (filter (ingested_in \<lparr>inst = 2 * day_ns, off = 0\<rparr> \<lparr>inst = 9 * day_ns - 1, off = 0\<rparr>) (held list_driver sample_ingested)) < 2 ^ 53"
    unfolding one by simp
  have perms: "mset (we_apps weekly_sample xs) = mset xs" "mset (we_rows weekly_sample ys) = mset ys" for xs ys by (simp_all add: weekly_sample_def)
  note total = weekly_totals [OF list_finds list_finds perms range few run, THEN conjunct1, unfolded one]
  then show ?thesis unfolding of_nat_1 by blast
qed

text \<open>A report may carry a \<^verbatim>\<open>telemetry_archive\<close> of its own. Without a payload archive it is stored as it came, and the
  history of the device is refused from then on.\<close>

theorem forged_archive_hides_history:
  "let report = al_upd ''telemetry_archive'' (Obj [(''key'', Str ''x'')]) small_report;
       docs = iw_telemetry (snd (ingestHandler small_env ''POST'' ''key'' (Json_body (Obj report)) small_world))
   in historyHandler list_driver (\<lambda>_. no_bucket) None (\<lambda>js. js) ''GET'' ''/devices/dev/history'' [] docs ()
        = (Some (HttpError 503 ''Telemetry S3 archive is not configured''), ())"
  by code_simp

end
