(* ===== verification/InstalledApps.thy ===== *)
theory InstalledApps
  imports Paths
begin

text \<open>
  The list of installed applications, \<^verbatim>\<open>agent/collector/installed_apps.go\<close>: bundles on macOS; on Linux the launchers, and the
  package databases when there are none. \<open>plist\<close> decodes an \<^verbatim>\<open>Info.plist\<close> and \<open>rpm\<close> runs the query on the RPM database;
  both are libraries. The Windows registry is read in another file and enters as a list.
\<close>

named_theorems installed \<open>facts on installed applications\<close>

record AppEntry =
  ae_name :: string
  ae_version :: string
  ae_bundle :: string
  ae_path :: string
  ae_source :: string

subsection \<open>Launchers\<close>

record desktopEntry =
  de_name :: string
  de_generic :: string
  de_exec :: string
  de_hidden :: bool
  de_noDisplay :: bool
  de_type :: string
  de_categories :: string

definition no_entry :: desktopEntry where
  "no_entry = \<lparr>de_name = [], de_generic = [], de_exec = [], de_hidden = False, de_noDisplay = False, de_type = [], de_categories = []\<rparr>"

fun replace_escapes :: "string \<Rightarrow> string" where
  "replace_escapes (a # b # s) =
     (if a = CHR 0x5C \<and> b \<in> {CHR ''s'', CHR ''n'', CHR ''t''} then CHR '' '' # replace_escapes s
      else if a = CHR 0x5C \<and> b = CHR 0x5C then CHR 0x5C # replace_escapes s
      else a # replace_escapes (b # s))"
| "replace_escapes s = s"

definition decodeDesktopString :: "string \<Rightarrow> string" where
  "decodeDesktopString value = trim_space (replace_escapes value)"

definition set_key :: "string \<Rightarrow> string \<Rightarrow> desktopEntry \<Rightarrow> desktopEntry" where
  "set_key key value e =
     (if key = ''Name'' then e\<lparr>de_name := decodeDesktopString value\<rparr>
      else if key = ''GenericName'' then e\<lparr>de_generic := decodeDesktopString value\<rparr>
      else if key = ''Exec'' then e\<lparr>de_exec := trim_space value\<rparr>
      else if key = ''Hidden'' then e\<lparr>de_hidden := eq_fold (trim_space value) ''true''\<rparr>
      else if key = ''NoDisplay'' then e\<lparr>de_noDisplay := eq_fold (trim_space value) ''true''\<rparr>
      else if key = ''Type'' then e\<lparr>de_type := trim_space value\<rparr>
      else if key = ''Categories'' then e\<lparr>de_categories := trim_space value\<rparr>
      else e)"

definition entry_line :: "bool \<times> desktopEntry \<Rightarrow> string \<Rightarrow> bool \<times> desktopEntry" where
  "entry_line st raw =
     (let line = trim_space raw
      in if line = [] \<or> prefix ''#'' line then st
         else if prefix ''['' line \<and> suffix '']'' line then (line = ''[Desktop Entry]'', snd st)
         else if \<not> fst st then st
         else (case cut_at CHR ''='' line of None \<Rightarrow> st | Some (key, value) \<Rightarrow> (fst st, set_key key value (snd st))))"

definition parseDesktopEntry :: "string option \<Rightarrow> desktopEntry option" where
  "parseDesktopEntry content =
     (case content of None \<Rightarrow> None
      | Some s \<Rightarrow> (case scan_lines s of (ls, ok) \<Rightarrow> if ok then Some (snd (foldl entry_line (False, no_entry) ls)) else None))"

definition shouldSkipDesktopEntry :: "desktopEntry \<Rightarrow> bool" where
  "shouldSkipDesktopEntry e \<longleftrightarrow>
     de_hidden e \<or> de_noDisplay e \<or> (de_type e \<noteq> [] \<and> de_type e \<noteq> ''Application'') \<or> de_name e = [] \<or> de_exec e = []"

definition desktop_dirs :: "string \<Rightarrow> string list" where
  "desktop_dirs home =
     [''/usr/share/applications'', ''/usr/local/share/applications'', ''/var/lib/flatpak/exports/share/applications'',
      ''/var/lib/snapd/desktop/applications'']
     @ (if home = [] then [] else [filepath_join [home, ''.local/share/applications''],
                                   filepath_join [home, ''.local/share/flatpak/exports/share/applications'']])"

text \<open>The launchers of a directory that are to be shown, each with its file name and path.\<close>

definition launcher :: "files \<Rightarrow> string \<Rightarrow> string \<times> bool \<Rightarrow> (string \<times> string \<times> desktopEntry) option" where
  "launcher fs dir e =
     (case e of (name, is_dir) \<Rightarrow>
        if is_dir \<or> \<not> suffix ''.desktop'' name then None
        else let path = filepath_join [dir, name]
             in (case parseDesktopEntry (text_of fs path) of None \<Rightarrow> None
                 | Some entry \<Rightarrow> if shouldSkipDesktopEntry entry then None else Some (name, path, entry)))"

definition launchers :: "files \<Rightarrow> string \<Rightarrow> (string \<times> string \<times> desktopEntry) list" where
  "launchers fs dir = (case dir_of fs dir of None \<Rightarrow> [] | Some es \<Rightarrow> List.map_filter (launcher fs dir) es)"

definition launcher_name :: "string \<times> string \<times> desktopEntry \<Rightarrow> string" where
  "launcher_name l = (case l of (file, path, entry) \<Rightarrow> if de_name entry = [] then trim_suffix file ''.desktop'' else de_name entry)"

definition low_name :: "AppEntry \<Rightarrow> string" where
  "low_name a = to_lower (ae_name a)"

definition add_launcher :: "AppEntry list \<Rightarrow> string \<times> string \<times> desktopEntry \<Rightarrow> AppEntry list" where
  "add_launcher apps l =
     (if to_lower (launcher_name l) \<in> set (map low_name apps) then apps
      else apps @ [\<lparr>ae_name = launcher_name l, ae_version = [], ae_bundle = [], ae_path = fst (snd l), ae_source = ''desktop_entries''\<rparr>])"

definition scanLinuxDesktopApps :: "files \<Rightarrow> string \<Rightarrow> AppEntry list" where
  "scanLinuxDesktopApps fs home =
     sort_key low_name (foldl add_launcher [] (concat (map (launchers fs) (desktop_dirs home))))"

subsection \<open>Package databases\<close>

record dpkg_state =
  dp_apps :: "AppEntry list"
  dp_name :: string
  dp_version :: string
  dp_status :: string

definition dpkg_flush :: "dpkg_state \<Rightarrow> dpkg_state" where
  "dpkg_flush st =
     \<lparr>dp_apps = (if dp_name st \<noteq> [] \<and> contains_str (dp_status st) ''installed''
                 then dp_apps st @ [\<lparr>ae_name = dp_name st, ae_version = dp_version st, ae_bundle = [], ae_path = [], ae_source = ''dpkg''\<rparr>]
                 else dp_apps st),
      dp_name = [], dp_version = [], dp_status = []\<rparr>"

definition dpkg_line :: "dpkg_state \<Rightarrow> string \<Rightarrow> dpkg_state" where
  "dpkg_line st line =
     (if line = [] then dpkg_flush st
      else if prefix ''Package: '' line then st\<lparr>dp_name := drop 9 line\<rparr>
      else if prefix ''Version: '' line then st\<lparr>dp_version := drop 9 line\<rparr>
      else if prefix ''Status: '' line then st\<lparr>dp_status := drop 8 line\<rparr>
      else st)"

text \<open>An error of the scanner is not looked at: the packages before it are returned.\<close>

definition parseDpkgStatus :: "string option \<Rightarrow> AppEntry list" where
  "parseDpkgStatus content =
     (case content of None \<Rightarrow> []
      | Some s \<Rightarrow> dp_apps (dpkg_flush (foldl dpkg_line \<lparr>dp_apps = [], dp_name = [], dp_version = [], dp_status = []\<rparr> (fst (scan_lines s)))))"

definition desc_line :: "string list \<Rightarrow> string \<times> string \<Rightarrow> nat \<Rightarrow> string \<times> string" where
  "desc_line ls nv i =
     (let value = (if i + 1 < length ls then Some (trim_space (ls ! (i + 1))) else None)
      in (case value of None \<Rightarrow> nv
          | Some v \<Rightarrow> if ls ! i = ''%NAME%'' then (v, snd nv) else if ls ! i = ''%VERSION%'' then (fst nv, v) else nv))"

definition parsePacmanDesc :: "string \<Rightarrow> string \<times> string" where
  "parsePacmanDesc content =
     (let ls = split_on CHR 0x0A content in foldl (desc_line ls) ([], []) [0..<length ls])"

definition pacman_app :: "files \<Rightarrow> string \<Rightarrow> string \<times> bool \<Rightarrow> AppEntry option" where
  "pacman_app fs dir e =
     (case e of (name, is_dir) \<Rightarrow>
        if \<not> is_dir then None
        else (case text_of fs (filepath_join [dir, name, ''desc'']) of None \<Rightarrow> None
              | Some content \<Rightarrow> (case parsePacmanDesc content of (n, v) \<Rightarrow>
                  if n = [] then None
                  else Some \<lparr>ae_name = n, ae_version = v, ae_bundle = [], ae_path = [], ae_source = ''pacman''\<rparr>)))"

definition parsePacmanDB :: "files \<Rightarrow> string \<Rightarrow> AppEntry list" where
  "parsePacmanDB fs dir = (case dir_of fs dir of None \<Rightarrow> [] | Some es \<Rightarrow> List.map_filter (pacman_app fs dir) es)"

text \<open>\<open>rpm path\<close> is \<open>None\<close> when the first query or its rows fail, and its rows otherwise; a row \<^verbatim>\<open>Scan\<close> refuses is \<open>None\<close>.\<close>

definition rpm_app :: "(string \<times> string) option \<Rightarrow> AppEntry option" where
  "rpm_app row =
     (case row of Some (n, v) \<Rightarrow>
        if n = [] then None else Some \<lparr>ae_name = n, ae_version = v, ae_bundle = [], ae_path = [], ae_source = ''rpm''\<rparr>
      | None \<Rightarrow> None)"

definition queryRPMSqlite :: "(string \<Rightarrow> (string \<times> string) option list option) \<Rightarrow> string \<Rightarrow> AppEntry list" where
  "queryRPMSqlite rpm path = (case rpm path of None \<Rightarrow> [] | Some rows \<Rightarrow> List.map_filter rpm_app rows)"

definition parseRPMDB :: "(string \<Rightarrow> bool) \<Rightarrow> (string \<Rightarrow> (string \<times> string) option list option) \<Rightarrow> AppEntry list" where
  "parseRPMDB exists rpm =
     (case find exists [''/var/lib/rpm/rpmdb.sqlite'', ''/var/lib/rpm/Packages.db'', ''/usr/lib/sysimage/rpm/rpmdb.sqlite'',
                        ''/usr/lib/sysimage/rpm/Packages.db''] of
        None \<Rightarrow> [] | Some path \<Rightarrow> queryRPMSqlite rpm path)"

subsection \<open>Bundles\<close>

record infoPlist =
  ip_display :: string
  ip_name :: string
  ip_version :: string
  ip_short :: string
  ip_identifier :: string

definition first_filled :: "string list \<Rightarrow> string" where
  "first_filled ss = (case filter (\<lambda>s. s \<noteq> []) ss of [] \<Rightarrow> [] | s # _ \<Rightarrow> s)"

definition app_bundle :: "(string \<Rightarrow> infoPlist option) \<Rightarrow> files \<Rightarrow> string \<Rightarrow> string \<times> bool \<Rightarrow> (string \<times> AppEntry) option" where
  "app_bundle plist fs dir e =
     (let path = filepath_join [dir, fst e]
      in if \<not> suffix ''.app'' (fst e) then None
         else (case Option.bind (text_of fs (filepath_join [path, ''Contents'', ''Info.plist''])) plist of None \<Rightarrow> None
           | Some i \<Rightarrow> Some (first_filled [ip_identifier i, path],
               \<lparr>ae_name = first_filled [ip_display i, ip_name i, trim_suffix (fst e) ''.app''],
                ae_version = first_filled [ip_short i, ip_version i], ae_bundle = ip_identifier i, ae_path = path, ae_source = ''macos_bundle''\<rparr>)))"

definition add_bundle :: "(string \<times> AppEntry) list \<Rightarrow> string \<times> AppEntry \<Rightarrow> (string \<times> AppEntry) list" where
  "add_bundle apps b = (if fst b \<in> set (map fst apps) then apps else apps @ [b])"

definition scanMacOSApps :: "(string \<Rightarrow> infoPlist option) \<Rightarrow> files \<Rightarrow> string \<Rightarrow> AppEntry list" where
  "scanMacOSApps plist fs home =
     map snd (foldl add_bundle []
       (concat (map (\<lambda>dir. case dir_of fs dir of None \<Rightarrow> [] | Some es \<Rightarrow> List.map_filter (app_bundle plist fs dir) es)
          [''/Applications'', ''/System/Applications'', ''/System/Applications/Utilities'', filepath_join [home, ''Applications'']])))"

subsection \<open>The collector\<close>

text \<open>The applications and where they come from.\<close>

definition InstalledApps_Collect ::
  "string \<Rightarrow> files \<Rightarrow> (string \<Rightarrow> infoPlist option) \<Rightarrow> (string \<Rightarrow> bool) \<Rightarrow> (string \<Rightarrow> (string \<times> string) option list option)
     \<Rightarrow> AppEntry list \<Rightarrow> string \<Rightarrow> AppEntry list \<times> string" where
  "InstalledApps_Collect goos fs plist exists rpm registry home =
     (if goos = ''darwin'' then (scanMacOSApps plist fs home, ''macos_bundle'')
      else if goos = ''linux'' then
        (let desktop = scanLinuxDesktopApps fs home; dpkg = parseDpkgStatus (text_of fs ''/var/lib/dpkg/status'');
             pacman = parsePacmanDB fs ''/var/lib/pacman/local''; rpms = parseRPMDB exists rpm
         in if desktop \<noteq> [] then (desktop, ''desktop_entries'') else if dpkg \<noteq> [] then (dpkg, ''dpkg_packages'')
            else if pacman \<noteq> [] then (pacman, ''pacman_packages'') else if rpms \<noteq> [] then (rpms, ''rpm_packages'') else ([], []))
      else if goos = ''windows'' then (registry, ''registry'') else ([], []))"

subsection \<open>Laws\<close>

lemma low_name_entry [installed]:
  "low_name \<lparr>ae_name = n, ae_version = v, ae_bundle = b, ae_path = p, ae_source = src\<rparr> = to_lower n"
  by (simp add: low_name_def)

lemma add_launchers_laws:
  "distinct (map low_name apps) \<Longrightarrow> distinct (map low_name (foldl add_launcher apps ls))
     \<and> low_name ` set (foldl add_launcher apps ls) = low_name ` set apps \<union> to_lower ` launcher_name ` set ls
     \<and> ae_path ` set (foldl add_launcher apps ls) \<subseteq> ae_path ` set apps \<union> (fst \<circ> snd) ` set ls"
proof (induction ls arbitrary: apps)
  case (Cons l ls)
  let ?apps = "add_launcher apps l"
  have step: "distinct (map low_name ?apps)" "low_name ` set ?apps = insert (to_lower (launcher_name l)) (low_name ` set apps)"
      "ae_path ` set ?apps \<subseteq> insert (fst (snd l)) (ae_path ` set apps)"
    using Cons.prems by (auto simp: add_launcher_def low_name_entry)
  have "distinct (map low_name (foldl add_launcher ?apps ls))"
      "low_name ` set (foldl add_launcher ?apps ls) = low_name ` set ?apps \<union> to_lower ` launcher_name ` set ls"
      "ae_path ` set (foldl add_launcher ?apps ls) \<subseteq> ae_path ` set ?apps \<union> (fst \<circ> snd) ` set ls"
    using Cons.IH [OF step(1)] by blast+
  then show ?case using step(2,3) by (simp del: set_map) blast
qed simp

lemma launcher_named: "(file, path, e) \<in> set (launchers fs dir) \<Longrightarrow> de_name e \<noteq> [] \<and> de_exec e \<noteq> [] \<and> \<not> de_hidden e \<and> \<not> de_noDisplay e"
proof -
  have "(file, path, e) \<in> set (List.map_filter (launcher fs dir) es) \<Longrightarrow> de_name e \<noteq> [] \<and> de_exec e \<noteq> [] \<and> \<not> de_hidden e \<and> \<not> de_noDisplay e" for es
    by (induction es) (auto simp: map_filter_simps launcher_def shouldSkipDesktopEntry_def Let_def split: option.splits if_splits prod.splits)
  then show "(file, path, e) \<in> set (launchers fs dir) \<Longrightarrow> ?thesis" by (auto simp: launchers_def split: option.splits)
qed

definition visible_launchers :: "files \<Rightarrow> string \<Rightarrow> (string \<times> string \<times> desktopEntry) set" where
  "visible_launchers fs home = (\<Union>dir \<in> set (desktop_dirs home). set (launchers fs dir))"

text \<open>The list of applications on Linux names every visible launcher once, whatever the case of the letters, in
  the order of the names, and each entry is a launcher at its path.\<close>

theorem desktop_apps_listed:
  "sorted_wrt (\<lambda>x y. low_name x < low_name y) (scanLinuxDesktopApps fs home)
   \<and> low_name ` set (scanLinuxDesktopApps fs home) = (\<lambda>(file, path, e). to_lower (de_name e)) ` visible_launchers fs home
   \<and> ae_path ` set (scanLinuxDesktopApps fs home) \<subseteq> (\<lambda>(file, path, e). path) ` visible_launchers fs home"
proof -
  let ?ls = "concat (map (launchers fs) (desktop_dirs home))"
  have ls: "set ?ls = visible_launchers fs home" by (auto simp: visible_launchers_def)
  note laws = add_launchers_laws [of "[]" ?ls, unfolded ls]
  have "to_lower ` launcher_name ` visible_launchers fs home = (\<lambda>(file, path, e). to_lower (de_name e)) ` visible_launchers fs home"
    unfolding image_image by (rule image_cong) (auto simp: visible_launchers_def launcher_name_def dest: launcher_named)
  then have names: "low_name ` set (scanLinuxDesktopApps fs home) = (\<lambda>(file, path, e). to_lower (de_name e)) ` visible_launchers fs home"
    using laws by (simp add: scanLinuxDesktopApps_def)
  have "distinct (map low_name (scanLinuxDesktopApps fs home))"
    unfolding scanLinuxDesktopApps_def using laws by (simp add: distinct_map)
  moreover have "sorted (map low_name (scanLinuxDesktopApps fs home))" by (simp add: scanLinuxDesktopApps_def)
  ultimately have "sorted_wrt (<) (map low_name (scanLinuxDesktopApps fs home))" by (simp add: strict_sorted_iff)
  moreover have "(fst \<circ> snd) ` visible_launchers fs home = (\<lambda>(file, path, e). path) ` visible_launchers fs home" by (rule image_cong) auto
  ultimately show ?thesis using names laws by (simp add: scanLinuxDesktopApps_def sorted_wrt_map)
qed

text \<open>dpkg writes the state of a package it knows but has not installed with the same word.\<close>

theorem not_installed_listed:
  "map ae_name (parseDpkgStatus (Some (''Package: vim'' @ [CHR 0x0A] @ ''Status: unknown ok not-installed'' @ [CHR 0x0A]))) = [''vim'']"
  by code_simp

text \<open>Spaces around the equals sign, which the format allows, make a key unknown.\<close>

theorem spaced_keys_unread:
  "map_option shouldSkipDesktopEntry (parseDesktopEntry (Some (''[Desktop Entry]'' @ [CHR 0x0A] @ ''Name = App'' @ [CHR 0x0A] @ ''Exec = app'' @ [CHR 0x0A]))) = Some True"
  by code_simp

end
