(* ===== verification/Foreground.thy ===== *)
theory Foreground
  imports InstalledApps FocusTracker "HOL-Library.Word"
begin

text \<open>
  How the agent finds the application with the focus on Linux, \<^verbatim>\<open>agent/collector/active_window_linux*.go\<close>: the dispatcher
  over the display servers, the X11 query, the answers of GNOME, KDE and Sway, the search in the sessions of the
  logged-in users, and the guess from \<^verbatim>\<open>/proc\<close>. The X server, the session bus and the socket are not part of the program:
  their answers are records. \<open>typed_reply\<close> states how an X server answers a request for a property of another type.
\<close>

named_theorems foreground \<open>facts on the foreground application\<close>

subsection \<open>Names that never count\<close>

definition ignoredLinuxForegroundProcesses :: "string list" where
  "ignoredLinuxForegroundProcesses =
    [''devicepulse-age'', ''devicepulse-agent'', ''systemd'', ''systemd-journald'', ''systemd-logind'', ''systemd-udevd'',
     ''systemd-resolved'', ''systemd-networkd'', ''systemd-timesyncd'', ''systemd-hostnamed'', ''systemd-machined'',
     ''systemd-oomd'', ''init'', ''apt-check'', ''apt.systemd.daily'', ''apt-get'', ''dpkg'', ''packagekitd'',
     ''packagekit'', ''snapd'', ''snap'', ''appstreamcli'', ''xdelta3'', ''unattended-upgr'', ''unattended-upgrade'',
     ''update-notifier'', ''dnf'', ''yum'', ''rpm'', ''zypper'', ''pacman'', ''flatpak'', ''dbus-daemon'', ''dbus-launch'',
     ''gdbus'', ''ibus-daemon'', ''ibus-x11'', ''ibus-portal'', ''at-spi-bus-launcher'', ''at-spi2-registryd'', ''Xorg'',
     ''xorg'', ''x11'', ''Xwayland'', ''xwayland'', ''mutter'', ''kwin_wayland'', ''kwin_x11'', ''kwin'', ''openbox'',
     ''xfwm4'', ''marco'', ''compiz'', ''picom'', ''compton'', ''sway'', ''wayfire'', ''gnome-shell'', ''gnome-session'',
     ''gnome-session-binary'', ''gnome-keyring-daemon'', ''gnome-settings-daemon'', ''gsd-media-keys'', ''gsd-power'',
     ''gsd-color'', ''gsd-keyboard'', ''gsd-print-notifications'', ''gsd-rfkill'', ''gsd-screensaver-proxy'',
     ''gsd-sharing'', ''gsd-smartcard'', ''gsd-sound'', ''gsd-usb-protection'', ''gsd-wacom'', ''gsd-wwan'',
     ''gsd-xsettings'', ''gnome-software'', ''evolution-source-registry'', ''evolution-calendar-factory'',
     ''evolution-addressbook-factory'', ''tracker-miner-fs'', ''tracker-store'', ''tracker-extract'', ''gvfsd'',
     ''gvfsd-fuse'', ''gvfs-udisks2-volume-monitor'', ''gvfs-goa-volume-monitor'', ''gvfs-mtp-volume-monitor'',
     ''gvfs-afc-volume-monitor'', ''plasmashell'', ''kded5'', ''kded6'', ''kdeinit5'', ''kdeinit6'', ''baloo_file'',
     ''akonadi_control'', ''akonadiserver'', ''kwalletd5'', ''kwalletd6'', ''kactivitymanagerd'', ''polkit-kde-auth'',
     ''upowerd'', ''udisksd'', ''bluetoothd'', ''NetworkManager'', ''networkmanager'', ''ModemManager'', ''wpa_supplicant'',
     ''avahi-daemon'', ''cups'', ''cupsd'', ''fwupd'', ''tlp'', ''thermald'', ''rtkit-daemon'', ''polkitd'', ''colord'',
     ''fprintd'', ''iio-sensor-proxy'', ''geoclue'', ''rsyslogd'', ''syslogd'', ''journald'', ''auditd'', ''crond'',
     ''cron'', ''atd'', ''sshd'', ''firewalld'', ''fail2ban-server'', ''nginx'', ''apache2'', ''httpd'', ''mysqld'',
     ''postgres'', ''redis-server'', ''dockerd'', ''docker-proxy'', ''containerd'', ''containerd-shim'', ''virtiofsd'',
     ''sh'', ''bash'', ''dash'', ''zsh'', ''fish'', ''python'', ''python3'', ''perl'', ''ruby'', ''node'', ''gjs'',
     ''xdg-permission-store'', ''xdg-document-portal'', ''xdg-desktop-portal'', ''pipewire'', ''pipewire-pulse'',
     ''wireplumber'', ''pulseaudio'', ''alsactl'', ''ssh-agent'', ''gpg-agent'', ''dconf-service'', ''gconfd-2'',
     ''gsettings'', ''obexd'', ''zeitgeist-daemon'', ''zeitgeist-fts'', ''mission-control-5'', ''tumblerd'', ''xfconfd'',
     ''light-locker'', ''xscreensaver'']"

definition isLinuxSystemProcess :: "string \<Rightarrow> bool" where
  "isLinuxSystemProcess key \<longleftrightarrow>
     list_ex (\<lambda>p. prefix p key) [''systemd-'', ''gsd-'', ''gvfs'', ''gvf-'', ''gnome-'', ''kde'', ''plasma'', ''akonadi'', ''dconf'', ''xdg-'',
       ''tracker'', ''zeitgeist'', ''evolution'', ''devicepulse-'']
     \<or> list_ex (contains_str key) [''snap-confine'', ''flatpak-spawn'', ''bwrap'']"

definition cleanLinuxForegroundApp :: "string \<Rightarrow> string" where
  "cleanLinuxForegroundApp raw =
     (let name = trim_space raw; key = trim_suffix (to_lower name) ''.service''
      in if name = [] \<or> key \<in> set ignoredLinuxForegroundProcesses \<or> isLinuxSystemProcess key \<or> contains_str key ''packagekit''
         then [] else name)"

subsection \<open>Desktop applications\<close>

definition normalizeLinuxDesktopKey :: "string \<Rightarrow> string" where
  "normalizeLinuxDesktopKey raw =
     (let value = trim_suffix (trim_set {CHR 0x22, CHR 0x27} (trim_space (to_lower raw))) ''.desktop''
      in if value = [] then [] else trim_suffix (trim_suffix (filepath_base value) ''.bin'') ''.sh'')"

text \<open>The first word of the command that is no field code and no assignment.\<close>

fun exec_token :: "string list \<Rightarrow> string option" where
  "exec_token [] = None"
| "exec_token (t # ts) =
     (let token = trim_set {CHR 0x22, CHR 0x27} t
      in if prefix ''%'' t \<or> CHR ''='' \<in> set t \<or> token = [] then exec_token ts else Some token)"

definition linuxDesktopEntryKeys :: "desktopEntry \<Rightarrow> string \<Rightarrow> string list" where
  "linuxDesktopEntryKeys entry path =
     (let candidates = [de_name entry, trim_suffix (filepath_base path) ''.desktop'']
            @ (case exec_token (fields_of (de_exec entry)) of None \<Rightarrow> [] | Some t \<Rightarrow> [t, filepath_base t])
      in rev (remdups (rev (filter (\<lambda>k. k \<noteq> []) (map normalizeLinuxDesktopKey candidates)))))"

definition user_dirs :: "files \<Rightarrow> string \<Rightarrow> string list" where
  "user_dirs fs base =
     (case dir_of fs base of None \<Rightarrow> []
      | Some users \<Rightarrow> concat (map (\<lambda>(user, is_dir). if \<not> is_dir then []
          else [filepath_join [filepath_join [base, user], ''.local/share/applications''],
                filepath_join [filepath_join [base, user], ''.local/share/flatpak/exports/share/applications'']]) users))"

definition linuxDesktopEntryDirs :: "files \<Rightarrow> string \<Rightarrow> string list" where
  "linuxDesktopEntryDirs fs home = desktop_dirs home @ concat (map (user_dirs fs) [''/home'', ''/Users''])"

text \<open>The index as the list of its keys; it is built at its first use and kept.\<close>

definition buildLinuxDesktopAppIndex :: "files \<Rightarrow> string \<Rightarrow> string list" where
  "buildLinuxDesktopAppIndex fs home =
     concat (map (\<lambda>dir. concat (map (\<lambda>(file, path, entry). linuxDesktopEntryKeys entry path) (launchers fs dir))) (linuxDesktopEntryDirs fs home))"

definition index_has :: "string list \<Rightarrow> string \<Rightarrow> bool" where
  "index_has idx name =
     (let key = normalizeLinuxDesktopKey name
      in key \<noteq> [] \<and> (key \<in> set idx \<or> list_ex (\<lambda>registered. registered \<noteq> [] \<and> contains_str key registered) idx))"

definition known_desktop_apps :: "string list" where
  "known_desktop_apps =
    [''chrome'', ''google-chrome'', ''google-chrome-stable'', ''chromium'', ''chromium-browser'', ''firefox'',
     ''firefox-esr'', ''brave'', ''brave-browser'', ''microsoft-edge'', ''microsoft-edge-stable'', ''opera'', ''vivaldi'',
     ''vivaldi-stable'', ''epiphany'', ''epiphany-browser'', ''midori'', ''waterfox'', ''librewolf'', ''tor browser'',
     ''torbrowser-launcher'', ''code'', ''code-insiders'', ''codium'', ''vscodium'', ''cursor'', ''windsurf'',
     ''antigravity'', ''antigravity-ide'', ''zed'', ''zed-editor'', ''sublime_text'', ''sublime-text'', ''subl'', ''atom'',
     ''pulsar'', ''gedit'', ''geany'', ''kate'', ''kwrite'', ''mousepad'', ''xed'', ''pluma'', ''idea'', ''idea.sh'',
     ''goland'', ''goland.sh'', ''pycharm'', ''pycharm.sh'', ''clion'', ''webstorm'', ''phpstorm'', ''rubymine'',
     ''datagrip'', ''rider'', ''eclipse'', ''netbeans'', ''netbeans64'', ''android-studio'', ''studio.sh'', ''vim'',
     ''nvim'', ''neovim'', ''emacs'', ''emacs-gtk'', ''claude'', ''claude-desktop'', ''chatgpt'', ''perplexity'',
     ''copilot'', ''github-copilot'', ''ollama'', ''lm-studio'', ''lmstudio'', ''jan'', ''gpt4all'', ''open-webui'',
     ''koboldcpp'', ''slack'', ''teams'', ''microsoft-teams'', ''zoom'', ''zoom.us'', ''discord'', ''telegram-desktop'',
     ''telegram'', ''signal-desktop'', ''signal'', ''whatsapp-for-linux'', ''whatsapp'', ''element'', ''element-desktop'',
     ''skype'', ''skypeforlinux'', ''thunderbird'', ''evolution'', ''geary'', ''mailspring'', ''protonmail-bridge'',
     ''nylas-mail'', ''mattermost-desktop'', ''mattermost'', ''rocketchat-desktop'', ''webex'', ''webex meetings'',
     ''notion'', ''notion-app'', ''obsidian'', ''logseq'', ''joplin'', ''zettlr'', ''libreoffice'', ''libreoffice-writer'',
     ''libreoffice-calc'', ''libreoffice-impress'', ''soffice'', ''soffice.bin'', ''onlyoffice-desktopeditors'', ''wps'',
     ''etherpad'', ''xournalpp'', ''okular'', ''evince'', ''zathura'', ''postman'', ''insomnia'', ''hoppscotch'',
     ''dbeaver'', ''dbeaver-ce'', ''beekeeper-studio'', ''tableplus'', ''pgadmin4'', ''pgadmin'', ''mongodb compass'',
     ''mongodb-compass'', ''robo-3t'', ''robo3t'', ''redis-insight'', ''redisinsight'', ''responsively'',
     ''stoplight-studio'', ''pico8'', ''docker desktop'', ''docker-desktop'', ''rancher-desktop'', ''podman-desktop'',
     ''helm-dashboard'', ''gnome-terminal'', ''gnome-terminal-server'', ''konsole'', ''xterm'', ''rxvt'', ''urxvt'',
     ''tilix'', ''terminator'', ''alacritty'', ''kitty'', ''wezterm'', ''wezterm-gui'', ''hyper'', ''tabby'',
     ''tabby-terminal'', ''yakuake'', ''guake'', ''xfce4-terminal'', ''mate-terminal'', ''lxterminal'', ''st'', ''foot'',
     ''ghostty'', ''figma'', ''figma-linux'', ''gimp'', ''inkscape'', ''blender'', ''darktable'', ''rawtherapee'',
     ''krita'', ''kdenlive'', ''openshot'', ''shotcut'', ''obs'', ''obs-studio'', ''audacity'', ''vlc'', ''mpv'',
     ''spotify'', ''rhythmbox'', ''clementine'', ''strawberry'', ''lollypop'', ''thunar'', ''nautilus'', ''nemo'',
     ''pcmanfm'', ''dolphin'', ''ranger'', ''gnome-system-monitor'', ''gnome-disk-utility'', ''baobab'', ''gparted'',
     ''virtualbox'', ''vmware'', ''virt-manager'', ''remmina'', ''vinagre'', ''wireshark'', ''zenmap'', ''burpsuite'',
     ''ghidra'', ''1password'', ''bitwarden'', ''keepassxc'', ''seahorse'', ''calibre'']"

definition desktop_families :: "string list" where
  "desktop_families =
    [''chrome'', ''chromium'', ''firefox'', ''electron'', ''mongodb'', ''cursor'', ''windsurf'', ''antigravity'',
     ''copilot'', ''claude'', ''chatgpt'', ''ollama'', ''vscode'', ''codium'', ''jetbrains'', ''intellij'', ''pycharm'',
     ''goland'', ''webstorm'', ''postman'', ''insomnia'', ''slack'', ''discord'', ''zoom'', ''teams'', ''notion'',
     ''obsidian'', ''figma'', ''1password'', ''bitwarden'', ''keepass'', ''wezterm'', ''alacritty'', ''ghostty'']"

definition isLikelyLinuxDesktopApp :: "string list \<Rightarrow> string \<Rightarrow> bool" where
  "isLikelyLinuxDesktopApp idx name =
     (let key = to_lower (trim_space name)
      in key \<noteq> [] \<and> (index_has idx key \<or> key \<in> set known_desktop_apps \<or> list_ex (contains_str key) desktop_families))"

subsection \<open>Processes\<close>

definition uid_line :: "string list \<Rightarrow> string" where
  "uid_line ls =
     (case find (prefix ''Uid:'') ls of None \<Rightarrow> []
      | Some line \<Rightarrow> (let ws = fields_of line in if length ws \<ge> 2 then ws ! 1 else []))"

definition getProcUID :: "string option \<Rightarrow> string" where
  "getProcUID status = (case status of None \<Rightarrow> [] | Some s \<Rightarrow> uid_line (split_on CHR 0x0A s))"

text \<open>\<^verbatim>\<open>getSelfUID\<close> goes on after a line that is too short.\<close>

definition getSelfUID :: "string option \<Rightarrow> string" where
  "getSelfUID status =
     (case status of None \<Rightarrow> []
      | Some s \<Rightarrow> (case find (\<lambda>l. prefix ''Uid:'' l \<and> length (fields_of l) \<ge> 2) (split_on CHR 0x0A s) of
          None \<Rightarrow> [] | Some line \<Rightarrow> fields_of line ! 1))"

definition human_uid :: "string \<Rightarrow> string option" where
  "human_uid raw =
     (let line = trim_space raw; cols = split_on CHR '':'' line
      in if line = [] \<or> prefix ''#'' line \<or> length cols < 7 then None
         else (case atoi (cols ! 2) of None \<Rightarrow> None
           | Some uid \<Rightarrow> if uid < 1000 \<or> contains_str (cols ! 6) ''nologin'' \<or> contains_str (cols ! 6) ''false'' then None else Some (cols ! 2)))"

definition humanUserUIDs :: "string option \<Rightarrow> string list" where
  "humanUserUIDs passwd = (case passwd of None \<Rightarrow> [] | Some s \<Rightarrow> List.map_filter human_uid (split_on CHR 0x0A s))"

text \<open>The fields of a stat line; the name stands between the first and the last parenthesis. A line with the last closing
  one before the first opening one makes the slice panic.\<close>

datatype stat_line = No_stat | Stat "string list" | Stat_panic

definition readProcStat :: "string option \<Rightarrow> stat_line" where
  "readProcStat content =
     (case content of None \<Rightarrow> No_stat
      | Some raw \<Rightarrow>
          let s = trim_space raw; lp = length (takeWhile (\<lambda>c. c \<noteq> CHR ''('') s)
          in (case last_index s '')'' of None \<Rightarrow> No_stat
              | Some rp \<Rightarrow> if lp = length s then No_stat
                  else if rp < lp then Stat_panic
                  else Stat (trim_space (take lp s) # take (rp - lp - 1) (drop (lp + 1) s) # fields_of (trim_space (drop (rp + 1) s)))))"

definition readComm :: "string option \<Rightarrow> string" where
  "readComm content = (case content of None \<Rightarrow> [] | Some s \<Rightarrow> trim_space s)"

definition readCmdline :: "string option \<Rightarrow> string" where
  "readCmdline content =
     (case content of None \<Rightarrow> []
      | Some s \<Rightarrow> if s = [] then []
          else (let arg = takeWhile (\<lambda>c. c \<noteq> CHR 0x00) s in if arg \<noteq> s \<and> arg \<noteq> [] then arg else trim_space s))"

subsection \<open>The guess from the processes\<close>

record candidate =
  c_pid :: string
  c_name :: string
  c_rss :: int
  c_cpu :: int
  c_delta :: int
  c_tty :: int
  c_pgid :: int
  c_tpgid :: int
  c_front :: bool
  c_desktop :: bool

definition no_candidate :: candidate where
  "no_candidate = \<lparr>c_pid = [], c_name = [], c_rss = 0, c_cpu = 0, c_delta = 0, c_tty = 0, c_pgid = 0, c_tpgid = 0, c_front = False, c_desktop = False\<rparr>"

definition target_uids :: "files \<Rightarrow> string list" where
  "target_uids fs =
     (let self = getSelfUID (text_of fs ''/proc/self/status'');
          humans = (if self = ''0'' then humanUserUIDs (text_of fs ''/etc/passwd'') else [])
      in if humans = [] \<and> self \<noteq> [] then [self] else humans)"

definition is_pid :: "string \<times> bool \<Rightarrow> bool" where
  "is_pid e \<longleftrightarrow> snd e \<and> fst e \<noteq> [] \<and> is_digit (hd (fst e))"

definition proc_path :: "string \<Rightarrow> string \<Rightarrow> string" where
  "proc_path pid what = ''/proc/'' @ pid @ ''/'' @ what"

definition proc_name :: "files \<Rightarrow> string \<Rightarrow> string" where
  "proc_name fs pid =
     (let comm = readComm (text_of fs (proc_path pid ''comm''))
      in if comm = [] then filepath_base (readCmdline (text_of fs (proc_path pid ''cmdline''))) else comm)"

text \<open>What becomes of a process in the first pass; \<open>None\<close> is a panic.\<close>

definition examine :: "files \<Rightarrow> string list \<Rightarrow> string list \<Rightarrow> string \<Rightarrow> candidate list option" where
  "examine fs idx uids pid =
     (if (uids \<noteq> [] \<and> getProcUID (text_of fs (proc_path pid ''status'')) \<notin> set uids) \<or> \<not> link_of fs (proc_path pid ''exe'') then Some []
      else (case readProcStat (text_of fs (proc_path pid ''stat'')) of
          Stat_panic \<Rightarrow> None | No_stat \<Rightarrow> Some []
        | Stat st \<Rightarrow>
            let name = proc_name fs pid; tty = int_of (st ! 6); pgid = int_of (st ! 4); tpgid = int_of (st ! 7)
            in if length st < 24 \<or> st ! 2 \<notin> {''S'', ''R'', ''D''} \<or> name = [] \<or> cleanLinuxForegroundApp name = [] then Some []
               else Some [\<lparr>c_pid = pid, c_name = name, c_rss = int_of (st ! 23), c_cpu = i64 (int_of (st ! 13) + int_of (st ! 14)), c_delta = 0,
                           c_tty = tty, c_pgid = pgid, c_tpgid = tpgid, c_front = (tty \<noteq> 0 \<and> pgid = tpgid),
                           c_desktop = isLikelyLinuxDesktopApp idx name\<rparr>]))"

fun examine_all :: "files \<Rightarrow> string list \<Rightarrow> string list \<Rightarrow> string list \<Rightarrow> candidate list option" where
  "examine_all fs idx uids [] = Some []"
| "examine_all fs idx uids (pid # pids) =
     (case examine fs idx uids pid of None \<Rightarrow> None
      | Some cs \<Rightarrow> map_option (\<lambda>rest. cs @ rest) (examine_all fs idx uids pids))"

text \<open>The second pass: the processor time since the first, or -1 for a process that is gone.\<close>

definition resample :: "files \<Rightarrow> candidate \<Rightarrow> candidate option" where
  "resample fs c =
     (case readProcStat (text_of fs (proc_path (c_pid c) ''stat'')) of
        Stat_panic \<Rightarrow> None
      | No_stat \<Rightarrow> Some (c\<lparr>c_delta := - 1\<rparr>)
      | Stat st \<Rightarrow> if length st < 24 then Some (c\<lparr>c_delta := - 1\<rparr>)
          else (let delta = i64 (i64 (int_of (st ! 13) + int_of (st ! 14)) - c_cpu c)
                in Some (c\<lparr>c_delta := (if delta < 0 then 0 else delta)\<rparr>)))"

fun resample_all :: "files \<Rightarrow> candidate list \<Rightarrow> candidate list option" where
  "resample_all fs [] = Some []"
| "resample_all fs (c # cs) =
     (case resample fs c of None \<Rightarrow> None | Some c' \<Rightarrow> map_option (\<lambda>rest. c' # rest) (resample_all fs cs))"

definition betterLinuxDesktopCandidate :: "candidate \<Rightarrow> candidate \<Rightarrow> bool" where
  "betterLinuxDesktopCandidate nxt cur \<longleftrightarrow>
     (if c_name cur = [] then True else if c_delta nxt \<noteq> c_delta cur then c_delta nxt > c_delta cur else c_rss nxt > c_rss cur)"

text \<open>The loop that picks: the best of all, and the best desktop application.\<close>

definition pick :: "candidate \<times> candidate \<Rightarrow> candidate \<Rightarrow> candidate \<times> candidate" where
  "pick acc c =
     (case acc of (best, desktop) \<Rightarrow>
        if c_delta c < 0 then acc
        else (if (c_front c \<and> (\<not> c_front best \<or> c_rss c > c_rss best)) \<or> (\<not> c_front best \<and> c_rss c > c_rss best) then c else best,
              if c_desktop c \<and> betterLinuxDesktopCandidate c desktop then c else desktop))"

definition choice :: "candidate \<times> candidate \<Rightarrow> string" where
  "choice r =
     (case r of (best, desktop) \<Rightarrow>
        if c_name desktop \<noteq> [] then c_name desktop
        else if c_front best then c_name best
        else if c_name best \<noteq> [] \<and> c_tty best \<noteq> 0 then c_name best
        else [])"

text \<open>\<open>fs\<close> is what the first pass reads, \<open>later\<close> what the second reads a quarter of a second later.\<close>

definition linuxProcFallbackActiveWindow :: "files \<Rightarrow> files \<Rightarrow> string list \<Rightarrow> string option" where
  "linuxProcFallbackActiveWindow fs later idx =
     (case dir_of fs ''/proc'' of None \<Rightarrow> Some []
      | Some es \<Rightarrow> (case examine_all fs idx (target_uids fs) (map fst (filter is_pid es)) of None \<Rightarrow> None
        | Some cands \<Rightarrow> if cands = [] then Some []
            else map_option (\<lambda>cs. choice (foldl pick (no_candidate, no_candidate) cs)) (resample_all later cands)))"

subsection \<open>Titles and window classes\<close>

definition title_separators :: "string list" where
  "title_separators = [[CHR 0x20, CHR 0xE2, CHR 0x80, CHR 0x93, CHR 0x20], [CHR 0x20, CHR 0xE2, CHR 0x80, CHR 0x94, CHR 0x20], '' - '']"

text \<open>What follows the last separator of a title, for the first separator that has one not at the start.\<close>

definition after_separator :: "string \<Rightarrow> string \<Rightarrow> string option" where
  "after_separator title sep =
     (case last_index title sep of None \<Rightarrow> None
      | Some i \<Rightarrow> (let candidate = trim_space (drop (i + length sep) title)
                   in if i > 0 \<and> candidate \<noteq> [] then Some candidate else None))"

definition title_app :: "string \<Rightarrow> string option" where
  "title_app title = (case List.map_filter (after_separator title) title_separators of [] \<Rightarrow> None | c # _ \<Rightarrow> Some c)"

definition extractAppNameFromTitle :: "string \<Rightarrow> string" where
  "extractAppNameFromTitle raw =
     (let title = trim_space raw
      in if title = [] then [] else case title_app title of Some c \<Rightarrow> c | None \<Rightarrow> title)"

text \<open>The window class holds the instance and the class, each ended by a NUL; \<open>None\<close> when it could not be read.\<close>

definition extractAppName :: "string \<Rightarrow> string option \<Rightarrow> string" where
  "extractAppName title cls =
     (let parts = (case cls of None \<Rightarrow> [] | Some s \<Rightarrow> if s = [] then [] else split_on CHR 0x00 s)
      in if length parts \<ge> 2 \<and> parts ! 1 \<noteq> [] then trim_space (parts ! 1)
         else if parts \<noteq> [] \<and> hd parts \<noteq> [] then trim_space (hd parts)
         else if title = [] then []
         else case title_app title of Some c \<Rightarrow> c | None \<Rightarrow> trim_space title)"

subsection \<open>X11\<close>

text \<open>The X server of a display: its first root window (\<open>None\<close>: no connection), whether an atom can be interned, and
  the reply for a property of a window requested with a type (format and value).\<close>

record x_server =
  x_root :: "string \<Rightarrow> nat option"
  x_atom :: "string \<Rightarrow> bool"
  x_prop :: "nat \<Rightarrow> string \<Rightarrow> string \<Rightarrow> (nat \<times> string) option"

definition byte :: "char \<Rightarrow> 32 word" where
  "byte c = word_of_nat (of_char c)"

definition uint32_le :: "string \<Rightarrow> 32 word" where
  "uint32_le bs = or (or (or (byte (bs ! 0)) (push_bit 8 (byte (bs ! 1)))) (push_bit 16 (byte (bs ! 2)))) (push_bit 24 (byte (bs ! 3)))"

definition readCardinal :: "x_server \<Rightarrow> nat \<Rightarrow> string \<Rightarrow> 32 word option" where
  "readCardinal xs win atom =
     (case x_prop xs win atom ''CARDINAL'' of None \<Rightarrow> None
      | Some (format, value) \<Rightarrow> if format \<noteq> 32 \<or> length value < 4 then None else Some (uint32_le value))"

definition readStringProp :: "x_server \<Rightarrow> nat \<Rightarrow> string \<Rightarrow> string \<Rightarrow> string option" where
  "readStringProp xs win atom ty = map_option snd (x_prop xs win atom ty)"

definition linuxX11ActiveWindow :: "x_server \<Rightarrow> string \<Rightarrow> string" where
  "linuxX11ActiveWindow xs display =
     (case (if display = [] then None else x_root xs display) of None \<Rightarrow> []
      | Some rootw \<Rightarrow>
          if \<not> list_all (x_atom xs) [''_NET_ACTIVE_WINDOW'', ''_NET_WM_NAME'', ''WM_NAME'', ''WM_CLASS'', ''UTF8_STRING''] then []
          else (case readCardinal xs rootw ''_NET_ACTIVE_WINDOW'' of None \<Rightarrow> []
            | Some active \<Rightarrow>
                if active = 0 then []
                else let win = unat active;
                         name = (case readStringProp xs win ''_NET_WM_NAME'' ''UTF8_STRING'' of
                            Some n \<Rightarrow> if n \<noteq> [] then n else (case readStringProp xs win ''WM_NAME'' ''STRING'' of Some m \<Rightarrow> m | None \<Rightarrow> [])
                          | None \<Rightarrow> (case readStringProp xs win ''WM_NAME'' ''STRING'' of Some m \<Rightarrow> m | None \<Rightarrow> []))
                     in extractAppName name (readStringProp xs win ''WM_CLASS'' ''STRING'')))"

subsection \<open>Wayland\<close>

text \<open>The session bus: the answer of the extension (class and title), who owns its name, the answers of the shell to a
  script and of KWin. \<open>None\<close> is an error. The scripting calls to KWin have no part in the result.\<close>

record session_bus =
  sb_focused :: "(string \<times> string) option"
  sb_owned :: "bool option"
  sb_eval_class :: "(bool \<times> string) option"
  sb_eval_title :: "(bool \<times> string) option"
  sb_caption :: "string option"

definition linuxGNOMEExtensionActiveWindow :: "session_bus option \<Rightarrow> string" where
  "linuxGNOMEExtensionActiveWindow bus =
     (case Option.bind bus sb_focused of None \<Rightarrow> []
      | Some (cls, raw) \<Rightarrow>
          let wmClass = trim_space cls; title = trim_space raw
          in if wmClass \<noteq> [] \<and> wmClass \<noteq> ''null'' then wmClass
             else if title \<noteq> [] \<and> title \<noteq> ''null'' then extractAppNameFromTitle title else [])"

definition gnomeExtensionRunning :: "session_bus option \<Rightarrow> bool" where
  "gnomeExtensionRunning bus = (Option.bind bus sb_owned = Some True)"

definition eval_text :: "(bool \<times> string) option \<Rightarrow> string" where
  "eval_text r =
     (case r of Some (True, s) \<Rightarrow> (let clean = trim_set {CHR 0x22} s in if clean = ''null'' then [] else clean) | _ \<Rightarrow> [])"

definition linuxWaylandGNOMEActiveWindow :: "session_bus option \<Rightarrow> string" where
  "linuxWaylandGNOMEActiveWindow bus =
     (let ext = linuxGNOMEExtensionActiveWindow bus;
          cls = eval_text (Option.bind bus sb_eval_class); title = eval_text (Option.bind bus sb_eval_title)
      in if ext \<noteq> [] then ext else if cls \<noteq> [] then cls else if title \<noteq> [] then extractAppNameFromTitle title else [])"

definition linuxWaylandKDEActiveWindow :: "session_bus option \<Rightarrow> string" where
  "linuxWaylandKDEActiveWindow bus =
     (case Option.bind bus sb_caption of Some caption \<Rightarrow> if caption \<noteq> [] then extractAppNameFromTitle caption else [] | None \<Rightarrow> [])"

subsection \<open>Sway\<close>

text \<open>Messages of the socket: the magic, length and type in little-endian order, and the payload.\<close>

definition byte_of :: "32 word \<Rightarrow> char" where
  "byte_of w = char_of (unat w)"

definition le_bytes :: "32 word \<Rightarrow> string" where
  "le_bytes w = [byte_of w, byte_of (drop_bit 8 w), byte_of (drop_bit 16 w), byte_of (drop_bit 24 w)]"

definition buildSwayMessage :: "32 word \<Rightarrow> string \<Rightarrow> string" where
  "buildSwayMessage msgType payload = ''i3-ipc'' @ le_bytes (word_of_nat (length payload)) @ le_bytes msgType @ payload"

text \<open>A connection is the list of what each read can deliver; reads end in an error when it is used up.\<close>

fun readFull :: "nat \<Rightarrow> string list \<Rightarrow> string \<Rightarrow> (string \<times> bool) \<times> string list" where
  "readFull n [] acc = ((acc, n = 0), [])"
| "readFull n (c # cs) acc =
     (if n = 0 then ((acc, True), c # cs)
      else if length c \<le> n then readFull (n - length c) cs (acc @ c)
      else ((acc @ take n c, True), drop n c # cs))"

definition readSwayResponse :: "string list \<Rightarrow> string option" where
  "readSwayResponse conn =
     (case readFull 14 conn [] of
        ((header, False), _) \<Rightarrow> None
      | ((header, True), rest) \<Rightarrow>
          if take 6 header \<noteq> ''i3-ipc'' then None
          else (case readFull (unat (uint32_le (take 4 (drop 6 header)))) rest [] of
                  ((payload, True), _) \<Rightarrow> Some payload | _ \<Rightarrow> None))"

datatype swayNode = SwayNode (sn_name: string) (sn_app: string) (sn_focused: bool) (sn_nodes: "swayNode list") (sn_floating: "swayNode list")

fun findFocusedNode :: "swayNode \<Rightarrow> swayNode option" and findFocusedIn :: "swayNode list \<Rightarrow> swayNode option" where
  "findFocusedNode (SwayNode n a foc ns fs) =
     (if foc then Some (SwayNode n a foc ns fs)
      else case findFocusedIn ns of Some x \<Rightarrow> Some x | None \<Rightarrow> findFocusedIn fs)"
| "findFocusedIn [] = None"
| "findFocusedIn (x # xs) = (case findFocusedNode x of Some y \<Rightarrow> Some y | None \<Rightarrow> findFocusedIn xs)"

text \<open>\<open>tree\<close> is the JSON decoder into the struct.\<close>

definition swayFocusedApp :: "(string \<Rightarrow> swayNode option) \<Rightarrow> string \<Rightarrow> string" where
  "swayFocusedApp tree payload =
     (case Option.bind (tree payload) findFocusedNode of None \<Rightarrow> []
      | Some node \<Rightarrow> if sn_app node \<noteq> [] then sn_app node else extractAppNameFromTitle (sn_name node))"

subsection \<open>The environment and the probes\<close>

text \<open>An unset variable reads as the empty text. The socket is what the server behind its path answers to the request, if
  it can be dialled and takes the request.\<close>

type_synonym environment = "string \<Rightarrow> string"

record session_host =
  sh_x :: "environment \<Rightarrow> x_server"
  sh_bus :: "environment \<Rightarrow> session_bus option"
  sh_socket :: "string \<Rightarrow> string \<Rightarrow> string list option"
  sh_tree :: "string \<Rightarrow> swayNode option"

definition linuxWaylandSwayActiveWindow :: "session_host \<Rightarrow> environment \<Rightarrow> string" where
  "linuxWaylandSwayActiveWindow h env =
     (let sock = (if env ''SWAYSOCK'' = [] then env ''I3SOCK'' else env ''SWAYSOCK'')
      in case (if sock = [] then None else sh_socket h sock (buildSwayMessage 4 [])) of None \<Rightarrow> []
         | Some conn \<Rightarrow> (case readSwayResponse conn of None \<Rightarrow> [] | Some payload \<Rightarrow> swayFocusedApp (sh_tree h) payload))"

definition x11_probe :: "session_host \<Rightarrow> environment \<Rightarrow> string" where
  "x11_probe h env = linuxX11ActiveWindow (sh_x h env) (env ''DISPLAY'')"

text \<open>The session of a process, from its environment: a later assignment wins.\<close>

definition session_vars :: "string list" where
  "session_vars = [''DISPLAY'', ''WAYLAND_DISPLAY'', ''DBUS_SESSION_BUS_ADDRESS'', ''XAUTHORITY'', ''SWAYSOCK'', ''I3SOCK'']"

definition read_var :: "environment \<Rightarrow> string \<Rightarrow> environment" where
  "read_var env kv =
     (case find (\<lambda>k. prefix (k @ ''='') kv) (''XDG_SESSION_TYPE'' # session_vars) of
        None \<Rightarrow> env | Some k \<Rightarrow> env(k := drop (length k + 1) kv))"

definition session_env :: "string \<Rightarrow> environment" where
  "session_env environ = foldl read_var (\<lambda>_. []) (split_on CHR 0x00 environ)"

definition human_process :: "files \<Rightarrow> string \<Rightarrow> bool" where
  "human_process fs pid =
     (case atoi (getProcUID (text_of fs (proc_path pid ''status''))) of None \<Rightarrow> False | Some uid \<Rightarrow> uid \<ge> 1000)"

definition session_key :: "environment \<Rightarrow> string" where
  "session_key env = env ''DISPLAY'' @ ''|'' @ env ''WAYLAND_DISPLAY'' @ ''|'' @ env ''SWAYSOCK''"

definition note_session :: "files \<Rightarrow> environment list \<Rightarrow> string \<Rightarrow> environment list" where
  "note_session fs sessions pid =
     (if \<not> human_process fs pid then sessions
      else case text_of fs (proc_path pid ''environ'') of None \<Rightarrow> sessions
      | Some environ \<Rightarrow>
          let env = session_env environ
          in if (env ''DISPLAY'' = [] \<and> env ''WAYLAND_DISPLAY'' = [] \<and> env ''SWAYSOCK'' = []) \<or> session_key env \<in> set (map session_key sessions)
             then sessions else sessions @ [env])"

definition user_sessions :: "files \<Rightarrow> environment list" where
  "user_sessions fs =
     (case dir_of fs ''/proc'' of None \<Rightarrow> [] | Some es \<Rightarrow> foldl (note_session fs) [] (map fst (filter is_pid es)))"

text \<open>The variables of the session are set, the display servers asked, and the variables unset again.\<close>

definition inject :: "environment \<Rightarrow> environment \<Rightarrow> environment" where
  "inject session env = foldl (\<lambda>e k. if session k = [] then e else e(k := session k)) env session_vars"

definition clear_vars :: "environment \<Rightarrow> environment" where
  "clear_vars env = foldl (\<lambda>e k. e(k := [])) env session_vars"

definition first_of :: "string list \<Rightarrow> string" where
  "first_of names = (case filter (\<lambda>n. n \<noteq> []) names of [] \<Rightarrow> [] | n # _ \<Rightarrow> n)"

definition probe_session :: "session_host \<Rightarrow> environment \<Rightarrow> environment \<Rightarrow> string" where
  "probe_session h session env =
     first_of ((if session ''DISPLAY'' \<noteq> [] then [x11_probe h env] else [])
       @ (if session ''WAYLAND_DISPLAY'' \<noteq> [] \<or> session ''XDG_SESSION_TYPE'' = ''wayland''
          then [linuxWaylandGNOMEActiveWindow (sh_bus h env), linuxWaylandKDEActiveWindow (sh_bus h env), linuxWaylandSwayActiveWindow h env] else [])
       @ (if session ''SWAYSOCK'' \<noteq> [] \<or> session ''I3SOCK'' \<noteq> [] then [linuxWaylandSwayActiveWindow h env] else []))"

fun probe_sessions :: "session_host \<Rightarrow> environment list \<Rightarrow> environment \<Rightarrow> string \<times> environment" where
  "probe_sessions h [] env = ([], env)"
| "probe_sessions h (s # ss) env =
     (let env1 = inject s env; name = probe_session h s env1; env2 = clear_vars env1
      in if name \<noteq> [] then (name, env2) else probe_sessions h ss env2)"

text \<open>\<open>guess\<close> is the guess from the processes; \<open>None\<close> is its panic.\<close>

definition getActiveWindowFromUserSessions :: "session_host \<Rightarrow> files \<Rightarrow> string option \<Rightarrow> environment \<Rightarrow> string option \<times> environment" where
  "getActiveWindowFromUserSessions h fs guess env =
     (if dir_of fs ''/proc'' = None then (Some [], env)
      else case probe_sessions h (user_sessions fs) env of (name, env1) \<Rightarrow>
        (if name \<noteq> [] then Some name else if allowProcGuess (env1 ''DEVICEPULSE_ALLOW_PROC_GUESS'') then guess else Some [], env1))"

definition getForegroundAppLinuxDetailed :: "session_host \<Rightarrow> files \<Rightarrow> string option \<Rightarrow> environment \<Rightarrow> (string \<times> string) option \<times> environment" where
  "getForegroundAppLinuxDetailed h fs guess env =
     (let hasDisplay = (env ''DISPLAY'' \<noteq> []); isWayland = (env ''WAYLAND_DISPLAY'' \<noteq> [] \<or> env ''XDG_SESSION_TYPE'' = ''wayland'');
          bus = sh_bus h env; ext = linuxGNOMEExtensionActiveWindow bus; gnome = linuxWaylandGNOMEActiveWindow bus;
          kde = linuxWaylandKDEActiveWindow bus; sway = linuxWaylandSwayActiveWindow h env; x11 = x11_probe h env;
          answer = (\<lambda>name source. (Some (cleanLinuxForegroundApp name, source), env));
          guessed = (if allowProcGuess (env ''DEVICEPULSE_ALLOW_PROC_GUESS'') then (map_option (\<lambda>g. (cleanLinuxForegroundApp g, ''proc-guess'')) guess, env)
                     else (Some ([], ''none''), env))
      in if isWayland \<and> ext \<noteq> [] then answer ext ''gnome-extension''
         else if isWayland \<and> gnomeExtensionRunning bus then (Some ([], ''gnome-extension''), env)
         else if isWayland \<and> gnome \<noteq> [] then answer gnome ''gnome-eval''
         else if isWayland \<and> kde \<noteq> [] then answer kde ''kde''
         else if isWayland \<and> sway \<noteq> [] then answer sway ''sway''
         else if \<not> isWayland \<and> hasDisplay \<and> x11 \<noteq> [] then answer x11 ''x11''
         else if \<not> hasDisplay \<and> \<not> isWayland
         then (case getActiveWindowFromUserSessions h fs guess env of
                 (None, env1) \<Rightarrow> (None, env1)
               | (Some name, env1) \<Rightarrow>
                   (if name \<noteq> [] then Some (cleanLinuxForegroundApp name, ''user-session'') else Some ([], ''none''), env1))
         else guessed)"

subsection \<open>What a guess names\<close>

definition alive :: "candidate \<Rightarrow> bool" where "alive c \<longleftrightarrow> 0 \<le> c_delta c"

definition busier :: "candidate \<Rightarrow> candidate \<Rightarrow> bool" where
  "busier c d \<longleftrightarrow> c_delta d < c_delta c \<or> (c_delta d = c_delta c \<and> c_rss d \<le> c_rss c)"

text \<open>The candidate a guess should name: the busiest desktop application, else the largest process in the foreground of
  a terminal, else the largest process if it has a terminal.\<close>

definition rightful :: "candidate list \<Rightarrow> candidate \<Rightarrow> bool" where
  "rightful cs c \<longleftrightarrow> c \<in> set cs \<and> alive c \<and>
     (if \<exists>d \<in> set cs. alive d \<and> c_desktop d then c_desktop c \<and> (\<forall>d \<in> set cs. alive d \<and> c_desktop d \<longrightarrow> busier c d)
      else if \<exists>d \<in> set cs. alive d \<and> c_front d then c_front c \<and> (\<forall>d \<in> set cs. alive d \<and> c_front d \<longrightarrow> c_rss d \<le> c_rss c)
      else c_tty c \<noteq> 0 \<and> (\<forall>d \<in> set cs. alive d \<longrightarrow> c_rss d \<le> c_rss c))"

lemma pick_desktop:
  assumes "\<forall>c \<in> set cs. c_name c \<noteq> []"
  defines "r \<equiv> snd (foldl pick (no_candidate, no_candidate) cs)"
  shows "(r = no_candidate \<and> (\<forall>d \<in> set cs. alive d \<longrightarrow> \<not> c_desktop d))
    \<or> (r \<in> set cs \<and> alive r \<and> c_desktop r \<and> (\<forall>d \<in> set cs. alive d \<and> c_desktop d \<longrightarrow> busier r d))"
  using assms(1) unfolding r_def
proof (induction cs rule: rev_induct)
  case (snoc c cs)
  obtain b d where bd: "foldl pick (no_candidate, no_candidate) cs = (b, d)" by force
  have IH: "(d = no_candidate \<and> (\<forall>x \<in> set cs. alive x \<longrightarrow> \<not> c_desktop x))
      \<or> (d \<in> set cs \<and> alive d \<and> c_desktop d \<and> (\<forall>x \<in> set cs. alive x \<and> c_desktop x \<longrightarrow> busier d x))"
    using snoc bd by simp
  have named: "d \<in> set cs \<Longrightarrow> c_name d \<noteq> []" using snoc.prems by simp
  have new: "snd (foldl pick (no_candidate, no_candidate) (cs @ [c]))
      = (if alive c \<and> c_desktop c \<and> betterLinuxDesktopCandidate c d then c else d)"
    by (auto simp: bd pick_def alive_def)
  show ?case
  proof (cases "alive c \<and> c_desktop c")
    case False
    then show ?thesis using IH unfolding new by auto
  next
    case True
    show ?thesis
    proof (cases "d = no_candidate \<and> (\<forall>x \<in> set cs. alive x \<longrightarrow> \<not> c_desktop x)")
      case True
      then have "betterLinuxDesktopCandidate c d" by (simp add: betterLinuxDesktopCandidate_def no_candidate_def)
      then show ?thesis using True \<open>alive c \<and> c_desktop c\<close> unfolding new by (auto simp: busier_def)
    next
      case False
      then have d: "d \<in> set cs" "alive d" "c_desktop d" "\<forall>x \<in> set cs. alive x \<and> c_desktop x \<longrightarrow> busier d x" using IH by blast+
      have "betterLinuxDesktopCandidate c d \<Longrightarrow> busier d x \<Longrightarrow> busier c x" "\<not> betterLinuxDesktopCandidate c d \<Longrightarrow> busier d c" for x
        using named [OF d(1)] by (auto simp: betterLinuxDesktopCandidate_def busier_def split: if_splits)
      then show ?thesis using d \<open>alive c \<and> c_desktop c\<close> unfolding new by (auto simp: busier_def [of c c])
    qed
  qed
qed (simp add: no_candidate_def)

lemma pick_best:
  defines "b cs \<equiv> fst (foldl pick (no_candidate, no_candidate) cs)"
  shows "if \<exists>d \<in> set cs. alive d \<and> c_front d
    then b cs \<in> set cs \<and> alive (b cs) \<and> c_front (b cs) \<and> (\<forall>d \<in> set cs. alive d \<and> c_front d \<longrightarrow> c_rss d \<le> c_rss (b cs))
    else \<not> c_front (b cs) \<and> (b cs = no_candidate \<or> (b cs \<in> set cs \<and> alive (b cs))) \<and> (\<forall>d \<in> set cs. alive d \<longrightarrow> c_rss d \<le> c_rss (b cs))"
proof (induction cs rule: rev_induct)
  case (snoc c cs)
  obtain x d where bd: "foldl pick (no_candidate, no_candidate) cs = (x, d)" by force
  have x: "b cs = x" by (simp add: b_def bd)
  have new: "b (cs @ [c]) = (if alive c \<and> ((c_front c \<and> (\<not> c_front x \<or> c_rss c > c_rss x)) \<or> (\<not> c_front x \<and> c_rss c > c_rss x)) then c else x)"
    by (auto simp: b_def bd pick_def alive_def)
  show ?case
  proof (cases "\<exists>d \<in> set cs. alive d \<and> c_front d")
    case True
    then have "x \<in> set cs \<and> alive x \<and> c_front x \<and> (\<forall>d \<in> set cs. alive d \<and> c_front d \<longrightarrow> c_rss d \<le> c_rss x)"
      using snoc.IH unfolding x if_P [OF True] by blast
    then show ?thesis using True unfolding new by auto
  next
    case False
    then have old: "\<not> c_front x \<and> (x = no_candidate \<or> (x \<in> set cs \<and> alive x)) \<and> (\<forall>d \<in> set cs. alive d \<longrightarrow> c_rss d \<le> c_rss x)"
      using snoc.IH unfolding x if_not_P [OF False] by blast
    show ?thesis
    proof (cases "alive c \<and> c_front c")
      case True
      then show ?thesis using False old unfolding new by auto
    next
      case neither: False
      then have "\<not> (\<exists>d \<in> set (cs @ [c]). alive d \<and> c_front d)" using False by auto
      then show ?thesis using neither old unfolding new by auto
    qed
  qed
qed (simp add: b_def no_candidate_def)

text \<open>What is known of a candidate of the first pass.\<close>

definition user_process :: "files \<Rightarrow> candidate \<Rightarrow> bool" where
  "user_process fs c \<longleftrightarrow>
     (target_uids fs = [] \<or> getProcUID (text_of fs (proc_path (c_pid c) ''status'')) \<in> set (target_uids fs))
     \<and> link_of fs (proc_path (c_pid c) ''exe'') \<and> cleanLinuxForegroundApp (c_name c) \<noteq> []"

lemma examined: "examine_all fs idx (target_uids fs) pids = Some cs \<Longrightarrow> c \<in> set cs \<Longrightarrow> user_process fs c \<and> c_pid c \<in> set pids \<and> c_name c \<noteq> []"
proof (induction pids arbitrary: cs)
  case (Cons pid pids)
  then obtain xs ys where xy: "examine fs idx (target_uids fs) pid = Some xs" "examine_all fs idx (target_uids fs) pids = Some ys" "cs = xs @ ys"
    by (auto split: option.splits)
  show ?case
  proof (cases "c \<in> set xs")
    case True
    then show ?thesis using xy(1)
      by (auto simp: examine_def user_process_def Let_def split: if_splits stat_line.splits)
  next
    case False
    then show ?thesis using Cons xy by auto
  qed
qed simp

lemma resampled: "resample_all fs cs = Some ds \<Longrightarrow> d \<in> set ds \<Longrightarrow> \<exists>c \<in> set cs. \<exists>n. d = c\<lparr>c_delta := n\<rparr>"
proof (induction cs arbitrary: ds)
  case (Cons c cs)
  then show ?case by (fastforce simp: resample_def Let_def split: option.splits stat_line.splits if_splits)
qed simp

lemma user_process_delta [simp]: "user_process fs (c\<lparr>c_delta := n\<rparr>) = user_process fs c"
  by (simp add: user_process_def)


subsection \<open>Messages of the socket\<close>

lemma of_char_byte_of: "of_char (byte_of w) = unat (take_bit 8 w)"
  by (simp add: byte_of_def of_char_of unat_mod_distrib take_bit_eq_mod)

lemma byte_byte_of: "byte (byte_of w) = take_bit 8 w"
  by (simp add: byte_def of_char_byte_of)

lemma uint32_le_bytes: "uint32_le (le_bytes w) = w"
proof -
  have "uint32_le (le_bytes w) = or (or (or (take_bit 8 w) (push_bit 8 (take_bit 8 (drop_bit 8 w))))
      (push_bit 16 (take_bit 8 (drop_bit 16 w)))) (push_bit 24 (take_bit 8 (drop_bit 24 w)))"
    by (simp add: uint32_le_def le_bytes_def byte_byte_of)
  also have "\<dots> = w"
  proof (rule bit_word_eqI)
    fix n :: nat
    assume "n < LENGTH(32)"
    then have n: "n < 8 \<or> (8 \<le> n \<and> n < 16) \<or> (16 \<le> n \<and> n < 24) \<or> (24 \<le> n \<and> n < 32)" by simp linarith
    then show "bit (or (or (or (take_bit 8 w) (push_bit 8 (take_bit 8 (drop_bit 8 w))))
      (push_bit 16 (take_bit 8 (drop_bit 16 w)))) (push_bit 24 (take_bit 8 (drop_bit 24 w)))) n = bit w n"
      by (auto simp: bit_or_iff bit_push_bit_iff bit_take_bit_iff bit_drop_bit_eq)
  qed
  finally show ?thesis .
qed

lemma readFull_reads:
  "case readFull n cs acc of ((out, ok), rest) \<Rightarrow>
     (ok \<longleftrightarrow> n \<le> length (concat cs)) \<and> (ok \<longrightarrow> out = acc @ take n (concat cs) \<and> concat rest = drop n (concat cs))"
proof (induction n cs acc rule: readFull.induct)
  case (2 n c cs acc)
  then show ?case by (cases "n = 0"; cases "length c \<le> n") (auto split: prod.splits)
qed auto

text \<open>Whatever the pieces in which the bytes arrive, reading a message gives the payload it was built from.\<close>

theorem sway_message_roundtrip:
  assumes "length payload < 2 ^ 32" "concat conn = buildSwayMessage msgType payload @ further"
  shows "readSwayResponse conn = Some payload"
proof -
  let ?n = "word_of_nat (length payload) :: 32 word"
  obtain header ok rest where h: "readFull 14 conn [] = ((header, ok), rest)" by (metis prod.exhaust)
  have len: "length (le_bytes v) = 4" for v by (simp add: le_bytes_def)
  have hd: "ok" "header = ''i3-ipc'' @ le_bytes ?n @ le_bytes msgType" "concat rest = payload @ further"
    using readFull_reads [of 14 conn "[]"] h assms(2) by (simp_all add: buildSwayMessage_def len)
  have "unat ?n = length payload" using assms(1) by (simp add: unat_of_nat)
  then have size: "unat (uint32_le (take 4 (drop 6 header))) = length payload"
    by (simp add: hd(2) len uint32_le_bytes)
  obtain out ok2 rest2 where r: "readFull (length payload) rest [] = ((out, ok2), rest2)" by (metis prod.exhaust)
  have "ok2" "out = payload" using readFull_reads [of "length payload" rest "[]"] r hd(3) by simp_all
  then show ?thesis using h hd(1) r size by (simp add: readSwayResponse_def hd(2))
qed

subsection \<open>The focused node\<close>

text \<open>All nodes in document order, a node before those under it and tiled before floating ones.\<close>

fun node_list :: "swayNode \<Rightarrow> swayNode list" and nodes_in :: "swayNode list \<Rightarrow> swayNode list" where
  "node_list (SwayNode n a foc ns fs) = SwayNode n a foc ns fs # nodes_in ns @ nodes_in fs"
| "nodes_in [] = []"
| "nodes_in (x # xs) = node_list x @ nodes_in xs"

lemma find_append: "find P (xs @ ys) = (case find P xs of Some x \<Rightarrow> Some x | None \<Rightarrow> find P ys)"
  by (induction xs) auto

lemma focused_first: "findFocusedNode node = find sn_focused (node_list node)" "findFocusedIn ns = find sn_focused (nodes_in ns)"
  by (induction node and ns rule: node_list_nodes_in.induct) (auto simp: find_append split: option.split)

subsection \<open>Sessions do not mix\<close>

lemma inject_at: "inject s env k = (if k \<in> set session_vars \<and> s k \<noteq> [] then s k else env k)"
proof -
  have "foldl (\<lambda>e k. if s k = [] then e else e(k := s k)) env ks k = (if k \<in> set ks \<and> s k \<noteq> [] then s k else env k)" for ks
    by (induction ks arbitrary: env) auto
  then show ?thesis by (simp add: inject_def)
qed

lemma clear_at: "clear_vars env k = (if k \<in> set session_vars then [] else env k)"
proof -
  have "foldl (\<lambda>e k. e(k := [])) env ks k = (if k \<in> set ks then [] else env k)" for ks
    by (induction ks arbitrary: env) auto
  then show ?thesis by (simp add: clear_vars_def)
qed

text \<open>An environment to ask a session in: each of its variables has the value of the session, and one the session does not
  have is unset or still the agent's own.\<close>

definition of_session :: "environment \<Rightarrow> environment \<Rightarrow> environment \<Rightarrow> bool" where
  "of_session own s e \<longleftrightarrow> (\<forall>k. if k \<in> set session_vars \<and> s k \<noteq> [] then e k = s k
     else if k \<in> set session_vars then e k \<in> {[], own k} else e k = own k)"

lemma probes_of_session:
  assumes "probe_sessions h ss env = (name, env')" "\<forall>k. env k = own k \<or> (k \<in> set session_vars \<and> env k = [])"
  shows "(name = [] \<or> (\<exists>s \<in> set ss. \<exists>e. of_session own s e \<and> name = probe_session h s e))
    \<and> (\<forall>k. env' k = (if k \<in> set session_vars \<and> ss \<noteq> [] then [] else env k))"
  using assms
proof (induction ss arbitrary: env)
  case (Cons s ss)
  let ?e = "inject s env"
  have e: "of_session own s ?e" using Cons.prems(2) by (auto simp: of_session_def inject_at)
  have clear: "clear_vars ?e k = (if k \<in> set session_vars then [] else env k)" for k by (simp add: clear_at inject_at)
  show ?case
  proof (cases "probe_session h s ?e = []")
    case True
    have "\<forall>k. clear_vars ?e k = own k \<or> (k \<in> set session_vars \<and> clear_vars ?e k = [])" using Cons.prems(2) clear by auto
    moreover have "probe_sessions h ss (clear_vars ?e) = (name, env')" using Cons.prems(1) True by (simp add: Let_def)
    ultimately have ih: "name = [] \<or> (\<exists>s \<in> set ss. \<exists>e. of_session own s e \<and> name = probe_session h s e)"
        "\<forall>k. env' k = (if k \<in> set session_vars \<and> ss \<noteq> [] then [] else clear_vars ?e k)"
      using Cons.IH [of "clear_vars ?e"] by blast+
    show ?thesis using ih(1) ih(2) clear by auto
  next
    case False
    then show ?thesis using Cons.prems(1) e clear by (auto simp: Let_def)
  qed
qed auto

text \<open>What the search in the sessions of the users reports was answered in the environment of one session, with none
  of another session's variables in it, and afterwards none of those variables is set; no other variable changes.\<close>

theorem sessions_do_not_mix:
  assumes "getActiveWindowFromUserSessions h fs guess own = (Some name, own')"
  shows "(name = [] \<or> (allowProcGuess (own ''DEVICEPULSE_ALLOW_PROC_GUESS'') \<and> Some name = guess)
      \<or> (\<exists>s \<in> set (user_sessions fs). \<exists>e. of_session own s e \<and> name = probe_session h s e))
    \<and> (\<forall>k. own' k = (if k \<in> set session_vars \<and> user_sessions fs \<noteq> [] then [] else own k))"
proof (cases "dir_of fs ''/proc'' = None")
  case True
  then show ?thesis using assms by (auto simp: getActiveWindowFromUserSessions_def user_sessions_def)
next
  case False
  obtain nm env' where p: "probe_sessions h (user_sessions fs) own = (nm, env')" by force
  note laws = probes_of_session [OF p, of own, simplified]
  have "allowProcGuess (env' ''DEVICEPULSE_ALLOW_PROC_GUESS'') = allowProcGuess (own ''DEVICEPULSE_ALLOW_PROC_GUESS'')" using laws by (simp add: session_vars_def)
  then show ?thesis using assms False laws p by (auto simp: getActiveWindowFromUserSessions_def split: if_splits)
qed

subsection \<open>What the code does not see\<close>

text \<open>A server answers a request for a property of another type with an empty value. \<open>types\<close> gives the type of a property.\<close>

definition typed_reply :: "x_server \<Rightarrow> (nat \<Rightarrow> string \<Rightarrow> string) \<Rightarrow> bool" where
  "typed_reply xs types \<longleftrightarrow> (\<forall>win atom ty f v. x_prop xs win atom ty = Some (f, v) \<and> v \<noteq> [] \<longrightarrow> types win atom = ty)"

text \<open>The X11 query asks for \<^verbatim>\<open>_NET_ACTIVE_WINDOW\<close> as a \<^verbatim>\<open>CARDINAL\<close>, but window managers store it as a \<^verbatim>\<open>WINDOW\<close>: on such a
  display it never names an application.\<close>

theorem x11_never_answers:
  assumes "typed_reply xs types" "\<And>win. types win ''_NET_ACTIVE_WINDOW'' = ''WINDOW''"
  shows "linuxX11ActiveWindow xs display = []"
proof -
  have "readCardinal xs win ''_NET_ACTIVE_WINDOW'' = None" for win
  proof (cases "x_prop xs win ''_NET_ACTIVE_WINDOW'' ''CARDINAL''")
    case (Some fv)
    then obtain f v where fv: "x_prop xs win ''_NET_ACTIVE_WINDOW'' ''CARDINAL'' = Some (f, v)" by (cases fv) simp
    have "v = []"
    proof (rule ccontr)
      assume "v \<noteq> []"
      then have "types win ''_NET_ACTIVE_WINDOW'' = ''CARDINAL''" using assms(1) fv unfolding typed_reply_def by blast
      then show False using assms(2) [of win] by simp
    qed
    then show ?thesis using fv by (simp add: readCardinal_def)
  qed (simp add: readCardinal_def)
  then show ?thesis by (simp add: linuxX11ActiveWindow_def split: option.split)
qed

text \<open>Applications the list of desktop applications names but the filter takes for services.\<close>

theorem allowlisted_never_counted:
  "list_all (\<lambda>n. n \<in> set known_desktop_apps \<and> cleanLinuxForegroundApp n = [])
     [''gnome-terminal'', ''gnome-terminal-server'', ''gnome-system-monitor'', ''gnome-disk-utility'', ''evolution'']"
  by code_simp

text \<open>A launcher that starts its program through a shell or \<^verbatim>\<open>env\<close> registers that name, and every process with it in its
  name then is a desktop application.\<close>

theorem wrapper_matches_everything:
  "let idx = linuxDesktopEntryKeys (no_entry\<lparr>de_name := ''Notes App'', de_exec := ''sh -c notes''\<rparr>) ''/usr/share/applications/notes.desktop''
   in list_all (isLikelyLinuxDesktopApp idx) [''sshd-session'', ''flush-worker'', ''pushd'']"
  by code_simp

text \<open>A process without name and command line is called by a dot.\<close>

theorem nameless_process_named: "proc_name \<lparr>dir_of = (\<lambda>_. None), text_of = (\<lambda>_. None), link_of = (\<lambda>_. False)\<rparr> ''7'' = ''.''"
  by code_simp

subsection \<open>Applied\<close>

definition small_files :: "(string \<times> string) list \<Rightarrow> (string \<times> bool) list \<Rightarrow> files" where
  "small_files texts procs = \<lparr>dir_of = (\<lambda>d. if d = ''/proc'' then Some procs else None), text_of = map_of texts, link_of = (\<lambda>_. True)\<rparr>"

definition small_stat :: string where
  "small_stat = ''7 (code (x)) S 1 7 7 0 -1 0 0 0 0 0 5 4 0 0 20 0 1 0 100 4096 300''"

definition small_proc :: files where
  "small_proc = small_files [(''/proc/self/status'', ''Uid: 1000 1000''), (''/proc/7/status'', ''Uid: 1000 1000''),
     (''/proc/7/stat'', small_stat), (''/proc/7/comm'', ''code''),
     (''/proc/7/environ'', ''DISPLAY=:0'' @ [CHR 0x00] @ ''HOME=/home/u'')] [(''7'', True), (''self'', True)]"


theorem sway_message_roundtrip_witness:
  "readSwayResponse [take 5 (buildSwayMessage 4 ''{}''), drop 5 (buildSwayMessage 4 ''{}'')] = Some ''{}''"
  by (rule sway_message_roundtrip [where further = "[]" and msgType = 4]) simp_all

definition silent_host :: session_host where
  "silent_host = \<lparr>sh_x = (\<lambda>_. \<lparr>x_root = (\<lambda>_. None), x_atom = (\<lambda>_. True), x_prop = (\<lambda>_ _ _. None)\<rparr>), sh_bus = (\<lambda>_. None),
     sh_socket = (\<lambda>_ _. None), sh_tree = (\<lambda>_. None)\<rparr>"

theorem sessions_do_not_mix_witness:
  "length (user_sessions small_proc) = 1
   \<and> (\<forall>k. snd (getActiveWindowFromUserSessions silent_host small_proc None (\<lambda>k. if k = ''SWAYSOCK'' then ''/run/s'' else [])) k = [])"
proof -
  let ?own = "\<lambda>k. if k = ''SWAYSOCK'' then ''/run/s'' else []"
  have one: "length (user_sessions small_proc) = 1" by code_simp
  obtain own' where run: "getActiveWindowFromUserSessions silent_host small_proc None ?own = (Some [], own')"
  proof -
    have "fst (getActiveWindowFromUserSessions silent_host small_proc None ?own) = Some []" by code_simp
    then show thesis by (intro that [of "snd (getActiveWindowFromUserSessions silent_host small_proc None ?own)"]) (simp add: prod_eq_iff)
  qed
  have "\<forall>k. own' k = (if k \<in> set session_vars \<and> user_sessions small_proc \<noteq> [] then [] else ?own k)"
    by (rule sessions_do_not_mix [OF run, THEN conjunct2])
  moreover have "user_sessions small_proc \<noteq> []" using one by auto
  ultimately show ?thesis using one run by (simp add: session_vars_def)
qed

theorem x11_never_answers_witness:
  "linuxX11ActiveWindow \<lparr>x_root = (\<lambda>_. Some 1), x_atom = (\<lambda>_. True), x_prop = (\<lambda>_ _ _. Some (32, []))\<rparr> '':0'' = []"
  by (rule x11_never_answers [where types = "\<lambda>_ _. ''WINDOW''"]) (simp_all add: typed_reply_def)

end
