(* ===== verification/Commander.thy ===== *)
theory Commander
  imports Quarantine Paths
begin

text \<open>
  The rest of the agent's remote actions, \<^verbatim>\<open>agent/commander\<close> and \<^verbatim>\<open>agent/selfrestart.go\<close>: polling and reporting of commands,
  the screen lock, quarantine on macOS and Windows, the corporate wipe, and the watch that restarts a per-user agent
  after an update. Files, programs and the server are calls of \<open>commander_host\<close> on the world \<open>'w\<close>; a failed call gives
  the text of its error.
\<close>

subsection \<open>The world\<close>

text \<open>What the server answers to a poll: nothing, another status, no decodable payload, or commands with id, type and
  parameters.\<close>

type_synonym command = "string \<times> string \<times> obj"

datatype pending = Unreachable | Answer nat | Undecodable | Commands "command list"

record 'w commander_host =
  ch_io :: "'w host_io"
  outputOf :: "string \<Rightarrow> string list \<Rightarrow> 'w \<Rightarrow> string \<times> 'w"
  lookPath :: "string \<Rightarrow> 'w \<Rightarrow> bool"
  removeFile :: "string \<Rightarrow> 'w \<Rightarrow> string option \<times> 'w"
  readFile :: "string \<Rightarrow> 'w \<Rightarrow> string + string"
  writeFile :: "string \<Rightarrow> string \<Rightarrow> 'w \<Rightarrow> string option \<times> 'w"
  fileExists :: "string \<Rightarrow> 'w \<Rightarrow> bool"
  getPending :: "string \<Rightarrow> string \<Rightarrow> 'w \<Rightarrow> pending \<times> 'w"
  postResult :: "string \<Rightarrow> string \<Rightarrow> string \<times> string \<times> string \<Rightarrow> 'w \<Rightarrow> 'w"

definition runs :: "'w commander_host \<Rightarrow> string \<Rightarrow> string list \<Rightarrow> 'w \<Rightarrow> (string \<times> bool) \<times> 'w" where
  "runs h = execCommand (ch_io h)"

subsection \<open>Polling\<close>

text \<open>The commands of an answer, one after the other: each is executed and its result posted. What is to run afterwards
  (a collection, a restart, the wipe) is gathered in order. \<open>act\<close> is \<^verbatim>\<open>Execute\<close>.\<close>

fun run_commands ::
  "'w commander_host \<Rightarrow> (string \<times> obj \<Rightarrow> 's \<times> 'w \<Rightarrow> (string \<times> string \<times> followup) \<times> 's \<times> 'w) \<Rightarrow> string \<Rightarrow> string \<Rightarrow> command list
     \<Rightarrow> 's \<times> 'w \<Rightarrow> followup list \<times> 's \<times> 'w" where
  "run_commands h act endpoint key [] st = ([], st)"
| "run_commands h act endpoint key ((cid, ty, params) # cs) st =
     (case act (ty, params) st of ((status, detail, next_action), s1, w1) \<Rightarrow>
        (case run_commands h act endpoint key cs (s1, postResult h endpoint key (cid, status, detail) w1) of
           (later, st2) \<Rightarrow> (next_action # later, st2)))"

text \<open>\<open>True\<close> asks the process to reload its credentials (\<^verbatim>\<open>ReauthHook\<close>).\<close>

definition fetchAndExecute ::
  "'w commander_host \<Rightarrow> (string \<times> obj \<Rightarrow> 's \<times> 'w \<Rightarrow> (string \<times> string \<times> followup) \<times> 's \<times> 'w) \<Rightarrow> string \<Rightarrow> string
     \<Rightarrow> 's \<times> 'w \<Rightarrow> (followup list \<times> bool) \<times> 's \<times> 'w" where
  "fetchAndExecute h act endpoint key st =
     (if endpoint = [] \<or> key = [] then (([], False), st)
      else (case getPending h endpoint key (snd st) of
          (Commands cs, w1) \<Rightarrow> (case run_commands h act endpoint key cs (fst st, w1) of (later, st2) \<Rightarrow> ((later, False), st2))
        | (Answer code, w1) \<Rightarrow> (([], code = 401), (fst st, w1))
        | (_, w1) \<Rightarrow> (([], False), (fst st, w1))))"

subsection \<open>The screen lock\<close>

definition firstLine :: "string \<Rightarrow> string" where
  "firstLine s = trim_space (takeWhile (\<lambda>c. c \<noteq> CHR 0x0A) s)"

text \<open>The attempts in their order, then the failure, whose text runs loginctl once more.\<close>

definition lockScreen_linux :: "'w commander_host \<Rightarrow> 'w \<Rightarrow> (string \<times> string) \<times> 'w" where
  "lockScreen_linux h w =
     (let xdg = (\<lambda>w. if lookPath h ''xdg-screensaver'' w
              then (case runs h ''xdg-screensaver'' [''lock''] w of ((_, True), w1) \<Rightarrow> (Some (''success'', ''xdg-screensaver lock''), w1) | (_, w1) \<Rightarrow> (None, w1))
              else (None, w));
          gnome = (\<lambda>w. if lookPath h ''gnome-screensaver-command'' w
              then (case runs h ''gnome-screensaver-command'' [''-l''] w of ((_, True), w1) \<Rightarrow> (Some (''success'', ''gnome-screensaver lock''), w1) | (_, w1) \<Rightarrow> (None, w1))
              else (None, w));
          logind = (\<lambda>w. if lookPath h ''loginctl'' w
              then (case runs h ''loginctl'' [''lock-sessions''] w of
                  ((out, True), w1) \<Rightarrow> (Some (''success'', ''logind lock-sessions'' @ (if out \<noteq> [] then '': '' @ out else [])), w1)
                | ((_, False), w1) \<Rightarrow> (case runs h ''loginctl'' [''lock-session''] w1 of
                      ((out, True), w2) \<Rightarrow> (Some (''success'', ''logind lock-session: '' @ out), w2) | (_, w2) \<Rightarrow> (None, w2)))
              else (None, w))
      in case logind w of (Some r, w1) \<Rightarrow> (r, w1)
      | (None, w1) \<Rightarrow> (case xdg w1 of (Some r, w2) \<Rightarrow> (r, w2)
        | (None, w2) \<Rightarrow> (case gnome w2 of (Some r, w3) \<Rightarrow> (r, w3)
          | (None, w3) \<Rightarrow> (case runs h ''loginctl'' [''lock-sessions''] w3 of
              ((out, _), w4) \<Rightarrow> ((''failed'', ''no working lock mechanism found (loginctl: '' @ trim_space out @ '')''), w4)))))"

definition macCGSessionPath :: string where
  "macCGSessionPath = ''/System/Library/CoreServices/Menu Extras/User.menu/Contents/Resources/CGSession''"

definition lockScreen_darwin :: "'w commander_host \<Rightarrow> 'w \<Rightarrow> (string \<times> string) \<times> 'w" where
  "lockScreen_darwin h w =
     (case outputOf h ''stat'' [''-f'', ''%Su'', ''/dev/console''] w of (out1, w1) \<Rightarrow>
      (case outputOf h ''stat'' [''-f'', ''%u'', ''/dev/console''] w1 of (out2, w2) \<Rightarrow>
       (let user = trim_space out1; uid = trim_space out2;
            console = (if user \<noteq> [] \<and> user \<noteq> ''root'' \<and> uid \<noteq> [] \<and> uid \<noteq> ''0''
              then (case runs h ''launchctl'' [''asuser'', uid, ''sudo'', ''-u'', user, macCGSessionPath, ''-suspend''] w2 of
                      ((_, ok), w3) \<Rightarrow> (ok, w3)) else (False, w2))
        in case console of (True, w3) \<Rightarrow> ((''success'', ''CGSession -suspend for '' @ user @ '' (uid '' @ uid @ '')''), w3)
        | (False, w3) \<Rightarrow>
            (case (if fileExists h macCGSessionPath w3 then (case runs h macCGSessionPath [''-suspend''] w3 of ((_, ok), w4) \<Rightarrow> (ok, w4)) else (False, w3)) of
               (True, w4) \<Rightarrow> ((''success'', ''CGSession -suspend (direct)''), w4)
             | (False, w4) \<Rightarrow> (case runs h ''pmset'' [''displaysleepnow''] w4 of
                  ((_, True), w5) \<Rightarrow> ((''success'', ''display slept via pmset (screen locks only if '' @ [CHR 0x27] @ ''require password after sleep'' @ [CHR 0x27] @ '' is enabled)''), w5)
                | ((_, False), w5) \<Rightarrow> ((''failed'', ''no working macOS lock mechanism (no console user, CGSession and pmset failed)''), w5))))))"

subsection \<open>Quarantine on macOS\<close>

definition pfAnchorName :: string where "pfAnchorName = ''io.devicepulse.quarantine''"
definition pfAnchorPath :: string where "pfAnchorPath = ''/etc/pf.anchors/io.devicepulse.quarantine''"
definition pfConfPath :: string where "pfConfPath = ''/etc/pf.conf''"
definition pfBackupPath :: string where "pfBackupPath = ''/etc/pf.conf.devicepulse.bak''"

definition nl :: string where "nl = [CHR 0x0A]"
definition quoted :: "string \<Rightarrow> string" where "quoted s = [CHR 0x22] @ s @ [CHR 0x22]"

text \<open>The dash of the heading is three bytes of UTF-8.\<close>

definition pf_rules :: "string list \<Rightarrow> string" where
  "pf_rules apiIPs =
     concat (map (\<lambda>l. l @ nl)
       ([''# Managed by DevicePulse agent '' @ [CHR 0xE2, CHR 0x80, CHR 0x94] @ '' do not edit'', ''set skip on lo0'',
         ''pass out quick proto udp to any port 53 keep state'', ''pass out quick proto tcp to any port 53 keep state'',
         ''pass out quick inet proto udp from any port 68 to any port 67 keep state'',
         ''pass in quick inet proto udp from any port 67 to any port 68 keep state'',
         ''pass out quick inet6 proto udp from any port 546 to any port 547 keep state'',
         ''pass in quick inet6 proto udp from any port 547 to any port 546 keep state'', ''pass quick inet6 proto icmp6 all'']
        @ concat (map (\<lambda>ip. [''pass out quick to '' @ ip @ '' keep state'', ''pass in quick from '' @ ip @ '' keep state'']) apiIPs)
        @ [''block drop out quick all'', ''block drop in quick all'']))"

definition trim_right_nl :: "string \<Rightarrow> string" where
  "trim_right_nl s = rev (dropWhile (\<lambda>c. c = CHR 0x0A) (rev s))"

definition pf_mark :: string where "pf_mark = ''# Added by DevicePulse agent''"
definition pf_anchor_line :: string where "pf_anchor_line = ''anchor '' @ quoted pfAnchorName"
definition pf_load_line :: string where "pf_load_line = ''load anchor '' @ quoted pfAnchorName @ '' from '' @ quoted pfAnchorPath"

definition pf_conf_with_anchor :: "string \<Rightarrow> string" where
  "pf_conf_with_anchor conf =
     (if contains_str conf pf_anchor_line then conf
      else trim_right_nl conf @ nl @ nl @ pf_mark @ nl @ pf_anchor_line @ nl @ pf_load_line @ nl)"

definition quarantineEnable_darwin :: "'w commander_host \<Rightarrow> (string \<Rightarrow> string) \<Rightarrow> string \<Rightarrow> 'w \<Rightarrow> (string \<times> string) \<times> 'w" where
  "quarantineEnable_darwin h hostname apiURL w =
     (if \<not> lookPath h ''pfctl'' w then ((''unsupported'', ''pfctl not available''), w)
      else let apiIPs = resolveHostIPs (ch_io h) (apiHost hostname apiURL) w
      in case writeFile h pfAnchorPath (pf_rules apiIPs) w of
        (Some err, w1) \<Rightarrow> ((''failed'', ''cannot write pf anchor: '' @ err), w1)
      | (None, w1) \<Rightarrow> (case readFile h pfConfPath w1 of
          Inl err \<Rightarrow> ((''failed'', ''cannot read '' @ pfConfPath @ '': '' @ err), w1)
        | Inr conf \<Rightarrow>
            (case (if pf_conf_with_anchor conf = conf then (None, w1)
                   else writeFile h pfConfPath (pf_conf_with_anchor conf) (snd (writeFile h pfBackupPath conf w1))) of
               (Some err, w2) \<Rightarrow> ((''failed'', ''cannot update '' @ pfConfPath @ '': '' @ err), w2)
             | (None, w2) \<Rightarrow> (case runs h ''pfctl'' [''-f'', pfConfPath] w2 of
                 ((out, False), w3) \<Rightarrow> ((''failed'', ''pfctl load failed: '' @ out), w3)
               | ((_, True), w3) \<Rightarrow>
                   ((''success'', ''host quarantined via pf anchor '' @ pfAnchorName @
                      (if apiIPs = [] then '' (WARNING: API host unresolved; only loopback/DNS/DHCP allowed)''
                       else '' (allowed: loopback, DNS, DHCP, API '' @ join_with '','' apiIPs @ '')'')),
                    snd (runs h ''pfctl'' [''-E''] w3))))))"

definition pf_own_line :: "string \<Rightarrow> bool" where
  "pf_own_line line =
     (let t = trim_space line
      in t = pf_anchor_line \<or> prefix (''load anchor '' @ quoted pfAnchorName) t \<or> contains_str t ''Added by DevicePulse'')"

definition pf_conf_released :: "string \<Rightarrow> string" where
  "pf_conf_released conf = join_with nl (filter (\<lambda>l. \<not> pf_own_line l) (split_on CHR 0x0A conf))"

definition quarantineRelease_darwin :: "'w commander_host \<Rightarrow> 'w \<Rightarrow> (string \<times> string) \<times> 'w" where
  "quarantineRelease_darwin h w =
     (let (notes, w1) =
        (case readFile h pfConfPath w of
           Inl err \<Rightarrow> ([''read '' @ pfConfPath @ '': '' @ err], w)
         | Inr conf \<Rightarrow> (case writeFile h pfConfPath (pf_conf_released conf) w of (werr, w1) \<Rightarrow>
             (case runs h ''pfctl'' [''-f'', pfConfPath] w1 of ((out, ok), w2) \<Rightarrow>
               ((case werr of Some e \<Rightarrow> [''rewrite '' @ pfConfPath @ '': '' @ e] | None \<Rightarrow> []) @ (if ok then [] else [''pfctl reload: '' @ out]), w2))));
        w2 = snd (removeFile h pfAnchorPath w1)
      in ((if notes \<noteq> [] then (''failed'', ''release incomplete: '' @ join_with ''; '' notes)
           else (''success'', ''quarantine rules removed, full connectivity restored'')), w2))"

subsection \<open>Quarantine on Windows\<close>

definition wfRulePrefix :: string where "wfRulePrefix = ''DevicePulseQ''"

definition wf_rules :: "string list \<Rightarrow> (string \<times> string list) list" where
  "wf_rules apiIPs =
     [(wfRulePrefix @ ''_DNS_UDP'', [''dir=out'', ''action=allow'', ''protocol=udp'', ''remoteport=53'']),
      (wfRulePrefix @ ''_DNS_TCP'', [''dir=out'', ''action=allow'', ''protocol=tcp'', ''remoteport=53'']),
      (wfRulePrefix @ ''_DHCP_OUT'', [''dir=out'', ''action=allow'', ''protocol=udp'', ''localport=68'', ''remoteport=67'']),
      (wfRulePrefix @ ''_DHCP_IN'', [''dir=in'', ''action=allow'', ''protocol=udp'', ''localport=68'', ''remoteport=67''])]
     @ (if apiIPs = [] then []
        else [(wfRulePrefix @ ''_API'', [''dir=out'', ''action=allow'', ''remoteip='' @ join_with '','' apiIPs]),
              (wfRulePrefix @ ''_API_IN'', [''dir=in'', ''action=allow'', ''remoteip='' @ join_with '','' apiIPs])])"

definition wf_show_args :: "string list" where
  "wf_show_args = [''advfirewall'', ''show'', ''allprofiles'', ''state'']"

definition wf_add_args :: "string \<Rightarrow> string list \<Rightarrow> string list" where
  "wf_add_args name args = [''advfirewall'', ''firewall'', ''add'', ''rule'', ''name='' @ name, ''enable=yes'', ''profile=any''] @ args"

definition wf_delete_args :: "string \<Rightarrow> string list" where
  "wf_delete_args name = [''advfirewall'', ''firewall'', ''delete'', ''rule'', ''name='' @ name]"

fun wf_add :: "'w commander_host \<Rightarrow> (string \<times> string list) list \<Rightarrow> 'w \<Rightarrow> string option \<times> 'w" where
  "wf_add h [] w = (None, w)"
| "wf_add h ((name, args) # rs) w =
     (case runs h ''netsh'' (wf_add_args name args) w of
        ((out, False), w1) \<Rightarrow> (Some (''netsh add '' @ name @ '' failed: '' @ firstLine out), w1)
      | ((_, True), w1) \<Rightarrow> wf_add h rs w1)"

definition wf_policy :: "'w commander_host \<Rightarrow> string \<Rightarrow> 'w \<Rightarrow> (string \<times> bool) \<times> 'w" where
  "wf_policy h policy = runs h ''netsh'' [''advfirewall'', ''set'', ''allprofiles'', ''firewallpolicy'', policy]"

definition quarantineEnable_windows :: "'w commander_host \<Rightarrow> (string \<Rightarrow> string) \<Rightarrow> string \<Rightarrow> 'w \<Rightarrow> (string \<times> string) \<times> 'w" where
  "quarantineEnable_windows h hostname apiURL w =
     (case runs h ''netsh'' wf_show_args w of
        ((out, False), w1) \<Rightarrow> ((''unsupported'', ''netsh advfirewall not available: '' @ firstLine out), w1)
      | ((_, True), w1) \<Rightarrow>
        (let apiIPs = resolveHostIPs (ch_io h) (apiHost hostname apiURL) w1
         in case wf_add h (wf_rules apiIPs) w1 of
           (Some err, w2) \<Rightarrow> ((''failed'', err), w2)
         | (None, w2) \<Rightarrow> (case wf_policy h ''blockinbound,blockoutbound'' w2 of
             ((out, False), w3) \<Rightarrow> ((''failed'', ''cannot set firewall policy to deny-by-default: '' @ firstLine out), w3)
           | ((_, True), w3) \<Rightarrow>
               ((''success'', if apiIPs = []
                  then ''host quarantined via Windows Firewall (WARNING: API host unresolved '' @ [CHR 0xE2, CHR 0x80, CHR 0x94]
                       @ '' agent will lose server connectivity until released)''
                  else ''host quarantined via Windows Firewall (default deny in/out; allowed: DNS, DHCP, API '' @ join_with '','' apiIPs @ '')''), w3))))"

definition wf_names :: "string list" where
  "wf_names = map (\<lambda>s. wfRulePrefix @ s) [''_API'', ''_API_IN'', ''_DNS_UDP'', ''_DNS_TCP'', ''_DHCP_OUT'', ''_DHCP_IN'']"

fun wf_delete :: "'w commander_host \<Rightarrow> string list \<Rightarrow> string list \<Rightarrow> 'w \<Rightarrow> string list \<times> 'w" where
  "wf_delete h [] notes w = (notes, w)"
| "wf_delete h (n # ns) notes w =
     (case runs h ''netsh'' (wf_delete_args n) w of ((out, ok), w1) \<Rightarrow>
        wf_delete h ns (if \<not> ok \<and> \<not> contains_str out ''No rules'' then notes @ [n @ '': '' @ firstLine out] else notes) w1)"

definition quarantineRelease_windows :: "'w commander_host \<Rightarrow> 'w \<Rightarrow> (string \<times> string) \<times> 'w" where
  "quarantineRelease_windows h w =
     (case wf_policy h ''blockinbound,allowoutbound'' w of ((out, ok), w1) \<Rightarrow>
      (case wf_delete h wf_names (if ok then [] else [''restore policy: '' @ firstLine out]) w1 of (notes, w2) \<Rightarrow>
         ((if notes \<noteq> [] then (''failed'', ''release incomplete: '' @ join_with ''; '' notes)
           else (''success'', ''Windows Firewall policy restored to defaults, quarantine rules removed'')), w2)))"

subsection \<open>The corporate wipe\<close>

datatype platform_kind = Linux | Darwin | Windows

definition firstLineOr :: "string \<Rightarrow> string \<Rightarrow> string" where
  "firstLineOr s fallback = (if s = [] then fallback else firstLine s)"

fun wipe_tries :: "'w commander_host \<Rightarrow> (string \<times> string \<times> string list) list \<Rightarrow> 'w \<Rightarrow> string list \<times> 'w" where
  "wipe_tries h [] w = ([], w)"
| "wipe_tries h ((label, name, args) # ts) w =
     (case runs h name args w of ((out, ok), w1) \<Rightarrow>
      (case wipe_tries h ts w1 of (notes, w2) \<Rightarrow>
        ((if ok then label @ '' ok'' else label @ '': '' @ firstLineOr out ''failed'') # notes, w2)))"

definition linux_units :: "string list" where
  "linux_units = [''devicepulse-agent.service'', ''devicepulse-agent-window.service'']"

definition windows_services :: "string list" where
  "windows_services = [''DevicePulse Agent'', ''devicepulse-agent'', ''devicepulse-agent-window'']"

definition agent_plist :: string where
  "agent_plist = ''/Library/LaunchDaemons/io.devicepulse.agent.plist''"

definition wipeDisableServices :: "platform_kind \<Rightarrow> 'w commander_host \<Rightarrow> 'w \<Rightarrow> string list \<times> 'w" where
  "wipeDisableServices p h w =
     (case p of
        Linux \<Rightarrow> wipe_tries h (map (\<lambda>u. (''disable '' @ u, ''systemctl'', [''disable'', ''--now'', u])) linux_units) w
      | Windows \<Rightarrow> wipe_tries h (concat (map (\<lambda>s. [(''stop '' @ s, ''cmd'', [''/c'', ''sc'', ''stop'', s]),
                                                    (''delete '' @ s, ''cmd'', [''/c'', ''sc'', ''delete'', s])]) windows_services)) w
      | Darwin \<Rightarrow>
          (case runs h ''launchctl'' [''bootout'', ''system/io.devicepulse.agent''] w of ((_, ok), w1) \<Rightarrow>
           (case removeFile h agent_plist (if ok then w1 else snd (runs h ''launchctl'' [''unload'', ''-w'', agent_plist] w1)) of
              (err, w3) \<Rightarrow> (if err = None then [''removed '' @ agent_plist] else [], w3))))"

definition wiped_names :: "string list" where
  "wiped_names = [''registration.json'', ''browser_history_state.json'', ''devicepulse.db'', ''devicepulse.db-wal'', ''devicepulse.db-shm'', ''agent.log'']"

definition separator :: "platform_kind \<Rightarrow> char" where
  "separator p = (if p = Windows then CHR 0x5C else CHR ''/'')"

text \<open>\<open>programData\<close> is the environment variable of that name.\<close>

definition wipe_dir :: "platform_kind \<Rightarrow> string \<Rightarrow> string \<Rightarrow> string" where
  "wipe_dir p programData dataDir =
     (if dataDir \<noteq> [] then dataDir
      else if p = Windows then path_join (separator p) [programData, ''DevicePulse'', ''Agent''] else ''/var/lib/devicepulse'')"

fun wipe_files :: "platform_kind \<Rightarrow> 'w commander_host \<Rightarrow> string \<Rightarrow> string list \<Rightarrow> 'w \<Rightarrow> string list \<times> 'w" where
  "wipe_files p h dir [] w = ([], w)"
| "wipe_files p h dir (n # ns) w =
     (case removeFile h (path_join (separator p) [dir, n]) w of (err, w1) \<Rightarrow>
      (case wipe_files p h dir ns w1 of (notes, w2) \<Rightarrow> ((if err = None then [''removed '' @ n] else []) @ notes, w2)))"

text \<open>The binary last: \<open>exe\<close> is the resolved path of the running program, \<open>True\<close> that Windows is to delete it two seconds
  later.\<close>

definition wipe_binary :: "platform_kind \<Rightarrow> 'w commander_host \<Rightarrow> string option \<Rightarrow> 'w \<Rightarrow> (string list \<times> bool) \<times> 'w" where
  "wipe_binary p h exe w =
     (case exe of
        None \<Rightarrow> (([], False), w)
      | Some path \<Rightarrow>
          (if p = Windows then (([''binary deletion scheduled: '' @ path], True), w)
           else (case removeFile h path w of
               (None, w1) \<Rightarrow> (([''removed binary '' @ path], False), w1)
             | (Some err, w1) \<Rightarrow> (([''binary removal failed ('' @ err @ '') '' @ [CHR 0xE2, CHR 0x80, CHR 0x94] @ '' uninstall via package manager''], False), w1))))"

definition runWipe :: "platform_kind \<Rightarrow> 'w commander_host \<Rightarrow> string \<Rightarrow> string \<Rightarrow> string option \<Rightarrow> 'w \<Rightarrow> (string \<times> bool) \<times> 'w" where
  "runWipe p h programData dataDir exe w =
     (let dir = wipe_dir p programData dataDir
      in case wipe_files p h dir wiped_names w of (n1, w1) \<Rightarrow>
        (case removeFile h dir w1 of (_, w2) \<Rightarrow>
          (case wipeDisableServices p h w2 of (n2, w3) \<Rightarrow>
            (case wipe_binary p h exe w3 of ((n3, scheduled), w4) \<Rightarrow>
                ((''corporate wipe complete: '' @ join_with ''; '' (n1 @ n2 @ n3), scheduled), w4)))))"

subsection \<open>The watch of the per-user agent\<close>

text \<open>A sample is the size and the modification time, \<open>None\<close> if the file cannot be examined. The watch takes one first,
  then one at each tick; the result is the tick at which the process exits (status 75).\<close>

type_synonym sample = "(nat \<times> gotime) option"

definition sameBinary :: "nat \<times> gotime \<Rightarrow> nat \<times> gotime \<Rightarrow> bool" where
  "sameBinary a b \<longleftrightarrow> fst a = fst b \<and> inst (snd a) = inst (snd b)"

fun replaced_at :: "nat \<times> gotime \<Rightarrow> sample list \<Rightarrow> nat \<Rightarrow> nat option" where
  "replaced_at initial [] i = None"
| "replaced_at initial (s # ss) i =
     (case s of Some c \<Rightarrow> if sameBinary initial c then replaced_at initial ss (Suc i) else Some i
      | None \<Rightarrow> replaced_at initial ss (Suc i))"

definition restartWhenBinaryReplaced :: "sample \<Rightarrow> sample list \<Rightarrow> nat option" where
  "restartWhenBinaryReplaced initial samples = (case initial of None \<Rightarrow> None | Some i \<Rightarrow> replaced_at i samples 0)"

subsection \<open>Every claimed command is answered\<close>

text \<open>\<open>posted\<close> reads the results the server was sent; executing a command sends none.\<close>

definition posting_laws :: "'w commander_host \<Rightarrow> (string \<times> obj \<Rightarrow> 's \<times> 'w \<Rightarrow> (string \<times> string \<times> followup) \<times> 's \<times> 'w) \<Rightarrow> ('w \<Rightarrow> (string \<times> string \<times> string) list) \<Rightarrow> bool" where
  "posting_laws h act posted \<longleftrightarrow>
     (\<forall>endpoint key r w. posted (postResult h endpoint key r w) = posted w @ [r])
     \<and> (\<forall>c st. posted (snd (snd (act c st))) = posted (snd st))"

lemma run_commands_posts:
  assumes "posting_laws h act posted" and "run_commands h act endpoint key cs st = (later, s', w')"
  shows "map fst (posted w') = map fst (posted (snd st)) @ map fst cs \<and> length later = length cs"
  using assms(2)
proof (induction cs arbitrary: st later)
  case Nil
  then show ?case by auto
next
  case (Cons c cs)
  obtain cid ty params where c: "c = (cid, ty, params)" by (cases c)
  obtain status detail followed s1 w1 where a: "act (ty, params) st = ((status, detail, followed), s1, w1)"
    by (metis prod.exhaust)
  have "posted w1 = posted (snd st)"
    using assms(1) a unfolding posting_laws_def by (metis snd_conv)
  moreover have "posted (postResult h endpoint key (cid, status, detail) w1) = posted w1 @ [(cid, status, detail)]"
    using assms(1) by (simp add: posting_laws_def)
  ultimately show ?case
    using Cons.prems Cons.IH[of "(s1, postResult h endpoint key (cid, status, detail) w1)"]
    by (auto simp: c a split: prod.splits)
qed

subsection \<open>Quarantine on Windows\<close>

text \<open>The firewall: the default policy and the rules, by name. \<open>netsh\<close> runs as documented: what succeeds takes effect,
  what fails changes nothing, and deleting fails with ``No rules'' only if there is none of that name.\<close>

record win_firewall =
  wf_default :: string
  wf_installed :: "(string \<times> string list) list"

definition netsh_laws :: "'w commander_host \<Rightarrow> ('w \<Rightarrow> win_firewall) \<Rightarrow> bool" where
  "netsh_laws h view \<longleftrightarrow>
     (\<forall>name args w out ok w'. runs h ''netsh'' (wf_add_args name args) w = ((out, ok), w') \<longrightarrow>
        view w' = (if ok then (view w)\<lparr>wf_installed := wf_installed (view w) @ [(name, args)]\<rparr> else view w))
     \<and> (\<forall>name w out ok w'. runs h ''netsh'' (wf_delete_args name) w = ((out, ok), w') \<longrightarrow>
        (if ok then view w' = (view w)\<lparr>wf_installed := filter (\<lambda>r. fst r \<noteq> name) (wf_installed (view w))\<rparr>
         else view w' = view w \<and> (contains_str out ''No rules'' \<longrightarrow> name \<notin> fst ` set (wf_installed (view w)))))
     \<and> (\<forall>policy w out ok w'. wf_policy h policy w = ((out, ok), w') \<longrightarrow>
        view w' = (if ok then (view w)\<lparr>wf_default := policy\<rparr> else view w))
     \<and> (\<forall>w out ok w'. runs h ''netsh'' wf_show_args w = ((out, ok), w') \<longrightarrow> view w' = view w)"

lemma netsh_add:
  assumes "netsh_laws h view" and "runs h ''netsh'' (wf_add_args name args) w = ((out, ok), w')"
  shows "view w' = (if ok then (view w)\<lparr>wf_installed := wf_installed (view w) @ [(name, args)]\<rparr> else view w)"
  using assms unfolding netsh_laws_def by blast

lemma netsh_delete:
  assumes "netsh_laws h view" and "runs h ''netsh'' (wf_delete_args name) w = ((out, ok), w')"
  shows "if ok then view w' = (view w)\<lparr>wf_installed := filter (\<lambda>r. fst r \<noteq> name) (wf_installed (view w))\<rparr>
         else view w' = view w \<and> (contains_str out ''No rules'' \<longrightarrow> name \<notin> fst ` set (wf_installed (view w)))"
  using assms unfolding netsh_laws_def by blast

lemma netsh_policy:
  assumes "netsh_laws h view" and "wf_policy h policy w = ((out, ok), w')"
  shows "view w' = (if ok then (view w)\<lparr>wf_default := policy\<rparr> else view w)"
  using assms unfolding netsh_laws_def by blast

lemma netsh_show:
  assumes "netsh_laws h view" and "runs h ''netsh'' wf_show_args w = ((out, ok), w')"
  shows "view w' = view w"
  using assms unfolding netsh_laws_def by blast

lemma wf_add_run:
  assumes "netsh_laws h view" and "wf_add h rs w = (err, w')"
  shows "\<exists>added. set added \<subseteq> set rs \<and> view w' = (view w)\<lparr>wf_installed := wf_installed (view w) @ added\<rparr> \<and> (err = None \<longrightarrow> added = rs)"
  using assms(2)
proof (induction rs arbitrary: w)
  case Nil
  then show ?case by auto
next
  case (Cons r rs)
  obtain name args where r: "r = (name, args)" by (cases r)
  obtain out ok w1 where x: "runs h ''netsh'' (wf_add_args name args) w = ((out, ok), w1)"
    by (metis prod.exhaust)
  have v: "view w1 = (if ok then (view w)\<lparr>wf_installed := wf_installed (view w) @ [(name, args)]\<rparr> else view w)"
    by (rule netsh_add[OF assms(1) x])
  show ?case
  proof (cases ok)
    case False
    then have "view w' = view w" using Cons.prems x v by (simp add: r)
    then show ?thesis using Cons.prems x False by (intro exI[of _ "[]"]) (auto simp: r)
  next
    case True
    have "wf_add h rs w1 = (err, w')" using Cons.prems x True by (simp add: r)
    from Cons.IH[OF this] obtain added where "set added \<subseteq> set rs"
      "view w' = (view w1)\<lparr>wf_installed := wf_installed (view w1) @ added\<rparr>" "err = None \<longrightarrow> added = rs" by auto
    then show ?thesis using v True by (intro exI[of _ "r # added"]) (auto simp: r)
  qed
qed

lemma wf_delete_run:
  assumes "netsh_laws h view" and "wf_delete h ns told w = (told', w')"
  shows "length told \<le> length told'" (is ?A)
    and "wf_default (view w') = wf_default (view w)" (is ?B)
    and "told' = [] \<Longrightarrow> wf_installed (view w') = filter (\<lambda>r. fst r \<notin> set ns) (wf_installed (view w))" (is "_ \<Longrightarrow> ?C")
proof -
  have "?A \<and> ?B \<and> (told' = [] \<longrightarrow> ?C)"
    using assms(2)
  proof (induction ns arbitrary: w told)
    case Nil
    then show ?case by auto
  next
    case (Cons n ns)
    obtain out ok w1 where x: "runs h ''netsh'' (wf_delete_args n) w = ((out, ok), w1)"
      by (metis prod.exhaust)
    have v: "if ok then view w1 = (view w)\<lparr>wf_installed := filter (\<lambda>r. fst r \<noteq> n) (wf_installed (view w))\<rparr>
             else view w1 = view w \<and> (contains_str out ''No rules'' \<longrightarrow> n \<notin> fst ` set (wf_installed (view w)))"
      by (rule netsh_delete[OF assms(1) x])
    let ?now = "if \<not> ok \<and> \<not> contains_str out ''No rules'' then told @ [n @ '': '' @ firstLine out] else told"
    have run: "wf_delete h ns ?now w1 = (told', w')" using Cons.prems x by simp
    note ih = Cons.IH[OF run]
    have bad: "told' = [] \<Longrightarrow> ok \<or> contains_str out ''No rules''" using ih by (auto split: if_splits)
    have gone: "told' = [] \<Longrightarrow> wf_installed (view w1) = filter (\<lambda>r. fst r \<noteq> n) (wf_installed (view w))"
      using v bad by (auto split: if_splits intro!: filter_True[symmetric])
    show ?case using ih v gone by (auto split: if_splits simp: conj_commute)
  qed
  then show ?A ?B "told' = [] \<Longrightarrow> ?C" by auto
qed

lemma windows_enable_view:
  assumes laws: "netsh_laws h view" and run: "quarantineEnable_windows h hostname apiURL w = ((status, detail), w')"
  shows "\<exists>added. fst ` set added \<subseteq> set wf_names \<and> wf_installed (view w') = wf_installed (view w) @ added"
    and "status = ''success'' \<Longrightarrow> wf_default (view w') = ''blockinbound,blockoutbound''"
proof -
  obtain out ok w1 where show_state: "runs h ''netsh'' wf_show_args w = ((out, ok), w1)"
    by (metis prod.exhaust)
  have v1: "view w1 = view w" by (rule netsh_show[OF laws show_state])
  let ?ips = "resolveHostIPs (ch_io h) (apiHost hostname apiURL) w1"
  obtain err w2 where add: "wf_add h (wf_rules ?ips) w1 = (err, w2)" by fastforce
  obtain pout pok w3 where policy: "wf_policy h ''blockinbound,blockoutbound'' w2 = ((pout, pok), w3)" by (metis prod.exhaust)
  have v3: "view w3 = (if pok then (view w2)\<lparr>wf_default := ''blockinbound,blockoutbound''\<rparr> else view w2)"
    by (rule netsh_policy[OF laws policy])
  have names: "fst ` set (wf_rules ?ips) \<subseteq> set wf_names" by (auto simp: wf_rules_def wf_names_def)
  obtain added where added: "set added \<subseteq> set (wf_rules ?ips)" "view w2 = (view w1)\<lparr>wf_installed := wf_installed (view w1) @ added\<rparr>"
    using wf_add_run[OF laws add] by auto
  have w': "w' = (if \<not> ok then w1 else if err \<noteq> None then w2 else w3)"
    and ok: "status = ''success'' \<Longrightarrow> ok \<and> err = None \<and> pok"
    using run show_state add policy by (auto simp: quarantineEnable_windows_def Let_def split: bool.splits option.splits)
  have "wf_installed (view w') = wf_installed (view w) @ (if ok then added else [])"
    using w' v1 v3 added(2) by auto
  then show "\<exists>added. fst ` set added \<subseteq> set wf_names \<and> wf_installed (view w') = wf_installed (view w) @ added"
    using names added(1) by (intro exI[of _ "if ok then added else []"]) auto
  show "status = ''success'' \<Longrightarrow> wf_default (view w') = ''blockinbound,blockoutbound''"
    using ok w' v3 by auto
qed

lemma windows_release_view:
  assumes laws: "netsh_laws h view" and run: "quarantineRelease_windows h w = ((''success'', detail), w')"
  shows "view w' = \<lparr>wf_default = ''blockinbound,allowoutbound'',
           wf_installed = filter (\<lambda>r. fst r \<notin> set wf_names) (wf_installed (view w))\<rparr>"
proof -
  obtain out ok w1 where policy: "wf_policy h ''blockinbound,allowoutbound'' w = ((out, ok), w1)" by (metis prod.exhaust)
  obtain told w2 where del: "wf_delete h wf_names (if ok then [] else [''restore policy: '' @ firstLine out]) w1 = (told, w2)" by fastforce
  have v1: "view w1 = (if ok then (view w)\<lparr>wf_default := ''blockinbound,allowoutbound''\<rparr> else view w)"
    by (rule netsh_policy[OF laws policy])
  have "told = []" "w' = w2" using run policy del by (auto simp: quarantineRelease_windows_def split: if_splits)
  moreover note wf_delete_run[OF laws del]
  moreover have "ok" using calculation by (auto split: if_splits)
  ultimately show ?thesis using v1 by (auto intro: win_firewall.equality)
qed

text \<open>
  A quarantine on Windows, complete or broken off, is undone by a release that reports success: the host's own rules
  are those it had before, and the default policy is the standard one -- whatever the host's policy was.
\<close>

theorem windows_quarantine_undone:
  assumes "netsh_laws h view" and "quarantineEnable_windows h hostname apiURL w = (r, w1)"
    and "quarantineRelease_windows h w1 = ((''success'', detail), w2)"
  shows "wf_installed (view w2) = filter (\<lambda>r. fst r \<notin> set wf_names) (wf_installed (view w))"
    and "wf_default (view w2) = ''blockinbound,allowoutbound''"
proof -
  obtain status d where r: "r = (status, d)" by (cases r)
  obtain added where "fst ` set added \<subseteq> set wf_names" "wf_installed (view w1) = wf_installed (view w) @ added"
    using windows_enable_view(1)[OF assms(1) assms(2)[unfolded r]] by auto
  moreover have "filter (\<lambda>r. fst r \<notin> set wf_names) added = []" using calculation(1) by (auto simp: filter_empty_conv)
  ultimately show "wf_installed (view w2) = filter (\<lambda>r. fst r \<notin> set wf_names) (wf_installed (view w))"
    and "wf_default (view w2) = ''blockinbound,allowoutbound''"
    using windows_release_view[OF assms(1,3)] by auto
qed

text \<open>A firewall that obeys them.\<close>

definition example_netsh :: "string \<Rightarrow> string list \<Rightarrow> win_firewall \<Rightarrow> (string \<times> bool) \<times> win_firewall" where
  "example_netsh bin args w =
     (if length args \<ge> 5 \<and> args ! 2 = ''add''
      then (([], True), w\<lparr>wf_installed := wf_installed w @ [(drop 5 (args ! 4), drop 7 args)]\<rparr>)
      else if length args \<ge> 5 \<and> args ! 2 = ''delete''
      then (([], True), w\<lparr>wf_installed := filter (\<lambda>r. fst r \<noteq> drop 5 (args ! 4)) (wf_installed w)\<rparr>)
      else if length args \<ge> 5 \<and> args ! 1 = ''set'' then (([], True), w\<lparr>wf_default := args ! 4\<rparr>)
      else (([], True), w))"

definition example_windows :: "win_firewall commander_host" where
  "example_windows =
     \<lparr>ch_io = \<lparr>execCommand = example_netsh, lookupIP = \<lambda>_ _. Some [''10.0.0.7'']\<rparr>, outputOf = \<lambda>_ _ w. ([], w), lookPath = \<lambda>_ _. False,
      removeFile = \<lambda>_ w. (None, w), readFile = \<lambda>_ _. Inr [], writeFile = \<lambda>_ _ w. (None, w), fileExists = \<lambda>_ _. False,
      getPending = \<lambda>_ _ w. (Unreachable, w), postResult = \<lambda>_ _ _ w. w\<rparr>"

lemma runs_example: "runs example_windows = example_netsh"
  by (simp add: runs_def example_windows_def)

lemma example_netsh_laws: "netsh_laws example_windows (\<lambda>w. w)"
  unfolding netsh_laws_def wf_policy_def runs_example
  by (simp add: example_netsh_def wf_add_args_def wf_delete_args_def wf_show_args_def numeral_eq_Suc)

definition office_firewall :: win_firewall where
  "office_firewall = \<lparr>wf_default = ''blockinbound,blockoutbound'', wf_installed = [(''Backup'', [''dir=in''])]\<rparr>"

text \<open>A host whose own policy denied outgoing connections is left more open than it was.\<close>

theorem windows_policy_not_restored:
  "wf_default (snd (quarantineRelease_windows example_windows
      (snd (quarantineEnable_windows example_windows (\<lambda>h. h) ''https://api.example'' office_firewall)))) = ''blockinbound,allowoutbound''
   \<and> wf_installed (snd (quarantineRelease_windows example_windows
      (snd (quarantineEnable_windows example_windows (\<lambda>h. h) ''https://api.example'' office_firewall)))) = wf_installed office_firewall"
  by code_simp

subsection \<open>Quarantine on macOS\<close>

lemma join_split: "join_with [c] (split_on c s) = s"
proof (induction s)
  case (Cons x s)
  obtain p ps where "split_on c s = p # ps" by (cases "split_on c s") auto
  then show ?case using Cons by (cases ps) auto
qed simp

lemma join_with_append: "xs \<noteq> [] \<Longrightarrow> ys \<noteq> [] \<Longrightarrow> join_with sep (xs @ ys) = join_with sep xs @ sep @ join_with sep ys"
  by (induction sep xs rule: join_with.induct) (auto simp: neq_Nil_conv)

lemma split_on_at: "split_on c (a @ c # b) = split_on c a @ split_on c b"
  by (induction a) (auto split: list.splits)

lemma trimmed_lines: "set (split_on CHR 0x0A (trim_right_nl s)) \<subseteq> set (split_on CHR 0x0A s)"
proof (induction s rule: rev_induct)
  case Nil
  then show ?case by (simp add: trim_right_nl_def)
next
  case (snoc c s)
  show ?case
  proof (cases "c = CHR 0x0A")
    case True
    have "split_on CHR 0x0A (s @ [CHR 0x0A]) = split_on CHR 0x0A s @ [[]]"
      using split_on_at[of "CHR 0x0A" s "[]"] by simp
    then show ?thesis using snoc True by (auto simp: trim_right_nl_def)
  qed (simp add: trim_right_nl_def)
qed

lemma own_lines:
  shows "pf_own_line pf_mark" and "pf_own_line pf_anchor_line" and "pf_own_line pf_load_line" and "\<not> pf_own_line []"
  by code_simp+

lemma split_line: "CHR 0x0A \<notin> set l \<Longrightarrow> split_on CHR 0x0A (l @ CHR 0x0A # b) = l # split_on CHR 0x0A b"
  by (rule split_on_append_sep)

lemma trim_right_nl_again: "trim_right_nl (trim_right_nl s @ nl @ nl) = trim_right_nl s"
  by (simp add: trim_right_nl_def nl_def dropWhile_idem)

text \<open>
  Releasing a quarantine on macOS leaves the configuration with its trailing newlines replaced by two: it is the
  original only if that ended in exactly two. Further quarantines change nothing more.
\<close>

theorem pf_release_leaves:
  assumes "\<not> contains_str conf pf_anchor_line" and "\<forall>l \<in> set (split_on CHR 0x0A conf). \<not> pf_own_line l"
  shows "pf_conf_released (pf_conf_with_anchor conf) = trim_right_nl conf @ nl @ nl"
proof -
  let ?t = "trim_right_nl conf"
  have "CHR 0x0A \<notin> set pf_mark" "CHR 0x0A \<notin> set pf_anchor_line" "CHR 0x0A \<notin> set pf_load_line" by code_simp+
  moreover have "pf_conf_with_anchor conf =
      ?t @ CHR 0x0A # CHR 0x0A # pf_mark @ CHR 0x0A # pf_anchor_line @ CHR 0x0A # pf_load_line @ CHR 0x0A # []"
    using assms(1) by (simp add: pf_conf_with_anchor_def nl_def)
  ultimately have "split_on CHR 0x0A (pf_conf_with_anchor conf) = split_on CHR 0x0A ?t @ [[], pf_mark, pf_anchor_line, pf_load_line, []]"
    by (simp add: split_on_at split_on_no_sep)
  moreover have "filter (\<lambda>l. \<not> pf_own_line l) (split_on CHR 0x0A ?t) = split_on CHR 0x0A ?t"
    using assms(2) trimmed_lines by (intro filter_True) blast
  ultimately have "pf_conf_released (pf_conf_with_anchor conf) = join_with nl (split_on CHR 0x0A ?t @ [[], []])"
    by (simp add: pf_conf_released_def own_lines)
  then show ?thesis by (simp add: join_with_append nl_def join_split)
qed

text \<open>An ordinary file, which ends in one newline, is not restored byte for byte.\<close>

theorem pf_release_not_verbatim:
  "pf_conf_released (pf_conf_with_anchor (''scrub-anchor all'' @ nl)) = ''scrub-anchor all'' @ nl @ nl"
  by code_simp

subsection \<open>The corporate wipe\<close>

text \<open>\<open>there\<close> reads which files exist. Removing affects only the file named, a directory can only be removed when
  nothing is left in it, and the service tools leave the agent's state alone.\<close>

definition wipe_laws :: "'w commander_host \<Rightarrow> (string \<Rightarrow> 'w \<Rightarrow> bool) \<Rightarrow> (string \<Rightarrow> string \<Rightarrow> bool) \<Rightarrow> string \<Rightarrow> bool" where
  "wipe_laws h there inside kept \<longleftrightarrow>
     (\<forall>q w. kept \<noteq> q \<longrightarrow> there kept (snd (removeFile h q w)) = there kept w)
     \<and> (\<forall>name args w. there kept (snd (runs h name args w)) = there kept w)
     \<and> (\<forall>dir w. inside kept dir \<longrightarrow> there kept w \<longrightarrow> fst (removeFile h dir w) \<noteq> None)"

lemma wipe_files_keep:
  assumes "wipe_laws h there inside kept" and "kept \<notin> (\<lambda>n. path_join (separator p) [dir, n]) ` set ns"
  shows "there kept (snd (wipe_files p h dir ns w)) = there kept w"
  using assms(2)
proof (induction ns arbitrary: w)
  case (Cons n ns)
  obtain err w1 where x: "removeFile h (path_join (separator p) [dir, n]) w = (err, w1)" by fastforce
  have "there kept (snd (removeFile h (path_join (separator p) [dir, n]) w)) = there kept w"
    using assms(1) Cons.prems by (simp add: wipe_laws_def)
  moreover obtain told w2 where "wipe_files p h dir ns w1 = (told, w2)" by fastforce
  moreover have "there kept (snd (wipe_files p h dir ns w1)) = there kept w1" using Cons by simp
  ultimately show ?case using x by simp
qed simp

lemma wipe_tries_keep: "wipe_laws h there inside kept \<Longrightarrow> there kept (snd (wipe_tries h ts w)) = there kept w"
proof (induction ts arbitrary: w)
  case (Cons t ts)
  obtain label name args where t: "t = (label, name, args)" by (cases t)
  obtain out ok w1 where x: "runs h name args w = ((out, ok), w1)" by (metis prod.exhaust)
  obtain told w2 where y: "wipe_tries h ts w1 = (told, w2)" by fastforce
  have "there kept (snd (runs h name args w)) = there kept w" using Cons.prems by (simp add: wipe_laws_def)
  then show ?case using Cons.IH[OF Cons.prems, of w1] x y by (simp add: t)
qed simp

lemma wipe_services_keep:
  assumes "wipe_laws h there inside kept" and "kept \<noteq> agent_plist"
  shows "there kept (snd (wipeDisableServices p h w)) = there kept w"
proof (cases p)
  case Darwin
  obtain out ok w1 where x: "runs h ''launchctl'' [''bootout'', ''system/io.devicepulse.agent''] w = ((out, ok), w1)" by (metis prod.exhaust)
  let ?w2 = "if ok then w1 else snd (runs h ''launchctl'' [''unload'', ''-w'', agent_plist] w1)"
  have "there kept w1 = there kept w" using assms(1) x unfolding wipe_laws_def by (metis snd_conv)
  then have "there kept ?w2 = there kept w" using assms(1) by (simp add: wipe_laws_def)
  moreover have "there kept (snd (removeFile h agent_plist ?w2)) = there kept ?w2"
    using assms by (auto simp: wipe_laws_def)
  moreover obtain err w3 where "removeFile h agent_plist ?w2 = (err, w3)" by fastforce
  ultimately show ?thesis using Darwin x by (simp add: wipeDisableServices_def)
qed (auto simp: wipeDisableServices_def wipe_tries_keep[OF assms(1)])

text \<open>
  A wipe leaves every file of the data directory that it does not name, such as the quarantine deadline
  (\<^verbatim>\<open>quarantine_until\<close>), and so the directory too.
\<close>

theorem wipe_leaves_unnamed:
  assumes laws: "wipe_laws h there inside kept" and w: "there kept w"
    and apart: "kept \<notin> (\<lambda>n. path_join (separator p) [wipe_dir p programData dataDir, n]) ` set wiped_names"
      "kept \<noteq> wipe_dir p programData dataDir" "kept \<noteq> agent_plist" "exe \<noteq> Some kept"
  shows "there kept (snd (runWipe p h programData dataDir exe w))"
proof -
  let ?dir = "wipe_dir p programData dataDir"
  obtain n1 w1 where 1: "wipe_files p h ?dir wiped_names w = (n1, w1)" by fastforce
  obtain e w2 where 2: "removeFile h ?dir w1 = (e, w2)" by fastforce
  obtain n2 w3 where 3: "wipeDisableServices p h w2 = (n2, w3)" by fastforce
  obtain n3 sch w4 where 4: "wipe_binary p h exe w3 = ((n3, sch), w4)" by (metis prod.exhaust)
  have "there kept w1" using wipe_files_keep[OF laws apart(1), of w] 1 w by simp
  then have "there kept w2" using laws 2 apart(2) unfolding wipe_laws_def by (metis snd_conv)
  then have "there kept w3" using wipe_services_keep[OF laws apart(3), of p w2] 3 by simp
  moreover have "there kept w4 = there kept w3"
    using 4 laws apart(4) unfolding wipe_laws_def wipe_binary_def
    by (auto split: option.splits if_splits prod.splits) (metis snd_conv)+
  ultimately show ?thesis by (simp add: runWipe_def Let_def 1 2 3 4)
qed

subsection \<open>The watch of the per-user agent\<close>

lemma replaced_at_iff:
  "replaced_at initial ss i = Some n \<longleftrightarrow>
     (\<exists>k < length ss. n = i + k \<and> (\<exists>c. ss ! k = Some c \<and> \<not> sameBinary initial c)
        \<and> (\<forall>j < k. \<forall>c. ss ! j = Some c \<longrightarrow> sameBinary initial c))"
proof (induction ss arbitrary: i)
  case (Cons s ss)
  show ?case
  proof (cases "\<exists>c. s = Some c \<and> \<not> sameBinary initial c")
    case True
    then show ?thesis by (auto simp: Ex_less_Suc2 All_less_Suc2)
  next
    case False
    then have "replaced_at initial (s # ss) i = replaced_at initial ss (Suc i)" by (auto split: option.splits)
    then show ?thesis using False Cons.IH by (auto simp: Ex_less_Suc2 All_less_Suc2)
  qed
qed simp

text \<open>The watch ends at the first tick at which the file can be examined and differs from the one it started with; a
  file that is away for a while, as during the swap, does not end it.\<close>

theorem restarts_on_first_change:
  "restartWhenBinaryReplaced (Some initial) samples = Some n \<longleftrightarrow>
     n < length samples \<and> (\<exists>c. samples ! n = Some c \<and> \<not> sameBinary initial c)
       \<and> (\<forall>j < n. \<forall>c. samples ! j = Some c \<longrightarrow> sameBinary initial c)"
  by (auto simp: restartWhenBinaryReplaced_def replaced_at_iff)

end
