(* ===== verification/Responses.thy ===== *)
theory Responses
  imports RateLimiter Auth GoUrl
begin

text \<open>
  What surrounds every handler: the routes of \<^verbatim>\<open>registerRoutes\<close> with their guards, the encryption of responses
  (\<^verbatim>\<open>api/response_encryption.go\<close>) with the dashboard's decryption (\<^verbatim>\<open>dashboard/src/lib/encrypted-fetch.ts\<close>), and the flag
  of the session cookie (\<^verbatim>\<open>api/security_config.go\<close>). The cryptography is a record of functions; a handler is what it does
  to the response writer.
\<close>

named_theorems writing \<open>what operations on a response writer do\<close>

subsection \<open>Response writers\<close>

text \<open>Headers by lower-case name, as \<^verbatim>\<open>http.Header\<close> is used with canonical names only.\<close>

type_synonym header = "string \<Rightarrow> string list"

definition hget :: "header \<Rightarrow> string \<Rightarrow> string" where
  "hget h k = (case h (to_lower k) of [] \<Rightarrow> [] | v # _ \<Rightarrow> v)"

datatype wop = Set_header string string | Add_header string string | Del_header string | Replace_headers header
  | Write_status nat | Write_bytes string

fun on_header :: "wop \<Rightarrow> header \<Rightarrow> header" where
  "on_header (Set_header k v) h = h(to_lower k := [v])"
| "on_header (Add_header k v) h = h(to_lower k := h (to_lower k) @ [v])"
| "on_header (Del_header k) h = h(to_lower k := [])"
| "on_header (Replace_headers h') h = h'"
| "on_header (Write_status n) h = h"
| "on_header (Write_bytes p) h = h"

text \<open>The writer of \<^verbatim>\<open>net/http\<close>: the first status, or the first byte, sends the headers as they are then.\<close>

record plain_writer =
  pw_header :: header
  pw_sent :: "(nat \<times> header) option"
  pw_body :: string

definition commit_status :: "nat \<Rightarrow> plain_writer \<Rightarrow> plain_writer" where
  "commit_status n w = (if pw_sent w = None \<and> n \<ge> 200 then w\<lparr>pw_sent := Some (n, pw_header w)\<rparr> else w)"

definition plain_step :: "wop \<Rightarrow> plain_writer \<Rightarrow> plain_writer" where
  "plain_step op w =
     (case op of
        Write_status n \<Rightarrow> commit_status n w
      | Write_bytes p \<Rightarrow> (let w1 = commit_status 200 w in w1\<lparr>pw_body := pw_body w1 @ p\<rparr>)
      | _ \<Rightarrow> w\<lparr>pw_header := on_header op (pw_header w)\<rparr>)"

definition http_send :: "header \<Rightarrow> wop list \<Rightarrow> nat \<times> header \<times> string" where
  "http_send h ops =
     (let w = commit_status 200 (fold plain_step ops \<lparr>pw_header = h, pw_sent = None, pw_body = []\<rparr>)
      in case pw_sent w of Some (n, h1) \<Rightarrow> (n, h1, pw_body w) | None \<Rightarrow> (200, h, pw_body w))"

text \<open>\<^verbatim>\<open>http.Error\<close>.\<close>

definition http_error :: "string \<Rightarrow> nat \<Rightarrow> wop list" where
  "http_error msg code =
     [Del_header ''Content-Length'', Set_header ''Content-Type'' ''text/plain; charset=utf-8'',
      Set_header ''X-Content-Type-Options'' ''nosniff'', Write_status code, Write_bytes (msg @ [CHR 0x0A])]"

subsection \<open>The buffer\<close>

definition payloadProtocol :: string where "payloadProtocol = ''devicepulse-response-v1''"
definition maxEncryptedResponseBytes :: nat where "maxEncryptedResponseBytes = 64 * 2 ^ 20"

record encryptedResponseWriter =
  ew_header :: header
  ew_body :: string
  ew_status :: nat
  ew_overflow :: bool

definition ew_WriteHeader :: "nat \<Rightarrow> encryptedResponseWriter \<Rightarrow> encryptedResponseWriter" where
  "ew_WriteHeader n b = (if ew_status b = 0 \<and> n \<ge> 200 then b\<lparr>ew_status := n\<rparr> else b)"

definition ew_Write :: "nat \<Rightarrow> string \<Rightarrow> encryptedResponseWriter \<Rightarrow> encryptedResponseWriter" where
  "ew_Write limit p b =
     (let b1 = (if ew_status b = 0 then b\<lparr>ew_status := 200\<rparr> else b)
      in if ew_overflow b1 \<or> int (length p) > int limit - int (length (ew_body b1)) then b1\<lparr>ew_overflow := True\<rparr>
         else b1\<lparr>ew_body := ew_body b1 @ p\<rparr>)"

definition ew_step :: "nat \<Rightarrow> wop \<Rightarrow> encryptedResponseWriter \<Rightarrow> encryptedResponseWriter" where
  "ew_step limit op b =
     (case op of
        Write_status n \<Rightarrow> ew_WriteHeader n b
      | Write_bytes p \<Rightarrow> ew_Write limit p b
      | _ \<Rightarrow> b\<lparr>ew_header := on_header op (ew_header b)\<rparr>)"

text \<open>The buffer when the handler is done, with the replacement for an answer that was too large.\<close>

definition buffered :: "nat \<Rightarrow> header \<Rightarrow> wop list \<Rightarrow> encryptedResponseWriter" where
  "buffered limit h ops =
     (let b = fold (ew_step limit) ops \<lparr>ew_header = h, ew_body = [], ew_status = 0, ew_overflow = False\<rparr>;
          b1 = (if ew_status b = 0 then b\<lparr>ew_status := 200\<rparr> else b)
      in if ew_overflow b1
         then b1\<lparr>ew_status := 500, ew_body := ''Response exceeds encryption size limit'',
                 ew_header := on_header (Set_header ''Content-Type'' ''text/plain; charset=utf-8'') (ew_header b1)\<rparr>
         else b1)"

subsection \<open>Encryption\<close>

text \<open>P-256, HKDF-SHA256, AES-GCM and base64 on byte lists. \<open>detectContentType\<close> is the sniffing of \<^verbatim>\<open>net/http\<close>.\<close>

record response_crypto =
  rc_decode :: "string \<Rightarrow> string option"
  rc_encode :: "string \<Rightarrow> string"
  validPoint :: "string \<Rightarrow> bool"
  publicOf :: "string \<Rightarrow> string"
  ecdhOf :: "string \<Rightarrow> string \<Rightarrow> string option"
  hkdfKey :: "string \<Rightarrow> string \<Rightarrow> string \<Rightarrow> nat \<Rightarrow> string option"
  gcmSeal :: "string \<Rightarrow> string \<Rightarrow> string \<Rightarrow> string \<Rightarrow> string"
  gcmOpen :: "string \<Rightarrow> string \<Rightarrow> string \<Rightarrow> string \<Rightarrow> string option"
  detectContentType :: "string \<Rightarrow> string"

text \<open>What the random source gives: the private key, the salt and the nonce, each unless it fails.\<close>

record drawn =
  dr_private :: "string option"
  dr_salt :: "string option"
  dr_nonce :: "string option"

definition server_material :: "response_crypto \<Rightarrow> drawn \<Rightarrow> string \<Rightarrow> (string \<times> string \<times> string \<times> string) option" where
  "server_material C D peer =
     (case dr_private D of None \<Rightarrow> None
      | Some priv \<Rightarrow> (case ecdhOf C priv peer of None \<Rightarrow> None
        | Some shared \<Rightarrow> (case dr_salt D of None \<Rightarrow> None
          | Some salt \<Rightarrow> (case dr_nonce D of None \<Rightarrow> None
            | Some nonce \<Rightarrow> (case hkdfKey C shared salt payloadProtocol 32 of None \<Rightarrow> None
              | Some key \<Rightarrow> if length key \<in> {16, 24, 32} then Some (priv, salt, nonce, key) else None)))))"

definition response_type :: "response_crypto \<Rightarrow> encryptedResponseWriter \<Rightarrow> string" where
  "response_type C b = (let t = hget (ew_header b) ''Content-Type'' in if t = [] then detectContentType C (ew_body b) else t)"

definition sealed_header :: "response_crypto \<Rightarrow> encryptedResponseWriter \<Rightarrow> wop list" where
  "sealed_header C b =
     [Replace_headers (ew_header b), Del_header ''Content-Length'', Del_header ''Content-Encoding'', Del_header ''ETag'',
      Set_header ''Cache-Control'' ''no-store'', Set_header ''X-DevicePulse-Encryption'' payloadProtocol,
      Set_header ''X-DevicePulse-Content-Type'' (response_type C b), Set_header ''Content-Type'' ''application/octet-stream'',
      Set_header ''X-Content-Type-Options'' ''nosniff'', Write_status (ew_status b)]"

definition response_aad :: "nat \<Rightarrow> string \<Rightarrow> string" where
  "response_aad status contentType = payloadProtocol @ [CHR 0x0A] @ dec_str status @ [CHR 0x0A] @ contentType"

definition bodiless :: "bool \<Rightarrow> nat \<Rightarrow> bool" where
  "bodiless isHead status \<longleftrightarrow> isHead \<or> status = 204 \<or> status = 304"

definition sealed_reply :: "response_crypto \<Rightarrow> string \<times> string \<times> string \<times> string \<Rightarrow> bool \<Rightarrow> encryptedResponseWriter \<Rightarrow> wop list" where
  "sealed_reply C m isHead b =
     (case m of (priv, salt, nonce, key) \<Rightarrow>
        sealed_header C b
        @ (if bodiless isHead (ew_status b) then []
           else [Write_bytes (publicOf C priv @ salt @ nonce
                   @ gcmSeal C key nonce (ew_body b) (response_aad (ew_status b) (response_type C b)))]))"

text \<open>A handler asks which kind of writer it was given: \<open>True\<close> is the buffer.\<close>

type_synonym handler = "bool \<Rightarrow> wop list"

definition no_store :: wop where "no_store = Set_header ''Cache-Control'' ''no-store''"

definition encryptedResponse :: "response_crypto \<Rightarrow> drawn \<Rightarrow> string \<Rightarrow> bool \<Rightarrow> header \<Rightarrow> handler \<Rightarrow> wop list" where
  "encryptedResponse C D encodedKey isHead h next_handler =
     (if encodedKey = [] then next_handler False
      else (case rc_decode C encodedKey of
          None \<Rightarrow> no_store # http_error ''Invalid response encryption key'' 400
        | Some peer \<Rightarrow>
            if length peer \<noteq> 65 \<or> \<not> validPoint C peer then no_store # http_error ''Invalid response encryption key'' 400
            else (case server_material C D peer of
                None \<Rightarrow> no_store # http_error ''Response encryption unavailable'' 500
              | Some m \<Rightarrow> no_store # sealed_reply C m isHead
                  (buffered maxEncryptedResponseBytes (on_header no_store h) (next_handler True)))))"

definition requireEncryptedResponse :: "handler \<Rightarrow> handler" where
  "requireEncryptedResponse next_handler enc =
     (if \<not> enc then no_store # http_error ''Dashboard response encryption required'' 400 else next_handler True)"

definition cors_ops :: "string set \<Rightarrow> string \<Rightarrow> string \<Rightarrow> wop list" where
  "cors_ops allowed origin meth =
     map (\<lambda>(k, v). if k = ''Vary'' then Add_header k v else Set_header k v) (fst (corsMiddleware allowed origin meth))"

definition handled :: "response_crypto \<Rightarrow> drawn \<Rightarrow> string set \<Rightarrow> string \<Rightarrow> string \<Rightarrow> string \<Rightarrow> header \<Rightarrow> handler \<Rightarrow> wop list" where
  "handled C D allowed origin meth encodedKey h next_handler =
     (let cors = cors_ops allowed origin meth
      in cors @ (if snd (corsMiddleware allowed origin meth)
                 then encryptedResponse C D encodedKey (meth = ''HEAD'') (fold on_header cors h) next_handler
                 else [Write_status 200]))"

subsection \<open>Decryption in the browser\<close>

text \<open>Header values reach a script as Latin-1 and are encoded as UTF-8 for the check.\<close>

definition utf8_of_latin1 :: "string \<Rightarrow> string" where
  "utf8_of_latin1 s = concat (map (\<lambda>c. if of_char c < (128 :: nat) then [c]
       else [char_of (192 + of_char c div 64 :: nat), char_of (128 + of_char c mod 64 :: nat)]) s)"

text \<open>Status, content type and, unless there is none, the body; \<open>None\<close> is an exception.\<close>

text \<open>The constructor \<^verbatim>\<open>new Response\<close> throws for a status outside 200 to 599 and for a body where there is none.\<close>

definition js_response :: "nat \<Rightarrow> string \<Rightarrow> string option \<Rightarrow> (nat \<times> string \<times> string option) option" where
  "js_response status contentType plain =
     (if status < 200 \<or> status > 599 \<or> (status \<in> {204, 205, 304} \<and> plain \<noteq> None) then None
      else Some (status, contentType, plain))"

definition encryptedFetch :: "response_crypto \<Rightarrow> string \<Rightarrow> bool \<Rightarrow> nat \<times> header \<times> string \<Rightarrow> (nat \<times> string \<times> string option) option" where
  "encryptedFetch C priv isHead r =
     (case r of (status, h, wire) \<Rightarrow>
        let contentType = hget h ''X-DevicePulse-Content-Type''
        in if hget h ''X-DevicePulse-Encryption'' \<noteq> payloadProtocol \<or> contentType = [] then None
           else if bodiless isHead status then js_response status contentType None
           else if length wire < 125 \<or> \<not> validPoint C (take 65 wire) then None
           else (case ecdhOf C priv (take 65 wire) of None \<Rightarrow> None
             | Some shared \<Rightarrow> (case hkdfKey C shared (take 32 (drop 65 wire)) payloadProtocol 32 of None \<Rightarrow> None
               | Some key \<Rightarrow> (case gcmOpen C key (take 12 (drop 97 wire)) (drop 109 wire)
                     (utf8_of_latin1 (payloadProtocol @ [CHR 0x0A] @ dec_str status @ [CHR 0x0A] @ contentType)) of
                   None \<Rightarrow> None | Some plain \<Rightarrow> js_response status contentType (Some plain)))))"

subsection \<open>The flag of the session cookie\<close>

definition secureSessionCookies :: "(string \<Rightarrow> string) \<Rightarrow> (string \<Rightarrow> bool) \<Rightarrow> string \<Rightarrow> string set \<Rightarrow> bool" where
  "secureSessionCookies hostname loopback cookieSecure allowed \<longleftrightarrow>
     to_lower cookieSecure = ''true''
     \<or> (\<exists>origin \<in> allowed. case url_parse origin of
           None \<Rightarrow> True
         | Some u \<Rightarrow> u_scheme u \<noteq> ''http'' \<or> (hostname (u_host u) \<noteq> ''localhost'' \<and> \<not> loopback (hostname (u_host u))))"

subsection \<open>Routes\<close>

text \<open>The guard of a route and the handler behind it, by name; \<open>Sealed\<close> is \<^verbatim>\<open>requireEncryptedResponse\<close> alone, \<open>Session\<close> is \<^verbatim>\<open>requireAuth\<close>
  and \<open>Role\<close> is \<^verbatim>\<open>requireRole\<close>, which are built on it.\<close>

datatype guard = Unguarded | Sealed | Session | Role string | Agent

datatype route = Fixed guard string | Devices_route | Policy_route

definition registerRoutes :: "(string \<times> route) list" where
  "registerRoutes =
     [(''/health'', Fixed Unguarded ''healthHandler''), (''/devices/register'', Fixed Unguarded ''registerHandler''),
      (''/devices/revocations/'', Fixed (Role RoleAdmin) ''revocationClearHandler''),
      (''/auth/bootstrap'', Fixed Sealed ''authBootstrapHandler''), (''/auth/register'', Fixed Sealed ''authRegisterHandler''),
      (''/auth/login'', Fixed Sealed ''authLoginHandler''), (''/auth/logout'', Fixed Sealed ''authLogoutHandler''),
      (''/auth/me'', Fixed Session ''authMeHandler''), (''/users/'', Fixed (Role RoleAdmin) ''userDetailHandler''),
      (''/users'', Fixed (Role RoleAdmin) ''usersHandler''), (''/audit'', Fixed (Role RoleAdmin) ''auditHandler''),
      (''/devices/'', Devices_route), (''/devices'', Fixed (Role RoleViewer) ''devicesHandler''),
      (''/reports/weekly'', Fixed (Role RoleViewer) ''weeklyReportHandler''), (''/ingest'', Fixed Unguarded ''ingestHandler''),
      (''/policy'', Policy_route), (''/focus/'', Fixed (Role RoleViewer) ''focusHandler''),
      (''/commands/pending'', Fixed Agent ''commandsPendingHandler''), (''/commands/result'', Fixed Agent ''commandsResultHandler''),
      (''/update/check'', Fixed Agent ''updateCheckHandler''), (''/update/releases'', Fixed (Role RoleAdmin) ''releaseListHandler''),
      (''/update/release/rollout-latest'', Fixed (Role RoleAdmin) ''releaseRolloutLatestHandler''),
      (''/update/release/activate'', Fixed (Role RoleAdmin) ''releaseActivateHandler''),
      (''/update/release/signature'', Fixed (Role RoleAdmin) ''releaseSignatureHandler''),
      (''/update/release'', Fixed (Role RoleAdmin) ''releasePublishHandler''), (''/update/builds'', Fixed (Role RoleAdmin) ''agentBuildsHandler'')]"

text \<open>The longest pattern that is the path or, ending in a slash, a prefix of it, for a clean path.\<close>

fun mux_match :: "(string \<times> route) list \<Rightarrow> string \<Rightarrow> (string \<times> route) option" where
  "mux_match [] path = None"
| "mux_match ((pat, r) # rs) path =
     (case mux_match rs path of
        Some (pat', r') \<Rightarrow> if (path = pat \<or> (pat \<noteq> [] \<and> last pat = CHR ''/'' \<and> prefix pat path)) \<and> length pat > length pat'
            then Some (pat, r) else Some (pat', r')
      | None \<Rightarrow> if path = pat \<or> (pat \<noteq> [] \<and> last pat = CHR ''/'' \<and> prefix pat path) then Some (pat, r) else None)"

text \<open>The methods of \<^verbatim>\<open>deviceCommandsHandler\<close>, which are guarded each on its own.\<close>

definition device_commands_route :: "string \<Rightarrow> string \<Rightarrow> guard \<times> string" where
  "device_commands_route meth path =
     (case split_on CHR ''/'' (trim_prefix path ''/'') of
        [a, device, b] \<Rightarrow>
          if a \<noteq> ''devices'' \<or> device = [] \<or> b \<noteq> ''commands'' then (Unguarded, ''Invalid URL'')
          else if meth = ''POST'' then (Role RoleManager, ''deviceCommandCreateHandler'')
          else if meth = ''GET'' then (Role RoleViewer, ''deviceCommandListHandler'')
          else (Unguarded, ''Method not allowed'')
      | _ \<Rightarrow> (Unguarded, ''Invalid URL''))"

definition devices_route :: "string \<Rightarrow> string \<Rightarrow> guard \<times> string" where
  "devices_route meth path =
     (if suffix ''/browser-history'' path then (Role RoleViewer, ''browserHistoryHandler'')
      else if suffix ''/history'' path then (Role RoleViewer, ''historyHandler'')
      else if suffix ''/name'' path then (Role RoleAdmin, ''deviceNameHandler'')
      else if suffix ''/ping'' path then (Role RoleAdmin, ''devicePingHandler'')
      else if suffix ''/app-usage'' path then (Role RoleViewer, ''deviceAppUsageHandler'')
      else if suffix ''/presence'' path then (Role RoleViewer, ''devicePresenceHandler'')
      else if suffix ''/commands'' path then device_commands_route meth path
      else if meth = ''DELETE'' then (Role RoleAdmin, ''deviceDeleteHandler'')
      else (Unguarded, ''404 page not found''))"

definition policy_route :: "string \<Rightarrow> bool \<Rightarrow> guard \<times> string" where
  "policy_route meth agent_key =
     (if meth = ''POST'' then (Role RoleManager, ''policyHandler'')
      else if agent_key then (Agent, ''policyHandler'') else (Role RoleViewer, ''policyHandler''))"

definition route_of :: "string \<Rightarrow> bool \<Rightarrow> string \<Rightarrow> guard \<times> string" where
  "route_of meth agent_key path =
     (case mux_match registerRoutes path of
        None \<Rightarrow> (Unguarded, ''404 page not found'')
      | Some (_, Fixed g name) \<Rightarrow> (g, name)
      | Some (_, Devices_route) \<Rightarrow> devices_route meth path
      | Some (_, Policy_route) \<Rightarrow> policy_route meth agent_key)"

text \<open>What the guard adds on the way to a handler as far as encryption goes.\<close>

fun under_guard :: "guard \<Rightarrow> handler \<Rightarrow> handler" where
  "under_guard Unguarded inner = inner"
| "under_guard Agent inner = inner"
| "under_guard _ inner = requireEncryptedResponse inner"

text \<open>The handlers reachable without a guard, and the texts of errors.\<close>

definition open_handlers :: "string set" where
  "open_handlers = {''healthHandler'', ''registerHandler'', ''ingestHandler'', ''404 page not found'', ''Invalid URL'', ''Method not allowed''}"

definition agent_handlers :: "string set" where
  "agent_handlers = {''commandsPendingHandler'', ''commandsResultHandler'', ''updateCheckHandler'', ''policyHandler''}"

definition changing_handlers :: "string set" where
  "changing_handlers = {''revocationClearHandler'', ''userDetailHandler'', ''usersHandler'', ''deviceNameHandler'', ''deviceDeleteHandler'',
     ''releaseRolloutLatestHandler'', ''releaseActivateHandler'', ''releaseSignatureHandler'', ''releasePublishHandler'', ''agentBuildsHandler''}"

lemma mux_match_in: "mux_match rs path = Some pr \<Longrightarrow> pr \<in> set rs"
  by (induction rs path arbitrary: pr rule: mux_match.induct) (auto split: option.splits if_splits)

lemma fixed_routes:
  assumes "(pat, Fixed g name) \<in> set registerRoutes"
  shows "(g = Unguarded \<longrightarrow> name \<in> open_handlers) \<and> (g = Agent \<longrightarrow> name \<in> agent_handlers)
         \<and> (name \<in> changing_handlers \<longrightarrow> g = Role RoleAdmin)"
proof -
  have "list_all (\<lambda>(pat, r). case r of Fixed g name \<Rightarrow> (g = Unguarded \<longrightarrow> name \<in> open_handlers) \<and> (g = Agent \<longrightarrow> name \<in> agent_handlers)
      \<and> (name \<in> changing_handlers \<longrightarrow> g = Role RoleAdmin) | _ \<Rightarrow> True) registerRoutes" by code_simp
  with assms show ?thesis by (auto simp: list_all_iff)
qed

definition devices_outcomes :: "(guard \<times> string) list" where
  "devices_outcomes =
     [(Role RoleViewer, ''browserHistoryHandler''), (Role RoleViewer, ''historyHandler''), (Role RoleAdmin, ''deviceNameHandler''),
      (Role RoleAdmin, ''devicePingHandler''), (Role RoleViewer, ''deviceAppUsageHandler''), (Role RoleViewer, ''devicePresenceHandler''),
      (Unguarded, ''Invalid URL''), (Role RoleManager, ''deviceCommandCreateHandler''), (Role RoleViewer, ''deviceCommandListHandler''),
      (Unguarded, ''Method not allowed''), (Role RoleAdmin, ''deviceDeleteHandler''), (Unguarded, ''404 page not found'')]"

lemma if_in: "x \<in> S \<Longrightarrow> y \<in> S \<Longrightarrow> (if b then x else y) \<in> S"
  by simp

lemma three_in: "(\<And>a b c. f a b c \<in> S) \<Longrightarrow> z \<in> S \<Longrightarrow> (case xs of [a, b, c] \<Rightarrow> f a b c | _ \<Rightarrow> z) \<in> S"
  by (simp split: list.split)

lemma device_commands_route_in: "device_commands_route meth path \<in> set devices_outcomes"
  unfolding device_commands_route_def
  by (intro three_in if_in) (simp_all add: devices_outcomes_def)

lemma devices_route_in: "devices_route meth path \<in> set devices_outcomes"
  unfolding devices_route_def
  by (intro if_in device_commands_route_in) (simp_all add: devices_outcomes_def)

lemma devices_route_cases:
  shows "fst (devices_route meth path) = Unguarded \<Longrightarrow> snd (devices_route meth path) \<in> open_handlers"
    and "fst (devices_route meth path) \<noteq> Agent"
    and "snd (devices_route meth path) \<in> changing_handlers \<Longrightarrow> fst (devices_route meth path) = Role RoleAdmin"
proof -
  have "list_all (\<lambda>(g, name). (g = Unguarded \<longrightarrow> name \<in> open_handlers) \<and> g \<noteq> Agent \<and> (name \<in> changing_handlers \<longrightarrow> g = Role RoleAdmin))
      devices_outcomes" by code_simp
  then show "fst (devices_route meth path) = Unguarded \<Longrightarrow> snd (devices_route meth path) \<in> open_handlers"
    and "fst (devices_route meth path) \<noteq> Agent"
    and "snd (devices_route meth path) \<in> changing_handlers \<Longrightarrow> fst (devices_route meth path) = Role RoleAdmin"
    using devices_route_in[of meth path] by (auto simp: list_all_iff)
qed

text \<open>
  Which handlers a request can reach without proving anything: health, enrolment, ingest (which checks the key of the
  agent itself) and errors. Those for agents need a key, and a handler that changes devices, users or releases an
  administrator.
\<close>

theorem routes_guarded:
  assumes "route_of meth agent_key path = (g, name)"
  shows "g = Unguarded \<Longrightarrow> name \<in> open_handlers" and "g = Agent \<Longrightarrow> name \<in> agent_handlers"
    and "name \<in> changing_handlers \<Longrightarrow> g = Role RoleAdmin"
proof -
  have "(g = Unguarded \<longrightarrow> name \<in> open_handlers) \<and> (g = Agent \<longrightarrow> name \<in> agent_handlers)
        \<and> (name \<in> changing_handlers \<longrightarrow> g = Role RoleAdmin)"
  proof (cases "mux_match registerRoutes path")
    case None
    then show ?thesis using assms by (auto simp: route_of_def open_handlers_def changing_handlers_def)
  next
    case (Some pr)
    obtain pat r where pr: "pr = (pat, r)" by (cases pr)
    show ?thesis
    proof (cases r)
      case (Fixed g' name')
      then show ?thesis using mux_match_in[OF Some] fixed_routes assms by (auto simp: route_of_def Some pr)
    next
      case Devices_route
      then have "devices_route meth path = (g, name)" using assms by (simp add: route_of_def Some pr)
      then show ?thesis using devices_route_cases[of meth path] by auto
    next
      case Policy_route
      then have "policy_route meth agent_key = (g, name)" using assms by (simp add: route_of_def Some pr)
      then show ?thesis by (auto simp: policy_route_def agent_handlers_def changing_handlers_def split: if_splits)
    qed
  qed
  then show "g = Unguarded \<Longrightarrow> name \<in> open_handlers" and "g = Agent \<Longrightarrow> name \<in> agent_handlers"
    and "name \<in> changing_handlers \<Longrightarrow> g = Role RoleAdmin" by auto
qed

subsection \<open>The dashboard gets no readable answer\<close>

text \<open>Behind a guard of the dashboard a request without a key is refused, whatever the handler would do.\<close>

theorem dashboard_needs_key:
  assumes "g \<notin> {Unguarded, Agent}" and "meth \<noteq> ''OPTIONS''"
  shows "handled C D allowed origin meth [] h (under_guard g inner)
         = cors_ops allowed origin meth @ no_store # http_error ''Dashboard response encryption required'' 400"
  using assms by (cases g) (auto simp: handled_def encryptedResponse_def requireEncryptedResponse_def corsMiddleware_def)

subsection \<open>The dashboard reads what the handler wrote\<close>

text \<open>
  The documented behaviour of the primitives: base64 and P-256 keys read back, both sides derive the same secret, and
  AES-GCM opens exactly what was sealed under the same key, nonce and associated data, with a tag of 16 bytes.
\<close>

definition response_crypto_laws :: "response_crypto \<Rightarrow> bool" where
  "response_crypto_laws C \<longleftrightarrow>
     (\<forall>s. rc_decode C (rc_encode C s) = Some s) \<and> (\<forall>s. s \<noteq> [] \<longrightarrow> rc_encode C s \<noteq> [])
     \<and> (\<forall>a. length (publicOf C a) = 65 \<and> validPoint C (publicOf C a))
     \<and> (\<forall>a b. ecdhOf C a (publicOf C b) = ecdhOf C b (publicOf C a))
     \<and> (\<forall>k n c a b. gcmOpen C k n c a = Some b \<longleftrightarrow> c = gcmSeal C k n b a)
     \<and> (\<forall>k n b a. length (gcmSeal C k n b a) = length b + 16)"

lemma response_crypto_lawsD:
  assumes "response_crypto_laws C"
  shows "rc_decode C (rc_encode C s) = Some s" and "s \<noteq> [] \<Longrightarrow> rc_encode C s \<noteq> []" and "length (publicOf C a) = 65"
    and "validPoint C (publicOf C a)" and "ecdhOf C a (publicOf C b) = ecdhOf C b (publicOf C a)"
    and "gcmOpen C k n (gcmSeal C k n m d) d = Some m" and "length (gcmSeal C k n m d) = length m + 16"
proof -
  note laws = assms[unfolded response_crypto_laws_def]
  have g: "\<forall>k n c a b. gcmOpen C k n c a = Some b \<longleftrightarrow> c = gcmSeal C k n b a" using laws by (elim conjE) assumption
  show "gcmOpen C k n (gcmSeal C k n m d) d = Some m" by (simp add: g)
  have e: "\<forall>a b. ecdhOf C a (publicOf C b) = ecdhOf C b (publicOf C a)" using laws by (elim conjE) assumption
  then show "ecdhOf C a (publicOf C b) = ecdhOf C b (publicOf C a)" by (elim allE)
  show "rc_decode C (rc_encode C s) = Some s" and "s \<noteq> [] \<Longrightarrow> rc_encode C s \<noteq> []" and "length (publicOf C a) = 65"
    and "validPoint C (publicOf C a)" and "length (gcmSeal C k n m d) = length m + 16"
    using laws by (elim conjE, simp)+
qed

lemma lower_simps [writing]:
  "to_lower ''Content-Type'' = ''content-type''" "to_lower ''Content-Length'' = ''content-length''"
  "to_lower ''Content-Encoding'' = ''content-encoding''" "to_lower ''ETag'' = ''etag''"
  "to_lower ''Cache-Control'' = ''cache-control''" "to_lower ''X-DevicePulse-Encryption'' = ''x-devicepulse-encryption''"
  "to_lower ''X-DevicePulse-Content-Type'' = ''x-devicepulse-content-type''"
  "to_lower ''X-Content-Type-Options'' = ''x-content-type-options''"
  by code_simp+

lemma plain_simps [writing]:
  "plain_step (Set_header k v) w = w\<lparr>pw_header := (pw_header w)(to_lower k := [v])\<rparr>"
  "plain_step (Add_header k v) w = w\<lparr>pw_header := (pw_header w)(to_lower k := pw_header w (to_lower k) @ [v])\<rparr>"
  "plain_step (Del_header k) w = w\<lparr>pw_header := (pw_header w)(to_lower k := [])\<rparr>"
  "plain_step (Replace_headers h) w = w\<lparr>pw_header := h\<rparr>"
  "plain_step (Write_status n) w = commit_status n w"
  by (simp_all add: plain_step_def)

text \<open>The headers that leave with a sealed answer.\<close>

definition sealed_headers :: "response_crypto \<Rightarrow> encryptedResponseWriter \<Rightarrow> header" where
  "sealed_headers C b =
     (ew_header b)(''content-length'' := [], ''content-encoding'' := [], ''etag'' := [], ''cache-control'' := [''no-store''],
        ''x-devicepulse-encryption'' := [payloadProtocol], ''x-devicepulse-content-type'' := [response_type C b],
        ''content-type'' := [''application/octet-stream''], ''x-content-type-options'' := [''nosniff''])"

lemma sealed_sends:
  assumes "pw_sent w = None" and "ew_status b \<ge> 200"
  shows "fold plain_step (sealed_header C b) w = w\<lparr>pw_header := sealed_headers C b, pw_sent := Some (ew_status b, sealed_headers C b)\<rparr>"
  using assms by (simp add: sealed_header_def writing commit_status_def sealed_headers_def)

lemma sealed_headers_read:
  shows "hget (sealed_headers C b) ''X-DevicePulse-Encryption'' = payloadProtocol"
    and "hget (sealed_headers C b) ''X-DevicePulse-Content-Type'' = response_type C b"
  by (simp_all add: hget_def writing sealed_headers_def)

lemma ew_step_status: "ew_status b = 0 \<or> ew_status b \<ge> 200 \<Longrightarrow> ew_status (ew_step limit op b) = 0 \<or> ew_status (ew_step limit op b) \<ge> 200"
  by (auto simp: ew_step_def ew_WriteHeader_def ew_Write_def Let_def split: wop.splits)

lemma ew_step_bound: "length (ew_body b) \<le> limit \<Longrightarrow> length (ew_body (ew_step limit op b)) \<le> limit"
  by (auto simp: ew_step_def ew_WriteHeader_def ew_Write_def Let_def split: wop.splits)

lemma ew_steps:
  assumes "ew_status b = 0 \<or> ew_status b \<ge> 200" and "length (ew_body b) \<le> limit"
  shows "(ew_status (fold (ew_step limit) ops b) = 0 \<or> ew_status (fold (ew_step limit) ops b) \<ge> 200)
         \<and> length (ew_body (fold (ew_step limit) ops b)) \<le> limit"
  using assms
proof (induction ops arbitrary: b)
  case (Cons op ops)
  show ?case using Cons.IH[OF ew_step_status[OF Cons.prems(1)] ew_step_bound[OF Cons.prems(2)]] by simp
qed simp

lemma buffered_status: "ew_status (buffered limit h ops) \<ge> 200"
  using ew_steps[of "\<lparr>ew_header = h, ew_body = [], ew_status = 0, ew_overflow = False\<rparr>" limit ops]
  by (auto simp: buffered_def Let_def)

text \<open>An answer never holds more than the limit: one that would is replaced by an error.\<close>

theorem buffered_bound: "length (ew_body (buffered limit h ops)) \<le> max limit 38"
  using ew_steps[of "\<lparr>ew_header = h, ew_body = [], ew_status = 0, ew_overflow = False\<rparr>" limit ops]
  by (auto simp: buffered_def Let_def)

lemma utf8_ascii: "list_all (\<lambda>c. of_char c < (128 :: nat)) s \<Longrightarrow> utf8_of_latin1 s = s"
  by (induction s) (auto simp: utf8_of_latin1_def)

lemma digit_ascii: "is_digit c \<Longrightarrow> of_char c < (128 :: nat)"
  by (simp add: is_digit_def)

lemma aad_ascii:
  assumes "list_all (\<lambda>c. of_char c < (128 :: nat)) t"
  shows "utf8_of_latin1 (response_aad n t) = response_aad n t"
proof (rule utf8_ascii)
  have "list_all (\<lambda>c. of_char c < (128 :: nat)) payloadProtocol" by code_simp
  moreover have "list_all (\<lambda>c. of_char c < (128 :: nat)) (dec_str n)"
    by (auto simp: list_all_iff dest!: dec_str_digits intro: digit_ascii)
  ultimately show "list_all (\<lambda>c. of_char c < (128 :: nat)) (response_aad n t)"
    using assms by (simp add: response_aad_def)
qed

lemma header_only: "list_all (\<lambda>op. case op of Set_header _ _ \<Rightarrow> True | Add_header _ _ \<Rightarrow> True | _ \<Rightarrow> False) ops
  \<Longrightarrow> fold plain_step ops w = w\<lparr>pw_header := fold on_header ops (pw_header w)\<rparr>"
  by (induction ops arbitrary: w) (auto simp: plain_step_def split: wop.splits)

lemma cors_header_only: "list_all (\<lambda>op. case op of Set_header _ _ \<Rightarrow> True | Add_header _ _ \<Rightarrow> True | _ \<Rightarrow> False) (cors_ops allowed origin meth)"
  by (auto simp: cors_ops_def list_all_iff)

lemma under_guard_sealed: "under_guard g inner True = inner True"
  by (cases g) (simp_all add: requireEncryptedResponse_def)

text \<open>What a sealed answer is on the wire.\<close>

lemma sealed_wire:
  assumes "ew_status b \<ge> 200" and "pw_sent w = None" and "pw_body w = []"
  shows "fold plain_step (sealed_reply C (priv, salt, nonce, key) isHead b) w
         = w\<lparr>pw_header := sealed_headers C b, pw_sent := Some (ew_status b, sealed_headers C b),
             pw_body := (if bodiless isHead (ew_status b) then []
               else publicOf C priv @ salt @ nonce @ gcmSeal C key nonce (ew_body b) (response_aad (ew_status b) (response_type C b)))\<rparr>"
  using assms by (simp add: sealed_reply_def sealed_sends plain_step_def[of "Write_bytes _"] commit_status_def Let_def)

lemma opens:
  assumes laws: "response_crypto_laws C" and material: "server_material C D (publicOf C mine) = Some (priv, salt, nonce, key)"
    and lengths: "length salt = 32" "length nonce = 12"
    and b: "ew_status b \<ge> 200" "ew_status b \<le> 599" "ew_status b \<noteq> 205"
    and ct: "response_type C b \<noteq> []" "list_all (\<lambda>c. of_char c < (128 :: nat)) (response_type C b)"
    and wire: "wire = (if bodiless isHead (ew_status b) then []
               else publicOf C priv @ salt @ nonce @ gcmSeal C key nonce (ew_body b) (response_aad (ew_status b) (response_type C b)))"
  shows "encryptedFetch C mine isHead (ew_status b, sealed_headers C b, wire)
         = Some (ew_status b, response_type C b, if bodiless isHead (ew_status b) then None else Some (ew_body b))"
proof (cases "bodiless isHead (ew_status b)")
  case True
  then show ?thesis using b ct(1) by (simp add: encryptedFetch_def sealed_headers_read js_response_def Let_def)
next
  case False
  let ?ct = "response_type C b"
  let ?seal = "gcmSeal C key nonce (ew_body b) (response_aad (ew_status b) ?ct)"
  have w: "wire = publicOf C priv @ salt @ nonce @ ?seal" using wire False by simp
  have facts: "length (publicOf C priv) = 65" "validPoint C (publicOf C priv)" "length ?seal = length (ew_body b) + 16"
    "gcmOpen C key nonce ?seal (response_aad (ew_status b) ?ct) = Some (ew_body b)"
    by (rule response_crypto_lawsD[OF laws])+
  have cut: "take 65 wire = publicOf C priv" "take 32 (drop 65 wire) = salt" "take 12 (drop 97 wire) = nonce"
    "drop 109 wire = ?seal" "\<not> length wire < 125"
    by (simp_all add: w facts(1,3) lengths)
  obtain shared where shared: "ecdhOf C priv (publicOf C mine) = Some shared" "hkdfKey C shared salt payloadProtocol 32 = Some key"
    using material by (auto simp: server_material_def split: option.splits if_splits)
  have agree: "ecdhOf C mine (publicOf C priv) = Some shared"
    using response_crypto_lawsD(5)[OF laws, of mine priv] shared(1) by simp
  have "utf8_of_latin1 (payloadProtocol @ [CHR 0x0A] @ dec_str (ew_status b) @ [CHR 0x0A] @ ?ct) = response_aad (ew_status b) ?ct"
    using aad_ascii[OF ct(2)] by (simp add: response_aad_def)
  moreover have "js_response (ew_status b) ?ct (Some (ew_body b)) = Some (ew_status b, ?ct, Some (ew_body b))"
    using b False by (simp add: js_response_def bodiless_def)
  ultimately show ?thesis
    using False ct(1) by (simp add: encryptedFetch_def sealed_headers_read Let_def cut facts agree shared(2))
qed

text \<open>C40. The dashboard reads what the handler wrote: for a request with a fresh key, whatever guard stands before the
  handler, decryption gives the status, the content type and the body in the buffer.\<close>

theorem sealed_roundtrip:
  assumes laws: "response_crypto_laws C" and meth: "meth \<noteq> ''OPTIONS''"
    and material: "server_material C D (publicOf C mine) = Some (priv, salt, nonce, key)" "length salt = 32" "length nonce = 12"
    and b: "b = buffered maxEncryptedResponseBytes (on_header no_store (fold on_header (cors_ops allowed origin meth) h)) (inner True)"
      "ew_status b \<le> 599" "ew_status b \<noteq> 205"
    and ct: "response_type C b \<noteq> []" "list_all (\<lambda>c. of_char c < (128 :: nat)) (response_type C b)"
  shows "encryptedFetch C mine (meth = ''HEAD'')
           (http_send h (handled C D allowed origin meth (rc_encode C (publicOf C mine)) h (under_guard g inner)))
         = Some (ew_status b, response_type C b, if bodiless (meth = ''HEAD'') (ew_status b) then None else Some (ew_body b))"
proof -
  let ?cors = "cors_ops allowed origin meth"
  have pub: "length (publicOf C mine) = 65" "validPoint C (publicOf C mine)"
    and enc: "rc_decode C (rc_encode C (publicOf C mine)) = Some (publicOf C mine)"
    by (rule response_crypto_lawsD[OF laws])+
  have "publicOf C mine \<noteq> []" using pub(1) by auto
  then have "rc_encode C (publicOf C mine) \<noteq> []" by (rule response_crypto_lawsD(2)[OF laws])
  then have ops: "handled C D allowed origin meth (rc_encode C (publicOf C mine)) h (under_guard g inner)
      = ?cors @ no_store # sealed_reply C (priv, salt, nonce, key) (meth = ''HEAD'') b"
    using meth by (simp add: handled_def Let_def encryptedResponse_def corsMiddleware_def enc pub material(1) under_guard_sealed b(1))
  have st: "ew_status b \<ge> 200" by (simp add: b(1) buffered_status)
  let ?w = "\<lparr>pw_header = h, pw_sent = None, pw_body = []\<rparr>"
  have "fold plain_step (?cors @ no_store # sealed_reply C (priv, salt, nonce, key) (meth = ''HEAD'') b) ?w
      = fold plain_step (sealed_reply C (priv, salt, nonce, key) (meth = ''HEAD'') b)
          (?w\<lparr>pw_header := on_header no_store (fold on_header ?cors h)\<rparr>)"
    by (simp add: header_only[OF cors_header_only] no_store_def plain_step_def)
  then have "http_send h (?cors @ no_store # sealed_reply C (priv, salt, nonce, key) (meth = ''HEAD'') b)
      = (ew_status b, sealed_headers C b, if bodiless (meth = ''HEAD'') (ew_status b) then []
          else publicOf C priv @ salt @ nonce @ gcmSeal C key nonce (ew_body b) (response_aad (ew_status b) (response_type C b)))"
    by (simp add: http_send_def sealed_wire[OF st] Let_def commit_status_def)
  then show ?thesis
    by (simp only: ops opens[OF laws material st b(2,3) ct refl])
qed

subsection \<open>Insecure cookies stay on the machine\<close>

text \<open>The cookie may travel unencrypted only if every page that may call the server is served over HTTP by the machine
  itself.\<close>

theorem insecure_cookie_local:
  "\<not> secureSessionCookies hostname loopback flag allowed \<longleftrightarrow>
     to_lower flag \<noteq> ''true'' \<and> (\<forall>origin \<in> allowed. \<exists>u. url_parse origin = Some u \<and> u_scheme u = ''http''
        \<and> (hostname (u_host u) = ''localhost'' \<or> loopback (hostname (u_host u))))"
  by (auto simp: secureSessionCookies_def split: option.splits)

subsection \<open>Witnesses\<close>

text \<open>Primitives that obey the laws, without secrecy.\<close>

definition plain_crypto :: response_crypto where
  "plain_crypto =
     \<lparr>rc_decode = Some, rc_encode = \<lambda>s. s, validPoint = \<lambda>_. True, publicOf = \<lambda>a. take 65 (a @ replicate 65 CHR ''0''),
      ecdhOf = \<lambda>_ _. Some ''shared'', hkdfKey = \<lambda>s salt info n. Some (take n (s @ salt @ info)),
      gcmSeal = \<lambda>k n b a. b @ replicate 16 CHR ''t'',
      gcmOpen = \<lambda>k n c a. if length c \<ge> 16 \<and> drop (length c - 16) c = replicate 16 CHR ''t'' then Some (take (length c - 16) c) else None,
      detectContentType = \<lambda>_. ''text/plain''\<rparr>"

lemma plain_crypto_laws: "response_crypto_laws plain_crypto"
proof -
  have "gcmOpen plain_crypto k n c a = Some b \<longleftrightarrow> c = gcmSeal plain_crypto k n b a" for k n c a b
  proof
    assume "gcmOpen plain_crypto k n c a = Some b"
    then have "drop (length c - 16) c = replicate 16 CHR ''t''" "b = take (length c - 16) c"
      by (auto simp: plain_crypto_def split: if_splits)
    then show "c = gcmSeal plain_crypto k n b a" by (simp add: plain_crypto_def) (metis append_take_drop_id)
  qed (simp add: plain_crypto_def)
  then show ?thesis by (auto simp: response_crypto_laws_def plain_crypto_def min_def)
qed

definition sample_drawn :: drawn where
  "sample_drawn = \<lparr>dr_private = Some ''server'', dr_salt = Some (replicate 32 CHR ''s''), dr_nonce = Some (replicate 12 CHR ''n'')\<rparr>"

definition sample_handler :: handler where
  "sample_handler enc = [Set_header ''Content-Type'' ''application/json'', Write_status 401, Write_bytes ''{}'']"

lemma sample_material:
  "server_material plain_crypto sample_drawn (publicOf plain_crypto ''client'')
   = Some (''server'', replicate 32 CHR ''s'', replicate 12 CHR ''n'', take 32 (''shared'' @ replicate 32 CHR ''s'' @ payloadProtocol))"
  by code_simp

lemma sample_buffer:
  "buffered maxEncryptedResponseBytes h (sample_handler True)
   = \<lparr>ew_header = h(''content-type'' := [''application/json'']), ew_body = ''{}'', ew_status = 401, ew_overflow = False\<rparr>"
  by (simp add: buffered_def sample_handler_def ew_step_def ew_WriteHeader_def ew_Write_def writing maxEncryptedResponseBytes_def)

lemma sample_type:
  "response_type plain_crypto (buffered maxEncryptedResponseBytes h (sample_handler True)) = ''application/json''"
  by (simp add: response_type_def sample_buffer hget_def writing)

theorem sealed_roundtrip_witness:
  "encryptedFetch plain_crypto ''client'' False
     (http_send (\<lambda>_. []) (handled plain_crypto sample_drawn {''https://d.example''} ''https://d.example'' ''GET''
        (rc_encode plain_crypto (publicOf plain_crypto ''client'')) (\<lambda>_. []) (under_guard (Role RoleViewer) sample_handler)))
   = Some (401, ''application/json'', Some ''{}'')"
proof -
  let ?h = "on_header no_store (fold on_header (cors_ops {''https://d.example''} ''https://d.example'' ''GET'') (\<lambda>_. []))"
  let ?b = "buffered maxEncryptedResponseBytes ?h (sample_handler True)"
  have ct: "response_type plain_crypto ?b \<noteq> []" "list_all (\<lambda>c. of_char c < (128 :: nat)) (response_type plain_crypto ?b)"
    unfolding sample_type by code_simp+
  have b: "ew_status ?b = 401" "ew_body ?b = ''{}''" by (simp_all add: sample_buffer)
  have "encryptedFetch plain_crypto ''client'' (''GET'' = ''HEAD'')
      (http_send (\<lambda>_. []) (handled plain_crypto sample_drawn {''https://d.example''} ''https://d.example'' ''GET''
         (rc_encode plain_crypto (publicOf plain_crypto ''client'')) (\<lambda>_. []) (under_guard (Role RoleViewer) sample_handler)))
    = Some (ew_status ?b, response_type plain_crypto ?b, if bodiless (''GET'' = ''HEAD'') (ew_status ?b) then None else Some (ew_body ?b))"
    by (rule sealed_roundtrip[where b = "?b" and inner = sample_handler and h = "\<lambda>_. []" and meth = "''GET''"
          and allowed = "{''https://d.example''}" and origin = "''https://d.example''", OF plain_crypto_laws _ sample_material _ _ refl _ _ ct]) (simp_all add: b)
  then show ?thesis by (simp only: sample_type b) (simp add: bodiless_def)
qed

end
