(* ===== verification/Maintenance.thy ===== *)
theory Maintenance
  imports Ingest Users
begin

text \<open>
  Two migrations run by hand: \<^verbatim>\<open>api/cmd/slim_telemetry\<close>, which removes the bulky fields of telemetry stored before
  documents were slimmed, and \<^verbatim>\<open>api/cmd/backfill_browser_history_s3\<close>, which moves browser history out of the documents
  into the archive. Both walk the collection as it was when they asked for it. And upkeep of the server: the third
  deletion of a device's archive, locks left at start, the password reset of the command line.
\<close>

section \<open>Slimming telemetry\<close>

definition heavyFields :: "string list" where
  "heavyFields =
     [''data.SystemInfo'', ''data.ProcessMonitor'', ''data.HardwareStats'', ''data.Services'', ''data.NetworkPorts'',
      ''data.USBEvents'', ''data.InstalledApps'', ''data.OSUpdates'', ''data.ActiveWindowTracker.sessions'',
      ''data.ActiveWindowTracker.cumulative_summaries'', ''data.BrowserHistory.new_history_entries'',
      ''data.BrowserHistory.top_recent_urls'']"

definition slim_doc :: "obj \<Rightarrow> obj" where
  "slim_doc d = al_upd ''slim'' (Bool_v True) (fold (drop_path \<circ> path_of) heavyFields d)"

text \<open>The options of a run and its counters.\<close>

record slim_options =
  so_apply :: bool
  so_minutes :: int
  so_batch :: int
  so_limit :: int

record slim_result =
  sr_scanned :: int
  sr_already :: int
  sr_archived :: int
  sr_snapshots :: int
  sr_kept :: int
  sr_slimmed :: int
  sr_bytes :: int

text \<open>A decoded document; a field of another type than the struct's fails the run.\<close>

record slim_row =
  row_id :: string
  row_device :: string
  row_role :: string
  row_at :: gotime
  row_snapshot :: bool
  row_slim :: bool
  row_archived :: bool

definition decode_row :: "obj \<Rightarrow> slim_row option" where
  "decode_row d =
     (let text = (\<lambda>k. get d k = Nil_v \<or> as_str (get d k) \<noteq> None); flag = (\<lambda>k. get d k = Nil_v \<or> as_bool (get d k) \<noteq> None)
      in if text ''device_id'' \<and> text ''collector_role'' \<and> flag ''snapshot'' \<and> flag ''slim''
            \<and> (case get d ''ingested_at'' of Nil_v \<Rightarrow> True | Date_v _ \<Rightarrow> True | _ \<Rightarrow> False)
         then Some \<lparr>row_id = str_of (get d ''_id''), row_device = str_of (get d ''device_id''), row_role = str_of (get d ''collector_role''),
                row_at = (case get d ''ingested_at'' of Date_v t \<Rightarrow> t | _ \<Rightarrow> zero_time),
                row_snapshot = bool_of (get d ''snapshot''), row_slim = bool_of (get d ''slim''),
                row_archived = (get d ''telemetry_archive'' \<noteq> Nil_v)\<rparr>
         else None)"

definition slim_bucket :: "gotime \<Rightarrow> int \<Rightarrow> int" where
  "slim_bucket t minutes = (if minutes \<le> 0 then 0 else go_quot (unix t) (i64 (minutes * 60)))"

text \<open>The key of a window; the code's text ends in the decimal number, so it distinguishes as much.\<close>

definition slim_key :: "int \<Rightarrow> slim_row \<Rightarrow> string \<times> int" where
  "slim_key minutes r = (row_device r @ ''|'' @ row_role r, slim_bucket (row_at r) minutes)"

datatype verdict = Already_slim | In_archive | Is_snapshot | Kept | Heavy

definition verdict_of :: "int \<Rightarrow> (string \<times> int) set \<Rightarrow> slim_row \<Rightarrow> verdict" where
  "verdict_of minutes seen r =
     (if row_slim r then Already_slim else if row_archived r then In_archive else if row_snapshot r then Is_snapshot
      else if minutes > 0 \<and> slim_key minutes r \<notin> seen then Kept else Heavy)"

record 'c slim_state =
  st_seen :: "(string \<times> int) set"
  st_pending :: "string list"
  st_res :: slim_result
  st_coll :: 'c

text \<open>\<open>sizes\<close> is the aggregation: its rows, or \<open>None\<close> when it fails.\<close>

definition flush :: "('c, obj) driver \<Rightarrow> (string list \<Rightarrow> 'c \<Rightarrow> int list option) \<Rightarrow> bool \<Rightarrow> 'c slim_state \<Rightarrow> bool \<times> 'c slim_state" where
  "flush D sizes apply_it s =
     (if st_pending s = [] then (True, s)
      else let ids = st_pending s; s0 = s\<lparr>st_pending := []\<rparr>
      in case sizes ids (st_coll s) of
        None \<Rightarrow> (False, s0)
      | Some rows \<Rightarrow>
          (let s1 = s0\<lparr>st_res := (st_res s)\<lparr>sr_bytes := i64 (sr_bytes (st_res s) + (case rows of [] \<Rightarrow> 0 | b # _ \<Rightarrow> b)),
                 sr_slimmed := sr_slimmed (st_res s) + int (length ids)\<rparr>\<rparr>
           in if \<not> apply_it then (True, s1)
              else (case update_many D (st_coll s1) (\<lambda>d. str_of (get d ''_id'') \<in> set ids) slim_doc of
                  (c1, n) \<Rightarrow> (n \<noteq> None, s1\<lparr>st_coll := c1\<rparr>))))"

definition count_verdict :: "verdict \<Rightarrow> slim_result \<Rightarrow> slim_result" where
  "count_verdict v r =
     (case v of Already_slim \<Rightarrow> r\<lparr>sr_already := sr_already r + 1\<rparr> | In_archive \<Rightarrow> r\<lparr>sr_archived := sr_archived r + 1\<rparr>
      | Is_snapshot \<Rightarrow> r\<lparr>sr_snapshots := sr_snapshots r + 1\<rparr> | Kept \<Rightarrow> r\<lparr>sr_kept := sr_kept r + 1\<rparr> | Heavy \<Rightarrow> r)"

definition slim_step :: "('c, obj) driver \<Rightarrow> (string list \<Rightarrow> 'c \<Rightarrow> int list option) \<Rightarrow> slim_options \<Rightarrow> slim_row \<Rightarrow> 'c slim_state
    \<Rightarrow> bool \<times> 'c slim_state" where
  "slim_step D sizes opts r s =
     (let v = verdict_of (so_minutes opts) (st_seen s) r;
          res = (st_res s)\<lparr>sr_scanned := sr_scanned (st_res s) + 1\<rparr>;
          s1 = s\<lparr>st_res := count_verdict v res,
                 st_seen := (if v = Is_snapshot \<or> v = Kept then insert (slim_key (so_minutes opts) r) (st_seen s) else st_seen s)\<rparr>
      in if v \<noteq> Heavy then (True, s1)
         else if so_limit opts > 0 \<and> sr_slimmed (st_res s1) + int (length (st_pending s1)) \<ge> so_limit opts then (True, s1)
         else let s2 = s1\<lparr>st_pending := st_pending s1 @ [row_id r]\<rparr>
              in if int (length (st_pending s2)) \<ge> so_batch opts then flush D sizes (so_apply opts) s2 else (True, s2))"

fun slim_loop :: "('c, obj) driver \<Rightarrow> (string list \<Rightarrow> 'c \<Rightarrow> int list option) \<Rightarrow> slim_options \<Rightarrow> obj list \<Rightarrow> 'c slim_state
    \<Rightarrow> bool \<times> 'c slim_state" where
  "slim_loop D sizes opts [] s = flush D sizes (so_apply opts) s"
| "slim_loop D sizes opts (d # ds) s =
     (case decode_row d of
        None \<Rightarrow> (False, s)
      | Some r \<Rightarrow> (case slim_step D sizes opts r s of
          (False, s1) \<Rightarrow> (False, s1)
        | (True, s1) \<Rightarrow> slim_loop D sizes opts ds s1))"

definition no_result :: slim_result where
  "no_result = \<lparr>sr_scanned = 0, sr_already = 0, sr_archived = 0, sr_snapshots = 0, sr_kept = 0, sr_slimmed = 0, sr_bytes = 0\<rparr>"

text \<open>\<open>cursor\<close> is what the query returned, oldest first; \<open>None\<close> when it failed.\<close>

definition slim_run :: "('c, obj) driver \<Rightarrow> (string list \<Rightarrow> 'c \<Rightarrow> int list option) \<Rightarrow> slim_options \<Rightarrow> obj list option \<Rightarrow> 'c
    \<Rightarrow> bool \<times> slim_result \<times> 'c" where
  "slim_run D sizes opts cursor c =
     (case cursor of
        None \<Rightarrow> (False, no_result, c)
      | Some docs \<Rightarrow> (case slim_loop D sizes opts docs \<lparr>st_seen = {}, st_pending = [], st_res = no_result, st_coll = c\<rparr> of
          (ok, s) \<Rightarrow> (ok, st_res s, st_coll s)))"

subsection \<open>What is slimmed\<close>

text \<open>The verdicts alone, without limit.\<close>

fun verdicts :: "int \<Rightarrow> (string \<times> int) set \<Rightarrow> slim_row list \<Rightarrow> verdict list" where
  "verdicts minutes seen [] = []"
| "verdicts minutes seen (r # rs) =
     (let v = verdict_of minutes seen r
      in v # verdicts minutes (if v = Is_snapshot \<or> v = Kept then insert (slim_key minutes r) seen else seen) rs)"

definition heavy_ids :: "int \<Rightarrow> (string \<times> int) set \<Rightarrow> slim_row list \<Rightarrow> string list" where
  "heavy_ids minutes seen rs = map (row_id \<circ> fst) (filter (\<lambda>(r, v). v = Heavy) (zip rs (verdicts minutes seen rs)))"

lemma heavy_ids_simps [simp]:
  "heavy_ids minutes seen [] = []"
  "heavy_ids minutes seen (r # rs) =
     (let v = verdict_of minutes seen r
      in (if v = Heavy then [row_id r] else []) @ heavy_ids minutes (if v = Is_snapshot \<or> v = Kept then insert (slim_key minutes r) seen else seen) rs)"
  by (simp_all add: heavy_ids_def Let_def)

lemma length_verdicts [simp]: "length (verdicts minutes seen rs) = length rs"
  by (induction rs arbitrary: seen) (simp_all add: Let_def)

text \<open>A full document is one that is neither slim nor archived elsewhere.\<close>

definition full_row :: "slim_row \<Rightarrow> bool" where
  "full_row r \<longleftrightarrow> \<not> row_slim r \<and> \<not> row_archived r"

lemma window_kept:
  assumes "minutes > 0" and "r \<in> set rs" "full_row r" and "slim_key minutes r \<notin> seen"
  shows "\<exists>(r', v) \<in> set (zip rs (verdicts minutes seen rs)). full_row r' \<and> v \<noteq> Heavy \<and> slim_key minutes r' = slim_key minutes r"
  using assms(2,4)
proof (induction rs arbitrary: seen)
  case (Cons x xs)
  let ?v = "verdict_of minutes seen x"
  let ?seen = "if ?v = Is_snapshot \<or> ?v = Kept then insert (slim_key minutes x) seen else seen"
  show ?case
  proof (cases "full_row x \<and> ?v \<noteq> Heavy \<and> slim_key minutes x = slim_key minutes r")
    case True
    then show ?thesis by (intro bexI[of _ "(x, ?v)"]) (simp_all add: Let_def)
  next
    case False
    have "x \<noteq> r" using False Cons.prems(2) assms(1,3) by (auto simp: verdict_of_def full_row_def split: if_splits)
    moreover have "slim_key minutes r \<notin> ?seen"
    proof
      assume "slim_key minutes r \<in> ?seen"
      then have "(?v = Is_snapshot \<or> ?v = Kept) \<and> slim_key minutes x = slim_key minutes r" using Cons.prems(2) by (auto split: if_splits)
      then show False using False by (auto simp: verdict_of_def full_row_def split: if_splits)
    qed
    ultimately have "\<exists>(r', v) \<in> set (zip xs (verdicts minutes ?seen xs)). full_row r' \<and> v \<noteq> Heavy \<and> slim_key minutes r' = slim_key minutes r"
      using Cons.IH[of ?seen] Cons.prems(1) by auto
    then show ?thesis by (auto simp: Let_def)
  qed
qed simp

text \<open>Slimming the rows that were heavy leaves the next run nothing to do.\<close>

definition slimmed_row :: "string set \<Rightarrow> slim_row \<Rightarrow> slim_row" where
  "slimmed_row H r = (if row_id r \<in> H then r\<lparr>row_slim := True\<rparr> else r)"

lemma slim_key_slimmed [simp]: "slim_key minutes (slimmed_row H r) = slim_key minutes r"
  by (simp add: slimmed_row_def slim_key_def)

lemma cut_off: "H \<inter> insert a A = C \<union> B \<Longrightarrow> C \<subseteq> {a} \<Longrightarrow> a \<notin> A \<Longrightarrow> B \<subseteq> A \<Longrightarrow> H \<inter> A = B"
  by blast

lemma apart_cover: "R \<union> P \<subseteq> Q \<union> {a} \<Longrightarrow> Q \<inter> A = {} \<Longrightarrow> a \<notin> A \<Longrightarrow> P \<inter> A = {}"
  by blast

lemma rerun_nothing:
  assumes "distinct (map row_id rs)" and "H \<inter> row_id ` set rs = set (heavy_ids minutes seen rs)"
  shows "heavy_ids minutes seen (map (slimmed_row H) rs) = []"
  using assms
proof (induction rs arbitrary: seen)
  case (Cons x xs)
  let ?v = "verdict_of minutes seen x"
  let ?seen = "if ?v = Is_snapshot \<or> ?v = Kept then insert (slim_key minutes x) seen else seen"
  have ids: "set (heavy_ids minutes s ys) \<subseteq> row_id ` set ys" for s ys
    by (auto simp: heavy_ids_def dest: set_zip_leftD)
  have fresh: "row_id x \<notin> row_id ` set xs" using Cons.prems(1) by simp
  have heavy: "row_id x \<in> H \<longleftrightarrow> ?v = Heavy"
    using Cons.prems(2) fresh ids[of ?seen xs] by (auto simp: Let_def split: if_splits)
  have "H \<inter> insert (row_id x) (row_id ` set xs) = (if ?v = Heavy then {row_id x} else {}) \<union> set (heavy_ids minutes ?seen xs)"
    using Cons.prems(2) by (simp add: Let_def)
  then have "H \<inter> row_id ` set xs = set (heavy_ids minutes ?seen xs)"
    by (rule cut_off) (use fresh ids[of ?seen xs] in auto)
  then have rest: "heavy_ids minutes ?seen (map (slimmed_row H) xs) = []" using Cons.IH Cons.prems(1) by simp
  show ?case
  proof (cases "?v = Heavy")
    case True
    then have "verdict_of minutes seen (slimmed_row H x) = Already_slim" using heavy by (simp add: slimmed_row_def verdict_of_def)
    then show ?thesis using rest True by simp
  next
    case False
    then have "slimmed_row H x = x" using heavy by (simp add: slimmed_row_def)
    then show ?thesis using rest False by (simp add: Let_def)
  qed
qed simp

lemma heavy_heads: "path_head ` set heavyFields = {''data''}"
  by code_simp

lemma get_slim_doc: "get (slim_doc d) k = (if k = ''slim'' then Bool_v True else if k = ''data'' then get (slim_doc d) k else get d k)"
  using drop_paths_head[of k heavyFields d] heavy_heads by (auto simp: slim_doc_def get_def)

lemma id_slim_doc: "get (slim_doc d) ''_id'' = get d ''_id''"
  by (subst get_slim_doc) simp

lemma decode_slim_doc: "decode_row d = Some r \<Longrightarrow> decode_row (slim_doc d) = Some (r\<lparr>row_slim := True\<rparr>)"
  by (auto simp: decode_row_def Let_def get_slim_doc split: if_splits)

definition slimmed :: "string set \<Rightarrow> obj \<Rightarrow> obj" where
  "slimmed H d = (if str_of (get d ''_id'') \<in> H then slim_doc d else d)"

lemma id_slimmed: "str_of (get (slimmed H d) ''_id'') = str_of (get d ''_id'')"
  by (simp add: slimmed_def id_slim_doc)

lemma slimmed_twice: "A \<inter> B = {} \<Longrightarrow> slimmed B (slimmed A d) = slimmed (A \<union> B) d"
  by (auto simp: slimmed_def id_slim_doc)

lemma slimmed_none: "slimmed {} d = d"
  by (simp add: slimmed_def)

lemma flush_effect:
  assumes laws: "driver_laws D" and run: "flush D sizes True s = (True, s')"
  shows "held D (st_coll s') = map (slimmed (set (st_pending s))) (held D (st_coll s))" and "st_pending s' = []" and "st_seen s' = st_seen s"
proof -
  have "held D (st_coll s') = map (slimmed (set (st_pending s))) (held D (st_coll s)) \<and> st_pending s' = [] \<and> st_seen s' = st_seen s"
  proof (cases "st_pending s = []")
    case True
    then show ?thesis using run by (auto simp: flush_def slimmed_none[abs_def])
  next
    case False
    obtain rows where rows: "sizes (st_pending s) (st_coll s) = Some rows"
      using run False by (cases "sizes (st_pending s) (st_coll s)") (auto simp: flush_def Let_def)
    obtain c1 n where u: "update_many D (st_coll s) (\<lambda>d. str_of (get d ''_id'') \<in> set (st_pending s)) slim_doc = (c1, n)" by fastforce
    have "n \<noteq> None" "st_coll s' = c1" "st_pending s' = []" "st_seen s' = st_seen s"
      using run False rows u by (auto simp: flush_def Let_def)
    moreover from this(1) have "held D c1 = map (\<lambda>d. if str_of (get d ''_id'') \<in> set (st_pending s) then slim_doc d else d) (held D (st_coll s))"
      using driver_update_many[OF laws u] by auto
    ultimately show ?thesis by (simp add: slimmed_def[abs_def])
  qed
  then show "held D (st_coll s') = map (slimmed (set (st_pending s))) (held D (st_coll s))" and "st_pending s' = []" and "st_seen s' = st_seen s" by auto
qed

lemma slim_step_effect:
  assumes laws: "driver_laws D" and opts: "so_apply opts" "so_limit opts \<le> 0" and run: "slim_step D sizes opts r s = (True, s')"
  defines "v \<equiv> verdict_of (so_minutes opts) (st_seen s) r"
  shows "\<exists>done_ids. set done_ids \<union> set (st_pending s') = set (st_pending s) \<union> (if v = Heavy then {row_id r} else {})
         \<and> (distinct (st_pending s @ [row_id r]) \<longrightarrow> distinct (st_pending s') \<and> set done_ids \<inter> set (st_pending s') = {})
         \<and> held D (st_coll s') = map (slimmed (set done_ids)) (held D (st_coll s))
         \<and> st_seen s' = (if v = Is_snapshot \<or> v = Kept then insert (slim_key (so_minutes opts) r) (st_seen s) else st_seen s)"
proof (cases "v = Heavy")
  case False
  then have "st_pending s' = st_pending s" "st_coll s' = st_coll s"
    "st_seen s' = (if v = Is_snapshot \<or> v = Kept then insert (slim_key (so_minutes opts) r) (st_seen s) else st_seen s)"
    using run by (auto simp: slim_step_def Let_def v_def)
  then show ?thesis using False by (intro exI[of _ "[]"]) (simp add: slimmed_none[abs_def])
next
  case True
  obtain s2 where s2: "slim_step D sizes opts r s = (if int (length (st_pending s2)) \<ge> so_batch opts then flush D sizes True s2 else (True, s2))"
    "st_pending s2 = st_pending s @ [row_id r]" "st_coll s2 = st_coll s" "st_seen s2 = st_seen s"
  proof
    let ?s1 = "s\<lparr>st_res := count_verdict Heavy ((st_res s)\<lparr>sr_scanned := sr_scanned (st_res s) + 1\<rparr>), st_seen := st_seen s\<rparr>"
    let ?s2 = "?s1\<lparr>st_pending := st_pending ?s1 @ [row_id r]\<rparr>"
    show "slim_step D sizes opts r s = (if int (length (st_pending ?s2)) \<ge> so_batch opts then flush D sizes True ?s2 else (True, ?s2))"
      using True opts by (simp add: slim_step_def Let_def v_def)
  qed simp_all
  show ?thesis
  proof (cases "int (length (st_pending s2)) \<ge> so_batch opts")
    case True
    then have "flush D sizes True s2 = (True, s')" using run s2(1) by simp
    from flush_effect[OF laws this] show ?thesis
      using \<open>v = Heavy\<close> s2(2-4) by (intro exI[of _ "st_pending s @ [row_id r]"]) simp
  next
    case False
    then have "s' = s2" using run s2(1) by simp
    then show ?thesis using \<open>v = Heavy\<close> s2(2-4) by (intro exI[of _ "[]"]) (simp add: slimmed_none[abs_def])
  qed
qed

lemma slim_loop_effect:
  assumes laws: "driver_laws D" and opts: "so_apply opts" "so_limit opts \<le> 0"
    and run: "slim_loop D sizes opts ds s = (True, s')" and rows: "map decode_row ds = map Some rs"
    and apart: "distinct (st_pending s @ map row_id rs)"
  shows "held D (st_coll s') = map (slimmed (set (st_pending s) \<union> set (heavy_ids (so_minutes opts) (st_seen s) rs))) (held D (st_coll s))"
  using run rows apart
proof (induction ds arbitrary: s rs)
  case Nil
  then have "flush D sizes True s = (True, s')" "rs = []" using opts(1) by auto
  then show ?case using flush_effect(1)[OF laws] by simp
next
  case (Cons d ds)
  obtain r rs' where rs: "rs = r # rs'" "decode_row d = Some r" "map decode_row ds = map Some rs'" using Cons.prems(2) by (cases rs) auto
  obtain s1 where s1: "slim_step D sizes opts r s = (True, s1)" "slim_loop D sizes opts ds s1 = (True, s')"
    using Cons.prems(1) rs(2) by (auto split: prod.splits bool.splits)
  let ?v = "verdict_of (so_minutes opts) (st_seen s) r"
  obtain dn where dn: "set dn \<union> set (st_pending s1) = set (st_pending s) \<union> (if ?v = Heavy then {row_id r} else {})"
    "distinct (st_pending s1)" "set dn \<inter> set (st_pending s1) = {}"
    "held D (st_coll s1) = map (slimmed (set dn)) (held D (st_coll s))"
    "st_seen s1 = (if ?v = Is_snapshot \<or> ?v = Kept then insert (slim_key (so_minutes opts) r) (st_seen s) else st_seen s)"
    using slim_step_effect[OF laws opts s1(1)] Cons.prems(3) rs(1) by auto
  let ?rest = "set (heavy_ids (so_minutes opts) (st_seen s1) rs')"
  have ids: "?rest \<subseteq> row_id ` set rs'" by (auto simp: heavy_ids_def dest: set_zip_leftD)
  have covered: "set dn \<union> set (st_pending s1) \<subseteq> set (st_pending s) \<union> {row_id r}" using dn(1) by auto
  have "set (st_pending s) \<inter> row_id ` set rs' = {}" "row_id r \<notin> row_id ` set rs'" "distinct (map row_id rs')"
    using Cons.prems(3) rs(1) by auto
  moreover from this(1,2) have "set (st_pending s1) \<inter> row_id ` set rs' = {}" by (rule apart_cover[OF covered])
  moreover from covered have "set (st_pending s1) \<union> set dn \<subseteq> set (st_pending s) \<union> {row_id r}" by blast
  from this calculation(1,2) have "set dn \<inter> row_id ` set rs' = {}" by (rule apart_cover)
  then have gone: "set dn \<inter> (set (st_pending s1) \<union> ?rest) = {}" using dn(3) ids by blast
  ultimately have "distinct (st_pending s1 @ map row_id rs')" using dn(2) by simp
  from Cons.IH[OF s1(2) rs(3) this]
  have "held D (st_coll s') = map (slimmed (set (st_pending s1) \<union> ?rest)) (held D (st_coll s1))" .
  also have "\<dots> = map (\<lambda>d. slimmed (set (st_pending s1) \<union> ?rest) (slimmed (set dn) d)) (held D (st_coll s))"
    by (simp add: dn(4))
  also have "\<dots> = map (slimmed (set dn \<union> (set (st_pending s1) \<union> ?rest))) (held D (st_coll s))"
    using gone by (intro map_cong refl slimmed_twice)
  also have "set dn \<union> (set (st_pending s1) \<union> ?rest) = set (st_pending s) \<union> set (heavy_ids (so_minutes opts) (st_seen s) rs)"
  proof -
    have "set (heavy_ids (so_minutes opts) (st_seen s) rs) = (if ?v = Heavy then {row_id r} else {}) \<union> ?rest"
      by (simp add: rs(1) dn(5) Let_def)
    then show ?thesis using dn(1) by (metis Un_assoc)
  qed
  finally show ?case .
qed

text \<open>
  A run without limit slims exactly the heavy documents, each window keeps one of its full documents, and a second run
  finds nothing left to slim.
\<close>

theorem slimming_settles:
  assumes laws: "driver_laws D" and opts: "so_apply opts" "so_limit opts \<le> 0" "so_minutes opts > 0"
    and run: "slim_run D sizes opts (Some (held D c)) c = (True, res, c')"
    and rows: "map decode_row (held D c) = map Some rs" "distinct (map row_id rs)"
  defines "H \<equiv> set (heavy_ids (so_minutes opts) {} rs)"
  shows "held D c' = map (slimmed H) (held D c)"
    and "r \<in> set rs \<Longrightarrow> full_row r \<Longrightarrow> \<exists>r' \<in> set rs. full_row r' \<and> slim_key (so_minutes opts) r' = slim_key (so_minutes opts) r \<and> row_id r' \<notin> H"
    and "map decode_row (held D c') = map Some (map (slimmed_row H) rs) \<and> heavy_ids (so_minutes opts) {} (map (slimmed_row H) rs) = []"
proof -
  let ?s = "\<lparr>st_seen = {}, st_pending = [], st_res = no_result, st_coll = c\<rparr>"
  obtain s' where "slim_loop D sizes opts (held D c) ?s = (True, s')" "c' = st_coll s'"
    using run by (auto simp: slim_run_def split: prod.splits)
  then show held: "held D c' = map (slimmed H) (held D c)"
    using slim_loop_effect[OF laws opts(1,2) _ rows(1), of sizes ?s s'] rows(2) by (simp add: H_def)
  have same: "\<forall>r \<in> set rs. \<forall>v. (r, v) \<in> set (zip rs (verdicts (so_minutes opts) {} rs)) \<longrightarrow> v \<noteq> Heavy \<longrightarrow> row_id r \<notin> H"
  proof (intro ballI allI impI notI)
    fix r v assume a: "(r, v) \<in> set (zip rs (verdicts (so_minutes opts) {} rs))" "v \<noteq> Heavy" "row_id r \<in> H"
    then obtain r' where b: "(r', Heavy) \<in> set (zip rs (verdicts (so_minutes opts) {} rs))" "row_id r' = row_id r"
      by (auto simp: H_def heavy_ids_def)
    obtain i where i: "i < length rs" "rs ! i = r" "verdicts (so_minutes opts) {} rs ! i = v" using a(1) by (auto simp: set_zip)
    obtain j where j: "j < length rs" "rs ! j = r'" "verdicts (so_minutes opts) {} rs ! j = Heavy" using b(1) by (auto simp: set_zip)
    have "map row_id rs ! i = map row_id rs ! j" using i j b(2) by simp
    then have "i = j" using rows(2) i(1) j(1) nth_eq_iff_index_eq[of "map row_id rs" i j] by simp
    then show False using i j a(2) by simp
  qed
  {
    assume r: "r \<in> set rs" "full_row r"
    obtain r' v where w: "(r', v) \<in> set (zip rs (verdicts (so_minutes opts) {} rs))" "full_row r'" "v \<noteq> Heavy"
      "slim_key (so_minutes opts) r' = slim_key (so_minutes opts) r"
      using window_kept[OF opts(3) r, of "{}"] by auto
    then show "\<exists>r' \<in> set rs. full_row r' \<and> slim_key (so_minutes opts) r' = slim_key (so_minutes opts) r \<and> row_id r' \<notin> H"
      using same set_zip_leftD[OF w(1)] by blast
  }
  have "map decode_row (map (slimmed H) ds) = map Some (map (slimmed_row H) qs)" if "map decode_row ds = map Some qs" for ds qs
    using that
  proof (induction ds arbitrary: qs)
    case (Cons d ds)
    obtain q qs' where q: "qs = q # qs'" "decode_row d = Some q" "map decode_row ds = map Some qs'" using Cons.prems by (cases qs) auto
    have "row_id q = str_of (get d ''_id'')" using q(2) by (auto simp: decode_row_def Let_def split: if_splits)
    then show ?case using Cons.IH[OF q(3)] q decode_slim_doc[OF q(2)] by (auto simp: slimmed_def slimmed_row_def)
  qed simp
  moreover have "heavy_ids (so_minutes opts) {} (map (slimmed_row H) rs) = []"
    using rows(2) by (intro rerun_nothing) (auto simp: H_def heavy_ids_def dest: set_zip_leftD)
  ultimately show "map decode_row (held D c') = map Some (map (slimmed_row H) rs) \<and> heavy_ids (so_minutes opts) {} (map (slimmed_row H) rs) = []"
    using rows(1) by (simp add: held)
qed

section \<open>Moving browser history into the archive\<close>

definition backfill_append :: "val list \<times> string set \<Rightarrow> val \<Rightarrow> val list \<times> string set" where
  "backfill_append acc entry =
     (let key = (case mapValue entry of Some m \<Rightarrow> browserHistoryDedupeKey m | None \<Rightarrow> [])
      in if key \<noteq> [] \<and> key \<in> snd acc then acc
         else (fst acc @ [entry], if key \<noteq> [] then insert key (snd acc) else snd acc))"

definition appendEntries :: "val list \<times> string set \<Rightarrow> val \<Rightarrow> val list \<times> string set" where
  "appendEntries acc raw = (case interfaceSlice raw of None \<Rightarrow> acc | Some items \<Rightarrow> foldl backfill_append acc items)"

definition extractBrowserHistoryEntries :: "obj \<Rightarrow> obj \<times> val list" where
  "extractBrowserHistoryEntries payload =
     (case mapValue (get payload ''data'') of None \<Rightarrow> ([], [])
      | Some data \<Rightarrow> (case mapValue (get data ''BrowserHistory'') of None \<Rightarrow> ([], [])
        | Some b \<Rightarrow> (b, fst (appendEntries (appendEntries ([], {}) (get b ''new_history_entries'')) (get b ''top_recent_urls'')))))"

text \<open>The tool's own copies of the helpers, which differ from those of the server.\<close>

definition backfill_payloadTime :: "gotime \<Rightarrow> val \<Rightarrow> gotime" where
  "backfill_payloadTime now v =
     (case v of
        Str s \<Rightarrow> (case parse_rfc3339 s of Some t \<Rightarrow> utc t | None \<Rightarrow> utc now)
      | Time_v t \<Rightarrow> utc t
      | _ \<Rightarrow> utc now)"

definition backfill_nanos :: "val \<Rightarrow> int" where
  "backfill_nanos entry =
     (case as_obj entry of None \<Rightarrow> 0
      | Some m \<Rightarrow> (case get m ''last_visit_time'' of
          I64 n \<Rightarrow> n | I32 n \<Rightarrow> n | Int_v n \<Rightarrow> n | F64 x \<Rightarrow> f2i x | Date_v t \<Rightarrow> i64 (inst t) | _ \<Rightarrow> 0))"

definition backfill_visit_time :: "val \<Rightarrow> gotime \<Rightarrow> gotime" where
  "backfill_visit_time entry fallback =
     (if backfill_nanos entry \<le> 0 then utc fallback else \<lparr>inst = backfill_nanos entry, off = 0\<rparr>)"

definition backfill_group :: "gotime \<Rightarrow> (string \<times> val list) list \<Rightarrow> val \<Rightarrow> (string \<times> val list) list" where
  "backfill_group eventTime groups entry =
     (let day = date_str (backfill_visit_time entry eventTime)
      in al_upd day ((case map_of groups day of Some g \<Rightarrow> g | None \<Rightarrow> []) @ [entry]) groups)"

definition backfill_object :: "string \<Rightarrow> string \<Rightarrow> obj \<Rightarrow> string \<Rightarrow> val list \<Rightarrow> val" where
  "backfill_object deviceID docID doc syncType es =
     json_val (Obj [(''device_id'', Str deviceID), (''telemetry_id'', Str docID), (''timestamp'', get doc ''timestamp''),
       (''ingested_at'', get doc ''ingested_at''), (''sync_type'', Str syncType), (''entry_count'', Int_v (int (length es))), (''entries'', Arr es)])"

text \<open>\<open>digest\<close> gives the first eight bytes of SHA-256 in hexadecimal.\<close>

definition backfill_key :: "(val \<Rightarrow> string) \<Rightarrow> string \<Rightarrow> string \<Rightarrow> string \<Rightarrow> string \<Rightarrow> val \<Rightarrow> string" where
  "backfill_key digest prefix_dir deviceID day docID body =
     prefix_dir @ ''/device_id='' @ safeS3PathSegment deviceID @ ''/date='' @ day @ ''/backfill-'' @ docID @ ''-'' @ digest body @ ''.json''"

fun backfill_put :: "'w s3 \<Rightarrow> (val \<Rightarrow> string) \<Rightarrow> string \<Rightarrow> string \<Rightarrow> string \<Rightarrow> obj \<Rightarrow> string \<Rightarrow> (string \<times> val list) list
    \<Rightarrow> string list \<Rightarrow> 'w \<Rightarrow> string list option \<times> 'w" where
  "backfill_put c digest prefix_dir deviceID docID doc syncType [] keys w = (Some keys, w)"
| "backfill_put c digest prefix_dir deviceID docID doc syncType ((day, es) # gs) keys w =
     (let body = backfill_object deviceID docID doc syncType es; key = backfill_key digest prefix_dir deviceID day docID body
      in (case s3_put c key body Always w of
            (None, w1) \<Rightarrow> backfill_put c digest prefix_dir deviceID docID doc syncType gs (keys @ [key]) w1
          | (Some _, w1) \<Rightarrow> (None, w1)))"

definition backfill_result :: "string \<Rightarrow> string list \<Rightarrow> int \<Rightarrow> obj" where
  "backfill_result bucket_name keys n =
     [(''bucket'', Str bucket_name)] @ (if keys = [] \<or> hd keys = [] then [] else [(''key'', Str (hd keys))])
     @ [(''keys'', BArr (map Str keys)), (''entry_count'', Int_v n)]"

text \<open>What stays the same during a run; \<open>bf_order\<close> is the order in which Go walks a map.\<close>

record backfill_env =
  bf_bucket :: string
  bf_prefix :: string
  bf_dry :: bool
  bf_now :: gotime
  bf_digest :: "val \<Rightarrow> string"
  bf_order :: "(string \<times> val list) list \<Rightarrow> (string \<times> val list) list"

definition backfill_archive :: "'w s3 \<Rightarrow> backfill_env \<Rightarrow> string \<Rightarrow> string \<Rightarrow> obj \<Rightarrow> obj \<Rightarrow> val list \<Rightarrow> 'w \<Rightarrow> obj option \<times> 'w" where
  "backfill_archive c e docID deviceID doc b entries w =
     (let eventTime = backfill_payloadTime (bf_now e) (get doc ''timestamp'');
          groups = bf_order e (foldl (backfill_group eventTime) [] entries)
      in case backfill_put c (bf_digest e) (bf_prefix e) deviceID docID doc (str_of (get b ''sync_type'')) groups [] w of
           (None, w1) \<Rightarrow> (None, w1)
         | (Some keys, w1) \<Rightarrow> (Some (backfill_result (bf_bucket e) (sort keys) (int (length entries))), w1))"

definition backfill_unset :: "string list" where
  "backfill_unset = [''data.BrowserHistory.new_history_entries'', ''data.BrowserHistory.top_recent_urls'']"

definition backfill_doc :: "obj \<Rightarrow> obj \<Rightarrow> obj" where
  "backfill_doc result d =
     (case document_update [(''browser_history_archive'', BObj result), (''data.BrowserHistory.archive'', BObj result)] backfill_unset d of
        Some d' \<Rightarrow> d' | None \<Rightarrow> d)"

definition zero_id :: "string \<Rightarrow> bool" where
  "zero_id i \<longleftrightarrow> i = [] \<or> i = replicate 24 CHR ''0''"

text \<open>The walk: scanned and migrated documents, entries, the collection and the archive; \<open>False\<close> is \<^verbatim>\<open>log.Fatalf\<close>.\<close>

fun backfill_walk :: "('c, obj) driver \<Rightarrow> 'w s3 \<Rightarrow> backfill_env \<Rightarrow> obj list \<Rightarrow> int \<times> int \<times> int \<Rightarrow> 'c \<Rightarrow> 'w
    \<Rightarrow> bool \<times> (int \<times> int \<times> int) \<times> 'c \<times> 'w" where
  "backfill_walk D s e [] n c w = (True, n, c, w)"
| "backfill_walk D s e (doc # docs) (scanned, moved, filed) c w =
     (let docID = str_of (get doc ''_id''); deviceID = str_of (get doc ''device_id'');
          (b, entries) = extractBrowserHistoryEntries doc; n = int (length entries)
      in if deviceID = [] \<or> zero_id docID \<or> entries = []
         then backfill_walk D s e docs (scanned + 1, moved, filed) c w
         else if bf_dry e then backfill_walk D s e docs (scanned + 1, moved + 1, filed + n) c w
         else (case backfill_archive s e docID deviceID doc b entries w of
             (None, w1) \<Rightarrow> (False, (scanned + 1, moved, filed), c, w1)
           | (Some result, w1) \<Rightarrow>
               (case update_one D c (\<lambda>d. str_of (get d ''_id'') = docID) (backfill_doc result) of
                  (c1, None) \<Rightarrow> (False, (scanned + 1, moved, filed), c1, w1)
                | (c1, Some _) \<Rightarrow> backfill_walk D s e docs (scanned + 1, moved + 1, filed + n) c1 w1)))"

text \<open>Afterwards the devices lose the fields too.\<close>

definition backfill_run :: "('c, obj) driver \<Rightarrow> ('d, obj) driver \<Rightarrow> 'w s3 \<Rightarrow> backfill_env \<Rightarrow> obj list \<Rightarrow> 'c \<Rightarrow> 'd \<Rightarrow> 'w
    \<Rightarrow> bool \<times> (int \<times> int \<times> int) \<times> 'c \<times> 'd \<times> 'w" where
  "backfill_run D E s e docs c devices w =
     (case backfill_walk D s e docs (0, 0, 0) c w of
        (False, n, c1, w1) \<Rightarrow> (False, n, c1, devices, w1)
      | (True, n, c1, w1) \<Rightarrow>
          if bf_dry e then (True, n, c1, devices, w1)
          else (case update_many E devices (\<lambda>_. True) (fold (drop_path \<circ> path_of) backfill_unset) of
              (d1, m) \<Rightarrow> (m \<noteq> None, n, c1, d1, w1)))"

subsection \<open>The day of the upload, not of the visit\<close>

lemma al_upd_again: "al_upd k v [(k, u)] = [(k, v)]"
  by simp

lemma backfill_one_day:
  assumes "list_all (\<lambda>x. as_obj x = None) es"
  shows "foldl (backfill_group t) [(date_str (utc t), g)] es = [(date_str (utc t), g @ es)]"
  using assms by (induction es arbitrary: g) (auto simp: backfill_group_def backfill_visit_time_def backfill_nanos_def Let_def)

text \<open>
  The entries of a stored document are \<^verbatim>\<open>bson.M\<close>, and the type assertion in \<^verbatim>\<open>browserHistoryVisitNanos\<close> asks for the other
  type of map: the time of a visit is never read, and all entries are filed under the day of the report, while
  the server looks for a visit under the day it was made.
\<close>

theorem backfill_files_by_report_day:
  assumes "es \<noteq> []" and "list_all (\<lambda>x. \<exists>m. x = BObj m) es"
  shows "foldl (backfill_group t) [] es = [(date_str (utc t), es)]"
proof -
  obtain x xs where es: "es = x # xs" using assms(1) by (cases es) auto
  have "list_all (\<lambda>x. as_obj x = None) es" using assms(2) by (auto simp: list_all_iff)
  then show ?thesis
    using backfill_one_day[of xs t "[x]"] by (simp add: es backfill_group_def[of t "[]"] backfill_visit_time_def backfill_nanos_def)
qed

section \<open>Upkeep of the server\<close>

text \<open>Deletion of a device's browser history, the third archive of \<^verbatim>\<open>deviceDeleteHandler\<close>.\<close>

definition browser_DeleteDevice :: "'w s3 \<Rightarrow> archive \<Rightarrow> string \<Rightarrow> 'w \<Rightarrow> (bool \<times> int \<times> 'w) option" where
  "browser_DeleteDevice c a deviceID w = delete_pages c (\<lambda>_. True) (device_prefix a deviceID) None (0, w)"

theorem browser_deletion_complete:
  assumes "listing_laws c objs todo"
  shows "\<exists>ok n w'. browser_DeleteDevice c a deviceID w = Some (ok, n, w') \<and> objs w' \<subseteq> objs w
    \<and> (\<forall>x \<in> objs w - objs w'. prefix (device_prefix a deviceID) (so_key x))
    \<and> (ok \<longrightarrow> (\<forall>x \<in> objs w'. \<not> prefix (device_prefix a deviceID) (so_key x)))"
proof -
  have all: "todo None k" for k using assms by (simp add: listing_laws_def)
  show ?thesis
    using delete_pages_effect[OF assms, of "\<lambda>_. True" "device_prefix a deviceID" None 0 w] all
    unfolding browser_DeleteDevice_def by blast
qed

text \<open>At start: a finished or stale lock of the first registration is removed.\<close>

definition bootstrap_lock :: "obj \<Rightarrow> bool" where
  "bootstrap_lock d \<longleftrightarrow> get d ''_id'' = Str ''dashboard_bootstrap''"

definition older_lock :: "gotime \<Rightarrow> obj \<Rightarrow> bool" where
  "older_lock stale d \<longleftrightarrow> bootstrap_lock d \<and> (case get d ''created_at'' of Time_v t \<Rightarrow> before t stale | _ \<Rightarrow> False)"

definition cleanupBootstrapLocks :: "('c, DashboardUser) driver \<Rightarrow> ('g, obj) driver \<Rightarrow> gotime \<Rightarrow> 'c \<Rightarrow> 'g \<Rightarrow> 'g" where
  "cleanupBootstrapLocks D G now users cfg =
     (case find_docs D users (\<lambda>_. True) of
        None \<Rightarrow> cfg
      | Some us \<Rightarrow>
          if us \<noteq> [] then fst (delete_one G cfg bootstrap_lock)
          else fst (delete_one G cfg (older_lock (add now (- (15 * minute_ns))))))"

text \<open>A registration that may still be running keeps its lock: only one that is older than a quarter of an hour, or one
  that led to an account, is removed.\<close>

theorem fresh_lock_kept:
  assumes "driver_laws D" "driver_laws G" and "held D users = []" and "d \<in> set (held G cfg)"
    and "get d ''created_at'' = Time_v t" "\<not> before t (add now (- (15 * minute_ns)))"
  shows "d \<in> set (held G (cleanupBootstrapLocks D G now users cfg))"
proof (cases "find_docs D users (\<lambda>_. True)")
  case None
  then show ?thesis using assms(4) by (simp add: cleanupBootstrapLocks_def)
next
  case (Some us)
  have "mset us = mset (filter (\<lambda>_. True) (held D users))"
    using assms(1) Some unfolding driver_laws_def find_law_def by blast
  then have us: "us = []" using assms(3) by simp
  obtain cfg' n where x: "delete_one G cfg (older_lock (add now (- (15 * minute_ns)))) = (cfg', n)" by fastforce
  have "\<not> older_lock (add now (- (15 * minute_ns))) d" using assms(5,6) by (simp add: older_lock_def)
  moreover have "held G cfg' = held G cfg
      \<or> (\<exists>as e bs. held G cfg = as @ e # bs \<and> held G cfg' = as @ bs \<and> older_lock (add now (- (15 * minute_ns))) e)"
    using driver_delete_one[OF assms(2) x] by blast
  ultimately have "d \<in> set (held G cfg')" using assms(4) by auto
  then show ?thesis by (simp add: cleanupBootstrapLocks_def Some us x)
qed

text \<open>The command line's reset of a password; \<open>None\<close> is a usage error, \<open>Some False\<close> another failure.\<close>

definition resetDashboardPasswordCommand :: "(string \<Rightarrow> string option) \<Rightarrow> ('c, DashboardUser) driver \<Rightarrow> string \<Rightarrow> string \<Rightarrow> gotime \<Rightarrow> 'c
    \<Rightarrow> bool option \<times> 'c" where
  "resetDashboardPasswordCommand bcrypt D email password now users =
     (let address = normalizeEmail email
      in if address = [] \<or> length password < 8 then (None, users)
         else (case bcrypt password of
             None \<Rightarrow> (Some False, users)
           | Some h \<Rightarrow> (case update_one D users (\<lambda>u. u_email u = address)
                 (\<lambda>u. u\<lparr>u_hash := h, u_updated := now, u_status := ''active'', u_epoch := u_epoch u + 1\<rparr>) of
               (users1, None) \<Rightarrow> (Some False, users1)
             | (users1, Some n) \<Rightarrow> (Some (n > 0), users1))))"

text \<open>A reset that reports success gives one account of the address the new password, makes it active and starts a new
  epoch, so that its sessions end; no other account changes.\<close>

theorem reset_command_effect:
  assumes "driver_laws D" and "resetDashboardPasswordCommand bcrypt D email password now users = (Some True, users')"
  shows "\<exists>h as u bs. bcrypt password = Some h \<and> held D users = as @ u # bs \<and> u_email u = normalizeEmail email
    \<and> held D users' = as @ u\<lparr>u_hash := h, u_updated := now, u_status := ''active'', u_epoch := u_epoch u + 1\<rparr> # bs"
proof -
  obtain h n where h: "bcrypt password = Some h" "0 < n"
    "update_one D users (\<lambda>u. u_email u = normalizeEmail email)
       (\<lambda>u. u\<lparr>u_hash := h, u_updated := now, u_status := ''active'', u_epoch := u_epoch u + 1\<rparr>) = (users', Some n)"
    using assms(2) by (auto simp: resetDashboardPasswordCommand_def Let_def split: if_splits option.splits prod.splits)
  have "\<exists>d. one_updated (\<lambda>u. u_email u = normalizeEmail email)
       (\<lambda>u. u\<lparr>u_hash := h, u_updated := now, u_status := ''active'', u_epoch := u_epoch u + 1\<rparr>) (held D users) (held D users') d"
    using driver_update_one[OF assms(1) h(3)] h(2) by auto
  then show ?thesis using h(1) unfolding one_updated_def by blast
qed

end
