(* ===== verification/UsageRepair.thy ===== *)
theory UsageRepair
  imports DayArchive Store
begin

text \<open>
  The repair of days with more than 24 hours of usage, \<^verbatim>\<open>api/cmd/backfill_app_usage\<close>: the sessions of the archived day
  are clipped to the day and to each other, and the row and the object are rewritten. The time zone is an argument.
\<close>

subsection \<open>Normalisation\<close>

record repair_item =
  ri_app :: string
  ri_start :: gotime
  ri_end :: gotime

text \<open>\<open>Decimal128\<close> does not occur among the values.\<close>

definition repair_number :: "val \<Rightarrow> float64" where
  "repair_number v = (case v of F64 x \<Rightarrow> x | Int_v n \<Rightarrow> i2f n | I64 n \<Rightarrow> i2f n | _ \<Rightarrow> 0)"

definition repair_time :: "val \<Rightarrow> gotime" where
  "repair_time v = (case as_str v of Some s \<Rightarrow> (case parse_rfc3339 s of Some t \<Rightarrow> t | None \<Rightarrow> zero_time) | None \<Rightarrow> zero_time)"

text \<open>One session, clipped to the day; \<open>None\<close> when it is left out.\<close>

definition repair_item_of :: "gotime \<Rightarrow> gotime \<Rightarrow> val \<Rightarrow> repair_item option" where
  "repair_item_of day endDay v =
     (case as_obj v of None \<Rightarrow> None
      | Some m \<Rightarrow>
          (let app = str_of (get m ''app_name''); start = repair_time (get m ''start_time''); finish = repair_time (get m ''end_time'')
           in if app = [] \<or> is_zero start \<or> \<not> after finish start then None
              else let start' = (if before start day then day else start); finish' = (if after finish endDay then endDay else finish)
                   in if \<not> after finish' start' then None else Some \<lparr>ri_app = app, ri_start = start', ri_end = finish'\<rparr>))"

text \<open>The text of the key determines the triple; \<^verbatim>\<open>UnixNano\<close> wraps.\<close>

definition repair_key :: "repair_item \<Rightarrow> string \<times> int \<times> int" where
  "repair_key i = (ri_app i, i64 (inst (ri_start i)), i64 (inst (ri_end i)))"

fun repair_collect :: "gotime \<Rightarrow> gotime \<Rightarrow> (string \<times> int \<times> int) set \<Rightarrow> val list \<Rightarrow> repair_item list" where
  "repair_collect day endDay seen [] = []"
| "repair_collect day endDay seen (v # vs) =
     (case repair_item_of day endDay v of
        None \<Rightarrow> repair_collect day endDay seen vs
      | Some i \<Rightarrow> if repair_key i \<in> seen then repair_collect day endDay seen vs
                  else i # repair_collect day endDay (insert (repair_key i) seen) vs)"

fun repair_trim :: "gotime \<Rightarrow> repair_item list \<Rightarrow> repair_item list" where
  "repair_trim occupied [] = []"
| "repair_trim occupied (i # is) =
     (let j = (if before (ri_start i) occupied then i\<lparr>ri_start := occupied\<rparr> else i)
      in if \<not> after (ri_end j) (ri_start j) then repair_trim occupied is
         else j # repair_trim (ri_end j) is)"

definition repair_entry :: "repair_item \<Rightarrow> val" where
  "repair_entry i =
     Obj [(''app_name'', Str (ri_app i)), (''start_time'', Str (rfc3339_str (utc (ri_start i)))),
          (''end_time'', Str (rfc3339_str (utc (ri_end i)))), (''duration_seconds'', F64 (seconds (sub (ri_end i) (ri_start i))))]"

definition repair_items :: "gotime \<Rightarrow> val list \<Rightarrow> repair_item list" where
  "repair_items day raw =
     repair_trim zero_time (sort_key (\<lambda>i. inst (ri_start i)) (repair_collect day (add day day_ns) {} raw))"

text \<open>\<open>None\<close> is the nil slice, for a date that cannot be parsed; \<open>midnight\<close> parses a date in the time zone.\<close>

definition repair_normalize :: "(string \<Rightarrow> gotime option) \<Rightarrow> val list \<Rightarrow> string \<Rightarrow> val list option" where
  "repair_normalize midnight raw date = map_option (\<lambda>day. map repair_entry (repair_items day raw)) (midnight date)"

subsection \<open>Summary\<close>

definition tally_entry :: "(string \<times> float64 \<times> int) list \<Rightarrow> val \<Rightarrow> (string \<times> float64 \<times> int) list" where
  "tally_entry acc v =
     (let m = (case as_obj v of Some m \<Rightarrow> m | None \<Rightarrow> []); app = str_of (get m ''app_name'');
          (t, n) = (case map_of acc app of Some r \<Rightarrow> r | None \<Rightarrow> (0, 0))
      in al_upd app (fadd t (repair_number (get m ''duration_seconds'')), n + 1) acc)"

text \<open>\<open>walk1\<close> and \<open>walk2\<close> are the orders of the two walks over the map, \<open>walk3\<close> what the unstable sort makes of equal totals.\<close>

definition repair_summarize :: "((string \<times> float64 \<times> int) list \<Rightarrow> (string \<times> float64 \<times> int) list)
    \<Rightarrow> ((string \<times> float64 \<times> int) list \<Rightarrow> (string \<times> float64 \<times> int) list) \<Rightarrow> val list \<Rightarrow> val list \<times> float64 \<times> int" where
  "repair_summarize walk1 walk2 raw =
     (let tally = foldl tally_entry [] raw;
          apps = sort_key (\<lambda>(app, t, n). - t) (walk1 tally)
      in (map (\<lambda>(app, t, n). Obj [(''app_name'', Str app), (''total_seconds'', F64 t), (''session_count'', Int_v n)]) apps,
          foldl (\<lambda>s (app, t, n). fadd s t) 0 (walk2 tally), int (length raw)))"

subsection \<open>The run\<close>

definition path_part :: "string \<Rightarrow> string" where
  "path_part value = map (\<lambda>c. if c = CHR ''/'' \<or> c = CHR 0x5C then CHR ''_'' else c) (trim_space value)"

text \<open>\<open>None\<close>: the date is too short, and the slice expression panics.\<close>

definition activityKey :: "string \<Rightarrow> string \<Rightarrow> string \<Rightarrow> string \<Rightarrow> string option" where
  "activityKey prefix_dir deviceID username date =
     (if length date < 10 then None
      else Some (prefix_dir @ ''/year='' @ take 4 date @ ''/month='' @ take 2 (drop 5 date) @ ''/day='' @ take 2 (drop 8 date)
                 @ ''/device_id='' @ path_part deviceID @ ''/user='' @ path_part username @ ''/activity.json''))"

record repair_env =
  re_prefix :: string
  re_dry :: bool
  re_limit :: int
  re_now :: gotime
  re_midnight :: "string \<Rightarrow> gotime option"
  re_walk1 :: "(string \<times> float64 \<times> int) list \<Rightarrow> (string \<times> float64 \<times> int) list"
  re_walk2 :: "(string \<times> float64 \<times> int) list \<Rightarrow> (string \<times> float64 \<times> int) list"

text \<open>How a row ends: counted or not, passed over, or the run stops (\<^verbatim>\<open>log.Fatal\<close>, a panic).\<close>

datatype row_end = Counted | Passed | Stopped

definition repair_body :: "repair_env \<Rightarrow> obj \<Rightarrow> val list option \<Rightarrow> val list \<times> float64 \<times> int \<Rightarrow> val" where
  "repair_body e doc normalized r =
     (case r of (apps, total_s, n) \<Rightarrow>
        json_val (Obj (al_upd ''updated_at'' (Time_v (utc (re_now e))) (al_upd ''session_count'' (Int_v n)
          (al_upd ''total_seconds'' (F64 total_s) (al_upd ''apps'' (Arr apps)
             (al_upd ''sessions'' (case normalized of None \<Rightarrow> Nil_v | Some es \<Rightarrow> Arr es) doc)))))))"

definition repair_write :: "('c, obj) driver \<Rightarrow> 'w s3 \<Rightarrow> repair_env \<Rightarrow> obj \<Rightarrow> string \<Rightarrow> obj \<Rightarrow> string \<Rightarrow> val list option
    \<Rightarrow> 'c \<Rightarrow> 'w \<Rightarrow> row_end \<times> 'c \<times> 'w" where
  "repair_write D s e row key doc etag normalized c w =
     (let r = repair_summarize (re_walk1 e) (re_walk2 e) (case normalized of None \<Rightarrow> [] | Some es \<Rightarrow> es)
      in case s3_put s key (repair_body e doc normalized r) (If_match etag) w of
           (Some code, w1) \<Rightarrow> (if lost_race code then Passed else Stopped, c, w1)
         | (None, w1) \<Rightarrow>
             (case r of (apps, total_s, n) \<Rightarrow>
               (case update_one D c (\<lambda>d. get d ''_id'' = get row ''_id'')
                   (\<lambda>d. al_upd ''updated_at'' (Time_v (re_now e)) (al_upd ''top_apps'' (BArr apps)
                      (al_upd ''session_count'' (Int_v n) (al_upd ''total_seconds'' (F64 total_s) d)))) of
                  (c1, None) \<Rightarrow> (Stopped, c1, w1)
                | (c1, Some _) \<Rightarrow> (Counted, c1, w1))))"

definition repair_row :: "('c, obj) driver \<Rightarrow> 'w s3 \<Rightarrow> repair_env \<Rightarrow> obj \<Rightarrow> 'c \<Rightarrow> 'w \<Rightarrow> row_end \<times> 'c \<times> 'w" where
  "repair_row D s e row c w =
     (let date = str_of (get row ''date'')
      in case activityKey (re_prefix e) (str_of (get row ''device_id'')) (str_of (get row ''username'')) date of
        None \<Rightarrow> (Stopped, c, w)
      | Some key0 \<Rightarrow>
          (let key = (if str_of (get row ''archive_key'') \<noteq> [] then str_of (get row ''archive_key'') else key0)
           in case s3_get s key w of
             (Found (Some body) etag, w1) \<Rightarrow>
               (case (case body of Obj m \<Rightarrow> Some (Some m) | Nil_v \<Rightarrow> Some None | _ \<Rightarrow> None) of
                  None \<Rightarrow> (Passed, c, w1)
                | Some doc \<Rightarrow>
                    (let raw = (case doc of None \<Rightarrow> [] | Some m \<Rightarrow> (case as_arr (get m ''sessions'') of Some vs \<Rightarrow> vs | None \<Rightarrow> []));
                         normalized = repair_normalize (re_midnight e) raw date
                     in if re_dry e then (Counted, c, w1)
                        else (case doc of None \<Rightarrow> (Stopped, c, w1) | Some m \<Rightarrow> repair_write D s e row key m etag normalized c w1)))
           | (_, w1) \<Rightarrow> (Passed, c, w1)))"

text \<open>The rows of the query, longest day first: scanned and repaired rows. A body that is \<^verbatim>\<open>null\<close> gives a nil map, and
  writing to it panics.\<close>

fun repair_rows :: "('c, obj) driver \<Rightarrow> 'w s3 \<Rightarrow> repair_env \<Rightarrow> obj list \<Rightarrow> int \<times> int \<Rightarrow> 'c \<Rightarrow> 'w \<Rightarrow> bool \<times> (int \<times> int) \<times> 'c \<times> 'w" where
  "repair_rows D s e [] n c w = (True, n, c, w)"
| "repair_rows D s e (row # rows) (scanned, repaired) c w =
     (if re_limit e > 0 \<and> repaired \<ge> re_limit e then (True, (scanned + 1, repaired), c, w)
      else (case repair_row D s e row c w of
          (Stopped, c1, w1) \<Rightarrow> (False, (scanned + 1, repaired), c1, w1)
        | (Passed, c1, w1) \<Rightarrow> repair_rows D s e rows (scanned + 1, repaired) c1 w1
        | (Counted, c1, w1) \<Rightarrow> repair_rows D s e rows (scanned + 1, repaired + 1) c1 w1))"

subsection \<open>A repaired day has at most a day\<close>

lemma repair_item_in:
  assumes "repair_item_of day endDay v = Some i"
  shows "inst day \<le> inst (ri_start i)" and "inst (ri_end i) \<le> inst endDay" and "inst (ri_start i) < inst (ri_end i)"
  using assms by (auto simp: repair_item_of_def Let_def before_def after_def split: option.splits if_splits)

lemma repair_collect_in:
  "i \<in> set (repair_collect day endDay seen vs) \<Longrightarrow> inst day \<le> inst (ri_start i) \<and> inst (ri_end i) \<le> inst endDay \<and> inst (ri_start i) < inst (ri_end i)"
  by (induction vs arbitrary: seen) (auto split: option.splits if_splits dest: repair_item_in)

definition spent :: "repair_item \<Rightarrow> int" where
  "spent i = inst (ri_end i) - inst (ri_start i)"

text \<open>The items after a moment: in order, apart, each of some length.\<close>

fun apart_from :: "int \<Rightarrow> repair_item list \<Rightarrow> bool" where
  "apart_from t [] \<longleftrightarrow> True"
| "apart_from t (i # is) \<longleftrightarrow> t \<le> inst (ri_start i) \<and> inst (ri_start i) < inst (ri_end i) \<and> apart_from (inst (ri_end i)) is"

lemma repair_trim_apart:
  assumes "\<forall>i \<in> set is. a \<le> inst (ri_start i) \<and> inst (ri_end i) \<le> b"
  shows "apart_from (inst occupied) (repair_trim occupied is) \<and> (\<forall>i \<in> set (repair_trim occupied is). a \<le> inst (ri_start i) \<and> inst (ri_end i) \<le> b)"
  using assms
proof (induction "is" arbitrary: occupied)
  case (Cons i "is")
  let ?j = "if before (ri_start i) occupied then i\<lparr>ri_start := occupied\<rparr> else i"
  have j: "inst occupied \<le> inst (ri_start ?j)" "a \<le> inst (ri_start ?j)" "inst (ri_end ?j) \<le> b"
    using Cons.prems by (auto simp: before_def)
  show ?case
  proof (cases "after (ri_end ?j) (ri_start ?j)")
    case True
    have "repair_trim occupied (i # is) = ?j # repair_trim (ri_end ?j) is" using True by (simp add: Let_def)
    moreover have "inst (ri_start ?j) < inst (ri_end ?j)" using True by (simp only: after_def)
    ultimately show ?thesis using Cons.IH[of "ri_end ?j"] Cons.prems j by (simp del: repair_trim.simps)
  next
    case False
    then have "repair_trim occupied (i # is) = repair_trim occupied is" by (simp add: Let_def)
    then show ?thesis using Cons.IH[of occupied] Cons.prems by simp
  qed
qed simp

lemma apart_from_later: "apart_from t is \<Longrightarrow> \<forall>i \<in> set is. a \<le> inst (ri_start i) \<Longrightarrow> apart_from (max a t) is"
  by (cases "is") auto

lemma apart_from_sum:
  assumes "apart_from t is" and "\<forall>i \<in> set is. inst (ri_end i) \<le> b" and "t \<le> b"
  shows "sum_list (map spent is) \<le> b - t"
  using assms
proof (induction "is" arbitrary: t)
  case (Cons i "is")
  have "sum_list (map spent is) \<le> b - inst (ri_end i)" using Cons.IH[of "inst (ri_end i)"] Cons.prems by simp
  moreover have "spent i = inst (ri_end i) - inst (ri_start i)" "t \<le> inst (ri_start i)" using Cons.prems(1) by (simp_all add: spent_def)
  ultimately show ?case by simp
qed simp

text \<open>
  After the repair the sessions of a day are in order and apart, inside the day, and add up to at most 24 hours, whatever
  was archived.
\<close>

theorem repaired_day_bounded:
  shows "apart_from (inst day) (repair_items day raw)" and "\<forall>i \<in> set (repair_items day raw). inst (ri_end i) \<le> inst day + day_ns"
    and "sum_list (map spent (repair_items day raw)) \<le> day_ns"
proof -
  let ?items = "sort_key (\<lambda>i. inst (ri_start i)) (repair_collect day (add day day_ns) {} raw)"
  have "\<forall>i \<in> set ?items. inst day \<le> inst (ri_start i) \<and> inst (ri_end i) \<le> inst day + day_ns"
    using repair_collect_in[of _ day "add day day_ns"] by simp
  from repair_trim_apart[OF this, of zero_time]
  have trimmed: "apart_from (inst zero_time) (repair_items day raw)"
    "\<forall>i \<in> set (repair_items day raw). inst day \<le> inst (ri_start i) \<and> inst (ri_end i) \<le> inst day + day_ns"
    unfolding repair_items_def by blast+
  then show "\<forall>i \<in> set (repair_items day raw). inst (ri_end i) \<le> inst day + day_ns" by blast
  show "apart_from (inst day) (repair_items day raw)"
    using trimmed by (cases "repair_items day raw") auto
  then show "sum_list (map spent (repair_items day raw)) \<le> day_ns"
    using apart_from_sum[of "inst day" "repair_items day raw" "inst day + day_ns"] trimmed(2) by (simp add: ns_units)
qed

end
