(* ===== verification/FocusExtension.thy ===== *)
theory FocusExtension
  imports Quarantine Paths FocusTracker
begin

text \<open>
  The GNOME Shell extension that tells which window has the focus: its installation for the logged-in user
  (\<^verbatim>\<open>agent/gnomeext\<close>) and the loop that keeps it installed (\<^verbatim>\<open>agent/focusext.go\<close>). Files and programs are calls on the
  world \<open>'w\<close>; an error is its text.
\<close>

subsection \<open>Lists as gsettings prints them\<close>

definition UUID :: string where "UUID = ''devicepulse-focus@waybeyond.tech''"

definition quote_chars :: "char set" where "quote_chars = {CHR 0x27, CHR 0x22}"

definition parseStringList :: "string \<Rightarrow> string list" where
  "parseStringList s =
     (let s1 = trim_space (trim_prefix (trim_space s) ''@as'');
          s2 = trim_space (trim_suffix (trim_prefix s1 ''['') '']'')
      in filter (\<lambda>p. p \<noteq> []) (map (\<lambda>p. trim_set quote_chars (trim_space p)) (split_on CHR '','' s2)))"

definition quote_item :: "string \<Rightarrow> string" where
  "quote_item it = [CHR 0x27] @ it @ [CHR 0x27]"

definition formatStringList :: "string list \<Rightarrow> string" where
  "formatStringList items = ''['' @ join_with '', '' (map quote_item items) @ '']''"

subsection \<open>Installation\<close>

record 'w desktop =
  dk_getenv :: "string \<Rightarrow> string"
  dk_home :: string
  dk_run :: "string \<Rightarrow> string list \<Rightarrow> 'w \<Rightarrow> (string \<times> string option) \<times> 'w"
  dk_running :: "'w \<Rightarrow> bool"
  dk_asset :: "string \<Rightarrow> string + string"
  dk_read :: "string \<Rightarrow> 'w \<Rightarrow> string option"
  dk_mkdir :: "string \<Rightarrow> 'w \<Rightarrow> string option \<times> 'w"
  dk_temp :: "string \<Rightarrow> string \<Rightarrow> 'w \<Rightarrow> (string + string) \<times> 'w"
  dk_write :: "string \<Rightarrow> string \<Rightarrow> 'w \<Rightarrow> (string option \<times> string option) \<times> 'w"
  dk_chmod :: "string \<Rightarrow> 'w \<Rightarrow> string option \<times> 'w"
  dk_rename :: "string \<Rightarrow> string \<Rightarrow> 'w \<Rightarrow> string option \<times> 'w"
  dk_remove :: "string \<Rightarrow> 'w \<Rightarrow> 'w"

definition err_text :: "string option \<Rightarrow> string" where
  "err_text e = (case e of None \<Rightarrow> ''<nil>'' | Some t \<Rightarrow> t)"

text \<open>One file: whether it was written, or the error.\<close>

definition install_file :: "'w desktop \<Rightarrow> string \<Rightarrow> string \<Rightarrow> 'w \<Rightarrow> (string + bool) \<times> 'w" where
  "install_file d dir name w =
     (let path = filepath_join [dir, name]
      in case dk_asset d (''assets/'' @ name) of
        Inl err \<Rightarrow> (Inl err, w)
      | Inr want \<Rightarrow>
          if dk_read d path w = Some want then (Inr False, w)
          else (case dk_mkdir d dir w of
            (Some err, w1) \<Rightarrow> (Inl err, w1)
          | (None, w1) \<Rightarrow> (case dk_temp d dir (''.'' @ name @ ''-*'') w1 of
              (Inl err, w2) \<Rightarrow> (Inl err, w2)
            | (Inr tmp, w2) \<Rightarrow> (case dk_write d tmp want w2 of ((werr, cerr), w3) \<Rightarrow>
                if werr \<noteq> None \<or> cerr \<noteq> None
                then (Inl (''write '' @ name @ '': '' @ err_text werr @ '' '' @ err_text cerr), dk_remove d tmp w3)
                else (case dk_chmod d tmp w3 of
                  (Some err, w4) \<Rightarrow> (Inl err, dk_remove d tmp w4)
                | (None, w4) \<Rightarrow> (case dk_rename d tmp path w4 of
                    (Some err, w5) \<Rightarrow> (Inl err, dk_remove d tmp w5)
                  | (None, w5) \<Rightarrow> (Inr True, w5)))))))"

fun install_files :: "'w desktop \<Rightarrow> string \<Rightarrow> string list \<Rightarrow> bool \<Rightarrow> 'w \<Rightarrow> (string + bool) \<times> 'w" where
  "install_files d dir [] changed w = (Inr changed, w)"
| "install_files d dir (n # ns) changed w =
     (case install_file d dir n w of
        (Inl err, w1) \<Rightarrow> (Inl err, w1)
      | (Inr wrote, w1) \<Rightarrow> install_files d dir ns (changed \<or> wrote) w1)"

definition installFiles :: "'w desktop \<Rightarrow> string \<Rightarrow> 'w \<Rightarrow> (string + bool) \<times> 'w" where
  "installFiles d dir = install_files d dir [''extension.js'', ''metadata.json''] False"

definition enableExtension :: "'w desktop \<Rightarrow> 'w \<Rightarrow> (string + bool) \<times> 'w" where
  "enableExtension d w =
     (case dk_run d ''gsettings'' [''get'', ''org.gnome.shell'', ''enabled-extensions''] w of
        ((out, Some err), w1) \<Rightarrow> (Inl (''gsettings: '' @ err @ '': '' @ out), w1)
      | ((out, None), w1) \<Rightarrow>
          (let items = parseStringList out
           in if UUID \<in> set items then (Inr False, w1)
              else (case dk_run d ''gsettings'' [''set'', ''org.gnome.shell'', ''enabled-extensions'', formatStringList (items @ [UUID])] w1 of
                  ((out2, Some err), w2) \<Rightarrow> (Inl (''gsettings set: '' @ err @ '': '' @ out2), w2)
                | ((_, None), w2) \<Rightarrow> (Inr True, snd (dk_run d ''gnome-extensions'' [''enable'', UUID] w2)))))"

text \<open>A state and a note for the dashboard.\<close>

definition ensure_status :: "bool \<Rightarrow> 'w desktop \<Rightarrow> 'w \<Rightarrow> (string \<times> string) \<times> 'w" where
  "ensure_status on_linux d w =
     (if \<not> on_linux \<and> dk_getenv d ''DEVICEPULSE_TEST_FORCE_LINUX'' \<noteq> ''true'' then ((''not_gnome'', []), w)
      else if to_lower (trim_space (dk_getenv d ''DEVICEPULSE_NO_EXTENSION_INSTALL'')) = ''true''
      then ((''opted_out'', ''GNOME focus extension install is disabled (DEVICEPULSE_NO_EXTENSION_INSTALL)''), w)
      else if \<not> contains_str (to_lower (dk_getenv d ''XDG_CURRENT_DESKTOP'')) ''gnome'' then ((''not_gnome'', []), w)
      else if dk_home d = []
      then ((''error'', ''cannot find the user'' @ [CHR 0x27] @ ''s home directory to install the GNOME focus extension''), w)
      else (case installFiles d (filepath_join [dk_home d, ''.local'', ''share'', ''gnome-shell'', ''extensions'', UUID]) w of
          (Inl err, w1) \<Rightarrow> ((''error'', ''could not install the GNOME focus extension: '' @ err), w1)
        | (Inr changed, w1) \<Rightarrow> (case enableExtension d w1 of
            (Inl err, w2) \<Rightarrow> ((''error'', ''installed the GNOME focus extension but could not enable it: '' @ err), w2)
          | (Inr _, w2) \<Rightarrow>
              (case dk_run d ''gsettings'' [''get'', ''org.gnome.shell'', ''disable-user-extensions''] w2 of ((out, err), w3) \<Rightarrow>
                if err = None \<and> trim_space out = ''true''
                then ((''user_extensions_disabled'', ''GNOME is set to ignore user extensions, so app tracking cannot work here; an administrator must allow them (disable-user-extensions)''), w3)
                else if dk_running d w3
                then ((''running'', if changed then ''focus extension updated; the new version loads at the next login'' else []), w3)
                else ((''needs_relogin'', ''GNOME focus extension installed; log out and back in to activate it. App tracking is unavailable until then''), w3)))))"

text \<open>One round of the loop: the note for the tracker and the wait before the next round, \<open>None\<close> at its end.\<close>

definition maintainFocusExtension :: "string \<times> string \<Rightarrow> ActiveWindowTracker \<Rightarrow> ActiveWindowTracker \<times> int option" where
  "maintainFocusExtension st tracker =
     (SetFocusNote (snd st) tracker,
      if fst st \<in> {''not_gnome'', ''opted_out''} then None
      else if fst st = ''running'' then Some (60 * minute_ns) else Some (5 * minute_ns))"

subsection \<open>Other extensions stay enabled\<close>

text \<open>An identifier without quotes, commas and blanks at its ends.\<close>

definition plain_item :: "string \<Rightarrow> bool" where
  "plain_item it \<longleftrightarrow> it \<noteq> [] \<and> set it \<inter> (quote_chars \<union> {CHR '',''}) = {}"

lemma split_on_at_sep: "split_on c (a @ c # b) = split_on c a @ split_on c b"
  by (induction a) (auto split: list.splits)

lemma trim_quoted: "trim_space (quote_item it) = quote_item it" "trim_space (CHR '' '' # quote_item it) = quote_item it"
  by (simp_all add: trim_space_def quote_item_def is_space_def)

lemma trim_ends:
  assumes "s \<noteq> []" "\<not> is_space (hd s)" "\<not> is_space (last s)"
  shows "trim_space s = s"
proof -
  have "dropWhile is_space s = s" "dropWhile is_space (rev s) = rev s"
    using assms by (simp_all add: dropWhile_eq_self_iff hd_rev)
  then show ?thesis by (simp add: trim_space_def)
qed

lemma unquote:
  assumes "plain_item it"
  shows "trim_set quote_chars (quote_item it) = it"
proof -
  have p: "hd it \<notin> quote_chars" "last it \<notin> quote_chars" "it \<noteq> []"
    using assms by (auto simp: plain_item_def disjoint_iff)
  have "dropWhile (\<lambda>c. c \<in> quote_chars) (quote_item it) = dropWhile (\<lambda>c. c \<in> quote_chars) (it @ [CHR 0x27])"
    by (simp add: quote_item_def quote_chars_def)
  also have "\<dots> = it @ [CHR 0x27]" using p(1,3) by (simp add: dropWhile_eq_self_iff)
  finally have front: "dropWhile (\<lambda>c. c \<in> quote_chars) (quote_item it) = it @ [CHR 0x27]" .
  have "dropWhile (\<lambda>c. c \<in> quote_chars) (rev it) = rev it" using p(2,3) by (simp add: dropWhile_eq_self_iff hd_rev)
  moreover have "dropWhile (\<lambda>c. c \<in> quote_chars) (rev (it @ [CHR 0x27])) = dropWhile (\<lambda>c. c \<in> quote_chars) (rev it)"
    by (simp add: quote_chars_def)
  ultimately show ?thesis by (simp only: trim_set_def front rev_rev_ident)
qed

lemma split_items:
  assumes "list_all plain_item items" and "items \<noteq> []"
  shows "split_on CHR '','' (join_with '', '' (map quote_item items)) = quote_item (hd items) # map (\<lambda>i. CHR '' '' # quote_item i) (tl items)"
  using assms
proof (induction items)
  case (Cons x xs)
  have x: "CHR '','' \<notin> set (quote_item x)" using Cons.prems(1) by (auto simp: plain_item_def quote_item_def)
  show ?case
  proof (cases xs)
    case Nil
    then show ?thesis using split_on_no_sep[OF x] by simp
  next
    case (Cons y ys)
    have "split_on CHR '','' (join_with '', '' (map quote_item (x # xs)))
        = quote_item x # split_on CHR '','' (CHR '' '' # join_with '', '' (map quote_item xs))"
      using split_on_append_sep[OF x] Cons by simp
    moreover obtain p ps where "split_on CHR '','' (join_with '', '' (map quote_item xs)) = p # ps"
      by (metis list.exhaust split_on_not_Nil)
    ultimately show ?thesis using Cons.IH Cons.prems local.Cons by simp
  qed
qed simp

theorem string_list_roundtrip:
  assumes "list_all plain_item items"
  shows "parseStringList (formatStringList items) = items"
proof (cases "items = []")
  case True
  then show ?thesis by (simp add: formatStringList_def) code_simp
next
  case False
  let ?body = "join_with '', '' (map quote_item items)"
  have ends: "?body \<noteq> [] \<and> hd ?body = CHR 0x27 \<and> last ?body = CHR 0x27"
    using False by (induction items rule: induct_list012) (auto simp: quote_item_def)
  have t: "trim_space (''['' @ ?body @ '']'') = ''['' @ ?body @ '']''" "trim_space ?body = ?body"
    by (rule trim_ends; use ends in \<open>simp add: is_space_def\<close>)+
  have "parseStringList (formatStringList items)
      = filter (\<lambda>p. p \<noteq> []) (map (\<lambda>p. trim_set quote_chars (trim_space p)) (split_on CHR '','' ?body))"
    using t by (simp add: parseStringList_def formatStringList_def trim_prefix_def trim_suffix_def)
  also have "map (\<lambda>p. trim_set quote_chars (trim_space p)) (split_on CHR '','' ?body) = items"
  proof -
    have "map (\<lambda>i. trim_set quote_chars (trim_space (CHR '' '' # quote_item i))) (tl items) = tl items"
      using assms False by (intro map_idI) (auto simp: trim_quoted unquote list_all_iff dest: list.set_sel(2))
    moreover have "trim_set quote_chars (quote_item (hd items)) = hd items"
      using assms False by (intro unquote) (simp add: list_all_iff)
    ultimately show ?thesis
      by (simp add: split_items[OF assms False] trim_quoted(1) comp_def False)
  qed
  finally show ?thesis using assms by (simp add: plain_item_def list_all_iff)
qed

text \<open>\<open>setting\<close> reads the stored list; the tool prints what was stored, and only a set changes it.\<close>

definition gsettings_laws :: "'w desktop \<Rightarrow> ('w \<Rightarrow> string list) \<Rightarrow> bool" where
  "gsettings_laws d setting \<longleftrightarrow>
     (\<forall>w out w'. dk_run d ''gsettings'' [''get'', ''org.gnome.shell'', ''enabled-extensions''] w = ((out, None), w') \<longrightarrow>
        out = formatStringList (setting w) \<and> setting w' = setting w)
     \<and> (\<forall>items w out w'. dk_run d ''gsettings'' [''set'', ''org.gnome.shell'', ''enabled-extensions'', formatStringList items] w = ((out, None), w') \<longrightarrow>
        setting w' = items)
     \<and> (\<forall>w. setting (snd (dk_run d ''gnome-extensions'' [''enable'', UUID] w)) = setting w)"

theorem others_stay_enabled:
  assumes laws: "gsettings_laws d setting" and plain: "list_all plain_item (setting w)" and run: "enableExtension d w = (Inr changed, w')"
  shows "setting w' = setting w @ (if UUID \<in> set (setting w) then [] else [UUID])"
proof -
  obtain out e w1 where get: "dk_run d ''gsettings'' [''get'', ''org.gnome.shell'', ''enabled-extensions''] w = ((out, e), w1)"
    by (metis prod.exhaust)
  have e: "e = None" using run get by (auto simp: enableExtension_def split: option.splits)
  have o: "parseStringList out = setting w" "setting w1 = setting w"
    using laws get string_list_roundtrip[OF plain] unfolding gsettings_laws_def e by auto
  show ?thesis
  proof (cases "UUID \<in> set (setting w)")
    case True
    then show ?thesis using run get o by (simp add: enableExtension_def e)
  next
    case False
    obtain out2 e2 w2 where upd: "dk_run d ''gsettings'' [''set'', ''org.gnome.shell'', ''enabled-extensions'', formatStringList (setting w @ [UUID])] w1 = ((out2, e2), w2)"
      by (metis prod.exhaust)
    have "e2 = None" "w' = snd (dk_run d ''gnome-extensions'' [''enable'', UUID] w2)"
      using run get upd False o by (auto simp: enableExtension_def e Let_def split: option.splits)
    then show ?thesis using laws upd False unfolding gsettings_laws_def by auto
  qed
qed

end
